(* ===== verification/Go_Prelude.thy ===== *)
theory Go_Prelude
  imports
    Main
    "HOL-Library.Word"
    "HOL-Library.Sublist"
    "HOL-Library.AList"
    "HOL-Library.Char_ord"
    "HOL-Library.List_Lexorder"
begin

text \<open>
  Shared vocabulary of the development: results of fallible Go functions, 64-bit counters,
  Go maps as association lists, the \<open>time.Time\<close> value, and the three interfaces (locales)
  that the components are proved against: invariant machines, sealed machines and stamped
  machines for the stateful aggregates, and collision binding for every use of SHA-256.
\<close>

section \<open>Results and counters\<close>

text \<open>
  A Go function that returns \<open>(value, error)\<close> is modelled by a sum: \<open>Inl\<close> carries the error,
  \<open>Inr\<close> the value. A method that mutates its receiver returns the new receiver.
\<close>

named_theorems go_defs \<open>definitions that component proofs unfold together\<close>

definition andThen :: "'e + 'a \<Rightarrow> ('a \<Rightarrow> 'e + 'b) \<Rightarrow> 'e + 'b" where
  "andThen r k = (case r of Inl e \<Rightarrow> Inl e | Inr x \<Rightarrow> k x)"

lemma andThen_simps [simp]: "andThen (Inr x) k = k x" "andThen (Inl e) k = Inl e"
  by (simp_all add: andThen_def)

lemma andThen_Inr: "andThen r k = Inr y \<longleftrightarrow> (\<exists>x. r = Inr x \<and> k x = Inr y)"
  by (cases r) auto

type_synonym uint64 = "64 word"
type_synonym uint16 = "16 word"

abbreviation max_uint64 :: uint64 where
  "max_uint64 \<equiv> - 1"

lemma unat_inc_uint64: "w \<noteq> max_uint64 \<Longrightarrow> unat (w + 1 :: uint64) = Suc (unat w)"
  by (metis add.commute add_eq_0_iff2 unatSuc)

lemma unat_less_inc_uint64 [simp]: "w \<noteq> max_uint64 \<Longrightarrow> unat w < unat (w + 1 :: uint64)"
  by (simp add: unat_inc_uint64)

lemma inc_uint64_nonzero: "w \<noteq> max_uint64 \<Longrightarrow> (w + 1 :: uint64) \<noteq> 0"
  using unat_inc_uint64 by fastforce

lemma unat_max_uint64: "unat max_uint64 = 2 ^ 64 - 1"
  by (simp add: unsigned_minus_1_eq_mask mask_eq_exp_minus_1)

lemma unat_lt64: "unat (w :: uint64) < 2 ^ 64"
proof -
  have "unat w < 2 ^ LENGTH(64)" by (rule unsigned_less)
  then show ?thesis by simp
qed

lemma unat_of_nat_uint64: "n < 2 ^ 64 \<Longrightarrow> unat (of_nat n :: uint64) = n"
  by (simp add: unat_of_nat)

section \<open>Go maps as association lists\<close>

text \<open>
  A Go map of bounded size is an association list with distinct keys: \<open>map_of\<close> is the index
  expression, \<open>AList.update\<close> the assignment, \<open>AList.delete\<close> the \<open>delete\<close> builtin and
  \<open>length\<close> is \<open>len\<close>. Iteration over a Go map is iteration over the list, used by the code only
  for order-independent questions.
\<close>

abbreviation keys :: "('k \<times> 'v) list \<Rightarrow> 'k list" where
  "keys m \<equiv> map fst m"

abbreviation vals :: "('k \<times> 'v) list \<Rightarrow> 'v list" where
  "vals m \<equiv> map snd m"

lemma length_update_fresh:
  "k \<notin> set (keys m) \<Longrightarrow> length (AList.update k v m) = Suc (length m)"
  by (induction m) auto

lemma update_fresh: "k \<notin> set (keys m) \<Longrightarrow> AList.update k v m = m @ [(k, v)]"
  by (induction m) auto

lemma length_update_present:
  "k \<in> set (keys m) \<Longrightarrow> length (AList.update k v m) = length m"
  by (induction m) auto

lemma map_of_None_keys: "map_of m k = None \<longleftrightarrow> k \<notin> set (keys m)"
  by (simp add: map_of_eq_None_iff image_iff)

lemma map_of_Some_keys: "map_of m k = Some v \<Longrightarrow> k \<in> set (keys m)"
  by (metis map_of_None_keys option.distinct(1))

lemma keys_update_present: "k \<in> set (keys m) \<Longrightarrow> keys (AList.update k v m) = keys m"
  by (induction m) auto

lemma delete_eq_filter: "AList.delete k m = filter (\<lambda>(k', _). k \<noteq> k') m"
  by (simp add: AList.delete_eq)

lemma set_delete: "set (AList.delete k m) = {kv \<in> set m. fst kv \<noteq> k}"
  by (auto simp: AList.delete_eq)

lemma distinct_keys_delete: "distinct (keys m) \<Longrightarrow> distinct (keys (AList.delete k m))"
  by (simp add: AList.distinct_delete)

lemma map_of_eq_Some_distinct:
  "distinct (keys m) \<Longrightarrow> map_of m k = Some v \<longleftrightarrow> (k, v) \<in> set m"
  by simp

lemma distinct_keys_set_map_of_eq:
  "distinct (keys m) \<Longrightarrow> distinct (keys m') \<Longrightarrow> set m = set m' \<Longrightarrow> map_of m = map_of m'"
  by (rule map_of_inject_set [THEN iffD2])

lemma length_delete_present:
  "distinct (keys m) \<Longrightarrow> k \<in> set (keys m) \<Longrightarrow> length m = Suc (length (AList.delete k m))"
proof (induction m)
  case Nil
  then show ?case by simp
next
  case (Cons kv m)
  show ?case
  proof (cases "fst kv = k")
    case True
    with Cons.prems have "k \<notin> set (keys m)" by simp
    then have "AList.delete k m = m" by (simp add: AList.delete_idem)
    with True show ?thesis by (cases kv) simp
  next
    case False
    with Cons show ?thesis by (cases kv) auto
  qed
qed

section \<open>Time\<close>

text \<open>
  \<open>time.Time\<close>: nanoseconds of wall time since the zero time (0001-01-01T00:00:00Z), the
  monotonic reading if the value carries one, and the offset of its location in seconds at that
  instant. The comparison and difference methods use the monotonic readings when both values
  have one, and the wall times otherwise.
\<close>

datatype gotime = GoTime (wall: int) (mono: "int option") (zone: int)

abbreviation zero_time :: gotime where
  "zero_time \<equiv> GoTime 0 None 0"

definition is_zero :: "gotime \<Rightarrow> bool" where
  "is_zero t \<longleftrightarrow> wall t = 0"

definition tcompare :: "gotime \<Rightarrow> gotime \<Rightarrow> int" where
  "tcompare a b = (case (mono a, mono b) of (Some x, Some y) \<Rightarrow> x - y | _ \<Rightarrow> wall a - wall b)"

definition before :: "gotime \<Rightarrow> gotime \<Rightarrow> bool" where
  "before a b \<longleftrightarrow> tcompare a b < 0"

definition after :: "gotime \<Rightarrow> gotime \<Rightarrow> bool" where
  "after a b \<longleftrightarrow> tcompare a b > 0"

definition time_equal :: "gotime \<Rightarrow> gotime \<Rightarrow> bool" where
  "time_equal a b \<longleftrightarrow> tcompare a b = 0"

text \<open>\<open>Sub\<close> saturates at the ends of the 64-bit duration range.\<close>

definition time_sub :: "gotime \<Rightarrow> gotime \<Rightarrow> int" where
  "time_sub a b = max (- (2 ^ 63)) (min (2 ^ 63 - 1) (tcompare a b))"

definition time_add :: "gotime \<Rightarrow> int \<Rightarrow> gotime" where
  "time_add t d = GoTime (wall t + d) (map_option (\<lambda>m. m + d) (mono t)) (zone t)"

text \<open>\<open>Round(0)\<close> strips the monotonic reading; \<open>UTC()\<close> only changes the location.\<close>

definition round0 :: "gotime \<Rightarrow> gotime" where
  "round0 t = GoTime (wall t) None (zone t)"

definition utc :: "gotime \<Rightarrow> gotime" where
  "utc t = GoTime (wall t) (mono t) 0"

abbreviation second :: int where "second \<equiv> 1000000000"
abbreviation hour :: int where "hour \<equiv> 3600 * second"

text \<open>
  \<open>Year()\<close> in the value's own location, by the 400/100/4/1-year cycles of the proleptic
  Gregorian calendar.
\<close>

definition year_of_days :: "int \<Rightarrow> int" where
  "year_of_days d =
     (let c400 = d div 146097; r400 = d mod 146097;
          c100 = min 3 (r400 div 36524); r100 = r400 - c100 * 36524;
          c4 = r100 div 1461; r4 = r100 mod 1461;
          c1 = min 3 (r4 div 365)
      in 400 * c400 + 100 * c100 + 4 * c4 + c1 + 1)"

definition year :: "gotime \<Rightarrow> int" where
  "year t = year_of_days ((wall t + zone t * second) div (24 * hour))"

lemma is_zero_round0 [simp]: "is_zero (round0 t) = is_zero t"
  by (simp add: is_zero_def round0_def)

lemma is_zero_utc [simp]: "is_zero (utc t) = is_zero t"
  by (simp add: is_zero_def utc_def)

lemma before_round0: "before (round0 a) (round0 b) \<longleftrightarrow> wall a < wall b"
  by (simp add: before_def tcompare_def round0_def)

lemma before_wall: "mono a = None \<or> mono b = None \<Longrightarrow> before a b \<longleftrightarrow> wall a < wall b"
  by (auto simp: before_def tcompare_def split: option.splits)

lemma before_irrefl [simp]: "\<not> before a a"
  by (auto simp: before_def tcompare_def split: option.splits)

lemma after_before: "after a b = before b a"
  by (auto simp: after_def before_def tcompare_def split: option.splits)

lemma round0_idem [simp]: "round0 (round0 t) = round0 t"
  by (simp add: round0_def)

lemma utc_idem [simp]: "utc (utc t) = utc t"
  by (simp add: utc_def)

lemma round0_utc_commute: "round0 (utc t) = utc (round0 t)"
  by (simp add: round0_def utc_def)

lemma wall_round0 [simp]: "wall (round0 t) = wall t"
  and mono_round0 [simp]: "mono (round0 t) = None"
  and zone_round0 [simp]: "zone (round0 t) = zone t"
  and wall_utc [simp]: "wall (utc t) = wall t"
  and mono_utc [simp]: "mono (utc t) = mono t"
  and zone_utc [simp]: "zone (utc t) = 0"
  by (simp_all add: round0_def utc_def)

section \<open>Interfaces: machines\<close>

text \<open>States reached from an initial state by any number of steps of the aggregate.\<close>

inductive reach :: "('s \<Rightarrow> bool) \<Rightarrow> ('s \<Rightarrow> 's \<Rightarrow> bool) \<Rightarrow> 's \<Rightarrow> bool" for init step where
  reach_init: "init s \<Longrightarrow> reach init step s"
| reach_step: "reach init step s \<Longrightarrow> step s t \<Longrightarrow> reach init step t"

text \<open>
  An aggregate promises an invariant: its constructors establish it, its operations keep it.
\<close>

locale invariant_machine =
  fixes init :: "'s \<Rightarrow> bool" and step :: "'s \<Rightarrow> 's \<Rightarrow> bool" and inv :: "'s \<Rightarrow> bool"
  assumes init_inv: "init s \<Longrightarrow> inv s"
    and step_inv: "inv s \<Longrightarrow> step s t \<Longrightarrow> inv t"
begin

lemma reach_inv: "reach init step s \<Longrightarrow> inv s"
  by (induction rule: reach.induct) (auto intro: init_inv step_inv)

lemma steps_inv: "step\<^sup>*\<^sup>* s t \<Longrightarrow> inv s \<Longrightarrow> inv t"
  by (induction rule: rtranclp_induct) (auto intro: step_inv)

lemma steps_reach: "step\<^sup>*\<^sup>* s t \<Longrightarrow> reach init step s \<Longrightarrow> reach init step t"
  by (induction rule: rtranclp_induct) (auto intro: reach.reach_step)

end

text \<open>A fact about a key that no later operation can take back.\<close>

locale sealed_machine = invariant_machine +
  fixes sealed :: "'k \<Rightarrow> 's \<Rightarrow> bool"
  assumes step_sealed: "inv s \<Longrightarrow> step s t \<Longrightarrow> sealed k s \<Longrightarrow> sealed k t"
begin

lemma sealed_forever: "step\<^sup>*\<^sup>* s t \<Longrightarrow> inv s \<Longrightarrow> sealed k s \<Longrightarrow> sealed k t"
proof (induction rule: rtranclp_induct)
  case base
  then show ?case by simp
next
  case (step t u)
  have "inv t" using step.hyps(1) step.prems(1) by (rule steps_inv)
  then show ?case using step.hyps(2) step.IH step.prems step_sealed by blast
qed

end

text \<open>A counter that every change of the aggregate increases, so that an old stamp never returns.\<close>

locale stamped_machine = invariant_machine +
  fixes stamp :: "'s \<Rightarrow> nat"
  assumes step_stamp: "inv s \<Longrightarrow> step s t \<Longrightarrow> stamp s < stamp t"
begin

lemma stamp_increases: "step\<^sup>+\<^sup>+ s t \<Longrightarrow> inv s \<Longrightarrow> stamp s < stamp t"
proof (induction rule: tranclp_induct)
  case (base t)
  then show ?case using step_stamp by blast
next
  case (step t u)
  have "inv t" using tranclp_into_rtranclp [OF step.hyps(1)] step.prems by (rule steps_inv)
  then show ?case using step.hyps(2) step.IH step.prems step_stamp by fastforce
qed

lemma stamp_mono: "step\<^sup>*\<^sup>* s t \<Longrightarrow> inv s \<Longrightarrow> stamp s \<le> stamp t"
  by (metis rtranclpD stamp_increases order_less_imp_le order_refl)

end

section \<open>Interfaces: digests and codecs\<close>

text \<open>
  A pair of inputs on which a digest function collides. SHA-256 has such pairs, so a theorem
  never assumes that it has none: where the code relies on a digest to identify a value, the
  theorem names the two inputs that would have to collide.
\<close>

definition collision :: "(string \<Rightarrow> string) \<Rightarrow> string \<Rightarrow> string \<Rightarrow> bool" where
  "collision h a b \<longleftrightarrow> a \<noteq> b \<and> h a = h b"

locale digest_binding =
  fixes digest :: "string \<Rightarrow> string" and frame :: "'a \<Rightarrow> string" and ok :: "'a \<Rightarrow> bool"
  assumes frame_inj: "ok x \<Longrightarrow> ok y \<Longrightarrow> frame x = frame y \<Longrightarrow> x = y"
begin

lemma digest_binds:
  "ok x \<Longrightarrow> ok y \<Longrightarrow> digest (frame x) = digest (frame y) \<Longrightarrow>
    x = y \<or> collision digest (frame x) (frame y)"
  using frame_inj by (auto simp: collision_def)

end

text \<open>A printer and a parser that agree; the printer is then injective.\<close>

locale codec =
  fixes print :: "'a \<Rightarrow> string" and parse :: "string \<Rightarrow> 'e + 'a" and dom :: "'a \<Rightarrow> bool"
  assumes parse_print: "dom x \<Longrightarrow> parse (print x) = Inr x"
begin

lemma print_inj: "dom x \<Longrightarrow> dom y \<Longrightarrow> print x = print y \<Longrightarrow> x = y"
  by (metis parse_print sum.inject(2))

end

end
