(* ===== verification/Go_Strings.thy ===== *)
theory Go_Strings
  imports Go_Prelude
begin

text \<open>
  The part of Go's string library that the program uses. A Go string is a sequence of bytes, and
  so is a HOL \<open>string\<close>. Modelled here: \<open>strings.Split\<close>, \<open>Join\<close>, \<open>ReplaceAll\<close> on one
  byte, \<open>TrimSpace\<close>, UTF-8 decoding, \<open>encoding/hex\<close>, \<open>strconv.Itoa\<close> and
  \<open>strconv.ParseUint\<close>, with the round-trip lemmas the components rest on.

  A loop \<open>for _, r := range s\<close> that only accepts runes of an ASCII class accepts exactly the
  strings whose bytes are all in the class, because every byte from 128 on decodes to a rune
  from 128 on; such loops are modelled by \<open>list_all\<close> over the bytes.
\<close>

section \<open>Bytes\<close>

abbreviation ord :: "char \<Rightarrow> nat" where
  "ord c \<equiv> of_char c"

definition char_in :: "char \<Rightarrow> char \<Rightarrow> char \<Rightarrow> bool" where
  "char_in lo hi c \<longleftrightarrow> ord lo \<le> ord c \<and> ord c \<le> ord hi"

abbreviation is_lower :: "char \<Rightarrow> bool" where "is_lower \<equiv> char_in CHR ''a'' CHR ''z''"
abbreviation is_upper :: "char \<Rightarrow> bool" where "is_upper \<equiv> char_in CHR ''A'' CHR ''Z''"
abbreviation is_digit :: "char \<Rightarrow> bool" where "is_digit \<equiv> char_in CHR ''0'' CHR ''9''"

definition is_alnum :: "char \<Rightarrow> bool" where
  "is_alnum c \<longleftrightarrow> is_lower c \<or> is_upper c \<or> is_digit c"

lemma of_char_lt [simp]: "ord c < 256"
  by (cases c) simp

lemma ord_inject [simp]: "ord a = ord b \<longleftrightarrow> a = b"
  by (metis char_of_char)

text \<open>\<open>strings.ToLower\<close> on ASCII bytes.\<close>

definition to_lower :: "char \<Rightarrow> char" where
  "to_lower c = (if is_upper c then char_of (ord c + 32) else c)"

lemma to_lower_idem [simp]: "to_lower (to_lower c) = to_lower c"
proof (cases "is_upper c")
  case True
  then have r: "65 \<le> ord c" "ord c \<le> 90" by (simp_all add: char_in_def)
  have "ord (char_of (ord c + 32)) = ord c + 32"
    using r by (simp add: of_char_of)
  then have "\<not> is_upper (char_of (ord c + 32))" using r by (simp add: char_in_def)
  then show ?thesis using True by (simp add: to_lower_def)
qed (simp add: to_lower_def)

section \<open>Split, join, replace\<close>

fun split_on :: "char \<Rightarrow> string \<Rightarrow> string list" where
  "split_on c [] = [[]]"
| "split_on c (x # xs) =
     (if x = c then [] # split_on c xs
      else (case split_on c xs of [] \<Rightarrow> [[x]] | p # ps \<Rightarrow> (x # p) # ps))"

fun join :: "string \<Rightarrow> string list \<Rightarrow> string" where
  "join sep [] = []"
| "join sep [x] = x"
| "join sep (x # y # ys) = x @ sep @ join sep (y # ys)"

definition replace_byte :: "char \<Rightarrow> char \<Rightarrow> string \<Rightarrow> string" where
  "replace_byte a b s = map (\<lambda>x. if x = a then b else x) s"

lemma split_on_nonempty [simp]: "split_on c s \<noteq> []"
  by (induction s) (auto split: list.splits)

lemma join_Cons: "ps \<noteq> [] \<Longrightarrow> join sep (p # ps) = p @ sep @ join sep ps"
  by (cases ps) auto

lemma join_split_on: "join [c] (split_on c s) = s"
proof (induction s)
  case (Cons x xs)
  show ?case
  proof (cases "x = c")
    case True
    with Cons.IH show ?thesis by (simp add: join_Cons)
  next
    case False
    obtain p ps where p: "split_on c xs = p # ps" by (cases "split_on c xs") auto
    with False Cons.IH show ?thesis by (cases ps) auto
  qed
qed simp

lemma split_on_no_sep: "c \<notin> set s \<Longrightarrow> split_on c s = [s]"
  by (induction s) auto

lemma split_on_append_sep: "c \<notin> set p \<Longrightarrow> split_on c (p @ c # s) = p # split_on c s"
  by (induction p) auto

lemma split_on_join:
  "ps \<noteq> [] \<Longrightarrow> \<forall>p \<in> set ps. c \<notin> set p \<Longrightarrow> split_on c (join [c] ps) = ps"
  by (induction "[c]" ps rule: join.induct) (auto simp: split_on_no_sep split_on_append_sep)

lemma split_on_parts_no_sep: "p \<in> set (split_on c s) \<Longrightarrow> c \<notin> set p"
  by (induction s arbitrary: p) (auto split: if_splits list.splits)

lemma append_sep_cancel:
  "c \<notin> set a \<Longrightarrow> c \<notin> set b \<Longrightarrow> a @ c # x = b @ c # y \<longleftrightarrow> a = b \<and> x = y"
proof (induction a arbitrary: b)
  case Nil
  then show ?case by (cases b) auto
next
  case (Cons u a)
  then show ?case by (cases b) auto
qed

section \<open>UTF-8\<close>

text \<open>
  \<open>utf8.DecodeRune\<close> on a nonempty byte sequence: the rune and the number of bytes it takes; an
  invalid sequence gives the replacement rune with width one.
\<close>

definition rune_error :: nat where
  "rune_error = 0xFFFD"

abbreviation cont_byte :: "nat \<Rightarrow> bool" where
  "cont_byte b \<equiv> 0x80 \<le> b \<and> b \<le> 0xBF"

definition decode2 :: "nat \<Rightarrow> nat list \<Rightarrow> nat \<times> nat" where
  "decode2 b0 bs = (case bs of
       b1 # _ \<Rightarrow> if cont_byte b1 then ((b0 - 0xC0) * 64 + (b1 - 0x80), 2) else (rune_error, 1)
     | [] \<Rightarrow> (rune_error, 1))"

definition decode3 :: "nat \<Rightarrow> nat list \<Rightarrow> nat \<times> nat" where
  "decode3 b0 bs = (case bs of
       b1 # b2 # _ \<Rightarrow>
         if (if b0 = 0xE0 then 0xA0 else 0x80) \<le> b1 \<and> b1 \<le> (if b0 = 0xED then 0x9F else 0xBF)
            \<and> cont_byte b2
         then (((b0 - 0xE0) * 64 + (b1 - 0x80)) * 64 + (b2 - 0x80), 3) else (rune_error, 1)
     | _ \<Rightarrow> (rune_error, 1))"

definition decode4 :: "nat \<Rightarrow> nat list \<Rightarrow> nat \<times> nat" where
  "decode4 b0 bs = (case bs of
       b1 # b2 # b3 # _ \<Rightarrow>
         if (if b0 = 0xF0 then 0x90 else 0x80) \<le> b1 \<and> b1 \<le> (if b0 = 0xF4 then 0x8F else 0xBF)
            \<and> cont_byte b2 \<and> cont_byte b3
         then ((((b0 - 0xF0) * 64 + (b1 - 0x80)) * 64 + (b2 - 0x80)) * 64 + (b3 - 0x80), 4)
         else (rune_error, 1)
     | _ \<Rightarrow> (rune_error, 1))"

definition decode_rune :: "nat \<Rightarrow> nat list \<Rightarrow> nat \<times> nat" where
  "decode_rune b0 bs =
     (if b0 < 0x80 then (b0, 1)
      else if 0xC2 \<le> b0 \<and> b0 \<le> 0xDF then decode2 b0 bs
      else if 0xE0 \<le> b0 \<and> b0 \<le> 0xEF then decode3 b0 bs
      else if 0xF0 \<le> b0 \<and> b0 \<le> 0xF4 then decode4 b0 bs
      else (rune_error, 1))"

fun runes_of :: "nat list \<Rightarrow> (nat \<times> nat) list" where
  "runes_of [] = []"
| "runes_of (b # bs) =
     (let rn = decode_rune b bs in rn # runes_of (drop (snd rn - 1) bs))"

definition runes :: "string \<Rightarrow> (nat \<times> nat) list" where
  "runes s = runes_of (map of_char s)"

definition valid_utf8 :: "string \<Rightarrow> bool" where
  "valid_utf8 s \<longleftrightarrow> list_all (\<lambda>rn. rn \<noteq> (rune_error, 1)) (runes s)"

text \<open>\<open>unicode.IsControl\<close>: the runes of category Cc.\<close>

definition is_control :: "nat \<Rightarrow> bool" where
  "is_control r \<longleftrightarrow> r < 32 \<or> (127 \<le> r \<and> r < 160)"

lemma runes_ascii: "list_all (\<lambda>c. ord c < 128) s \<Longrightarrow> runes s = map (\<lambda>c. (ord c, 1)) s"
  unfolding runes_def by (induction s) (auto simp: decode_rune_def)

lemma valid_utf8_ascii: "list_all (\<lambda>c. ord c < 128) s \<Longrightarrow> valid_utf8 s"
  by (auto simp: valid_utf8_def runes_ascii list_all_iff rune_error_def)

section \<open>TrimSpace\<close>

text \<open>
  The UTF-8 encodings of the runes of \<open>unicode.IsSpace\<close>. \<open>strings.TrimSpace\<close> removes them from
  both ends: the first rune of a string is the space \<open>r\<close> exactly when the string starts with the
  encoding of \<open>r\<close>, and the last rune is \<open>r\<close> exactly when the string ends with it.
\<close>

definition space_encodings :: "string list" where
  "space_encodings =
     [[CHR 0x09], [CHR 0x0A], [CHR 0x0B], [CHR 0x0C], [CHR 0x0D], [CHR 0x20],
      [CHR 0xC2, CHR 0x85], [CHR 0xC2, CHR 0xA0], [CHR 0xE1, CHR 0x9A, CHR 0x80],
      [CHR 0xE2, CHR 0x80, CHR 0x80], [CHR 0xE2, CHR 0x80, CHR 0x81], [CHR 0xE2, CHR 0x80, CHR 0x82],
      [CHR 0xE2, CHR 0x80, CHR 0x83], [CHR 0xE2, CHR 0x80, CHR 0x84], [CHR 0xE2, CHR 0x80, CHR 0x85],
      [CHR 0xE2, CHR 0x80, CHR 0x86], [CHR 0xE2, CHR 0x80, CHR 0x87], [CHR 0xE2, CHR 0x80, CHR 0x88],
      [CHR 0xE2, CHR 0x80, CHR 0x89], [CHR 0xE2, CHR 0x80, CHR 0x8A], [CHR 0xE2, CHR 0x80, CHR 0xA8],
      [CHR 0xE2, CHR 0x80, CHR 0xA9], [CHR 0xE2, CHR 0x80, CHR 0xAF], [CHR 0xE2, CHR 0x81, CHR 0x9F],
      [CHR 0xE3, CHR 0x80, CHR 0x80]]"

text \<open>Stripping any of a list of nonempty encodings from the front, as often as one matches.\<close>

function strip_front :: "string list \<Rightarrow> string \<Rightarrow> string" where
  "strip_front es s =
     (case find (\<lambda>e. e \<noteq> [] \<and> prefix e s) es of
        None \<Rightarrow> s
      | Some e \<Rightarrow> strip_front es (drop (length e) s))"
  by pat_completeness auto
termination
proof (relation "measure (\<lambda>(es, s). length s)", goal_cases)
  case (2 es s e)
  then have "e \<noteq> []" and "prefix e s" by (auto simp: find_Some_iff)
  then show ?case by (cases e; cases s) auto
qed auto

declare strip_front.simps [simp del]

definition trim_left :: "string \<Rightarrow> string" where
  "trim_left s = strip_front space_encodings s"

definition trim_right :: "string \<Rightarrow> string" where
  "trim_right s = rev (strip_front (map rev space_encodings) (rev s))"

definition trim_space :: "string \<Rightarrow> string" where
  "trim_space s = trim_right (trim_left s)"

lemma strip_front_suffix: "suffix (strip_front es s) s"
proof (induction es s rule: strip_front.induct)
  case (1 es s)
  show ?case
  proof (cases "find (\<lambda>e. e \<noteq> [] \<and> prefix e s) es")
    case None
    then show ?thesis by (simp add: strip_front.simps [of es s])
  next
    case (Some e)
    then have "suffix (strip_front es (drop (length e) s)) (drop (length e) s)" by (rule 1)
    then show ?thesis
      using Some by (simp add: strip_front.simps [of es s]) (meson suffix_drop suffix_order.trans)
  qed
qed

lemma strip_front_stops:
  "e \<in> set es \<Longrightarrow> e \<noteq> [] \<Longrightarrow> \<not> prefix e (strip_front es s)"
proof (induction es s rule: strip_front.induct)
  case (1 es s)
  show ?case
  proof (cases "find (\<lambda>e. e \<noteq> [] \<and> prefix e s) es")
    case None
    then have "strip_front es s = s" by (simp add: strip_front.simps [of es s])
    with None "1.prems" show ?thesis by (auto simp: find_None_iff)
  next
    case (Some e')
    with 1 show ?thesis by (simp add: strip_front.simps [of es s])
  qed
qed

lemma strip_front_id:
  "(\<And>e. e \<in> set es \<Longrightarrow> e \<noteq> [] \<Longrightarrow> \<not> prefix e s) \<Longrightarrow> strip_front es s = s"
proof -
  assume "\<And>e. e \<in> set es \<Longrightarrow> e \<noteq> [] \<Longrightarrow> \<not> prefix e s"
  then have "find (\<lambda>e. e \<noteq> [] \<and> prefix e s) es = None" by (auto simp: find_None_iff)
  then show ?thesis by (simp add: strip_front.simps [of es s])
qed

lemma trim_right_prefix: "prefix (trim_right s) s"
  using strip_front_suffix [of "map rev space_encodings" "rev s"]
  by (simp add: trim_right_def suffix_to_prefix)

lemma trim_left_suffix: "suffix (trim_left s) s"
  unfolding trim_left_def by (rule strip_front_suffix)

lemma trim_left_trim_space: "trim_left (trim_space s) = trim_space s"
  unfolding trim_left_def trim_space_def
proof (rule strip_front_id)
  fix e assume e: "e \<in> set space_encodings" "e \<noteq> []"
  then have "\<not> prefix e (strip_front space_encodings s)" by (rule strip_front_stops)
  then show "\<not> prefix e (trim_right (strip_front space_encodings s))"
    using trim_right_prefix prefix_order.trans by blast
qed

lemma trim_right_idem: "trim_right (trim_right s) = trim_right s"
proof -
  have "strip_front (map rev space_encodings) (strip_front (map rev space_encodings) (rev s))
        = strip_front (map rev space_encodings) (rev s)"
    by (rule strip_front_id) (rule strip_front_stops)
  then show ?thesis by (simp add: trim_right_def)
qed

theorem trim_space_idem [simp]: "trim_space (trim_space s) = trim_space s"
  by (metis trim_left_trim_space trim_right_idem trim_space_def)

lemma trim_space_Nil [simp]: "trim_space [] = []"
proof -
  have "strip_front es [] = []" for es by (rule strip_front_id) simp
  then show ?thesis by (simp add: trim_space_def trim_left_def trim_right_def)
qed

lemma set_trim_space: "set (trim_space s) \<subseteq> set s"
proof -
  have "set (trim_right (trim_left s)) \<subseteq> set (trim_left s)"
    by (rule set_mono_prefix [OF trim_right_prefix])
  also have "\<dots> \<subseteq> set s" by (rule set_mono_suffix [OF trim_left_suffix])
  finally show ?thesis by (simp add: trim_space_def)
qed

text \<open>A string whose first and last bytes are printable ASCII is its own trim.\<close>

definition solid :: "char \<Rightarrow> bool" where
  "solid c \<longleftrightarrow> 33 \<le> ord c \<and> ord c \<le> 126"

lemma space_encodings_ends:
  "e \<in> set space_encodings \<Longrightarrow> e \<noteq> [] \<and> \<not> solid (hd e) \<and> \<not> solid (last e)"
  by (auto simp: space_encodings_def solid_def)

lemma trim_left_solid: "solid c \<Longrightarrow> trim_left (c # s) = c # s"
  unfolding trim_left_def
  by (rule strip_front_id) (metis list.collapse list.sel(1) prefix_Cons space_encodings_ends)

lemma trim_right_solid: "solid c \<Longrightarrow> trim_right (s @ [c]) = s @ [c]"
proof -
  assume c: "solid c"
  have "strip_front (map rev space_encodings) (c # rev s) = c # rev s"
  proof (rule strip_front_id)
    fix e assume e: "e \<in> set (map rev space_encodings)" "e \<noteq> []"
    then obtain d where d: "d \<in> set space_encodings" "e = rev d" by auto
    then have "\<not> solid (hd e)" using space_encodings_ends [OF d(1)] e(2) by (simp add: hd_rev)
    then show "\<not> prefix e (c # rev s)" using c e(2) by (cases e) auto
  qed
  then show ?thesis by (simp add: trim_right_def)
qed

lemma trim_space_solid:
  "s \<noteq> [] \<Longrightarrow> solid (hd s) \<Longrightarrow> solid (last s) \<Longrightarrow> trim_space s = s"
proof -
  assume s: "s \<noteq> []" "solid (hd s)" "solid (last s)"
  obtain c t where ct: "s = c # t" using s(1) by (cases s) auto
  have "trim_left s = s" using s ct by (simp add: trim_left_solid)
  moreover have "trim_right s = s"
    using s trim_right_solid [of "last s" "butlast s"] by simp
  ultimately show ?thesis by (simp add: trim_space_def)
qed

end
