(* ===== verification/Go_Codec.thy ===== *)
theory Go_Codec
  imports Go_Strings
begin

text \<open>
  Encodings of the Go standard library: \<open>encoding/hex\<close>, decimal numbers of \<open>strconv\<close>,
  big-endian lengths of \<open>encoding/binary\<close> and \<open>crypto/sha256\<close>, each as a computable function.
  The lemmas are the round trips and the digest lengths; \<open>decimal\<close> and \<open>hexadecimal\<close> are
  interpretations of the codec interface.
\<close>

unbundle bit_operations_syntax

section \<open>Hexadecimal\<close>

definition hex_digit :: "nat \<Rightarrow> char" where
  "hex_digit n = (if n < 10 then char_of (48 + n) else char_of (87 + n))"

definition hex_value :: "char \<Rightarrow> nat option" where
  "hex_value c =
     (if is_digit c then Some (ord c - 48)
      else if char_in CHR ''a'' CHR ''f'' c then Some (ord c - 87)
      else if char_in CHR ''A'' CHR ''F'' c then Some (ord c - 55)
      else None)"

fun hex_encode :: "string \<Rightarrow> string" where
  "hex_encode [] = []"
| "hex_encode (c # s) = hex_digit (ord c div 16) # hex_digit (ord c mod 16) # hex_encode s"

fun hex_decode :: "string \<Rightarrow> string option" where
  "hex_decode [] = Some []"
| "hex_decode [_] = None"
| "hex_decode (a # b # s) =
     (case (hex_value a, hex_value b, hex_decode s) of
        (Some x, Some y, Some r) \<Rightarrow> Some (char_of (16 * x + y) # r)
      | _ \<Rightarrow> None)"

lemma ord_div16 [simp]: "ord c div 16 < 16"
  using of_char_lt [of c] by (simp add: less_mult_imp_div_less)

lemma ord_hex_digit:
  "n < 16 \<Longrightarrow> ord (hex_digit n) = (if n < 10 then 48 + n else 87 + n)"
  by (simp add: hex_digit_def of_char_of)

lemma hex_value_digit [simp]: "n < 16 \<Longrightarrow> hex_value (hex_digit n) = Some n"
  by (simp add: hex_value_def char_in_def ord_hex_digit)

lemma hex_decode_encode [simp]: "hex_decode (hex_encode s) = Some s"
  by (induction s) (simp_all add: mult_div_mod_eq)

lemma length_hex_encode [simp]: "length (hex_encode s) = 2 * length s"
  by (induction s) simp_all

lemma hex_encode_inject [simp]: "hex_encode s = hex_encode t \<longleftrightarrow> s = t"
  by (metis hex_decode_encode option.inject)

lemma length_hex_decode: "hex_decode s = Some r \<Longrightarrow> length s = 2 * length r"
  by (induction s arbitrary: r rule: hex_decode.induct) (auto split: option.splits)

definition hex_lower :: "char \<Rightarrow> bool" where
  "hex_lower c \<longleftrightarrow> is_digit c \<or> char_in CHR ''a'' CHR ''f'' c"

lemma hex_lower_digit: "n < 16 \<Longrightarrow> hex_lower (hex_digit n)"
  by (simp add: hex_lower_def char_in_def ord_hex_digit)

lemma hex_encode_lower: "list_all hex_lower (hex_encode s)"
  by (induction s) (simp_all add: hex_lower_digit)

lemma hex_lower_props:
  "hex_lower c \<Longrightarrow> to_lower c = c \<and> solid c \<and> hex_value c \<noteq> None \<and> is_alnum c"
  by (auto simp: hex_lower_def to_lower_def char_in_def solid_def hex_value_def is_alnum_def)

lemma hex_decodable:
  "hex_decode s \<noteq> None \<longleftrightarrow> even (length s) \<and> list_all (\<lambda>c. hex_value c \<noteq> None) s"
  by (induction s rule: hex_decode.induct) (auto split: option.splits)

lemma to_lower_hex: "hex_value c \<noteq> None \<Longrightarrow> to_lower c = c \<Longrightarrow> hex_lower c"
proof (rule ccontr)
  assume v: "hex_value c \<noteq> None" and l: "to_lower c = c" and n: "\<not> hex_lower c"
  have u: "65 \<le> ord c" "ord c \<le> 70"
    using v n by (auto simp: hex_value_def hex_lower_def char_in_def split: if_splits)
  then have "ord (to_lower c) = ord c + 32"
    by (simp add: to_lower_def char_in_def of_char_of)
  then show False using l by simp
qed

lemma map_to_lower_id: "map to_lower s = s \<longleftrightarrow> list_all (\<lambda>c. to_lower c = c) s"
  by (induction s) auto

section \<open>Decimal\<close>

fun itoa :: "nat \<Rightarrow> string" where
  "itoa n = (if n < 10 then [char_of (48 + n)] else itoa (n div 10) @ [char_of (48 + n mod 10)])"

declare itoa.simps [simp del]

definition parse_dec :: "string \<Rightarrow> nat" where
  "parse_dec s = foldl (\<lambda>a c. a * 10 + (ord c - 48)) 0 s"

definition canonical_dec :: "string \<Rightarrow> bool" where
  "canonical_dec s \<longleftrightarrow> s \<noteq> [] \<and> list_all is_digit s \<and> (length s = 1 \<or> hd s \<noteq> CHR ''0'')"

lemma parse_dec_snoc: "parse_dec (s @ [c]) = parse_dec s * 10 + (ord c - 48)"
  by (simp add: parse_dec_def)

lemma parse_dec_single [simp]: "parse_dec [c] = ord c - 48"
  by (simp add: parse_dec_def)

lemma itoa_nonempty [simp]: "itoa n \<noteq> []"
  by (subst itoa.simps) simp

lemma parse_dec_itoa [simp]: "parse_dec (itoa n) = n"
proof (induction n rule: itoa.induct)
  case (1 n)
  show ?case
  proof (cases "n < 10")
    case True
    then show ?thesis by (simp add: itoa.simps [of n] of_char_of)
  next
    case False
    then have "parse_dec (itoa n) = parse_dec (itoa (n div 10)) * 10 + n mod 10"
      by (simp add: itoa.simps [of n] parse_dec_snoc of_char_of)
    with 1 False show ?thesis by simp
  qed
qed

lemma itoa_inject [simp]: "itoa m = itoa n \<longleftrightarrow> m = n"
  by (metis parse_dec_itoa)

lemma hd_append_nonempty: "s \<noteq> [] \<Longrightarrow> hd (s @ t) = hd s"
  by simp

lemma char48_eq: "(k::nat) < 10 \<Longrightarrow> char_of (48 + k) = CHR ''0'' \<longleftrightarrow> k = 0"
proof -
  assume k: "k < 10"
  have "char_of (48 + k) = CHR ''0'' \<longleftrightarrow> ord (char_of (48 + k)) = ord CHR ''0''" by (simp only: ord_inject)
  then show ?thesis using k by (simp add: of_char_of)
qed

lemma itoa_canonical: "canonical_dec (itoa n) \<and> (0 < n \<longrightarrow> hd (itoa n) \<noteq> CHR ''0'')"
proof (induction n rule: itoa.induct)
  case (1 n)
  show ?case
  proof (cases "n < 10")
    case True
    then show ?thesis
      by (simp add: itoa.simps [of n] canonical_dec_def char_in_def of_char_of char48_eq)
  next
    case False
    then have "0 < n div 10" by simp
    with 1 False have "canonical_dec (itoa (n div 10))" "hd (itoa (n div 10)) \<noteq> CHR ''0''" by auto
    with False show ?thesis
      by (simp add: itoa.simps [of n] canonical_dec_def char_in_def of_char_of)
  qed
qed

lemma itoa_digits: "list_all is_digit (itoa n)"
  using itoa_canonical by (simp add: canonical_dec_def)

lemma itoa_no_char: "c \<in> set (itoa n) \<Longrightarrow> is_digit c"
  using itoa_digits by (simp add: list_all_iff)

lemma char_of_48_digit: "is_digit c \<Longrightarrow> char_of (48 + (ord c - 48)) = c"
  by (simp add: char_in_def)

lemma parse_dec_positive: "canonical_dec s \<Longrightarrow> hd s \<noteq> CHR ''0'' \<Longrightarrow> 0 < parse_dec s"
proof (induction s rule: rev_induct)
  case (snoc c s)
  show ?case
  proof (cases "s = []")
    case True
    with snoc.prems have "48 \<le> ord c" by (simp add: canonical_dec_def char_in_def)
    moreover have "ord c \<noteq> ord CHR ''0''"
      unfolding ord_inject using snoc.prems True by simp
    ultimately show ?thesis using True by simp
  next
    case False
    with snoc show ?thesis by (simp add: canonical_dec_def parse_dec_snoc)
  qed
qed (simp add: canonical_dec_def)

lemma itoa_parse_dec: "canonical_dec s \<Longrightarrow> itoa (parse_dec s) = s"
proof (induction s rule: rev_induct)
  case (snoc c s)
  have c: "is_digit c" using snoc.prems by (simp add: canonical_dec_def)
  then have d: "ord c - 48 < 10" by (auto simp: char_in_def)
  show ?case
  proof (cases "s = []")
    case True
    with c d show ?thesis by (simp add: itoa.simps [of "ord c - 48"] char_of_48_digit)
  next
    case False
    with snoc.prems have h: "hd s \<noteq> CHR ''0''" and s: "canonical_dec s"
      by (auto simp: canonical_dec_def)
    have p: "0 < parse_dec s" using s h by (rule parse_dec_positive)
    let ?n = "parse_dec (s @ [c])"
    have "?n div 10 = parse_dec s" "?n mod 10 = ord c - 48" "\<not> ?n < 10"
      using d p by (auto simp: parse_dec_snoc)
    then show ?thesis
      using snoc.IH [OF s] c by (simp add: itoa.simps [of ?n] char_of_48_digit)
  qed
qed (simp add: canonical_dec_def)

text \<open>\<open>strconv.ParseUint(s, 10, 64)\<close> on a nonempty string of digits.\<close>

definition parse_uint64 :: "string \<Rightarrow> uint64 option" where
  "parse_uint64 s =
     (if s \<noteq> [] \<and> list_all is_digit s \<and> parse_dec s < 2 ^ 64
      then Some (of_nat (parse_dec s)) else None)"

lemma parse_uint64_itoa: "parse_uint64 (itoa (unat w)) = Some w"
  using unsigned_less [of w] itoa_digits by (simp add: parse_uint64_def)

section \<open>Big-endian words\<close>

definition byte_of_word :: "nat \<Rightarrow> 'a::len word \<Rightarrow> char" where
  "byte_of_word n w = char_of (unat w div 256 ^ n mod 256)"

definition be32 :: "32 word \<Rightarrow> string" where
  "be32 w = map (\<lambda>i. byte_of_word i w) [3, 2, 1, 0]"

definition be64 :: "uint64 \<Rightarrow> string" where
  "be64 w = map (\<lambda>i. byte_of_word i w) [7, 6, 5, 4, 3, 2, 1, 0]"

lemma length_be32 [simp]: "length (be32 w) = 4"
  by (simp add: be32_def)

lemma length_be64 [simp]: "length (be64 w) = 8"
  by (simp add: be64_def)

lemma mod_256_power_eq:
  fixes u v :: nat
  shows "\<forall>i < k. u div 256 ^ i mod 256 = v div 256 ^ i mod 256 \<Longrightarrow> u mod 256 ^ k = v mod 256 ^ k"
proof (induction k)
  case (Suc k)
  have "w mod 256 ^ Suc k = 256 ^ k * (w div 256 ^ k mod 256) + w mod 256 ^ k" for w :: nat
    using mod_mult2_eq [of w "256 ^ k" 256] by (simp only: power_Suc2)
  then show ?case using Suc by simp
qed simp

lemma be64_inject: "be64 v = be64 w \<longleftrightarrow> v = w"
proof
  assume "be64 v = be64 w"
  then have "\<forall>i \<in> set [7, 6, 5, 4, 3, 2, 1, 0]. byte_of_word i v = byte_of_word i w"
    by (simp only: be64_def map_eq_conv)
  then have "byte_of_word i v = byte_of_word i w" if "i < 8" for i
    using that by (cases i rule: nat.exhaust) (auto simp: less_Suc_eq numeral_eq_Suc)
  then have "ord (byte_of_word i v) = ord (byte_of_word i w)" if "i < 8" for i
    using that by simp
  then have "\<forall>i < 8. unat v div 256 ^ i mod 256 = unat w div 256 ^ i mod 256"
    by (simp add: byte_of_word_def of_char_of)
  then have "unat v mod 256 ^ 8 = unat w mod 256 ^ 8" by (rule mod_256_power_eq)
  moreover have "unat v < 256 ^ 8" "unat w < 256 ^ 8"
    using unsigned_less [of v] unsigned_less [of w] by simp_all
  ultimately have "unat v = unat w" by simp
  then show "v = w" by (rule unsigned_word_eqI)
qed simp

section \<open>SHA-256\<close>

definition rotr32 :: "nat \<Rightarrow> 32 word \<Rightarrow> 32 word" where
  "rotr32 n w = drop_bit n w OR push_bit (32 - n) w"

text \<open>
  The constants of the standard are the first 32 bits of the fractional parts of the cube roots of
  the first 64 primes, and of the square roots of the first eight: the word of the integer root of
  the prime, scaled by as many bits. The root is found bit by bit.
\<close>

definition root_floor :: "nat \<Rightarrow> int \<Rightarrow> int" where
  "root_floor k x = fold (\<lambda>b r. if (r + 2 ^ b) ^ k \<le> x then r + 2 ^ b else r) (rev [0..<37]) 0"

definition small_primes :: "int list" where
  "small_primes = filter (\<lambda>n. list_all (\<lambda>d. n mod d \<noteq> 0) [2..n - 1]) [2..311]"

definition sha256_k :: "32 word list" where
  "sha256_k = map (\<lambda>p. of_int (root_floor 3 (p * 2 ^ 96))) small_primes"

definition sha256_iv :: "32 word list" where
  "sha256_iv = map (\<lambda>p. of_int (root_floor 2 (p * 2 ^ 64))) [2, 3, 5, 7, 11, 13, 17, 19]"

definition sha256_pad :: "string \<Rightarrow> string" where
  "sha256_pad m = m @ [CHR 0x80] @ replicate ((119 - length m mod 64) mod 64) (CHR 0x00)
                    @ be64 (of_nat (8 * length m))"

fun words32 :: "string \<Rightarrow> 32 word list" where
  "words32 (a # b # c # d # r) =
     of_nat (((ord a * 256 + ord b) * 256 + ord c) * 256 + ord d) # words32 r"
| "words32 _ = []"

fun sha256_extend :: "nat \<Rightarrow> 32 word list \<Rightarrow> 32 word list" where
  "sha256_extend 0 w = w"
| "sha256_extend (Suc n) w =
    (let i = length w; w15 = w ! (i - 15); w2 = w ! (i - 2);
         s0 = rotr32 7 w15 XOR rotr32 18 w15 XOR drop_bit 3 w15;
         s1 = rotr32 17 w2 XOR rotr32 19 w2 XOR drop_bit 10 w2
     in sha256_extend n (w @ [w ! (i - 16) + s0 + w ! (i - 7) + s1]))"

fun sha256_round :: "32 word \<times> 32 word \<Rightarrow> 32 word list \<Rightarrow> 32 word list" where
  "sha256_round (k, w) [a, b, c, d, e, f, g, h] =
    (let s1 = rotr32 6 e XOR rotr32 11 e XOR rotr32 25 e;
         ch = (e AND f) XOR (NOT e AND g);
         t1 = h + s1 + ch + k + w;
         s0 = rotr32 2 a XOR rotr32 13 a XOR rotr32 22 a;
         maj = (a AND b) XOR (a AND c) XOR (b AND c)
     in [t1 + s0 + maj, a, b, c, d + t1, e, f, g])"
| "sha256_round _ st = st"

definition sha256_block :: "32 word list \<Rightarrow> string \<Rightarrow> 32 word list" where
  "sha256_block st blk =
     map2 (+) st (fold sha256_round (zip sha256_k (sha256_extend 48 (words32 blk))) st)"

fun sha256_blocks :: "nat \<Rightarrow> 32 word list \<Rightarrow> string \<Rightarrow> 32 word list" where
  "sha256_blocks 0 st m = st"
| "sha256_blocks (Suc n) st m = sha256_blocks n (sha256_block st (take 64 m)) (drop 64 m)"

definition sha256 :: "string \<Rightarrow> string" where
  "sha256 m = (let p = sha256_pad m
               in concat (map be32 (sha256_blocks (length p div 64) sha256_iv p)))"

lemma length_sha256_round [simp]: "length (sha256_round kw st) = length st"
  by (cases "(kw, st)" rule: sha256_round.cases) (auto simp: Let_def)

lemma length_fold_round [simp]: "length (fold sha256_round kws st) = length st"
  by (induction kws arbitrary: st) auto

lemma length_sha256_blocks [simp]: "length (sha256_blocks n st m) = length st"
  by (induction n arbitrary: st m) (auto simp: sha256_block_def)

lemma length_sha256 [simp]: "length (sha256 m) = 32"
proof -
  have "length (concat (map be32 ws)) = 4 * length ws" for ws
    by (induction ws) auto
  then show ?thesis by (simp add: sha256_def Let_def sha256_iv_def)
qed

end
