(* ===== verification/Go_Paths.thy ===== *)
theory Go_Paths
  imports Go_Codec
begin

text \<open>
  \<open>filepath.Clean\<close> and \<open>filepath.IsAbs\<close> on a Unix system (\<open>path.Clean\<close> is the same function),
  and what a cleaned absolute path looks like: a slash followed by segments that are neither
  empty nor a dot nor a parent reference.
\<close>

abbreviation slash :: char where "slash \<equiv> CHR ''/''"

fun clean_comps :: "bool \<Rightarrow> string list \<Rightarrow> string list \<Rightarrow> string list" where
  "clean_comps rooted acc [] = rev acc"
| "clean_comps rooted acc (p # ps) =
     (if p = [] \<or> p = ''.'' then clean_comps rooted acc ps
      else if p = ''..'' then
        (case acc of
           [] \<Rightarrow> if rooted then clean_comps rooted [] ps else clean_comps rooted [''..''] ps
         | a # as \<Rightarrow> if a = ''..'' then clean_comps rooted (''..'' # acc) ps
                     else clean_comps rooted as ps)
      else clean_comps rooted (p # acc) ps)"

definition is_abs :: "string \<Rightarrow> bool" where
  "is_abs p \<longleftrightarrow> prefix [slash] p"

definition path_clean :: "string \<Rightarrow> string" where
  "path_clean p =
     (if p = [] then ''.''
      else let rooted = is_abs p; cs = clean_comps rooted [] (split_on slash p)
           in if rooted then slash # join [slash] cs
              else if cs = [] then ''.'' else join [slash] cs)"

definition good_segment :: "string \<Rightarrow> bool" where
  "good_segment p \<longleftrightarrow> p \<noteq> [] \<and> p \<noteq> ''.'' \<and> p \<noteq> ''..'' \<and> slash \<notin> set p"

lemma clean_comps_rooted_good:
  "list_all good_segment acc \<Longrightarrow> \<forall>p \<in> set ps. slash \<notin> set p \<Longrightarrow>
    list_all good_segment (clean_comps True acc ps)"
proof (induction ps arbitrary: acc)
  case Nil
  then show ?case by simp
next
  case (Cons p ps)
  then show ?case
    by (cases acc) (auto simp: good_segment_def)
qed

lemma clean_comps_good_id:
  "list_all good_segment ps \<Longrightarrow> list_all good_segment acc \<Longrightarrow>
    clean_comps rooted acc ps = rev acc @ ps"
  by (induction ps arbitrary: acc) (auto simp: good_segment_def)

lemma path_clean_abs_form:
  assumes "is_abs p"
  obtains cs where "path_clean p = slash # join [slash] cs" "list_all good_segment cs"
proof -
  have "p \<noteq> []" using assms by (auto simp: is_abs_def)
  then have "path_clean p = slash # join [slash] (clean_comps True [] (split_on slash p))"
    using assms by (simp add: path_clean_def Let_def)
  moreover have "list_all good_segment (clean_comps True [] (split_on slash p))"
    by (rule clean_comps_rooted_good) (auto dest: split_on_parts_no_sep)
  ultimately show ?thesis by (rule that)
qed

lemma path_clean_good:
  assumes "list_all good_segment cs"
  shows "path_clean (slash # join [slash] cs) = slash # join [slash] cs"
proof (cases "cs = []")
  case True
  then show ?thesis by (simp add: path_clean_def is_abs_def)
next
  case False
  have "split_on slash (join [slash] cs) = cs"
    using False assms by (intro split_on_join) (auto simp: good_segment_def list_all_iff)
  then have "split_on slash (slash # join [slash] cs) = [] # cs" by simp
  then show ?thesis
    using clean_comps_good_id [OF assms, of "[]"]
    by (simp add: path_clean_def is_abs_def Let_def)
qed

text \<open>Cleaning a cleaned absolute path changes nothing.\<close>

lemma path_clean_idem: "is_abs p \<Longrightarrow> path_clean (path_clean p) = path_clean p"
  using path_clean_abs_form path_clean_good by metis

lemma path_clean_fixed_segments:
  assumes "is_abs p" "path_clean p = p"
  obtains cs where "p = slash # join [slash] cs" "list_all good_segment cs"
  using path_clean_abs_form [OF assms(1)] assms(2) by metis

end
