(* ===== verification/Rt_Registry.thy ===== *)
theory Rt_Registry
  imports Go_Paths
begin

text \<open>
  The runtime registry of \<open>domain/runtime/registry.go\<close>: canonical projects and worktrees with
  digest identities, admission rules, snapshots, and deletion in two phases (a plan bound to the
  revision and content it was made from, and its application). The registry is an invariant
  machine and a stamped machine; its identities are bound to their content up to an explicit
  SHA-256 collision.
\<close>

section \<open>Values\<close>

datatype rt_error =
    ErrInvalid | ErrDuplicate | ErrNotFound | ErrForeign | ErrChanged | ErrLimit
  | ErrInUse | ErrUnsafe | ErrUnsupported | ErrOutputCursor

type_synonym 'a rt = "rt_error + 'a"

definition MaxProjects :: nat where "MaxProjects = 100"
definition MaxWorktrees :: nat where "MaxWorktrees = 1000"

definition ProfileIDFrom :: "string \<Rightarrow> string rt" where
  "ProfileIDFrom value =
     (if length value = 0 \<or> length value > 128 then Inl ErrInvalid
      else if list_all (\<lambda>r. is_alnum r \<or> r = CHR ''-'' \<or> r = CHR ''_'') value then Inr value
      else Inl ErrInvalid)"

definition nul_frame :: "string list \<Rightarrow> string" where
  "nul_frame values = concat (map (\<lambda>v. v @ [CHR 0x00]) values)"

definition identity :: "string \<Rightarrow> string list \<Rightarrow> string" where
  "identity pre values = pre @ hex_encode (sha256 (nul_frame values))"

definition contains_any :: "string \<Rightarrow> string \<Rightarrow> bool" where
  "contains_any s chars \<longleftrightarrow> list_ex (\<lambda>c. List.member chars c) s"

definition validPath :: "string \<Rightarrow> bool" where
  "validPath s \<longleftrightarrow> valid_utf8 s \<and> is_abs s \<and> path_clean s = s \<and> length s \<le> 4096
                   \<and> \<not> contains_any s [CHR 0x00, CHR 0x0D, CHR 0x0A]"

definition validWitness :: "string \<Rightarrow> bool" where
  "validWitness s \<longleftrightarrow> valid_utf8 s \<and> length s > 0 \<and> length s \<le> 1024
                      \<and> \<not> contains_any s [CHR 0x00, CHR 0x0D, CHR 0x0A]"

record Project =
  p_id :: string
  p_root :: string
  p_common :: string
  p_witness :: string

definition ProjectOf :: "string \<Rightarrow> string \<Rightarrow> string \<Rightarrow> Project rt" where
  "ProjectOf root common witness =
     (if \<not> validPath root \<or> \<not> validPath common \<or> \<not> validWitness witness then Inl ErrInvalid
      else Inr \<lparr>p_id = identity ''p_'' [root, common, witness],
                p_root = root, p_common = common, p_witness = witness\<rparr>)"

record Worktree =
  w_id :: string
  w_project :: string
  w_path :: string
  w_common :: string
  w_store :: string
  w_witness :: string

definition WorktreeOf :: "string \<Rightarrow> string \<Rightarrow> string \<Rightarrow> string \<Rightarrow> string \<Rightarrow> Worktree rt" where
  "WorktreeOf project path common store witness =
     (if length project \<noteq> 66 \<or> \<not> prefix ''p_'' project \<or> \<not> validPath path \<or> \<not> validPath common
         \<or> \<not> validPath store \<or> \<not> validWitness witness then Inl ErrInvalid
      else Inr \<lparr>w_id = identity ''w_'' [project, path, common, store, witness],
                w_project = project, w_path = path, w_common = common,
                w_store = store, w_witness = witness\<rparr>)"

record Target =
  t_worktree :: Worktree
  t_profile :: string

definition TargetOf :: "Worktree \<Rightarrow> string \<Rightarrow> Target rt" where
  "TargetOf worktree profile =
     (case ProfileIDFrom profile of
        Inl e \<Rightarrow> Inl e
      | Inr i \<Rightarrow> if w_id worktree = '''' then Inl ErrInvalid
                 else Inr \<lparr>t_worktree = worktree, t_profile = i\<rparr>)"

section \<open>The aggregate\<close>

record RegistryState =
  s_revision :: uint64
  s_projects :: "Project list"
  s_worktrees :: "Worktree list"

record Registry =
  revision :: uint64
  projects :: "(string \<times> Project) list"
  worktrees :: "(string \<times> Worktree) list"

definition NewRegistry :: Registry where
  "NewRegistry = \<lparr>revision = 0, projects = [], worktrees = []\<rparr>"

definition registry_project :: "Registry \<Rightarrow> string \<Rightarrow> Project rt" where
  "registry_project r i = (case map_of (projects r) i of None \<Rightarrow> Inl ErrNotFound | Some p \<Rightarrow> Inr p)"

definition registry_worktree :: "Registry \<Rightarrow> string \<Rightarrow> Worktree rt" where
  "registry_worktree r i = (case map_of (worktrees r) i of None \<Rightarrow> Inl ErrNotFound | Some w \<Rightarrow> Inr w)"

definition AddProject :: "Registry \<Rightarrow> Project \<Rightarrow> Registry rt" where
  "AddProject r p =
     (if ProjectOf (p_root p) (p_common p) (p_witness p) \<noteq> Inr p then Inl ErrInvalid
      else if list_ex (\<lambda>existing. p_common existing = p_common p \<or> p_root existing = p_root p) (vals (projects r))
      then Inl ErrDuplicate
      else if length (projects r) \<ge> MaxProjects \<or> revision r = max_uint64 then Inl ErrLimit
      else Inr (r\<lparr>projects := AList.update (p_id p) p (projects r), revision := revision r + 1\<rparr>))"

definition AddWorktree :: "Registry \<Rightarrow> Worktree \<Rightarrow> Registry rt" where
  "AddWorktree r w =
     (if WorktreeOf (w_project w) (w_path w) (w_common w) (w_store w) (w_witness w) \<noteq> Inr w
      then Inl ErrInvalid
      else case registry_project r (w_project w) of
        Inl e \<Rightarrow> Inl e
      | Inr p \<Rightarrow>
          if p_common p \<noteq> w_common w then Inl ErrForeign
          else if list_ex (\<lambda>existing. w_path existing = w_path w) (vals (worktrees r)) then Inl ErrDuplicate
          else if length (worktrees r) \<ge> MaxWorktrees \<or> revision r = max_uint64 then Inl ErrLimit
          else Inr (r\<lparr>worktrees := AList.update (w_id w) w (worktrees r), revision := revision r + 1\<rparr>))"

fun add_projects :: "Registry \<Rightarrow> Project list \<Rightarrow> Registry rt" where
  "add_projects r [] = Inr r"
| "add_projects r (p # ps) = (case AddProject r p of Inl e \<Rightarrow> Inl e | Inr r' \<Rightarrow> add_projects r' ps)"

fun add_worktrees :: "Registry \<Rightarrow> Worktree list \<Rightarrow> Registry rt" where
  "add_worktrees r [] = Inr r"
| "add_worktrees r (w # ws) = (case AddWorktree r w of Inl e \<Rightarrow> Inl e | Inr r' \<Rightarrow> add_worktrees r' ws)"

definition RegistryFrom :: "RegistryState \<Rightarrow> Registry rt" where
  "RegistryFrom s =
     (case add_projects NewRegistry (s_projects s) of
        Inl e \<Rightarrow> Inl e
      | Inr r \<Rightarrow> (case add_worktrees r (s_worktrees s) of
          Inl e \<Rightarrow> Inl e
        | Inr r' \<Rightarrow> if s_revision s < revision r' then Inl ErrInvalid
                    else Inr (r'\<lparr>revision := s_revision s\<rparr>)))"

definition registry_snapshot :: "Registry \<Rightarrow> RegistryState" where
  "registry_snapshot r = \<lparr>s_revision = revision r,
     s_projects = sort_key p_id (vals (projects r)),
     s_worktrees = sort_key w_id (vals (worktrees r))\<rparr>"

definition registry_target :: "Registry \<Rightarrow> string \<Rightarrow> string \<Rightarrow> Target rt" where
  "registry_target r i profile =
     (case ProfileIDFrom profile of
        Inl e \<Rightarrow> Inl e
      | Inr p \<Rightarrow> (case registry_worktree r i of
          Inl e \<Rightarrow> Inl e
        | Inr w \<Rightarrow> Inr \<lparr>t_worktree = w, t_profile = p\<rparr>))"

record DeletePlan =
  d_kind :: string
  d_id :: string
  d_revision :: uint64
  d_digest :: string

definition registry_digest :: "Registry \<Rightarrow> string" where
  "registry_digest r =
     (let s = registry_snapshot r
      in identity ''registry_'' (map p_id (s_projects s) @ map w_id (s_worktrees s)))"

definition PlanDeleteProject :: "Registry \<Rightarrow> string \<Rightarrow> DeletePlan rt" where
  "PlanDeleteProject r i =
     (case registry_project r i of
        Inl e \<Rightarrow> Inl e
      | Inr _ \<Rightarrow>
          if list_ex (\<lambda>w. w_project w = i) (vals (worktrees r)) then Inl ErrInUse
          else Inr \<lparr>d_kind = ''project'', d_id = i, d_revision = revision r, d_digest = registry_digest r\<rparr>)"

definition PlanDeleteWorktree :: "Registry \<Rightarrow> string \<Rightarrow> DeletePlan rt" where
  "PlanDeleteWorktree r i =
     (case registry_worktree r i of
        Inl e \<Rightarrow> Inl e
      | Inr _ \<Rightarrow>
          Inr \<lparr>d_kind = ''worktree'', d_id = i, d_revision = revision r, d_digest = registry_digest r\<rparr>)"

definition ApplyDelete :: "Registry \<Rightarrow> DeletePlan \<Rightarrow> Registry rt" where
  "ApplyDelete r p =
     (if d_revision p \<noteq> revision r \<or> d_digest p \<noteq> registry_digest r then Inl ErrChanged
      else if revision r = max_uint64 then Inl ErrLimit
      else if d_kind p = ''project'' then
        (case PlanDeleteProject r (d_id p) of
           Inl e \<Rightarrow> Inl e
         | Inr _ \<Rightarrow> Inr (r\<lparr>projects := AList.delete (d_id p) (projects r), revision := revision r + 1\<rparr>))
      else if d_kind p = ''worktree'' then
        (case registry_worktree r (d_id p) of
           Inl e \<Rightarrow> Inl e
         | Inr _ \<Rightarrow> Inr (r\<lparr>worktrees := AList.delete (d_id p) (worktrees r), revision := revision r + 1\<rparr>))
      else Inl ErrInvalid)"

section \<open>Identities\<close>

lemma contains_any_iff: "contains_any s cs \<longleftrightarrow> (\<exists>c \<in> set s. c \<in> set cs)"
  by (auto simp: contains_any_def list_ex_iff)

lemma validPath_no_nul: "validPath s \<Longrightarrow> CHR 0x00 \<notin> set s"
  by (auto simp: validPath_def contains_any_iff)

lemma validWitness_no_nul: "validWitness s \<Longrightarrow> CHR 0x00 \<notin> set s"
  by (auto simp: validWitness_def contains_any_iff)

lemma nul_frame_inject:
  "\<forall>v \<in> set xs. CHR 0x00 \<notin> set v \<Longrightarrow> \<forall>v \<in> set ys. CHR 0x00 \<notin> set v \<Longrightarrow>
    nul_frame xs = nul_frame ys \<Longrightarrow> xs = ys"
proof (induction xs arbitrary: ys)
  case Nil
  then show ?case by (cases ys) (auto simp: nul_frame_def)
next
  case (Cons x xs)
  then obtain y ys' where ys: "ys = y # ys'" by (cases ys) (auto simp: nul_frame_def)
  have "x @ CHR 0x00 # nul_frame xs = y @ CHR 0x00 # nul_frame ys'"
    using Cons.prems(3) by (simp add: ys nul_frame_def)
  then have "x = y" "nul_frame xs = nul_frame ys'"
    using Cons.prems(1,2) ys by (simp_all add: append_sep_cancel)
  moreover have "\<forall>v \<in> set xs. CHR 0x00 \<notin> set v" "\<forall>v \<in> set ys'. CHR 0x00 \<notin> set v"
    using Cons.prems(1,2) ys by simp_all
  ultimately have "xs = ys'" by (intro Cons.IH)
  then show ?case using \<open>x = y\<close> ys by simp
qed

interpretation nul_binding: digest_binding sha256 nul_frame "\<lambda>vs. \<forall>v \<in> set vs. CHR 0x00 \<notin> set v"
  by unfold_locales (rule nul_frame_inject)

lemma identity_binds:
  assumes "\<forall>v \<in> set xs. CHR 0x00 \<notin> set v" "\<forall>v \<in> set ys. CHR 0x00 \<notin> set v"
    and "identity pre xs = identity pre ys"
  shows "xs = ys \<or> collision sha256 (nul_frame xs) (nul_frame ys)"
  using nul_binding.digest_binds [OF assms(1,2)] assms(3) by (simp add: identity_def)

lemma length_identity: "length (identity pre vs) = length pre + 64"
  by (simp add: identity_def)

lemma ProjectOf_Inr:
  "ProjectOf a b c = Inr p \<Longrightarrow>
    p_root p = a \<and> p_common p = b \<and> p_witness p = c \<and> p_id p = identity ''p_'' [a, b, c]
    \<and> validPath a \<and> validPath b \<and> validWitness c"
  by (auto simp: ProjectOf_def split: if_splits)

lemma WorktreeOf_Inr:
  "WorktreeOf j a b c d = Inr w \<Longrightarrow>
    w_project w = j \<and> w_path w = a \<and> w_common w = b \<and> w_store w = c \<and> w_witness w = d
    \<and> w_id w = identity ''w_'' [j, a, b, c, d] \<and> validPath a \<and> validPath b \<and> validPath c"
  by (auto simp: WorktreeOf_def split: if_splits)

definition valid_project :: "Project \<Rightarrow> bool" where
  "valid_project p \<longleftrightarrow> ProjectOf (p_root p) (p_common p) (p_witness p) = Inr p"

definition valid_worktree :: "Worktree \<Rightarrow> bool" where
  "valid_worktree w \<longleftrightarrow> WorktreeOf (w_project w) (w_path w) (w_common w) (w_store w) (w_witness w) = Inr w"

definition project_frame :: "Project \<Rightarrow> string" where
  "project_frame p = nul_frame [p_root p, p_common p, p_witness p]"

lemma project_id_binds:
  assumes "valid_project p" "valid_project q" "p_id p = p_id q"
  shows "p = q \<or> collision sha256 (project_frame p) (project_frame q)"
proof -
  have p: "p_id p = identity ''p_'' [p_root p, p_common p, p_witness p]"
    and q: "p_id q = identity ''p_'' [p_root q, p_common q, p_witness q]"
    using assms(1,2) ProjectOf_Inr unfolding valid_project_def by blast+
  have "\<forall>v \<in> set [p_root x, p_common x, p_witness x]. CHR 0x00 \<notin> set v" if "valid_project x" for x
  proof -
    have "validPath (p_root x)" "validPath (p_common x)" "validWitness (p_witness x)"
      using that ProjectOf_Inr unfolding valid_project_def by blast+
    then show ?thesis by (simp add: validPath_no_nul validWitness_no_nul)
  qed
  then have "[p_root p, p_common p, p_witness p] = [p_root q, p_common q, p_witness q]
             \<or> collision sha256 (project_frame p) (project_frame q)"
    using identity_binds assms p q unfolding project_frame_def by metis
  then show ?thesis using assms(3) by auto
qed

section \<open>The registry as a machine\<close>

text \<open>
  Every successful mutation of a registry. A registry starts empty or from a persisted snapshot
  that \<open>RegistryFrom\<close> accepted.
\<close>

inductive registry_step :: "Registry \<Rightarrow> Registry \<Rightarrow> bool" where
  add_project: "AddProject r p = Inr r' \<Longrightarrow> registry_step r r'"
| add_worktree: "AddWorktree r w = Inr r' \<Longrightarrow> registry_step r r'"
| apply_delete: "ApplyDelete r plan = Inr r' \<Longrightarrow> registry_step r r'"

definition registry_init :: "Registry \<Rightarrow> bool" where
  "registry_init r \<longleftrightarrow> r = NewRegistry \<or> (\<exists>s. RegistryFrom s = Inr r)"

text \<open>
  The parent of a registered worktree is registered, and the worktree was admitted against a
  valid project of that identity with the same common directory.
\<close>

definition parent_ok :: "(string \<times> Project) list \<Rightarrow> Worktree \<Rightarrow> bool" where
  "parent_ok ps w \<longleftrightarrow> map_of ps (w_project w) \<noteq> None
     \<and> (\<exists>p0. valid_project p0 \<and> p_id p0 = w_project w \<and> p_common p0 = w_common w)"

definition projects_wf :: "(string \<times> Project) list \<Rightarrow> bool" where
  "projects_wf ps \<longleftrightarrow> distinct (keys ps) \<and> (\<forall>(k, p) \<in> set ps. k = p_id p \<and> valid_project p)
     \<and> distinct (map p_root (vals ps)) \<and> distinct (map p_common (vals ps))
     \<and> length ps \<le> MaxProjects"

definition worktrees_wf :: "(string \<times> Project) list \<Rightarrow> (string \<times> Worktree) list \<Rightarrow> bool" where
  "worktrees_wf ps ws \<longleftrightarrow> distinct (keys ws)
     \<and> (\<forall>(k, w) \<in> set ws. k = w_id w \<and> valid_worktree w \<and> parent_ok ps w)
     \<and> distinct (map w_path (vals ws)) \<and> length ws \<le> MaxWorktrees"

definition registry_wf :: "Registry \<Rightarrow> bool" where
  "registry_wf r \<longleftrightarrow> projects_wf (projects r) \<and> worktrees_wf (projects r) (worktrees r)
     \<and> length (projects r) + length (worktrees r) \<le> unat (revision r)"

lemma AddProject_Inr:
  "AddProject r p = Inr r' \<Longrightarrow>
    valid_project p \<and> (\<forall>q \<in> set (vals (projects r)). p_common q \<noteq> p_common p \<and> p_root q \<noteq> p_root p)
    \<and> length (projects r) < MaxProjects \<and> revision r \<noteq> max_uint64
    \<and> r' = r\<lparr>projects := AList.update (p_id p) p (projects r), revision := revision r + 1\<rparr>"
  by (auto simp: AddProject_def valid_project_def list_ex_iff split: if_splits)

lemma AddWorktree_Inr:
  "AddWorktree r w = Inr r' \<Longrightarrow>
    valid_worktree w \<and> (\<exists>p. map_of (projects r) (w_project w) = Some p \<and> p_common p = w_common w)
    \<and> (\<forall>v \<in> set (vals (worktrees r)). w_path v \<noteq> w_path w)
    \<and> length (worktrees r) < MaxWorktrees \<and> revision r \<noteq> max_uint64
    \<and> r' = r\<lparr>worktrees := AList.update (w_id w) w (worktrees r), revision := revision r + 1\<rparr>"
  by (auto simp: AddWorktree_def registry_project_def valid_worktree_def list_ex_iff
        split: if_splits option.splits)

lemma ApplyDelete_Inr:
  "ApplyDelete r plan = Inr r' \<Longrightarrow>
    d_revision plan = revision r \<and> revision r \<noteq> max_uint64 \<and>
    (r' = r\<lparr>projects := AList.delete (d_id plan) (projects r), revision := revision r + 1\<rparr>
       \<and> map_of (projects r) (d_id plan) \<noteq> None \<and> (\<forall>w \<in> set (vals (worktrees r)). w_project w \<noteq> d_id plan)
     \<or> r' = r\<lparr>worktrees := AList.delete (d_id plan) (worktrees r), revision := revision r + 1\<rparr>
       \<and> map_of (worktrees r) (d_id plan) \<noteq> None)"
  by (auto simp: ApplyDelete_def PlanDeleteProject_def registry_project_def registry_worktree_def
        list_ex_iff split: if_splits option.splits sum.splits)

lemma set_update_subset: "set (AList.update k v m) \<subseteq> insert (k, v) (set m)"
  by (induction m) auto

lemma distinct_vals_update:
  assumes "distinct (map (f \<circ> snd) m)" "\<forall>x \<in> set m. f (snd x) \<noteq> f v"
  shows "distinct (map (f \<circ> snd) (AList.update k v m))"
  using assms
proof (induction m)
  case (Cons kv m)
  have "set (map (f \<circ> snd) (AList.update k v m)) \<subseteq> insert (f v) (set (map (f \<circ> snd) m))"
    using set_update_subset by fastforce
  with Cons show ?case by (cases kv) (auto split: if_splits)
qed simp

lemma length_update_le: "length (AList.update k v m) \<le> Suc (length m)"
  by (induction m) auto

lemma parent_ok_update: "parent_ok ps w \<Longrightarrow> parent_ok (AList.update k p ps) w"
  by (auto simp: parent_ok_def update_conv')

lemma parent_ok_delete: "parent_ok ps w \<Longrightarrow> w_project w \<noteq> k \<Longrightarrow> parent_ok (AList.delete k ps) w"
  by (auto simp: parent_ok_def AList.delete_conv')

lemma projects_wf_update:
  assumes "projects_wf ps" "valid_project p" "length ps < MaxProjects"
    and "\<forall>q \<in> set (vals ps). p_common q \<noteq> p_common p \<and> p_root q \<noteq> p_root p"
  shows "projects_wf (AList.update (p_id p) p ps)"
  using assms set_update_subset [of "p_id p" p ps] length_update_le [of "p_id p" p ps]
  by (auto simp: projects_wf_def distinct_update distinct_vals_update)

lemma worktrees_wf_update:
  assumes "worktrees_wf ps ws" "valid_worktree w" "parent_ok ps w" "length ws < MaxWorktrees"
    and "\<forall>v \<in> set (vals ws). w_path v \<noteq> w_path w"
  shows "worktrees_wf ps (AList.update (w_id w) w ws)"
  using assms set_update_subset [of "w_id w" w ws] length_update_le [of "w_id w" w ws]
  by (auto simp: worktrees_wf_def distinct_update distinct_vals_update)

lemma worktrees_wf_more_projects:
  "worktrees_wf ps ws \<Longrightarrow> worktrees_wf (AList.update k p ps) ws"
  by (auto simp: worktrees_wf_def parent_ok_update)

lemma distinct_vals_delete:
  "distinct (map (f \<circ> snd) m) \<Longrightarrow> distinct (map (f \<circ> snd) (AList.delete k m))"
  by (induction m) (auto simp: AList.delete_eq)

lemma projects_wf_delete: "projects_wf ps \<Longrightarrow> projects_wf (AList.delete k ps)"
  using AList.length_delete_le [of k ps]
  by (auto simp: projects_wf_def distinct_keys_delete set_delete distinct_vals_delete)

lemma worktrees_wf_delete: "worktrees_wf ps ws \<Longrightarrow> worktrees_wf ps (AList.delete k ws)"
  using AList.length_delete_le [of k ws]
  by (auto simp: worktrees_wf_def distinct_keys_delete set_delete distinct_vals_delete)

lemma worktrees_wf_less_projects:
  "worktrees_wf ps ws \<Longrightarrow> \<forall>w \<in> set ws. w_project (snd w) \<noteq> k \<Longrightarrow> worktrees_wf (AList.delete k ps) ws"
  by (fastforce simp: worktrees_wf_def intro: parent_ok_delete)

lemma AddProject_wf: "registry_wf r \<Longrightarrow> AddProject r p = Inr r' \<Longrightarrow> registry_wf r'"
  using length_update_le [of "p_id p" p "projects r"]
  by (auto dest!: AddProject_Inr simp: registry_wf_def projects_wf_update worktrees_wf_more_projects unat_inc_uint64)

lemma admitted_parent:
  assumes "projects_wf ps" "map_of ps (w_project w) = Some p" "p_common p = w_common w"
  shows "parent_ok ps w"
proof -
  have "(w_project w, p) \<in> set ps" using assms(2) by (rule map_of_SomeD)
  then have "w_project w = p_id p" "valid_project p" using assms(1) by (auto simp: projects_wf_def)
  then show ?thesis using assms(2,3) by (auto simp: parent_ok_def)
qed

lemma AddWorktree_wf: "registry_wf r \<Longrightarrow> AddWorktree r w = Inr r' \<Longrightarrow> registry_wf r'"
  using length_update_le [of "w_id w" w "worktrees r"]
  by (auto dest!: AddWorktree_Inr simp: registry_wf_def worktrees_wf_update unat_inc_uint64 admitted_parent)

lemma ApplyDelete_wf: "registry_wf r \<Longrightarrow> ApplyDelete r plan = Inr r' \<Longrightarrow> registry_wf r'"
  using AList.length_delete_le [of "d_id plan" "projects r"]
    AList.length_delete_le [of "d_id plan" "worktrees r"]
  by (auto dest!: ApplyDelete_Inr simp: registry_wf_def projects_wf_delete worktrees_wf_delete worktrees_wf_less_projects unat_inc_uint64)

lemma NewRegistry_wf: "registry_wf NewRegistry"
  by (simp add: registry_wf_def NewRegistry_def projects_wf_def worktrees_wf_def)

lemma add_projects_wf: "registry_wf r \<Longrightarrow> add_projects r ps = Inr r' \<Longrightarrow> registry_wf r'"
  by (induction ps arbitrary: r) (auto split: sum.splits intro: AddProject_wf)

lemma add_worktrees_wf: "registry_wf r \<Longrightarrow> add_worktrees r ws = Inr r' \<Longrightarrow> registry_wf r'"
  by (induction ws arbitrary: r) (auto split: sum.splits intro: AddWorktree_wf)

lemma registry_wf_later: "registry_wf r \<Longrightarrow> revision r \<le> n \<Longrightarrow> registry_wf (r\<lparr>revision := n\<rparr>)"
  by (auto simp: registry_wf_def word_le_nat_alt)

lemma RegistryFrom_wf:
  assumes "RegistryFrom s = Inr r"
  shows "registry_wf r"
proof -
  obtain r1 r2 where "add_projects NewRegistry (s_projects s) = Inr r1"
      "add_worktrees r1 (s_worktrees s) = Inr r2" "\<not> s_revision s < revision r2"
      "r = r2\<lparr>revision := s_revision s\<rparr>"
    using assms by (auto simp: RegistryFrom_def split: sum.splits if_splits)
  then show ?thesis
    using add_projects_wf [OF NewRegistry_wf] add_worktrees_wf registry_wf_later
    by (metis linorder_not_less)
qed

interpretation registry_machine: stamped_machine registry_init registry_step registry_wf
  "\<lambda>r. unat (revision r)"
proof unfold_locales
  show "registry_init r \<Longrightarrow> registry_wf r" for r
    using NewRegistry_wf RegistryFrom_wf by (auto simp: registry_init_def)
  show "registry_wf r \<Longrightarrow> registry_step r r' \<Longrightarrow> registry_wf r'" for r r'
    by (erule registry_step.cases) (auto intro: AddProject_wf AddWorktree_wf ApplyDelete_wf)
  show "registry_step r r' \<Longrightarrow> unat (revision r) < unat (revision r')" for r r'
    by (erule registry_step.cases)
      (auto dest!: AddProject_Inr AddWorktree_Inr ApplyDelete_Inr)
qed

section \<open>Snapshots round-trip\<close>

definition registry_coherent :: "Registry \<Rightarrow> bool" where
  "registry_coherent r \<longleftrightarrow> (\<forall>w \<in> set (vals (worktrees r)).
     \<exists>p. map_of (projects r) (w_project w) = Some p \<and> p_common p = w_common w)"

abbreviation keyed_projects :: "Project list \<Rightarrow> (string \<times> Project) list" where
  "keyed_projects ps \<equiv> map (\<lambda>p. (p_id p, p)) ps"

abbreviation keyed_worktrees :: "Worktree list \<Rightarrow> (string \<times> Worktree) list" where
  "keyed_worktrees ws \<equiv> map (\<lambda>w. (w_id w, w)) ws"

lemma unat_not_max: "unat (w :: uint64) + Suc n < 2 ^ 64 \<Longrightarrow> w \<noteq> max_uint64"
  using unat_max_uint64 by auto

lemma add_projects_ok:
  assumes "\<forall>p \<in> set ps. valid_project p" "distinct (keys (projects r) @ map p_id ps)"
    and "distinct (map p_root (vals (projects r) @ ps))" "distinct (map p_common (vals (projects r) @ ps))"
    and "length (projects r) + length ps \<le> MaxProjects" "unat (revision r) + length ps < 2 ^ 64"
  shows "add_projects r ps =
    Inr (r\<lparr>projects := projects r @ keyed_projects ps, revision := revision r + of_nat (length ps)\<rparr>)"
  using assms
proof (induction ps arbitrary: r)
  case (Cons p ps)
  have max: "revision r \<noteq> max_uint64" using Cons.prems(6) by (intro unat_not_max) simp
  let ?r = "r\<lparr>projects := projects r @ [(p_id p, p)], revision := revision r + 1\<rparr>"
  have "\<forall>q \<in> set (projects r). p_common (snd q) \<noteq> p_common p \<and> p_root (snd q) \<noteq> p_root p"
    using Cons.prems(3,4) by (fastforce simp: image_iff)
  then have "AddProject r p = Inr ?r"
    using Cons.prems max
    by (auto simp: AddProject_def valid_project_def list_ex_iff update_fresh)
  moreover have "add_projects ?r ps = Inr (?r\<lparr>projects := projects ?r @ keyed_projects ps,
      revision := revision ?r + of_nat (length ps)\<rparr>)"
    using Cons.prems max by (intro Cons.IH) (auto simp: unat_inc_uint64)
  ultimately show ?case by (simp add: add.assoc)
qed simp

lemma add_worktrees_ok:
  assumes "\<forall>w \<in> set ws. valid_worktree w \<and>
      (\<exists>p. map_of (projects r) (w_project w) = Some p \<and> p_common p = w_common w)"
    and "distinct (keys (worktrees r) @ map w_id ws)" "distinct (map w_path (vals (worktrees r) @ ws))"
    and "length (worktrees r) + length ws \<le> MaxWorktrees" "unat (revision r) + length ws < 2 ^ 64"
  shows "add_worktrees r ws =
    Inr (r\<lparr>worktrees := worktrees r @ keyed_worktrees ws, revision := revision r + of_nat (length ws)\<rparr>)"
  using assms
proof (induction ws arbitrary: r)
  case (Cons w ws)
  have max: "revision r \<noteq> max_uint64" using Cons.prems(5) by (intro unat_not_max) simp
  let ?r = "r\<lparr>worktrees := worktrees r @ [(w_id w, w)], revision := revision r + 1\<rparr>"
  have "\<forall>v \<in> set (worktrees r). w_path (snd v) \<noteq> w_path w"
    using Cons.prems(3) by (fastforce simp: image_iff)
  then have "AddWorktree r w = Inr ?r"
    using Cons.prems max
    by (auto simp: AddWorktree_def registry_project_def valid_worktree_def list_ex_iff update_fresh)
  moreover have "add_worktrees ?r ws = Inr (?r\<lparr>worktrees := worktrees ?r @ keyed_worktrees ws,
      revision := revision ?r + of_nat (length ws)\<rparr>)"
    using Cons.prems max by (intro Cons.IH) (auto simp: unat_inc_uint64)
  ultimately show ?case by (simp add: add.assoc)
qed simp

lemma distinct_map_sort_key [simp]: "distinct (map f (sort_key g xs)) = distinct (map f xs)"
  by (simp add: distinct_map)

lemma sort_key_again: "sort_key f (sort_key f xs) = sort_key f xs"
  by (rule sort_key_id_if_sorted) simp

lemma keyed_vals: "\<forall>(k, v) \<in> set m. k = f v \<Longrightarrow> map (\<lambda>v. (f v, v)) (vals m) = m"
  by (induction m) auto

lemma keyed_keys: "\<forall>(k, v) \<in> set m. k = f v \<Longrightarrow> map f (vals m) = keys m"
  by (induction m) auto

text \<open>Restoring a list that was sorted by its own key gives the same map.\<close>

lemma map_of_keyed_sort:
  assumes "\<forall>(k, v) \<in> set m. k = f v" "distinct (keys m)"
  shows "map_of (map (\<lambda>v. (f v, v)) (sort_key g (vals m))) = map_of m"
proof (rule distinct_keys_set_map_of_eq)
  have "distinct (map f (sort_key g (vals m)))"
    using assms(2) by (simp only: distinct_map_sort_key keyed_keys [OF assms(1)])
  then show "distinct (keys (map (\<lambda>v. (f v, v)) (sort_key g (vals m))))" by (simp add: comp_def)
  have "set (map (\<lambda>v. (f v, v)) (sort_key g (vals m))) = set (map (\<lambda>v. (f v, v)) (vals m))"
    by (simp only: set_map set_sort)
  then show "set (map (\<lambda>v. (f v, v)) (sort_key g (vals m))) = set m"
    by (simp only: keyed_vals [OF assms(1)])
qed (rule assms(2))

text \<open>The registry that the snapshot of \<open>r\<close> restores to.\<close>

definition restored :: "Registry \<Rightarrow> Registry" where
  "restored r = \<lparr>revision = revision r,
     projects = keyed_projects (sort_key p_id (vals (projects r))),
     worktrees = keyed_worktrees (sort_key w_id (vals (worktrees r)))\<rparr>"

lemma restored_maps:
  assumes "registry_wf r"
  shows "map_of (projects (restored r)) = map_of (projects r)"
    and "map_of (worktrees (restored r)) = map_of (worktrees r)"
proof -
  have "\<forall>(k, p) \<in> set (projects r). k = p_id p" "distinct (keys (projects r))"
    and "\<forall>(k, w) \<in> set (worktrees r). k = w_id w" "distinct (keys (worktrees r))"
    using assms by (auto simp: registry_wf_def projects_wf_def worktrees_wf_def)
  then show "map_of (projects (restored r)) = map_of (projects r)"
    and "map_of (worktrees (restored r)) = map_of (worktrees r)"
    by (simp_all add: restored_def map_of_keyed_sort del: map_map)
qed

lemma restore_projects:
  assumes "registry_wf r"
  shows "add_projects NewRegistry (sort_key p_id (vals (projects r))) =
    Inr \<lparr>revision = of_nat (length (projects r)),
         projects = keyed_projects (sort_key p_id (vals (projects r))), worktrees = []\<rparr>"
proof -
  have wf: "projects_wf (projects r)" using assms by (simp add: registry_wf_def)
  have "map p_id (vals (projects r)) = keys (projects r)"
    using wf by (intro keyed_keys) (auto simp: projects_wf_def)
  then have "distinct (map p_id (vals (projects r)))" using wf by (simp only: projects_wf_def)
  moreover have "\<forall>p \<in> set (vals (projects r)). valid_project p" using wf by (auto simp: projects_wf_def)
  ultimately show ?thesis
    using wf by (subst add_projects_ok) (auto simp: NewRegistry_def projects_wf_def MaxProjects_def simp del: map_map)
qed

lemma RegistryFrom_snapshot:
  assumes "registry_wf r" "registry_coherent r"
  shows "RegistryFrom (registry_snapshot r) = Inr (restored r)"
proof -
  have wf: "worktrees_wf (projects r) (worktrees r)" using assms by (simp add: registry_wf_def)
  have small: "length (projects r) \<le> 100" "length (worktrees r) \<le> 1000"
    using assms(1) by (auto simp: registry_wf_def projects_wf_def worktrees_wf_def MaxProjects_def MaxWorktrees_def)
  let ?ws = "sort_key w_id (vals (worktrees r))"
  let ?r1 = "\<lparr>revision = of_nat (length (projects r)), projects = projects (restored r), worktrees = []\<rparr>"
  have ids: "map w_id (vals (worktrees r)) = keys (worktrees r)"
    using wf by (intro keyed_keys) (auto simp: worktrees_wf_def)
  then have "distinct (map w_id (vals (worktrees r)))" using wf by (simp only: worktrees_wf_def)
  moreover have "\<forall>w \<in> set ?ws. valid_worktree w \<and>
      (\<exists>p. map_of (projects ?r1) (w_project w) = Some p \<and> p_common p = w_common w)"
    using wf assms restored_maps(1) [OF assms(1)]
    by (auto simp: worktrees_wf_def registry_coherent_def)
  moreover have "unat (of_nat (length (projects r)) :: uint64) = length (projects r)"
    using small by (intro unat_of_nat_uint64) simp
  ultimately have "add_worktrees ?r1 ?ws = Inr (?r1\<lparr>worktrees := keyed_worktrees ?ws,
      revision := of_nat (length (projects r)) + of_nat (length (worktrees r))\<rparr>)"
    using wf small by (subst add_worktrees_ok) (auto simp: worktrees_wf_def simp del: map_map)
  moreover have "\<not> revision r < of_nat (length (projects r)) + of_nat (length (worktrees r))"
  proof -
    have "unat (of_nat (length (projects r) + length (worktrees r)) :: uint64)
          = length (projects r) + length (worktrees r)"
      using small by (intro unat_of_nat_uint64) simp
    then show ?thesis using assms(1) by (simp add: registry_wf_def word_less_nat_alt)
  qed
  ultimately show ?thesis
    using restore_projects [OF assms(1)]
    by (simp add: RegistryFrom_def registry_snapshot_def restored_def)
qed

section \<open>Properties\<close>

text \<open>
  C8: Registry invariant. Every registry built by admissions and deletions, from the empty registry or
  from an accepted snapshot, keeps: keys equal to the identities of valid entries, at most one
  project per root and per common directory, at most one worktree per path, the admission limits,
  a registered parent for every worktree, and a revision that counts at least the entries.
\<close>

theorem registry_invariant: "reach registry_init registry_step r \<Longrightarrow> registry_wf r"
  by (rule registry_machine.reach_inv)

text \<open>
  Identity binding. A registered worktree has a registered parent project whose common
  directory is the worktree's own, unless a valid project exists whose identity fields collide
  with the parent's under SHA-256.
\<close>

theorem registered_parent_common:
  assumes "reach registry_init registry_step r" "(k, w) \<in> set (worktrees r)"
  shows "\<exists>p. map_of (projects r) (w_project w) = Some p \<and>
    (p_common p = w_common w \<or>
     (\<exists>p0. valid_project p0 \<and> p_common p0 = w_common w \<and> collision sha256 (project_frame p) (project_frame p0)))"
proof -
  have wf: "registry_wf r" using assms(1) by (rule registry_machine.reach_inv)
  then have "parent_ok (projects r) w" using assms(2) by (auto simp: registry_wf_def worktrees_wf_def)
  then obtain p p0 where p: "map_of (projects r) (w_project w) = Some p"
      and p0: "valid_project p0" "p_id p0 = w_project w" "p_common p0 = w_common w"
    by (auto simp: parent_ok_def)
  have "(w_project w, p) \<in> set (projects r)" using p by (rule map_of_SomeD)
  then have "valid_project p" "p_id p = p_id p0"
    using wf p0(2) by (auto simp: registry_wf_def projects_wf_def)
  then have "p = p0 \<or> collision sha256 (project_frame p) (project_frame p0)"
    using p0(1) by (intro project_id_binds)
  then show ?thesis using p p0 by blast
qed

text \<open>
  C15: Persistence round trip. A snapshot of any reachable coherent registry is accepted by
  \<open>RegistryFrom\<close>, and the restored registry has the same revision, the same projects and the same
  worktrees; snapshotting it again gives the same snapshot.
\<close>

theorem registry_snapshot_roundtrip:
  assumes "reach registry_init registry_step r" "registry_coherent r"
  shows "\<exists>r'. RegistryFrom (registry_snapshot r) = Inr r' \<and> revision r' = revision r
    \<and> map_of (projects r') = map_of (projects r) \<and> map_of (worktrees r') = map_of (worktrees r)
    \<and> registry_snapshot r' = registry_snapshot r"
proof -
  have wf: "registry_wf r" using assms(1) by (rule registry_machine.reach_inv)
  have "registry_snapshot (restored r) = registry_snapshot r"
    by (simp add: registry_snapshot_def restored_def comp_def sort_key_again)
  then show ?thesis
    using RegistryFrom_snapshot [OF wf assms(2)] restored_maps [OF wf] by (auto simp: restored_def)
qed

text \<open>
  Deletion is bound to its preview. Once any mutation of the registry has succeeded after a
  deletion was planned, applying that plan is refused with \<open>ErrChanged\<close>: a stale plan never
  deletes anything.
\<close>

theorem stale_plan_refused:
  assumes "reach registry_init registry_step r" "registry_step\<^sup>+\<^sup>+ r r'"
    and "PlanDeleteProject r i = Inr plan \<or> PlanDeleteWorktree r i = Inr plan"
  shows "ApplyDelete r' plan = Inl ErrChanged"
proof -
  have "unat (revision r) < unat (revision r')"
    using registry_machine.stamp_increases [OF assms(2) registry_machine.reach_inv [OF assms(1)]] .
  moreover have "d_revision plan = revision r"
    using assms(3) by (auto simp: PlanDeleteProject_def PlanDeleteWorktree_def split: sum.splits if_splits)
  ultimately show ?thesis by (auto simp: ApplyDelete_def)
qed

text \<open>
  Applying an unmodified preview of a project deletion removes exactly that project and leaves
  every other project and every worktree registered; no worktree belonged to it.
\<close>

theorem fresh_project_plan_applies:
  assumes "reach registry_init registry_step r" "PlanDeleteProject r i = Inr plan"
    and "revision r \<noteq> max_uint64"
  shows "\<exists>r'. ApplyDelete r plan = Inr r' \<and> map_of (projects r') = (map_of (projects r))(i := None)
    \<and> map_of (projects r) i \<noteq> None \<and> worktrees r' = worktrees r
    \<and> revision r' = revision r + 1 \<and> (\<forall>w \<in> set (vals (worktrees r)). w_project w \<noteq> i)"
proof -
  have plan: "plan = \<lparr>d_kind = ''project'', d_id = i, d_revision = revision r, d_digest = registry_digest r\<rparr>"
    and reg: "map_of (projects r) i \<noteq> None" and unused: "\<forall>w \<in> set (vals (worktrees r)). w_project w \<noteq> i"
    using assms(2)
    by (auto simp: PlanDeleteProject_def registry_project_def list_ex_iff split: sum.splits if_splits option.splits)
  have "ApplyDelete r plan = Inr (r\<lparr>projects := AList.delete i (projects r), revision := revision r + 1\<rparr>)"
    using assms(2,3) plan by (simp add: ApplyDelete_def)
  then show ?thesis using reg unused by (auto simp: AList.delete_conv')
qed

text \<open>
  Path safety. A path that the registry accepts is a slash followed by slash-separated segments none
  of which is empty, a dot or a parent reference, and it contains no NUL, carriage return or line
  feed, so it denotes the same place however it is joined or printed.
\<close>

theorem validPath_segments:
  assumes "validPath s"
  shows "\<exists>cs. s = slash # join [slash] cs \<and> (\<forall>c \<in> set cs. good_segment c)
    \<and> CHR 0x00 \<notin> set s \<and> CHR 0x0D \<notin> set s \<and> CHR 0x0A \<notin> set s"
proof -
  have "is_abs s" "path_clean s = s" using assms by (simp_all add: validPath_def)
  then obtain cs where "s = slash # join [slash] cs" "list_all good_segment cs"
    by (rule path_clean_fixed_segments)
  then show ?thesis using assms by (auto simp: validPath_def contains_any_iff list_all_iff)
qed

section \<open>Witnesses\<close>

definition ex_project :: Project where
  "ex_project = \<lparr>p_id = identity ''p_'' [''/a'', ''/a/.git'', ''w''], p_root = ''/a'',
                 p_common = ''/a/.git'', p_witness = ''w''\<rparr>"

definition ex_worktree :: Worktree where
  "ex_worktree = \<lparr>w_id = identity ''w_'' [p_id ex_project, ''/a'', ''/a/.git'', ''/s'', ''w''],
                  w_project = p_id ex_project, w_path = ''/a'', w_common = ''/a/.git'',
                  w_store = ''/s'', w_witness = ''w''\<rparr>"

definition ex_registry1 :: Registry where
  "ex_registry1 = \<lparr>revision = 1, projects = [(p_id ex_project, ex_project)], worktrees = []\<rparr>"

definition ex_registry2 :: Registry where
  "ex_registry2 = \<lparr>revision = 2, projects = [(p_id ex_project, ex_project)],
                   worktrees = [(w_id ex_worktree, ex_worktree)]\<rparr>"

lemma ex_paths: "validPath ''/a''" "validPath ''/a/.git''" "validPath ''/s''" "validWitness ''w''"
  by (simp_all add: validPath_def validWitness_def valid_utf8_ascii is_abs_def path_clean_def Let_def
        contains_any_def)

lemma ex_project_valid: "ProjectOf ''/a'' ''/a/.git'' ''w'' = Inr ex_project"
  by (simp add: ProjectOf_def ex_paths ex_project_def)

lemma ex_worktree_valid:
  "WorktreeOf (p_id ex_project) ''/a'' ''/a/.git'' ''/s'' ''w'' = Inr ex_worktree"
  using length_identity [of "''p_''" "[''/a'', ''/a/.git'', ''w'']"]
  by (simp add: WorktreeOf_def ex_paths ex_worktree_def ex_project_def) (simp add: identity_def)

lemma ex_registry_steps:
  "AddProject NewRegistry ex_project = Inr ex_registry1"
  "AddWorktree ex_registry1 ex_worktree = Inr ex_registry2"
proof -
  show "AddProject NewRegistry ex_project = Inr ex_registry1"
    using ex_project_valid
    by (simp add: AddProject_def NewRegistry_def ex_registry1_def ex_project_def MaxProjects_def)
  show "AddWorktree ex_registry1 ex_worktree = Inr ex_registry2"
    using ex_worktree_valid
    by (simp add: AddWorktree_def ex_registry1_def ex_registry2_def ex_worktree_def registry_project_def
          MaxWorktrees_def) (simp add: ex_project_def)
qed

lemma ex_registry_reach:
  "reach registry_init registry_step ex_registry1" "reach registry_init registry_step ex_registry2"
proof -
  have "reach registry_init registry_step NewRegistry"
    by (rule reach.reach_init) (simp add: registry_init_def)
  then show r1: "reach registry_init registry_step ex_registry1"
    by (rule reach.reach_step) (rule registry_step.add_project [OF ex_registry_steps(1)])
  then show "reach registry_init registry_step ex_registry2"
    by (rule reach.reach_step) (rule registry_step.add_worktree [OF ex_registry_steps(2)])
qed

theorem registry_invariant_witness:
  "reach registry_init registry_step ex_registry2 \<and> registry_wf ex_registry2"
  using ex_registry_reach(2) registry_invariant [OF ex_registry_reach(2)] by simp

theorem registered_parent_common_witness:
  "\<exists>p. map_of (projects ex_registry2) (w_project ex_worktree) = Some p \<and>
    (p_common p = w_common ex_worktree \<or>
     (\<exists>p0. valid_project p0 \<and> p_common p0 = w_common ex_worktree
        \<and> collision sha256 (project_frame p) (project_frame p0)))"
  by (rule registered_parent_common [OF ex_registry_reach(2), of "w_id ex_worktree"])
    (simp add: ex_registry2_def)

theorem registry_snapshot_roundtrip_witness:
  "\<exists>r'. RegistryFrom (registry_snapshot ex_registry2) = Inr r' \<and> revision r' = 2"
proof -
  have "registry_coherent ex_registry2"
    by (simp add: registry_coherent_def ex_registry2_def ex_worktree_def) (simp add: ex_project_def)
  then show ?thesis
    using registry_snapshot_roundtrip [OF ex_registry_reach(2)] by (auto simp: ex_registry2_def)
qed

theorem stale_plan_refused_witness:
  "\<exists>plan. PlanDeleteProject ex_registry1 (p_id ex_project) = Inr plan
     \<and> ApplyDelete ex_registry2 plan = Inl ErrChanged"
proof -
  obtain plan where p: "PlanDeleteProject ex_registry1 (p_id ex_project) = Inr plan"
    by (simp add: PlanDeleteProject_def registry_project_def ex_registry1_def)
  have "registry_step\<^sup>+\<^sup>+ ex_registry1 ex_registry2"
    by (rule tranclp.r_into_trancl) (rule registry_step.add_worktree [OF ex_registry_steps(2)])
  then show ?thesis using stale_plan_refused [OF ex_registry_reach(1)] p by blast
qed

theorem fresh_project_plan_applies_witness:
  "\<exists>plan r'. PlanDeleteProject ex_registry1 (p_id ex_project) = Inr plan
     \<and> ApplyDelete ex_registry1 plan = Inr r' \<and> revision r' = 2"
proof -
  obtain plan where p: "PlanDeleteProject ex_registry1 (p_id ex_project) = Inr plan"
    by (simp add: PlanDeleteProject_def registry_project_def ex_registry1_def)
  have "revision ex_registry1 \<noteq> max_uint64" by (simp add: ex_registry1_def)
  then show ?thesis
    using fresh_project_plan_applies [OF ex_registry_reach(1) p] p by (auto simp: ex_registry1_def)
qed

theorem validPath_segments_witness:
  "\<exists>cs. ''/a/.git'' = slash # join [slash] cs \<and> (\<forall>c \<in> set cs. good_segment c)"
  using validPath_segments [OF ex_paths(2)] by blast

end
