(* ===== verification/Rt_Launch.thy ===== *)
theory Rt_Launch
  imports Rt_Registry
begin

text \<open>
  Launch identities, operator profiles and the one-way states of an owned process, from
  \<open>domain/runtime/launch.go\<close>. A type of Go string constants is a datatype with one constructor per
  constant and one that holds any other string. \<open>HostProfile\<close> and \<open>LaunchDescriptor\<close> wrap one
  state field and are modelled by that state.
\<close>

section \<open>Identifiers and profiles\<close>

definition MaxActiveRuns :: int where "MaxActiveRuns = 256"
definition MaxLaunchRequests :: int where "MaxLaunchRequests = 1024"

definition validLaunchID :: "string \<Rightarrow> bool" where
  "validLaunchID s \<longleftrightarrow> length s = 32 \<and> hex_decode s \<noteq> None \<and> map to_lower s = s"

record LaunchIdentity =
  li_run :: string
  li_generation :: string
  li_epoch :: string

definition identity_valid :: "LaunchIdentity \<Rightarrow> bool" where
  "identity_valid i \<longleftrightarrow> validLaunchID (li_run i) \<and> validLaunchID (li_generation i) \<and> validLaunchID (li_epoch i)"

definition printableLaunchValue :: "string \<Rightarrow> nat \<Rightarrow> bool" where
  "printableLaunchValue s limit \<longleftrightarrow>
     \<not> (length s = 0 \<or> length s > limit \<or> trim_space s \<noteq> s)
     \<and> list_all (\<lambda>r. 32 \<le> ord r \<and> ord r \<le> 126) s"

record HostProfile =
  hp_id :: string
  hp_host :: string
  hp_executable :: string
  hp_executable_witness :: string
  hp_version :: string

definition known_host :: "string \<Rightarrow> bool" where
  "known_host h \<longleftrightarrow> h = ''codex'' \<or> h = ''claude'' \<or> h = ''antigravity'' \<or> h = ''grok''"

definition HostProfileFrom :: "HostProfile \<Rightarrow> HostProfile rt" where
  "HostProfileFrom s =
     (case ProfileIDFrom (hp_id s) of
        Inl e \<Rightarrow> Inl e
      | Inr _ \<Rightarrow>
          if \<not> known_host (hp_host s) then Inl ErrInvalid
          else if \<not> validPath (hp_executable s) \<or> \<not> validWitness (hp_executable_witness s)
                  \<or> \<not> printableLaunchValue (hp_version s) 256 then Inl ErrInvalid
          else Inr s)"

section \<open>Owned runs\<close>

datatype RunState = RunReserved | RunLive | RunExited | RunStateOther string

record RunSnapshot =
  rs_identity :: LaunchIdentity
  rs_target :: Target
  rs_profile :: HostProfile
  rs_state :: RunState
  rs_pid :: int
  rs_exit_code :: int
  rs_publication_uncertain :: bool

type_synonym LaunchDescriptor = RunSnapshot

definition LaunchDescriptorOf :: "LaunchIdentity \<Rightarrow> Target \<Rightarrow> HostProfile \<Rightarrow> LaunchDescriptor rt" where
  "LaunchDescriptorOf i target profile =
     (if \<not> identity_valid i \<or> w_id (t_worktree target) = '''' \<or> t_profile target \<noteq> hp_id profile
      then Inl ErrInvalid
      else case HostProfileFrom profile of
        Inl e \<Rightarrow> Inl e
      | Inr _ \<Rightarrow> Inr \<lparr>rs_identity = i, rs_target = target, rs_profile = profile, rs_state = RunReserved,
                      rs_pid = 0, rs_exit_code = 0, rs_publication_uncertain = False\<rparr>)"

definition Started :: "LaunchDescriptor \<Rightarrow> int \<Rightarrow> LaunchDescriptor rt" where
  "Started d pid =
     (if rs_state d \<noteq> RunReserved then Inl ErrChanged
      else if pid \<le> 0 then Inl ErrInvalid
      else Inr (d\<lparr>rs_pid := pid, rs_state := RunLive\<rparr>))"

definition MarkUncertain :: "LaunchDescriptor \<Rightarrow> LaunchDescriptor rt" where
  "MarkUncertain d = Inr (d\<lparr>rs_publication_uncertain := True\<rparr>)"

definition Exit :: "LaunchDescriptor \<Rightarrow> int \<Rightarrow> LaunchDescriptor rt" where
  "Exit d code =
     (if rs_state d \<noteq> RunLive then Inl ErrChanged
      else Inr (d\<lparr>rs_state := RunExited, rs_exit_code := code\<rparr>))"

inductive launch_step :: "LaunchDescriptor \<Rightarrow> LaunchDescriptor \<Rightarrow> bool" where
  started: "Started d pid = Inr d' \<Longrightarrow> launch_step d d'"
| uncertain: "MarkUncertain d = Inr d' \<Longrightarrow> launch_step d d'"
| exited: "Exit d code = Inr d' \<Longrightarrow> launch_step d d'"

definition launch_init :: "LaunchDescriptor \<Rightarrow> bool" where
  "launch_init d \<longleftrightarrow> (\<exists>i t p. LaunchDescriptorOf i t p = Inr d)"

text \<open>The process id and the exit code belong to the states that have them.\<close>

definition launch_wf :: "LaunchDescriptor \<Rightarrow> bool" where
  "launch_wf d \<longleftrightarrow> identity_valid (rs_identity d) \<and> HostProfileFrom (rs_profile d) = Inr (rs_profile d)
     \<and> t_profile (rs_target d) = hp_id (rs_profile d) \<and>
     (case rs_state d of
        RunReserved \<Rightarrow> rs_pid d = 0 \<and> rs_exit_code d = 0
      | RunLive \<Rightarrow> 0 < rs_pid d \<and> rs_exit_code d = 0
      | RunExited \<Rightarrow> 0 < rs_pid d
      | RunStateOther _ \<Rightarrow> False)"

text \<open>What no later transition changes: the binding, the started child, and the exit result.\<close>

fun launch_sealed :: "LaunchDescriptor \<Rightarrow> LaunchDescriptor \<Rightarrow> bool" where
  "launch_sealed d0 d \<longleftrightarrow> rs_identity d = rs_identity d0 \<and> rs_target d = rs_target d0
     \<and> rs_profile d = rs_profile d0
     \<and> (rs_state d0 \<noteq> RunReserved \<longrightarrow> rs_pid d = rs_pid d0 \<and> rs_state d \<noteq> RunReserved)
     \<and> (rs_state d0 = RunExited \<longrightarrow> rs_state d = RunExited \<and> rs_exit_code d = rs_exit_code d0)
     \<and> (rs_publication_uncertain d0 \<longrightarrow> rs_publication_uncertain d)"

lemma HostProfileFrom_Inr: "HostProfileFrom s = Inr t \<Longrightarrow> t = s"
  by (auto simp: HostProfileFrom_def split: sum.splits if_splits)

interpretation launch_machine: sealed_machine launch_init launch_step launch_wf launch_sealed
proof unfold_locales
  show "launch_init d \<Longrightarrow> launch_wf d" for d
    by (auto simp: launch_init_def LaunchDescriptorOf_def launch_wf_def
        split: if_splits sum.splits dest: HostProfileFrom_Inr)
  show "launch_wf d \<Longrightarrow> launch_step d d' \<Longrightarrow> launch_wf d'" for d d'
    by (erule launch_step.cases)
      (auto simp: launch_wf_def Started_def MarkUncertain_def Exit_def split: if_splits RunState.splits)
  show "launch_wf d \<Longrightarrow> launch_step d d' \<Longrightarrow> launch_sealed d0 d \<Longrightarrow> launch_sealed d0 d'" for d d' d0
    by (erule launch_step.cases)
      (auto simp: Started_def MarkUncertain_def Exit_def split: if_splits)
qed

section \<open>Properties\<close>

text \<open>
  An owned run moves one way. From any reachable descriptor, however transitions are
  interleaved, the launch identity, target and profile never change, a started run keeps its
  process id and never becomes reserved again, and an exited run stays exited with the exit code it
  recorded first; only a live or exited run has a process id.
\<close>

theorem launch_one_way:
  assumes "reach launch_init launch_step d" "launch_step\<^sup>*\<^sup>* d d'"
  shows "launch_wf d' \<and> rs_identity d' = rs_identity d \<and> rs_target d' = rs_target d
    \<and> rs_profile d' = rs_profile d
    \<and> (rs_state d \<noteq> RunReserved \<longrightarrow> rs_pid d' = rs_pid d \<and> rs_state d' \<noteq> RunReserved)
    \<and> (rs_state d = RunExited \<longrightarrow> rs_state d' = RunExited \<and> rs_exit_code d' = rs_exit_code d)"
proof -
  have wf: "launch_wf d" using assms(1) by (rule launch_machine.reach_inv)
  have "launch_sealed d d" by simp
  then have "launch_sealed d d'" by (rule launch_machine.sealed_forever [OF assms(2) wf])
  then show ?thesis using launch_machine.steps_inv [OF assms(2) wf] by simp
qed

section \<open>Witnesses\<close>

definition ex_identity :: LaunchIdentity where
  "ex_identity = \<lparr>li_run = replicate 32 CHR ''a'', li_generation = replicate 32 CHR ''b'',
                  li_epoch = replicate 32 CHR ''c''\<rparr>"

definition ex_profile :: HostProfile where
  "ex_profile = \<lparr>hp_id = ''dev'', hp_host = ''codex'', hp_executable = ''/s'',
                 hp_executable_witness = ''w'', hp_version = ''1''\<rparr>"

definition ex_target :: Target where
  "ex_target = \<lparr>t_worktree = ex_worktree, t_profile = ''dev''\<rparr>"

definition ex_live :: LaunchDescriptor where
  "ex_live = \<lparr>rs_identity = ex_identity, rs_target = ex_target, rs_profile = ex_profile,
              rs_state = RunLive, rs_pid = 7, rs_exit_code = 0, rs_publication_uncertain = False\<rparr>"

lemma replicate_launch_id: "hex_lower c \<Longrightarrow> validLaunchID (replicate 32 c)"
  using hex_lower_props [of c] hex_decodable [of "replicate 32 c"]
  by (auto simp: validLaunchID_def list_all_iff)

lemma ex_identity_valid: "identity_valid ex_identity"
  by (simp add: identity_valid_def ex_identity_def replicate_launch_id hex_lower_def char_in_def)

lemma printable_solid:
  "s \<noteq> [] \<Longrightarrow> length s \<le> n \<Longrightarrow> list_all solid s \<Longrightarrow> printableLaunchValue s n"
  by (auto simp: printableLaunchValue_def list_all_iff solid_def intro!: trim_space_solid)

lemma ex_profile_valid: "HostProfileFrom ex_profile = Inr ex_profile"
  by (simp add: HostProfileFrom_def ex_profile_def ProfileIDFrom_def is_alnum_def char_in_def
        known_host_def ex_paths printable_solid solid_def)

lemma ex_worktree_id_nonempty: "w_id ex_worktree \<noteq> ''''"
  by (simp add: ex_worktree_def identity_def)

lemma ex_launch:
  "LaunchDescriptorOf ex_identity ex_target ex_profile =
     Inr (ex_live\<lparr>rs_state := RunReserved, rs_pid := 0\<rparr>)"
  using ex_profile_valid ex_worktree_id_nonempty
  by (simp add: LaunchDescriptorOf_def ex_identity_valid ex_target_def ex_live_def)
    (simp add: ex_profile_def)

lemma ex_live_reach: "reach launch_init launch_step ex_live"
proof -
  have "reach launch_init launch_step (ex_live\<lparr>rs_state := RunReserved, rs_pid := 0\<rparr>)"
    using ex_launch by (intro reach.reach_init) (auto simp: launch_init_def)
  moreover have "Started (ex_live\<lparr>rs_state := RunReserved, rs_pid := 0\<rparr>) 7 = Inr ex_live"
    by (simp add: Started_def ex_live_def)
  ultimately show ?thesis by (metis reach.reach_step launch_step.started)
qed

theorem launch_one_way_witness:
  "launch_wf (ex_live\<lparr>rs_state := RunExited, rs_exit_code := 3\<rparr>)
    \<and> rs_pid (ex_live\<lparr>rs_state := RunExited, rs_exit_code := 3\<rparr>) = rs_pid ex_live"
proof -
  have "Exit ex_live 3 = Inr (ex_live\<lparr>rs_state := RunExited, rs_exit_code := 3\<rparr>)"
    by (simp add: Exit_def ex_live_def)
  then have "launch_step\<^sup>*\<^sup>* ex_live (ex_live\<lparr>rs_state := RunExited, rs_exit_code := 3\<rparr>)"
    by (intro r_into_rtranclp) (rule launch_step.exited)
  from launch_one_way [OF ex_live_reach this] show ?thesis by simp
qed

end
