(* ===== verification/Rt_Control.thy ===== *)
theory Rt_Control
  imports Rt_Launch
begin

text \<open>
  Terminal controls of an owned run and their receipts, from \<open>domain/runtime/control.go\<close>: intents
  are validated per kind, a ledger admits each request once, completes it once and keeps the
  result. The properties are those of an at-most-once protocol: terminal evidence is immutable,
  a replayed request returns its evidence, a conflicting one is refused, and stopping a run keeps
  reserved capacity.
\<close>

section \<open>Intents and receipts\<close>

definition MaxControlInputBytes :: int where "MaxControlInputBytes = 16 * 1024"
definition MaxControlReceipts :: nat where "MaxControlReceipts = 1024"
definition ReservedLifecycleReceipts :: nat where "ReservedLifecycleReceipts = 16"
definition MaxControlCoordinators :: int where "MaxControlCoordinators = 32"

datatype ControlKind = ControlInput | ControlResize | ControlStop | ControlKindOther string

datatype ControlOutcome =
  ControlPending | ControlDelivered | ControlUnknown | ControlRejected | ControlOutcomeOther string

record ControlIntent =
  ci_request_id :: string
  ci_kind :: ControlKind
  ci_manual_terminal :: bool
  ci_work_loss_acknowledged :: bool
  ci_input_bytes :: int
  ci_resize_sequence :: uint64
  ci_rows :: uint16
  ci_cols :: uint16

definition validControlRequestID :: "string \<Rightarrow> bool" where
  "validControlRequestID s \<longleftrightarrow> 1 \<le> length s \<and> length s \<le> 128
     \<and> list_all (\<lambda>c. is_alnum c \<or> c = CHR ''-'' \<or> c = CHR ''_'') s"

definition ControlRequestIDFrom :: "string \<Rightarrow> string rt" where
  "ControlRequestIDFrom value = (if validControlRequestID value then Inr value else Inl ErrInvalid)"

definition ControlIntentFrom :: "ControlIntent \<Rightarrow> ControlIntent rt" where
  "ControlIntentFrom s =
     (if \<not> validControlRequestID (ci_request_id s) then Inl ErrInvalid
      else case ci_kind s of
        ControlInput \<Rightarrow>
          if \<not> ci_manual_terminal s \<or> ci_work_loss_acknowledged s \<or> ci_input_bytes s < 1
             \<or> ci_input_bytes s > MaxControlInputBytes \<or> ci_resize_sequence s \<noteq> 0
             \<or> ci_rows s \<noteq> 0 \<or> ci_cols s \<noteq> 0 then Inl ErrInvalid else Inr s
      | ControlResize \<Rightarrow>
          if ci_manual_terminal s \<or> ci_work_loss_acknowledged s \<or> ci_input_bytes s \<noteq> 0
             \<or> ci_resize_sequence s = 0 \<or> ci_rows s = 0 \<or> ci_cols s = 0 then Inl ErrInvalid else Inr s
      | ControlStop \<Rightarrow>
          if ci_manual_terminal s \<or> \<not> ci_work_loss_acknowledged s \<or> ci_input_bytes s \<noteq> 0
             \<or> ci_resize_sequence s \<noteq> 0 \<or> ci_rows s \<noteq> 0 \<or> ci_cols s \<noteq> 0 then Inl ErrInvalid else Inr s
      | ControlKindOther _ \<Rightarrow> Inl ErrInvalid)"

record ControlSnapshot =
  cs_identity :: LaunchIdentity
  cs_intent :: ControlIntent
  cs_outcome :: ControlOutcome
  cs_written_bytes :: int

definition ControlReceiptFrom :: "ControlSnapshot \<Rightarrow> ControlSnapshot rt" where
  "ControlReceiptFrom s =
     (if \<not> identity_valid (cs_identity s) then Inl ErrInvalid
      else case ControlIntentFrom (cs_intent s) of
        Inl e \<Rightarrow> Inl e
      | Inr _ \<Rightarrow>
          if cs_written_bytes s < 0 \<or> cs_written_bytes s > ci_input_bytes (cs_intent s) then Inl ErrInvalid
          else case cs_outcome s of
            ControlPending \<Rightarrow> if cs_written_bytes s \<noteq> 0 then Inl ErrInvalid else Inr s
          | ControlRejected \<Rightarrow> if cs_written_bytes s \<noteq> 0 then Inl ErrInvalid else Inr s
          | ControlDelivered \<Rightarrow>
              if ci_kind (cs_intent s) = ControlInput \<and> cs_written_bytes s \<noteq> ci_input_bytes (cs_intent s)
              then Inl ErrInvalid else Inr s
          | ControlUnknown \<Rightarrow> Inr s
          | ControlOutcomeOther _ \<Rightarrow> Inl ErrInvalid)"

section \<open>The ledger\<close>

record controlEntry =
  ce_snapshot :: ControlSnapshot
  ce_fingerprint :: string

record ControlLedger =
  cl_identity :: LaunchIdentity
  cl_entries :: "(string \<times> controlEntry) list"
  cl_non_lifecycle :: int

definition NewControlLedger :: "LaunchIdentity \<Rightarrow> ControlLedger rt" where
  "NewControlLedger i =
     (if \<not> identity_valid i then Inl ErrInvalid
      else Inr \<lparr>cl_identity = i, cl_entries = [], cl_non_lifecycle = 0\<rparr>)"

text \<open>
  \<open>Inspect\<close> returns \<open>(snapshot, found, error)\<close>: an error carries its \<open>found\<close> flag, a missing
  entry is \<open>None\<close>. The constant-time comparison of fingerprints decides equality.
\<close>

definition Inspect :: "ControlLedger \<Rightarrow> ControlIntent \<Rightarrow> string \<Rightarrow> (bool \<times> rt_error) + ControlSnapshot option" where
  "Inspect l intent fingerprint =
     (case ControlIntentFrom intent of
        Inl e \<Rightarrow> Inl (False, e)
      | Inr _ \<Rightarrow> (case map_of (cl_entries l) (ci_request_id intent) of
          None \<Rightarrow> Inr None
        | Some entry \<Rightarrow>
            if cs_intent (ce_snapshot entry) \<noteq> intent \<or> ce_fingerprint entry \<noteq> fingerprint
            then Inl (True, ErrChanged)
            else Inr (Some (ce_snapshot entry))))"

definition Reserve ::
  "ControlLedger \<Rightarrow> ControlIntent \<Rightarrow> string \<Rightarrow> (bool \<times> rt_error) + (ControlLedger \<times> ControlSnapshot \<times> bool)" where
  "Reserve l intent fingerprint =
     (case Inspect l intent fingerprint of
        Inl fe \<Rightarrow> Inl fe
      | Inr (Some existing) \<Rightarrow> Inr (l, existing, True)
      | Inr None \<Rightarrow>
          if length (cl_entries l) \<ge> MaxControlReceipts
             \<or> ci_kind intent \<noteq> ControlStop
               \<and> cl_non_lifecycle l \<ge> int MaxControlReceipts - int ReservedLifecycleReceipts
          then Inl (False, ErrLimit)
          else
            let snapshot = \<lparr>cs_identity = cl_identity l, cs_intent = intent,
                            cs_outcome = ControlPending, cs_written_bytes = 0\<rparr>;
                entry = \<lparr>ce_snapshot = snapshot, ce_fingerprint = fingerprint\<rparr>;
                l' = l\<lparr>cl_entries := AList.update (ci_request_id intent) entry (cl_entries l)\<rparr>;
                l'' = (if ci_kind intent \<noteq> ControlStop
                       then l'\<lparr>cl_non_lifecycle := cl_non_lifecycle l' + 1\<rparr> else l')
            in Inr (l'', snapshot, False))"

definition Lookup :: "ControlLedger \<Rightarrow> string \<Rightarrow> ControlSnapshot rt" where
  "Lookup l i =
     (case map_of (cl_entries l) i of None \<Rightarrow> Inl ErrNotFound | Some entry \<Rightarrow> Inr (ce_snapshot entry))"

definition Complete :: "ControlLedger \<Rightarrow> string \<Rightarrow> ControlOutcome \<Rightarrow> int \<Rightarrow> (ControlLedger \<times> ControlSnapshot) rt" where
  "Complete l i outcome written =
     (case map_of (cl_entries l) i of
        None \<Rightarrow> Inl ErrNotFound
      | Some entry \<Rightarrow>
          let candidate = (ce_snapshot entry)\<lparr>cs_outcome := outcome, cs_written_bytes := written\<rparr>
          in if outcome = ControlPending then Inl ErrInvalid
             else case ControlReceiptFrom candidate of
               Inl e \<Rightarrow> Inl e
             | Inr _ \<Rightarrow>
                 if cs_outcome (ce_snapshot entry) \<noteq> ControlPending
                 then (if ce_snapshot entry = candidate then Inr (l, ce_snapshot entry) else Inl ErrChanged)
                 else Inr (l\<lparr>cl_entries := AList.update i (entry\<lparr>ce_snapshot := candidate\<rparr>) (cl_entries l)\<rparr>,
                           candidate))"

definition AbandonUncommitted :: "ControlLedger \<Rightarrow> string \<Rightarrow> ControlLedger rt" where
  "AbandonUncommitted l i =
     (case map_of (cl_entries l) i of
        None \<Rightarrow> Inl ErrNotFound
      | Some entry \<Rightarrow>
          if cs_outcome (ce_snapshot entry) \<noteq> ControlPending then Inl ErrChanged
          else let l' = l\<lparr>cl_entries := AList.delete i (cl_entries l)\<rparr>
               in Inr (if ci_kind (cs_intent (ce_snapshot entry)) \<noteq> ControlStop
                       then l'\<lparr>cl_non_lifecycle := cl_non_lifecycle l' - 1\<rparr> else l'))"

definition ValidateResizeSequence :: "uint64 \<Rightarrow> uint64 \<Rightarrow> unit rt" where
  "ValidateResizeSequence current nxt =
     (if current = max_uint64 then Inl ErrLimit
      else if nxt \<noteq> current + 1 then Inl ErrChanged
      else Inr ())"

section \<open>The ledger as a machine\<close>

inductive ledger_step :: "ControlLedger \<Rightarrow> ControlLedger \<Rightarrow> bool" where
  reserve: "Reserve l intent fp = Inr (l', snapshot, found) \<Longrightarrow> ledger_step l l'"
| complete: "Complete l i outcome written = Inr (l', snapshot) \<Longrightarrow> ledger_step l l'"
| abandon: "AbandonUncommitted l i = Inr l' \<Longrightarrow> ledger_step l l'"

definition ledger_init :: "ControlLedger \<Rightarrow> bool" where
  "ledger_init l \<longleftrightarrow> (\<exists>i. NewControlLedger i = Inr l)"

abbreviation non_stop :: "string \<times> controlEntry \<Rightarrow> bool" where
  "non_stop ke \<equiv> ci_kind (cs_intent (ce_snapshot (snd ke))) \<noteq> ControlStop"

definition entry_wf :: "LaunchIdentity \<Rightarrow> string \<times> controlEntry \<Rightarrow> bool" where
  "entry_wf i ke \<longleftrightarrow> ci_request_id (cs_intent (ce_snapshot (snd ke))) = fst ke
     \<and> cs_identity (ce_snapshot (snd ke)) = i
     \<and> ControlReceiptFrom (ce_snapshot (snd ke)) = Inr (ce_snapshot (snd ke))"

definition ledger_wf :: "ControlLedger \<Rightarrow> bool" where
  "ledger_wf l \<longleftrightarrow> identity_valid (cl_identity l) \<and> distinct (keys (cl_entries l))
     \<and> (\<forall>ke \<in> set (cl_entries l). entry_wf (cl_identity l) ke)
     \<and> cl_non_lifecycle l = int (length (filter non_stop (cl_entries l)))
     \<and> length (cl_entries l) \<le> MaxControlReceipts
     \<and> length (filter non_stop (cl_entries l)) \<le> MaxControlReceipts - ReservedLifecycleReceipts"

text \<open>The counting lemmas of the two map updates and the deletion.\<close>

lemma length_filter_update_same:
  "map_of m k = Some e \<Longrightarrow> P (k, e') = P (k, e) \<Longrightarrow>
    length (filter P (AList.update k e' m)) = length (filter P m)"
  by (induction m) auto

lemma length_filter_delete:
  "distinct (keys m) \<Longrightarrow> map_of m k = Some e \<Longrightarrow>
    length (filter P (AList.delete k m)) + (if P (k, e) then 1 else 0) = length (filter P m)"
proof (induction m)
  case (Cons kv m)
  show ?case
  proof (cases "fst kv = k")
    case True
    then have "k \<notin> set (keys m)" using Cons.prems(1) by simp
    then have "AList.delete k m = m" by (simp add: AList.delete_idem)
    then show ?thesis using True Cons.prems(2) by (cases kv) auto
  next
    case False
    then show ?thesis using Cons by (cases kv) auto
  qed
qed simp

lemma ControlIntentFrom_Inr: "ControlIntentFrom s = Inr t \<Longrightarrow> t = s"
  by (auto simp: ControlIntentFrom_def split: if_splits ControlKind.splits)

lemma ControlReceiptFrom_Inr: "ControlReceiptFrom s = Inr t \<Longrightarrow> t = s"
  by (auto simp: ControlReceiptFrom_def split: if_splits sum.splits ControlOutcome.splits)

lemma pending_receipt_valid:
  assumes "identity_valid i" "ControlIntentFrom intent = Inr intent"
  shows "ControlReceiptFrom \<lparr>cs_identity = i, cs_intent = intent, cs_outcome = ControlPending,
           cs_written_bytes = 0\<rparr> =
         Inr \<lparr>cs_identity = i, cs_intent = intent, cs_outcome = ControlPending, cs_written_bytes = 0\<rparr>"
proof -
  have "0 \<le> ci_input_bytes intent"
    using assms(2) by (auto simp: ControlIntentFrom_def split: if_splits ControlKind.splits)
  then show ?thesis using assms by (simp add: ControlReceiptFrom_def)
qed

text \<open>The outcomes of \<open>Reserve\<close>: existing evidence, or one fresh pending entry within the limits.\<close>

lemma Reserve_cases:
  assumes "Reserve l intent fp = Inr (l', snap, found)"
  obtains (existing) entry where "map_of (cl_entries l) (ci_request_id intent) = Some entry"
      "l' = l" "found" "snap = ce_snapshot entry" "cs_intent snap = intent" "ce_fingerprint entry = fp"
      "ControlIntentFrom intent = Inr intent"
  | (fresh) "map_of (cl_entries l) (ci_request_id intent) = None" "\<not> found"
      "ControlIntentFrom intent = Inr intent"
      "snap = \<lparr>cs_identity = cl_identity l, cs_intent = intent, cs_outcome = ControlPending, cs_written_bytes = 0\<rparr>"
      "length (cl_entries l) < MaxControlReceipts"
      "ci_kind intent \<noteq> ControlStop \<Longrightarrow> cl_non_lifecycle l < int MaxControlReceipts - int ReservedLifecycleReceipts"
      "l' = l\<lparr>cl_entries := cl_entries l @ [(ci_request_id intent, \<lparr>ce_snapshot = snap, ce_fingerprint = fp\<rparr>)],
              cl_non_lifecycle := cl_non_lifecycle l + (if ci_kind intent \<noteq> ControlStop then 1 else 0)\<rparr>"
proof (cases "map_of (cl_entries l) (ci_request_id intent)")
  case None
  then have "ci_request_id intent \<notin> set (keys (cl_entries l))" by (simp add: map_of_None_keys)
  then show ?thesis
    using assms None
    by (intro fresh)
      (auto simp: Reserve_def Inspect_def Let_def update_fresh split: sum.splits if_splits
        dest: ControlIntentFrom_Inr)
next
  case (Some entry)
  then show ?thesis
    using assms
    by (intro existing)
      (auto simp: Reserve_def Inspect_def split: sum.splits if_splits dest: ControlIntentFrom_Inr)
qed

lemma Reserve_wf: "ledger_wf l \<Longrightarrow> Reserve l intent fp = Inr (l', snap, found) \<Longrightarrow> ledger_wf l'"
proof (erule Reserve_cases)
  assume wf: "ledger_wf l" and fresh: "map_of (cl_entries l) (ci_request_id intent) = None"
    and ok: "ControlIntentFrom intent = Inr intent"
    and snap: "snap = \<lparr>cs_identity = cl_identity l, cs_intent = intent, cs_outcome = ControlPending, cs_written_bytes = 0\<rparr>"
    and len: "length (cl_entries l) < MaxControlReceipts"
    and cap: "ci_kind intent \<noteq> ControlStop \<Longrightarrow> cl_non_lifecycle l < int MaxControlReceipts - int ReservedLifecycleReceipts"
    and l': "l' = l\<lparr>cl_entries := cl_entries l @ [(ci_request_id intent, \<lparr>ce_snapshot = snap, ce_fingerprint = fp\<rparr>)],
              cl_non_lifecycle := cl_non_lifecycle l + (if ci_kind intent \<noteq> ControlStop then 1 else 0)\<rparr>"
  have "ControlReceiptFrom snap = Inr snap"
    unfolding snap using wf ok by (intro pending_receipt_valid) (simp add: ledger_wf_def)
  then show ?thesis
    using wf fresh len cap snap
    by (auto simp: l' ledger_wf_def entry_wf_def map_of_None_keys MaxControlReceipts_def ReservedLifecycleReceipts_def)
qed auto

text \<open>The outcomes of \<open>Complete\<close>: a repeated result, or the first terminal result of a pending entry.\<close>

lemma Complete_cases:
  assumes "Complete l i outcome written = Inr (l', snap)"
  obtains (repeated) entry where "map_of (cl_entries l) i = Some entry" "l' = l"
      "snap = ce_snapshot entry" "cs_outcome (ce_snapshot entry) \<noteq> ControlPending"
  | (first) entry where "map_of (cl_entries l) i = Some entry"
      "cs_outcome (ce_snapshot entry) = ControlPending" "outcome \<noteq> ControlPending"
      "snap = (ce_snapshot entry)\<lparr>cs_outcome := outcome, cs_written_bytes := written\<rparr>"
      "ControlReceiptFrom snap = Inr snap"
      "l' = l\<lparr>cl_entries := AList.update i (entry\<lparr>ce_snapshot := snap\<rparr>) (cl_entries l)\<rparr>"
  using assms
  by (auto simp: Complete_def Let_def split: option.splits sum.splits if_splits dest: ControlReceiptFrom_Inr)

lemma Complete_wf: "ledger_wf l \<Longrightarrow> Complete l i outcome written = Inr (l', snap) \<Longrightarrow> ledger_wf l'"
proof (erule Complete_cases)
  fix entry
  assume wf: "ledger_wf l" and e: "map_of (cl_entries l) i = Some entry"
    and snap: "snap = (ce_snapshot entry)\<lparr>cs_outcome := outcome, cs_written_bytes := written\<rparr>"
    and ok: "ControlReceiptFrom snap = Inr snap"
    and l': "l' = l\<lparr>cl_entries := AList.update i (entry\<lparr>ce_snapshot := snap\<rparr>) (cl_entries l)\<rparr>"
  let ?m = "AList.update i (entry\<lparr>ce_snapshot := snap\<rparr>) (cl_entries l)"
  have mem: "(i, entry) \<in> set (cl_entries l)" using e by (rule map_of_SomeD)
  have count: "length (filter non_stop ?m) = length (filter non_stop (cl_entries l))"
    by (rule length_filter_update_same [OF e]) (simp add: snap)
  have len: "length ?m = length (cl_entries l)"
    by (rule length_update_present) (rule map_of_Some_keys [OF e])
  have "entry_wf (cl_identity l) (i, entry)" using wf mem by (simp add: ledger_wf_def)
  then have "entry_wf (cl_identity l) (i, entry\<lparr>ce_snapshot := snap\<rparr>)"
    using ok by (simp add: entry_wf_def snap)
  then have "\<forall>ke \<in> set ?m. entry_wf (cl_identity l) ke"
    using wf set_update_subset [of i "entry\<lparr>ce_snapshot := snap\<rparr>" "cl_entries l"]
    by (auto simp: ledger_wf_def)
  then show ?thesis
    using wf count len by (simp add: l' ledger_wf_def distinct_update)
qed simp

lemma Abandon_Inr:
  assumes "AbandonUncommitted l i = Inr l'"
  obtains entry where "map_of (cl_entries l) i = Some entry"
    "cs_outcome (ce_snapshot entry) = ControlPending"
    "l' = l\<lparr>cl_entries := AList.delete i (cl_entries l),
            cl_non_lifecycle := cl_non_lifecycle l - (if non_stop (i, entry) then 1 else 0)\<rparr>"
  using assms by (auto simp: AbandonUncommitted_def Let_def split: option.splits if_splits)

lemma Abandon_wf: "ledger_wf l \<Longrightarrow> AbandonUncommitted l i = Inr l' \<Longrightarrow> ledger_wf l'"
proof (erule Abandon_Inr)
  fix entry
  assume wf: "ledger_wf l" and e: "map_of (cl_entries l) i = Some entry"
    and l': "l' = l\<lparr>cl_entries := AList.delete i (cl_entries l),
            cl_non_lifecycle := cl_non_lifecycle l - (if non_stop (i, entry) then 1 else 0)\<rparr>"
  have "length (filter non_stop (AList.delete i (cl_entries l))) + (if non_stop (i, entry) then 1 else 0)
        = length (filter non_stop (cl_entries l))"
    using wf e by (intro length_filter_delete) (simp_all add: ledger_wf_def)
  then show ?thesis
    using wf AList.length_delete_le [of i "cl_entries l"]
    by (auto simp: l' ledger_wf_def distinct_keys_delete set_delete)
qed

text \<open>Evidence that a request reached a terminal result.\<close>

fun receipt_sealed :: "string \<times> ControlSnapshot \<Rightarrow> ControlLedger \<Rightarrow> bool" where
  "receipt_sealed (i, snap) l \<longleftrightarrow> Lookup l i = Inr snap \<and> cs_outcome snap \<noteq> ControlPending"

lemma receipt_sealed_step: "ledger_step l l' \<Longrightarrow> receipt_sealed k l \<Longrightarrow> receipt_sealed k l'"
proof (erule ledger_step.cases)
  fix m intent fp m' snapshot found
  assume *: "l = m" "l' = m'" "receipt_sealed k l" "Reserve m intent fp = Inr (m', snapshot, found)"
  show ?thesis
    using *(4,1,2,3) by (cases rule: Reserve_cases; cases k)
      (auto simp: Lookup_def map_add_def split: option.splits)
next
  fix m i outcome written m' snapshot
  assume *: "l = m" "l' = m'" "receipt_sealed k l" "Complete m i outcome written = Inr (m', snapshot)"
  show ?thesis
    using *(4,1,2,3) by (cases rule: Complete_cases; cases k)
      (auto simp: Lookup_def update_conv' split: option.splits)
next
  fix m i m'
  assume *: "l = m" "l' = m'" "receipt_sealed k l" "AbandonUncommitted m i = Inr m'"
  show ?thesis
    using *(4,1,2,3) by (elim Abandon_Inr; cases k)
      (auto simp: Lookup_def AList.delete_conv' split: option.splits)
qed

interpretation ledger_machine: sealed_machine ledger_init ledger_step ledger_wf receipt_sealed
proof unfold_locales
  show "ledger_init l \<Longrightarrow> ledger_wf l" for l
    by (auto simp: ledger_init_def NewControlLedger_def ledger_wf_def split: if_splits)
  show "ledger_wf l \<Longrightarrow> ledger_step l l' \<Longrightarrow> ledger_wf l'" for l l'
    by (erule ledger_step.cases) (auto intro: Reserve_wf Complete_wf Abandon_wf)
  show "ledger_wf l \<Longrightarrow> ledger_step l l' \<Longrightarrow> receipt_sealed k l \<Longrightarrow> receipt_sealed k l'" for l l' k
    by (rule receipt_sealed_step)
qed

section \<open>Properties\<close>

text \<open>
  C13: Ledger invariant. In every reachable ledger each receipt is stored under its own request id,
  belongs to the ledger's launch identity and is a valid receipt (a pending or rejected request
  wrote nothing, a delivered input wrote all its bytes), the counter of non-stop receipts is exact,
  at most 1024 receipts exist and at most 1008 of them are not stops.
\<close>

theorem ledger_invariant: "reach ledger_init ledger_step l \<Longrightarrow> ledger_wf l"
  by (rule ledger_machine.reach_inv)

text \<open>
  C12: Terminal evidence is immutable. Once a receipt has a terminal outcome, no sequence of reserve,
  complete and abandon operations changes or removes it: looking the request up returns the same
  receipt for ever.
\<close>

theorem terminal_receipt_immutable:
  assumes "reach ledger_init ledger_step l" "Lookup l i = Inr snap" "cs_outcome snap \<noteq> ControlPending"
    and "ledger_step\<^sup>*\<^sup>* l l'"
  shows "Lookup l' i = Inr snap"
  using ledger_machine.sealed_forever
    [OF assms(4) ledger_machine.reach_inv [OF assms(1)], of "(i, snap)"] assms(2,3) by simp

text \<open>
  A request is admitted once. After any successful reservation, replaying the same intent with
  the same fingerprint changes nothing and returns the recorded evidence; reusing the request id
  with another valid intent or another fingerprint is refused with \<open>ErrChanged\<close>.
\<close>

theorem reserve_once:
  assumes "reach ledger_init ledger_step l" "Reserve l intent fp = Inr (l', snap, found)"
  shows "Reserve l' intent fp = Inr (l', snap, True) \<and>
    (\<forall>intent' fp'. ControlIntentFrom intent' = Inr intent' \<longrightarrow> ci_request_id intent' = ci_request_id intent \<longrightarrow>
       (intent', fp') \<noteq> (intent, fp) \<longrightarrow> Reserve l' intent' fp' = Inl (True, ErrChanged))"
proof -
  obtain entry where e: "map_of (cl_entries l') (ci_request_id intent) = Some entry"
      "ce_snapshot entry = snap" "cs_intent snap = intent" "ce_fingerprint entry = fp"
    and ok: "ControlIntentFrom intent = Inr intent"
    using assms(2)
  proof (cases rule: Reserve_cases)
    case (existing entry)
    then show thesis using that [of entry] by simp
  next
    case fresh
    then show thesis
      using that [of "\<lparr>ce_snapshot = snap, ce_fingerprint = fp\<rparr>"] by (simp add: map_add_def)
  qed
  show ?thesis
    using e ok by (simp add: Reserve_def Inspect_def)
qed

text \<open>
  C39: Stop requests keep capacity. In every reachable ledger with fewer than 16 stop receipts, a
  valid stop intent with an unused request id is admitted, whatever other traffic filled the ledger.
\<close>

theorem stop_capacity_reserved:
  assumes "reach ledger_init ledger_step l" "ControlIntentFrom intent = Inr intent"
    and "ci_kind intent = ControlStop" "map_of (cl_entries l) (ci_request_id intent) = None"
    and "length (filter (\<lambda>ke. \<not> non_stop ke) (cl_entries l)) < ReservedLifecycleReceipts"
  shows "\<exists>l' snap. Reserve l intent fp = Inr (l', snap, False) \<and> Lookup l' (ci_request_id intent) = Inr snap"
proof -
  have wf: "ledger_wf l" using assms(1) by (rule ledger_machine.reach_inv)
  have "length (cl_entries l) =
      length (filter non_stop (cl_entries l)) + length (filter (\<lambda>ke. \<not> non_stop ke) (cl_entries l))"
    by (rule sum_length_filter_compl [symmetric])
  then have "length (cl_entries l) < MaxControlReceipts"
    using wf assms(5) by (simp add: ledger_wf_def MaxControlReceipts_def ReservedLifecycleReceipts_def)
  then show ?thesis
    using assms(2-4) by (simp add: Reserve_def Inspect_def Lookup_def Let_def update_conv')
qed

text \<open>
  Resize sequence numbers advance by exactly one and never wrap: the successor of the largest
  counter is refused with \<open>ErrLimit\<close>, and an accepted successor is strictly larger.
\<close>

theorem resize_sequence_no_wrap:
  "(ValidateResizeSequence current nxt = Inr () \<longleftrightarrow> unat nxt = Suc (unat current))
   \<and> (current = max_uint64 \<longrightarrow> ValidateResizeSequence current nxt = Inl ErrLimit)"
proof -
  have "unat nxt = Suc (unat current) \<longleftrightarrow> current \<noteq> max_uint64 \<and> nxt = current + 1"
  proof
    assume s: "unat nxt = Suc (unat current)"
    have "current \<noteq> max_uint64"
    proof
      assume "current = max_uint64"
      then have "unat nxt = 2 ^ 64" using s unat_max_uint64 by simp
      moreover have "unat nxt < 2 ^ LENGTH(64)" by (rule unsigned_less)
      ultimately show False by simp
    qed
    then have "unat nxt = unat (current + 1)" using s by (simp add: unat_inc_uint64)
    then have "nxt = current + 1" by (rule unsigned_word_eqI)
    with \<open>current \<noteq> max_uint64\<close> show "current \<noteq> max_uint64 \<and> nxt = current + 1" by simp
  qed (auto simp: unat_inc_uint64)
  then show ?thesis by (auto simp: ValidateResizeSequence_def)
qed

section \<open>Witnesses\<close>

definition ex_stop :: ControlIntent where
  "ex_stop = \<lparr>ci_request_id = ''stop-1'', ci_kind = ControlStop, ci_manual_terminal = False,
              ci_work_loss_acknowledged = True, ci_input_bytes = 0, ci_resize_sequence = 0,
              ci_rows = 0, ci_cols = 0\<rparr>"

definition ex_ledger0 :: ControlLedger where
  "ex_ledger0 = \<lparr>cl_identity = ex_identity, cl_entries = [], cl_non_lifecycle = 0\<rparr>"

definition ex_receipt :: ControlSnapshot where
  "ex_receipt = \<lparr>cs_identity = ex_identity, cs_intent = ex_stop, cs_outcome = ControlPending,
                 cs_written_bytes = 0\<rparr>"

definition ex_ledger1 :: ControlLedger where
  "ex_ledger1 = \<lparr>cl_identity = ex_identity,
                 cl_entries = [(''stop-1'', \<lparr>ce_snapshot = ex_receipt, ce_fingerprint = ''f''\<rparr>)],
                 cl_non_lifecycle = 0\<rparr>"

definition ex_ledger2 :: ControlLedger where
  "ex_ledger2 = \<lparr>cl_identity = ex_identity,
                 cl_entries = [(''stop-1'', \<lparr>ce_snapshot = ex_receipt\<lparr>cs_outcome := ControlDelivered\<rparr>,
                                            ce_fingerprint = ''f''\<rparr>)],
                 cl_non_lifecycle = 0\<rparr>"

lemma ex_stop_valid: "ControlIntentFrom ex_stop = Inr ex_stop"
  by (simp add: ControlIntentFrom_def ex_stop_def validControlRequestID_def is_alnum_def char_in_def)

lemma ex_stop_id [simp]: "ci_request_id ex_stop = ''stop-1''" "ci_kind ex_stop = ControlStop"
  by (simp_all add: ex_stop_def)

lemma ex_ledger_steps:
  "Reserve ex_ledger0 ex_stop ''f'' = Inr (ex_ledger1, ex_receipt, False)"
  "Complete ex_ledger1 ''stop-1'' ControlDelivered 0 =
     Inr (ex_ledger2, ex_receipt\<lparr>cs_outcome := ControlDelivered\<rparr>)"
  using ex_stop_valid ex_identity_valid
  by (simp_all add: Reserve_def Inspect_def Complete_def ControlReceiptFrom_def Let_def ex_ledger0_def
        ex_ledger1_def ex_ledger2_def ex_receipt_def MaxControlReceipts_def)
    (simp add: ex_stop_def)

lemma ex_ledger_reach:
  "reach ledger_init ledger_step ex_ledger0" "reach ledger_init ledger_step ex_ledger1"
  "reach ledger_init ledger_step ex_ledger2"
proof -
  show r0: "reach ledger_init ledger_step ex_ledger0"
    using ex_identity_valid
    by (intro reach.reach_init) (auto simp: ledger_init_def NewControlLedger_def ex_ledger0_def)
  show r1: "reach ledger_init ledger_step ex_ledger1"
    using r0 by (rule reach.reach_step) (rule ledger_step.reserve [OF ex_ledger_steps(1)])
  show "reach ledger_init ledger_step ex_ledger2"
    using r1 by (rule reach.reach_step) (rule ledger_step.complete [OF ex_ledger_steps(2)])
qed

theorem ledger_invariant_witness: "ledger_wf ex_ledger2"
  using ledger_invariant [OF ex_ledger_reach(3)] .

definition ex_stop2 :: ControlIntent where
  "ex_stop2 = ex_stop\<lparr>ci_request_id := ''stop-2''\<rparr>"

definition ex_ledger3 :: ControlLedger where
  "ex_ledger3 = ex_ledger2\<lparr>cl_entries := cl_entries ex_ledger2 @
     [(''stop-2'', \<lparr>ce_snapshot = ex_receipt\<lparr>cs_intent := ex_stop2\<rparr>, ce_fingerprint = ''g''\<rparr>)]\<rparr>"

lemma ex_reserve2: "Reserve ex_ledger2 ex_stop2 ''g'' = Inr (ex_ledger3, ex_receipt\<lparr>cs_intent := ex_stop2\<rparr>, False)"
proof -
  have v: "ControlIntentFrom ex_stop2 = Inr ex_stop2"
    by (simp add: ControlIntentFrom_def ex_stop2_def ex_stop_def validControlRequestID_def is_alnum_def char_in_def)
  have "ci_request_id ex_stop2 = ''stop-2''" "ci_kind ex_stop2 = ControlStop" by (simp_all add: ex_stop2_def)
  then show ?thesis
    using v ex_identity_valid
    by (simp add: Reserve_def Inspect_def Complete_def ControlReceiptFrom_def Let_def ex_ledger2_def ex_ledger3_def
        ex_receipt_def MaxControlReceipts_def)
qed

theorem terminal_receipt_immutable_witness:
  "Lookup ex_ledger3 ''stop-1'' = Inr (ex_receipt\<lparr>cs_outcome := ControlDelivered\<rparr>)"
proof (rule terminal_receipt_immutable [OF ex_ledger_reach(3)])
  show "Lookup ex_ledger2 ''stop-1'' = Inr (ex_receipt\<lparr>cs_outcome := ControlDelivered\<rparr>)"
    by (simp add: Lookup_def ex_ledger2_def)
  show "ledger_step\<^sup>*\<^sup>* ex_ledger2 ex_ledger3"
    using ex_reserve2 by (intro r_into_rtranclp) (rule ledger_step.reserve)
qed simp

theorem reserve_once_witness:
  "Reserve ex_ledger1 ex_stop ''f'' = Inr (ex_ledger1, ex_receipt, True)
   \<and> Reserve ex_ledger1 ex_stop ''g'' = Inl (True, ErrChanged)"
  using reserve_once [OF ex_ledger_reach(1) ex_ledger_steps(1)] ex_stop_valid by auto

theorem stop_capacity_reserved_witness:
  "\<exists>l' snap. Reserve ex_ledger0 ex_stop ''f'' = Inr (l', snap, False)
     \<and> Lookup l' (ci_request_id ex_stop) = Inr snap"
  by (rule stop_capacity_reserved [OF ex_ledger_reach(1) ex_stop_valid])
    (simp_all add: ex_ledger0_def ReservedLifecycleReceipts_def)

theorem resize_sequence_no_wrap_witness:
  "ValidateResizeSequence 4 5 = Inr () \<and> ValidateResizeSequence max_uint64 0 = Inl ErrLimit"
  using resize_sequence_no_wrap [of 4 5] resize_sequence_no_wrap [of max_uint64 0] by simp

end
