(* ===== verification/Rt_Output.thy ===== *)
theory Rt_Output
  imports Rt_Registry
begin

text \<open>
  Terminal output retention (\<open>src/domain/runtime/output.go\<close>): the decimal wire form of byte
  offsets and the lazily grown byte ring. A Go index expression can panic, so the ring operations
  return \<open>None\<close> for a panic; the refinement to the complete byte history shows that a reachable
  ring never panics and that every read is the exact slice of what was written.
\<close>

section \<open>Definitions\<close>

definition MaxOutputBytes :: int where "MaxOutputBytes = 2 * 1024 * 1024"
definition MaxOutputChunk :: int where "MaxOutputChunk = 32 * 1024"

definition ParseByteOffset :: "string \<Rightarrow> uint64 rt" where
  "ParseByteOffset s =
     (if length s = 0 \<or> length s > 20 \<or> (length s > 1 \<and> hd s = CHR ''0'') then Inl ErrOutputCursor
      else if \<not> list_all is_digit s then Inl ErrOutputCursor
      else case parse_uint64 s of None \<Rightarrow> Inl ErrOutputCursor | Some n \<Rightarrow> Inr n)"

definition ByteOffset_String :: "uint64 \<Rightarrow> string" where
  "ByteOffset_String b = itoa (unat b)"

definition Advance :: "uint64 \<Rightarrow> uint64 \<Rightarrow> uint64 rt" where
  "Advance b n = (if n > max_uint64 - b then Inl ErrLimit else Inr (b + n))"

record ByteSpan =
  bs_start :: uint64
  bs_end :: uint64
  bs_data :: string
  bs_gap :: bool

record ByteLogState =
  bls_base :: uint64
  bls_head :: uint64
  bls_retained :: int

record ByteLog =
  bl_limit :: nat
  bl_data :: string
  bl_base :: uint64
  bl_head :: uint64

definition NewByteLog :: "int \<Rightarrow> ByteLog rt" where
  "NewByteLog limit =
     (if limit < 1 \<or> limit > MaxOutputBytes then Inl ErrLimit
      else Inr \<lparr>bl_limit = nat limit, bl_data = [], bl_base = 0, bl_head = 0\<rparr>)"

definition bytelog_snapshot :: "ByteLog \<Rightarrow> ByteLogState" where
  "bytelog_snapshot b =
     \<lparr>bls_base = bl_base b, bls_head = bl_head b, bls_retained = int (unat (bl_head b - bl_base b))\<rparr>"

text \<open>The index expressions \<open>data[pos % len(data)]\<close>; an empty slice divides by zero and panics.\<close>

definition ring_get :: "string \<Rightarrow> uint64 \<Rightarrow> char option" where
  "ring_get data pos = (if data = [] then None else Some (data ! (unat pos mod length data)))"

definition ring_put :: "string \<Rightarrow> uint64 \<Rightarrow> char \<Rightarrow> string option" where
  "ring_put data pos v = (if data = [] then None else Some (data[unat pos mod length data := v]))"

text \<open>The loop that moves the retained bytes into grown storage.\<close>

fun ring_grow :: "string \<Rightarrow> string \<Rightarrow> uint64 list \<Rightarrow> string option" where
  "ring_grow data grown [] = Some grown"
| "ring_grow data grown (pos # ps) =
     (case ring_get data pos of None \<Rightarrow> None
      | Some v \<Rightarrow> (case ring_put grown pos v of None \<Rightarrow> None
                   | Some g \<Rightarrow> ring_grow data g ps))"

text \<open>The loop \<open>for i, v := range keep\<close>.\<close>

fun ring_fill :: "string \<Rightarrow> uint64 \<Rightarrow> nat \<Rightarrow> string \<Rightarrow> string option" where
  "ring_fill data begin i [] = Some data"
| "ring_fill data begin i (v # vs) =
     (case ring_put data (begin + of_nat i) v of None \<Rightarrow> None
      | Some d \<Rightarrow> ring_fill d begin (Suc i) vs)"

text \<open>The loop of \<open>Read\<close>.\<close>

fun ring_copy :: "string \<Rightarrow> uint64 \<Rightarrow> nat list \<Rightarrow> string option" where
  "ring_copy data cursor [] = Some []"
| "ring_copy data cursor (i # ns) =
     (case ring_get data (cursor + of_nat i) of None \<Rightarrow> None
      | Some v \<Rightarrow> map_option (Cons v) (ring_copy data cursor ns))"

text \<open>The storage part of \<open>Append\<close>: growth, then the newest suffix of the chunk.\<close>

definition ring_store :: "ByteLog \<Rightarrow> string \<Rightarrow> uint64 \<Rightarrow> string option" where
  "ring_store b p next =
     (if length p > 0 then
        let required = min (bl_limit b) (unat (bl_head b - bl_base b) + length p);
            size0 = length (bl_data b);
            size = (if required > size0 then min (bl_limit b) (max required (max 1024 (size0 * 2))) else size0);
            grown = (if size > size0
                     then ring_grow (bl_data b) (replicate size (CHR 0x00))
                            (map of_nat [unat (bl_base b)..<unat (bl_head b)])
                     else Some (bl_data b));
            keep = drop (length p - bl_limit b) p
        in case grown of None \<Rightarrow> None
           | Some data \<Rightarrow> ring_fill data (next - of_nat (length keep)) 0 keep
      else Some (bl_data b))"

definition Append :: "ByteLog \<Rightarrow> string \<Rightarrow> (ByteLog \<times> ByteSpan) rt option" where
  "Append b p =
     (if int (length p) > MaxOutputChunk then Some (Inl ErrLimit)
      else case Advance (bl_head b) (of_nat (length p)) of
        Inl e \<Rightarrow> Some (Inl e)
      | Inr next \<Rightarrow>
          (case ring_store b p next of None \<Rightarrow> None
           | Some data \<Rightarrow>
               Some (Inr (b\<lparr>bl_data := data, bl_head := next,
                            bl_base := (if next > of_nat (bl_limit b) then next - of_nat (bl_limit b)
                                        else bl_base b)\<rparr>,
                          \<lparr>bs_start = bl_head b, bs_end = next, bs_data = [], bs_gap = False\<rparr>))))"

definition Read :: "ByteLog \<Rightarrow> uint64 \<Rightarrow> int \<Rightarrow> ByteSpan rt option" where
  "Read b cursor limit =
     (if cursor > bl_head b then Some (Inl ErrOutputCursor)
      else if limit < 1 \<or> limit > MaxOutputChunk then Some (Inl ErrLimit)
      else if cursor < bl_base b then
        Some (Inr \<lparr>bs_start = cursor, bs_end = bl_base b, bs_data = [], bs_gap = True\<rparr>)
      else let size = min (of_int limit) (bl_head b - cursor)
           in case ring_copy (bl_data b) cursor [0..<unat size] of None \<Rightarrow> None
              | Some p \<Rightarrow> Some (Inr \<lparr>bs_start = cursor, bs_end = cursor + size, bs_data = p, bs_gap = False\<rparr>))"

section \<open>Offsets on the wire\<close>

lemma ParseByteOffset_String: "ParseByteOffset (ByteOffset_String b) = Inr b"
proof -
  have can: "canonical_dec (itoa (unat b))" using itoa_canonical by blast
  have "length (itoa n) \<le> k" if "n < 10 ^ k" "0 < k" for n k
    using that
  proof (induction k arbitrary: n)
    case (Suc k)
    show ?case
    proof (cases "n < 10")
      case True
      then show ?thesis by (simp add: itoa.simps [of n])
    next
      case False
      with Suc.prems(1) have "n div 10 < 10 ^ k" "0 < k" by (auto intro: gr0I)
      then have "length (itoa (n div 10)) \<le> k" by (rule Suc.IH)
      with False show ?thesis by (simp add: itoa.simps [of n])
    qed
  qed simp
  moreover have "unat b < 10 ^ 20" using unat_lt64 [of b] by simp
  ultimately have "length (itoa (unat b)) \<le> 20" by (metis zero_less_numeral)
  then show ?thesis
    using can parse_uint64_itoa [of b]
    by (auto simp: ParseByteOffset_def ByteOffset_String_def canonical_dec_def)
qed

lemma ParseByteOffset_Inr:
  assumes "ParseByteOffset s = Inr b"
  shows "ByteOffset_String b = s"
proof -
  have *: "s \<noteq> []" "length s > 1 \<longrightarrow> hd s \<noteq> CHR ''0''" "list_all is_digit s" "parse_uint64 s = Some b"
    using assms by (auto simp: ParseByteOffset_def split: if_splits option.splits)
  have "length s = 1 \<or> 1 < length s" using *(1) by (cases s) auto
  then have c: "canonical_dec s" "parse_dec s < 2 ^ 64" "b = of_nat (parse_dec s)"
    using * by (auto simp: canonical_dec_def parse_uint64_def split: if_splits)
  then have "unat b = parse_dec s" by (simp add: unat_of_nat_uint64)
  then show ?thesis using c(1) by (simp add: ByteOffset_String_def itoa_parse_dec)
qed

interpretation offset_codec: codec ByteOffset_String ParseByteOffset "\<lambda>_. True"
  by unfold_locales (rule ParseByteOffset_String)

lemma Advance_Inr:
  "Advance b n = Inr c \<longleftrightarrow> unat b + unat n < 2 ^ 64 \<and> c = b + n"
proof -
  have top: "unat (max_uint64 - b) = unat max_uint64 - unat b"
    by (rule unat_sub) simp
  have fits: "(m :: nat) - 1 - x < y \<longleftrightarrow> \<not> x + y < m" if "x < m" for m x y
    using that by linarith
  have "n > max_uint64 - b \<longleftrightarrow> unat max_uint64 - unat b < unat n"
    by (simp only: word_less_nat_alt top)
  also have "\<dots> \<longleftrightarrow> \<not> unat b + unat n < 2 ^ 64"
    unfolding unat_max_uint64 by (rule fits) (rule unat_lt64)
  finally show ?thesis by (auto simp only: Advance_def split: if_splits)
qed

lemma unat_add_fits: "unat (b :: uint64) + unat n < 2 ^ 64 \<Longrightarrow> unat (b + n) = unat b + unat n"
  by (simp add: unat_word_ariths)

lemma unat_sub_of_nat: "k \<le> unat (w :: uint64) \<Longrightarrow> unat (w - of_nat k) = unat w - k"
proof -
  assume k: "k \<le> unat w"
  then have "unat (of_nat k :: uint64) = k" using unat_lt64 [of w] by (intro unat_of_nat_uint64) linarith
  then show ?thesis using k unat_sub [of "of_nat k" w] by (simp add: word_le_nat_alt)
qed

lemma of_nat_unat_eq: "unat (e :: uint64) = k \<Longrightarrow> e = of_nat k"
  by auto

section \<open>The ring and the history\<close>

text \<open>Writing consecutive positions of a nonempty ring.\<close>

fun fill_from :: "string \<Rightarrow> nat \<Rightarrow> string \<Rightarrow> string" where
  "fill_from d a [] = d"
| "fill_from d a (v # vs) = fill_from (d[a mod length d := v]) (Suc a) vs"

lemma length_fill_from [simp]: "length (fill_from d a vs) = length d"
  by (induction d a vs rule: fill_from.induct) simp_all

lemma mod_apart:
  fixes a b n :: nat
  assumes "a < b" "b - a < n"
  shows "a mod n \<noteq> b mod n"
proof
  assume "a mod n = b mod n"
  then have "n dvd b - a" using assms(1) mod_eq_dvd_iff_nat [of a b n] by simp
  then show False using assms by (auto dest: dvd_imp_le)
qed

lemma fill_from_other:
  "j < length d \<Longrightarrow> \<forall>k < length vs. (a + k) mod length d \<noteq> j \<Longrightarrow> fill_from d a vs ! j = d ! j"
proof (induction d a vs rule: fill_from.induct)
  case (2 d a v vs)
  have other: "(Suc a + k) mod length d \<noteq> j" if "k < length vs" for k
    using "2.prems"(2) [rule_format, of "Suc k"] that by simp
  have "a mod length d \<noteq> j" using "2.prems"(2) [rule_format, of 0] by simp
  with other 2 show ?case by simp
qed simp

lemma fill_from_written:
  "length vs \<le> length d \<Longrightarrow> k < length vs \<Longrightarrow> fill_from d a vs ! ((a + k) mod length d) = vs ! k"
proof (induction d a vs arbitrary: k rule: fill_from.induct)
  case (2 d a v vs)
  have pos: "0 < length d" using "2.prems"(1) by (cases d) simp_all
  show ?case
  proof (cases k)
    case 0
    have "(Suc a + j) mod length d \<noteq> a mod length d" if "j < length vs" for j
      using mod_apart [of a "Suc a + j" "length d"] "2.prems"(1) that by simp
    then have "fill_from (d[a mod length d := v]) (Suc a) vs ! (a mod length d)
                 = (d[a mod length d := v]) ! (a mod length d)"
      using pos by (intro fill_from_other) simp_all
    then show ?thesis using 0 pos by simp
  next
    case (Suc k')
    then show ?thesis using 2 by simp
  qed
qed simp

lemma ring_fill_eq:
  "data \<noteq> [] \<Longrightarrow> unat b + i + length vs < 2 ^ 64 \<Longrightarrow>
    ring_fill data b i vs = Some (fill_from data (unat b + i) vs)"
proof (induction data b i vs rule: ring_fill.induct)
  case (2 data b i v vs)
  have "unat (b + of_nat i) = unat b + i"
    using "2.prems"(2) by (simp add: unat_add_fits unat_of_nat_uint64)
  then show ?case using 2 by (simp add: ring_put_def)
qed simp

lemma ring_grow_eq:
  "data \<noteq> [] \<Longrightarrow> grown \<noteq> [] \<Longrightarrow> c < 2 ^ 64 \<Longrightarrow>
    ring_grow data grown (map of_nat [a..<c]) =
      Some (fill_from grown a (map (\<lambda>p. data ! (p mod length data)) [a..<c]))"
proof (induction "c - a" arbitrary: a grown)
  case (Suc m)
  then have "[a..<c] = a # [Suc a..<c]" by (simp add: upt_conv_Cons)
  then show ?case
    using Suc by (simp add: ring_get_def ring_put_def unat_of_nat_uint64)
qed simp

lemma ring_copy_eq:
  "data \<noteq> [] \<or> ns = [] \<Longrightarrow> \<forall>i \<in> set ns. unat cursor + i < 2 ^ 64 \<Longrightarrow>
    ring_copy data cursor ns = Some (map (\<lambda>i. data ! ((unat cursor + i) mod length data)) ns)"
  by (induction data cursor ns rule: ring_copy.induct)
    (auto simp: ring_get_def unat_add_fits unat_of_nat_uint64)

text \<open>
  The abstraction: a ring represents the complete byte history when its head is the length of the
  history, its base is what the retention limit evicted, and every retained position holds the
  byte of the history.
\<close>

definition log_abs :: "ByteLog \<Rightarrow> string \<Rightarrow> bool" where
  "log_abs b hist \<longleftrightarrow>
     1 \<le> bl_limit b \<and> int (bl_limit b) \<le> MaxOutputBytes \<and>
     unat (bl_head b) = length hist \<and> unat (bl_base b) = length hist - bl_limit b \<and>
     length (bl_data b) \<le> bl_limit b \<and>
     length hist - unat (bl_base b) \<le> length (bl_data b) \<and>
     (\<forall>pos. unat (bl_base b) \<le> pos \<and> pos < length hist \<longrightarrow>
        bl_data b ! (pos mod length (bl_data b)) = hist ! pos)"

lemma log_abs_retained:
  assumes "log_abs b hist"
  shows "unat (bl_head b - bl_base b) = length hist - unat (bl_base b)"
  using assms by (simp add: log_abs_def unat_sub word_le_nat_alt)

text \<open>Storage that represents the retained positions of a history.\<close>

definition holds :: "string \<Rightarrow> nat \<Rightarrow> string \<Rightarrow> bool" where
  "holds data from hist \<longleftrightarrow> length hist - from \<le> length data \<and>
     (\<forall>pos. from \<le> pos \<and> pos < length hist \<longrightarrow> data ! (pos mod length data) = hist ! pos)"

lemma holds_grow:
  assumes "holds data from hist" "length data < sz" "length hist < 2 ^ 64"
  shows "\<exists>g. ring_grow data (replicate sz z) (map of_nat [from..<length hist]) = Some g
           \<and> length g = sz \<and> holds g from hist"
proof (cases "from < length hist")
  case False
  then show ?thesis by (auto simp: holds_def)
next
  case True
  then have "data \<noteq> []" using assms(1) by (auto simp: holds_def)
  let ?vs = "map (\<lambda>p. data ! (p mod length data)) [from..<length hist]"
  let ?g = "fill_from (replicate sz z) from ?vs"
  have g: "ring_grow data (replicate sz z) (map of_nat [from..<length hist]) = Some ?g"
    using \<open>data \<noteq> []\<close> assms by (intro ring_grow_eq) auto
  have "?g ! (pos mod sz) = hist ! pos" if "from \<le> pos" "pos < length hist" for pos
  proof -
    have "?g ! ((from + (pos - from)) mod length (replicate sz z)) = ?vs ! (pos - from)"
      using that assms by (intro fill_from_written) (auto simp: holds_def)
    then show ?thesis using that assms(1) by (simp add: holds_def)
  qed
  then show ?thesis using g assms by (auto simp: holds_def)
qed

lemma holds_fill:
  assumes "holds data from hist" "limit \<le> length data \<or> length hist + length p - from \<le> length data"
    and "length data \<le> limit" "from = length hist - limit" "p \<noteq> []" "data \<noteq> []"
  shows "holds (fill_from data (length hist + length p - length (drop (length p - limit) p))
            (drop (length p - limit) p)) (length (hist @ p) - limit) (hist @ p)"
    (is "holds (fill_from data ?a ?keep) ?from _")
proof -
  have len: "length ?keep \<le> length data" "length (hist @ p) - ?from \<le> length data"
    using assms(2-4) by auto
  have "fill_from data ?a ?keep ! (pos mod length data) = (hist @ p) ! pos"
    if pos: "?from \<le> pos" "pos < length (hist @ p)" for pos
  proof (cases "?a \<le> pos")
    case True
    have "fill_from data ?a ?keep ! ((?a + (pos - ?a)) mod length data) = ?keep ! (pos - ?a)"
      using pos True len by (intro fill_from_written) (simp_all, linarith)
    moreover have "length hist \<le> pos" "length p - limit + (pos - ?a) = pos - length hist"
      using pos True by auto
    ultimately show ?thesis using pos True by (simp add: nth_append)
  next
    case False
    then have a: "?a = length hist" "pos < length hist" using pos by auto
    have "\<forall>k < length ?keep. (?a + k) mod length data \<noteq> pos mod length data"
    proof (intro allI impI)
      fix k assume "k < length ?keep"
      then have "?a + k - pos < length data" using pos a len(2) by auto
      then show "(?a + k) mod length data \<noteq> pos mod length data"
        using mod_apart [of pos "?a + k" "length data"] a by auto
    qed
    then have "fill_from data ?a ?keep ! (pos mod length data) = data ! (pos mod length data)"
      using assms(6) by (intro fill_from_other) simp_all
    then show ?thesis using assms(1,4) pos a by (simp add: holds_def nth_append)
  qed
  then show ?thesis using len by (simp add: holds_def)
qed

lemma log_abs_holds: "log_abs b hist \<Longrightarrow> holds (bl_data b) (length hist - bl_limit b) hist"
  unfolding log_abs_def holds_def by auto

text \<open>\<open>Append\<close> never panics on storage that holds the history, and then holds the longer history.\<close>

lemma ring_store_ok:
  assumes "log_abs b hist" "length hist + length p < 2 ^ 64" "unat nxt = length hist + length p"
  shows "\<exists>d. ring_store b p nxt = Some d \<and> length d \<le> bl_limit b
           \<and> holds d (length (hist @ p) - bl_limit b) (hist @ p)"
proof (cases "p = []")
  case True
  then show ?thesis using assms(1) log_abs_holds by (auto simp: ring_store_def log_abs_def)
next
  case False
  let ?from = "length hist - bl_limit b" and ?size0 = "length (bl_data b)"
  let ?req = "min (bl_limit b) (length hist - ?from + length p)"
  define sz where "sz = (if ?req > ?size0 then min (bl_limit b) (max ?req (max 1024 (?size0 * 2))) else ?size0)"
  have b: "1 \<le> bl_limit b" "?size0 \<le> bl_limit b" "unat (bl_base b) = ?from" "unat (bl_head b) = length hist"
    using assms(1) by (simp_all add: log_abs_def)
  have h: "holds (bl_data b) ?from hist" using assms(1) by (rule log_abs_holds)
  have sz: "?size0 \<le> sz" "sz \<le> bl_limit b" "?req \<le> sz" "0 < sz"
    using b False by (auto simp: sz_def min_def max_def)
  define grown where "grown = (if sz > ?size0
      then ring_grow (bl_data b) (replicate sz (CHR 0x00)) (map of_nat [?from..<length hist])
      else Some (bl_data b))"
  obtain g where g: "grown = Some g" "length g = sz" "holds g ?from hist"
    using h sz(1) assms(2) holds_grow [OF h, of sz]
    by (cases "?size0 < sz") (auto simp: grown_def)
  let ?keep = "drop (length p - bl_limit b) p"
  have "unat (nxt - of_nat (length ?keep)) = length hist + length p - length ?keep"
    unfolding assms(3) [symmetric] by (rule unat_sub_of_nat) (simp add: assms(3))
  then have fill: "ring_fill g (nxt - of_nat (length ?keep)) 0 ?keep
      = Some (fill_from g (length hist + length p - length ?keep) ?keep)"
    using g sz(4) assms(2) by (subst ring_fill_eq) auto
  have ret: "unat (bl_head b - bl_base b) = length hist - ?from"
    using log_abs_retained [OF assms(1)] by (simp only: b(3))
  have "0 < length p" using False by simp
  then have "ring_store b p nxt = (case grown of None \<Rightarrow> None
      | Some data \<Rightarrow> ring_fill data (nxt - of_nat (length ?keep)) 0 ?keep)"
    by (simp only: ring_store_def Let_def ret b(3,4) grown_def sz_def if_True)
  then have "ring_store b p nxt = Some (fill_from g (length hist + length p - length ?keep) ?keep)"
    by (simp only: g(1) fill option.case)
  moreover have "holds (fill_from g (length hist + length p - length ?keep) ?keep)
      (length (hist @ p) - bl_limit b) (hist @ p)"
    using g sz False by (intro holds_fill) auto
  ultimately show ?thesis using g(2) sz(2) by simp
qed

lemma Append_ok:
  assumes "log_abs b hist" "int (length p) \<le> MaxOutputChunk" "length hist + length p < 2 ^ 64"
  shows "\<exists>b'. log_abs b' (hist @ p) \<and> bl_limit b' = bl_limit b \<and> Append b p = Some (Inr (b',
      \<lparr>bs_start = bl_head b, bs_end = bl_head b + of_nat (length p), bs_data = [], bs_gap = False\<rparr>))"
proof -
  let ?n = "bl_head b + of_nat (length p)" and ?L = "of_nat (bl_limit b) :: uint64"
  have lim: "bl_limit b \<le> 2097152" "unat (bl_head b) = length hist"
    using assms(1) by (simp_all add: log_abs_def MaxOutputBytes_def)
  then have L: "unat ?L = bl_limit b" by (intro unat_of_nat_uint64) simp
  have n: "unat ?n = length hist + length p"
    using assms(3) lim by (simp add: unat_add_fits unat_of_nat_uint64)
  have adv: "Advance (bl_head b) (of_nat (length p)) = Inr ?n"
    using assms(3) lim by (simp add: Advance_Inr unat_of_nat_uint64)
  obtain d where d: "ring_store b p ?n = Some d" "length d \<le> bl_limit b"
      "holds d (length (hist @ p) - bl_limit b) (hist @ p)"
    using ring_store_ok [OF assms(1,3) n] by blast
  let ?base = "if ?n > ?L then ?n - ?L else bl_base b"
  have base: "unat ?base = length (hist @ p) - bl_limit b"
  proof (cases "?n > ?L")
    case True
    then have "unat (?n - ?L) = unat ?n - unat ?L" by (intro unat_sub) simp
    then show ?thesis using True n L by simp
  next
    case False
    then show ?thesis
      using assms(1) n L by (simp add: log_abs_def word_less_nat_alt)
  qed
  let ?b' = "b\<lparr>bl_data := d, bl_head := ?n, bl_base := ?base\<rparr>"
  have "log_abs ?b' (hist @ p)"
    using d(2,3) base n assms(1) by (simp add: log_abs_def holds_def)
  then show ?thesis using d(1) adv assms(2) by (intro exI [of _ ?b']) (simp add: Append_def)
qed

lemma Append_refused:
  assumes "unat (bl_head b) = length hist"
    and "int (length p) > MaxOutputChunk \<or> length hist + length p \<ge> 2 ^ 64"
  shows "Append b p = Some (Inl ErrLimit)"
proof (cases "int (length p) > MaxOutputChunk")
  case True
  then show ?thesis by (simp add: Append_def)
next
  case False
  then have "unat (of_nat (length p) :: uint64) = length p"
    by (intro unat_of_nat_uint64) (simp add: MaxOutputChunk_def)
  then have "\<nexists>c. Advance (bl_head b) (of_nat (length p)) = Inr c"
    using assms False by (simp add: Advance_Inr)
  then have "Advance (bl_head b) (of_nat (length p)) = Inl ErrLimit"
    by (auto simp: Advance_def split: if_splits)
  then show ?thesis using False by (simp add: Append_def)
qed

lemma map_nth_slice:
  "a + n \<le> length h \<Longrightarrow> map (\<lambda>i. h ! (a + i)) [0..<n] = take n (drop a h)"
  by (rule nth_equalityI) auto

lemma Read_ok:
  assumes "log_abs b hist" "unat cursor \<le> length hist" "bl_base b \<le> cursor" "1 \<le> limit" "limit \<le> MaxOutputChunk"
  shows "\<exists>e. Read b cursor limit = Some (Inr \<lparr>bs_start = cursor, bs_end = e,
           bs_data = take (nat limit) (drop (unat cursor) hist), bs_gap = False\<rparr>)
         \<and> unat e = min (length hist) (unat cursor + nat limit)"
proof -
  let ?size = "min (of_int limit) (bl_head b - cursor)"
  let ?n = "min (nat limit) (length hist - unat cursor)"
  have b: "unat (bl_head b) = length hist" using assms(1) by (simp add: log_abs_def)
  have le: "cursor \<le> bl_head b" using assms(2) b by (simp add: word_le_nat_alt)
  have "of_int limit = (of_nat (nat limit) :: uint64)" using assms(4) by simp
  then have "unat (of_int limit :: uint64) = nat limit"
    using assms(5) by (simp add: unat_of_nat_uint64 MaxOutputChunk_def)
  moreover have "unat (bl_head b - cursor) = length hist - unat cursor" using le b by (simp add: unat_sub)
  ultimately have size: "unat ?size = ?n" by (simp add: min_def word_le_nat_alt)
  have fits: "unat cursor + ?n \<le> length hist" "length hist < 2 ^ 64"
    using assms(2) b unat_lt64 [of "bl_head b"] by auto
  have "unat (bl_base b) \<le> unat cursor" using assms(3) by (simp add: word_le_nat_alt)
  then have d: "?n = 0 \<or> bl_data b \<noteq> []"
      "\<forall>i < ?n. bl_data b ! ((unat cursor + i) mod length (bl_data b)) = hist ! (unat cursor + i)"
    using assms(1) by (auto simp: log_abs_def)
  have "ring_copy (bl_data b) cursor [0..<?n]
      = Some (map (\<lambda>i. bl_data b ! ((unat cursor + i) mod length (bl_data b))) [0..<?n])"
    using d(1) fits by (intro ring_copy_eq) auto
  also have "map (\<lambda>i. bl_data b ! ((unat cursor + i) mod length (bl_data b))) [0..<?n]
      = map (\<lambda>i. hist ! (unat cursor + i)) [0..<?n]"
    using d(2) by (intro map_cong) auto
  also have "\<dots> = take ?n (drop (unat cursor) hist)" using fits(1) by (rule map_nth_slice)
  also have "\<dots> = take (nat limit) (drop (unat cursor) hist)" by (simp add: min_def)
  finally have copy: "ring_copy (bl_data b) cursor [0..<unat ?size]
      = Some (take (nat limit) (drop (unat cursor) hist))" by (simp only: size)
  have "unat (cursor + ?size) = unat cursor + ?n"
    using fits size by (subst unat_add_fits) simp_all
  then show ?thesis
    using copy le assms(2-5) by (auto simp: Read_def Let_def leD min_def)
qed

section \<open>Reachable logs\<close>

definition log_init :: "ByteLog \<times> string \<Rightarrow> bool" where
  "log_init bh \<longleftrightarrow> snd bh = [] \<and> (\<exists>limit. NewByteLog limit = Inr (fst bh))"

inductive log_step :: "ByteLog \<times> string \<Rightarrow> ByteLog \<times> string \<Rightarrow> bool" where
  append_chunk: "Append b p = Some (Inr (b', span)) \<Longrightarrow> log_step (b, hist) (b', hist @ p)"

lemma Append_accepted:
  assumes "log_abs b hist" "Append b p = Some (Inr (b', span))"
  shows "log_abs b' (hist @ p)"
proof -
  have "unat (bl_head b) = length hist" using assms(1) by (simp add: log_abs_def)
  then have "\<not> (int (length p) > MaxOutputChunk \<or> length hist + length p \<ge> 2 ^ 64)"
    using Append_refused [of b hist p] assms(2) by auto
  then show ?thesis using Append_ok [OF assms(1), of p] assms(2) by auto
qed

interpretation output_machine: invariant_machine log_init log_step "\<lambda>bh. log_abs (fst bh) (snd bh)"
proof unfold_locales
  show "log_init bh \<Longrightarrow> log_abs (fst bh) (snd bh)" for bh
    by (cases bh) (auto simp: log_init_def NewByteLog_def log_abs_def split: if_splits)
  show "log_abs (fst bh) (snd bh) \<Longrightarrow> log_step bh bh' \<Longrightarrow> log_abs (fst bh') (snd bh')" for bh bh'
    by (erule log_step.cases) (auto intro: Append_accepted)
qed

section \<open>Properties\<close>

text \<open>
  C9: Appending refines the byte history. On every reachable ring whose appended bytes form
  \<open>hist\<close>, \<open>Append\<close> never panics; it refuses exactly the chunks over 32 KiB and the chunks that
  would overflow the 64-bit offset, and otherwise reports the range \<open>[length hist, length hist +
  length p)\<close> and leaves a ring that represents \<open>hist @ p\<close>, whatever growth and wrapping the
  storage went through.
\<close>

theorem append_refines_history:
  assumes "reach log_init log_step (b, hist)"
  shows "if int (length p) > MaxOutputChunk \<or> length hist + length p \<ge> 2 ^ 64
         then Append b p = Some (Inl ErrLimit)
         else \<exists>b' span. Append b p = Some (Inr (b', span)) \<and> log_abs b' (hist @ p)
                \<and> unat (bs_start span) = length hist \<and> unat (bs_end span) = length hist + length p"
proof -
  have a: "log_abs b hist" using output_machine.reach_inv [OF assms] by simp
  then have h: "unat (bl_head b) = length hist" by (simp add: log_abs_def)
  show ?thesis
    using Append_ok [OF a, of p] Append_refused [OF h, of p] h
    by (auto simp: unat_add_fits unat_of_nat_uint64)
qed

text \<open>
  C10: Reading returns exactly what was written. On every reachable ring a cursor past the head and
  a bad limit are refused, a cursor that was evicted gets the exact evicted range as a gap and no
  bytes, and every other read returns precisely the slice of the complete history that starts at
  the cursor, bounded by the limit; it never panics.
\<close>

theorem read_exact_slice:
  assumes "reach log_init log_step (b, hist)"
  shows "Read b cursor limit =
    (if unat cursor > length hist then Some (Inl ErrOutputCursor)
     else if limit < 1 \<or> limit > MaxOutputChunk then Some (Inl ErrLimit)
     else if unat cursor < length hist - bl_limit b
     then Some (Inr \<lparr>bs_start = cursor, bs_end = of_nat (length hist - bl_limit b), bs_data = [], bs_gap = True\<rparr>)
     else Some (Inr \<lparr>bs_start = cursor, bs_end = of_nat (min (length hist) (unat cursor + nat limit)),
                     bs_data = take (nat limit) (drop (unat cursor) hist), bs_gap = False\<rparr>))"
proof -
  have a: "log_abs b hist" using output_machine.reach_inv [OF assms] by simp
  then have h: "unat (bl_head b) = length hist" "unat (bl_base b) = length hist - bl_limit b"
    by (simp_all add: log_abs_def)
  have cmp: "cursor > bl_head b \<longleftrightarrow> unat cursor > length hist"
      "cursor < bl_base b \<longleftrightarrow> unat cursor < length hist - bl_limit b"
    by (simp_all only: word_less_nat_alt h)
  show ?thesis
  proof (cases "unat cursor > length hist \<or> limit < 1 \<or> limit > MaxOutputChunk
      \<or> unat cursor < length hist - bl_limit b")
    case True
    then show ?thesis
      unfolding Read_def cmp unfolding of_nat_unat_eq [OF h(2)] by argo
  next
    case False
    then have "\<exists>e. Read b cursor limit = Some (Inr \<lparr>bs_start = cursor, bs_end = e,
           bs_data = take (nat limit) (drop (unat cursor) hist), bs_gap = False\<rparr>)
         \<and> unat e = min (length hist) (unat cursor + nat limit)"
      using cmp(2) by (intro Read_ok [OF a]) (simp_all add: not_less)
    then show ?thesis using False by (auto dest: of_nat_unat_eq)
  qed
qed

text \<open>
  Offsets round trip. Every 64-bit offset parses back from its decimal wire form, and every
  accepted wire form is the canonical one of the offset it denotes, so two spellings of one offset
  cannot both be accepted.
\<close>

theorem byte_offset_roundtrip:
  "ParseByteOffset s = Inr b \<longleftrightarrow> s = ByteOffset_String b"
  using ParseByteOffset_Inr offset_codec.parse_print by auto

section \<open>Witnesses\<close>

definition ex_log0 :: ByteLog where
  "ex_log0 = \<lparr>bl_limit = 2, bl_data = [], bl_base = 0, bl_head = 0\<rparr>"

definition ex_log1 :: ByteLog where
  "ex_log1 = \<lparr>bl_limit = 2, bl_data = ''cb'', bl_base = 1, bl_head = 3\<rparr>"

lemma replicate_two: "replicate 2 x = [x, x]"
  by (simp add: numeral_2_eq_2)

lemma two_mod_two: "2 mod Suc (Suc 0) = 0"
  by (simp add: eval_nat_numeral)

lemma ex_log_reach: "reach log_init log_step (ex_log1, ''abc'')"
proof -
  have "reach log_init log_step (ex_log0, [])"
    by (intro reach.reach_init)
      (simp add: log_init_def NewByteLog_def ex_log0_def MaxOutputBytes_def exI [of _ 2])
  moreover have "Append ex_log0 ''abc'' =
      Some (Inr (ex_log1, \<lparr>bs_start = 0, bs_end = 3, bs_data = [], bs_gap = False\<rparr>))"
    by (simp add: Append_def ex_log0_def ex_log1_def Advance_def ring_store_def ring_put_def
        MaxOutputChunk_def Let_def replicate_two two_mod_two)
  then have "log_step (ex_log0, []) (ex_log1, [] @ ''abc'')" by (rule log_step.append_chunk)
  ultimately show ?thesis using reach.reach_step by fastforce
qed

theorem append_refines_history_witness:
  "\<exists>b' span. Append ex_log1 ''de'' = Some (Inr (b', span)) \<and> log_abs b' ''abcde''
     \<and> unat (bs_start span) = 3 \<and> unat (bs_end span) = 5"
proof -
  have "length ''abc'' = 3" "length ''abc'' + length ''de'' = 5" by simp_all
  then show ?thesis
    using append_refines_history [OF ex_log_reach, of "''de''"]
    by (simp del: list.size add: MaxOutputChunk_def)
qed

theorem read_exact_slice_witness:
  "Read ex_log1 1 5 = Some (Inr \<lparr>bs_start = 1, bs_end = 3, bs_data = ''bc'', bs_gap = False\<rparr>)
   \<and> Read ex_log1 0 5 = Some (Inr \<lparr>bs_start = 0, bs_end = 1, bs_data = [], bs_gap = True\<rparr>)"
  using read_exact_slice [OF ex_log_reach, of 1 5] read_exact_slice [OF ex_log_reach, of 0 5]
  by (simp add: MaxOutputChunk_def ex_log1_def)

end
