(* ===== verification/Rt_Lifecycle.thy ===== *)
theory Rt_Lifecycle
  imports Rt_Control
begin

text \<open>
  Shutdown confirmation, freshness of interaction knowledge and deferred update notices, from
  \<open>domain/runtime/lifecycle.go\<close>. \<open>Invalidate\<close> changes its receiver even when it
  returns an error, so it returns the new state together with the result.
\<close>

section \<open>Shutdown\<close>

definition MaxShutdownPreviewRuns :: int where "MaxShutdownPreviewRuns = MaxLaunchRequests"

record ShutdownBindingState =
  sb_epoch :: string
  sb_preview_id :: string
  sb_revision :: uint64
  sb_roster_digest :: string
  sb_total_runs :: int
  sb_pending_launches :: int
  sb_pending_controls :: int
  sb_pending_reconciliations :: int

text \<open>
  \<open>strings.ToLower\<close> differs from the bytewise mapping only on strings with a byte outside ASCII,
  which \<open>hex.DecodeString\<close> refuses in either case.
\<close>

definition canonicalHex :: "string \<Rightarrow> nat \<Rightarrow> bool" where
  "canonicalHex s n \<longleftrightarrow> length s = n \<and> s = map to_lower s \<and> hex_decode s \<noteq> None"

definition ShutdownBindingFrom :: "ShutdownBindingState \<Rightarrow> ShutdownBindingState rt" where
  "ShutdownBindingFrom s =
     (if \<not> validLaunchID (sb_epoch s) \<or> \<not> validLaunchID (sb_preview_id s) \<or> \<not> canonicalHex (sb_roster_digest s) 64
         \<or> sb_total_runs s < 0 \<or> sb_total_runs s > MaxShutdownPreviewRuns
         \<or> sb_pending_launches s < 0 \<or> sb_pending_launches s > MaxActiveRuns
         \<or> sb_pending_controls s < 0 \<or> sb_pending_controls s > MaxControlCoordinators
         \<or> sb_pending_reconciliations s < 0 \<or> sb_pending_reconciliations s > MaxActiveRuns
      then Inl ErrInvalid else Inr s)"

definition shutdown_confirm :: "ShutdownBindingState \<Rightarrow> ShutdownBindingState \<Rightarrow> bool \<Rightarrow> unit rt" where
  "shutdown_confirm b current workLossAcknowledged =
     (if \<not> workLossAcknowledged then Inl ErrInvalid
      else case ShutdownBindingFrom b of
        Inl e \<Rightarrow> Inl e
      | Inr _ \<Rightarrow>
          (case ShutdownBindingFrom current of
             Inl e \<Rightarrow> Inl e
           | Inr _ \<Rightarrow>
               if b \<noteq> current \<or> sb_pending_launches current \<noteq> 0 \<or> sb_pending_controls current \<noteq> 0
                  \<or> sb_pending_reconciliations current \<noteq> 0
               then Inl ErrChanged else Inr ()))"

datatype ShutdownOutcome =
    ShutdownPending | ShutdownDraining | ShutdownUnknown | ShutdownRejected | ShutdownOutcomeOther string

section \<open>Freshness\<close>

record FreshnessBinding =
  fb_identity :: LaunchIdentity
  fb_worktree :: string
  fb_profile :: string

definition trim_prefix :: "string \<Rightarrow> string \<Rightarrow> string" where
  "trim_prefix p s = (if prefix p s then drop (length p) s else s)"

definition freshness_binding_valid :: "FreshnessBinding \<Rightarrow> bool" where
  "freshness_binding_valid b \<longleftrightarrow>
     (if \<not> identity_valid (fb_identity b) \<or> \<not> prefix ''w_'' (fb_worktree b)
         \<or> \<not> canonicalHex (trim_prefix ''w_'' (fb_worktree b)) 64
      then False
      else case ProfileIDFrom (fb_profile b) of Inl _ \<Rightarrow> False | Inr _ \<Rightarrow> True)"

datatype FreshnessReason =
    FreshnessNoReason | FreshnessSleepWake | FreshnessCommunicationGap | FreshnessRestart
  | FreshnessProcessExit | FreshnessReasonOther string

fun reason_valid :: "FreshnessReason \<Rightarrow> bool" where
  "reason_valid FreshnessSleepWake = True"
| "reason_valid FreshnessCommunicationGap = True"
| "reason_valid FreshnessRestart = True"
| "reason_valid FreshnessProcessExit = True"
| "reason_valid _ = False"

definition terminal :: "FreshnessReason \<Rightarrow> bool" where
  "terminal r \<longleftrightarrow> r = FreshnessRestart \<or> r = FreshnessProcessExit"

record Freshness =
  fr_binding :: FreshnessBinding
  fr_revision :: uint64
  fr_known :: bool
  fr_reason :: FreshnessReason
  fr_exhausted :: bool

definition FreshnessFrom :: "Freshness \<Rightarrow> Freshness rt" where
  "FreshnessFrom s =
     (if \<not> freshness_binding_valid (fr_binding s) \<or> fr_revision s = 0
         \<or> (fr_reason s \<noteq> FreshnessNoReason \<and> \<not> reason_valid (fr_reason s))
         \<or> (fr_known s \<and> (fr_exhausted s \<or> terminal (fr_reason s)))
         \<or> (fr_exhausted s \<and> fr_revision s \<noteq> max_uint64)
      then Inl ErrInvalid else Inr s)"

definition NewFreshness :: "FreshnessBinding \<Rightarrow> Freshness rt" where
  "NewFreshness binding =
     FreshnessFrom \<lparr>fr_binding = binding, fr_revision = 1, fr_known = False,
                    fr_reason = FreshnessNoReason, fr_exhausted = False\<rparr>"

definition Invalidate :: "Freshness \<Rightarrow> FreshnessReason \<Rightarrow> Freshness \<times> unit rt" where
  "Invalidate f reason =
     (if \<not> reason_valid reason then (f, Inl ErrInvalid)
      else let g = f\<lparr>fr_known := False,
                     fr_reason := (if \<not> terminal (fr_reason f) then reason else fr_reason f)\<rparr>
           in if fr_revision f = max_uint64 then (g\<lparr>fr_exhausted := True\<rparr>, Inl ErrLimit)
              else (g\<lparr>fr_revision := fr_revision f + 1\<rparr>, Inr ()))"

record CausalFreshnessEvidence =
  ce_binding :: FreshnessBinding
  ce_revision :: uint64
  ce_native_session :: string
  ce_native_event :: string

definition Reconcile :: "Freshness \<Rightarrow> CausalFreshnessEvidence \<Rightarrow> Freshness rt" where
  "Reconcile f e =
     (if fr_exhausted f \<or> terminal (fr_reason f) \<or> ce_binding e \<noteq> fr_binding f
         \<or> ce_revision e \<noteq> fr_revision f then Inl ErrChanged
      else if \<not> printableLaunchValue (ce_native_session e) 256 \<or> \<not> printableLaunchValue (ce_native_event e) 256
      then Inl ErrInvalid
      else Inr (f\<lparr>fr_known := True\<rparr>))"

section \<open>Deferred updates\<close>

record UpdateTarget =
  ut_version :: string
  ut_protocol :: int

text \<open>A rune that is not one of the accepted ASCII characters has no accepted byte either.\<close>

definition version_char :: "char \<Rightarrow> bool" where
  "version_char r \<longleftrightarrow> is_alnum r \<or> r = CHR ''.'' \<or> r = CHR ''-'' \<or> r = CHR ''_'' \<or> r = CHR ''+''"

definition update_target_valid :: "UpdateTarget \<Rightarrow> bool" where
  "update_target_valid t \<longleftrightarrow>
     (if length (ut_version t) = 0 \<or> length (ut_version t) > 128 \<or> ut_protocol t < 1 \<or> ut_protocol t > 65535
      then False else list_all version_char (ut_version t))"

record UpdateDeferral =
  ud_target :: UpdateTarget
  ud_started :: gotime
  ud_notified24h :: bool

definition UpdateDeferralFrom :: "UpdateDeferral \<Rightarrow> UpdateDeferral rt" where
  "UpdateDeferralFrom s =
     (if \<not> update_target_valid (ud_target s) \<or> is_zero (ud_started s) then Inl ErrInvalid else Inr s)"

definition NewUpdateDeferral :: "UpdateTarget \<Rightarrow> gotime \<Rightarrow> UpdateDeferral rt" where
  "NewUpdateDeferral target now =
     UpdateDeferralFrom \<lparr>ud_target = target, ud_started = now, ud_notified24h = False\<rparr>"

definition Retarget :: "UpdateDeferral \<Rightarrow> UpdateTarget \<Rightarrow> UpdateDeferral rt" where
  "Retarget d target = (if \<not> update_target_valid target then Inl ErrInvalid else Inr (d\<lparr>ud_target := target\<rparr>))"

definition Overdue24h :: "UpdateDeferral \<Rightarrow> gotime \<Rightarrow> bool" where
  "Overdue24h d now \<longleftrightarrow> \<not> before now (time_add (ud_started d) (24 * hour))"

datatype UpdateNoticeTrigger = UpdateAttempt | UpdateStatus | UpdateNoticeTriggerOther string

definition Notice :: "UpdateDeferral \<Rightarrow> gotime \<Rightarrow> UpdateNoticeTrigger \<Rightarrow> UpdateDeferral \<times> bool" where
  "Notice d now trigger =
     (case trigger of
        UpdateAttempt \<Rightarrow> (d, True)
      | UpdateStatus \<Rightarrow>
          if ud_notified24h d \<or> \<not> Overdue24h d now then (d, False)
          else (d\<lparr>ud_notified24h := True\<rparr>, True)
      | UpdateNoticeTriggerOther _ \<Rightarrow> (d, False))"

section \<open>Freshness over time\<close>

text \<open>
  A step of the aggregate is any call, also an \<open>Invalidate\<close> that returns an error after changing
  the state.
\<close>

inductive freshness_step :: "Freshness \<Rightarrow> Freshness \<Rightarrow> bool" where
  invalidate: "Invalidate f reason = (f', result) \<Longrightarrow> freshness_step f f'"
| reconcile: "Reconcile f e = Inr f' \<Longrightarrow> freshness_step f f'"

definition freshness_init :: "Freshness \<Rightarrow> bool" where
  "freshness_init f \<longleftrightarrow> (\<exists>s. FreshnessFrom s = Inr f)"

definition freshness_wf :: "Freshness \<Rightarrow> bool" where
  "freshness_wf f \<longleftrightarrow> FreshnessFrom f = Inr f"

text \<open>What no later call takes back: a terminal reason, and that a revision was superseded.\<close>

fun freshness_sealed :: "FreshnessReason + uint64 \<Rightarrow> Freshness \<Rightarrow> bool" where
  "freshness_sealed (Inl r) f \<longleftrightarrow> terminal r \<and> fr_reason f = r"
| "freshness_sealed (Inr stamp) f \<longleftrightarrow> fr_exhausted f \<or> unat stamp < unat (fr_revision f)"

lemma Invalidate_wf: "freshness_wf f \<Longrightarrow> freshness_wf (fst (Invalidate f reason))"
  by (auto simp: freshness_wf_def FreshnessFrom_def Invalidate_def Let_def inc_uint64_nonzero
      split: if_splits)

lemma Reconcile_wf: "freshness_wf f \<Longrightarrow> Reconcile f e = Inr f' \<Longrightarrow> freshness_wf f'"
  by (auto simp: freshness_wf_def FreshnessFrom_def Reconcile_def split: if_splits)

lemma Invalidate_sealed: "freshness_sealed k f \<Longrightarrow> freshness_sealed k (fst (Invalidate f reason))"
  by (cases k) (auto simp: Invalidate_def Let_def unat_inc_uint64)

lemma Reconcile_sealed: "freshness_sealed k f \<Longrightarrow> Reconcile f e = Inr f' \<Longrightarrow> freshness_sealed k f'"
  by (cases k) (auto simp: Reconcile_def split: if_splits)

interpretation freshness_machine: sealed_machine freshness_init freshness_step freshness_wf freshness_sealed
proof unfold_locales
  show "freshness_init f \<Longrightarrow> freshness_wf f" for f
    by (auto simp: freshness_init_def freshness_wf_def FreshnessFrom_def split: if_splits)
  show "freshness_wf f \<Longrightarrow> freshness_step f f' \<Longrightarrow> freshness_wf f'" for f f'
    by (erule freshness_step.cases) (auto dest: Invalidate_wf intro: Reconcile_wf, metis Invalidate_wf fst_conv)
  show "freshness_wf f \<Longrightarrow> freshness_step f f' \<Longrightarrow> freshness_sealed k f \<Longrightarrow> freshness_sealed k f'" for f f' k
    by (erule freshness_step.cases) (metis Invalidate_sealed fst_conv, metis Reconcile_sealed)
qed

lemma wf_terminal_unknown: "freshness_wf f \<Longrightarrow> terminal (fr_reason f) \<or> fr_exhausted f \<Longrightarrow> \<not> fr_known f"
  by (auto simp: freshness_wf_def FreshnessFrom_def split: if_splits)

lemma Invalidate_supersedes:
  "reason_valid reason \<Longrightarrow> freshness_sealed (Inr (fr_revision f)) (fst (Invalidate f reason))"
  by (simp add: Invalidate_def Let_def unat_inc_uint64)

section \<open>Notices over time\<close>

text \<open>One call on a deferral; the trace records the published notices with their time and trigger.\<close>

datatype deferral_op = CallRetarget UpdateTarget | CallNotice gotime UpdateNoticeTrigger

fun deferral_call :: "UpdateDeferral \<Rightarrow> deferral_op \<Rightarrow> UpdateDeferral \<times> (gotime \<times> UpdateNoticeTrigger) list" where
  "deferral_call d (CallRetarget t) = ((case Retarget d t of Inl _ \<Rightarrow> d | Inr d' \<Rightarrow> d'), [])"
| "deferral_call d (CallNotice now trigger) =
     (let (d', published) = Notice d now trigger in (d', if published then [(now, trigger)] else []))"

fun deferral_run :: "UpdateDeferral \<Rightarrow> deferral_op list \<Rightarrow> (gotime \<times> UpdateNoticeTrigger) list" where
  "deferral_run d [] = []"
| "deferral_run d (c # cs) = (let (d', out) = deferral_call d c in out @ deferral_run d' cs)"

lemma deferral_call_keeps:
  "deferral_call d c = (d', out) \<Longrightarrow> ud_started d' = ud_started d \<and> (ud_notified24h d \<longrightarrow> ud_notified24h d')"
  by (cases "(d, c)" rule: deferral_call.cases)
    (auto simp: Retarget_def Notice_def split: if_splits UpdateNoticeTrigger.splits)

lemma deferral_call_status:
  "deferral_call d c = (d', out) \<Longrightarrow> (now, UpdateStatus) \<in> set out \<Longrightarrow>
     out = [(now, UpdateStatus)] \<and> \<not> ud_notified24h d \<and> ud_notified24h d' \<and> Overdue24h d now"
  by (cases "(d, c)" rule: deferral_call.cases)
    (auto simp: Notice_def split: if_splits UpdateNoticeTrigger.splits)

abbreviation status_notices :: "(gotime \<times> UpdateNoticeTrigger) list \<Rightarrow> (gotime \<times> UpdateNoticeTrigger) list" where
  "status_notices out \<equiv> filter (\<lambda>n. snd n = UpdateStatus) out"

lemma status_notices_call:
  assumes "deferral_call d c = (d', out)"
  shows "status_notices out = [] \<or>
    (\<exists>now. status_notices out = [(now, UpdateStatus)] \<and> \<not> ud_notified24h d \<and> ud_notified24h d' \<and> Overdue24h d now)"
proof (cases "\<exists>now. (now, UpdateStatus) \<in> set out")
  case True
  then show ?thesis using deferral_call_status [OF assms] by fastforce
next
  case False
  then show ?thesis by (auto simp: filter_empty_conv)
qed

lemma deferral_run_status:
  "length (status_notices (deferral_run d cs)) \<le> (if ud_notified24h d then 0 else 1)
   \<and> (\<forall>n \<in> set (status_notices (deferral_run d cs)). Overdue24h d (fst n))"
proof (induction cs arbitrary: d)
  case (Cons c cs)
  obtain d' out where call: "deferral_call d c = (d', out)" by fastforce
  have same: "Overdue24h d' now = Overdue24h d now" for now
    using deferral_call_keeps [OF call] by (simp add: Overdue24h_def)
  have run: "status_notices (deferral_run d (c # cs)) = status_notices out @ status_notices (deferral_run d' cs)"
    by (simp add: call)
  show ?case
    unfolding run
    using status_notices_call [OF call] deferral_call_keeps [OF call] Cons.IH [of d']
    by (auto simp: same simp del: set_filter split: if_splits)
qed simp

section \<open>Properties\<close>

text \<open>
  Lost knowledge is not resurrected. Once a reachable freshness record carries a terminal reason
  (restart or process exit), every later call keeps that reason, leaves the interaction unknown and
  refuses all reconciling evidence with \<open>ErrChanged\<close>.
\<close>

theorem freshness_no_resurrection:
  assumes "reach freshness_init freshness_step f" "terminal (fr_reason f)" "freshness_step\<^sup>*\<^sup>* f f'"
  shows "fr_reason f' = fr_reason f \<and> \<not> fr_known f' \<and> Reconcile f' e = Inl ErrChanged"
proof -
  have wf: "freshness_wf f" using assms(1) by (rule freshness_machine.reach_inv)
  have "freshness_sealed (Inl (fr_reason f)) f" using assms(2) by simp
  then have s: "freshness_sealed (Inl (fr_reason f)) f'"
    by (rule freshness_machine.sealed_forever [OF assms(3) wf])
  have "freshness_wf f'" using assms(3) wf by (rule freshness_machine.steps_inv)
  with s show ?thesis using wf_terminal_unknown by (simp add: Reconcile_def)
qed

text \<open>
  Stale evidence never reconciles. Evidence stamped with the revision current before an accepted
  or exhausting invalidation is refused with \<open>ErrChanged\<close> at every later state, even at the end of
  the 64-bit revision range, where the counter does not wrap.
\<close>

theorem stale_freshness_evidence_refused:
  assumes "reach freshness_init freshness_step f" "reason_valid reason"
    and "Invalidate f reason = (f1, result)" "freshness_step\<^sup>*\<^sup>* f1 f2" "ce_revision e = fr_revision f"
  shows "Reconcile f2 e = Inl ErrChanged \<and> (result = Inr () \<longleftrightarrow> fr_revision f \<noteq> max_uint64)"
proof -
  have wf: "freshness_wf f" using assms(1) by (rule freshness_machine.reach_inv)
  have "freshness_wf f1" using Invalidate_wf [OF wf, of reason] assms(3) by simp
  moreover have "freshness_sealed (Inr (fr_revision f)) f1"
    using Invalidate_supersedes [OF assms(2), of f] assms(3) by simp
  ultimately have "freshness_sealed (Inr (fr_revision f)) f2"
    using freshness_machine.sealed_forever [OF assms(4)] by blast
  then have "Reconcile f2 e = Inl ErrChanged" using assms(5) by (auto simp: Reconcile_def)
  moreover have "result = Inr () \<longleftrightarrow> fr_revision f \<noteq> max_uint64"
    using assms(2,3) by (auto simp: Invalidate_def Let_def split: if_splits)
  ultimately show ?thesis by blast
qed

text \<open>
  The overdue notice is published at most once. Along any sequence of retargets and notice calls
  on a fresh deferral, at most one status notice is published, none of them less than 24 hours after
  the start of the deferral, and every explicit attempt is published.
\<close>

theorem overdue_notice_once:
  assumes "NewUpdateDeferral target started = Inr d"
  shows "length (status_notices (deferral_run d cs)) \<le> 1
    \<and> (\<forall>n \<in> set (status_notices (deferral_run d cs)). \<not> before (fst n) (time_add started (24 * hour)))
    \<and> length (filter (\<lambda>n. snd n = UpdateAttempt) (deferral_run d cs))
        = length (filter (\<lambda>c. \<exists>now. c = CallNotice now UpdateAttempt) cs)"
proof -
  have d: "ud_started d = started"
    using assms by (auto simp: NewUpdateDeferral_def UpdateDeferralFrom_def split: if_splits)
  have out: "deferral_call d c = (d', out) \<Longrightarrow> filter (\<lambda>n. snd n = UpdateAttempt) out
      = (case c of CallNotice now UpdateAttempt \<Rightarrow> [(now, UpdateAttempt)] | _ \<Rightarrow> [])" for d c d' out
    by (cases "(d, c)" rule: deferral_call.cases)
      (auto simp: Notice_def split: if_splits UpdateNoticeTrigger.splits)
  have "length (filter (\<lambda>n. snd n = UpdateAttempt) (deferral_run d cs))
      = length (filter (\<lambda>c. \<exists>now. c = CallNotice now UpdateAttempt) cs)"
    by (induction cs arbitrary: d)
      (auto simp: out split: prod.splits deferral_op.splits UpdateNoticeTrigger.splits)
  then show ?thesis
    using deferral_run_status [of d cs] by (auto simp: Overdue24h_def d split: if_splits)
qed

section \<open>Witnesses\<close>

definition ex_binding :: FreshnessBinding where
  "ex_binding = \<lparr>fb_identity = ex_identity, fb_worktree = ''w_'' @ replicate 64 CHR ''d'', fb_profile = ''dev''\<rparr>"

definition ex_fresh :: "FreshnessReason \<Rightarrow> Freshness" where
  "ex_fresh reason = \<lparr>fr_binding = ex_binding, fr_revision = 3, fr_known = False, fr_reason = reason, fr_exhausted = False\<rparr>"

lemma replicate_canonical_hex: "hex_lower c \<Longrightarrow> even n \<Longrightarrow> canonicalHex (replicate n c) n"
  using hex_lower_props [of c] hex_decodable [of "replicate n c"]
  by (auto simp: canonicalHex_def list_all_iff)

lemma ex_binding_valid: "freshness_binding_valid ex_binding"
  by (simp add: freshness_binding_valid_def ex_binding_def ex_identity_valid trim_prefix_def
      replicate_canonical_hex hex_lower_def char_in_def ProfileIDFrom_def is_alnum_def)

lemma ex_fresh_reach:
  "reason = FreshnessNoReason \<or> reason_valid reason \<Longrightarrow> reach freshness_init freshness_step (ex_fresh reason)"
  by (rule reach.reach_init)
    (auto simp: freshness_init_def FreshnessFrom_def ex_fresh_def ex_binding_valid intro!: exI [of _ "ex_fresh reason"])

theorem freshness_no_resurrection_witness:
  "\<forall>e. Reconcile (ex_fresh FreshnessRestart) e = Inl ErrChanged"
  using freshness_no_resurrection [OF ex_fresh_reach, of FreshnessRestart "ex_fresh FreshnessRestart"]
  by (simp add: ex_fresh_def terminal_def)

definition ex_evidence :: CausalFreshnessEvidence where
  "ex_evidence = \<lparr>ce_binding = ex_binding, ce_revision = 3, ce_native_session = ''s'', ce_native_event = ''e''\<rparr>"

theorem stale_freshness_evidence_refused_witness:
  "Reconcile (ex_fresh FreshnessNoReason) ex_evidence \<noteq> Inl ErrChanged \<and>
   Reconcile (fst (Invalidate (ex_fresh FreshnessNoReason) FreshnessSleepWake)) ex_evidence = Inl ErrChanged"
proof
  show "Reconcile (ex_fresh FreshnessNoReason) ex_evidence \<noteq> Inl ErrChanged"
    by (simp add: Reconcile_def ex_fresh_def ex_evidence_def terminal_def)
  show "Reconcile (fst (Invalidate (ex_fresh FreshnessNoReason) FreshnessSleepWake)) ex_evidence = Inl ErrChanged"
    using stale_freshness_evidence_refused [OF ex_fresh_reach, of FreshnessNoReason FreshnessSleepWake _ _ _ ex_evidence]
    by (metis prod.collapse reason_valid.simps(1) rtranclp.rtrancl_refl
        CausalFreshnessEvidence.select_convs(2) Freshness.select_convs(2) ex_evidence_def ex_fresh_def)
qed

definition ex_update :: UpdateTarget where
  "ex_update = \<lparr>ut_version = ''1.2'', ut_protocol = 1\<rparr>"

definition ex_deferral :: UpdateDeferral where
  "ex_deferral = \<lparr>ud_target = ex_update, ud_started = GoTime 5 None 0, ud_notified24h = False\<rparr>"

definition ex_calls :: "deferral_op list" where
  "ex_calls = [CallNotice (GoTime 6 None 0) UpdateStatus, CallNotice (GoTime (48 * hour) None 0) UpdateStatus,
               CallNotice (GoTime (49 * hour) None 0) UpdateStatus]"

theorem overdue_notice_once_witness:
  "length (status_notices (deferral_run ex_deferral ex_calls)) \<le> 1
   \<and> deferral_run ex_deferral ex_calls = [(GoTime (48 * hour) None 0, UpdateStatus)]"
proof
  have "NewUpdateDeferral ex_update (GoTime 5 None 0) = Inr ex_deferral"
    by (simp add: NewUpdateDeferral_def UpdateDeferralFrom_def update_target_valid_def ex_update_def
        version_char_def is_alnum_def char_in_def is_zero_def ex_deferral_def)
  then show "length (status_notices (deferral_run ex_deferral ex_calls)) \<le> 1"
    by (rule overdue_notice_once [THEN conjunct1])
  show "deferral_run ex_deferral ex_calls = [(GoTime (48 * hour) None 0, UpdateStatus)]"
    by (simp add: ex_calls_def ex_deferral_def Notice_def Overdue24h_def time_add_def before_def tcompare_def)
qed

end
