(* ===== verification/Rt_Observation.thy ===== *)
theory Rt_Observation
  imports Rt_Lifecycle
begin

text \<open>
  Small validated values of the runtime: untrusted observations
  (\<open>domain/runtime/observation.go\<close>), interruptions of a previous epoch
  (\<open>domain/runtime/interruption.go\<close>) and the confirmation that forgets metadata
  (\<open>domain/runtime/metadata.go\<close>). Each wrapper is modelled by its one state field.
\<close>

section \<open>Observations\<close>

datatype ObservationKind =
    ObservationPromptBoundary | ObservationToolBoundary | ObservationTurnBoundary
  | ObservationSessionBoundary | ObservationKindOther string

record DerivedObservation =
  do_host :: string
  do_host_version :: string
  do_event_id :: string
  do_native_session_id :: string
  do_native_turn_id :: string
  do_kind :: ObservationKind

definition correlation_char :: "char \<Rightarrow> bool" where
  "correlation_char r \<longleftrightarrow> is_alnum r \<or> r = CHR ''_'' \<or> r = CHR ''-'' \<or> r = CHR ''.'' \<or> r = CHR '':''"

definition observationCorrelation :: "string \<Rightarrow> bool \<Rightarrow> bool" where
  "observationCorrelation s optional \<longleftrightarrow>
     (if s = '''' then optional
      else if length s > 256 then False
      else list_all correlation_char s)"

definition DerivedObservationOf :: "DerivedObservation \<Rightarrow> DerivedObservation rt" where
  "DerivedObservationOf s =
     (if \<not> known_host (do_host s) then Inl ErrInvalid
      else if (case do_kind s of ObservationKindOther _ \<Rightarrow> True | _ \<Rightarrow> False) then Inl ErrInvalid
      else if \<not> printableLaunchValue (do_host_version s) 256 \<or> \<not> observationCorrelation (do_event_id s) False
              \<or> \<not> observationCorrelation (do_native_session_id s) True
              \<or> \<not> observationCorrelation (do_native_turn_id s) True
      then Inl ErrInvalid
      else Inr s)"

lemma correlation_no_nul: "observationCorrelation s optional \<Longrightarrow> CHR 0x00 \<notin> set s"
  by (auto simp: observationCorrelation_def correlation_char_def is_alnum_def char_in_def list_all_iff
      split: if_splits)

section \<open>Forgetting metadata\<close>

definition validMetadataDigest :: "string \<Rightarrow> bool" where
  "validMetadataDigest digest \<longleftrightarrow>
     (if length digest \<noteq> 64 \<or> map to_lower digest \<noteq> digest then False else hex_decode digest \<noteq> None)"

definition MetadataForgetConfirmationOf :: "string \<Rightarrow> bool \<Rightarrow> bool \<Rightarrow> string rt" where
  "MetadataForgetConfirmationOf digest historyLoss recoveryLoss =
     (if \<not> historyLoss \<or> \<not> recoveryLoss \<or> \<not> validMetadataDigest digest then Inl ErrInvalid else Inr digest)"

lemma validMetadataDigest_canonical: "validMetadataDigest s \<longleftrightarrow> canonicalHex s 64"
  by (auto simp: validMetadataDigest_def canonicalHex_def)

lemma canonical_hex_chars: "canonicalHex s n \<Longrightarrow> list_all hex_lower s"
proof -
  assume h: "canonicalHex s n"
  then have "list_all (\<lambda>c. hex_value c \<noteq> None) s" "list_all (\<lambda>c. to_lower c = c) s"
    using hex_decodable [of s] map_to_lower_id [of s] by (simp_all add: canonicalHex_def)
  then show ?thesis by (auto simp: list_all_iff intro: to_lower_hex)
qed

lemma canonical_hex_no_nul: "canonicalHex s n \<Longrightarrow> CHR 0x00 \<notin> set s"
  using canonical_hex_chars [of s n] by (auto simp: list_all_iff hex_lower_def char_in_def)

section \<open>Interruptions\<close>

record Interruption =
  in_binding :: FreshnessBinding
  in_process_unknown :: bool
  in_pending_controls :: int

definition InterruptionFrom :: "Interruption \<Rightarrow> Interruption rt" where
  "InterruptionFrom s =
     (if \<not> freshness_binding_valid (in_binding s) \<or> in_pending_controls s < 0
         \<or> in_pending_controls s > int MaxControlReceipts
         \<or> (\<not> in_process_unknown s \<and> in_pending_controls s = 0)
      then Inl ErrInvalid else Inr s)"

definition InterruptionOf :: "RunSnapshot \<Rightarrow> int \<Rightarrow> Interruption rt" where
  "InterruptionOf snapshot pendingControls =
     (if rs_state snapshot \<noteq> RunReserved \<and> rs_state snapshot \<noteq> RunLive \<and> rs_state snapshot \<noteq> RunExited
      then Inl ErrInvalid
      else InterruptionFrom
        \<lparr>in_binding = \<lparr>fb_identity = rs_identity snapshot, fb_worktree = w_id (t_worktree (rs_target snapshot)),
                       fb_profile = hp_id (rs_profile snapshot)\<rparr>,
         in_process_unknown = (rs_state snapshot \<noteq> RunExited \<or> rs_publication_uncertain snapshot),
         in_pending_controls = pendingControls\<rparr>)"

definition interruption_status :: "Interruption \<Rightarrow> string" where
  "interruption_status i = (if in_process_unknown i then ''orphaned'' else ''historical_unknown'')"

section \<open>Properties\<close>

text \<open>
  A registered run with unfinished business is always classified. For every reachable descriptor
  whose target is a worktree built by \<open>WorktreeOf\<close> and every receipt count the ledger can hold, the
  classification succeeds unless the run exited with nothing pending and a certain publication; the
  result carries the run's own binding, and it is reported as orphaned exactly when the exit of the
  process was not recorded or its publication is uncertain.
\<close>

theorem interruption_classifies:
  assumes "reach launch_init launch_step d" "valid_worktree (t_worktree (rs_target d))"
    and "0 \<le> pending" "pending \<le> int MaxControlReceipts"
  shows "if rs_state d = RunExited \<and> \<not> rs_publication_uncertain d \<and> pending = 0
         then InterruptionOf d pending = Inl ErrInvalid
         else \<exists>i. InterruptionOf d pending = Inr i \<and> fb_identity (in_binding i) = rs_identity d
                \<and> fb_worktree (in_binding i) = w_id (t_worktree (rs_target d))
                \<and> (interruption_status i = ''orphaned'' \<longleftrightarrow> rs_state d \<noteq> RunExited \<or> rs_publication_uncertain d)"
proof -
  have wf: "launch_wf d" using assms(1) by (rule launch_machine.reach_inv)
  have state: "rs_state d = RunReserved \<or> rs_state d = RunLive \<or> rs_state d = RunExited"
    using wf by (auto simp: launch_wf_def split: RunState.splits)
  have id: "w_id (t_worktree (rs_target d)) = ''w_'' @ hex_encode h \<and> length h = 32"
    if "h = sha256 (nul_frame [w_project (t_worktree (rs_target d)), w_path (t_worktree (rs_target d)),
          w_common (t_worktree (rs_target d)), w_store (t_worktree (rs_target d)), w_witness (t_worktree (rs_target d))])"
    for h
    using assms(2) that unfolding valid_worktree_def by (auto dest!: WorktreeOf_Inr simp: identity_def)
  have "map to_lower (hex_encode h) = hex_encode h" for h
    using hex_encode_lower [of h] hex_lower_props by (auto simp: map_to_lower_id list_all_iff)
  then have "canonicalHex (trim_prefix ''w_'' (w_id (t_worktree (rs_target d)))) 64"
    using id by (simp add: canonicalHex_def trim_prefix_def)
  moreover have "prefix ''w_'' (w_id (t_worktree (rs_target d)))" using id by simp
  moreover have "ProfileIDFrom (hp_id (rs_profile d)) \<noteq> Inl e" for e
    using wf by (auto simp: launch_wf_def HostProfileFrom_def split: sum.splits)
  ultimately have "freshness_binding_valid \<lparr>fb_identity = rs_identity d,
      fb_worktree = w_id (t_worktree (rs_target d)), fb_profile = hp_id (rs_profile d)\<rparr>"
    using wf by (auto simp: freshness_binding_valid_def launch_wf_def split: sum.splits)
  then show ?thesis
    using state assms(3,4) by (auto simp: InterruptionOf_def InterruptionFrom_def interruption_status_def)
qed

section \<open>Witnesses\<close>

theorem interruption_classifies_witness:
  "\<exists>i. InterruptionOf ex_live 2 = Inr i \<and> interruption_status i = ''orphaned''"
proof -
  have "valid_worktree (t_worktree (rs_target ex_live))"
    using ex_worktree_valid by (simp add: valid_worktree_def ex_live_def ex_target_def ex_worktree_def)
  from interruption_classifies [OF ex_live_reach this, of 2] show ?thesis
    by (auto simp: ex_live_def MaxControlReceipts_def)
qed

end
