(* ===== verification/Rt_Recovery.thy ===== *)
theory Rt_Recovery
  imports Rt_Observation
begin

text \<open>
  Recovery bookkeeping of an exited run and the single managed attempt to resume its conversation,
  from \<open>domain/runtime/recovery.go\<close> and \<open>domain/runtime/resume.go\<close>. A pointer receiver or argument
  is an option, with \<open>None\<close> for nil.
\<close>

section \<open>Recovery records\<close>

record RecoveryBinding =
  rb_identity :: LaunchIdentity
  rb_target :: Target
  rb_profile :: HostProfile
  rb_pid :: int
  rb_native_session_id :: string
  rb_native_history_path :: string
  rb_native_namespace_witness :: string
  rb_model :: string
  rb_provider :: string

definition RecoveryBindingOf :: "RecoveryBinding \<Rightarrow> RecoveryBinding rt" where
  "RecoveryBindingOf s =
     (case LaunchDescriptorOf (rb_identity s) (rb_target s) (rb_profile s) of
        Inl _ \<Rightarrow> Inl ErrInvalid
      | Inr _ \<Rightarrow>
          if rb_pid s \<le> 0 \<or> \<not> observationCorrelation (rb_native_session_id s) False
             \<or> \<not> validPath (rb_native_history_path s) \<or> \<not> validMetadataDigest (rb_native_namespace_witness s)
             \<or> \<not> printableLaunchValue (rb_model s) 256 \<or> \<not> printableLaunchValue (rb_provider s) 256
          then Inl ErrInvalid else Inr s)"

definition ConversationKey :: "RecoveryBinding \<Rightarrow> string" where
  "ConversationKey b =
     (case RecoveryBindingOf b of
        Inl _ \<Rightarrow> ''''
      | Inr _ \<Rightarrow> identity ''n_'' [hp_host (rb_profile b), rb_native_namespace_witness b, rb_native_session_id b])"

record RecoveryRecord =
  rr_binding :: RecoveryBinding
  rr_exit_observed :: bool
  rr_exit_code :: int

definition RecoveryRecordFrom :: "RecoveryRecord \<Rightarrow> RecoveryRecord rt" where
  "RecoveryRecordFrom s =
     (case RecoveryBindingOf (rr_binding s) of
        Inl _ \<Rightarrow> Inl ErrInvalid
      | Inr _ \<Rightarrow>
          if (\<not> rr_exit_observed s \<and> rr_exit_code s \<noteq> 0)
             \<or> (rr_exit_observed s \<and> (rr_exit_code s < - 1 \<or> rr_exit_code s > 255))
          then Inl ErrInvalid else Inr s)"

definition NewRecoveryRecord :: "RecoveryBinding \<Rightarrow> RecoveryRecord rt" where
  "NewRecoveryRecord binding =
     RecoveryRecordFrom \<lparr>rr_binding = binding, rr_exit_observed = False, rr_exit_code = 0\<rparr>"

definition ObserveOwnedExit :: "RecoveryRecord option \<Rightarrow> LaunchIdentity \<Rightarrow> int \<Rightarrow> RecoveryRecord rt" where
  "ObserveOwnedExit rp i code =
     (case rp of
        None \<Rightarrow> Inl ErrInvalid
      | Some r \<Rightarrow>
          if code < - 1 \<or> code > 255 then Inl ErrInvalid
          else if i \<noteq> rb_identity (rr_binding r) \<or> (rr_exit_observed r \<and> rr_exit_code r \<noteq> code) then Inl ErrChanged
          else Inr (r\<lparr>rr_exit_observed := True, rr_exit_code := code\<rparr>))"

definition ObserveQualifiedOwnedExit ::
  "RecoveryRecord option \<Rightarrow> LaunchIdentity \<Rightarrow> int \<Rightarrow> RecoveryBinding \<Rightarrow> RecoveryRecord rt" where
  "ObserveQualifiedOwnedExit rp i code binding =
     (case rp of
        None \<Rightarrow> Inl ErrInvalid
      | Some r \<Rightarrow>
          (case RecoveryBindingOf binding of
             Inl e \<Rightarrow> Inl e
           | Inr _ \<Rightarrow>
               let expected = (rr_binding r)\<lparr>rb_model := rb_model binding\<rparr>
               in if expected \<noteq> binding \<or> (rr_exit_observed r \<and> rr_binding r \<noteq> binding) then Inl ErrChanged
                  else (case ObserveOwnedExit (Some r) i code of
                          Inl e \<Rightarrow> Inl e
                        | Inr r' \<Rightarrow> Inr (r'\<lparr>rr_binding := binding\<rparr>))))"

inductive recovery_step :: "RecoveryRecord \<Rightarrow> RecoveryRecord \<Rightarrow> bool" where
  owned_exit: "ObserveOwnedExit (Some r) i code = Inr r' \<Longrightarrow> recovery_step r r'"
| qualified_exit: "ObserveQualifiedOwnedExit (Some r) i code b = Inr r' \<Longrightarrow> recovery_step r r'"

definition recovery_init :: "RecoveryRecord \<Rightarrow> bool" where
  "recovery_init r \<longleftrightarrow> (\<exists>s. RecoveryRecordFrom s = Inr r)"

definition recovery_wf :: "RecoveryRecord \<Rightarrow> bool" where
  "recovery_wf r \<longleftrightarrow> RecoveryRecordFrom r = Inr r"

text \<open>An observed exit fixes the whole record; before that only the model may still change.\<close>

definition recovery_sealed :: "RecoveryRecord \<Rightarrow> RecoveryRecord \<Rightarrow> bool" where
  "recovery_sealed r0 r \<longleftrightarrow>
     (if rr_exit_observed r0 then r = r0
      else (rr_binding r)\<lparr>rb_model := rb_model (rr_binding r0)\<rparr> = rr_binding r0)"

lemma RecoveryBindingOf_Inr: "RecoveryBindingOf s = Inr t \<Longrightarrow> t = s"
  by (auto simp: RecoveryBindingOf_def split: sum.splits if_splits)

lemma RecoveryRecordFrom_Inr: "RecoveryRecordFrom s = Inr t \<Longrightarrow> t = s"
  by (auto simp: RecoveryRecordFrom_def split: sum.splits if_splits)

lemma ObserveOwnedExit_Inr:
  "ObserveOwnedExit (Some r) i code = Inr r' \<Longrightarrow>
     r' = r\<lparr>rr_exit_observed := True, rr_exit_code := code\<rparr> \<and> - 1 \<le> code \<and> code \<le> 255
     \<and> i = rb_identity (rr_binding r) \<and> (rr_exit_observed r \<longrightarrow> rr_exit_code r = code)"
  by (auto simp: ObserveOwnedExit_def split: if_splits)

lemma ObserveQualifiedOwnedExit_Inr:
  "ObserveQualifiedOwnedExit (Some r) i code b = Inr r' \<Longrightarrow>
     RecoveryBindingOf b = Inr b \<and> (rr_binding r)\<lparr>rb_model := rb_model b\<rparr> = b
     \<and> (rr_exit_observed r \<longrightarrow> rr_binding r = b \<and> rr_exit_code r = code) \<and> - 1 \<le> code \<and> code \<le> 255
     \<and> r' = r\<lparr>rr_binding := b, rr_exit_observed := True, rr_exit_code := code\<rparr>"
  by (auto simp: ObserveQualifiedOwnedExit_def Let_def split: sum.splits if_splits
      dest!: ObserveOwnedExit_Inr RecoveryBindingOf_Inr)

lemma recovery_step_wf: "recovery_wf r \<Longrightarrow> recovery_step r r' \<Longrightarrow> recovery_wf r'"
  by (erule recovery_step.cases)
    (auto simp: recovery_wf_def RecoveryRecordFrom_def split: sum.splits if_splits
      dest!: ObserveOwnedExit_Inr ObserveQualifiedOwnedExit_Inr)

lemma recovery_step_sealed: "recovery_step r r' \<Longrightarrow> recovery_sealed r0 r \<Longrightarrow> recovery_sealed r0 r'"
proof (erule recovery_step.cases)
  fix s i code s'
  assume "recovery_sealed r0 r" "r = s" "r' = s'" "ObserveOwnedExit (Some s) i code = Inr s'"
  then show ?thesis by (auto simp: recovery_sealed_def dest!: ObserveOwnedExit_Inr split: if_splits)
next
  fix s i code b s'
  assume *: "recovery_sealed r0 r" "r = s" "r' = s'" "ObserveQualifiedOwnedExit (Some s) i code b = Inr s'"
  note q = ObserveQualifiedOwnedExit_Inr [OF *(4)]
  then have b: "(rr_binding s)\<lparr>rb_model := rb_model b\<rparr> = b" by blast
  have "b\<lparr>rb_model := m\<rparr> = ((rr_binding s)\<lparr>rb_model := rb_model b\<rparr>)\<lparr>rb_model := m\<rparr>" for m
    by (simp only: b)
  then have b': "b\<lparr>rb_model := m\<rparr> = (rr_binding s)\<lparr>rb_model := m\<rparr>" for m by simp
  show ?thesis
  proof (cases "rr_exit_observed r0")
    case True
    then show ?thesis using *(1-3) q by (simp add: recovery_sealed_def)
  next
    case False
    then show ?thesis using *(1-3) q b' by (simp add: recovery_sealed_def)
  qed
qed

interpretation recovery_machine: sealed_machine recovery_init recovery_step recovery_wf recovery_sealed
proof unfold_locales
  show "recovery_init r \<Longrightarrow> recovery_wf r" for r
    using RecoveryRecordFrom_Inr by (auto simp: recovery_init_def recovery_wf_def)
qed (auto intro: recovery_step_wf recovery_step_sealed)

section \<open>Resume attempts\<close>

datatype ResumePhase =
    ResumeReserved | ResumeStarted | ResumeConfirmed | ResumeUnknown | ResumeFailedBeforeStart
  | ResumePhaseOther string

record ResumeAttempt =
  ra_request_id :: string
  ra_binding :: RecoveryBinding
  ra_predecessor_exit_code :: int
  ra_next :: LaunchIdentity
  ra_phase :: ResumePhase
  ra_confirmed :: RecoveryBinding

text \<open>The zero value \<open>RecoveryBinding{}\<close>.\<close>

definition zero_binding :: RecoveryBinding where
  "zero_binding =
     \<lparr>rb_identity = \<lparr>li_run = '''', li_generation = '''', li_epoch = ''''\<rparr>,
      rb_target = \<lparr>t_worktree = \<lparr>w_id = '''', w_project = '''', w_path = '''', w_common = '''',
                                 w_store = '''', w_witness = ''''\<rparr>, t_profile = ''''\<rparr>,
      rb_profile = \<lparr>hp_id = '''', hp_host = '''', hp_executable = '''', hp_executable_witness = '''', hp_version = ''''\<rparr>,
      rb_pid = 0, rb_native_session_id = '''', rb_native_history_path = '''',
      rb_native_namespace_witness = '''', rb_model = '''', rb_provider = ''''\<rparr>"

definition matchingResumeBinding :: "ResumeAttempt \<Rightarrow> RecoveryBinding \<Rightarrow> bool" where
  "matchingResumeBinding attempt successor \<longleftrightarrow>
     (case RecoveryBindingOf successor of
        Inl _ \<Rightarrow> False
      | Inr _ \<Rightarrow>
          if rb_identity successor \<noteq> ra_next attempt then False
          else successor\<lparr>rb_identity := rb_identity (ra_binding attempt), rb_pid := rb_pid (ra_binding attempt)\<rparr>
                 = ra_binding attempt)"

definition ResumeAttemptFrom :: "ResumeAttempt \<Rightarrow> ResumeAttempt rt" where
  "ResumeAttemptFrom s =
     (if \<not> validControlRequestID (ra_request_id s) \<or> \<not> identity_valid (ra_next s)
         \<or> ra_predecessor_exit_code s < - 1 \<or> ra_predecessor_exit_code s > 255 then Inl ErrInvalid
      else case RecoveryBindingOf (ra_binding s) of
        Inl _ \<Rightarrow> Inl ErrInvalid
      | Inr _ \<Rightarrow>
          if li_run (ra_next s) = li_run (rb_identity (ra_binding s))
             \<or> li_generation (ra_next s) = li_generation (rb_identity (ra_binding s)) then Inl ErrInvalid
          else (case ra_phase s of
                  ResumeConfirmed \<Rightarrow>
                    if \<not> matchingResumeBinding s (ra_confirmed s) then Inl ErrInvalid else Inr s
                | ResumePhaseOther _ \<Rightarrow> Inl ErrInvalid
                | _ \<Rightarrow> if ra_confirmed s \<noteq> zero_binding then Inl ErrInvalid else Inr s))"

definition NewResumeAttempt :: "string \<Rightarrow> RecoveryRecord option \<Rightarrow> LaunchIdentity \<Rightarrow> ResumeAttempt rt" where
  "NewResumeAttempt requestID rp nxt =
     (case rp of
        None \<Rightarrow> Inl ErrInvalid
      | Some r \<Rightarrow>
          if \<not> rr_exit_observed r then Inl ErrChanged
          else ResumeAttemptFrom
            \<lparr>ra_request_id = requestID, ra_binding = rr_binding r, ra_predecessor_exit_code = rr_exit_code r,
             ra_next = nxt, ra_phase = ResumeReserved, ra_confirmed = zero_binding\<rparr>)"

definition MarkStarted :: "ResumeAttempt option \<Rightarrow> ResumeAttempt rt" where
  "MarkStarted ap =
     (case ap of None \<Rightarrow> Inl ErrInvalid
      | Some a \<Rightarrow> if ra_phase a = ResumeReserved \<or> ra_phase a = ResumeStarted
                  then Inr (a\<lparr>ra_phase := ResumeStarted\<rparr>) else Inl ErrChanged)"

definition FailBeforeStart :: "ResumeAttempt option \<Rightarrow> ResumeAttempt rt" where
  "FailBeforeStart ap =
     (case ap of None \<Rightarrow> Inl ErrInvalid
      | Some a \<Rightarrow> if ra_phase a = ResumeReserved \<or> ra_phase a = ResumeFailedBeforeStart
                  then Inr (a\<lparr>ra_phase := ResumeFailedBeforeStart\<rparr>) else Inl ErrChanged)"

definition MarkUnknown :: "ResumeAttempt option \<Rightarrow> ResumeAttempt rt" where
  "MarkUnknown ap =
     (case ap of None \<Rightarrow> Inl ErrInvalid
      | Some a \<Rightarrow> if ra_phase a = ResumeReserved \<or> ra_phase a = ResumeStarted \<or> ra_phase a = ResumeUnknown
                  then Inr (a\<lparr>ra_phase := ResumeUnknown\<rparr>) else Inl ErrChanged)"

definition resume_confirm :: "ResumeAttempt option \<Rightarrow> RecoveryBinding \<Rightarrow> ResumeAttempt rt" where
  "resume_confirm ap successor =
     (case ap of None \<Rightarrow> Inl ErrInvalid
      | Some a \<Rightarrow>
          if \<not> matchingResumeBinding a successor then Inl ErrChanged
          else (case ra_phase a of
                  ResumeStarted \<Rightarrow> Inr (a\<lparr>ra_confirmed := successor, ra_phase := ResumeConfirmed\<rparr>)
                | ResumeUnknown \<Rightarrow> Inr (a\<lparr>ra_confirmed := successor, ra_phase := ResumeConfirmed\<rparr>)
                | ResumeConfirmed \<Rightarrow> if ra_confirmed a = successor then Inr a else Inl ErrChanged
                | _ \<Rightarrow> Inl ErrChanged))"

inductive resume_step :: "ResumeAttempt \<Rightarrow> ResumeAttempt \<Rightarrow> bool" where
  mark_started: "MarkStarted (Some a) = Inr a' \<Longrightarrow> resume_step a a'"
| fail_before: "FailBeforeStart (Some a) = Inr a' \<Longrightarrow> resume_step a a'"
| mark_unknown: "MarkUnknown (Some a) = Inr a' \<Longrightarrow> resume_step a a'"
| confirmed: "resume_confirm (Some a) b = Inr a' \<Longrightarrow> resume_step a a'"

definition resume_init :: "ResumeAttempt \<Rightarrow> bool" where
  "resume_init a \<longleftrightarrow> (\<exists>s. ResumeAttemptFrom s = Inr a)"

definition resume_wf :: "ResumeAttempt \<Rightarrow> bool" where
  "resume_wf a \<longleftrightarrow> ResumeAttemptFrom a = Inr a"

text \<open>The phases that an attempt may still reach.\<close>

fun later_phase :: "ResumePhase \<Rightarrow> ResumePhase \<Rightarrow> bool" where
  "later_phase ResumeReserved q = True"
| "later_phase ResumeStarted q \<longleftrightarrow> q = ResumeStarted \<or> q = ResumeUnknown \<or> q = ResumeConfirmed"
| "later_phase ResumeUnknown q \<longleftrightarrow> q = ResumeUnknown \<or> q = ResumeConfirmed"
| "later_phase p q \<longleftrightarrow> q = p"

definition resume_sealed :: "ResumeAttempt \<Rightarrow> ResumeAttempt \<Rightarrow> bool" where
  "resume_sealed a0 a \<longleftrightarrow> ra_request_id a = ra_request_id a0 \<and> ra_binding a = ra_binding a0
     \<and> ra_predecessor_exit_code a = ra_predecessor_exit_code a0 \<and> ra_next a = ra_next a0
     \<and> later_phase (ra_phase a0) (ra_phase a)
     \<and> (ra_phase a0 = ResumeConfirmed \<longrightarrow> ra_confirmed a = ra_confirmed a0)"

text \<open>Each transition either moves the phase forward and keeps everything else, or confirms.\<close>

lemma resume_step_cases:
  assumes "resume_step a a'"
  obtains (phase) p where "a' = a\<lparr>ra_phase := p\<rparr>" "later_phase (ra_phase a) p" "p \<noteq> ResumeConfirmed"
      "\<forall>s. p \<noteq> ResumePhaseOther s" "ra_phase a \<noteq> ResumeConfirmed" "\<forall>s. ra_phase a \<noteq> ResumePhaseOther s"
  | (confirm) b where "matchingResumeBinding a b" "ra_phase a = ResumeStarted \<or> ra_phase a = ResumeUnknown"
      "a' = a\<lparr>ra_confirmed := b, ra_phase := ResumeConfirmed\<rparr>"
  | (same) "a' = a"
  using assms
proof cases
  case mark_started
  then show ?thesis by (intro phase [of ResumeStarted]) (auto simp: MarkStarted_def split: if_splits)
next
  case fail_before
  then show ?thesis by (intro phase [of ResumeFailedBeforeStart]) (auto simp: FailBeforeStart_def split: if_splits)
next
  case mark_unknown
  then show ?thesis by (intro phase [of ResumeUnknown]) (auto simp: MarkUnknown_def split: if_splits)
next
  case (confirmed b)
  then show ?thesis
    using confirm same by (auto simp: resume_confirm_def split: if_splits ResumePhase.splits)
qed

lemma matching_phase_irrelevant:
  "matchingResumeBinding (a\<lparr>ra_phase := p\<rparr>) b = matchingResumeBinding a b"
  "matchingResumeBinding (a\<lparr>ra_confirmed := c\<rparr>) b = matchingResumeBinding a b"
  by (simp_all add: matchingResumeBinding_def split: sum.splits)

lemma resume_step_wf: "resume_wf a \<Longrightarrow> resume_step a a' \<Longrightarrow> resume_wf a'"
proof (erule resume_step_cases)
  fix p
  assume "resume_wf a" "a' = a\<lparr>ra_phase := p\<rparr>" "p \<noteq> ResumeConfirmed" "\<forall>s. p \<noteq> ResumePhaseOther s"
    "ra_phase a \<noteq> ResumeConfirmed" "\<forall>s. ra_phase a \<noteq> ResumePhaseOther s"
  then show ?thesis
    by (auto simp: resume_wf_def ResumeAttemptFrom_def split: if_splits sum.splits ResumePhase.splits)
next
  fix b
  assume "resume_wf a" "matchingResumeBinding a b" "a' = a\<lparr>ra_confirmed := b, ra_phase := ResumeConfirmed\<rparr>"
  then show ?thesis
    by (auto simp: resume_wf_def ResumeAttemptFrom_def matching_phase_irrelevant
        split: if_splits sum.splits ResumePhase.splits)
qed simp

lemma resume_step_sealed: "resume_step a a' \<Longrightarrow> resume_sealed a0 a \<Longrightarrow> resume_sealed a0 a'"
  by (erule resume_step_cases)
    (cases "ra_phase a0"; cases "ra_phase a"; auto simp: resume_sealed_def)+

interpretation resume_machine: sealed_machine resume_init resume_step resume_wf resume_sealed
proof unfold_locales
  show "resume_init a \<Longrightarrow> resume_wf a" for a
    by (auto simp: resume_init_def resume_wf_def ResumeAttemptFrom_def
        split: if_splits sum.splits ResumePhase.splits)
qed (auto intro: resume_step_wf resume_step_sealed)

lemma later_phase_refl: "later_phase p p"
  by (cases p) auto

lemma matching_binding_key:
  "matchingResumeBinding a b \<Longrightarrow> RecoveryBindingOf (ra_binding a) = Inr (ra_binding a) \<Longrightarrow>
    ConversationKey b = ConversationKey (ra_binding a)"
proof -
  assume m: "matchingResumeBinding a b" and a: "RecoveryBindingOf (ra_binding a) = Inr (ra_binding a)"
  obtain c where b: "RecoveryBindingOf b = Inr c"
    and eq: "b\<lparr>rb_identity := rb_identity (ra_binding a), rb_pid := rb_pid (ra_binding a)\<rparr> = ra_binding a"
    using m by (auto simp: matchingResumeBinding_def split: sum.splits if_splits)
  have "hp_host (rb_profile b) = hp_host (rb_profile (ra_binding a))"
    "rb_native_namespace_witness b = rb_native_namespace_witness (ra_binding a)"
    "rb_native_session_id b = rb_native_session_id (ra_binding a)"
    by (subst eq [symmetric], simp)+
  then show ?thesis by (simp add: ConversationKey_def a b)
qed

section \<open>Properties\<close>

text \<open>
  An observed exit is a sealed receipt. Once a reachable recovery record has observed the exit of
  its run, no later observation changes any field of it; before that, only the model of its binding
  can change, never the identity, target, process, native session, history or provider.
\<close>

theorem exit_receipt_sealed:
  assumes "reach recovery_init recovery_step r" "recovery_step\<^sup>*\<^sup>* r r'"
  shows "(rr_exit_observed r \<longrightarrow> r' = r)
    \<and> (rr_binding r')\<lparr>rb_model := rb_model (rr_binding r)\<rparr> = rr_binding r"
proof -
  have wf: "recovery_wf r" using assms(1) by (rule recovery_machine.reach_inv)
  have "recovery_sealed r r" by (simp add: recovery_sealed_def)
  then have "recovery_sealed r r'" by (rule recovery_machine.sealed_forever [OF assms(2) wf])
  then show ?thesis by (auto simp: recovery_sealed_def split: if_splits)
qed

text \<open>
  A resume attempt moves one way. From any reachable attempt, its request, binding, predecessor
  exit code and successor identity never change; a started attempt never becomes reserved or failed,
  an unknown outcome can only be confirmed, and failed and confirmed attempts never change again.
\<close>

theorem resume_one_way:
  assumes "reach resume_init resume_step a" "resume_step\<^sup>*\<^sup>* a a'"
  shows "ra_request_id a' = ra_request_id a \<and> ra_binding a' = ra_binding a \<and> ra_next a' = ra_next a
    \<and> ra_predecessor_exit_code a' = ra_predecessor_exit_code a
    \<and> later_phase (ra_phase a) (ra_phase a')
    \<and> (ra_phase a = ResumeConfirmed \<longrightarrow> ra_confirmed a' = ra_confirmed a)"
proof -
  have wf: "resume_wf a" using assms(1) by (rule resume_machine.reach_inv)
  have "resume_sealed a a" by (simp add: resume_sealed_def later_phase_refl)
  then have "resume_sealed a a'" by (rule resume_machine.sealed_forever [OF assms(2) wf])
  then show ?thesis by (simp add: resume_sealed_def)
qed

text \<open>
  A confirmed resume continues the same conversation. In every reachable confirmed attempt the
  successor has the reserved next identity, which differs from the predecessor in run and
  generation, and agrees with the predecessor in everything but identity and process id; so both
  have the same conversation key.
\<close>

theorem resume_same_conversation:
  assumes "reach resume_init resume_step a" "ra_phase a = ResumeConfirmed"
  shows "rb_identity (ra_confirmed a) = ra_next a
    \<and> li_run (ra_next a) \<noteq> li_run (rb_identity (ra_binding a))
    \<and> li_generation (ra_next a) \<noteq> li_generation (rb_identity (ra_binding a))
    \<and> (ra_confirmed a)\<lparr>rb_identity := rb_identity (ra_binding a), rb_pid := rb_pid (ra_binding a)\<rparr> = ra_binding a
    \<and> ConversationKey (ra_confirmed a) = ConversationKey (ra_binding a)"
proof -
  have "resume_wf a" using assms(1) by (rule resume_machine.reach_inv)
  then have m: "matchingResumeBinding a (ra_confirmed a)" "RecoveryBindingOf (ra_binding a) = Inr (ra_binding a)"
    and n: "li_run (ra_next a) \<noteq> li_run (rb_identity (ra_binding a))"
      "li_generation (ra_next a) \<noteq> li_generation (rb_identity (ra_binding a))"
    using assms(2)
    by (auto simp: resume_wf_def ResumeAttemptFrom_def split: if_splits sum.splits dest: RecoveryBindingOf_Inr)
  show ?thesis
    using m n matching_binding_key [OF m] by (auto simp: matchingResumeBinding_def split: if_splits sum.splits)
qed

text \<open>
  A conversation key identifies the conversation. Two valid bindings with the same key have the
  same host, namespace witness and native session, or they exhibit a SHA-256 collision on the two
  framed triples.
\<close>

theorem conversation_key_binds:
  assumes "RecoveryBindingOf b = Inr b" "RecoveryBindingOf c = Inr c" "ConversationKey b = ConversationKey c"
  shows "(hp_host (rb_profile b) = hp_host (rb_profile c)
      \<and> rb_native_namespace_witness b = rb_native_namespace_witness c
      \<and> rb_native_session_id b = rb_native_session_id c)
    \<or> collision sha256
        (nul_frame [hp_host (rb_profile b), rb_native_namespace_witness b, rb_native_session_id b])
        (nul_frame [hp_host (rb_profile c), rb_native_namespace_witness c, rb_native_session_id c])"
proof -
  have ok: "\<forall>v \<in> set [hp_host (rb_profile x), rb_native_namespace_witness x, rb_native_session_id x]. CHR 0x00 \<notin> set v"
    if valid: "RecoveryBindingOf x = Inr x" for x
  proof -
    obtain p where "HostProfileFrom (rb_profile x) = Inr p" "validMetadataDigest (rb_native_namespace_witness x)"
      "observationCorrelation (rb_native_session_id x) False"
      using valid by (auto simp: RecoveryBindingOf_def LaunchDescriptorOf_def split: if_splits sum.splits)
    then have "known_host (hp_host (rb_profile x))" "CHR 0x00 \<notin> set (rb_native_namespace_witness x)"
      "CHR 0x00 \<notin> set (rb_native_session_id x)"
      by (auto dest: canonical_hex_no_nul correlation_no_nul simp: HostProfileFrom_def validMetadataDigest_canonical split: if_splits sum.splits)
    then show ?thesis by (auto simp: known_host_def)
  qed
  have "identity ''n_'' [hp_host (rb_profile b), rb_native_namespace_witness b, rb_native_session_id b]
      = identity ''n_'' [hp_host (rb_profile c), rb_native_namespace_witness c, rb_native_session_id c]"
    using assms by (simp add: ConversationKey_def)
  from identity_binds [OF ok [OF assms(1)] ok [OF assms(2)] this] show ?thesis by simp
qed

section \<open>Witnesses\<close>

definition ex_recovery :: RecoveryBinding where
  "ex_recovery = \<lparr>rb_identity = ex_identity, rb_target = ex_target, rb_profile = ex_profile, rb_pid = 7,
     rb_native_session_id = ''s'', rb_native_history_path = ''/s'',
     rb_native_namespace_witness = replicate 64 CHR ''d'', rb_model = ''m'', rb_provider = ''p''\<rparr>"

definition ex_next :: LaunchIdentity where
  "ex_next = \<lparr>li_run = replicate 32 CHR ''d'', li_generation = replicate 32 CHR ''e'',
              li_epoch = replicate 32 CHR ''c''\<rparr>"

definition ex_successor :: RecoveryBinding where
  "ex_successor = ex_recovery\<lparr>rb_identity := ex_next, rb_pid := 9\<rparr>"

definition ex_record :: RecoveryRecord where
  "ex_record = \<lparr>rr_binding = ex_recovery, rr_exit_observed = True, rr_exit_code = 0\<rparr>"

definition ex_attempt :: "ResumePhase \<Rightarrow> RecoveryBinding \<Rightarrow> ResumeAttempt" where
  "ex_attempt phase b = \<lparr>ra_request_id = ''r1'', ra_binding = ex_recovery, ra_predecessor_exit_code = 0,
     ra_next = ex_next, ra_phase = phase, ra_confirmed = b\<rparr>"

lemma ex_next_valid: "identity_valid ex_next"
  by (simp add: identity_valid_def ex_next_def replicate_launch_id hex_lower_def char_in_def)

lemma ex_launch_valid: "identity_valid i \<Longrightarrow> \<exists>d. LaunchDescriptorOf i ex_target ex_profile = Inr d"
  using ex_profile_valid ex_worktree_id_nonempty
  by (simp add: LaunchDescriptorOf_def ex_target_def) (simp add: ex_profile_def)

lemma ex_bindings_valid:
  "RecoveryBindingOf ex_recovery = Inr ex_recovery" "RecoveryBindingOf ex_successor = Inr ex_successor"
  using ex_launch_valid [OF ex_identity_valid] ex_launch_valid [OF ex_next_valid]
    replicate_canonical_hex [of "CHR ''d''" 64]
  by (auto simp: RecoveryBindingOf_def ex_recovery_def ex_successor_def observationCorrelation_def
      correlation_char_def is_alnum_def char_in_def ex_paths printable_solid solid_def
      validMetadataDigest_canonical hex_lower_def)

lemma ex_record_reach: "reach recovery_init recovery_step ex_record"
  by (rule reach.reach_init)
    (auto simp: recovery_init_def RecoveryRecordFrom_def ex_bindings_valid ex_record_def intro!: exI [of _ ex_record])

theorem exit_receipt_sealed_witness:
  "projr (ObserveOwnedExit (Some ex_record) (rb_identity ex_recovery) 0) = ex_record"
proof -
  have "ObserveOwnedExit (Some ex_record) (rb_identity ex_recovery) 0
      = Inr (projr (ObserveOwnedExit (Some ex_record) (rb_identity ex_recovery) 0))"
    by (simp add: ObserveOwnedExit_def ex_record_def)
  then have "recovery_step\<^sup>*\<^sup>* ex_record (projr (ObserveOwnedExit (Some ex_record) (rb_identity ex_recovery) 0))"
    by (intro r_into_rtranclp) (rule recovery_step.owned_exit)
  from exit_receipt_sealed [OF ex_record_reach this] show ?thesis by (simp add: ex_record_def)
qed

lemma ex_matching: "matchingResumeBinding (ex_attempt phase b) ex_successor"
  by (simp add: matchingResumeBinding_def ex_bindings_valid)
    (simp add: ex_attempt_def ex_successor_def ex_recovery_def)

lemma ex_attempt_new:
  "NewResumeAttempt ''r1'' (Some ex_record) ex_next = Inr (ex_attempt ResumeReserved zero_binding)"
  by (simp add: NewResumeAttempt_def ex_record_def ResumeAttemptFrom_def ex_bindings_valid ex_attempt_def
      ex_next_valid validControlRequestID_def is_alnum_def char_in_def)
    (simp add: ex_next_def ex_recovery_def ex_identity_def replicate_eq_replicate)

lemma ex_confirm:
  "resume_confirm (Some (ex_attempt ResumeUnknown zero_binding)) ex_successor
      = Inr (ex_attempt ResumeConfirmed ex_successor)"
  by (simp add: resume_confirm_def ex_matching) (simp add: ex_attempt_def)

lemma ex_attempt_reach:
  "reach resume_init resume_step (ex_attempt ResumeUnknown zero_binding)"
  "reach resume_init resume_step (ex_attempt ResumeConfirmed ex_successor)"
proof -
  have "reach resume_init resume_step (ex_attempt ResumeReserved zero_binding)"
    using ex_attempt_new
    by (intro reach.reach_init) (auto simp: resume_init_def NewResumeAttempt_def split: if_splits option.splits)
  moreover have "MarkUnknown (Some (ex_attempt ResumeReserved zero_binding)) = Inr (ex_attempt ResumeUnknown zero_binding)"
    by (simp add: MarkUnknown_def ex_attempt_def)
  ultimately show r: "reach resume_init resume_step (ex_attempt ResumeUnknown zero_binding)"
    by (metis reach.reach_step resume_step.mark_unknown)
  show "reach resume_init resume_step (ex_attempt ResumeConfirmed ex_successor)"
    using ex_confirm r by (metis reach.reach_step resume_step.confirmed)
qed

theorem resume_one_way_witness:
  "ra_next (ex_attempt ResumeConfirmed ex_successor) = ra_next (ex_attempt ResumeUnknown zero_binding)
   \<and> later_phase ResumeUnknown ResumeConfirmed"
proof -
  have "resume_step\<^sup>*\<^sup>* (ex_attempt ResumeUnknown zero_binding) (ex_attempt ResumeConfirmed ex_successor)"
    using ex_confirm by (intro r_into_rtranclp) (rule resume_step.confirmed)
  from resume_one_way [OF ex_attempt_reach(1) this] show ?thesis by (simp add: ex_attempt_def)
qed

theorem resume_same_conversation_witness: "ConversationKey ex_successor = ConversationKey ex_recovery"
  using resume_same_conversation [OF ex_attempt_reach(2)] by (simp add: ex_attempt_def)

theorem conversation_key_binds_witness:
  "rb_native_session_id ex_recovery = rb_native_session_id ex_successor
    \<and> rb_native_namespace_witness ex_recovery = rb_native_namespace_witness ex_successor"
proof -
  have "ConversationKey ex_recovery = ConversationKey ex_successor"
    by (simp add: ConversationKey_def ex_bindings_valid) (simp add: ex_successor_def)
  from conversation_key_binds [OF ex_bindings_valid this] show ?thesis
    by (auto simp: collision_def ex_successor_def)
qed

end
