(* ===== verification/Go_Format.thy ===== *)
theory Go_Format
  imports Go_Codec
begin

text \<open>
  The textual forms of the standard library that the runtime hashes or stores: RFC 3339 times with
  nanoseconds and the JSON strings of \<open>encoding/json\<close>.
\<close>

section \<open>Calendar\<close>

definition leap_year :: "int \<Rightarrow> bool" where
  "leap_year y \<longleftrightarrow> y mod 4 = 0 \<and> (y mod 100 \<noteq> 0 \<or> y mod 400 = 0)"

text \<open>Days from 0001-01-01 to the first day of a year, and the lengths of its months.\<close>

definition days_before_year :: "int \<Rightarrow> int" where
  "days_before_year y = (let p = y - 1 in 365 * p + p div 4 - p div 100 + p div 400)"

definition month_lengths :: "int \<Rightarrow> int list" where
  "month_lengths y = [31, if leap_year y then 29 else 28, 31, 30, 31, 30, 31, 31, 30, 31, 30, 31]"

fun month_day :: "int \<Rightarrow> int list \<Rightarrow> int \<Rightarrow> int \<times> int" where
  "month_day m [] d = (m, d + 1)"
| "month_day m (l # ls) d = (if d < l \<or> ls = [] then (m, d + 1) else month_day (m + 1) ls (d - l))"

definition civil_of_days :: "int \<Rightarrow> int \<times> int \<times> int" where
  "civil_of_days d =
     (let y = year_of_days d; (m, dd) = month_day 1 (month_lengths y) (d - days_before_year y) in (y, m, dd))"

section \<open>Times\<close>

definition pad_int :: "nat \<Rightarrow> int \<Rightarrow> string" where
  "pad_int width n =
     (let digits = itoa (nat \<bar>n\<bar>)
      in (if n < 0 then ''-'' else []) @ replicate (width - length digits) (CHR ''0'') @ digits)"

definition strip_zeros :: "string \<Rightarrow> string" where
  "strip_zeros s = rev (dropWhile (\<lambda>c. c = CHR ''0'') (rev s))"

definition zone_suffix :: "int \<Rightarrow> string" where
  "zone_suffix z =
     (if z = 0 then ''Z''
      else (if z < 0 then ''-'' else ''+'') @ pad_int 2 (\<bar>z\<bar> div 3600) @ '':'' @ pad_int 2 (\<bar>z\<bar> div 60 mod 60))"

definition rfc3339nano :: "gotime \<Rightarrow> string" where
  "rfc3339nano t =
     (let local = wall t + zone t * second; secs = local div second; nanos = local mod second;
          (y, m, d) = civil_of_days (secs div 86400); day = secs mod 86400;
          frac = strip_zeros (pad_int 9 nanos)
      in pad_int 4 y @ ''-'' @ pad_int 2 m @ ''-'' @ pad_int 2 d @ ''T'' @
         pad_int 2 (day div 3600) @ '':'' @ pad_int 2 (day div 60 mod 60) @ '':'' @ pad_int 2 (day mod 60) @
         (if nanos = 0 then [] else ''.'' @ frac) @ zone_suffix (zone t))"

section \<open>JSON strings\<close>

text \<open>
  The string literal that \<open>encoding/json\<close> writes for ASCII text, with the HTML characters escaped.
  The code only encodes values whose syntax it restricted to printable ASCII before.
\<close>

definition json_char :: "char \<Rightarrow> string" where
  "json_char c =
     (if c = CHR 0x22 then [CHR 0x5C, CHR 0x22]
      else if c = CHR 0x5C then [CHR 0x5C, CHR 0x5C]
      else if c = CHR 0x08 then [CHR 0x5C, CHR ''b'']
      else if c = CHR 0x0C then [CHR 0x5C, CHR ''f'']
      else if c = CHR 0x0A then [CHR 0x5C, CHR ''n'']
      else if c = CHR 0x0D then [CHR 0x5C, CHR ''r'']
      else if c = CHR 0x09 then [CHR 0x5C, CHR ''t'']
      else if ord c < 0x20 \<or> c = CHR ''<'' \<or> c = CHR ''>'' \<or> c = CHR ''&''
      then [CHR 0x5C, CHR ''u'', CHR ''0'', CHR ''0''] @ hex_encode [c]
      else [c])"

definition json_string :: "string \<Rightarrow> string" where
  "json_string s = [CHR 0x22] @ concat (map json_char s) @ [CHR 0x22]"

definition json_object :: "(string \<times> string) list \<Rightarrow> string" where
  "json_object fields = ''{'' @ join '','' (map (\<lambda>(k, v). json_string k @ '':'' @ v) fields) @ ''}''"

definition json_bool :: "bool \<Rightarrow> string" where
  "json_bool b = (if b then ''true'' else ''false'')"

text \<open>\<open>Time.MarshalJSON\<close> refuses years outside [0, 9999].\<close>

definition json_time :: "gotime \<Rightarrow> string option" where
  "json_time t = (if 0 \<le> year t \<and> year t \<le> 9999 then Some (json_string (rfc3339nano t)) else None)"

end
