(* ===== verification/Rt_Projection.thy ===== *)
theory Rt_Projection
  imports Rt_Observation Go_Format
begin

text \<open>
  The projection of observed interaction (\<open>domain/runtime/projection.go\<close>): causal and expiry rules
  for what is known about a managed conversation. Methods change their receiver also on paths that
  return an error, so they return the new projection together with the result. Durations are
  nanoseconds; a clock reading that the code accepts is not negative, so differences of accepted
  readings do not overflow.
\<close>

section \<open>Values\<close>

definition MaxProjectionEvents :: nat where "MaxProjectionEvents = 256"
definition InteractionTTL :: int where "InteractionTTL = 60 * second"

record ProjectionSelection =
  sel_identity :: LaunchIdentity
  sel_worktree :: string
  sel_profile :: string

definition selection_valid :: "ProjectionSelection \<Rightarrow> bool" where
  "selection_valid b \<longleftrightarrow>
     (let w = sel_worktree b
      in if \<not> identity_valid (sel_identity b) \<or> length w \<noteq> 66 \<or> \<not> prefix ''w_'' w \<or> w \<noteq> map to_lower w
         then False
         else if hex_decode (drop 2 w) = None then False
         else case ProfileIDFrom (sel_profile b) of Inl _ \<Rightarrow> False | Inr _ \<Rightarrow> True)"

record ProjectionClock =
  elapsed :: int
  clock_wall :: gotime

datatype ProjectionKind =
    ProjectionUnknown | ProjectionWorking | ProjectionWaiting | ProjectionStop | ProjectionApproval
  | ProjectionKindOther string

datatype ProjectionReason =
    ProjectionNoReason | ProjectionGap | ProjectionSleepWake | ProjectionRestart | ProjectionExpired
  | ProjectionClockReversal | ProjectionConflict | ProjectionCausality | ProjectionCapacity
  | ProjectionProcessInactive | ProjectionReasonOther string

datatype CaptureHealth = CaptureUnknown | CaptureHealthy | CaptureDegraded | CaptureHealthOther string

datatype ConnectionHealth =
    ConnectionUnknown | ConnectionConnected | ConnectionDisconnected | ConnectionHealthOther string

record ProjectionEventState =
  ev_selection :: ProjectionSelection
  ev_source :: string
  ev_event_id :: string
  ev_native_session_id :: string
  ev_turn_id :: string
  ev_request_id :: string
  ev_source_version :: string
  ev_boundary :: ObservationKind
  ev_kind :: ProjectionKind
  ev_received :: ProjectionClock
  ev_host_time :: gotime
  ev_has_host_time :: bool

record ProjectionEvent =
  pe_state :: ProjectionEventState
  pe_key :: string
  pe_fingerprint :: string
  pe_valid :: bool

fun boundary_string :: "ObservationKind \<Rightarrow> string" where
  "boundary_string ObservationPromptBoundary = ''prompt_boundary''"
| "boundary_string ObservationToolBoundary = ''tool_boundary''"
| "boundary_string ObservationTurnBoundary = ''turn_boundary''"
| "boundary_string ObservationSessionBoundary = ''session_boundary''"
| "boundary_string (ObservationKindOther s) = s"

fun kind_string :: "ProjectionKind \<Rightarrow> string" where
  "kind_string ProjectionUnknown = ''unknown''"
| "kind_string ProjectionWorking = ''working''"
| "kind_string ProjectionWaiting = ''waiting''"
| "kind_string ProjectionStop = ''stop''"
| "kind_string ProjectionApproval = ''approval''"
| "kind_string (ProjectionKindOther s) = s"

text \<open>
  \<open>json.Marshal\<close> of the event content, whose receipt clock was cleared to the zero value before.
\<close>

definition event_json :: "ProjectionEventState \<Rightarrow> string option" where
  "event_json s =
     map_option (\<lambda>host_time. json_object
       [(''Selection'', json_object
          [(''Identity'', json_object
             [(''Run'', json_string (li_run (sel_identity (ev_selection s)))),
              (''Generation'', json_string (li_generation (sel_identity (ev_selection s)))),
              (''Epoch'', json_string (li_epoch (sel_identity (ev_selection s))))]),
           (''Worktree'', json_string (sel_worktree (ev_selection s))),
           (''Profile'', json_string (sel_profile (ev_selection s)))]),
        (''Source'', json_string (ev_source s)),
        (''EventID'', json_string (ev_event_id s)),
        (''NativeSessionID'', json_string (ev_native_session_id s)),
        (''TurnID'', json_string (ev_turn_id s)),
        (''RequestID'', json_string (ev_request_id s)),
        (''SourceVersion'', json_string (ev_source_version s)),
        (''Boundary'', json_string (boundary_string (ev_boundary s))),
        (''Kind'', json_string (kind_string (ev_kind s))),
        (''Received'', json_object
          [(''Elapsed'', ''0''), (''Wall'', json_string (rfc3339nano zero_time))]),
        (''HostTime'', host_time),
        (''HasHostTime'', json_bool (ev_has_host_time s))])
     (json_time (ev_host_time s))"

definition ProjectionEventOf :: "ProjectionEventState \<Rightarrow> ProjectionEvent rt" where
  "ProjectionEventOf s =
     (if \<not> selection_valid (ev_selection s) \<or> elapsed (ev_received s) < 0
         \<or> is_zero (clock_wall (ev_received s)) \<or> year (clock_wall (ev_received s)) < 1
         \<or> year (clock_wall (ev_received s)) > 9999 \<or> \<not> printableLaunchValue (ev_source_version s) 256
      then Inl ErrInvalid
      else if \<not> known_host (ev_source s) then Inl ErrInvalid
      else if \<not> observationCorrelation (ev_event_id s) False \<or> \<not> observationCorrelation (ev_native_session_id s) True
              \<or> \<not> observationCorrelation (ev_turn_id s) True \<or> \<not> observationCorrelation (ev_request_id s) True
      then Inl ErrInvalid
      else if (case ev_kind s of ProjectionKindOther _ \<Rightarrow> True | _ \<Rightarrow> False) then Inl ErrInvalid
      else if (case ev_boundary s of ObservationKindOther b \<Rightarrow> b \<noteq> '''' | _ \<Rightarrow> False) then Inl ErrInvalid
      else if ev_has_host_time s = is_zero (ev_host_time s) then Inl ErrInvalid
      else let s' = s\<lparr>ev_host_time := utc (round0 (ev_host_time s)),
                      ev_received := (ev_received s)\<lparr>clock_wall := utc (round0 (clock_wall (ev_received s)))\<rparr>\<rparr>
           in case event_json s' of
                None \<Rightarrow> Inl ErrInvalid
              | Some encoded \<Rightarrow>
                  Inr \<lparr>pe_state = s', pe_key = sha256 (ev_source s' @ [CHR 0x00] @ ev_event_id s'),
                       pe_fingerprint = sha256 encoded, pe_valid = True\<rparr>)"

record NativeProjectionEvidence =
  ne_event :: ProjectionEvent
  ne_revision :: uint64
  ne_sequence :: uint64
  ne_previous_event_id :: string

record ProjectionAttention =
  at_source :: string
  at_event_id :: string
  at_revision :: uint64

record ProjectionSnapshot =
  ps_refresh_after :: int
  ps_selection :: ProjectionSelection
  ps_version :: uint64
  ps_continuity_revision :: uint64
  ps_process :: RunState
  ps_interaction :: ProjectionKind
  ps_reason :: ProjectionReason
  ps_capture_health :: CaptureHealth
  ps_connection_health :: ConnectionHealth
  ps_last_event :: ProjectionEventState
  ps_last_waiting :: ProjectionEventState
  ps_has_last_event :: bool
  ps_has_last_waiting :: bool
  ps_last_waiting_stale :: bool
  ps_exhausted :: bool
  ps_attention :: ProjectionAttention

record projectionReceipt =
  pr_fingerprint :: string
  pr_native :: bool
  pr_sequence :: uint64
  pr_previous :: string

record ObservationProjection =
  op_state :: ProjectionSnapshot
  op_seen :: "(string \<times> projectionReceipt) list"
  op_last_clock :: int
  op_accepted_at :: int
  op_clock_seen :: bool
  op_sequence :: uint64
  op_anchor_id :: string
  op_native_session :: string
  op_source :: string

text \<open>The zero value of an event, as in a projection that has seen none.\<close>

definition zero_event_state :: ProjectionEventState where
  "zero_event_state =
     \<lparr>ev_selection = \<lparr>sel_identity = \<lparr>li_run = '''', li_generation = '''', li_epoch = ''''\<rparr>,
                      sel_worktree = '''', sel_profile = ''''\<rparr>,
      ev_source = '''', ev_event_id = '''', ev_native_session_id = '''', ev_turn_id = '''', ev_request_id = '''',
      ev_source_version = '''', ev_boundary = ObservationKindOther '''', ev_kind = ProjectionKindOther '''',
      ev_received = \<lparr>elapsed = 0, clock_wall = zero_time\<rparr>, ev_host_time = zero_time, ev_has_host_time = False\<rparr>"

section \<open>Operations\<close>

definition projectionProcess :: "RunState \<Rightarrow> bool" where
  "projectionProcess s \<longleftrightarrow> s = RunReserved \<or> s = RunLive \<or> s = RunExited"

definition NewObservationProjection :: "ProjectionSelection \<Rightarrow> RunState \<Rightarrow> ObservationProjection rt" where
  "NewObservationProjection b process =
     (if \<not> selection_valid b \<or> \<not> projectionProcess process then Inl ErrInvalid
      else Inr \<lparr>op_state =
                  \<lparr>ps_refresh_after = 0, ps_selection = b, ps_version = 1, ps_continuity_revision = 1,
                   ps_process = process, ps_interaction = ProjectionUnknown, ps_reason = ProjectionNoReason,
                   ps_capture_health = CaptureUnknown, ps_connection_health = ConnectionUnknown,
                   ps_last_event = zero_event_state, ps_last_waiting = zero_event_state,
                   ps_has_last_event = False, ps_has_last_waiting = False, ps_last_waiting_stale = False,
                   ps_exhausted = False, ps_attention = \<lparr>at_source = '''', at_event_id = '''', at_revision = 0\<rparr>\<rparr>,
                op_seen = [], op_last_clock = 0, op_accepted_at = 0, op_clock_seen = False, op_sequence = 0,
                op_anchor_id = '''', op_native_session = '''', op_source = ''''\<rparr>)"

abbreviation upd_state :: "(ProjectionSnapshot \<Rightarrow> ProjectionSnapshot) \<Rightarrow> ObservationProjection \<Rightarrow> ObservationProjection" where
  "upd_state f p \<equiv> p\<lparr>op_state := f (op_state p)\<rparr>"

definition unknown :: "ProjectionReason \<Rightarrow> ObservationProjection \<Rightarrow> ObservationProjection" where
  "unknown reason p =
     upd_state (\<lambda>s. s\<lparr>ps_interaction := ProjectionUnknown, ps_reason := reason,
                      ps_last_waiting_stale := ps_has_last_waiting s\<rparr>) p"

definition changed :: "ObservationProjection \<Rightarrow> ObservationProjection" where
  "changed p =
     (if ps_version (op_state p) = max_uint64
      then unknown ProjectionCapacity (upd_state (\<lambda>s. s\<lparr>ps_exhausted := True\<rparr>) p)
      else upd_state (\<lambda>s. s\<lparr>ps_version := ps_version s + 1\<rparr>) p)"

definition projection_invalidate :: "ObservationProjection \<Rightarrow> ProjectionReason \<Rightarrow> ObservationProjection" where
  "projection_invalidate p reason0 =
     (let reason = (if reason0 \<in> {ProjectionGap, ProjectionSleepWake, ProjectionRestart, ProjectionClockReversal}
                    then reason0 else ProjectionGap);
          q = (if ps_continuity_revision (op_state p) = max_uint64
               then upd_state (\<lambda>s. s\<lparr>ps_exhausted := True\<rparr>) p
               else upd_state (\<lambda>s. s\<lparr>ps_continuity_revision := ps_continuity_revision s + 1\<rparr>) p)
      in changed (unknown reason q))"

definition advance :: "ObservationProjection \<Rightarrow> ProjectionClock \<Rightarrow> ObservationProjection \<times> bool" where
  "advance p now =
     (if elapsed now < 0 \<or> is_zero (clock_wall now) \<or> (op_clock_seen p \<and> elapsed now < op_last_clock p)
      then (projection_invalidate p ProjectionClockReversal, False)
      else let q = p\<lparr>op_clock_seen := True, op_last_clock := elapsed now\<rparr>
           in if ps_interaction (op_state q) \<noteq> ProjectionUnknown \<and> elapsed now - op_accepted_at q \<ge> InteractionTTL
              then (changed (unknown ProjectionExpired q), True)
              else (q, True))"

definition projection_snapshot :: "ObservationProjection \<Rightarrow> ProjectionClock \<Rightarrow> ObservationProjection \<times> ProjectionSnapshot" where
  "projection_snapshot p now =
     (let q = fst (advance p now); s = op_state q
      in (q, if ps_interaction s \<noteq> ProjectionUnknown
             then s\<lparr>ps_refresh_after := InteractionTTL - (elapsed now - op_accepted_at q)\<rparr> else s))"

definition intake :: "ObservationProjection \<Rightarrow> ProjectionEvent \<Rightarrow> ProjectionClock \<Rightarrow> ObservationProjection \<times> bool rt" where
  "intake p e now =
     (if ev_selection (pe_state e) \<noteq> ps_selection (op_state p) then (p, Inl ErrChanged)
      else if \<not> pe_valid e then (p, Inl ErrInvalid)
      else let (q, ok) = advance p now
           in if \<not> ok then (q, Inl ErrChanged)
              else if elapsed (ev_received (pe_state e)) > elapsed now
              then (changed (unknown ProjectionCausality q), Inl ErrChanged)
              else if ps_exhausted (op_state q) then (q, Inl ErrLimit)
              else (case map_of (op_seen q) (pe_key e) of
                      Some old \<Rightarrow>
                        if pr_fingerprint old \<noteq> pe_fingerprint e
                        then (changed (unknown ProjectionConflict q), Inl ErrChanged)
                        else (q, Inr False)
                    | None \<Rightarrow>
                        if length (op_seen q) \<ge> MaxProjectionEvents
                        then (changed (unknown ProjectionCapacity (upd_state (\<lambda>s. s\<lparr>ps_exhausted := True\<rparr>) q)), Inl ErrLimit)
                        else (changed (upd_state (\<lambda>s. s\<lparr>ps_last_event := pe_state e, ps_has_last_event := True\<rparr>)
                                (q\<lparr>op_seen := AList.update (pe_key e)
                                     \<lparr>pr_fingerprint = pe_fingerprint e, pr_native = False, pr_sequence = 0, pr_previous = ''''\<rparr>
                                     (op_seen q)\<rparr>)), Inr True)))"

definition ObserveUnbound :: "ObservationProjection \<Rightarrow> ProjectionEvent \<Rightarrow> ProjectionClock \<Rightarrow> ObservationProjection \<times> unit rt" where
  "ObserveUnbound p e now =
     (if \<not> pe_valid e then (p, Inl ErrInvalid)
      else if ev_selection (pe_state e) \<noteq> ps_selection (op_state p) then (p, Inl ErrChanged)
      else let (q, ok) = advance p now
           in if \<not> ok then (q, Inl ErrChanged)
              else if elapsed (ev_received (pe_state e)) > elapsed now then (q, Inl ErrChanged)
              else (changed (upd_state (\<lambda>s. s\<lparr>ps_last_event := pe_state e, ps_has_last_event := True\<rparr>) q), Inr ()))"

text \<open>The end of \<open>ReconcileNative\<close>: the interaction that a causal, current event establishes.\<close>

definition establish :: "ObservationProjection \<Rightarrow> ProjectionEventState \<Rightarrow> ObservationProjection" where
  "establish p e =
     (let previous = ps_interaction (op_state p);
          p1 = p\<lparr>op_accepted_at := elapsed (ev_received e)\<rparr>;
          known = ev_kind e = ProjectionWorking \<or> ev_kind e = ProjectionWaiting;
          attention = (known \<and> ev_kind e = ProjectionWaiting \<and> previous \<noteq> ProjectionWaiting);
          p2 = (if known
                then upd_state (\<lambda>s. s\<lparr>ps_interaction := ev_kind e, ps_reason := ProjectionNoReason,
                       ps_last_waiting_stale := (ps_has_last_waiting s \<and> ev_kind e \<noteq> ProjectionWaiting)\<rparr>) p1
                else unknown ProjectionCausality p1);
          p3 = changed p2
      in if attention \<and> \<not> ps_exhausted (op_state p3)
         then upd_state (\<lambda>s. s\<lparr>ps_attention := \<lparr>at_source = ev_source e, at_event_id = ev_event_id e,
                                                at_revision = ps_version s\<rparr>\<rparr>) p3
         else p3)"

text \<open>What follows in \<open>ReconcileNative\<close> once the event entered the ledger of native events.\<close>

definition reconcile_fresh ::
  "ObservationProjection \<Rightarrow> NativeProjectionEvidence \<Rightarrow> ProjectionClock \<Rightarrow> ObservationProjection \<times> unit rt" where
  "reconcile_fresh p n now =
     (let e = pe_state (ne_event n)
      in if op_sequence p > 0 \<and> (ev_source e \<noteq> op_source p \<or> ev_native_session_id e \<noteq> op_native_session p)
         then (changed (unknown ProjectionCausality p), Inl ErrChanged)
         else if ne_sequence n < op_sequence p then (p, Inr ())
         else if ne_sequence n = op_sequence p
         then (changed (unknown ProjectionCausality p), Inl ErrChanged)
         else let causal = (ne_previous_event_id n = op_anchor_id p);
                  q = p\<lparr>op_sequence := ne_sequence n, op_anchor_id := ev_event_id e,
                        op_native_session := ev_native_session_id e, op_source := ev_source e\<rparr>
              in if \<not> causal then (changed (unknown ProjectionCausality q), Inl ErrChanged)
                 else let q1 = (if ev_kind e = ProjectionWaiting
                                then upd_state (\<lambda>s. s\<lparr>ps_last_waiting := e, ps_has_last_waiting := True,
                                                       ps_last_waiting_stale := True\<rparr>) q
                                else q)
                      in if ps_process (op_state q1) \<noteq> RunLive
                         then (changed (unknown ProjectionProcessInactive q1), Inr ())
                         else if elapsed now - elapsed (ev_received e) \<ge> InteractionTTL
                         then (changed (unknown ProjectionExpired q1), Inr ())
                         else (establish q1 e, Inr ()))"

definition ReconcileNative ::
  "ObservationProjection \<Rightarrow> NativeProjectionEvidence \<Rightarrow> ProjectionClock \<Rightarrow> ObservationProjection \<times> unit rt" where
  "ReconcileNative p n now =
     (if ev_selection (pe_state (ne_event n)) \<noteq> ps_selection (op_state p) then (p, Inl ErrChanged)
      else if ne_revision n \<noteq> ps_continuity_revision (op_state p)
      then (changed (unknown ProjectionCausality p), Inl ErrChanged)
      else if ne_sequence n = 0 \<or> \<not> observationCorrelation (ne_previous_event_id n) True
              \<or> ev_native_session_id (pe_state (ne_event n)) = ''''
      then (changed (unknown ProjectionCausality p), Inl ErrChanged)
      else case intake p (ne_event n) now of
             (q, Inl err) \<Rightarrow> (q, Inl err)
           | (q, Inr fresh) \<Rightarrow>
               let old = (case map_of (op_seen q) (pe_key (ne_event n)) of
                            Some r \<Rightarrow> r
                          | None \<Rightarrow> \<lparr>pr_fingerprint = replicate 32 (CHR 0x00), pr_native = False, pr_sequence = 0, pr_previous = ''''\<rparr>)
               in if \<not> fresh
                  then if pr_native old \<and> (pr_sequence old \<noteq> ne_sequence n \<or> pr_previous old \<noteq> ne_previous_event_id n)
                       then (changed (unknown ProjectionConflict q), Inl ErrChanged)
                       else (q, Inr ())
                  else reconcile_fresh
                         (q\<lparr>op_seen := AList.update (pe_key (ne_event n))
                              (old\<lparr>pr_native := True, pr_sequence := ne_sequence n, pr_previous := ne_previous_event_id n\<rparr>)
                              (op_seen q)\<rparr>) n now)"

definition UpdateProcess :: "ObservationProjection \<Rightarrow> RunState \<Rightarrow> ObservationProjection rt" where
  "UpdateProcess p s =
     (if \<not> projectionProcess s then Inl ErrInvalid
      else if (ps_process (op_state p) = RunExited \<and> s \<noteq> RunExited)
              \<or> (ps_process (op_state p) = RunLive \<and> s = RunReserved) then Inl ErrChanged
      else if ps_process (op_state p) \<noteq> s
      then let q = upd_state (\<lambda>st. st\<lparr>ps_process := s\<rparr>) p
           in Inr (changed (if s \<noteq> RunLive then unknown ProjectionProcessInactive q else q))
      else Inr p)"

definition UpdateCapture :: "ObservationProjection \<Rightarrow> CaptureHealth \<Rightarrow> ObservationProjection rt" where
  "UpdateCapture p s =
     (if (case s of CaptureHealthOther _ \<Rightarrow> True | _ \<Rightarrow> False) then Inl ErrInvalid
      else if s \<noteq> ps_capture_health (op_state p)
      then Inr (changed (upd_state (\<lambda>st. st\<lparr>ps_capture_health := s\<rparr>) p))
      else Inr p)"

definition UpdateConnection :: "ObservationProjection \<Rightarrow> ConnectionHealth \<Rightarrow> ObservationProjection rt" where
  "UpdateConnection p s =
     (if (case s of ConnectionHealthOther _ \<Rightarrow> True | _ \<Rightarrow> False) then Inl ErrInvalid
      else if s \<noteq> ps_connection_health (op_state p)
      then Inr (changed (upd_state (\<lambda>st. st\<lparr>ps_connection_health := s\<rparr>) p))
      else Inr p)"

section \<open>The projection as a machine\<close>

text \<open>Any call on the projection is a step, also one that returns an error.\<close>

inductive projection_step :: "ObservationProjection \<Rightarrow> ObservationProjection \<Rightarrow> bool" where
  snapshot: "projection_snapshot p now = (q, s) \<Longrightarrow> projection_step p q"
| invalidate: "projection_invalidate p reason = q \<Longrightarrow> projection_step p q"
| unbound: "ObserveUnbound p e now = (q, result) \<Longrightarrow> projection_step p q"
| native: "ReconcileNative p n now = (q, result) \<Longrightarrow> projection_step p q"
| process: "UpdateProcess p s = Inr q \<Longrightarrow> projection_step p q"
| capture: "UpdateCapture p c = Inr q \<Longrightarrow> projection_step p q"
| connection: "UpdateConnection p h = Inr q \<Longrightarrow> projection_step p q"

definition projection_init :: "ObservationProjection \<Rightarrow> bool" where
  "projection_init p \<longleftrightarrow> (\<exists>b process. NewObservationProjection b process = Inr p)"

text \<open>The part of the invariant that holds even in the middle of an operation.\<close>

definition projection_base :: "ObservationProjection \<Rightarrow> bool" where
  "projection_base p \<longleftrightarrow> distinct (keys (op_seen p)) \<and> length (op_seen p) \<le> MaxProjectionEvents
     \<and> ps_version (op_state p) \<noteq> 0 \<and> ps_continuity_revision (op_state p) \<noteq> 0
     \<and> (ps_has_last_waiting (op_state p) \<longrightarrow> ev_kind (ps_last_waiting (op_state p)) = ProjectionWaiting)"

text \<open>
  What is known is known of a live process, by evidence not older than the time to live, and the
  flag on the last waiting event says whether the interaction is still that event.
\<close>

definition projection_wf :: "ObservationProjection \<Rightarrow> bool" where
  "projection_wf p \<longleftrightarrow> projection_base p
     \<and> ps_last_waiting_stale (op_state p)
         = (ps_has_last_waiting (op_state p) \<and> ps_interaction (op_state p) \<noteq> ProjectionWaiting)
     \<and> (ps_interaction (op_state p) = ProjectionWaiting \<longrightarrow> ps_has_last_waiting (op_state p))
     \<and> (ps_interaction (op_state p) \<noteq> ProjectionUnknown \<longrightarrow>
          (ps_interaction (op_state p) = ProjectionWorking \<or> ps_interaction (op_state p) = ProjectionWaiting)
          \<and> ps_process (op_state p) = RunLive \<and> \<not> ps_exhausted (op_state p) \<and> op_clock_seen p
          \<and> op_accepted_at p \<le> op_last_clock p \<and> op_last_clock p - op_accepted_at p < InteractionTTL)"

text \<open>What no operation takes back.\<close>

definition moves_on :: "ObservationProjection \<Rightarrow> ObservationProjection \<Rightarrow> bool" where
  "moves_on p q \<longleftrightarrow> (ps_exhausted (op_state p) \<longrightarrow> ps_exhausted (op_state q))
     \<and> unat (ps_continuity_revision (op_state p)) \<le> unat (ps_continuity_revision (op_state q))
     \<and> ps_selection (op_state q) = ps_selection (op_state p)
     \<and> (ps_process (op_state p) = RunExited \<longrightarrow> ps_process (op_state q) = RunExited)"

text \<open>An operation that adds no knowledge: the interaction stays or becomes unknown.\<close>

definition no_gain :: "ObservationProjection \<Rightarrow> ObservationProjection \<Rightarrow> bool" where
  "no_gain p q \<longleftrightarrow>
     (ps_interaction (op_state q) = ps_interaction (op_state p) \<or> ps_interaction (op_state q) = ProjectionUnknown)
     \<and> op_accepted_at q = op_accepted_at p \<and> ps_attention (op_state q) = ps_attention (op_state p)
     \<and> ps_last_waiting (op_state q) = ps_last_waiting (op_state p)
     \<and> ps_has_last_waiting (op_state q) = ps_has_last_waiting (op_state p)
     \<and> op_seen q = op_seen p \<and> op_sequence q = op_sequence p \<and> op_anchor_id q = op_anchor_id p"

lemma no_gain_trans: "no_gain p q \<Longrightarrow> no_gain q r \<Longrightarrow> no_gain p r"
  by (auto simp: no_gain_def)

lemma moves_on_trans: "moves_on p q \<Longrightarrow> moves_on q r \<Longrightarrow> moves_on p r"
  by (auto simp: moves_on_def)

lemma no_gain_refl [simp]: "no_gain p p"
  by (simp add: no_gain_def)

lemma moves_on_refl [simp]: "moves_on p p"
  by (simp add: moves_on_def)

lemma unknown_wf: "projection_base p \<Longrightarrow> projection_wf (unknown r p)"
  by (simp add: projection_wf_def projection_base_def unknown_def)

lemma unknown_gain [simp]: "no_gain p (unknown r p)" "moves_on p (unknown r p)"
  by (simp_all add: no_gain_def moves_on_def unknown_def)

lemma changed_wf: "projection_wf p \<Longrightarrow> projection_wf (changed p)"
  by (auto simp: projection_wf_def projection_base_def changed_def unknown_def inc_uint64_nonzero)

lemma changed_gain [simp]: "no_gain p (changed p)" "moves_on p (changed p)"
  by (simp_all add: no_gain_def moves_on_def changed_def unknown_def)

lemma changed_unknown_wf: "projection_base p \<Longrightarrow> projection_wf (changed (unknown r p))"
  by (intro changed_wf unknown_wf)

lemma changed_unknown_gain [simp]: "no_gain p (changed (unknown r p))" "moves_on p (changed (unknown r p))"
  by (rule no_gain_trans [of _ "unknown r p"], simp, simp)
    (rule moves_on_trans [of _ "unknown r p"], simp, simp)

lemma wf_base: "projection_wf p \<Longrightarrow> projection_base p"
  by (simp add: projection_wf_def)

lemma invalidate_wf: "projection_wf p \<Longrightarrow> projection_wf (projection_invalidate p r)"
  unfolding projection_invalidate_def Let_def
  by (rule changed_unknown_wf) (auto simp: projection_wf_def projection_base_def inc_uint64_nonzero)

lemma invalidate_gain: "no_gain p (projection_invalidate p r)" "moves_on p (projection_invalidate p r)"
proof -
  let ?q = "if ps_continuity_revision (op_state p) = max_uint64
               then upd_state (\<lambda>s. s\<lparr>ps_exhausted := True\<rparr>) p
               else upd_state (\<lambda>s. s\<lparr>ps_continuity_revision := ps_continuity_revision s + 1\<rparr>) p"
  have "no_gain p ?q" "moves_on p ?q" by (simp_all add: no_gain_def moves_on_def unat_inc_uint64)
  then show "no_gain p (projection_invalidate p r)" "moves_on p (projection_invalidate p r)"
    unfolding projection_invalidate_def Let_def
    by (blast intro: no_gain_trans moves_on_trans changed_unknown_gain)+
qed

lemma invalidate_supersedes:
  "ps_exhausted (op_state (projection_invalidate p r)) \<or>
   unat (ps_continuity_revision (op_state p)) < unat (ps_continuity_revision (op_state (projection_invalidate p r)))"
  by (simp add: projection_invalidate_def changed_def unknown_def Let_def unat_inc_uint64)

text \<open>The clock: an accepted reading is recorded, and knowledge that is too old is dropped.\<close>

lemma advance_gain: "no_gain p (fst (advance p now))" "moves_on p (fst (advance p now))"
proof -
  let ?q = "p\<lparr>op_clock_seen := True, op_last_clock := elapsed now\<rparr>"
  have q: "no_gain p ?q" "moves_on p ?q" by (simp_all add: no_gain_def moves_on_def)
  show "no_gain p (fst (advance p now))"
    using q(1) invalidate_gain(1) by (auto simp: advance_def Let_def intro: no_gain_trans)
  show "moves_on p (fst (advance p now))"
    using q(2) invalidate_gain(2) by (auto simp: advance_def Let_def intro: moves_on_trans)
qed

lemma advance_wf:
  assumes "projection_wf p"
  shows "projection_wf (fst (advance p now))"
proof -
  let ?q = "p\<lparr>op_clock_seen := True, op_last_clock := elapsed now\<rparr>"
  have b: "projection_base ?q" using assms by (simp add: projection_wf_def projection_base_def)
  show ?thesis
  proof (cases "elapsed now < 0 \<or> is_zero (clock_wall now) \<or> (op_clock_seen p \<and> elapsed now < op_last_clock p)")
    case True
    then show ?thesis using invalidate_wf [OF assms] by (simp add: advance_def)
  next
    case False
    show ?thesis
    proof (cases "ps_interaction (op_state p) \<noteq> ProjectionUnknown \<and> elapsed now - op_accepted_at p \<ge> InteractionTTL")
      case True
      then show ?thesis using False changed_unknown_wf [OF b] by (auto simp: advance_def Let_def)
    next
      case fresh: False
      have "projection_wf ?q" using assms b False fresh by (auto simp: projection_wf_def)
      then show ?thesis using False fresh by (auto simp: advance_def Let_def)
    qed
  qed
qed

lemma advance_accepts:
  "advance p now = (q, True) \<Longrightarrow> op_clock_seen q \<and> op_last_clock q = elapsed now"
  by (auto simp: advance_def Let_def changed_def unknown_def split: if_splits)

section \<open>Events\<close>

lemma intake_wf: "projection_wf p \<Longrightarrow> projection_wf (fst (intake p e now))"
proof -
  assume "projection_wf p"
  then have q: "projection_wf (fst (advance p now))" by (rule advance_wf)
  let ?q = "fst (advance p now)"
  have x: "projection_base (upd_state (\<lambda>s. s\<lparr>ps_exhausted := True\<rparr>) ?q)"
    using q by (simp add: projection_wf_def projection_base_def)
  have seen: "projection_wf (upd_state (\<lambda>s. s\<lparr>ps_last_event := pe_state e, ps_has_last_event := True\<rparr>)
      (?q\<lparr>op_seen := AList.update (pe_key e) r (op_seen ?q)\<rparr>))"
    if "map_of (op_seen ?q) (pe_key e) = None" "length (op_seen ?q) < MaxProjectionEvents" for r
    using q that by (auto simp: projection_wf_def projection_base_def map_of_None_keys length_update_fresh distinct_update)
  show ?thesis
    using \<open>projection_wf p\<close> q x seen wf_base [OF q] changed_wf changed_unknown_wf
    by (auto simp: intake_def split: prod.splits option.splits)
qed

lemma intake_moves_on: "moves_on p (fst (intake p e now))"
proof -
  let ?q = "fst (advance p now)"
  have "moves_on ?q (upd_state (\<lambda>s. s\<lparr>ps_exhausted := True\<rparr>) ?q)" by (simp add: moves_on_def)
  then have x: "moves_on ?q (changed (unknown r (upd_state (\<lambda>s. s\<lparr>ps_exhausted := True\<rparr>) ?q)))" for r
    by (rule moves_on_trans) simp
  have "moves_on ?q (upd_state (\<lambda>s. s\<lparr>ps_last_event := pe_state e, ps_has_last_event := True\<rparr>) (?q\<lparr>op_seen := m\<rparr>))" for m
    by (simp add: moves_on_def)
  then have y: "moves_on ?q (changed (upd_state (\<lambda>s. s\<lparr>ps_last_event := pe_state e, ps_has_last_event := True\<rparr>)
      (?q\<lparr>op_seen := m\<rparr>)))" for m
    using changed_gain(2) by (rule moves_on_trans)
  show ?thesis
    using advance_gain(2) [of p now] x y
    by (auto simp: intake_def split: prod.splits option.splits intro: moves_on_trans)
qed

text \<open>A fresh event was not seen before; an event that was seen adds no knowledge.\<close>

lemma intake_fresh:
  assumes "intake p e now = (q, Inr True)"
  shows "op_clock_seen q \<and> op_last_clock q = elapsed now \<and> elapsed (ev_received (pe_state e)) \<le> elapsed now
    \<and> (ps_exhausted (op_state q) \<longrightarrow> ps_version (op_state q) = max_uint64)
    \<and> map_of (op_seen p) (pe_key e) = None \<and> \<not> ps_exhausted (op_state p)"
proof -
  obtain q0 ok where a: "advance p now = (q0, ok)" by fastforce
  have g: "op_seen q0 = op_seen p" "ps_exhausted (op_state p) \<longrightarrow> ps_exhausted (op_state q0)"
    using advance_gain [of p now] a by (auto simp: no_gain_def moves_on_def)
  show ?thesis
    using assms g advance_accepts [of p now q0] a
    by (auto simp: intake_def changed_def unknown_def split: if_splits option.splits)
qed

lemma intake_seen:
  assumes "map_of (op_seen p) (pe_key e) \<noteq> None"
  shows "no_gain p (fst (intake p e now)) \<and> snd (intake p e now) \<noteq> Inr True"
proof -
  obtain q0 ok where a: "advance p now = (q0, ok)" by fastforce
  have g: "no_gain p q0" using advance_gain(1) [of p now] a by simp
  then have s: "map_of (op_seen q0) (pe_key e) \<noteq> None" using assms by (simp add: no_gain_def)
  have "no_gain p (changed (unknown r q0))" for r
    using g by (rule no_gain_trans) simp
  then show ?thesis using g s by (auto simp: intake_def a split: option.splits)
qed

lemma attention_wf:
  "projection_wf q \<Longrightarrow> projection_wf (if c then q\<lparr>op_state := (op_state q)\<lparr>ps_attention := a\<rparr>\<rparr> else q)"
  by (simp add: projection_wf_def projection_base_def)

lemma establish_wf:
  assumes "projection_base p" "ps_process (op_state p) = RunLive" "op_clock_seen p"
    and "elapsed (ev_received e) \<le> op_last_clock p" "op_last_clock p - elapsed (ev_received e) < InteractionTTL"
    and "ps_exhausted (op_state p) \<longrightarrow> ps_version (op_state p) = max_uint64"
    and "ev_kind e = ProjectionWaiting \<longrightarrow> ps_has_last_waiting (op_state p)"
  shows "projection_wf (establish p e)"
proof -
  let ?p1 = "p\<lparr>op_accepted_at := elapsed (ev_received e)\<rparr>"
  let ?p2 = "if ev_kind e = ProjectionWorking \<or> ev_kind e = ProjectionWaiting
      then upd_state (\<lambda>s. s\<lparr>ps_interaction := ev_kind e, ps_reason := ProjectionNoReason,
             ps_last_waiting_stale := (ps_has_last_waiting s \<and> ev_kind e \<noteq> ProjectionWaiting)\<rparr>) ?p1
      else unknown ProjectionCausality ?p1"
  have b: "projection_base ?p1" using assms(1) by (simp add: projection_base_def)
  have "projection_wf (changed ?p2)"
  proof (cases "ps_exhausted (op_state p)")
    case True
    then have "changed ?p2 = unknown ProjectionCapacity (upd_state (\<lambda>s. s\<lparr>ps_exhausted := True\<rparr>) ?p2)"
      using assms(6) by (auto simp: changed_def unknown_def)
    moreover have "projection_base (upd_state (\<lambda>s. s\<lparr>ps_exhausted := True\<rparr>) ?p2)"
      using b by (auto simp: projection_base_def unknown_def)
    ultimately show ?thesis using unknown_wf by presburger
  next
    case False
    have "projection_wf ?p2"
      using b False assms(2-5,7) unknown_wf [OF b] by (auto simp: projection_wf_def projection_base_def)
    then show ?thesis by (rule changed_wf)
  qed
  then show ?thesis unfolding establish_def Let_def by (rule attention_wf)
qed

lemma reconcile_fresh_wf:
  assumes "projection_wf p" "op_clock_seen p" "op_last_clock p = elapsed now"
    and "elapsed (ev_received (pe_state (ne_event n))) \<le> elapsed now"
    and "ps_exhausted (op_state p) \<longrightarrow> ps_version (op_state p) = max_uint64"
  shows "projection_wf (fst (reconcile_fresh p n now))"
proof -
  let ?e = "pe_state (ne_event n)"
  let ?q = "p\<lparr>op_sequence := ne_sequence n, op_anchor_id := ev_event_id ?e,
              op_native_session := ev_native_session_id ?e, op_source := ev_source ?e\<rparr>"
  let ?q1 = "if ev_kind ?e = ProjectionWaiting
             then upd_state (\<lambda>s. s\<lparr>ps_last_waiting := ?e, ps_has_last_waiting := True, ps_last_waiting_stale := True\<rparr>) ?q
             else ?q"
  have b: "projection_base p" "projection_base ?q" "projection_base ?q1"
    using assms(1) by (auto simp: projection_wf_def projection_base_def)
  have "projection_wf (establish ?q1 ?e)"
    if "ps_process (op_state ?q1) = RunLive" "\<not> elapsed now - elapsed (ev_received ?e) \<ge> InteractionTTL"
    using b(3) that assms by (intro establish_wf) auto
  then show ?thesis
    using assms(1) b changed_unknown_wf unfolding reconcile_fresh_def Let_def by auto
qed

lemma establish_moves_on: "moves_on p (establish p e)"
  by (auto simp: establish_def Let_def moves_on_def changed_def unknown_def)

lemma reconcile_fresh_moves_on: "moves_on p (fst (reconcile_fresh p n now))"
proof -
  let ?e = "pe_state (ne_event n)"
  let ?q = "p\<lparr>op_sequence := ne_sequence n, op_anchor_id := ev_event_id ?e,
              op_native_session := ev_native_session_id ?e, op_source := ev_source ?e\<rparr>"
  let ?q1 = "if ev_kind ?e = ProjectionWaiting
             then upd_state (\<lambda>s. s\<lparr>ps_last_waiting := ?e, ps_has_last_waiting := True, ps_last_waiting_stale := True\<rparr>) ?q
             else ?q"
  have q: "moves_on p ?q" "moves_on p ?q1" by (simp_all add: moves_on_def)
  have "moves_on p (changed (unknown r ?q))" "moves_on p (changed (unknown r ?q1))" "moves_on p (establish ?q1 ?e)" for r
    using q changed_unknown_gain(2) establish_moves_on by (blast intro: moves_on_trans)+
  then show ?thesis unfolding reconcile_fresh_def Let_def by auto
qed

lemma ReconcileNative_wf: "projection_wf p \<Longrightarrow> projection_wf (fst (ReconcileNative p n now))"
proof -
  assume p: "projection_wf p"
  obtain q r where i: "intake p (ne_event n) now = (q, r)" by fastforce
  have q: "projection_wf q" using intake_wf [OF p, of "ne_event n" now] i by simp
  have fresh: "projection_wf (fst (reconcile_fresh (q\<lparr>op_seen := AList.update k v (op_seen q)\<rparr>) n now))"
    if "r = Inr True" "map_of (op_seen q) k \<noteq> None" for k v
  proof (rule reconcile_fresh_wf)
    have "k \<in> set (keys (op_seen q))" using that(2) by (simp add: map_of_None_keys)
    then show "projection_wf (q\<lparr>op_seen := AList.update k v (op_seen q)\<rparr>)"
      using q by (simp add: projection_wf_def projection_base_def distinct_update length_update_present)
  qed (use that intake_fresh [of p "ne_event n" now q] i in auto)
  have "map_of (op_seen q) (pe_key (ne_event n)) \<noteq> None" if "r = Inr True"
    using that i by (auto simp: intake_def changed_def unknown_def update_conv' split: if_splits option.splits prod.splits)
  with fresh show ?thesis
    using p q wf_base [OF p] wf_base [OF q] changed_unknown_wf
    by (cases r) (auto simp: ReconcileNative_def i Let_def)
qed

lemma ReconcileNative_moves_on: "moves_on p (fst (ReconcileNative p n now))"
proof -
  obtain q r where i: "intake p (ne_event n) now = (q, r)" by fastforce
  have q: "moves_on p q" using intake_moves_on [of p "ne_event n" now] i by simp
  have "moves_on q (q\<lparr>op_seen := m\<rparr>)" for m by (simp add: moves_on_def)
  then have "moves_on p (q\<lparr>op_seen := m\<rparr>)" for m using q by (blast intro: moves_on_trans)
  then have f: "moves_on p (fst (reconcile_fresh (q\<lparr>op_seen := m\<rparr>) n now))" for m
    using reconcile_fresh_moves_on by (rule moves_on_trans)
  have "moves_on p (changed (unknown x q))" for x using q changed_unknown_gain(2) by (rule moves_on_trans)
  with f q show ?thesis by (cases r) (auto simp: ReconcileNative_def i Let_def)
qed

lemma ObserveUnbound_gain:
  "no_gain p (fst (ObserveUnbound p e now))" "moves_on p (fst (ObserveUnbound p e now))"
proof -
  obtain q ok where a: "advance p now = (q, ok)" by fastforce
  have g: "no_gain p q" "moves_on p q" using advance_gain [of p now] a by simp_all
  let ?q = "upd_state (\<lambda>s. s\<lparr>ps_last_event := pe_state e, ps_has_last_event := True\<rparr>) q"
  have "no_gain q ?q" "moves_on q ?q" by (simp_all add: no_gain_def moves_on_def)
  then have "no_gain p (changed ?q)" "moves_on p (changed ?q)"
    using g changed_gain by (blast intro: no_gain_trans moves_on_trans)+
  with g show "no_gain p (fst (ObserveUnbound p e now))" "moves_on p (fst (ObserveUnbound p e now))"
    by (auto simp: ObserveUnbound_def a)
qed

lemma ObserveUnbound_wf: "projection_wf p \<Longrightarrow> projection_wf (fst (ObserveUnbound p e now))"
proof -
  assume p: "projection_wf p"
  obtain q ok where a: "advance p now = (q, ok)" by fastforce
  have q: "projection_wf q" using advance_wf [OF p, of now] a by simp
  then have "projection_wf (upd_state (\<lambda>s. s\<lparr>ps_last_event := pe_state e, ps_has_last_event := True\<rparr>) q)"
    by (simp add: projection_wf_def projection_base_def)
  then show ?thesis using p q changed_wf by (auto simp: ObserveUnbound_def a)
qed

lemma health_wf:
  "projection_wf p \<Longrightarrow> UpdateProcess p s = Inr q \<Longrightarrow> projection_wf q"
  "projection_wf p \<Longrightarrow> UpdateCapture p c = Inr q \<Longrightarrow> projection_wf q"
  "projection_wf p \<Longrightarrow> UpdateConnection p h = Inr q \<Longrightarrow> projection_wf q"
proof -
  assume p: "projection_wf p"
  have "projection_base (upd_state (\<lambda>st. st\<lparr>ps_process := s\<rparr>) p)"
    using p by (simp add: projection_wf_def projection_base_def)
  moreover have "projection_wf (upd_state (\<lambda>st. st\<lparr>ps_process := RunLive\<rparr>) p)"
    using p by (auto simp: projection_wf_def projection_base_def)
  ultimately show "UpdateProcess p s = Inr q \<Longrightarrow> projection_wf q"
    using p changed_wf changed_unknown_wf by (auto simp: UpdateProcess_def Let_def split: if_splits)
  have "projection_wf (upd_state (\<lambda>st. st\<lparr>ps_capture_health := c\<rparr>) p)"
    using p by (simp add: projection_wf_def projection_base_def)
  then show "UpdateCapture p c = Inr q \<Longrightarrow> projection_wf q"
    using p changed_wf by (auto simp: UpdateCapture_def split: if_splits)
  have "projection_wf (upd_state (\<lambda>st. st\<lparr>ps_connection_health := h\<rparr>) p)"
    using p by (simp add: projection_wf_def projection_base_def)
  then show "UpdateConnection p h = Inr q \<Longrightarrow> projection_wf q"
    using p changed_wf by (auto simp: UpdateConnection_def split: if_splits)
qed

lemma health_moves_on:
  "UpdateProcess p s = Inr q \<Longrightarrow> moves_on p q"
  "UpdateCapture p c = Inr q \<Longrightarrow> moves_on p q"
  "UpdateConnection p h = Inr q \<Longrightarrow> moves_on p q"
  by (auto simp: UpdateProcess_def UpdateCapture_def UpdateConnection_def Let_def moves_on_def
      changed_def unknown_def split: if_splits)

lemma projection_step_wf: "projection_wf p \<Longrightarrow> projection_step p q \<Longrightarrow> projection_wf q"
  by (erule projection_step.cases)
    (auto simp: projection_snapshot_def Let_def intro: advance_wf invalidate_wf health_wf
      dest: ObserveUnbound_wf ReconcileNative_wf,
      metis ObserveUnbound_wf fst_conv, metis ReconcileNative_wf fst_conv)

lemma projection_step_moves_on: "projection_step p q \<Longrightarrow> moves_on p q"
  by (erule projection_step.cases)
    (auto simp: projection_snapshot_def Let_def intro: advance_gain invalidate_gain health_moves_on,
      metis ObserveUnbound_gain(2) fst_conv, metis ReconcileNative_moves_on fst_conv)

definition superseded :: "uint64 \<Rightarrow> ObservationProjection \<Rightarrow> bool" where
  "superseded stamp p \<longleftrightarrow> ps_exhausted (op_state p) \<or> unat stamp < unat (ps_continuity_revision (op_state p))"

interpretation projection_machine: sealed_machine projection_init projection_step projection_wf superseded
proof unfold_locales
  show "projection_init p \<Longrightarrow> projection_wf p" for p
    by (auto simp: projection_init_def NewObservationProjection_def projection_wf_def projection_base_def
        split: if_splits)
  show "projection_wf p \<Longrightarrow> projection_step p q \<Longrightarrow> projection_wf q" for p q
    by (rule projection_step_wf)
  show "projection_wf p \<Longrightarrow> projection_step p q \<Longrightarrow> superseded k p \<Longrightarrow> superseded k q" for p q k
    using projection_step_moves_on [of p q] by (auto simp: superseded_def moves_on_def)
qed

section \<open>The evidence behind what is known\<close>

text \<open>
  The same calls with a log of the native evidence passed to \<open>ReconcileNative\<close>, oldest first: what the
  machine below is asked about is where the knowledge it reports comes from.
\<close>

inductive logged_step ::
  "ObservationProjection \<times> NativeProjectionEvidence list \<Rightarrow>
   ObservationProjection \<times> NativeProjectionEvidence list \<Rightarrow> bool" where
  logged_snapshot: "projection_snapshot p now = (q, s) \<Longrightarrow> logged_step (p, h) (q, h)"
| logged_invalidate: "projection_invalidate p reason = q \<Longrightarrow> logged_step (p, h) (q, h)"
| logged_unbound: "ObserveUnbound p e now = (q, result) \<Longrightarrow> logged_step (p, h) (q, h)"
| logged_native: "ReconcileNative p n now = (q, result) \<Longrightarrow> logged_step (p, h) (q, h @ [n])"
| logged_process: "UpdateProcess p s = Inr q \<Longrightarrow> logged_step (p, h) (q, h)"
| logged_capture: "UpdateCapture p c = Inr q \<Longrightarrow> logged_step (p, h) (q, h)"
| logged_connection: "UpdateConnection p k = Inr q \<Longrightarrow> logged_step (p, h) (q, h)"

definition logged_init :: "ObservationProjection \<times> NativeProjectionEvidence list \<Rightarrow> bool" where
  "logged_init x \<longleftrightarrow> projection_init (fst x) \<and> snd x = []"

text \<open>The log only watches: each reachable projection is reached with some log.\<close>

lemma logged_step_forget: "logged_step x y \<Longrightarrow> projection_step (fst x) (fst y)"
  by (erule logged_step.cases) (simp_all, (metis projection_step.intros)+)

lemma projection_step_logged: "projection_step p q \<Longrightarrow> \<exists>h'. logged_step (p, h) (q, h')"
  by (erule projection_step.cases) (metis logged_step.intros)+

lemma projection_reach_logged:
  "reach projection_init projection_step p \<Longrightarrow> \<exists>h. reach logged_init logged_step (p, h)"
proof (induction rule: reach.induct)
  case (reach_init p)
  then have "logged_init (p, [])" by (simp add: logged_init_def)
  then show ?case by (blast intro: reach.reach_init)
next
  case (reach_step p q)
  then show ?case by (blast dest: projection_step_logged intro: reach.reach_step)
qed

text \<open>The evidence \<open>n\<close> accounts for what the projection knows, and for the age it gives it.\<close>

definition accounts_for :: "NativeProjectionEvidence \<Rightarrow> ObservationProjection \<Rightarrow> bool" where
  "accounts_for n p \<longleftrightarrow>
     (let e = pe_state (ne_event n)
      in ev_kind e = ps_interaction (op_state p) \<and> elapsed (ev_received e) = op_accepted_at p
         \<and> ev_selection e = ps_selection (op_state p) \<and> ne_revision n = ps_continuity_revision (op_state p)
         \<and> ne_sequence n = op_sequence p \<and> ev_event_id e = op_anchor_id p
         \<and> ev_native_session_id e = op_native_session p \<and> ev_source e = op_source p)"

definition accounted :: "ObservationProjection \<Rightarrow> NativeProjectionEvidence list \<Rightarrow> bool" where
  "accounted p h \<longleftrightarrow> ps_interaction (op_state p) = ProjectionUnknown \<or> list_ex (\<lambda>n. accounts_for n p) h"

text \<open>An operation that leaves the interaction unknown, or all that it rests on as it was.\<close>

definition keeps :: "ObservationProjection \<Rightarrow> ObservationProjection \<Rightarrow> bool" where
  "keeps p q \<longleftrightarrow> ps_interaction (op_state q) = ProjectionUnknown
     \<or> ps_interaction (op_state q) = ps_interaction (op_state p) \<and> op_accepted_at q = op_accepted_at p
       \<and> ps_selection (op_state q) = ps_selection (op_state p)
       \<and> ps_continuity_revision (op_state q) = ps_continuity_revision (op_state p)
       \<and> op_sequence q = op_sequence p \<and> op_anchor_id q = op_anchor_id p
       \<and> op_native_session q = op_native_session p \<and> op_source q = op_source p"

lemma keeps_accounted: "keeps p q \<Longrightarrow> accounted p h \<Longrightarrow> accounted q h"
  by (auto simp: keeps_def accounted_def accounts_for_def list_ex_iff Let_def)

lemma keeps_trans: "keeps p q \<Longrightarrow> keeps q r \<Longrightarrow> keeps p r"
  by (auto simp: keeps_def)

lemma keeps_refl [simp]: "keeps p p"
  by (simp add: keeps_def)

lemma unknown_keeps [simp]: "keeps p (unknown r q)"
  by (simp add: keeps_def unknown_def)

lemma changed_keeps: "keeps p q \<Longrightarrow> keeps p (changed q)"
  by (auto simp: keeps_def changed_def unknown_def)

lemma changed_unknown_keeps [simp]: "keeps p (changed (unknown r q))"
  by (rule changed_keeps) simp

lemma invalidate_keeps: "keeps p (projection_invalidate p r)"
  unfolding projection_invalidate_def Let_def by (rule changed_unknown_keeps)

lemma advance_keeps: "keeps p (fst (advance p now))"
  by (auto simp: advance_def Let_def invalidate_keeps) (simp_all add: keeps_def)

lemma advance_same:
  "advance p now = (q, True) \<Longrightarrow> ps_continuity_revision (op_state q) = ps_continuity_revision (op_state p)
     \<and> ps_selection (op_state q) = ps_selection (op_state p)"
  by (auto simp: advance_def Let_def changed_def unknown_def split: if_splits)

lemma unbound_keeps: "keeps p (fst (ObserveUnbound p e now))"
proof -
  obtain q ok where a: "advance p now = (q, ok)" by fastforce
  have "keeps p q" using advance_keeps [of p now] a by simp
  moreover have "keeps q (upd_state (\<lambda>s. s\<lparr>ps_last_event := pe_state e, ps_has_last_event := True\<rparr>) q)"
    by (simp add: keeps_def)
  ultimately show ?thesis by (auto simp: ObserveUnbound_def a intro: changed_keeps keeps_trans)
qed

lemma health_keeps:
  "UpdateProcess p s = Inr q \<Longrightarrow> keeps p q"
  "UpdateCapture p c = Inr q \<Longrightarrow> keeps p q"
  "UpdateConnection p h = Inr q \<Longrightarrow> keeps p q"
  by (auto simp: UpdateProcess_def UpdateCapture_def UpdateConnection_def Let_def keeps_def
      changed_def unknown_def split: if_splits)

lemma intake_keeps: "keeps p (fst (intake p e now))"
proof -
  obtain q ok where a: "advance p now = (q, ok)" by fastforce
  have q: "keeps p q" using advance_keeps [of p now] a by simp
  have "keeps q (upd_state (\<lambda>s. s\<lparr>ps_last_event := pe_state e, ps_has_last_event := True\<rparr>) (q\<lparr>op_seen := m\<rparr>))" for m
    by (simp add: keeps_def)
  then have "keeps p (changed (upd_state (\<lambda>s. s\<lparr>ps_last_event := pe_state e, ps_has_last_event := True\<rparr>)
      (q\<lparr>op_seen := m\<rparr>)))" for m
    using q by (blast intro: changed_keeps keeps_trans)
  then show ?thesis using q by (auto simp: intake_def a split: option.splits)
qed

lemma intake_same:
  assumes "intake p e now = (q, Inr fresh)"
  shows "ps_continuity_revision (op_state q) = ps_continuity_revision (op_state p)
     \<and> ps_selection (op_state q) = ps_selection (op_state p)"
proof -
  obtain q0 ok where a: "advance p now = (q0, ok)" by fastforce
  show ?thesis
    using assms advance_same [of p now q0] a
    by (auto simp: intake_def changed_def unknown_def split: if_splits option.splits)
qed

text \<open>Only the establishing branch adds knowledge, and it rests on the evidence of the call.\<close>

lemma reconcile_fresh_accounts:
  assumes "ne_revision n = ps_continuity_revision (op_state p)"
    and "ev_selection (pe_state (ne_event n)) = ps_selection (op_state p)"
  shows "keeps p (fst (reconcile_fresh p n now))
    \<or> accounts_for n (fst (reconcile_fresh p n now))"
proof -
  let ?e = "pe_state (ne_event n)"
  let ?q = "p\<lparr>op_sequence := ne_sequence n, op_anchor_id := ev_event_id ?e,
              op_native_session := ev_native_session_id ?e, op_source := ev_source ?e\<rparr>"
  let ?q1 = "if ev_kind ?e = ProjectionWaiting
             then upd_state (\<lambda>s. s\<lparr>ps_last_waiting := ?e, ps_has_last_waiting := True, ps_last_waiting_stale := True\<rparr>) ?q
             else ?q"
  have "ps_interaction (op_state (establish ?q1 ?e)) = ProjectionUnknown \<or> accounts_for n (establish ?q1 ?e)"
    using assms by (simp add: establish_def Let_def changed_def unknown_def accounts_for_def)
  then have "keeps p (establish ?q1 ?e) \<or> accounts_for n (establish ?q1 ?e)" by (auto simp: keeps_def)
  then show ?thesis unfolding reconcile_fresh_def Let_def by auto
qed

lemma native_accounts:
  "keeps p (fst (ReconcileNative p n now)) \<or> accounts_for n (fst (ReconcileNative p n now))"
proof (cases "ev_selection (pe_state (ne_event n)) = ps_selection (op_state p)
    \<and> ne_revision n = ps_continuity_revision (op_state p)")
  case True
  obtain q r where i: "intake p (ne_event n) now = (q, r)" by fastforce
  have q: "keeps p q" using intake_keeps [of p "ne_event n" now] i by simp
  have fresh: "keeps p (fst (reconcile_fresh (q\<lparr>op_seen := m\<rparr>) n now))
      \<or> accounts_for n (fst (reconcile_fresh (q\<lparr>op_seen := m\<rparr>) n now))" if "r = Inr True" for m
  proof -
    have "keeps p (q\<lparr>op_seen := m\<rparr>)" using q by (simp add: keeps_def)
    moreover have "ps_continuity_revision (op_state q) = ps_continuity_revision (op_state p)"
      "ps_selection (op_state q) = ps_selection (op_state p)"
      using intake_same [of p "ne_event n" now q] i that by simp_all
    then have "keeps (q\<lparr>op_seen := m\<rparr>) (fst (reconcile_fresh (q\<lparr>op_seen := m\<rparr>) n now))
        \<or> accounts_for n (fst (reconcile_fresh (q\<lparr>op_seen := m\<rparr>) n now))"
      using True by (intro reconcile_fresh_accounts) simp_all
    ultimately show ?thesis by (blast intro: keeps_trans)
  qed
  show ?thesis
    using q fresh by (cases r) (auto simp: ReconcileNative_def i Let_def split: option.splits)
next
  case False
  then show ?thesis by (auto simp: ReconcileNative_def)
qed

interpretation logged_machine: invariant_machine logged_init logged_step "\<lambda>(p, h). projection_wf p \<and> accounted p h"
proof unfold_locales
  show "case x of (p, h) \<Rightarrow> projection_wf p \<and> accounted p h" if "logged_init x" for x
    using that projection_machine.init_inv
    by (cases x) (auto simp: logged_init_def accounted_def projection_init_def NewObservationProjection_def split: if_splits)
  show "case y of (p, h) \<Rightarrow> projection_wf p \<and> accounted p h"
    if x: "case x of (p, h) \<Rightarrow> projection_wf p \<and> accounted p h" and step: "logged_step x y" for x y
  proof -
    have "projection_wf (fst y)"
      using x logged_step_forget [OF step] by (auto intro: projection_step_wf split: prod.splits)
    moreover have "accounted (fst y) (snd y)"
      using step
    proof cases
      case (logged_native p n now q result h)
      have "accounted p h" using x logged_native(1) by simp
      moreover have "keeps p q \<or> accounts_for n q" using native_accounts [of p n now] logged_native(3) by simp
      ultimately show ?thesis
        using keeps_accounted [of p q h] logged_native(2) by (auto simp: accounted_def)
    next
      case (logged_snapshot p now q s h)
      then show ?thesis
        using x advance_keeps [of p now] keeps_accounted [of p q h]
        by (auto simp: projection_snapshot_def Let_def)
    next
      case (logged_unbound p e now q result h)
      then show ?thesis using x unbound_keeps [of p e now] keeps_accounted [of p q h] by auto
    qed (use x in \<open>auto intro: keeps_accounted invalidate_keeps health_keeps\<close>)
    ultimately show ?thesis by (simp add: case_prod_beta)
  qed
qed

section \<open>Properties\<close>

text \<open>
  C14: A reported interaction is current and has its evidence. Take any run of calls on a projection
  and the list of native evidence that was passed to \<open>ReconcileNative\<close> in it. Whenever a snapshot then
  reports a known interaction, it is working or waiting, the process is live, nothing overflowed, and
  the list holds evidence for it: an event of this selection that reports exactly this interaction,
  stamped with the continuity revision still current, received (on the monotonic clock, by the
  event's own receipt time) no later than now and less than 60 seconds ago. The reread delay the
  snapshot returns is the positive remainder of the 60 seconds since that receipt.
\<close>

theorem snapshot_known_is_current:
  assumes "reach logged_init logged_step (p, h)" "projection_snapshot p now = (q, s)"
    and "ps_interaction s \<noteq> ProjectionUnknown"
  shows "(ps_interaction s = ProjectionWorking \<or> ps_interaction s = ProjectionWaiting)
    \<and> ps_process s = RunLive \<and> \<not> ps_exhausted s
    \<and> (\<exists>n \<in> set h.
        let e = pe_state (ne_event n); age = elapsed now - elapsed (ev_received e)
        in ev_kind e = ps_interaction s \<and> ev_selection e = ps_selection s
           \<and> ne_revision n = ps_continuity_revision s
           \<and> 0 \<le> age \<and> age < 60 * second
           \<and> ps_refresh_after s = 60 * second - age
           \<and> 0 < ps_refresh_after s \<and> ps_refresh_after s \<le> 60 * second)"
proof -
  have wf: "projection_wf p" "accounted p h" using logged_machine.reach_inv [OF assms(1)] by simp_all
  obtain ok where a: "advance p now = (q, ok)"
    using assms(2) by (cases "advance p now") (simp add: projection_snapshot_def Let_def)
  have wfq: "projection_wf q" using advance_wf [OF wf(1), of now] a by simp
  have s: "ps_interaction (op_state q) \<noteq> ProjectionUnknown"
      "s = (op_state q)\<lparr>ps_refresh_after := InteractionTTL - (elapsed now - op_accepted_at q)\<rparr>"
    using assms(2,3) by (auto simp: projection_snapshot_def Let_def a split: if_splits)
  have "accounted q h" using advance_keeps [of p now] a wf(2) keeps_accounted by simp
  then obtain n where n: "n \<in> set h" "accounts_for n q" using s(1) by (auto simp: accounted_def list_ex_iff)
  have ok
    using a s(1) by (auto simp: advance_def Let_def projection_invalidate_def changed_def unknown_def split: if_splits)
  then have "op_last_clock q = elapsed now" using advance_accepts a by simp
  then have now: "op_accepted_at q \<le> elapsed now" "elapsed now - op_accepted_at q < 60 * second"
    "ps_process s = RunLive" "\<not> ps_exhausted s"
    "ps_interaction s = ProjectionWorking \<or> ps_interaction s = ProjectionWaiting"
    using wfq s by (simp_all add: projection_wf_def InteractionTTL_def)
  have "let e = pe_state (ne_event n); age = elapsed now - elapsed (ev_received e)
      in ev_kind e = ps_interaction s \<and> ev_selection e = ps_selection s
         \<and> ne_revision n = ps_continuity_revision s \<and> 0 \<le> age \<and> age < 60 * second
         \<and> ps_refresh_after s = 60 * second - age \<and> 0 < ps_refresh_after s \<and> ps_refresh_after s \<le> 60 * second"
    using n(2) now(1,2) s(2) by (simp add: accounts_for_def Let_def InteractionTTL_def)
  with n(1) now(3-5) show ?thesis by blast
qed

text \<open>
  The remembered waiting event is labelled exactly. In every reachable projection the last
  waiting event is a waiting event and is marked stale exactly when it exists and is no longer the
  current interaction; a current waiting interaction always has one; at most 256 native events are
  remembered and none of them twice.
\<close>

theorem waiting_label_exact:
  assumes "reach projection_init projection_step p"
  shows "(ps_last_waiting_stale (op_state p) \<longleftrightarrow>
      ps_has_last_waiting (op_state p) \<and> ps_interaction (op_state p) \<noteq> ProjectionWaiting)
    \<and> (ps_interaction (op_state p) = ProjectionWaiting \<longrightarrow> ps_has_last_waiting (op_state p))
    \<and> (ps_has_last_waiting (op_state p) \<longrightarrow> ev_kind (ps_last_waiting (op_state p)) = ProjectionWaiting)
    \<and> distinct (keys (op_seen p)) \<and> length (op_seen p) \<le> 256"
  using projection_machine.reach_inv [OF assms]
  by (simp add: projection_wf_def projection_base_def MaxProjectionEvents_def)

text \<open>
  Unbound and replayed telemetry add no knowledge. An unbound observation, and native evidence
  for an event that is already in the ledger, leave the interaction as it was or make it unknown;
  they never renew its age, raise attention, replace the last waiting event, enter the ledger or
  move the causal frontier.
\<close>

theorem replay_adds_no_knowledge:
  "no_gain p (fst (ObserveUnbound p e now)) \<and>
   (map_of (op_seen p) (pe_key (ne_event n)) \<noteq> None \<longrightarrow> no_gain p (fst (ReconcileNative p n now)))"
proof (intro conjI impI)
  show "no_gain p (fst (ObserveUnbound p e now))" by (rule ObserveUnbound_gain)
  assume "map_of (op_seen p) (pe_key (ne_event n)) \<noteq> None"
  then have i: "no_gain p (fst (intake p (ne_event n) now)) \<and> snd (intake p (ne_event n) now) \<noteq> Inr True"
    by (rule intake_seen)
  obtain q r where q: "intake p (ne_event n) now = (q, r)" by fastforce
  have g: "no_gain p q" "r \<noteq> Inr True" using i q by auto
  then have "no_gain p (changed (unknown x q))" for x
    using changed_unknown_gain(1) by (blast intro: no_gain_trans)
  with g show "no_gain p (fst (ReconcileNative p n now))"
    by (cases r) (auto simp: ReconcileNative_def q Let_def)
qed

text \<open>
  A discontinuity revokes earlier evidence. Evidence stamped with the continuity revision current
  before an invalidation is refused at every later state, and when it concerns this selection the
  interaction is unknown afterwards, also when the revision counter is exhausted.
\<close>

theorem revoked_evidence_refused:
  assumes "reach projection_init projection_step p"
    and "projection_step\<^sup>*\<^sup>* (projection_invalidate p reason) q"
    and "ne_revision n = ps_continuity_revision (op_state p)"
  shows "(\<exists>err. snd (ReconcileNative q n now) = Inl err)
    \<and> (ev_selection (pe_state (ne_event n)) = ps_selection (op_state q) \<longrightarrow>
        ps_interaction (op_state (fst (ReconcileNative q n now))) = ProjectionUnknown)"
proof -
  let ?p = "projection_invalidate p reason"
  have wfp: "projection_wf ?p" using projection_machine.reach_inv [OF assms(1)] by (rule invalidate_wf)
  have "superseded (ps_continuity_revision (op_state p)) ?p"
    using invalidate_supersedes [of p reason] by (simp add: superseded_def)
  then have s: "superseded (ps_continuity_revision (op_state p)) q"
    by (rule projection_machine.sealed_forever [OF assms(2) wfp])
  have wf: "projection_wf q" using assms(2) wfp by (rule projection_machine.steps_inv)
  obtain q' r where i: "intake q (ne_event n) now = (q', r)" by fastforce
  show ?thesis
  proof (cases "ps_exhausted (op_state q)")
    case True
    have "moves_on q (fst (ReconcileNative q n now))" by (rule ReconcileNative_moves_on)
    then have "ps_exhausted (op_state (fst (ReconcileNative q n now)))" using True by (simp add: moves_on_def)
    then have "ps_interaction (op_state (fst (ReconcileNative q n now))) = ProjectionUnknown"
      using ReconcileNative_wf [OF wf, of n now] by (auto simp: projection_wf_def)
    moreover have "\<exists>err. r = Inl err"
    proof -
      have "moves_on q (fst (advance q now))" by (rule advance_gain)
      then show ?thesis
        using True i by (auto simp: intake_def moves_on_def split: if_splits prod.splits)
    qed
    ultimately show ?thesis by (auto simp: ReconcileNative_def i)
  next
    case False
    then have "ne_revision n \<noteq> ps_continuity_revision (op_state q)"
      using s assms(3) by (auto simp: superseded_def)
    then show ?thesis by (simp add: ReconcileNative_def changed_def unknown_def)
  qed
qed

section \<open>Witnesses\<close>

definition ex_selection :: ProjectionSelection where
  "ex_selection = \<lparr>sel_identity = ex_identity, sel_worktree = ''w_'' @ replicate 64 CHR ''d'', sel_profile = ''dev''\<rparr>"

definition ex_clock :: "int \<Rightarrow> ProjectionClock" where
  "ex_clock n = \<lparr>elapsed = n, clock_wall = GoTime 1 None 0\<rparr>"

definition ex_event_state :: ProjectionEventState where
  "ex_event_state =
     \<lparr>ev_selection = ex_selection, ev_source = ''codex'', ev_event_id = ''e1'', ev_native_session_id = ''s'',
      ev_turn_id = '''', ev_request_id = '''', ev_source_version = ''1'',
      ev_boundary = ObservationTurnBoundary, ev_kind = ProjectionWaiting,
      ev_received = ex_clock 5, ev_host_time = zero_time, ev_has_host_time = False\<rparr>"

definition ex_event :: ProjectionEvent where
  "ex_event = \<lparr>pe_state = ex_event_state, pe_key = sha256 (''codex'' @ [CHR 0x00] @ ''e1''),
               pe_fingerprint = sha256 (the (event_json ex_event_state)), pe_valid = True\<rparr>"

definition ex_projection :: "RunState \<Rightarrow> ObservationProjection" where
  "ex_projection process = projr (NewObservationProjection ex_selection process)"

definition ex_native :: NativeProjectionEvidence where
  "ex_native = \<lparr>ne_event = ex_event, ne_revision = 1, ne_sequence = 1, ne_previous_event_id = ''''\<rparr>"

lemma ex_selection_valid: "selection_valid ex_selection"
proof -
  have "canonicalHex (replicate 64 CHR ''d'') 64"
    by (rule replicate_canonical_hex) (simp_all add: hex_lower_def char_in_def)
  then show ?thesis
    by (auto simp: selection_valid_def ex_selection_def ex_identity_valid canonicalHex_def Let_def
        ProfileIDFrom_def is_alnum_def char_in_def to_lower_def)
qed

lemma ex_event_json: "event_json ex_event_state = Some (the (event_json ex_event_state))"
proof -
  have "json_time (ev_host_time ex_event_state) \<noteq> None"
    by (simp add: json_time_def year_def year_of_days_def ex_event_state_def)
  then have "event_json ex_event_state \<noteq> None" by (simp add: event_json_def)
  then show ?thesis by auto
qed

lemma ex_event_valid: "ProjectionEventOf ex_event_state = Inr ex_event"
proof -
  have v: "printableLaunchValue ''1'' 256" by (rule printable_solid) (simp_all add: solid_def)
  have n: "ex_event_state\<lparr>ev_host_time := utc (round0 (ev_host_time ex_event_state)),
      ev_received := (ev_received ex_event_state)\<lparr>clock_wall := utc (round0 (clock_wall (ev_received ex_event_state)))\<rparr>\<rparr>
      = ex_event_state"
    by (simp add: ex_event_state_def ex_clock_def utc_def round0_def)
  have f: "ev_selection ex_event_state = ex_selection" "elapsed (ev_received ex_event_state) = 5"
    "\<not> is_zero (clock_wall (ev_received ex_event_state))" "year (clock_wall (ev_received ex_event_state)) = 1"
    "ev_source_version ex_event_state = ''1''" "ev_source ex_event_state = ''codex''"
    "ev_event_id ex_event_state = ''e1''" "ev_native_session_id ex_event_state = ''s''"
    "ev_turn_id ex_event_state = ''''" "ev_request_id ex_event_state = ''''"
    "ev_kind ex_event_state = ProjectionWaiting" "ev_boundary ex_event_state = ObservationTurnBoundary"
    "\<not> ev_has_host_time ex_event_state" "is_zero (ev_host_time ex_event_state)"
    by (simp_all add: ex_event_state_def ex_clock_def is_zero_def year_def year_of_days_def)
  have c: "observationCorrelation ''e1'' False" "observationCorrelation ''s'' True" "observationCorrelation '''' True"
    by (simp_all add: observationCorrelation_def correlation_char_def is_alnum_def char_in_def)
  show ?thesis
    by (simp add: ProjectionEventOf_def n f c v ex_selection_valid known_host_def ex_event_def)
      (subst ex_event_json, simp add: f)
qed

lemma ex_projection_new:
  "NewObservationProjection ex_selection RunLive = Inr (ex_projection RunLive)"
  by (simp add: ex_projection_def NewObservationProjection_def ex_selection_valid projectionProcess_def)

lemma ex_projection_reach:
  "reach projection_init projection_step (ex_projection RunLive)"
  "reach projection_init projection_step (fst (ReconcileNative (ex_projection RunLive) ex_native (ex_clock 6)))"
proof -
  show r: "reach projection_init projection_step (ex_projection RunLive)"
    using ex_projection_new by (intro reach.reach_init) (auto simp: projection_init_def)
  have "projection_step (ex_projection RunLive) (fst (ReconcileNative (ex_projection RunLive) ex_native (ex_clock 6)))"
    by (rule projection_step.native) (rule prod.collapse [symmetric])
  with r show "reach projection_init projection_step (fst (ReconcileNative (ex_projection RunLive) ex_native (ex_clock 6)))"
    by (rule reach.reach_step)
qed

definition ex_waiting :: ObservationProjection where
  "ex_waiting = fst (ReconcileNative (ex_projection RunLive) ex_native (ex_clock 6))"

lemma ex_waiting_known:
  "ps_interaction (op_state ex_waiting) = ProjectionWaiting \<and> op_accepted_at ex_waiting = 5
   \<and> map_of (op_seen ex_waiting) (pe_key ex_event) \<noteq> None \<and> op_last_clock ex_waiting = 6
   \<and> op_clock_seen ex_waiting \<and> ps_continuity_revision (op_state ex_waiting) = 1
   \<and> ps_selection (op_state ex_waiting) = ex_selection"
  by (simp add: ex_waiting_def ReconcileNative_def ex_native_def ex_event_def ex_event_state_def ex_projection_def
      NewObservationProjection_def ex_selection_valid projectionProcess_def ex_clock_def observationCorrelation_def
      intake_def advance_def Let_def is_zero_def changed_def unknown_def reconcile_fresh_def establish_def
      InteractionTTL_def MaxProjectionEvents_def)

lemma ex_waiting_logged: "reach logged_init logged_step (ex_waiting, [ex_native])"
proof -
  have "logged_init (ex_projection RunLive, [])"
    using ex_projection_new by (auto simp: logged_init_def projection_init_def)
  then have "reach logged_init logged_step (ex_projection RunLive, [])" by (rule reach.reach_init)
  moreover have "logged_step (ex_projection RunLive, []) (ex_waiting, [] @ [ex_native])"
    unfolding ex_waiting_def by (rule logged_native) (rule prod.collapse [symmetric])
  ultimately have "reach logged_init logged_step (ex_waiting, [] @ [ex_native])" by (rule reach.reach_step)
  then show ?thesis by simp
qed

theorem snapshot_known_is_current_witness:
  "ps_interaction (snd (projection_snapshot ex_waiting (ex_clock 7))) = ProjectionWaiting
   \<and> ps_refresh_after (snd (projection_snapshot ex_waiting (ex_clock 7))) = 60 * second - 2"
proof -
  have k: "ps_interaction (snd (projection_snapshot ex_waiting (ex_clock 7))) = ProjectionWaiting"
    using ex_waiting_known
    by (simp add: projection_snapshot_def advance_def ex_clock_def is_zero_def Let_def InteractionTTL_def)
  then show ?thesis
    using snapshot_known_is_current [OF ex_waiting_logged prod.collapse [symmetric], of "ex_clock 7"]
    by (simp add: Let_def ex_native_def ex_event_def ex_event_state_def ex_clock_def)
qed

theorem waiting_label_exact_witness:
  "\<not> ps_last_waiting_stale (op_state ex_waiting) \<and> ps_has_last_waiting (op_state ex_waiting)"
  using waiting_label_exact [OF ex_projection_reach(2) [folded ex_waiting_def]] ex_waiting_known by simp

theorem replay_adds_no_knowledge_witness: "no_gain ex_waiting (fst (ReconcileNative ex_waiting ex_native (ex_clock 9)))"
  using replay_adds_no_knowledge [of ex_waiting _ _ ex_native] ex_waiting_known
  by (simp add: ex_native_def)

theorem revoked_evidence_refused_witness:
  "\<exists>err. snd (ReconcileNative (projection_invalidate ex_waiting ProjectionSleepWake) ex_native (ex_clock 9)) = Inl err"
proof -
  have "ne_revision ex_native = ps_continuity_revision (op_state ex_waiting)"
    using ex_waiting_known by (simp add: ex_native_def)
  from revoked_evidence_refused [OF ex_projection_reach(2) [folded ex_waiting_def] rtranclp.rtrancl_refl this]
  show ?thesis by simp
qed

end
