(* ===== verification/Rt_Continuity.thy ===== *)
theory Rt_Continuity
  imports Rt_Lifecycle
begin

text \<open>
  The daemon-wide fence on observation intake (\<open>domain/runtime/continuity.go\<close>): power cycles, gaps
  between samples, unreadable samples and clock reversals supersede every intake stamp taken before.
\<close>

section \<open>Definitions\<close>

record PowerWitness =
  pw_sleep :: gotime
  pw_wake :: gotime

record ContinuitySample =
  smp_at :: gotime
  smp_power :: PowerWitness
  smp_available :: bool

record ContinuityState =
  cst_revision :: uint64
  cst_available :: bool
  cst_reason :: FreshnessReason
  cst_exhausted :: bool

record ObservationContinuity =
  oc_state :: ContinuityState
  oc_max_gap :: int
  oc_last :: ContinuitySample
  oc_observed :: bool

definition zero_sample :: ContinuitySample where
  "zero_sample = \<lparr>smp_at = zero_time, smp_power = \<lparr>pw_sleep = zero_time, pw_wake = zero_time\<rparr>, smp_available = False\<rparr>"

definition NewObservationContinuity :: "int \<Rightarrow> ObservationContinuity rt" where
  "NewObservationContinuity maxGap =
     (if maxGap \<le> 0 then Inl ErrInvalid
      else Inr \<lparr>oc_state = \<lparr>cst_revision = 1, cst_available = False, cst_reason = FreshnessNoReason, cst_exhausted = False\<rparr>,
                oc_max_gap = maxGap, oc_last = zero_sample, oc_observed = False\<rparr>)"

definition samePowerWitness :: "PowerWitness \<Rightarrow> PowerWitness \<Rightarrow> bool" where
  "samePowerWitness a b \<longleftrightarrow> time_equal (round0 (pw_sleep a)) (round0 (pw_sleep b))
                          \<and> time_equal (round0 (pw_wake a)) (round0 (pw_wake b))"

text \<open>\<open>time.Unix(0, 0)\<close>: 1970-01-01, 62135596800 seconds after the zero time.\<close>

definition unix_epoch :: gotime where
  "unix_epoch = GoTime (62135596800 * second) None 0"

definition continuity :: "ContinuitySample \<Rightarrow> bool \<times> FreshnessReason" where
  "continuity s =
     (if \<not> smp_available s \<or> is_zero (smp_at s) then (False, FreshnessCommunicationGap)
      else let sleep = round0 (pw_sleep (smp_power s)); wake = round0 (pw_wake (smp_power s))
           in if is_zero sleep \<and> is_zero wake then (True, FreshnessNoReason)
              else let at = round0 (smp_at s)
                   in if list_ex (\<lambda>stamp. \<not> is_zero stamp \<and> (before stamp unix_epoch \<or> after stamp at)) [sleep, wake]
                      then (False, FreshnessCommunicationGap)
                      else if is_zero sleep then (False, FreshnessCommunicationGap)
                      else if is_zero wake \<or> after sleep wake then (False, FreshnessSleepWake)
                      else (True, FreshnessNoReason))"

definition discontinuity :: "ObservationContinuity \<Rightarrow> ContinuitySample \<Rightarrow> FreshnessReason" where
  "discontinuity c next_sample =
     (if \<not> samePowerWitness (smp_power next_sample) (smp_power (oc_last c)) then FreshnessSleepWake
      else let gap = time_sub (smp_at next_sample) (smp_at (oc_last c));
               wall_gap = time_sub (round0 (smp_at next_sample)) (round0 (smp_at (oc_last c)))
           in if gap < 0 \<or> gap \<ge> oc_max_gap c \<or> wall_gap < 0 \<or> wall_gap \<ge> oc_max_gap c
              then FreshnessCommunicationGap else FreshnessNoReason)"

definition continuity_advance :: "ObservationContinuity \<Rightarrow> ObservationContinuity \<times> unit rt" where
  "continuity_advance c =
     (if cst_revision (oc_state c) = max_uint64
      then (c\<lparr>oc_state := (oc_state c)\<lparr>cst_available := False, cst_exhausted := True\<rparr>\<rparr>, Inl ErrLimit)
      else (c\<lparr>oc_state := (oc_state c)\<lparr>cst_revision := cst_revision (oc_state c) + 1\<rparr>\<rparr>, Inr ()))"

text \<open>The closing branch of \<open>Observe\<close>, after the stamp was advanced when the fence was open.\<close>

definition close_fence :: "bool \<Rightarrow> FreshnessReason \<Rightarrow> ObservationContinuity \<Rightarrow> ObservationContinuity" where
  "close_fence wasAvailable reason c =
     c\<lparr>oc_state := (oc_state c)\<lparr>cst_available := False,
         cst_reason := (if cst_reason (oc_state c) = FreshnessNoReason \<or> \<not> oc_observed c \<or> wasAvailable
                           \<or> reason = FreshnessSleepWake
                        then reason else cst_reason (oc_state c))\<rparr>,
       oc_observed := True\<rparr>"

definition open_fence :: "ContinuitySample \<Rightarrow> ObservationContinuity \<Rightarrow> ObservationContinuity" where
  "open_fence sample c =
     c\<lparr>oc_state := (oc_state c)\<lparr>cst_available := True\<rparr>, oc_last := sample, oc_observed := True\<rparr>"

definition set_reason :: "FreshnessReason \<Rightarrow> ObservationContinuity \<Rightarrow> ObservationContinuity" where
  "set_reason r c = c\<lparr>oc_state := (oc_state c)\<lparr>cst_reason := r\<rparr>\<rparr>"

definition Observe :: "ObservationContinuity \<Rightarrow> ContinuitySample \<Rightarrow> ObservationContinuity \<times> unit rt" where
  "Observe c sample =
     (if cst_exhausted (oc_state c) then (c, Inl ErrLimit)
      else let (available, reason) = continuity sample
           in if \<not> available
              then let wasAvailable = cst_available (oc_state c)
                   in if wasAvailable
                      then (case continuity_advance c of
                              (c', Inl e) \<Rightarrow> (c', Inl e)
                            | (c', Inr _) \<Rightarrow> (close_fence True reason c', Inr ()))
                      else (close_fence False reason c, Inr ())
              else if oc_observed c
              then if \<not> cst_available (oc_state c)
                   then (case continuity_advance c of
                           (c', Inl e) \<Rightarrow> (c', Inl e)
                         | (c', Inr _) \<Rightarrow>
                             (open_fence sample
                                (if \<not> is_zero (smp_at (oc_last c')) \<and> \<not> samePowerWitness (smp_power sample) (smp_power (oc_last c'))
                                 then set_reason FreshnessSleepWake c' else c'), Inr ()))
                   else let reason = discontinuity c sample
                        in if reason \<noteq> FreshnessNoReason
                           then (case continuity_advance c of
                                   (c', Inl e) \<Rightarrow> (c', Inl e)
                                 | (c', Inr _) \<Rightarrow> (open_fence sample (set_reason reason c'), Inr ()))
                           else (open_fence sample c, Inr ())
              else (open_fence sample c, Inr ()))"

section \<open>The fence as a machine\<close>

inductive continuity_step :: "ObservationContinuity \<Rightarrow> ObservationContinuity \<Rightarrow> bool" where
  observe: "Observe c sample = (c', result) \<Longrightarrow> continuity_step c c'"

definition continuity_init :: "ObservationContinuity \<Rightarrow> bool" where
  "continuity_init c \<longleftrightarrow> (\<exists>gap < 2 ^ 63. NewObservationContinuity gap = Inr c)"

definition continuity_wf :: "ObservationContinuity \<Rightarrow> bool" where
  "continuity_wf c \<longleftrightarrow> cst_revision (oc_state c) \<noteq> 0 \<and> 0 < oc_max_gap c \<and> oc_max_gap c < 2 ^ 63
     \<and> (cst_exhausted (oc_state c) \<longrightarrow> \<not> cst_available (oc_state c) \<and> cst_revision (oc_state c) = max_uint64)
     \<and> (cst_available (oc_state c) \<longrightarrow> oc_observed c \<and> fst (continuity (oc_last c)))"

definition fenced :: "uint64 \<Rightarrow> ObservationContinuity \<Rightarrow> bool" where
  "fenced stamp c \<longleftrightarrow> cst_exhausted (oc_state c) \<or> unat stamp < unat (cst_revision (oc_state c))"

lemmas fence_defs = continuity_advance_def close_fence_def open_fence_def set_reason_def

lemma Observe_wf: "continuity_wf c \<Longrightarrow> continuity_wf (fst (Observe c sample))"
  by (auto simp: continuity_wf_def Observe_def fence_defs Let_def inc_uint64_nonzero
      split: prod.splits if_splits)

lemma Observe_fenced: "fenced stamp c \<Longrightarrow> fenced stamp (fst (Observe c sample))"
  by (auto simp: fenced_def Observe_def fence_defs Let_def unat_inc_uint64 split: prod.splits if_splits)

interpretation continuity_machine: sealed_machine continuity_init continuity_step continuity_wf fenced
proof unfold_locales
  show "continuity_init c \<Longrightarrow> continuity_wf c" for c
    by (auto simp: continuity_init_def NewObservationContinuity_def continuity_wf_def split: if_splits)
  show "continuity_wf c \<Longrightarrow> continuity_step c c' \<Longrightarrow> continuity_wf c'" for c c'
    by (erule continuity_step.cases) (metis Observe_wf fst_conv)
  show "continuity_wf c \<Longrightarrow> continuity_step c c' \<Longrightarrow> fenced k c \<Longrightarrow> fenced k c'" for c c' k
    by (erule continuity_step.cases) (metis Observe_fenced fst_conv)
qed

section \<open>What breaks the fence\<close>

text \<open>
  The samples that leave an open fence alone, said over the readings themselves (nanoseconds since the
  zero time): the sample is available and has a time; its power stamps are both absent, or lie in order
  between 1970-01-01 and the sample (sleep, then wake); they are the stamps of the sample before; and
  since that sample at least 0 and less than the gap budget has passed, both on the clock \<open>Sub\<close> uses (the
  monotonic one where both samples carry it) and on the wall clock.
\<close>

definition readable_sample :: "ContinuitySample \<Rightarrow> bool" where
  "readable_sample s \<longleftrightarrow>
     (let at = wall (smp_at s); sleep = wall (pw_sleep (smp_power s)); wake = wall (pw_wake (smp_power s))
      in smp_available s \<and> at \<noteq> 0
         \<and> (sleep = 0 \<and> wake = 0
            \<or> 62135596800 * 10 ^ 9 \<le> sleep \<and> sleep \<le> wake \<and> wake \<le> at))"

definition follows_sample :: "int \<Rightarrow> ContinuitySample \<Rightarrow> ContinuitySample \<Rightarrow> bool" where
  "follows_sample budget prior s \<longleftrightarrow>
     wall (pw_sleep (smp_power s)) = wall (pw_sleep (smp_power prior))
     \<and> wall (pw_wake (smp_power s)) = wall (pw_wake (smp_power prior))
     \<and> (let gap = (case (mono (smp_at s), mono (smp_at prior)) of
                     (Some x, Some y) \<Rightarrow> x - y
                   | _ \<Rightarrow> wall (smp_at s) - wall (smp_at prior));
            wall_gap = wall (smp_at s) - wall (smp_at prior)
        in 0 \<le> gap \<and> gap < budget \<and> 0 \<le> wall_gap \<and> wall_gap < budget)"

lemma continuity_readable: "fst (continuity s) \<longleftrightarrow> readable_sample s"
  by (auto simp: continuity_def readable_sample_def Let_def is_zero_def before_round0 after_before
      unix_epoch_def before_def tcompare_def round0_def)

lemma samePowerWitness_walls:
  "samePowerWitness a b \<longleftrightarrow> wall (pw_sleep a) = wall (pw_sleep b) \<and> wall (pw_wake a) = wall (pw_wake b)"
  by (auto simp: samePowerWitness_def time_equal_def tcompare_def round0_def)

lemma discontinuity_follows:
  assumes "oc_max_gap c < 2 ^ 63"
  shows "discontinuity c s = FreshnessNoReason \<longleftrightarrow> follows_sample (oc_max_gap c) (oc_last c) s"
  using assms
  by (auto simp: discontinuity_def follows_sample_def samePowerWitness_walls Let_def time_sub_def tcompare_def
      round0_def split: option.splits)

section \<open>Properties\<close>

text \<open>
  C36: A discontinuity fences off every earlier intake stamp. An open fence stays as it was exactly for
  a sample that is readable (available, timed, its power stamps absent or ordered between 1970 and the
  sample) and follows the last one (the same power stamps, and an elapsed time of at least zero and
  less than the gap budget on both clocks). For any other sample, an unreadable one, a changed power
  witness, a gap of at least the budget or a clock reversal, no later state is ever open again with
  the revision it had before. The budget is a Go duration, below 2^63 nanoseconds.
\<close>

theorem discontinuity_fences_intake:
  assumes "reach continuity_init continuity_step c" "cst_available (oc_state c)"
  shows "if readable_sample sample \<and> follows_sample (oc_max_gap c) (oc_last c) sample
    then oc_state (fst (Observe c sample)) = oc_state c \<and> oc_last (fst (Observe c sample)) = sample
         \<and> snd (Observe c sample) = Inr ()
    else \<forall>c'. continuity_step\<^sup>*\<^sup>* (fst (Observe c sample)) c' \<longrightarrow>
           \<not> (cst_available (oc_state c') \<and> cst_revision (oc_state c') = cst_revision (oc_state c))"
proof -
  have wf: "continuity_wf c" using assms(1) by (rule continuity_machine.reach_inv)
  have spec: "readable_sample sample \<and> follows_sample (oc_max_gap c) (oc_last c) sample
      \<longleftrightarrow> fst (continuity sample) \<and> discontinuity c sample = FreshnessNoReason"
    using wf discontinuity_follows [of c sample] by (simp add: continuity_readable continuity_wf_def)
  show ?thesis
  proof (cases "readable_sample sample \<and> follows_sample (oc_max_gap c) (oc_last c) sample")
    case True
    then have "fst (continuity sample)" "discontinuity c sample = FreshnessNoReason" using spec by simp_all
    then have "oc_state (fst (Observe c sample)) = oc_state c \<and> oc_last (fst (Observe c sample)) = sample
         \<and> snd (Observe c sample) = Inr ()"
      using wf assms(2) by (auto simp: Observe_def open_fence_def continuity_wf_def split: prod.splits)
    with True show ?thesis by simp
  next
    case False
    then have "\<not> (fst (continuity sample) \<and> discontinuity c sample = FreshnessNoReason)" using spec by simp
    then have "fenced (cst_revision (oc_state c)) (fst (Observe c sample))"
      using wf assms(2)
      by (auto simp: fenced_def continuity_wf_def Observe_def fence_defs Let_def unat_inc_uint64 split: prod.splits)
    then have "fenced (cst_revision (oc_state c)) c'"
      if "continuity_step\<^sup>*\<^sup>* (fst (Observe c sample)) c'" for c'
      using continuity_machine.sealed_forever [OF that Observe_wf [OF wf]] by blast
    moreover have "continuity_wf c'" if "continuity_step\<^sup>*\<^sup>* (fst (Observe c sample)) c'" for c'
      using that Observe_wf [OF wf] by (rule continuity_machine.steps_inv)
    moreover have "\<not> (cst_available (oc_state c') \<and> cst_revision (oc_state c') = cst_revision (oc_state c))"
      if "fenced (cst_revision (oc_state c)) c'" "continuity_wf c'" for c'
      using that by (auto simp: fenced_def continuity_wf_def)
    ultimately show ?thesis using False by (simp only: if_False) blast
  qed
qed

section \<open>Witnesses\<close>

definition ex_sample :: "int \<Rightarrow> ContinuitySample" where
  "ex_sample t = \<lparr>smp_at = GoTime t None 0, smp_power = \<lparr>pw_sleep = zero_time, pw_wake = zero_time\<rparr>, smp_available = True\<rparr>"

definition ex_continuity :: ObservationContinuity where
  "ex_continuity = \<lparr>oc_state = \<lparr>cst_revision = 1, cst_available = True, cst_reason = FreshnessNoReason, cst_exhausted = False\<rparr>,
                    oc_max_gap = 10, oc_last = ex_sample 100, oc_observed = True\<rparr>"

theorem discontinuity_fences_intake_witness:
  "\<not> (cst_available (oc_state (fst (Observe ex_continuity (ex_sample 200))))
      \<and> cst_revision (oc_state (fst (Observe ex_continuity (ex_sample 200)))) = 1)"
proof -
  let ?c = "\<lparr>oc_state = \<lparr>cst_revision = 1, cst_available = False, cst_reason = FreshnessNoReason, cst_exhausted = False\<rparr>,
             oc_max_gap = 10, oc_last = zero_sample, oc_observed = False\<rparr>"
  have "reach continuity_init continuity_step ?c"
    by (rule reach.reach_init) (auto simp: continuity_init_def NewObservationContinuity_def intro!: exI [of _ 10])
  moreover have "Observe ?c (ex_sample 100) = (ex_continuity, Inr ())"
    by (simp add: Observe_def continuity_def ex_sample_def is_zero_def open_fence_def ex_continuity_def)
  ultimately have r: "reach continuity_init continuity_step ex_continuity"
    by (metis reach.reach_step continuity_step.observe)
  have a: "cst_available (oc_state ex_continuity)" by (simp add: ex_continuity_def)
  have "\<not> follows_sample (oc_max_gap ex_continuity) (oc_last ex_continuity) (ex_sample 200)"
    by (simp add: follows_sample_def ex_continuity_def ex_sample_def)
  then show ?thesis
    using discontinuity_fences_intake [OF r a, of "ex_sample 200"] by (simp add: ex_continuity_def)
qed

end
