(* ===== verification/Rt_History.thy ===== *)
theory Rt_History
  imports Rt_Registry
begin

text \<open>
  Keyset pages of committed history (\<open>domain/runtime/history.go\<close>). The loop over the fetched rows
  is a recursion that carries the previous row's anchor and the identifiers seen so far.
\<close>

section \<open>Selections\<close>

definition MaxHistoryPageEvents :: int where "MaxHistoryPageEvents = 64"

record HistoryAnchor =
  ha_at :: gotime
  ha_id :: string

definition anchor_zero :: "HistoryAnchor \<Rightarrow> bool" where
  "anchor_zero a \<longleftrightarrow> is_zero (ha_at a) \<and> ha_id a = ''''"

definition zero_anchor :: HistoryAnchor where
  "zero_anchor = \<lparr>ha_at = zero_time, ha_id = ''''\<rparr>"

definition validHistoryTime :: "gotime \<Rightarrow> bool" where
  "validHistoryTime t \<longleftrightarrow> \<not> is_zero t \<and> year t \<ge> 1 \<and> year t \<le> 9999"

definition historyText :: "string \<Rightarrow> bool \<Rightarrow> bool" where
  "historyText s required \<longleftrightarrow>
     (if length s > 256 \<or> \<not> valid_utf8 s \<or> (required \<and> trim_space s = '''') then False
      else list_all (\<lambda>r. \<not> is_control (fst r)) (runes s))"

definition historyIdentifier :: "string \<Rightarrow> bool \<Rightarrow> bool" where
  "historyIdentifier s required \<longleftrightarrow> historyText s required \<and> trim_space s = s"

record HistorySelection =
  hs_from :: gotime
  hs_to :: gotime
  hs_limit :: int
  hs_before :: HistoryAnchor

definition HistorySelectionOf :: "gotime \<Rightarrow> gotime \<Rightarrow> int \<Rightarrow> HistoryAnchor \<Rightarrow> HistorySelection rt" where
  "HistorySelectionOf from0 to0 limit before0 =
     (let from = round0 (utc from0); to = round0 (utc to0);
          anchor = (if \<not> anchor_zero before0 then before0\<lparr>ha_at := round0 (utc (ha_at before0))\<rparr> else before0)
      in if \<not> validHistoryTime from \<or> \<not> validHistoryTime to \<or> \<not> before from to
            \<or> limit < 1 \<or> limit > MaxHistoryPageEvents then Inl ErrInvalid
         else if \<not> anchor_zero anchor
                 \<and> (\<not> validHistoryTime (ha_at anchor) \<or> \<not> historyIdentifier (ha_id anchor) True
                    \<or> before (ha_at anchor) from \<or> \<not> before (ha_at anchor) to) then Inl ErrInvalid
         else Inr \<lparr>hs_from = from, hs_to = to, hs_limit = limit, hs_before = anchor\<rparr>)"

definition history_selection_valid :: "HistorySelection \<Rightarrow> bool" where
  "history_selection_valid v \<longleftrightarrow>
     (case HistorySelectionOf (hs_from v) (hs_to v) (hs_limit v) (hs_before v) of Inl _ \<Rightarrow> False | Inr _ \<Rightarrow> True)"

section \<open>Sources and events\<close>

record HistorySource =
  hsrc_worktree :: Worktree
  hsrc_witness :: string

definition HistorySourceOf :: "Worktree \<Rightarrow> string \<Rightarrow> HistorySource rt" where
  "HistorySourceOf w witness =
     (case WorktreeOf (w_project w) (w_path w) (w_common w) (w_store w) (w_witness w) of
        Inl _ \<Rightarrow> Inl ErrInvalid
      | Inr v \<Rightarrow> if v \<noteq> w \<or> \<not> validWitness witness then Inl ErrInvalid
                 else Inr \<lparr>hsrc_worktree = w, hsrc_witness = witness\<rparr>)"

definition StoreIdentityChanged :: "HistorySource \<Rightarrow> bool" where
  "StoreIdentityChanged s \<longleftrightarrow> hsrc_witness s \<noteq> w_witness (hsrc_worktree s)"

definition history_source_valid :: "HistorySource \<Rightarrow> bool" where
  "history_source_valid s \<longleftrightarrow>
     (case HistorySourceOf (hsrc_worktree s) (hsrc_witness s) of Inl _ \<Rightarrow> False | Inr _ \<Rightarrow> True)"

record HistoryEvent =
  he_id :: string
  he_kind :: string
  he_client :: string
  he_agent :: string
  he_session_id :: string
  he_workspace :: string
  he_source_hook :: string
  he_created_at :: gotime

definition HistoryEventOf :: "HistoryEvent \<Rightarrow> HistoryEvent rt" where
  "HistoryEventOf s0 =
     (let s = s0\<lparr>he_created_at := round0 (utc (he_created_at s0))\<rparr>
      in if \<not> historyIdentifier (he_id s) True \<or> \<not> historyIdentifier (he_kind s) True
            \<or> \<not> historyText (he_client s) False \<or> \<not> historyIdentifier (he_agent s) False
            \<or> \<not> historyIdentifier (he_session_id s) False \<or> \<not> historyText (he_source_hook s) False
            \<or> \<not> validPath (he_workspace s) \<or> \<not> validHistoryTime (he_created_at s)
         then Inl ErrInvalid
         else Inr (s\<lparr>he_created_at := round0 (utc (he_created_at s))\<rparr>))"

definition historyAfter :: "HistoryAnchor \<Rightarrow> HistoryAnchor \<Rightarrow> bool" where
  "historyAfter a b \<longleftrightarrow> after (ha_at a) (ha_at b) \<or> (time_equal (ha_at a) (ha_at b) \<and> ha_id a > ha_id b)"

definition event_anchor :: "HistoryEvent \<Rightarrow> HistoryAnchor" where
  "event_anchor e = \<lparr>ha_at = he_created_at e, ha_id = he_id e\<rparr>"

section \<open>Pages\<close>

record HistoryPage =
  pg_source :: HistorySource
  pg_selection :: HistorySelection
  pg_events :: "HistoryEvent list"
  pg_more :: bool
  pg_next :: HistoryAnchor

definition Prefix :: "HistoryPage \<Rightarrow> int \<Rightarrow> HistoryPage rt" where
  "Prefix p limit =
     (if \<not> history_source_valid (pg_source p) \<or> \<not> history_selection_valid (pg_selection p)
         \<or> limit < 1 \<or> limit > int (length (pg_events p)) then Inl ErrInvalid
      else let has_more = (limit < int (length (pg_events p)) \<or> pg_more p);
               events = take (nat limit) (pg_events p)
           in Inr (p\<lparr>pg_more := has_more, pg_events := events,
                     pg_next := (if has_more then event_anchor (last events) else pg_next p)\<rparr>))"

fun history_rows ::
  "HistorySource \<Rightarrow> HistorySelection \<Rightarrow> HistoryAnchor option \<Rightarrow> string list \<Rightarrow> HistoryEvent list \<Rightarrow> unit rt" where
  "history_rows source selection prev seen [] = Inr ()"
| "history_rows source selection prev seen (e # es) =
     (case HistoryEventOf e of
        Inl err \<Rightarrow> Inl err
      | Inr _ \<Rightarrow>
          if he_workspace e \<noteq> w_path (hsrc_worktree source) \<or> before (he_created_at e) (hs_from selection)
             \<or> \<not> before (he_created_at e) (hs_to selection) \<or> List.member seen (he_id e) then Inl ErrInvalid
          else if (\<not> anchor_zero (hs_before selection) \<and> \<not> historyAfter (hs_before selection) (event_anchor e))
                  \<or> (case prev of None \<Rightarrow> False | Some a \<Rightarrow> \<not> historyAfter a (event_anchor e)) then Inl ErrInvalid
          else history_rows source selection (Some (event_anchor e)) (he_id e # seen) es)"

definition HistoryPageOf :: "HistorySource \<Rightarrow> HistorySelection \<Rightarrow> HistoryEvent list \<Rightarrow> HistoryPage rt" where
  "HistoryPageOf source selection rows =
     (if \<not> history_source_valid source \<or> \<not> history_selection_valid selection then Inl ErrInvalid
      else if int (length rows) > hs_limit selection + 1 then Inl ErrLimit
      else case history_rows source selection None [] rows of
             Inl err \<Rightarrow> Inl err
           | Inr _ \<Rightarrow>
               let p = \<lparr>pg_source = source, pg_selection = selection, pg_events = rows, pg_more = False, pg_next = zero_anchor\<rparr>
               in if int (length rows) > hs_limit selection then Prefix p (hs_limit selection) else Inr p)"

text \<open>
  \<open>HistoryPageFrom\<close>; \<open>None\<close> is a nil slice. The comparison of the transported anchor uses the last
  event of the validated page.
\<close>

definition HistoryPageFrom ::
  "HistorySource \<Rightarrow> HistorySelection \<Rightarrow> HistoryEvent list option \<Rightarrow> bool \<Rightarrow> HistoryAnchor \<Rightarrow> HistoryPage rt" where
  "HistoryPageFrom source selection events has_more nxt =
     (case events of
        None \<Rightarrow> Inl ErrInvalid
      | Some rows \<Rightarrow>
          if int (length rows) > hs_limit selection then Inl ErrInvalid
          else (case HistoryPageOf source selection rows of
                  Inl err \<Rightarrow> Inl err
                | Inr p \<Rightarrow>
                    if has_more
                    then if pg_events p = [] \<or> \<not> time_equal (ha_at nxt) (he_created_at (last (pg_events p)))
                            \<or> ha_id nxt \<noteq> he_id (last (pg_events p)) then Inl ErrInvalid
                         else Inr (p\<lparr>pg_more := True, pg_next := event_anchor (last (pg_events p))\<rparr>)
                    else if \<not> anchor_zero nxt then Inl ErrInvalid
                    else Inr p))"

section \<open>The order of events\<close>

text \<open>Events that \<open>HistoryEventOf\<close> returned, the only ones a caller can hold.\<close>

definition event_ok :: "HistoryEvent \<Rightarrow> bool" where
  "event_ok e \<longleftrightarrow> HistoryEventOf e = Inr e"

lemma event_ok_facts: "event_ok e \<Longrightarrow> mono (he_created_at e) = None \<and> \<not> is_zero (he_created_at e)
    \<and> validHistoryTime (he_created_at e) \<and> historyIdentifier (he_id e) True"
proof -
  assume ok: "event_ok e"
  have "e = e\<lparr>he_created_at := round0 (utc (he_created_at e))\<rparr>"
    using ok by (auto simp: event_ok_def HistoryEventOf_def Let_def round0_utc_commute split: if_splits)
  then have t: "he_created_at e = round0 (utc (he_created_at e))"
    by (metis HistoryEvent.select_convs(8) HistoryEvent.surjective HistoryEvent.update_convs(8))
  then have "mono (he_created_at e) = None" by (metis mono_round0)
  moreover have "validHistoryTime (round0 (utc (he_created_at e)))" "historyIdentifier (he_id e) True"
    using ok by (auto simp: event_ok_def HistoryEventOf_def Let_def split: if_splits)
  ultimately show ?thesis using t by (simp add: validHistoryTime_def)
qed

abbreviation wall_anchor :: "HistoryAnchor \<Rightarrow> bool" where
  "wall_anchor a \<equiv> mono (ha_at a) = None"

lemma historyAfter_wall:
  "wall_anchor a \<Longrightarrow> wall_anchor b \<Longrightarrow>
    historyAfter a b \<longleftrightarrow> wall (ha_at b) < wall (ha_at a) \<or> (wall (ha_at a) = wall (ha_at b) \<and> ha_id b < ha_id a)"
  by (auto simp: historyAfter_def after_def time_equal_def tcompare_def)

lemma historyAfter_trans:
  "wall_anchor a \<Longrightarrow> wall_anchor b \<Longrightarrow> wall_anchor c \<Longrightarrow> historyAfter a b \<Longrightarrow> historyAfter b c \<Longrightarrow> historyAfter a c"
  by (auto simp: historyAfter_wall)

lemma historyAfter_irrefl: "wall_anchor a \<Longrightarrow> \<not> historyAfter a a"
  by (simp add: historyAfter_wall)

lemma event_anchor_simps [simp]: "ha_at (event_anchor e) = he_created_at e" "ha_id (event_anchor e) = he_id e"
  by (simp_all add: event_anchor_def)

abbreviation descending :: "HistoryEvent list \<Rightarrow> bool" where
  "descending \<equiv> sorted_wrt (\<lambda>d e. historyAfter (event_anchor d) (event_anchor e))"

text \<open>The conditions on a row that do not depend on the other rows.\<close>

definition row_fits :: "HistorySource \<Rightarrow> HistorySelection \<Rightarrow> HistoryEvent \<Rightarrow> bool" where
  "row_fits source selection e \<longleftrightarrow> he_workspace e = w_path (hsrc_worktree source)
     \<and> \<not> before (he_created_at e) (hs_from selection) \<and> before (he_created_at e) (hs_to selection)
     \<and> (anchor_zero (hs_before selection) \<or> historyAfter (hs_before selection) (event_anchor e))"

lemma history_rows_iff:
  assumes "list_all event_ok rows" "\<forall>a. prev = Some a \<longrightarrow> wall_anchor a"
  shows "history_rows source selection prev seen rows = Inr () \<longleftrightarrow>
    list_all (row_fits source selection) rows \<and> descending rows \<and> distinct (map he_id rows)
    \<and> set (map he_id rows) \<inter> set seen = {}
    \<and> (\<forall>a e. prev = Some a \<longrightarrow> e \<in> set rows \<longrightarrow> historyAfter a (event_anchor e))"
  using assms
proof (induction rows arbitrary: prev seen)
  case (Cons e es)
  have ok: "event_ok e" "HistoryEventOf e = Inr e" "wall_anchor (event_anchor e)"
    using Cons.prems(1) event_ok_facts by (auto simp: event_ok_def)
  have IH: "history_rows source selection (Some (event_anchor e)) (he_id e # seen) es = Inr () \<longleftrightarrow>
    list_all (row_fits source selection) es \<and> descending es \<and> distinct (map he_id es)
    \<and> set (map he_id es) \<inter> set (he_id e # seen) = {}
    \<and> (\<forall>f \<in> set es. historyAfter (event_anchor e) (event_anchor f))"
    using Cons.IH [of "Some (event_anchor e)" "he_id e # seen"] Cons.prems(1) ok(3) by (simp add: Ball_def)
  have tail: "historyAfter a (event_anchor f)"
    if "prev = Some a" "historyAfter a (event_anchor e)" "historyAfter (event_anchor e) (event_anchor f)" "f \<in> set es" for a f
  proof -
    have "wall_anchor (event_anchor f)" using Cons.prems(1) that(4) event_ok_facts by (auto simp: list_all_iff)
    then show ?thesis using historyAfter_trans [of a "event_anchor e"] Cons.prems(2) that ok(3) by blast
  qed
  have step: "history_rows source selection prev seen (e # es) = Inr () \<longleftrightarrow>
      row_fits source selection e \<and> he_id e \<notin> set seen \<and> (\<forall>a. prev = Some a \<longrightarrow> historyAfter a (event_anchor e))
      \<and> history_rows source selection (Some (event_anchor e)) (he_id e # seen) es = Inr ()"
    using ok(2) by (auto simp: row_fits_def split: option.splits)
  show ?case unfolding step IH using tail by (auto simp: image_iff)
qed simp

lemma HistoryPageOf_Inr:
  assumes "list_all event_ok rows" "HistoryPageOf source selection rows = Inr p"
  shows "1 \<le> hs_limit selection \<and> hs_limit selection \<le> MaxHistoryPageEvents
    \<and> history_rows source selection None [] rows = Inr ()
    \<and> pg_events p = take (nat (hs_limit selection)) rows
    \<and> (pg_more p \<longleftrightarrow> hs_limit selection < int (length rows))
    \<and> (pg_more p \<longrightarrow> pg_next p = event_anchor (last (pg_events p)))"
proof -
  have lim: "1 \<le> hs_limit selection" "hs_limit selection \<le> MaxHistoryPageEvents"
    using assms(2)
    by (auto simp: HistoryPageOf_def history_selection_valid_def HistorySelectionOf_def Let_def
        split: if_splits sum.splits)
  have rows: "history_rows source selection None [] rows = Inr ()"
    using assms(2) by (auto simp: HistoryPageOf_def split: if_splits sum.splits)
  show ?thesis
    using assms(2) lim rows
    by (auto simp: HistoryPageOf_def Prefix_def Let_def split: if_splits)
qed

text \<open>The rows that follow an anchor in a complete descending history.\<close>

definition remaining :: "HistoryEvent list \<Rightarrow> HistoryAnchor \<Rightarrow> HistoryEvent list" where
  "remaining hist a = filter (\<lambda>e. anchor_zero a \<or> historyAfter a (event_anchor e)) hist"

lemma event_anchor_nonzero: "event_ok e \<Longrightarrow> \<not> anchor_zero (event_anchor e)"
  using event_ok_facts by (simp add: anchor_zero_def)

lemma historyAfter_antisym:
  "wall_anchor a \<Longrightarrow> wall_anchor b \<Longrightarrow> historyAfter a b \<Longrightarrow> \<not> historyAfter b a"
  by (auto simp: historyAfter_wall)

lemma descending_after:
  assumes "descending (us @ e # vs)" "list_all event_ok (us @ e # vs)"
  shows "filter (\<lambda>f. historyAfter (event_anchor e) (event_anchor f)) (us @ e # vs) = vs"
proof -
  have e: "wall_anchor (event_anchor e)" using assms(2) event_ok_facts [of e] by simp
  have "\<forall>u \<in> set us. \<not> historyAfter (event_anchor e) (event_anchor u)"
  proof
    fix u assume u: "u \<in> set us"
    then have "wall_anchor (event_anchor u)" using assms(2) event_ok_facts [of u] by (simp add: list_all_iff)
    moreover have "historyAfter (event_anchor u) (event_anchor e)"
      using assms(1) u by (simp add: sorted_wrt_append)
    ultimately show "\<not> historyAfter (event_anchor e) (event_anchor u)" using e by (intro historyAfter_antisym)
  qed
  then have "filter (\<lambda>f. historyAfter (event_anchor e) (event_anchor f)) us = []"
    by (simp only: filter_empty_conv)
  moreover have "\<forall>v \<in> set vs. historyAfter (event_anchor e) (event_anchor v)"
    using assms(1) by (simp add: sorted_wrt_append)
  then have "filter (\<lambda>f. historyAfter (event_anchor e) (event_anchor f)) vs = vs"
    by (simp only: filter_id_conv)
  moreover have "\<not> historyAfter (event_anchor e) (event_anchor e)" using e by (rule historyAfter_irrefl)
  ultimately show ?thesis by (simp only: filter_append filter.simps if_False append_Nil)
qed

lemma remaining_next:
  assumes "descending hist" "list_all event_ok hist" "anchor_zero a \<or> wall_anchor a"
    and "remaining hist a = us @ e # vs"
  shows "remaining hist (event_anchor e) = vs"
proof -
  have e: "e \<in> set (remaining hist a)" using assms(4) by simp
  then have ok: "event_ok e" "anchor_zero a \<or> historyAfter a (event_anchor e)"
    using assms(2) by (auto simp: remaining_def list_all_iff)
  have in_rest: "anchor_zero a \<or> historyAfter a (event_anchor f)"
    if "f \<in> set hist" "historyAfter (event_anchor e) (event_anchor f)" for f
  proof (cases "anchor_zero a")
    case False
    have "wall_anchor (event_anchor f)" "wall_anchor (event_anchor e)"
      using assms(2) that(1) ok(1) event_ok_facts by (auto simp: list_all_iff)
    moreover have "wall_anchor a" "historyAfter a (event_anchor e)" using assms(3) ok(2) False by auto
    ultimately show ?thesis using historyAfter_trans that(2) by blast
  qed simp
  have "remaining hist (event_anchor e) = filter (\<lambda>f. historyAfter (event_anchor e) (event_anchor f)) hist"
    using event_anchor_nonzero [OF ok(1)] by (simp add: remaining_def)
  also have "\<dots> = filter (\<lambda>f. historyAfter (event_anchor e) (event_anchor f)) (remaining hist a)"
    using in_rest by (auto simp: remaining_def intro!: filter_cong)
  also have "\<dots> = filter (\<lambda>f. historyAfter (event_anchor e) (event_anchor f)) (us @ e # vs)"
    by (simp only: assms(4))
  also have "\<dots> = vs"
  proof (rule descending_after)
    have "descending (remaining hist a)" using assms(1) by (simp add: remaining_def sorted_wrt_filter)
    then show "descending (us @ e # vs)" by (simp only: assms(4))
    have "list_all event_ok (remaining hist a)" using assms(2) by (auto simp: remaining_def list_all_iff)
    then show "list_all event_ok (us @ e # vs)" by (simp only: assms(4))
  qed
  finally show ?thesis .
qed

lemma HistorySelectionOf_Inr:
  assumes "HistorySelectionOf f t l b = Inr sel"
  shows "hs_from sel = round0 (utc f)" "hs_to sel = round0 (utc t)" "hs_limit sel = l"
    "hs_before sel = (if \<not> anchor_zero b then b\<lparr>ha_at := round0 (utc (ha_at b))\<rparr> else b)"
    "validHistoryTime (hs_from sel)" "validHistoryTime (hs_to sel)" "before (hs_from sel) (hs_to sel)"
    "1 \<le> l" "l \<le> MaxHistoryPageEvents"
    "anchor_zero (hs_before sel) \<or> (validHistoryTime (ha_at (hs_before sel)) \<and> historyIdentifier (ha_id (hs_before sel)) True
       \<and> \<not> before (ha_at (hs_before sel)) (hs_from sel) \<and> before (ha_at (hs_before sel)) (hs_to sel))"
  using assms by (auto simp: HistorySelectionOf_def Let_def split: if_splits)

lemma normal_time: "round0 (utc (round0 (utc t))) = round0 (utc t)"
  by (simp add: round0_def utc_def)

lemma normal_anchor:
  "(if \<not> anchor_zero a then a\<lparr>ha_at := round0 (utc (ha_at a))\<rparr> else a) = a"
  if "a = (if \<not> anchor_zero b then b\<lparr>ha_at := round0 (utc (ha_at b))\<rparr> else b)"
  using that by (auto simp: normal_time)

lemma HistorySelectionOf_again:
  assumes "HistorySelectionOf f t l b = Inr sel"
  shows "history_selection_valid sel" "anchor_zero (hs_before sel) \<or> wall_anchor (hs_before sel)"
    "round0 (utc (hs_from sel)) = hs_from sel" "round0 (utc (hs_to sel)) = hs_to sel"
proof -
  note s = HistorySelectionOf_Inr [OF assms]
  show n: "round0 (utc (hs_from sel)) = hs_from sel" "round0 (utc (hs_to sel)) = hs_to sel"
    using s(1,2) by (simp_all add: normal_time)
  show "anchor_zero (hs_before sel) \<or> wall_anchor (hs_before sel)" using s(4) by simp
  have "HistorySelectionOf (hs_from sel) (hs_to sel) (hs_limit sel) (hs_before sel) \<noteq> Inl e" for e
    unfolding HistorySelectionOf_def Let_def n normal_anchor [OF s(4)] using s(3,5-10) by auto
  then show "history_selection_valid sel" by (auto simp: history_selection_valid_def split: sum.splits)
qed

lemma next_selection:
  assumes "HistorySelectionOf f t l b = Inr sel" "event_ok e" "row_fits source sel e"
  shows "HistorySelectionOf (hs_from sel) (hs_to sel) (hs_limit sel) (event_anchor e)
      = Inr (sel\<lparr>hs_before := event_anchor e\<rparr>)"
proof -
  note sel = HistorySelectionOf_again [OF assms(1)] HistorySelectionOf_Inr [OF assms(1)]
  have e: "validHistoryTime (he_created_at e)" "historyIdentifier (he_id e) True" "\<not> anchor_zero (event_anchor e)"
    using event_ok_facts [OF assms(2)] event_anchor_nonzero [OF assms(2)] by simp_all
  have "HistoryEventOf e = Inr e" using assms(2) by (simp add: event_ok_def)
  then have "e\<lparr>he_created_at := round0 (utc (he_created_at e))\<rparr> = e"
    by (auto simp: HistoryEventOf_def Let_def round0_utc_commute split: if_splits)
  then have t: "round0 (utc (he_created_at e)) = he_created_at e"
    by (metis HistoryEvent.select_convs(8) HistoryEvent.surjective HistoryEvent.update_convs(8))
  have "(event_anchor e)\<lparr>ha_at := round0 (utc (ha_at (event_anchor e)))\<rparr> = event_anchor e"
    using t by (simp add: event_anchor_def)
  then show ?thesis
    using sel e assms(3) by (simp add: HistorySelectionOf_def Let_def row_fits_def)
qed

section \<open>Properties\<close>

text \<open>
  A page is an exact window. Every accepted page of constructed events holds at most the
  requested number of rows, the first ones fetched, all of the registered workspace and inside the
  half-open time window, strictly descending by time and then identifier, after the anchor, without a
  repeated identifier; the look-ahead row decides whether there is more, and the continuation anchor
  is that of the last row kept.
\<close>

theorem history_page_exact:
  assumes "list_all event_ok rows" "HistoryPageOf source selection rows = Inr p"
  shows "pg_events p = take (nat (hs_limit selection)) rows \<and> int (length (pg_events p)) \<le> hs_limit selection
    \<and> list_all (row_fits source selection) (pg_events p) \<and> descending (pg_events p)
    \<and> distinct (map he_id (pg_events p))
    \<and> (pg_more p \<longleftrightarrow> hs_limit selection < int (length rows))
    \<and> (pg_more p \<longrightarrow> pg_events p \<noteq> [] \<and> pg_next p = event_anchor (last (pg_events p)))"
proof -
  note p = HistoryPageOf_Inr [OF assms]
  have rows: "list_all (row_fits source selection) rows" "descending rows" "distinct (map he_id rows)"
    using p history_rows_iff [OF assms(1), of None source selection "[]"] by auto
  have "list_all (row_fits source selection) (take n rows)" "descending (take n rows)"
    "distinct (map he_id (take n rows))" for n
    using rows by (auto simp: list_all_iff dest: in_set_takeD intro: sorted_wrt_take)
      (metis distinct_take take_map)
  then show ?thesis using p by auto
qed

text \<open>Well-formed rows of the window, at most one more than the limit, are always accepted.\<close>

lemma HistoryPageOf_accepts:
  assumes "history_source_valid source" "HistorySelectionOf f t l b = Inr sel"
    and "list_all event_ok rows" "descending rows" "distinct (map he_id rows)" "list_all (row_fits source sel) rows"
    and "int (length rows) \<le> hs_limit sel + 1"
  shows "\<exists>p. HistoryPageOf source sel rows = Inr p"
proof -
  have lim: "1 \<le> hs_limit sel" using HistorySelectionOf_Inr(3,8) [OF assms(2)] by simp
  have "history_rows source sel None [] rows = Inr ()"
    using assms(3-6) history_rows_iff [of rows None source sel "[]"] by simp
  then show ?thesis
    using assms(1,7) HistorySelectionOf_again(1) [OF assms(2)] lim by (auto simp: HistoryPageOf_def Prefix_def Let_def)
qed

text \<open>
  C34: Following the continuation loses and repeats nothing. When a reader fetches the next limit + 1
  rows after the anchor from a complete history of the window, the page is accepted, its events
  followed by the rows after its continuation anchor are exactly the rows after the given anchor, and
  the continuation anchor forms a valid next selection.
\<close>

theorem history_pages_complete:
  assumes "history_source_valid source" "HistorySelectionOf f t l b = Inr sel"
    and "list_all event_ok hist" "descending hist" "distinct (map he_id hist)"
    and "list_all (row_fits source (sel\<lparr>hs_before := zero_anchor\<rparr>)) hist"
    and "rows = take (Suc (nat (hs_limit sel))) (remaining hist (hs_before sel))"
  shows "\<exists>p. HistoryPageOf source sel rows = Inr p
    \<and> pg_events p @ (if pg_more p then remaining hist (pg_next p) else []) = remaining hist (hs_before sel)
    \<and> (pg_more p \<longrightarrow> HistorySelectionOf (hs_from sel) (hs_to sel) (hs_limit sel) (pg_next p)
          = Inr (sel\<lparr>hs_before := pg_next p\<rparr>))"
proof -
  let ?R = "remaining hist (hs_before sel)" and ?n = "nat (hs_limit sel)"
  note sel = HistorySelectionOf_again [OF assms(2)]
  have lim: "1 \<le> hs_limit sel" using HistorySelectionOf_Inr(3,8) [OF assms(2)] by simp
  have R: "list_all event_ok ?R" "descending ?R" "distinct (map he_id ?R)" "list_all (row_fits source sel) ?R"
    using assms(3-6)
    by (auto simp: remaining_def list_all_iff sorted_wrt_filter distinct_map_filter row_fits_def anchor_zero_def zero_anchor_def)
  have rows: "list_all event_ok rows" "descending rows" "distinct (map he_id rows)" "list_all (row_fits source sel) rows"
    using R by (auto simp: assms(7) list_all_iff take_map [symmetric] intro: sorted_wrt_take distinct_take dest: in_set_takeD)
  have "length rows \<le> Suc ?n" by (simp add: assms(7))
  then have len: "int (length rows) \<le> hs_limit sel + 1" using lim by linarith
  obtain p where p: "HistoryPageOf source sel rows = Inr p"
    using HistoryPageOf_accepts [OF assms(1,2) rows len] by blast
  note pf = HistoryPageOf_Inr [OF rows(1) p]
  show ?thesis
  proof (cases "pg_more p")
    case False
    then have "length rows \<le> ?n" using pf by auto
    then have "?R = rows" "length ?R \<le> ?n" by (auto simp: assms(7) min_def split: if_splits)
    then show ?thesis using p pf False by (intro exI [of _ p]) simp
  next
    case True
    have ev: "pg_events p = take ?n ?R" using pf by (simp add: assms(7) min_def)
    have "?n < length ?R" "0 < ?n" using True pf lim by (auto simp: assms(7))
    then have "take ?n ?R \<noteq> []" by auto
    define e where "e = last (take ?n ?R)"
    have split: "?R = butlast (take ?n ?R) @ e # drop ?n ?R"
      using \<open>take ?n ?R \<noteq> []\<close> append_take_drop_id [of ?n ?R]
      by (metis append_butlast_last_id append_Cons append_Nil append_assoc e_def)
    have nxt: "pg_next p = event_anchor e" using pf True ev e_def by simp
    have "e \<in> set ?R" using last_in_set [OF \<open>take ?n ?R \<noteq> []\<close>] by (auto simp: e_def dest: in_set_takeD)
    then have "event_ok e" "row_fits source sel e" using R(1,4) by (auto simp: list_all_iff)
    then have "HistorySelectionOf (hs_from sel) (hs_to sel) (hs_limit sel) (pg_next p) = Inr (sel\<lparr>hs_before := pg_next p\<rparr>)"
      using next_selection [OF assms(2)] nxt by simp
    moreover have "remaining hist (pg_next p) = drop ?n ?R"
      unfolding nxt using assms(4,3) sel(2) split by (rule remaining_next)
    ultimately show ?thesis using p True ev by (intro exI [of _ p]) simp
  qed
qed

section \<open>Witnesses\<close>

definition ex_hist :: "int \<Rightarrow> string \<Rightarrow> HistoryEvent" where
  "ex_hist t i = \<lparr>he_id = i, he_kind = ''k'', he_client = '''', he_agent = '''', he_session_id = '''',
                  he_workspace = ''/a'', he_source_hook = '''', he_created_at = GoTime t None 0\<rparr>"

definition ex_source :: HistorySource where
  "ex_source = \<lparr>hsrc_worktree = ex_worktree, hsrc_witness = ''w''\<rparr>"

definition ex_window :: HistorySelection where
  "ex_window = \<lparr>hs_from = GoTime 1 None 0, hs_to = GoTime 10 None 0, hs_limit = 1, hs_before = zero_anchor\<rparr>"

lemma ex_source_valid: "history_source_valid ex_source"
  using ex_worktree_valid ex_paths
  by (simp add: history_source_valid_def HistorySourceOf_def ex_source_def ex_worktree_def)

lemma ex_window_valid: "HistorySelectionOf (GoTime 1 None 0) (GoTime 10 None 0) 1 zero_anchor = Inr ex_window"
proof -
  have z: "anchor_zero zero_anchor" by (simp add: anchor_zero_def zero_anchor_def is_zero_def)
  have t: "validHistoryTime (GoTime 1 None 0)" "validHistoryTime (GoTime 10 None 0)"
    "before (GoTime 1 None 0) (GoTime 10 None 0)"
    by (simp_all add: validHistoryTime_def is_zero_def year_def year_of_days_def before_def tcompare_def)
  show ?thesis
    by (simp add: HistorySelectionOf_def round0_def utc_def z t MaxHistoryPageEvents_def ex_window_def)
qed

lemma ex_hist_ok: "0 < t \<Longrightarrow> t < 1000 \<Longrightarrow> solid c \<Longrightarrow> event_ok (ex_hist t [c])"
proof -
  assume t: "0 < t" "t < 1000" and c: "solid c"
  have id: "historyIdentifier [d] True" if "solid d" for d
  proof -
    have "list_all (\<lambda>x. ord x < 128) [d]" "33 \<le> ord d" "ord d \<le> 126" using that by (simp_all add: solid_def)
    then show ?thesis
      using trim_space_solid [of "[d]"] that
      by (simp add: historyIdentifier_def historyText_def valid_utf8_ascii runes_ascii is_control_def)
  qed
  have empty: "historyIdentifier '''' False" "historyText '''' False"
    by (simp_all add: historyIdentifier_def historyText_def valid_utf8_ascii runes_ascii)
  have "t div (24 * hour) = 0" using t by simp
  then have y: "validHistoryTime (GoTime t None 0)"
    using t by (simp add: validHistoryTime_def is_zero_def year_def year_of_days_def)
  have "solid CHR ''k''" by (simp add: solid_def)
  then show ?thesis
    using id c empty y ex_paths(1)
    by (simp add: event_ok_def HistoryEventOf_def ex_hist_def round0_def utc_def Let_def)
qed

lemma ex_hist_all:
  "list_all event_ok [ex_hist 5 ''b'', ex_hist 5 ''a'', ex_hist 3 ''c'']"
  "descending [ex_hist 5 ''b'', ex_hist 5 ''a'', ex_hist 3 ''c'']"
  "distinct (map he_id [ex_hist 5 ''b'', ex_hist 5 ''a'', ex_hist 3 ''c''])"
  "list_all (row_fits ex_source (ex_window\<lparr>hs_before := zero_anchor\<rparr>)) [ex_hist 5 ''b'', ex_hist 5 ''a'', ex_hist 3 ''c'']"
proof -
  show "list_all event_ok [ex_hist 5 ''b'', ex_hist 5 ''a'', ex_hist 3 ''c'']"
    by (simp add: ex_hist_ok solid_def)
  have "historyAfter (event_anchor (ex_hist 5 ''b'')) (event_anchor (ex_hist 5 ''a''))"
    "historyAfter (event_anchor (ex_hist 5 ''b'')) (event_anchor (ex_hist 3 ''c''))"
    "historyAfter (event_anchor (ex_hist 5 ''a'')) (event_anchor (ex_hist 3 ''c''))"
    by (simp_all add: historyAfter_wall ex_hist_def less_char_def)
  then show "descending [ex_hist 5 ''b'', ex_hist 5 ''a'', ex_hist 3 ''c'']" by simp
  show "distinct (map he_id [ex_hist 5 ''b'', ex_hist 5 ''a'', ex_hist 3 ''c''])" by (simp add: ex_hist_def)
  show "list_all (row_fits ex_source (ex_window\<lparr>hs_before := zero_anchor\<rparr>)) [ex_hist 5 ''b'', ex_hist 5 ''a'', ex_hist 3 ''c'']"
    by (simp add: row_fits_def ex_source_def ex_worktree_def ex_window_def ex_hist_def before_def tcompare_def
        anchor_zero_def zero_anchor_def is_zero_def)
qed

theorem history_pages_complete_witness:
  "\<exists>p. HistoryPageOf ex_source ex_window [ex_hist 5 ''b'', ex_hist 5 ''a''] = Inr p
    \<and> pg_events p @ (if pg_more p then remaining [ex_hist 5 ''b'', ex_hist 5 ''a'', ex_hist 3 ''c''] (pg_next p) else [])
        = [ex_hist 5 ''b'', ex_hist 5 ''a'', ex_hist 3 ''c'']"
proof -
  have r: "remaining [ex_hist 5 ''b'', ex_hist 5 ''a'', ex_hist 3 ''c''] (hs_before ex_window)
      = [ex_hist 5 ''b'', ex_hist 5 ''a'', ex_hist 3 ''c'']"
    by (simp add: remaining_def ex_window_def anchor_zero_def zero_anchor_def is_zero_def)
  have t: "[ex_hist 5 ''b'', ex_hist 5 ''a''] = take (Suc (nat (hs_limit ex_window)))
      (remaining [ex_hist 5 ''b'', ex_hist 5 ''a'', ex_hist 3 ''c''] (hs_before ex_window))"
    by (simp only: r) (simp add: ex_window_def)
  show ?thesis
    using history_pages_complete [OF ex_source_valid ex_window_valid ex_hist_all t] by (simp only: r) blast
qed

theorem history_page_exact_witness:
  "\<exists>p. HistoryPageOf ex_source ex_window [ex_hist 5 ''b'', ex_hist 5 ''a''] = Inr p
     \<and> pg_events p = [ex_hist 5 ''b''] \<and> pg_more p"
proof -
  have ok: "list_all event_ok [ex_hist 5 ''b'', ex_hist 5 ''a'']" using ex_hist_all(1) by simp
  have z: "ex_window\<lparr>hs_before := zero_anchor\<rparr> = ex_window" by (simp add: ex_window_def)
  have "int (length [ex_hist 5 ''b'', ex_hist 5 ''a'']) \<le> hs_limit ex_window + 1" by (simp add: ex_window_def)
  then obtain p where p: "HistoryPageOf ex_source ex_window [ex_hist 5 ''b'', ex_hist 5 ''a''] = Inr p"
    using HistoryPageOf_accepts [OF ex_source_valid ex_window_valid ok] ex_hist_all(2-4) unfolding z by auto
  from history_page_exact [OF ok p] p show ?thesis by (auto simp: ex_window_def)
qed

end
