(* ===== verification/Attestation.thy ===== *)
theory Attestation
  imports Go_Format
begin

text \<open>
  The attested chain of instructions and command identities: the hash contract
  (\<open>domain/attestation/hash.go\<close>), the published anchors (\<open>domain/attestation/anchor.go\<close>) and the
  walk and extension of the stored chain (\<open>infrastructure/sqlite/attestation_store.go\<close>,
  \<open>infrastructure/sqlite/attestation_anchor.go\<close>). The tables that the SQL statements read and
  write are association lists of an explicit store; a digest is a string of 32 bytes. A line
  of the anchor file is represented by the record that its JSON decodes to. \<open>EventIDFrom\<close> does not
  refuse line breaks, so that a payload determines its content only when identifier and time hold
  none; what an anchor binds is therefore stated over the payloads.
\<close>

section \<open>The hash contract\<close>

datatype att_error =
    EmptyEventID | EmptyCreatedAt | UnknownKind string | BadHexDigest | BadDigestSize nat
  | NegativeSeq | BadHead att_error | EmptyTimestamp | SeqBackward int int | ConflictingHeads int
  | MissingRow string | LinkSeq int int | PredecessorMismatch int | ContentMismatch int
  | LinkMismatch int | HeadSeq int int | HeadMismatch | HeadMissing | FileAhead int int
  | NilEvent | UnsupportedVersion int

type_synonym 'a att = "att_error + 'a"

abbreviation nl :: char where "nl \<equiv> CHR 0x0A"

definition genesisPayload :: string where "genesisPayload = ''traceary.attest.genesis.v1'' @ [nl]"
definition contentVersionV1 :: string where "contentVersionV1 = ''traceary.attest.v1''"
definition linkVersionV1 :: string where "linkVersionV1 = ''traceary.attest.link.v1''"

record PromptContent =
  pc_event_id :: string
  pc_created_at :: string
  pc_body :: string

record CommandContent =
  cc_event_id :: string
  cc_created_at :: string
  cc_command_text :: string
  cc_input_text :: string

definition GenesisSHA256 :: string where "GenesisSHA256 = sha256 genesisPayload"
definition GenesisHex :: string where "GenesisHex = hex_encode GenesisSHA256"

definition validateIdentity :: "string \<Rightarrow> string \<Rightarrow> unit att" where
  "validateIdentity eventID createdAt =
     (if trim_space eventID = '''' then Inl EmptyEventID
      else if trim_space createdAt = '''' then Inl EmptyCreatedAt
      else Inr ())"

definition encodePromptContent :: "PromptContent \<Rightarrow> string" where
  "encodePromptContent c =
     contentVersionV1 @ [nl] @ ''kind prompt'' @ [nl] @ ''event_id '' @ pc_event_id c @ [nl] @
     ''created_at '' @ pc_created_at c @ [nl] @ ''body '' @ itoa (length (pc_body c)) @ [nl] @ pc_body c"

definition encodeCommandContent :: "CommandContent \<Rightarrow> string" where
  "encodeCommandContent c =
     contentVersionV1 @ [nl] @ ''kind command'' @ [nl] @ ''event_id '' @ cc_event_id c @ [nl] @
     ''created_at '' @ cc_created_at c @ [nl] @ ''command_text '' @ itoa (length (cc_command_text c)) @ [nl] @
     cc_command_text c @ [nl] @ ''input_text '' @ itoa (length (cc_input_text c)) @ [nl] @ cc_input_text c"

definition PromptContentSHA256 :: "PromptContent \<Rightarrow> string att" where
  "PromptContentSHA256 c =
     (case validateIdentity (pc_event_id c) (pc_created_at c) of
        Inl e \<Rightarrow> Inl e | Inr _ \<Rightarrow> Inr (sha256 (encodePromptContent c)))"

definition CommandContentSHA256 :: "CommandContent \<Rightarrow> string att" where
  "CommandContentSHA256 c =
     (case validateIdentity (cc_event_id c) (cc_created_at c) of
        Inl e \<Rightarrow> Inl e | Inr _ \<Rightarrow> Inr (sha256 (encodeCommandContent c)))"

definition ContentSHA256 :: "string \<Rightarrow> PromptContent \<Rightarrow> CommandContent \<Rightarrow> string att" where
  "ContentSHA256 kind p c =
     (if kind = ''prompt'' then PromptContentSHA256 p
      else if kind = ''command'' then CommandContentSHA256 c
      else Inl (UnknownKind kind))"

definition link_payload :: "string \<Rightarrow> string \<Rightarrow> string" where
  "link_payload prev content =
     linkVersionV1 @ [nl] @ ''prev '' @ hex_encode prev @ [nl] @ ''content '' @ hex_encode content @ [nl]"

definition LinkSHA256 :: "string \<Rightarrow> string \<Rightarrow> string" where
  "LinkSHA256 prev content = sha256 (link_payload prev content)"

definition EncodeHex :: "string \<Rightarrow> string" where "EncodeHex d = hex_encode d"

definition ParseHex :: "string \<Rightarrow> string att" where
  "ParseHex s =
     (case hex_decode (trim_space s) of
        None \<Rightarrow> Inl BadHexDigest
      | Some raw \<Rightarrow> if length raw \<noteq> 32 then Inl (BadDigestSize (length raw)) else Inr raw)"

section \<open>Anchors\<close>

record AnchorRecord =
  ar_version :: int
  ar_seq :: int
  ar_head :: string
  ar_published_at :: string

datatype AnchorRelation = AnchorMatches | AnchorMissing | AnchorBehind | AnchorMismatch | AnchorAhead

definition validateAnchorRecord :: "AnchorRecord \<Rightarrow> unit att" where
  "validateAnchorRecord r =
     (if ar_seq r < 0 then Inl NegativeSeq
      else case ParseHex (ar_head r) of
        Inl e \<Rightarrow> Inl (BadHead e)
      | Inr _ \<Rightarrow> if trim_space (ar_published_at r) = '''' then Inl EmptyTimestamp else Inr ())"

definition FormatAnchorLine :: "AnchorRecord \<Rightarrow> AnchorRecord att" where
  "FormatAnchorLine r =
     (let rec = (if ar_version r = 0 then r\<lparr>ar_version := 1\<rparr> else r)
      in if ar_version rec \<noteq> 1 then Inl (UnsupportedVersion (ar_version rec))
         else case validateAnchorRecord rec of Inl e \<Rightarrow> Inl e | Inr _ \<Rightarrow> Inr rec)"

definition ParseAnchorLine :: "AnchorRecord \<Rightarrow> AnchorRecord att" where
  "ParseAnchorLine line =
     (if ar_version line \<noteq> 1 then Inl (UnsupportedVersion (ar_version line))
      else case validateAnchorRecord line of Inl e \<Rightarrow> Inl e | Inr _ \<Rightarrow> Inr line)"

fun parse_anchor_lines :: "AnchorRecord list \<Rightarrow> AnchorRecord list att" where
  "parse_anchor_lines [] = Inr []"
| "parse_anchor_lines (line # ls) =
     (case ParseAnchorLine line of
        Inl e \<Rightarrow> Inl e
      | Inr x \<Rightarrow> (case parse_anchor_lines ls of Inl e \<Rightarrow> Inl e | Inr xs \<Rightarrow> Inr (x # xs)))"

fun CheckAnchorHistory :: "AnchorRecord list \<Rightarrow> unit att" where
  "CheckAnchorHistory (prev # rec # rs) =
     (if ar_seq rec < ar_seq prev then Inl (SeqBackward (ar_seq prev) (ar_seq rec))
      else if ar_seq rec = ar_seq prev \<and> ar_head rec \<noteq> ar_head prev then Inl (ConflictingHeads (ar_seq rec))
      else CheckAnchorHistory (rec # rs))"
| "CheckAnchorHistory _ = Inr ()"

definition ParseAnchorFile :: "AnchorRecord list \<Rightarrow> AnchorRecord list att" where
  "ParseAnchorFile lns =
     (case parse_anchor_lines lns of
        Inl e \<Rightarrow> Inl e
      | Inr records \<Rightarrow> (case CheckAnchorHistory records of Inl e \<Rightarrow> Inl e | Inr _ \<Rightarrow> Inr records))"

text \<open>
  \<open>strings.EqualFold\<close> on heads: these are hexadecimal digits, possibly with surrounding white space,
  on which Unicode folding is the ASCII one.
\<close>

definition equal_fold :: "string \<Rightarrow> string \<Rightarrow> bool" where
  "equal_fold a b \<longleftrightarrow> map to_lower a = map to_lower b"

definition RelateAnchor :: "int \<Rightarrow> string \<Rightarrow> AnchorRecord \<Rightarrow> bool \<Rightarrow> AnchorRelation" where
  "RelateAnchor storeSeq storeHead lst present =
     (if \<not> present then AnchorMissing
      else if ar_seq lst < storeSeq then AnchorBehind
      else if ar_seq lst > storeSeq then AnchorAhead
      else if \<not> equal_fold (ar_head lst) storeHead then AnchorMismatch
      else AnchorMatches)"

definition DecideAnchorAppend :: "AnchorRecord \<Rightarrow> bool \<Rightarrow> AnchorRecord \<Rightarrow> bool att" where
  "DecideAnchorAppend lst present nxt =
     (case validateAnchorRecord nxt of
        Inl e \<Rightarrow> Inl e
      | Inr _ \<Rightarrow>
          if \<not> present then Inr True
          else if ar_seq nxt < ar_seq lst then Inl (FileAhead (ar_seq lst) (ar_seq nxt))
          else if ar_seq nxt = ar_seq lst
          then if \<not> equal_fold (ar_head lst) (ar_head nxt) then Inl (ConflictingHeads (ar_seq nxt)) else Inr False
          else Inr True)"

definition lastOrZero :: "AnchorRecord list \<Rightarrow> AnchorRecord" where
  "lastOrZero rs = (if rs = [] then \<lparr>ar_version = 0, ar_seq = 0, ar_head = '''', ar_published_at = ''''\<rparr> else last rs)"

text \<open>\<open>publishAttestationAnchor\<close> on the lines of the file, under its lock.\<close>

definition publishAttestationAnchor :: "AnchorRecord list \<Rightarrow> AnchorRecord \<Rightarrow> AnchorRecord list att" where
  "publishAttestationAnchor file r =
     (case ParseAnchorFile file of
        Inl e \<Rightarrow> Inl e
      | Inr records \<Rightarrow>
          (case DecideAnchorAppend (lastOrZero records) (records \<noteq> []) r of
             Inl e \<Rightarrow> Inl e
           | Inr appendLine \<Rightarrow>
               if \<not> appendLine then Inr file
               else case FormatAnchorLine r of Inl e \<Rightarrow> Inl e | Inr line \<Rightarrow> Inr (file @ [line])))"

section \<open>The stored chain\<close>

record storedLink =
  sl_seq :: int
  sl_event_id :: string
  sl_kind :: string
  sl_content_hex :: string
  sl_prev_hex :: string
  sl_link_hex :: string

text \<open>
  The rows that the chain reads and writes; the head row may be missing, and so may the two optional
  tables \<open>attestation_links\<close> and \<open>attestation_head\<close>, which one migration creates together.
\<close>

record AttestationStore =
  as_enabled :: bool
  as_links :: "storedLink list"
  as_head :: "(string \<times> int) option"
  as_events :: "(string \<times> string \<times> string) list"
  as_audits :: "(string \<times> string \<times> string) list"

definition loadAttestedPromptPlaintext :: "AttestationStore \<Rightarrow> string \<Rightarrow> (string \<times> string) att" where
  "loadAttestedPromptPlaintext st eventID =
     (case map_of (as_events st) eventID of None \<Rightarrow> Inl (MissingRow eventID) | Some row \<Rightarrow> Inr row)"

definition loadAttestedCommandPlaintext :: "AttestationStore \<Rightarrow> string \<Rightarrow> (string \<times> string \<times> string) att" where
  "loadAttestedCommandPlaintext st eventID =
     (case (map_of (as_events st) eventID, map_of (as_audits st) eventID) of
        (Some (createdAt, _), Some (command, input)) \<Rightarrow> Inr (createdAt, command, input)
      | _ \<Rightarrow> Inl (MissingRow eventID))"

definition recomputeAttestationContent :: "AttestationStore \<Rightarrow> string \<Rightarrow> string \<Rightarrow> string att" where
  "recomputeAttestationContent st eventID kind =
     (if kind = ''prompt''
      then (case loadAttestedPromptPlaintext st eventID of
              Inl e \<Rightarrow> Inl e
            | Inr (createdAt, body) \<Rightarrow>
                (case PromptContentSHA256 \<lparr>pc_event_id = eventID, pc_created_at = createdAt, pc_body = body\<rparr> of
                   Inl e \<Rightarrow> Inl e | Inr d \<Rightarrow> Inr (EncodeHex d)))
      else if kind = ''command''
      then (case loadAttestedCommandPlaintext st eventID of
              Inl e \<Rightarrow> Inl e
            | Inr (createdAt, command, input) \<Rightarrow>
                (case CommandContentSHA256 \<lparr>cc_event_id = eventID, cc_created_at = createdAt,
                                             cc_command_text = command, cc_input_text = input\<rparr> of
                   Inl e \<Rightarrow> Inl e | Inr d \<Rightarrow> Inr (EncodeHex d)))
      else Inl (UnknownKind kind))"

record attestationChainSnapshot =
  cs_present :: bool
  cs_seq :: int
  cs_head :: string
  cs_link_heads :: "(int \<times> string) list"

text \<open>The loop of \<open>verifyAttestationChainSnapshotOnce\<close> over the links in order of their seq.\<close>

fun verify_links ::
  "AttestationStore \<Rightarrow> int \<Rightarrow> string \<Rightarrow> (int \<times> string) list \<Rightarrow> storedLink list \<Rightarrow> (string \<times> (int \<times> string) list) att" where
  "verify_links st count prevHex heads [] = Inr (prevHex, heads)"
| "verify_links st count prevHex heads (item # items) =
     (if sl_seq item \<noteq> count + 1 then Inl (LinkSeq (sl_seq item) (count + 1))
      else if sl_prev_hex item \<noteq> prevHex then Inl (PredecessorMismatch (sl_seq item))
      else case recomputeAttestationContent st (sl_event_id item) (sl_kind item) of
        Inl e \<Rightarrow> Inl e
      | Inr recomputed \<Rightarrow>
          if sl_content_hex item \<noteq> recomputed then Inl (ContentMismatch (sl_seq item))
          else (case ParseHex prevHex of
                  Inl e \<Rightarrow> Inl e
                | Inr prev \<Rightarrow>
                    (case ParseHex (sl_content_hex item) of
                       Inl e \<Rightarrow> Inl e
                     | Inr content \<Rightarrow>
                         if sl_link_hex item \<noteq> EncodeHex (LinkSHA256 prev content) then Inl (LinkMismatch (sl_seq item))
                         else verify_links st (count + 1) (sl_link_hex item)
                                (AList.update (sl_seq item) (sl_link_hex item) heads) items)))"

definition verifyAttestationChain :: "AttestationStore \<Rightarrow> attestationChainSnapshot att" where
  "verifyAttestationChain st =
     (if \<not> as_enabled st then Inr \<lparr>cs_present = False, cs_seq = 0, cs_head = '''', cs_link_heads = []\<rparr>
      else case as_head st of
        None \<Rightarrow> Inl HeadMissing
      | Some (headHex, headSeq) \<Rightarrow>
          (case verify_links st 0 GenesisHex [(0, GenesisHex)] (as_links st) of
             Inl e \<Rightarrow> Inl e
           | Inr (prevHex, heads) \<Rightarrow>
               if int (length (as_links st)) \<noteq> headSeq then Inl (HeadSeq headSeq (int (length (as_links st))))
               else if headHex \<noteq> prevHex then Inl HeadMismatch
               else Inr \<lparr>cs_present = True, cs_seq = headSeq, cs_head = headHex, cs_link_heads = heads\<rparr>))"

definition historicalAnchorMatches :: "attestationChainSnapshot \<Rightarrow> AnchorRecord \<Rightarrow> bool" where
  "historicalAnchorMatches snapshot lst \<longleftrightarrow>
     (case map_of (cs_link_heads snapshot) (ar_seq lst) of
        None \<Rightarrow> False | Some want \<Rightarrow> equal_fold want (ar_head lst))"

text \<open>
  \<open>appendAttestationLink\<close> for an event, given by its identifier, its formatted time, whether it is
  a prompt, and its body: as a command when it has an audit, as a prompt when it is one, and not at
  all otherwise or when the tables are absent.
\<close>

definition appendAttestationLink ::
  "AttestationStore \<Rightarrow> (string \<times> string \<times> bool \<times> string) option \<Rightarrow> (string \<times> string) option
    \<Rightarrow> (AttestationStore \<times> AnchorRecord option) att" where
  "appendAttestationLink st event audit =
     (case event of None \<Rightarrow> Inl NilEvent | Some (eventID, createdAt, is_prompt, body) \<Rightarrow>
      if \<not> as_enabled st then Inr (st, None)
      else if audit = None \<and> \<not> is_prompt then Inr (st, None)
      else let kind = (if audit \<noteq> None then ''command'' else ''prompt'');
               hashed = (case audit of
                   Some (command, input) \<Rightarrow>
                     CommandContentSHA256 \<lparr>cc_event_id = eventID, cc_created_at = createdAt,
                                           cc_command_text = command, cc_input_text = input\<rparr>
                 | None \<Rightarrow> PromptContentSHA256 \<lparr>pc_event_id = eventID, pc_created_at = createdAt, pc_body = body\<rparr>)
           in case hashed of
                Inl e \<Rightarrow> Inl e
              | Inr content \<Rightarrow>
                  (case as_head st of
                     None \<Rightarrow> Inl HeadMissing
                   | Some (prevHex, seq) \<Rightarrow>
                       (case ParseHex prevHex of
                          Inl e \<Rightarrow> Inl e
                        | Inr prev \<Rightarrow>
                            let linkHex = EncodeHex (LinkSHA256 prev content)
                            in Inr (st\<lparr>as_links := as_links st @
                                        [\<lparr>sl_seq = seq + 1, sl_event_id = eventID, sl_kind = kind,
                                          sl_content_hex = EncodeHex content, sl_prev_hex = prevHex, sl_link_hex = linkHex\<rparr>],
                                      as_head := Some (linkHex, seq + 1)\<rparr>,
                                    Some \<lparr>ar_version = 1, ar_seq = seq + 1, ar_head = linkHex, ar_published_at = createdAt\<rparr>))))"

section \<open>Payloads\<close>

text \<open>What a link attests: one prompt or one command identity.\<close>

datatype attested = AttestedPrompt PromptContent | AttestedCommand CommandContent

fun att_payload :: "attested \<Rightarrow> string" where
  "att_payload (AttestedPrompt c) = encodePromptContent c"
| "att_payload (AttestedCommand c) = encodeCommandContent c"

fun line_free :: "attested \<Rightarrow> bool" where
  "line_free (AttestedPrompt c) \<longleftrightarrow> nl \<notin> set (pc_event_id c) \<and> nl \<notin> set (pc_created_at c)"
| "line_free (AttestedCommand c) \<longleftrightarrow> nl \<notin> set (cc_event_id c) \<and> nl \<notin> set (cc_created_at c)"

abbreviation att_digest :: "attested \<Rightarrow> string" where
  "att_digest a \<equiv> sha256 (att_payload a)"

lemma itoa_line_free: "nl \<notin> set (itoa n)"
  using itoa_no_char [of nl n] by (auto simp: char_in_def)

lemma same_length_append: "length a = length b \<Longrightarrow> a @ x = b @ y \<longleftrightarrow> a = b \<and> x = y"
  by simp

lemma prompt_payload_inject:
  assumes "line_free (AttestedPrompt c)" "line_free (AttestedPrompt d)"
    and "encodePromptContent c = encodePromptContent d"
  shows "c = d"
proof -
  have "pc_event_id c @ nl # ''created_at '' @ pc_created_at c @ nl # ''body '' @ itoa (length (pc_body c)) @ nl # pc_body c
      = pc_event_id d @ nl # ''created_at '' @ pc_created_at d @ nl # ''body '' @ itoa (length (pc_body d)) @ nl # pc_body d"
    using assms(3) by (simp add: encodePromptContent_def)
  then have "pc_event_id c = pc_event_id d"
    and "pc_created_at c @ nl # ''body '' @ itoa (length (pc_body c)) @ nl # pc_body c
      = pc_created_at d @ nl # ''body '' @ itoa (length (pc_body d)) @ nl # pc_body d"
    using assms(1,2) by (simp_all add: append_sep_cancel)
  moreover from this(2) have "pc_created_at c = pc_created_at d"
    and "itoa (length (pc_body c)) @ nl # pc_body c = itoa (length (pc_body d)) @ nl # pc_body d"
    using assms(1,2) by (simp_all add: append_sep_cancel)
  moreover from this(2) have "pc_body c = pc_body d"
    using itoa_line_free by (simp add: append_sep_cancel)
  ultimately show ?thesis by simp
qed

lemma command_payload_inject:
  assumes "line_free (AttestedCommand c)" "line_free (AttestedCommand d)"
    and "encodeCommandContent c = encodeCommandContent d"
  shows "c = d"
proof -
  let ?tail = "\<lambda>x. nl # ''input_text '' @ itoa (length (cc_input_text x)) @ nl # cc_input_text x"
  have "cc_event_id c @ nl # ''created_at '' @ cc_created_at c @ nl # ''command_text '' @ itoa (length (cc_command_text c)) @ nl # cc_command_text c @ ?tail c
      = cc_event_id d @ nl # ''created_at '' @ cc_created_at d @ nl # ''command_text '' @ itoa (length (cc_command_text d)) @ nl # cc_command_text d @ ?tail d"
    using assms(3) by (simp add: encodeCommandContent_def)
  then have i: "cc_event_id c = cc_event_id d"
    and "cc_created_at c @ nl # ''command_text '' @ itoa (length (cc_command_text c)) @ nl # cc_command_text c @ ?tail c
      = cc_created_at d @ nl # ''command_text '' @ itoa (length (cc_command_text d)) @ nl # cc_command_text d @ ?tail d"
    using assms(1,2) by (simp_all add: append_sep_cancel)
  from this(2) have t: "cc_created_at c = cc_created_at d"
    and "itoa (length (cc_command_text c)) @ nl # cc_command_text c @ ?tail c
      = itoa (length (cc_command_text d)) @ nl # cc_command_text d @ ?tail d"
    using assms(1,2) by (simp_all add: append_sep_cancel)
  from this(2) have "length (cc_command_text c) = length (cc_command_text d)"
    and "cc_command_text c @ ?tail c = cc_command_text d @ ?tail d"
    using itoa_line_free by (simp_all add: append_sep_cancel)
  then have m: "cc_command_text c = cc_command_text d" and "?tail c = ?tail d"
    by (simp_all only: same_length_append)
  from this(2) have "cc_input_text c = cc_input_text d"
    using itoa_line_free by (simp add: append_sep_cancel)
  with i t m show ?thesis by simp
qed

lemma att_payload_inject: "line_free a \<Longrightarrow> line_free b \<Longrightarrow> att_payload a = att_payload b \<Longrightarrow> a = b"
  by (cases a; cases b)
    (auto intro: prompt_payload_inject command_payload_inject simp: encodePromptContent_def encodeCommandContent_def)

interpretation att_binding: digest_binding sha256 att_payload line_free
  by unfold_locales (rule att_payload_inject)

lemma ParseHex_encode: "length d = 32 \<Longrightarrow> ParseHex (EncodeHex d) = Inr d"
proof -
  assume d: "length d = 32"
  have s: "list_all solid (hex_encode d)" using hex_encode_lower [of d] hex_lower_props by (auto simp: list_all_iff)
  have "hex_encode d \<noteq> []" using d by (metis length_0_conv length_hex_encode mult_is_0 zero_neq_numeral)
  then have "trim_space (hex_encode d) = hex_encode d"
    using s by (intro trim_space_solid) (auto simp: list_all_iff)
  then show ?thesis using d by (simp add: ParseHex_def EncodeHex_def)
qed

interpretation digest_codec: codec EncodeHex ParseHex "\<lambda>d. length d = 32"
  by unfold_locales (rule ParseHex_encode)

lemma link_payload_inject:
  "length p = length p' \<Longrightarrow> length c = length c' \<Longrightarrow> link_payload p c = link_payload p' c' \<Longrightarrow> p = p' \<and> c = c'"
  by (simp add: link_payload_def)

lemma genesis_not_link: "genesisPayload \<noteq> link_payload p c"
  by (simp add: genesisPayload_def link_payload_def linkVersionV1_def)

section \<open>Chains\<close>

text \<open>The head over a list of content digests, newest first.\<close>

fun chain_head :: "string list \<Rightarrow> string" where
  "chain_head [] = GenesisSHA256"
| "chain_head (d # ds) = LinkSHA256 (chain_head ds) d"

text \<open>The two inputs on which SHA-256 would have to collide when two different chains share a head.\<close>

fun link_conflict :: "string list \<Rightarrow> string list \<Rightarrow> (string \<times> string) option" where
  "link_conflict [] [] = None"
| "link_conflict [] (e # es) = Some (genesisPayload, link_payload (chain_head es) e)"
| "link_conflict (d # ds) [] = Some (link_payload (chain_head ds) d, genesisPayload)"
| "link_conflict (d # ds) (e # es) =
     (if link_payload (chain_head ds) d \<noteq> link_payload (chain_head es) e
      then Some (link_payload (chain_head ds) d, link_payload (chain_head es) e)
      else link_conflict ds es)"

fun content_conflict :: "attested list \<Rightarrow> attested list \<Rightarrow> (string \<times> string) option" where
  "content_conflict (a # as) (b # bs) =
     (if att_payload a \<noteq> att_payload b then Some (att_payload a, att_payload b) else content_conflict as bs)"
| "content_conflict _ _ = None"

definition chain_conflict :: "attested list \<Rightarrow> attested list \<Rightarrow> (string \<times> string) option" where
  "chain_conflict as bs =
     (case link_conflict (rev (map att_digest as)) (rev (map att_digest bs)) of
        Some ab \<Rightarrow> Some ab
      | None \<Rightarrow> content_conflict as bs)"

abbreviation conflict_collides :: "(string \<times> string) option \<Rightarrow> bool" where
  "conflict_collides c \<equiv> \<exists>x y. c = Some (x, y) \<and> collision sha256 x y"

lemma length_chain_head [simp]: "length (chain_head ds) = 32"
  by (cases ds) (simp_all add: GenesisSHA256_def LinkSHA256_def)

lemma link_conflict_complete:
  "list_all (\<lambda>d. length d = 32) ds \<Longrightarrow> list_all (\<lambda>d. length d = 32) es \<Longrightarrow> chain_head ds = chain_head es \<Longrightarrow>
    (ds = es \<and> link_conflict ds es = None) \<or> conflict_collides (link_conflict ds es)"
proof (induction ds es rule: link_conflict.induct)
  case (2 e es)
  then show ?case using genesis_not_link by (simp add: GenesisSHA256_def LinkSHA256_def collision_def)
next
  case (3 d ds)
  then show ?case using genesis_not_link [of "chain_head ds" d]
    by (auto simp: GenesisSHA256_def LinkSHA256_def collision_def)
next
  case (4 d ds e es)
  show ?case
  proof (cases "link_payload (chain_head ds) d = link_payload (chain_head es) e")
    case True
    then have "chain_head ds = chain_head es \<and> d = e"
      using "4.prems"(1,2) by (intro link_payload_inject) simp_all
    then show ?thesis using "4.IH" "4.prems"(1,2) True by simp
  next
    case False
    then show ?thesis using "4.prems"(3) by (simp add: LinkSHA256_def collision_def)
  qed
qed simp

lemma content_conflict_complete:
  "map att_digest as = map att_digest bs \<Longrightarrow>
    map att_payload as = map att_payload bs \<or> conflict_collides (content_conflict as bs)"
proof (induction as bs rule: content_conflict.induct)
  case (1 a as b bs)
  show ?case
  proof (cases "att_payload a = att_payload b")
    case True
    then show ?thesis using "1.IH" "1.prems" by simp
  next
    case False
    then show ?thesis using "1.prems" by (simp add: collision_def)
  qed
qed auto

lemma chain_binds:
  assumes "chain_head (rev (map att_digest as)) = chain_head (rev (map att_digest bs))"
  shows "map att_payload as = map att_payload bs \<or> conflict_collides (chain_conflict as bs)"
proof -
  have l: "list_all (\<lambda>d. length d = 32) (rev (map att_digest cs))" for cs by (simp add: list_all_iff)
  from link_conflict_complete [OF l l assms] show ?thesis
  proof
    assume eq: "rev (map att_digest as) = rev (map att_digest bs)
        \<and> link_conflict (rev (map att_digest as)) (rev (map att_digest bs)) = None"
    then show ?thesis
      using content_conflict_complete [of as bs] by (auto simp: chain_conflict_def)
  next
    assume "conflict_collides (link_conflict (rev (map att_digest as)) (rev (map att_digest bs)))"
    then show ?thesis by (auto simp: chain_conflict_def)
  qed
qed

text \<open>Payloads determine contents that hold no line break.\<close>

lemma payloads_identify:
  "map att_payload as = map att_payload bs \<Longrightarrow> list_all line_free as \<Longrightarrow> list_all line_free bs \<Longrightarrow> as = bs"
proof (induction as arbitrary: bs)
  case (Cons a as)
  then obtain b bs' where "bs = b # bs'" by (cases bs) auto
  with Cons show ?case using att_binding.frame_inj [of a b] by simp
qed simp

section \<open>Verification of a store\<close>

definition attested_of :: "AttestationStore \<Rightarrow> storedLink \<Rightarrow> attested option" where
  "attested_of st item =
     (if sl_kind item = ''prompt''
      then (case loadAttestedPromptPlaintext st (sl_event_id item) of
              Inl _ \<Rightarrow> None
            | Inr (createdAt, body) \<Rightarrow>
                Some (AttestedPrompt \<lparr>pc_event_id = sl_event_id item, pc_created_at = createdAt, pc_body = body\<rparr>))
      else if sl_kind item = ''command''
      then (case loadAttestedCommandPlaintext st (sl_event_id item) of
              Inl _ \<Rightarrow> None
            | Inr (createdAt, command, input) \<Rightarrow>
                Some (AttestedCommand \<lparr>cc_event_id = sl_event_id item, cc_created_at = createdAt,
                                       cc_command_text = command, cc_input_text = input\<rparr>))
      else None)"

text \<open>The attested contents of a store, in the order of its links.\<close>

definition attested_contents :: "AttestationStore \<Rightarrow> attested list" where
  "attested_contents st = map (\<lambda>item. the (attested_of st item)) (as_links st)"

lemma recompute_Inr:
  "recomputeAttestationContent st (sl_event_id item) (sl_kind item) = Inr h \<Longrightarrow>
    \<exists>a. attested_of st item = Some a \<and> h = EncodeHex (att_digest a)"
  by (auto simp: recomputeAttestationContent_def attested_of_def PromptContentSHA256_def CommandContentSHA256_def
      split: if_splits sum.splits)

text \<open>What one verified link establishes.\<close>

lemma verify_links_step:
  assumes "verify_links st count (EncodeHex prev) heads (item # items) = Inr r" "length prev = 32"
  shows "\<exists>a. attested_of st item = Some a \<and> sl_seq item = count + 1
    \<and> verify_links st (count + 1) (EncodeHex (LinkSHA256 prev (att_digest a)))
        (AList.update (count + 1) (EncodeHex (LinkSHA256 prev (att_digest a))) heads) items = Inr r"
proof -
  obtain h where h: "recomputeAttestationContent st (sl_event_id item) (sl_kind item) = Inr h" "sl_content_hex item = h"
    using assms(1) by (auto split: if_splits sum.splits)
  obtain a where a: "attested_of st item = Some a" "h = EncodeHex (att_digest a)"
    using recompute_Inr [OF h(1)] by blast
  have p: "ParseHex (EncodeHex prev) = Inr prev" "ParseHex h = Inr (att_digest a)"
    using assms(2) a(2) by (simp_all add: digest_codec.parse_print)
  show ?thesis using assms(1) h a p by (auto split: if_splits)
qed

lemma verify_links_heads_old:
  "verify_links st count (EncodeHex prev) heads items = Inr (final, heads') \<Longrightarrow> length prev = 32 \<Longrightarrow>
    (\<forall>k. k \<le> count \<longrightarrow> map_of heads' k = map_of heads k)
    \<and> (\<forall>k. map_of heads' k \<noteq> None \<longrightarrow> map_of heads k \<noteq> None \<or> k \<le> count + int (length items))"
proof (induction items arbitrary: count prev heads)
  case (Cons item items)
  obtain a where a: "verify_links st (count + 1) (EncodeHex (LinkSHA256 prev (att_digest a)))
        (AList.update (count + 1) (EncodeHex (LinkSHA256 prev (att_digest a))) heads) items = Inr (final, heads')"
    using verify_links_step [OF Cons.prems] by blast
  have "length (LinkSHA256 prev (att_digest a)) = 32" by (simp add: LinkSHA256_def)
  note IH = Cons.IH [OF a this]
  have "map_of heads' k = map_of heads k" if "k \<le> count" for k
    using IH that by (simp add: update_conv')
  moreover have "map_of heads k \<noteq> None \<or> k \<le> count + int (length (item # items))" if "map_of heads' k \<noteq> None" for k
  proof -
    have "map_of (AList.update (count + 1) (EncodeHex (LinkSHA256 prev (att_digest a))) heads) k \<noteq> None
        \<or> k \<le> count + 1 + int (length items)"
      using IH that by blast
    then show ?thesis by (cases "k = count + 1") (auto simp: update_conv')
  qed
  ultimately show ?case by blast
qed simp

text \<open>A verified store ends in the head of the chain over its attested contents, and so does every prefix.\<close>

lemma verify_links_chain:
  "verify_links st count (EncodeHex (chain_head ds)) heads items = Inr (final, heads') \<Longrightarrow>
   map_of heads count = Some (EncodeHex (chain_head ds)) \<Longrightarrow>
   list_all (\<lambda>item. attested_of st item \<noteq> None) items
   \<and> final = EncodeHex (chain_head (rev (map (\<lambda>i. att_digest (the (attested_of st i))) items) @ ds))
   \<and> (\<forall>k \<le> length items. map_of heads' (count + int k)
        = Some (EncodeHex (chain_head (rev (map (\<lambda>i. att_digest (the (attested_of st i))) (take k items)) @ ds))))"
proof (induction items arbitrary: count ds heads)
  case (Cons item items)
  obtain a where a: "attested_of st item = Some a"
      "verify_links st (count + 1) (EncodeHex (LinkSHA256 (chain_head ds) (att_digest a)))
        (AList.update (count + 1) (EncodeHex (LinkSHA256 (chain_head ds) (att_digest a))) heads) items = Inr (final, heads')"
    using verify_links_step [OF Cons.prems(1)] by auto
  let ?heads = "AList.update (count + 1) (EncodeHex (chain_head (att_digest a # ds))) heads"
  have "verify_links st (count + 1) (EncodeHex (chain_head (att_digest a # ds))) ?heads items = Inr (final, heads')"
    using a(2) by simp
  note IH = Cons.IH [OF this]
  have old: "map_of heads' count = Some (EncodeHex (chain_head ds))"
    using verify_links_heads_old [OF Cons.prems(1)] Cons.prems(2) by simp
  have "map_of heads' (count + int k)
        = Some (EncodeHex (chain_head (rev (map (\<lambda>i. att_digest (the (attested_of st i))) (take k (item # items))) @ ds)))"
    if "k \<le> length (item # items)" for k
  proof (cases k)
    case 0
    then show ?thesis using old by simp
  next
    case (Suc j)
    then have "j \<le> length items" using that by simp
    with IH have "map_of heads' (count + 1 + int j) =
        Some (EncodeHex (chain_head (rev (map (\<lambda>i. att_digest (the (attested_of st i))) (take j items)) @ att_digest a # ds)))"
      by (simp add: update_conv')
    then show ?thesis using Suc a(1) by (simp add: add.assoc)
  qed
  then show ?case using IH a(1) by (simp add: update_conv')
qed simp

lemma verified_store:
  assumes "verifyAttestationChain st = Inr snap" "as_enabled st"
  shows "list_all (\<lambda>item. attested_of st item \<noteq> None) (as_links st)"
    "cs_seq snap = int (length (as_links st))"
    "cs_head snap = EncodeHex (chain_head (rev (map att_digest (attested_contents st))))"
    "k \<le> length (as_links st) \<Longrightarrow> map_of (cs_link_heads snap) (int k)
      = Some (EncodeHex (chain_head (rev (map att_digest (take k (attested_contents st))))))"
    "map_of (cs_link_heads snap) j \<noteq> None \<Longrightarrow> j \<le> int (length (as_links st))"
proof -
  obtain prevHex heads where v: "verify_links st 0 GenesisHex [(0, GenesisHex)] (as_links st) = Inr (prevHex, heads)"
      "snap = \<lparr>cs_present = True, cs_seq = int (length (as_links st)), cs_head = prevHex, cs_link_heads = heads\<rparr>"
    using assms by (auto simp: verifyAttestationChain_def split: option.splits sum.splits if_splits)
  have g: "GenesisHex = EncodeHex (chain_head [])" by (simp add: GenesisHex_def EncodeHex_def)
  note c = verify_links_chain [of st 0 "[]", folded g, OF v(1)]
  show "list_all (\<lambda>item. attested_of st item \<noteq> None) (as_links st)" using c by simp
  show "cs_seq snap = int (length (as_links st))" using v(2) by simp
  show "cs_head snap = EncodeHex (chain_head (rev (map att_digest (attested_contents st))))"
    using c v(2) by (simp add: attested_contents_def comp_def)
  show "k \<le> length (as_links st) \<Longrightarrow> map_of (cs_link_heads snap) (int k)
      = Some (EncodeHex (chain_head (rev (map att_digest (take k (attested_contents st))))))"
    using c v(2) by (simp add: attested_contents_def comp_def take_map)
  have "map_of heads j \<noteq> None \<longrightarrow> map_of [(0, GenesisHex)] j \<noteq> None \<or> j \<le> 0 + int (length (as_links st))"
    using verify_links_heads_old [of st 0 "chain_head []", folded g, OF v(1)] length_chain_head by blast
  then show "map_of (cs_link_heads snap) j \<noteq> None \<Longrightarrow> j \<le> int (length (as_links st))"
    using v(2) by (auto split: if_splits)
qed

lemma equal_fold_hex: "equal_fold (EncodeHex a) (EncodeHex b) \<longleftrightarrow> a = b"
proof -
  have "map to_lower (hex_encode x) = hex_encode x" for x
    using hex_encode_lower [of x] hex_lower_props by (auto simp: map_to_lower_id list_all_iff)
  then show ?thesis by (simp add: equal_fold_def EncodeHex_def)
qed

section \<open>Extension of a store\<close>

lemma verify_links_append:
  "verify_links st count prevHex heads (xs @ ys) =
     (case verify_links st count prevHex heads xs of
        Inl e \<Rightarrow> Inl e
      | Inr (p, h) \<Rightarrow> verify_links st (count + int (length xs)) p h ys)"
  by (induction xs arbitrary: count prevHex heads) (auto split: sum.splits simp: add.assoc)

text \<open>The walk reads only the event and audit rows of the links.\<close>

lemma recompute_cong:
  assumes "recomputeAttestationContent st eventID kind = Inr h"
    and "\<And>k v. map_of (as_events st) k = Some v \<Longrightarrow> map_of (as_events st') k = Some v"
    and "\<And>k v. map_of (as_audits st) k = Some v \<Longrightarrow> map_of (as_audits st') k = Some v"
  shows "recomputeAttestationContent st' eventID kind = Inr h"
proof -
  have p: "loadAttestedPromptPlaintext st' eventID = Inr r" if "loadAttestedPromptPlaintext st eventID = Inr r" for r
    using that assms(2) by (auto simp: loadAttestedPromptPlaintext_def split: option.splits)
  have c: "loadAttestedCommandPlaintext st' eventID = Inr r" if "loadAttestedCommandPlaintext st eventID = Inr r" for r
    using that assms(2,3) by (force simp: loadAttestedCommandPlaintext_def split: option.splits)
  show ?thesis
    using assms(1) p c by (auto simp: recomputeAttestationContent_def split: if_splits sum.splits)
qed

lemma verify_links_cong:
  assumes "verify_links st count prevHex heads items = Inr r"
    and "\<And>k v. map_of (as_events st) k = Some v \<Longrightarrow> map_of (as_events st') k = Some v"
    and "\<And>k v. map_of (as_audits st) k = Some v \<Longrightarrow> map_of (as_audits st') k = Some v"
  shows "verify_links st' count prevHex heads items = Inr r"
  using assms(1)
proof (induction items arbitrary: count prevHex heads)
  case (Cons item items)
  obtain h where h: "recomputeAttestationContent st (sl_event_id item) (sl_kind item) = Inr h"
    using Cons.prems by (auto split: if_splits sum.splits)
  then have "recomputeAttestationContent st' (sl_event_id item) (sl_kind item) = Inr h"
    by (rule recompute_cong) (use assms(2,3) in auto)
  with h Cons show ?case by (auto split: if_splits sum.splits)
qed simp

text \<open>Saving an event: its rows are inserted under a fresh identifier, then the chain is extended.\<close>

definition insert_rows :: "AttestationStore \<Rightarrow> string \<Rightarrow> string \<Rightarrow> string \<Rightarrow> (string \<times> string) option \<Rightarrow> AttestationStore" where
  "insert_rows st eventID createdAt body audit =
     st\<lparr>as_events := (eventID, createdAt, body) # as_events st,
        as_audits := (case audit of None \<Rightarrow> as_audits st | Some ci \<Rightarrow> (eventID, ci) # as_audits st)\<rparr>"

inductive attest_step :: "AttestationStore \<Rightarrow> AttestationStore \<Rightarrow> bool" where
  save: "map_of (as_events st) eventID = None \<Longrightarrow> map_of (as_audits st) eventID = None \<Longrightarrow>
    appendAttestationLink (insert_rows st eventID createdAt body audit) (Some (eventID, createdAt, is_prompt, body)) audit = Inr (st', anchor)
    \<Longrightarrow> attest_step st st'"

definition attest_init :: "AttestationStore \<Rightarrow> bool" where
  "attest_init st \<longleftrightarrow> as_enabled st \<and> as_links st = [] \<and> as_head st = Some (GenesisHex, 0)"

lemma append_recomputes:
  assumes "appendAttestationLink (insert_rows st eventID createdAt body audit) (Some (eventID, createdAt, is_prompt, body)) audit
      = Inr (st', Some anchor)" "as_head st = Some (EncodeHex prev, n)" "length prev = 32"
  shows "\<exists>content kind. length content = 32
    \<and> recomputeAttestationContent (insert_rows st eventID createdAt body audit) eventID kind = Inr (EncodeHex content)
    \<and> as_events st' = as_events (insert_rows st eventID createdAt body audit)
    \<and> as_audits st' = as_audits (insert_rows st eventID createdAt body audit)
    \<and> as_links st' = as_links st @ [\<lparr>sl_seq = n + 1, sl_event_id = eventID, sl_kind = kind,
          sl_content_hex = EncodeHex content, sl_prev_hex = EncodeHex prev, sl_link_hex = EncodeHex (LinkSHA256 prev content)\<rparr>]
    \<and> as_head st' = Some (EncodeHex (LinkSHA256 prev content), n + 1) \<and> as_enabled st'
    \<and> anchor = \<lparr>ar_version = 1, ar_seq = n + 1, ar_head = EncodeHex (LinkSHA256 prev content), ar_published_at = createdAt\<rparr>"
proof -
  have prev: "ParseHex (EncodeHex prev) = Inr prev" using assms(3) by (rule digest_codec.parse_print)
  have on: "as_enabled st"
  proof (rule ccontr)
    assume "\<not> as_enabled st"
    then have "\<not> as_enabled (insert_rows st eventID createdAt body audit)" by (simp add: insert_rows_def)
    then show False using assms(1) by (simp add: appendAttestationLink_def)
  qed
  show ?thesis
  proof (cases audit)
    case None
    let ?c = "\<lparr>pc_event_id = eventID, pc_created_at = createdAt, pc_body = body\<rparr>"
    have "is_prompt" "PromptContentSHA256 ?c = Inr (sha256 (encodePromptContent ?c))"
      using assms(1) None by (auto simp: appendAttestationLink_def Let_def PromptContentSHA256_def split: if_splits sum.splits)
    then show ?thesis
      using assms None prev on
      by (intro exI [of _ "sha256 (encodePromptContent ?c)"] exI [of _ "''prompt''"])
        (auto simp: appendAttestationLink_def insert_rows_def recomputeAttestationContent_def loadAttestedPromptPlaintext_def Let_def)
  next
    case (Some ci)
    obtain command input where ci: "ci = (command, input)" by (cases ci)
    let ?c = "\<lparr>cc_event_id = eventID, cc_created_at = createdAt, cc_command_text = command, cc_input_text = input\<rparr>"
    have "CommandContentSHA256 ?c = Inr (sha256 (encodeCommandContent ?c))"
      using assms(1) Some ci by (auto simp: appendAttestationLink_def Let_def CommandContentSHA256_def split: if_splits sum.splits)
    then show ?thesis
      using assms Some ci prev on
      by (intro exI [of _ "sha256 (encodeCommandContent ?c)"] exI [of _ "''command''"])
        (auto simp: appendAttestationLink_def insert_rows_def recomputeAttestationContent_def loadAttestedCommandPlaintext_def Let_def)
  qed
qed

definition verified :: "AttestationStore \<Rightarrow> bool" where
  "verified st \<longleftrightarrow> as_enabled st \<and> (\<exists>snap. verifyAttestationChain st = Inr snap)"

lemma insert_rows_keeps:
  assumes "map_of (as_events st) eventID = None" "map_of (as_audits st) eventID = None"
  shows "map_of (as_events st) k = Some v \<Longrightarrow> map_of (as_events (insert_rows st eventID c b audit)) k = Some v"
    "map_of (as_audits st) k = Some w \<Longrightarrow> map_of (as_audits (insert_rows st eventID c b audit)) k = Some w"
  using assms by (auto simp: insert_rows_def split: option.splits)

lemma attest_step_verified:
  assumes "verified st" "attest_step st st'"
  shows "verified st'"
  using assms(2)
proof cases
  case (save eventID createdAt body audit is_prompt anchor)
  let ?st = "insert_rows st eventID createdAt body audit"
  note keep = insert_rows_keeps [OF save(1,2)]
  have on: "as_enabled st" using assms(1) by (simp add: verified_def)
  obtain snap where snap: "verifyAttestationChain st = Inr snap" using assms(1) by (auto simp: verified_def)
  obtain prevHex heads where v: "verify_links st 0 GenesisHex [(0, GenesisHex)] (as_links st) = Inr (prevHex, heads)"
      "as_head st = Some (prevHex, int (length (as_links st)))"
    using snap on by (auto simp: verifyAttestationChain_def split: option.splits sum.splits if_splits)
  have v': "verify_links st2 0 GenesisHex [(0, GenesisHex)] (as_links st) = Inr (prevHex, heads)"
    if "as_events st2 = as_events ?st" "as_audits st2 = as_audits ?st" for st2
    by (rule verify_links_cong [OF v(1)]) (use keep that in auto)
  have prev: "prevHex = EncodeHex (chain_head (rev (map att_digest (attested_contents st))))"
    using verified_store(3) [OF snap on] snap v on by (auto simp: verifyAttestationChain_def)
  show ?thesis
  proof (cases anchor)
    case None
    then have "st' = ?st" using save(3) by (auto simp: appendAttestationLink_def Let_def split: if_splits option.splits sum.splits)
    then have "verifyAttestationChain st' = Inr \<lparr>cs_present = True, cs_seq = int (length (as_links st)), cs_head = prevHex, cs_link_heads = heads\<rparr>"
      using v'[of st'] v(2) on by (simp add: verifyAttestationChain_def insert_rows_def)
    then show ?thesis using \<open>st' = ?st\<close> on by (simp add: verified_def insert_rows_def)
  next
    case (Some published)
    let ?p = "chain_head (rev (map att_digest (attested_contents st)))"
    obtain content kind where c: "length content = 32"
        "recomputeAttestationContent ?st eventID kind = Inr (EncodeHex content)"
        "as_events st' = as_events ?st" "as_audits st' = as_audits ?st"
        "as_links st' = as_links st @ [\<lparr>sl_seq = int (length (as_links st)) + 1, sl_event_id = eventID, sl_kind = kind,
          sl_content_hex = EncodeHex content, sl_prev_hex = EncodeHex ?p, sl_link_hex = EncodeHex (LinkSHA256 ?p content)\<rparr>]"
        "as_head st' = Some (EncodeHex (LinkSHA256 ?p content), int (length (as_links st)) + 1)" "as_enabled st'"
      using append_recomputes [OF save(3) [unfolded Some] v(2) [unfolded prev] length_chain_head] by blast
    have "recomputeAttestationContent st' eventID kind = Inr (EncodeHex content)"
      by (rule recompute_cong [OF c(2)]) (simp_all add: c(3,4))
    then have "verify_links st' 0 GenesisHex [(0, GenesisHex)] (as_links st') =
        Inr (EncodeHex (LinkSHA256 ?p content),
          AList.update (int (length (as_links st)) + 1) (EncodeHex (LinkSHA256 ?p content)) heads)"
      using v'[OF c(3,4)] c(1) by (simp add: c(5) verify_links_append prev digest_codec.parse_print)
    then show ?thesis using c(5-7) by (simp add: verified_def verifyAttestationChain_def)
  qed
qed

interpretation attest_machine: invariant_machine attest_init attest_step verified
proof unfold_locales
  show "attest_init st \<Longrightarrow> verified st" for st
    by (auto simp: attest_init_def verified_def verifyAttestationChain_def)
qed (rule attest_step_verified)

lemma hex_digit_value: "hex_value c = Some n \<Longrightarrow> n < 16 \<and> hex_digit n = to_lower c"
proof -
  assume v: "hex_value c = Some n"
  then have n: "n < 16" by (auto simp: hex_value_def char_in_def split: if_splits)
  have lower: "ord (to_lower c) = (if 65 \<le> ord c \<and> ord c \<le> 90 then ord c + 32 else ord c)"
    by (simp add: to_lower_def char_in_def of_char_of)
  have "ord (hex_digit n) = ord (to_lower c)"
    unfolding ord_hex_digit [OF n] lower using v by (auto simp: hex_value_def char_in_def split: if_splits)
  then show ?thesis using n by (simp only: ord_inject)
qed

lemma hex_encode_decode: "hex_decode s = Some d \<Longrightarrow> hex_encode d = map to_lower s"
proof (induction s arbitrary: d rule: hex_decode.induct)
  case (3 a b s)
  obtain x y r where xy: "hex_value a = Some x" "hex_value b = Some y" "hex_decode s = Some r"
    and d: "d = char_of (16 * x + y) # r"
    using "3.prems" by (auto split: option.splits)
  have lt: "x < 16" "y < 16" "hex_digit x = to_lower a" "hex_digit y = to_lower b"
    using hex_digit_value xy(1,2) by blast+
  then have "ord (char_of (16 * x + y)) = 16 * x + y" by (simp add: of_char_of)
  then show ?case using lt "3.IH" xy d by simp
qed auto

lemma CheckAnchorHistory_append:
  "CheckAnchorHistory rs = Inr () \<Longrightarrow> rs = [] \<or> ar_seq (last rs) < ar_seq r \<Longrightarrow> CheckAnchorHistory (rs @ [r]) = Inr ()"
  by (induction rs rule: CheckAnchorHistory.induct) (auto split: if_splits)

lemma CheckAnchorHistory_sorted:
  "CheckAnchorHistory rs = Inr () \<Longrightarrow>
    sorted_wrt (\<lambda>a b. ar_seq a \<le> ar_seq b \<and> (ar_seq a = ar_seq b \<longrightarrow> ar_head a = ar_head b)) rs"
proof (induction rs rule: CheckAnchorHistory.induct)
  case (1 prev nxt rs)
  let ?le = "\<lambda>a b. ar_seq a \<le> ar_seq b \<and> (ar_seq a = ar_seq b \<longrightarrow> ar_head a = ar_head b)"
  have c: "CheckAnchorHistory (nxt # rs) = Inr ()" "?le prev nxt" and cond: "\<not> ar_seq nxt < ar_seq prev"
      "\<not> (ar_seq nxt = ar_seq prev \<and> ar_head nxt \<noteq> ar_head prev)"
    using "1.prems" by (auto split: if_splits)
  have "sorted_wrt ?le (nxt # rs)" using "1.IH" [OF cond c(1)] .
  moreover from this have "?le nxt r" if "r \<in> set rs" for r using that by simp
  ultimately show ?case using c(2) by fastforce
qed auto

text \<open>An anchor that matches was published by an initialised store and meets another.\<close>

lemma anchor_enabled:
  assumes "verifyAttestationChain st = Inr snap" "verifyAttestationChain st' = Inr snap'"
    and "ar_seq r = cs_seq snap" "ar_head r = cs_head snap" "historicalAnchorMatches snap' r"
  shows "as_enabled st" "as_enabled st'"
proof -
  show on: "as_enabled st'"
  proof (rule ccontr)
    assume "\<not> as_enabled st'"
    then have "cs_link_heads snap' = []" using assms(2) by (auto simp: verifyAttestationChain_def)
    then show False using assms(5) by (simp add: historicalAnchorMatches_def)
  qed
  show "as_enabled st"
  proof (rule ccontr)
    assume "\<not> as_enabled st"
    then have r: "ar_seq r = 0" "ar_head r = ''''" using assms(1,3,4) by (auto simp: verifyAttestationChain_def)
    have "map_of (cs_link_heads snap') (int 0) = Some (EncodeHex GenesisSHA256)"
      using verified_store(4) [OF assms(2) on, of 0] by simp
    then have "equal_fold (EncodeHex GenesisSHA256) ''''"
      using assms(5) r by (simp add: historicalAnchorMatches_def)
    then have "hex_encode GenesisSHA256 = []" by (simp add: equal_fold_def EncodeHex_def)
    then have "length (hex_encode GenesisSHA256) = 0" by simp
    then show False by (simp add: length_hex_encode GenesisSHA256_def)
  qed
qed

lemma parse_anchor_lines_Inr:
  "parse_anchor_lines ls = Inr rs \<Longrightarrow> rs = ls \<and> list_all (\<lambda>r. ar_version r = 1 \<and> validateAnchorRecord r = Inr ()) ls"
  by (induction ls arbitrary: rs) (auto simp: ParseAnchorLine_def split: sum.splits if_splits)

lemma validateAnchorRecord_version: "validateAnchorRecord (r\<lparr>ar_version := v\<rparr>) = validateAnchorRecord r"
  by (simp add: validateAnchorRecord_def)

section \<open>Properties\<close>

text \<open>
  C1: Every store that the program extends verifies. Whatever prompts, commands and other events are
  saved one after another from an initialised chain, the verification walk succeeds, counts exactly
  the links and reports the stored head.
\<close>

theorem attestation_appends_verify:
  assumes "reach attest_init attest_step st"
  shows "\<exists>snap. verifyAttestationChain st = Inr snap \<and> cs_seq snap = int (length (as_links st))
           \<and> as_head st = Some (cs_head snap, cs_seq snap)
           \<and> list_all (\<lambda>item. attested_of st item \<noteq> None) (as_links st)"
proof -
  obtain snap where s: "verifyAttestationChain st = Inr snap" and on: "as_enabled st"
    using attest_machine.reach_inv [OF assms] by (auto simp: verified_def)
  moreover have "as_head st = Some (cs_head snap, cs_seq snap)"
    using s on by (auto simp: verifyAttestationChain_def split: option.splits sum.splits if_splits)
  ultimately show ?thesis using verified_store [OF s on] by blast
qed

text \<open>
  C2: An anchored history cannot be rewritten. Let one store verify when its head is published as an
  anchor, and any other state of the store verify later with that anchor still matching its history.
  Then either the two named inputs are a SHA-256 collision, or the later store has at least as many
  links and the payloads that its first links hash are, in order and byte for byte, those that the
  first store hashed. A payload frames the kind, the event identifier, the time and the length and
  bytes of every body by lines; hence the attested contents themselves are unchanged whenever no
  identifier or time among them holds a line break, which the identity check does not refuse: with
  one, two different prompts share a payload (\<open>multiline_identity_ambiguous\<close>).
\<close>

theorem anchored_history_immutable:
  assumes "verifyAttestationChain st = Inr snap" "verifyAttestationChain st' = Inr snap'"
    and "ar_seq r = cs_seq snap" "ar_head r = cs_head snap" "historicalAnchorMatches snap' r"
  shows "let prior = take (length (as_links st)) (attested_contents st')
         in (\<exists>x y. chain_conflict (attested_contents st) prior = Some (x, y) \<and> collision sha256 x y)
          \<or> length (as_links st) \<le> length (as_links st')
            \<and> map att_payload (attested_contents st) = map att_payload prior
            \<and> (list_all line_free (attested_contents st @ prior) \<longrightarrow> attested_contents st = prior)"
proof -
  let ?n = "length (as_links st)"
  let ?head = "\<lambda>cs. chain_head (rev (map att_digest cs))"
  let ?prior = "take ?n (attested_contents st')"
  have on: "as_enabled st" "as_enabled st'" by (rule anchor_enabled [OF assms])+
  have seq: "ar_seq r = int ?n" using assms(3) verified_store(2) [OF assms(1) on(1)] by simp
  obtain want where w: "map_of (cs_link_heads snap') (int ?n) = Some want" "equal_fold want (ar_head r)"
    using assms(5) seq by (auto simp: historicalAnchorMatches_def split: option.splits)
  have le: "?n \<le> length (as_links st')" using verified_store(5) [OF assms(2) on(2), of "int ?n"] w(1) by simp
  then have "want = EncodeHex (?head ?prior)"
    using verified_store(4) [OF assms(2) on(2), of ?n] w(1) by simp
  then have "?head (attested_contents st) = ?head ?prior"
    using w(2) assms(4) verified_store(3) [OF assms(1) on(1)] by (simp add: equal_fold_hex)
  then have "map att_payload (attested_contents st) = map att_payload ?prior
      \<or> conflict_collides (chain_conflict (attested_contents st) ?prior)"
    by (rule chain_binds)
  then show ?thesis using le payloads_identify [of "attested_contents st" ?prior]
    unfolding Let_def list_all_append by blast
qed

text \<open>
  Digests round trip through hexadecimal. Every 32-byte digest parses back from its hexadecimal
  form, and every accepted spelling denotes the digest whose form is that spelling, trimmed and in
  lower case.
\<close>

theorem digest_hex_roundtrip:
  "(length d = 32 \<longrightarrow> ParseHex (EncodeHex d) = Inr d) \<and>
   (ParseHex s = Inr d \<longrightarrow> length d = 32 \<and> EncodeHex d = map to_lower (trim_space s))"
  using digest_codec.parse_print hex_encode_decode
  by (auto simp: ParseHex_def EncodeHex_def split: option.splits if_splits)

text \<open>
  C38: The anchor file is an append-only log with a monotone sequence. Publishing succeeds only on a
  file whose lines are all valid records of version 1; it never changes or removes one; it appends at
  most one record, the given one with version 1, and only when that is valid and its sequence number
  is larger than every one in the file. In the resulting file every record is valid and of version 1,
  the sequence never decreases and equal numbers have equal heads.
\<close>

theorem anchor_log_append_only:
  assumes "publishAttestationAnchor records r = Inr records'"
  shows "(records' = records \<or> records' = records @ [r\<lparr>ar_version := 1\<rparr>] \<and> validateAnchorRecord r = Inr ()
            \<and> ar_version r \<in> {0, 1} \<and> (\<forall>old \<in> set records. ar_seq old < ar_seq r))
    \<and> sorted_wrt (\<lambda>a b. ar_seq a \<le> ar_seq b \<and> (ar_seq a = ar_seq b \<longrightarrow> ar_head a = ar_head b)) records'
    \<and> list_all (\<lambda>a. ar_version a = 1 \<and> validateAnchorRecord a = Inr ()) records'"
proof -
  have parsed: "ParseAnchorFile records = Inr records" and h: "CheckAnchorHistory records = Inr ()"
    and valid: "list_all (\<lambda>a. ar_version a = 1 \<and> validateAnchorRecord a = Inr ()) records"
    using assms by (auto simp: publishAttestationAnchor_def ParseAnchorFile_def dest: parse_anchor_lines_Inr split: sum.splits)
  note s = CheckAnchorHistory_sorted [OF h]
  show ?thesis
  proof (cases "records' = records")
    case True
    then show ?thesis using s valid by simp
  next
    case False
    then have r: "records' = records @ [r\<lparr>ar_version := 1\<rparr>]" "validateAnchorRecord r = Inr ()" "ar_version r \<in> {0, 1}"
        "records = [] \<or> ar_seq (last records) < ar_seq r"
      using assms unfolding publishAttestationAnchor_def parsed
      by (auto simp: DecideAnchorAppend_def lastOrZero_def FormatAnchorLine_def Let_def validateAnchorRecord_version
          split: sum.splits if_splits)
    have "ar_seq old \<le> ar_seq (last records)" if "old \<in> set records" for old
    proof -
      have "records \<noteq> []" using that by auto
      then have b: "records = butlast records @ [last records]" by simp
      with that have "old = last records \<or> old \<in> set (butlast records)" by (metis Un_iff empty_iff insert_iff list.set(1,2) set_append)
      moreover have "sorted_wrt (\<lambda>a b. ar_seq a \<le> ar_seq b \<and> (ar_seq a = ar_seq b \<longrightarrow> ar_head a = ar_head b))
          (butlast records @ [last records])" using s b by simp
      ultimately show ?thesis by (auto simp: sorted_wrt_append)
    qed
    then have "\<forall>old \<in> set records. ar_seq old < ar_seq r" using r(4) by fastforce
    moreover have "CheckAnchorHistory records' = Inr ()"
      using CheckAnchorHistory_append [OF h, of "r\<lparr>ar_version := 1\<rparr>"] r(1,4) by simp
    ultimately show ?thesis using r valid CheckAnchorHistory_sorted by (simp add: validateAnchorRecord_version)
  qed
qed

section \<open>A payload that two contents share\<close>

text \<open>
  The identity check accepts an identifier with a line break, and with one the payload can be read
  in two ways: these two prompts differ in identifier, time and body, both are accepted, and both
  hash the same bytes.
\<close>

definition plain_prompt :: PromptContent where
  "plain_prompt = \<lparr>pc_event_id = ''a'', pc_created_at = ''T'', pc_body = ''x'' @ [nl] @ ''created_at U'' @ [nl] @ ''body 1'' @ [nl] @ ''z''\<rparr>"

definition multiline_prompt :: PromptContent where
  "multiline_prompt = \<lparr>pc_event_id = ''a'' @ [nl] @ ''created_at T'' @ [nl] @ ''body 23'' @ [nl] @ ''x'',
                       pc_created_at = ''U'', pc_body = ''z''\<rparr>"

lemma itoa_small: "itoa 1 = ''1''" "itoa 23 = ''23''"
proof -
  have c: "char_of (49 :: nat) = CHR ''1''" "char_of (50 :: nat) = CHR ''2''" "char_of (51 :: nat) = CHR ''3''"
    by code_simp+
  show "itoa 1 = ''1''" "itoa 23 = ''23''"
    by (subst itoa.simps, simp add: c)
      (simp add: itoa.simps [of 23] itoa.simps [of 2] c)
qed

lemma multiline_identity_ambiguous:
  "plain_prompt \<noteq> multiline_prompt \<and> PromptContentSHA256 plain_prompt = PromptContentSHA256 multiline_prompt
   \<and> (\<exists>d. PromptContentSHA256 plain_prompt = Inr d)"
proof -
  have "length (pc_body plain_prompt) = 23" by (simp add: plain_prompt_def)
  then have "encodePromptContent plain_prompt = encodePromptContent multiline_prompt"
    by (simp add: encodePromptContent_def itoa_small) (simp add: plain_prompt_def multiline_prompt_def itoa_small [simplified])
  moreover have "trim_space (pc_event_id multiline_prompt) = pc_event_id multiline_prompt"
    by (rule trim_space_solid) (simp_all add: multiline_prompt_def solid_def)
  then have "trim_space (pc_event_id multiline_prompt) \<noteq> ''''" by (simp add: multiline_prompt_def)
  moreover have "trim_space [c] = [c]" if "solid c" for c using that by (intro trim_space_solid) simp_all
  ultimately show ?thesis
    by (auto simp: PromptContentSHA256_def validateIdentity_def plain_prompt_def solid_def)
      (auto simp: multiline_prompt_def solid_def)
qed

section \<open>Witnesses\<close>

definition ex_store0 :: AttestationStore where
  "ex_store0 = \<lparr>as_enabled = True, as_links = [], as_head = Some (GenesisHex, 0), as_events = [], as_audits = []\<rparr>"

definition ex_content :: PromptContent where
  "ex_content = \<lparr>pc_event_id = ''e'', pc_created_at = ''t'', pc_body = ''hi''\<rparr>"

definition ex_link_hex :: string where
  "ex_link_hex = EncodeHex (LinkSHA256 GenesisSHA256 (sha256 (encodePromptContent ex_content)))"

definition ex_store1 :: AttestationStore where
  "ex_store1 = \<lparr>as_enabled = True, as_links = [\<lparr>sl_seq = 1, sl_event_id = ''e'', sl_kind = ''prompt'',
                  sl_content_hex = EncodeHex (sha256 (encodePromptContent ex_content)),
                  sl_prev_hex = GenesisHex, sl_link_hex = ex_link_hex\<rparr>],
                as_head = Some (ex_link_hex, 1), as_events = [(''e'', ''t'', ''hi'')], as_audits = []\<rparr>"

definition ex_anchor :: AnchorRecord where
  "ex_anchor = \<lparr>ar_version = 1, ar_seq = 1, ar_head = ex_link_hex, ar_published_at = ''t''\<rparr>"

lemma ex_append:
  "appendAttestationLink (insert_rows ex_store0 ''e'' ''t'' ''hi'' None) (Some (''e'', ''t'', True, ''hi'')) None
     = Inr (ex_store1, Some ex_anchor)"
proof -
  have t: "trim_space ''e'' = ''e''" "trim_space ''t'' = ''t''"
    by (rule trim_space_solid; simp add: solid_def)+
  have g: "ParseHex GenesisHex = Inr GenesisSHA256"
    using digest_codec.parse_print [of GenesisSHA256] by (simp add: GenesisHex_def EncodeHex_def GenesisSHA256_def)
  show ?thesis
    using t g
    by (simp add: appendAttestationLink_def insert_rows_def ex_store0_def PromptContentSHA256_def validateIdentity_def
        ex_store1_def ex_anchor_def ex_link_hex_def ex_content_def Let_def)
qed

lemma ex_store_reach: "reach attest_init attest_step ex_store1"
proof -
  have "reach attest_init attest_step ex_store0" by (rule reach.reach_init) (simp add: attest_init_def ex_store0_def)
  moreover have "attest_step ex_store0 ex_store1"
    by (rule attest_step.save [OF _ _ ex_append]) (simp_all add: ex_store0_def)
  ultimately show ?thesis by (rule reach.reach_step)
qed

theorem attestation_appends_verify_witness: "\<exists>snap. verifyAttestationChain ex_store1 = Inr snap \<and> cs_seq snap = 1"
  using attestation_appends_verify [OF ex_store_reach] by (auto simp: ex_store1_def)

theorem anchored_history_immutable_witness:
  "\<exists>snap. verifyAttestationChain ex_store1 = Inr snap \<and> historicalAnchorMatches snap ex_anchor
     \<and> ((\<exists>x y. chain_conflict (attested_contents ex_store1) (take 1 (attested_contents ex_store1)) = Some (x, y)
              \<and> collision sha256 x y)
        \<or> map att_payload (attested_contents ex_store1) = map att_payload (take 1 (attested_contents ex_store1)))"
proof -
  obtain snap where s: "verifyAttestationChain ex_store1 = Inr snap" and on: "as_enabled ex_store1"
    using attest_machine.reach_inv [OF ex_store_reach] by (auto simp: verified_def)
  have len: "length (as_links ex_store1) = 1" by (simp add: ex_store1_def)
  have h: "as_head ex_store1 = Some (cs_head snap, cs_seq snap)"
    using s on by (auto simp: verifyAttestationChain_def split: option.splits sum.splits if_splits)
  then have a: "ar_seq ex_anchor = cs_seq snap" "ar_head ex_anchor = cs_head snap"
    by (simp_all add: ex_store1_def ex_anchor_def)
  have "map_of (cs_link_heads snap) (int 1) = Some (cs_head snap)"
    using verified_store(3) [OF s on] verified_store(4) [OF s on, of 1] len by (simp add: attested_contents_def)
  then have m: "historicalAnchorMatches snap ex_anchor"
    using a h by (simp add: historicalAnchorMatches_def ex_anchor_def equal_fold_def)
  show ?thesis
    using anchored_history_immutable [OF s s a m] s m by (auto simp: Let_def len)
qed

theorem digest_hex_roundtrip_witness: "ParseHex (EncodeHex GenesisSHA256) = Inr GenesisSHA256"
  using digest_hex_roundtrip [of GenesisSHA256] by (simp add: GenesisSHA256_def)

definition ex_anchor2 :: AnchorRecord where
  "ex_anchor2 = \<lparr>ar_version = 0, ar_seq = 2, ar_head = ex_link_hex, ar_published_at = ''t''\<rparr>"

theorem anchor_log_append_only_witness:
  "publishAttestationAnchor [ex_anchor] ex_anchor2 = Inr [ex_anchor, ex_anchor2\<lparr>ar_version := 1\<rparr>]
   \<and> sorted_wrt (\<lambda>a b. ar_seq a \<le> ar_seq b \<and> (ar_seq a = ar_seq b \<longrightarrow> ar_head a = ar_head b))
       [ex_anchor, ex_anchor2\<lparr>ar_version := 1\<rparr>]"
proof -
  have "trim_space ''t'' = ''t''" by (rule trim_space_solid) (simp_all add: solid_def)
  moreover have "ParseHex ex_link_hex = Inr (LinkSHA256 GenesisSHA256 (sha256 (encodePromptContent ex_content)))"
    using digest_codec.parse_print by (simp add: ex_link_hex_def LinkSHA256_def)
  ultimately have p: "publishAttestationAnchor [ex_anchor] ex_anchor2 = Inr [ex_anchor, ex_anchor2\<lparr>ar_version := 1\<rparr>]"
    by (simp add: publishAttestationAnchor_def DecideAnchorAppend_def validateAnchorRecord_def ex_anchor_def ex_anchor2_def
        ParseAnchorFile_def ParseAnchorLine_def FormatAnchorLine_def lastOrZero_def)
  show ?thesis using p anchor_log_append_only [OF p, THEN conjunct2, THEN conjunct1] by (rule conjI)
qed

end
