(* ===== verification/Domain_Types.thy ===== *)
theory Domain_Types
  imports Go_Paths
begin

text \<open>
  The value objects of \<open>domain/types\<close> that the session and memory aggregates are built from. A Go
  string type is \<open>string\<close>, an \<open>Optional\<close> is \<open>option\<close>. The closed string sets all validate in the
  same way, which the locale \<open>closed_set\<close> captures once; it is interpreted on the set of each type.
\<close>

section \<open>Validated strings\<close>

datatype type_error = EmptyValue | UnknownValue string | InvalidScopeValue string | NotPositive

definition nonempty_from :: "string \<Rightarrow> type_error + string" where
  "nonempty_from s = (let t = trim_space s in if t = '''' then Inl EmptyValue else Inr t)"

definition WorkspaceFrom :: "string \<Rightarrow> type_error + string" where "WorkspaceFrom = nonempty_from"
definition AgentFrom :: "string \<Rightarrow> type_error + string" where "AgentFrom = nonempty_from"
definition ClientFrom :: "string \<Rightarrow> type_error + string" where "ClientFrom = nonempty_from"
definition SessionIDFrom :: "string \<Rightarrow> type_error + string" where "SessionIDFrom = nonempty_from"
definition EventIDFrom :: "string \<Rightarrow> type_error + string" where "EventIDFrom = nonempty_from"
definition MemoryIDFrom :: "string \<Rightarrow> type_error + string" where "MemoryIDFrom = nonempty_from"

definition closed_from :: "string list \<Rightarrow> string \<Rightarrow> type_error + string" where
  "closed_from known s =
     (let t = trim_space s
      in if t = '''' then Inl EmptyValue
         else if List.member known t then Inr t
         else Inl (UnknownValue t))"

definition RuntimeModeInteractive :: string where "RuntimeModeInteractive = ''interactive''"
definition RuntimeModeOneShot :: string where "RuntimeModeOneShot = ''one_shot''"
definition knownRuntimeModes :: "string list" where
  "knownRuntimeModes = [RuntimeModeInteractive, RuntimeModeOneShot, ''resumed'', ''background'']"
definition RuntimeModeFrom :: "string \<Rightarrow> type_error + string" where
  "RuntimeModeFrom = closed_from knownRuntimeModes"

definition TerminalReasonSuccess :: string where "TerminalReasonSuccess = ''success''"
definition TerminalReasonLegacyUnknown :: string where "TerminalReasonLegacyUnknown = ''legacy_unknown''"
definition knownTerminalReasons :: "string list" where
  "knownTerminalReasons = [TerminalReasonSuccess, ''failure'', ''timeout'', ''signal'', ''aborted_stream'',
                           TerminalReasonLegacyUnknown]"
definition TerminalReasonFrom :: "string \<Rightarrow> type_error + string" where
  "TerminalReasonFrom = closed_from knownTerminalReasons"

definition knownSessionStatuses :: "string list" where
  "knownSessionStatuses = [''active'', ''stale'', ''ended'', ''ended_with_late_events'']"
definition SessionStatusFrom :: "string \<Rightarrow> type_error + string" where
  "SessionStatusFrom = closed_from knownSessionStatuses"

definition MemoryStatusCandidate :: string where "MemoryStatusCandidate = ''candidate''"
definition MemoryStatusAccepted :: string where "MemoryStatusAccepted = ''accepted''"
definition MemoryStatusRejected :: string where "MemoryStatusRejected = ''rejected''"
definition MemoryStatusSuperseded :: string where "MemoryStatusSuperseded = ''superseded''"
definition MemoryStatusExpired :: string where "MemoryStatusExpired = ''expired''"
definition knownMemoryStatuses :: "string list" where
  "knownMemoryStatuses = [MemoryStatusCandidate, MemoryStatusAccepted, MemoryStatusRejected,
                          MemoryStatusSuperseded, MemoryStatusExpired]"
definition MemoryStatusFrom :: "string \<Rightarrow> type_error + string" where
  "MemoryStatusFrom = closed_from knownMemoryStatuses"

definition knownMemoryTypes :: "string list" where
  "knownMemoryTypes = [''preference'', ''decision'', ''constraint'', ''lesson'', ''artifact'']"
definition MemoryTypeFrom :: "string \<Rightarrow> type_error + string" where
  "MemoryTypeFrom = closed_from knownMemoryTypes"

definition MemorySourceExtracted :: string where "MemorySourceExtracted = ''extracted''"
definition MemorySourceExtractedHidden :: string where "MemorySourceExtractedHidden = ''extracted-hidden''"
definition knownMemorySources :: "string list" where
  "knownMemorySources = [''manual'', MemorySourceExtracted, MemorySourceExtractedHidden, ''remember-intent'',
                         ''compact-summary'', ''imported'']"
definition MemorySourceFrom :: "string \<Rightarrow> type_error + string" where
  "MemorySourceFrom = closed_from knownMemorySources"

definition ConfidenceLow :: string where "ConfidenceLow = ''low''"
definition knownConfidenceLevels :: "string list" where
  "knownConfidenceLevels = [ConfidenceLow, ''medium'', ''high'', ''verified'']"
definition ConfidenceFrom :: "string \<Rightarrow> type_error + string" where
  "ConfidenceFrom = closed_from knownConfidenceLevels"

definition knownEventKinds :: "string list" where
  "knownEventKinds = [''note'', ''command_executed'', ''reviewed'', ''session_started'', ''session_ended'',
                      ''compact_summary'', ''prompt'', ''transcript'']"
definition EventKindFrom :: "string \<Rightarrow> type_error + string" where
  "EventKindFrom = closed_from knownEventKinds"

definition knownEvidenceRefKinds :: "string list" where
  "knownEvidenceRefKinds = [''event'', ''session'', ''url'', ''file'', ''issue'', ''pr'']"
definition EvidenceRefKindFrom :: "string \<Rightarrow> type_error + string" where
  "EvidenceRefKindFrom = closed_from knownEvidenceRefKinds"

definition knownArtifactRefKinds :: "string list" where
  "knownArtifactRefKinds = [''url'', ''file'', ''issue'', ''pr'']"
definition ArtifactRefKindFrom :: "string \<Rightarrow> type_error + string" where
  "ArtifactRefKindFrom = closed_from knownArtifactRefKinds"

definition MemoryScopeKindGlobal :: string where "MemoryScopeKindGlobal = ''global''"
definition MemoryScopeKindWorkspace :: string where "MemoryScopeKindWorkspace = ''workspace''"
definition MemoryScopeKindAgent :: string where "MemoryScopeKindAgent = ''agent''"
definition MemoryScopeKindSessionFamily :: string where "MemoryScopeKindSessionFamily = ''session_family''"
definition knownMemoryScopeKinds :: "string list" where
  "knownMemoryScopeKinds = [MemoryScopeKindGlobal, MemoryScopeKindWorkspace, MemoryScopeKindAgent,
                            MemoryScopeKindSessionFamily]"
definition MemoryScopeKindFrom :: "string \<Rightarrow> type_error + string" where
  "MemoryScopeKindFrom = closed_from knownMemoryScopeKinds"

section \<open>References\<close>

type_synonym Ref = "string \<times> string"

definition EvidenceRefFrom :: "string \<Rightarrow> string \<Rightarrow> type_error + Ref" where
  "EvidenceRefFrom kind v =
     (let t = trim_space v
      in if t = '''' then Inl EmptyValue
         else case EvidenceRefKindFrom kind of Inl e \<Rightarrow> Inl e | Inr _ \<Rightarrow> Inr (kind, t))"

definition ArtifactRefFrom :: "string \<Rightarrow> string \<Rightarrow> type_error + Ref" where
  "ArtifactRefFrom kind v =
     (let t = trim_space v
      in if t = '''' then Inl EmptyValue
         else case ArtifactRefKindFrom kind of Inl e \<Rightarrow> Inl e | Inr _ \<Rightarrow> Inr (kind, t))"

text \<open>The loop of \<open>appendUniqueRefsInto\<close>; the seen set is a list of the identities met so far.\<close>

fun appendUniqueRefsInto :: "Ref list \<Rightarrow> Ref list \<Rightarrow> Ref list \<Rightarrow> Ref list \<times> Ref list" where
  "appendUniqueRefsInto result seen [] = (result, seen)"
| "appendUniqueRefsInto result seen (r # rs) =
     (if List.member seen r then appendUniqueRefsInto result seen rs
      else appendUniqueRefsInto (result @ [r]) (r # seen) rs)"

definition appendUniqueRefs :: "Ref list \<Rightarrow> Ref list \<Rightarrow> Ref list" where
  "appendUniqueRefs dst refs =
     (let (result, seen) = appendUniqueRefsInto [] [] dst in fst (appendUniqueRefsInto result seen refs))"

definition AppendEvidenceRefs :: "Ref list \<Rightarrow> Ref list \<Rightarrow> Ref list" where "AppendEvidenceRefs = appendUniqueRefs"
definition AppendArtifactRefs :: "Ref list \<Rightarrow> Ref list \<Rightarrow> Ref list" where "AppendArtifactRefs = appendUniqueRefs"

section \<open>Memory scopes\<close>

datatype MemoryScope = GlobalScope | WorkspaceScope string | AgentScope string | SessionFamilyScope string

fun scope_kind :: "MemoryScope \<Rightarrow> string" where
  "scope_kind GlobalScope = MemoryScopeKindGlobal"
| "scope_kind (WorkspaceScope _) = MemoryScopeKindWorkspace"
| "scope_kind (AgentScope _) = MemoryScopeKindAgent"
| "scope_kind (SessionFamilyScope _) = MemoryScopeKindSessionFamily"

fun scope_key :: "MemoryScope \<Rightarrow> string" where
  "scope_key GlobalScope = ''global''"
| "scope_key (WorkspaceScope w) = w"
| "scope_key (AgentScope a) = a"
| "scope_key (SessionFamilyScope s) = s"

definition MemoryScopeFrom :: "string \<Rightarrow> string \<Rightarrow> type_error + MemoryScope" where
  "MemoryScopeFrom kind v =
     (case MemoryScopeKindFrom kind of
        Inl e \<Rightarrow> Inl e
      | Inr k \<Rightarrow>
          if k = MemoryScopeKindGlobal
          then (if trim_space v \<noteq> ''global'' then Inl (InvalidScopeValue v) else Inr GlobalScope)
          else if k = MemoryScopeKindWorkspace then map_sum id WorkspaceScope (WorkspaceFrom v)
          else if k = MemoryScopeKindAgent then map_sum id AgentScope (AgentFrom v)
          else if k = MemoryScopeKindSessionFamily then map_sum id SessionFamilyScope (SessionIDFrom v)
          else Inl (UnknownValue k))"

section \<open>Decay policy\<close>

definition DefaultMemoryDecayOlderThan :: int where "DefaultMemoryDecayOlderThan = 720 * hour"

definition DefaultDecaySources :: "string list" where
  "DefaultDecaySources = [MemorySourceExtracted, MemorySourceExtractedHidden]"

definition CandidateTTLApplies :: "string \<Rightarrow> bool" where
  "CandidateTTLApplies source \<longleftrightarrow> source = MemorySourceExtracted \<or> source = MemorySourceExtractedHidden"

record MemoryDecayPolicy =
  dp_older_than :: int
  dp_sources :: "string list"

definition MemoryDecayPolicyOf :: "int \<Rightarrow> string list \<Rightarrow> type_error + MemoryDecayPolicy" where
  "MemoryDecayPolicyOf olderThan sources =
     (if olderThan \<le> 0 then Inl NotPositive
      else Inr \<lparr>dp_older_than = olderThan, dp_sources = (if sources = [] then DefaultDecaySources else sources)\<rparr>)"

definition AllowsSource :: "MemoryDecayPolicy \<Rightarrow> string \<Rightarrow> bool" where
  "AllowsSource p source \<longleftrightarrow> List.member (dp_sources p) source"

definition DecayGrantStart :: "gotime \<Rightarrow> gotime option \<Rightarrow> gotime" where
  "DecayGrantStart createdAt expiresAt =
     (case expiresAt of
        Some e \<Rightarrow> time_add (utc e) (- DefaultMemoryDecayOlderThan)
      | None \<Rightarrow> utc createdAt)"

definition CandidateDue :: "MemoryDecayPolicy \<Rightarrow> gotime \<Rightarrow> gotime option \<Rightarrow> gotime \<Rightarrow> bool" where
  "CandidateDue p createdAt expiresAt now \<longleftrightarrow>
     before (DecayGrantStart createdAt expiresAt) (time_add (utc now) (- dp_older_than p))"

section \<open>Closed sets\<close>

text \<open>
  A closed set of canonical strings: none is empty and none has surrounding white space. Its parser
  then accepts exactly its members, up to white space, and accepts again what it returned.
\<close>

locale closed_set =
  fixes known :: "string list"
  assumes canonical: "list_all (\<lambda>v. v \<noteq> '''' \<and> list_all solid v) known"
begin

lemma known_trimmed: "v \<in> set known \<Longrightarrow> trim_space v = v \<and> v \<noteq> ''''"
  using canonical by (auto simp: list_all_iff intro!: trim_space_solid)

lemma from_member: "closed_from known s = Inr v \<longleftrightarrow> trim_space s = v \<and> v \<in> set known"
  using known_trimmed by (auto simp: closed_from_def Let_def split: if_splits)

lemma from_known: "v \<in> set known \<Longrightarrow> closed_from known v = Inr v"
  using known_trimmed from_member by auto

lemma from_again: "closed_from known s = Inr v \<Longrightarrow> closed_from known v = Inr v"
  using from_member from_known by auto

end

interpretation runtime_modes: closed_set knownRuntimeModes
  by unfold_locales (simp add: knownRuntimeModes_def RuntimeModeInteractive_def RuntimeModeOneShot_def solid_def)

interpretation terminal_reasons: closed_set knownTerminalReasons
  by unfold_locales (simp add: knownTerminalReasons_def TerminalReasonSuccess_def TerminalReasonLegacyUnknown_def solid_def)

interpretation session_statuses: closed_set knownSessionStatuses
  by unfold_locales (simp add: knownSessionStatuses_def solid_def)

interpretation memory_statuses: closed_set knownMemoryStatuses
  by unfold_locales (simp add: knownMemoryStatuses_def MemoryStatusCandidate_def MemoryStatusAccepted_def
      MemoryStatusRejected_def MemoryStatusSuperseded_def MemoryStatusExpired_def solid_def)

interpretation memory_types: closed_set knownMemoryTypes
  by unfold_locales (simp add: knownMemoryTypes_def solid_def)

interpretation memory_sources: closed_set knownMemorySources
  by unfold_locales (simp add: knownMemorySources_def MemorySourceExtracted_def MemorySourceExtractedHidden_def solid_def)

interpretation confidence_levels: closed_set knownConfidenceLevels
  by unfold_locales (simp add: knownConfidenceLevels_def ConfidenceLow_def solid_def)

interpretation event_kinds: closed_set knownEventKinds
  by unfold_locales (simp add: knownEventKinds_def solid_def)

interpretation evidence_kinds: closed_set knownEvidenceRefKinds
  by unfold_locales (simp add: knownEvidenceRefKinds_def solid_def)

interpretation artifact_kinds: closed_set knownArtifactRefKinds
  by unfold_locales (simp add: knownArtifactRefKinds_def solid_def)

interpretation scope_kinds: closed_set knownMemoryScopeKinds
  by unfold_locales (simp add: knownMemoryScopeKinds_def MemoryScopeKindGlobal_def MemoryScopeKindWorkspace_def
      MemoryScopeKindAgent_def MemoryScopeKindSessionFamily_def solid_def)

lemma nonempty_from_Inr: "nonempty_from s = Inr t \<longleftrightarrow> trim_space s = t \<and> t \<noteq> ''''"
  by (auto simp: nonempty_from_def Let_def)

section \<open>Laws of references and scopes\<close>

text \<open>The reference definition of an order-preserving union: the first occurrence of each identity.\<close>

fun first_occurrences :: "Ref list \<Rightarrow> Ref list \<Rightarrow> Ref list" where
  "first_occurrences seen [] = []"
| "first_occurrences seen (r # rs) =
     (if List.member seen r then first_occurrences seen rs else r # first_occurrences (r # seen) rs)"

lemma first_occurrences_cong: "set s = set t \<Longrightarrow> first_occurrences s rs = first_occurrences t rs"
proof (induction rs arbitrary: s t)
  case (Cons r rs)
  have "first_occurrences s rs = first_occurrences t rs"
    "first_occurrences (r # s) rs = first_occurrences (r # t) rs"
    by (rule Cons.IH; simp add: Cons.prems)+
  then show ?case by (simp add: Cons.prems)
qed simp

lemma appendUniqueRefsInto_first:
  "appendUniqueRefsInto result seen refs = (res, s) \<Longrightarrow>
    res = result @ first_occurrences seen refs \<and> set s = set seen \<union> set refs"
  by (induction result seen refs rule: appendUniqueRefsInto.induct) (auto split: if_splits)

lemma first_occurrences_append:
  "first_occurrences seen (xs @ ys) = first_occurrences seen xs @ first_occurrences (xs @ seen) ys"
proof (induction seen xs rule: first_occurrences.induct)
  case (2 seen r rs)
  have "set (rs @ seen) = set ((r # rs) @ seen)" if "List.member seen r" using that by auto
  then have "first_occurrences (rs @ seen) ys = first_occurrences ((r # rs) @ seen) ys" if "List.member seen r"
    using that by (intro first_occurrences_cong)
  moreover have "first_occurrences (rs @ r # seen) ys = first_occurrences ((r # rs) @ seen) ys"
    by (rule first_occurrences_cong) auto
  ultimately show ?case using 2 by auto
qed simp

lemma appendUniqueRefs_first: "appendUniqueRefs dst refs = first_occurrences [] (dst @ refs)"
proof -
  obtain res s where d: "appendUniqueRefsInto [] [] dst = (res, s)" by fastforce
  obtain res' s' where r: "appendUniqueRefsInto res s refs = (res', s')" by fastforce
  have "res' = first_occurrences [] dst @ first_occurrences s refs" "set s = set dst"
    using appendUniqueRefsInto_first [OF d] appendUniqueRefsInto_first [OF r] by auto
  then have "res' = first_occurrences [] dst @ first_occurrences (dst @ []) refs"
    using first_occurrences_cong [of s "dst @ []"] by simp
  then show ?thesis by (simp only: first_occurrences_append) (simp add: appendUniqueRefs_def d r)
qed

lemma first_occurrences_distinct:
  "distinct (first_occurrences seen rs) \<and> set (first_occurrences seen rs) = set rs - set seen"
  by (induction seen rs rule: first_occurrences.induct) auto

lemma appendUniqueRefs_set: "distinct (appendUniqueRefs dst refs) \<and> set (appendUniqueRefs dst refs) = set dst \<union> set refs"
  using first_occurrences_distinct [of "[]" "dst @ refs"] by (simp add: appendUniqueRefs_first)

text \<open>A scope that the parser can return, and that it returns for its own kind and key.\<close>

definition scope_ok :: "MemoryScope \<Rightarrow> bool" where
  "scope_ok s \<longleftrightarrow> trim_space (scope_key s) = scope_key s \<and> scope_key s \<noteq> ''''"

lemma MemoryScopeFrom_ok: "MemoryScopeFrom kind v = Inr s \<Longrightarrow> scope_ok s"
proof -
  assume s: "MemoryScopeFrom kind v = Inr s"
  have "trim_space ''global'' = ''global''" by (rule trim_space_solid) (simp_all add: solid_def)
  moreover have "trim_space t = t \<and> t \<noteq> ''''" if "nonempty_from v = Inr t" for t
    using that by (auto simp: nonempty_from_Inr)
  ultimately show ?thesis
    using s
    by (auto simp: MemoryScopeFrom_def scope_ok_def WorkspaceFrom_def AgentFrom_def SessionIDFrom_def map_sum_def
        split: sum.splits if_splits)
qed

lemma MemoryScopeFrom_roundtrip: "scope_ok s \<Longrightarrow> MemoryScopeFrom (scope_kind s) (scope_key s) = Inr s"
proof -
  assume ok: "scope_ok s"
  have k: "MemoryScopeKindFrom (scope_kind s) = Inr (scope_kind s)"
    unfolding MemoryScopeKindFrom_def
    by (rule scope_kinds.from_known) (cases s; simp add: knownMemoryScopeKinds_def)
  have n: "nonempty_from (scope_key s) = Inr (scope_key s)" using ok by (simp add: scope_ok_def nonempty_from_def Let_def)
  have d: "MemoryScopeKindGlobal \<noteq> MemoryScopeKindWorkspace" "MemoryScopeKindGlobal \<noteq> MemoryScopeKindAgent"
    "MemoryScopeKindGlobal \<noteq> MemoryScopeKindSessionFamily" "MemoryScopeKindWorkspace \<noteq> MemoryScopeKindAgent"
    "MemoryScopeKindWorkspace \<noteq> MemoryScopeKindSessionFamily" "MemoryScopeKindAgent \<noteq> MemoryScopeKindSessionFamily"
    by (simp_all add: MemoryScopeKindGlobal_def MemoryScopeKindWorkspace_def MemoryScopeKindAgent_def MemoryScopeKindSessionFamily_def)
  show ?thesis
    using k n ok d d [symmetric]
    by (cases s) (auto simp: MemoryScopeFrom_def WorkspaceFrom_def AgentFrom_def SessionIDFrom_def scope_ok_def)
qed

text \<open>Shifting both sides of a time comparison by the same duration changes nothing.\<close>

lemma before_add_shift: "before (time_add a d) (time_add b e) \<longleftrightarrow> tcompare a b < e - d"
  by (auto simp: before_def tcompare_def time_add_def split: option.splits)

lemma tcompare_utc [simp]: "tcompare (utc a) b = tcompare a b" "tcompare a (utc b) = tcompare a b"
  by (simp_all add: tcompare_def split: option.splits)

lemma time_add_add: "time_add (time_add t d) e = time_add t (d + e)"
  by (cases t) (auto simp: time_add_def option.map_comp comp_def add.assoc)

lemma time_add_0 [simp]: "time_add t 0 = t"
  by (cases t) (auto simp: time_add_def option.map_ident)

lemma utc_add: "utc (time_add t d) = time_add (utc t) d"
  by (simp add: time_add_def utc_def)

text \<open>A stamp of the default time to live is a grant that starts when it was given.\<close>

lemma DecayGrantStart_stamped: "DecayGrantStart c (Some (time_add t DefaultMemoryDecayOlderThan)) = utc t"
  by (simp add: DecayGrantStart_def utc_add time_add_add)

lemma CandidateDue_stamped:
  "CandidateDue p c (Some (time_add t DefaultMemoryDecayOlderThan)) now \<longleftrightarrow> tcompare t now < - dp_older_than p"
  using before_add_shift [of "utc t" 0 "utc now" "- dp_older_than p"]
  by (simp add: CandidateDue_def DecayGrantStart_stamped)

end
