(* ===== verification/Session.thy ===== *)
theory Session
  imports Domain_Types
begin

text \<open>
  The session aggregate of \<open>domain/model\<close>: \<open>session.go\<close>, \<open>session_lifecycle.go\<close> and
  \<open>session_restore.go\<close>. A method with a pointer receiver takes the session and returns the mutated
  one; a receiver that may be nil is an \<open>option\<close>. The lifecycle is a sealed machine: the first
  terminal state is final.
\<close>

section \<open>Data\<close>

record Session =
  s_id :: string
  s_started_at :: gotime
  s_ended_at :: "gotime option"
  s_client :: string
  s_agent :: string
  s_workspace :: string
  s_label :: string
  s_summary :: string
  s_runtime_mode :: string
  s_terminal_reason :: "string option"
  s_model :: string
  s_parent :: string
  s_spawn_event :: string
  s_subagent_kind :: string
  s_spawn_order :: "int option"

record SessionSnapshot =
  ss_id :: string
  ss_started_at :: gotime
  ss_ended_at :: "gotime option"
  ss_client :: string
  ss_agent :: string
  ss_workspace :: string
  ss_label :: string
  ss_summary :: string
  ss_model :: string
  ss_runtime_mode :: string
  ss_terminal_reason :: "string option"
  ss_parent :: string
  ss_spawn_event :: string
  ss_subagent_kind :: string
  ss_spawn_order :: "int option"

datatype session_error =
    ErrInvalidSessionState
  | SessionTerminalConflictError (CurrentReason: string) (ProposedReason: string)
  | ErrSupervisorOwnedSession
  | SessionTypeError type_error

datatype SessionTerminalTransition = TransitionApplied | TransitionAlreadyApplied

text \<open>The dynamic types that a spawn metadata argument of \<open>SessionOf\<close> is asked for.\<close>

datatype SpawnValue = EventIDValue string | StringValue string | OptionalIntValue "int option" | OtherValue

section \<open>Constructors\<close>

definition NewSession :: "string \<Rightarrow> gotime \<Rightarrow> string \<Rightarrow> string \<Rightarrow> string \<Rightarrow> Session" where
  "NewSession sid started client agent workspace =
     \<lparr>s_id = sid, s_started_at = started, s_ended_at = None, s_client = client, s_agent = agent,
      s_workspace = workspace, s_label = '''', s_summary = '''', s_runtime_mode = RuntimeModeInteractive,
      s_terminal_reason = None, s_model = '''', s_parent = '''', s_spawn_event = '''',
      s_subagent_kind = '''', s_spawn_order = None\<rparr>"

definition NewSessionWithRuntimeModeAndParent ::
    "string \<Rightarrow> gotime \<Rightarrow> string \<Rightarrow> string \<Rightarrow> string \<Rightarrow> string \<Rightarrow> string \<Rightarrow> session_error + Session" where
  "NewSessionWithRuntimeModeAndParent sid started client agent workspace mode parent =
     (case RuntimeModeFrom mode of
        Inl e \<Rightarrow> Inl (SessionTypeError e)
      | Inr validated \<Rightarrow>
          if parent \<noteq> '''' \<and> parent = sid then Inl ErrInvalidSessionState
          else Inr ((NewSession sid started client agent workspace)
                      \<lparr>s_runtime_mode := validated, s_parent := parent\<rparr>))"

definition NewSessionWithRuntimeMode ::
    "string \<Rightarrow> gotime \<Rightarrow> string \<Rightarrow> string \<Rightarrow> string \<Rightarrow> string \<Rightarrow> session_error + Session" where
  "NewSessionWithRuntimeMode sid started client agent workspace mode =
     NewSessionWithRuntimeModeAndParent sid started client agent workspace mode ''''"

definition NewChildSession ::
    "Session \<Rightarrow> string \<Rightarrow> gotime \<Rightarrow> string \<Rightarrow> string \<Rightarrow> string \<Rightarrow> string \<Rightarrow> int \<Rightarrow> Session" where
  "NewChildSession parent sid started agent workspace spawnEvent kind order =
     (NewSession sid started (s_client parent) agent workspace)
       \<lparr>s_parent := s_id parent, s_spawn_event := spawnEvent, s_subagent_kind := kind,
        s_spawn_order := Some order\<rparr>"

definition SessionOf ::
    "string \<Rightarrow> gotime \<Rightarrow> gotime option \<Rightarrow> string \<Rightarrow> string \<Rightarrow> string \<Rightarrow> string \<Rightarrow> string \<Rightarrow> string \<Rightarrow>
     SpawnValue list \<Rightarrow> Session" where
  "SessionOf sid started ended client agent workspace label summary parent spawn =
     \<lparr>s_id = sid, s_started_at = started, s_ended_at = ended, s_client = client, s_agent = agent,
      s_workspace = workspace, s_label = label, s_summary = summary,
      s_runtime_mode = RuntimeModeInteractive,
      s_terminal_reason = (if ended \<noteq> None then Some TerminalReasonLegacyUnknown else None),
      s_model = (case drop 3 spawn of StringValue v # _ \<Rightarrow> v | _ \<Rightarrow> ''''),
      s_parent = parent,
      s_spawn_event = (case spawn of EventIDValue v # _ \<Rightarrow> v | _ \<Rightarrow> ''''),
      s_subagent_kind = (case drop 1 spawn of StringValue v # _ \<Rightarrow> v | _ \<Rightarrow> ''''),
      s_spawn_order = (case drop 2 spawn of OptionalIntValue v # _ \<Rightarrow> v | _ \<Rightarrow> None)\<rparr>"

definition SessionFromSnapshot :: "SessionSnapshot \<Rightarrow> session_error + Session" where
  "SessionFromSnapshot n =
     (case RuntimeModeFrom (if ss_runtime_mode n = '''' then RuntimeModeInteractive else ss_runtime_mode n) of
        Inl e \<Rightarrow> Inl (SessionTypeError e)
      | Inr mode \<Rightarrow>
          let restore = (\<lambda>reason.
                \<lparr>s_id = ss_id n, s_started_at = ss_started_at n, s_ended_at = ss_ended_at n,
                 s_client = ss_client n, s_agent = ss_agent n, s_workspace = ss_workspace n,
                 s_label = ss_label n, s_summary = ss_summary n, s_runtime_mode = mode,
                 s_terminal_reason = reason, s_model = ss_model n, s_parent = ss_parent n,
                 s_spawn_event = ss_spawn_event n, s_subagent_kind = ss_subagent_kind n,
                 s_spawn_order = ss_spawn_order n\<rparr>)
          in case ss_ended_at n of
               None \<Rightarrow>
                 if ss_terminal_reason n \<noteq> None then Inl ErrInvalidSessionState else Inr (restore None)
             | Some ended \<Rightarrow>
                 if is_zero ended \<or> before ended (ss_started_at n) then Inl ErrInvalidSessionState
                 else case TerminalReasonFrom
                             (case ss_terminal_reason n of
                                Some r \<Rightarrow> r | None \<Rightarrow> TerminalReasonLegacyUnknown) of
                        Inl e \<Rightarrow> Inl (SessionTypeError e)
                      | Inr reason \<Rightarrow> Inr (restore (Some reason)))"

section \<open>Transitions\<close>

definition terminate_session ::
    "Session option \<Rightarrow> gotime \<Rightarrow> string \<Rightarrow> string \<Rightarrow>
     session_error + (SessionTerminalTransition \<times> Session)" where
  "terminate_session receiver ended reason summary =
     (case receiver of
        None \<Rightarrow> Inl ErrInvalidSessionState
      | Some s \<Rightarrow>
          (case TerminalReasonFrom reason of
             Inl e \<Rightarrow> Inl (SessionTypeError e)
           | Inr validated \<Rightarrow>
               if is_zero ended \<or> before ended (s_started_at s) then Inl ErrInvalidSessionState
               else (case s_terminal_reason s of
                       Some current \<Rightarrow>
                         if current = validated then Inr (TransitionAlreadyApplied, s)
                         else Inl (SessionTerminalConflictError current validated)
                     | None \<Rightarrow>
                         if s_ended_at s \<noteq> None then Inl ErrInvalidSessionState
                         else Inr (TransitionApplied,
                                   s\<lparr>s_ended_at := Some ended, s_terminal_reason := Some validated,
                                     s_summary := summary\<rparr>))))"

definition Terminate ::
    "Session option \<Rightarrow> gotime \<Rightarrow> string \<Rightarrow> string \<Rightarrow>
     session_error + (SessionTerminalTransition \<times> Session)" where
  "Terminate receiver ended reason summary =
     (case receiver of
        Some s \<Rightarrow>
          if s_runtime_mode s = RuntimeModeOneShot then Inl ErrSupervisorOwnedSession
          else terminate_session receiver ended reason summary
      | None \<Rightarrow> terminate_session receiver ended reason summary)"

definition FinalizeOneShot ::
    "Session option \<Rightarrow> gotime \<Rightarrow> string \<Rightarrow> string \<Rightarrow>
     session_error + (SessionTerminalTransition \<times> Session)" where
  "FinalizeOneShot receiver ended reason summary =
     (case receiver of
        None \<Rightarrow> Inl ErrInvalidSessionState
      | Some s \<Rightarrow>
          if s_runtime_mode s \<noteq> RuntimeModeOneShot then Inl ErrInvalidSessionState
          else terminate_session receiver ended reason summary)"

definition EndSession :: "Session option \<Rightarrow> gotime \<Rightarrow> string \<Rightarrow> session_error + Session" where
  "EndSession receiver ended summary =
     (case Terminate receiver ended TerminalReasonSuccess summary of
        Inl e \<Rightarrow> Inl e
      | Inr (transition, s) \<Rightarrow>
          if transition = TransitionAlreadyApplied then Inl ErrInvalidSessionState else Inr s)"

definition SetLabel :: "Session \<Rightarrow> string \<Rightarrow> Session" where
  "SetLabel s label = s\<lparr>s_label := label\<rparr>"

definition SetModel :: "Session option \<Rightarrow> string \<Rightarrow> Session option" where
  "SetModel receiver name =
     (case receiver of
        None \<Rightarrow> None
      | Some s \<Rightarrow> Some (if trim_space name \<noteq> '''' then s\<lparr>s_model := trim_space name\<rparr> else s))"

definition session_model :: "Session option \<Rightarrow> string" where
  "session_model receiver = (case receiver of None \<Rightarrow> '''' | Some s \<Rightarrow> s_model s)"

section \<open>The lifecycle machine\<close>

inductive session_init :: "Session \<Rightarrow> bool" where
  fresh: "session_init (NewSession sid started client agent workspace)"
| with_mode: "NewSessionWithRuntimeModeAndParent sid started client agent workspace mode parent = Inr s
    \<Longrightarrow> session_init s"
| child: "session_init (NewChildSession p sid started agent workspace ev kind order)"
| restored: "SessionFromSnapshot n = Inr s \<Longrightarrow> session_init s"

inductive session_init_legacy :: "Session \<Rightarrow> bool" where
  current: "session_init s \<Longrightarrow> session_init_legacy s"
| legacy: "session_init_legacy (SessionOf sid started ended client agent workspace label summary parent spawn)"

inductive session_step :: "Session \<Rightarrow> Session \<Rightarrow> bool" where
  terminated: "Terminate (Some s) ended reason summary = Inr (tr, t) \<Longrightarrow> session_step s t"
| finalized: "FinalizeOneShot (Some s) ended reason summary = Inr (tr, t) \<Longrightarrow> session_step s t"
| ended: "EndSession (Some s) ended summary = Inr t \<Longrightarrow> session_step s t"
| labelled: "session_step s (SetLabel s label)"
| model_set: "SetModel (Some s) name = Some t \<Longrightarrow> session_step s t"

text \<open>
  The lifecycle fields of a session, and the stronger form that every constructor but the legacy
  one establishes: an end is a real time that does not precede the start.
\<close>

definition lifecycle_ok :: "Session \<Rightarrow> bool" where
  "lifecycle_ok s \<longleftrightarrow>
     s_runtime_mode s \<in> set knownRuntimeModes \<and>
     (case s_terminal_reason s of
        None \<Rightarrow> s_ended_at s = None
      | Some r \<Rightarrow> s_ended_at s \<noteq> None \<and> r \<in> set knownTerminalReasons)"

definition end_ok :: "Session \<Rightarrow> bool" where
  "end_ok s \<longleftrightarrow>
     (case s_ended_at s of None \<Rightarrow> True | Some e \<Rightarrow> \<not> is_zero e \<and> \<not> before e (s_started_at s))"

definition session_wf :: "Session \<Rightarrow> bool" where
  "session_wf s \<longleftrightarrow> lifecycle_ok s \<and> end_ok s"

text \<open>What a constructor fixes for good, and what the first terminal transition fixes for good.\<close>

definition session_identity where
  "session_identity s =
     (s_id s, s_started_at s, s_client s, s_agent s, s_workspace s, s_runtime_mode s, s_parent s,
      s_spawn_event s, s_subagent_kind s, s_spawn_order s)"

definition has_identity where
  "has_identity k s \<longleftrightarrow> session_identity s = k"

definition outcome_sealed :: "gotime \<times> string option \<times> string \<Rightarrow> Session \<Rightarrow> bool" where
  "outcome_sealed k s \<longleftrightarrow> s_ended_at s = Some (fst k) \<and> s_terminal_reason s = fst (snd k) \<and> s_summary s = snd (snd k)"

lemma known_modes: "RuntimeModeInteractive \<in> set knownRuntimeModes"
  by (simp add: knownRuntimeModes_def)

lemma RuntimeModeFrom_known: "RuntimeModeFrom m = Inr v \<Longrightarrow> v \<in> set knownRuntimeModes"
  using runtime_modes.from_member by (simp add: RuntimeModeFrom_def)

lemma TerminalReasonFrom_known: "TerminalReasonFrom m = Inr v \<Longrightarrow> v \<in> set knownTerminalReasons"
  using terminal_reasons.from_member by (simp add: TerminalReasonFrom_def)

lemma RuntimeModeFrom_id: "v \<in> set knownRuntimeModes \<Longrightarrow> RuntimeModeFrom v = Inr v \<and> v \<noteq> ''''"
  using runtime_modes.from_known runtime_modes.known_trimmed by (simp add: RuntimeModeFrom_def)

lemma TerminalReasonFrom_id: "v \<in> set knownTerminalReasons \<Longrightarrow> TerminalReasonFrom v = Inr v"
  using terminal_reasons.from_known by (simp add: TerminalReasonFrom_def)

lemma legacy_unknown_known: "TerminalReasonLegacyUnknown \<in> set knownTerminalReasons"
  by (simp add: knownTerminalReasons_def)

text \<open>A terminal call that succeeds either writes the first outcome or changes nothing.\<close>

lemma terminate_session_cases:
  assumes "terminate_session (Some s) ended reason summary = Inr (tr, t)"
  obtains "tr = TransitionAlreadyApplied" "t = s" "TerminalReasonFrom reason = Inr (the (s_terminal_reason s))"
      "s_terminal_reason s \<noteq> None"
    | v where "tr = TransitionApplied" "TerminalReasonFrom reason = Inr v" "s_terminal_reason s = None"
      "s_ended_at s = None" "\<not> is_zero ended" "\<not> before ended (s_started_at s)"
      "t = s\<lparr>s_ended_at := Some ended, s_terminal_reason := Some v, s_summary := summary\<rparr>"
  using assms by (auto simp: terminate_session_def split: sum.splits option.splits if_splits)

lemma Terminate_is: "Terminate (Some s) ended reason summary = Inr x \<Longrightarrow>
    s_runtime_mode s \<noteq> RuntimeModeOneShot \<and> terminate_session (Some s) ended reason summary = Inr x"
  by (auto simp: Terminate_def split: if_splits)

lemma FinalizeOneShot_is: "FinalizeOneShot (Some s) ended reason summary = Inr x \<Longrightarrow>
    s_runtime_mode s = RuntimeModeOneShot \<and> terminate_session (Some s) ended reason summary = Inr x"
  by (auto simp: FinalizeOneShot_def split: if_splits)

lemma EndSession_is: "EndSession (Some s) ended summary = Inr t \<Longrightarrow>
    Terminate (Some s) ended TerminalReasonSuccess summary = Inr (TransitionApplied, t)"
  by (auto simp: EndSession_def split: sum.splits prod.splits if_splits) (metis SessionTerminalTransition.exhaust)

text \<open>Every step is a terminal call, or leaves all but the label and the model name alone.\<close>

lemma session_step_cases:
  assumes "session_step s t"
  obtains ended reason summary tr where "terminate_session (Some s) ended reason summary = Inr (tr, t)"
    | label name where "t = s\<lparr>s_label := label, s_model := name\<rparr>"
  using assms
proof cases
  case (terminated ended reason summary tr)
  then show ?thesis using that(1) Terminate_is by blast
next
  case (finalized ended reason summary tr)
  then show ?thesis using that(1) FinalizeOneShot_is by blast
next
  case (ended ended summary)
  then show ?thesis using that(1) EndSession_is Terminate_is by blast
next
  case (labelled label)
  then show ?thesis using that(2) [of "s_model s" label] by (simp add: SetLabel_def)
next
  case (model_set name)
  then show ?thesis using that(2) [of "s_model t" "s_label s"] by (auto simp: SetModel_def split: if_splits)
qed

lemma session_step_identity: "session_step s t \<Longrightarrow> session_identity t = session_identity s"
proof (erule session_step_cases)
  fix ended reason summary tr
  assume "terminate_session (Some s) ended reason summary = Inr (tr, t)"
  then show ?thesis by (cases rule: terminate_session_cases) (simp_all add: session_identity_def)
next
  fix label name
  assume "t = s\<lparr>s_label := label, s_model := name\<rparr>"
  then show ?thesis by (simp add: session_identity_def)
qed

lemma session_step_sealed: "session_step s t \<Longrightarrow> lifecycle_ok s \<Longrightarrow> outcome_sealed k s \<Longrightarrow> outcome_sealed k t"
proof (erule session_step_cases)
  fix ended reason summary tr
  assume "terminate_session (Some s) ended reason summary = Inr (tr, t)" "outcome_sealed k s"
  then show ?thesis by (cases rule: terminate_session_cases) (auto simp: outcome_sealed_def)
next
  fix label name
  assume "t = s\<lparr>s_label := label, s_model := name\<rparr>" "outcome_sealed k s"
  then show ?thesis by (simp add: outcome_sealed_def)
qed

lemma session_step_lifecycle: "session_step s t \<Longrightarrow> lifecycle_ok s \<Longrightarrow> lifecycle_ok t"
proof (erule session_step_cases)
  fix ended reason summary tr
  assume "terminate_session (Some s) ended reason summary = Inr (tr, t)" "lifecycle_ok s"
  then show ?thesis
    by (cases rule: terminate_session_cases) (auto simp: lifecycle_ok_def dest: TerminalReasonFrom_known)
next
  fix label name
  assume "t = s\<lparr>s_label := label, s_model := name\<rparr>" "lifecycle_ok s"
  then show ?thesis by (simp add: lifecycle_ok_def split: option.splits)
qed

lemma session_step_end: "session_step s t \<Longrightarrow> end_ok s \<Longrightarrow> end_ok t"
proof (erule session_step_cases)
  fix ended reason summary tr
  assume "terminate_session (Some s) ended reason summary = Inr (tr, t)" "end_ok s"
  then show ?thesis by (cases rule: terminate_session_cases) (auto simp: end_ok_def)
next
  fix label name
  assume "t = s\<lparr>s_label := label, s_model := name\<rparr>" "end_ok s"
  then show ?thesis by (simp add: end_ok_def split: option.splits)
qed

lemma SessionFromSnapshot_wf: "SessionFromSnapshot n = Inr s \<Longrightarrow> session_wf s"
  by (auto simp: SessionFromSnapshot_def Let_def session_wf_def lifecycle_ok_def end_ok_def
      dest: RuntimeModeFrom_known TerminalReasonFrom_known split: sum.splits option.splits if_splits)

lemma session_init_wf: "session_init s \<Longrightarrow> session_wf s"
proof (induction rule: session_init.induct)
  case (with_mode sid started client agent workspace mode parent s)
  then show ?case
    by (auto simp: NewSessionWithRuntimeModeAndParent_def NewSession_def session_wf_def lifecycle_ok_def
        end_ok_def dest: RuntimeModeFrom_known split: sum.splits if_splits)
next
  case (restored n s)
  then show ?case by (rule SessionFromSnapshot_wf)
qed (simp_all add: NewSession_def NewChildSession_def session_wf_def lifecycle_ok_def end_ok_def known_modes)

lemma session_init_legacy_ok: "session_init_legacy s \<Longrightarrow> lifecycle_ok s"
proof (induction rule: session_init_legacy.induct)
  case (current s)
  then show ?case using session_init_wf by (simp add: session_wf_def)
qed (simp add: SessionOf_def lifecycle_ok_def known_modes legacy_unknown_known)

interpretation session_outcome: sealed_machine session_init_legacy session_step lifecycle_ok outcome_sealed
  by unfold_locales (auto intro: session_init_legacy_ok session_step_lifecycle session_step_sealed)

interpretation session_identity_machine: sealed_machine session_init_legacy session_step lifecycle_ok has_identity
  by unfold_locales (simp add: has_identity_def session_step_identity)

interpretation session_machine: invariant_machine session_init session_step session_wf
  by unfold_locales (auto simp: session_wf_def session_init_wf [unfolded session_wf_def]
      intro: session_step_lifecycle session_step_end)

text \<open>Ordinary writers never move a one-shot session: its outcome belongs to the supervisor.\<close>

lemma one_shot_refuses_ordinary:
  "s_runtime_mode s = RuntimeModeOneShot \<Longrightarrow>
    Terminate (Some s) ended reason summary = Inl ErrSupervisorOwnedSession
    \<and> EndSession (Some s) ended summary = Inl ErrSupervisorOwnedSession"
  by (simp add: Terminate_def EndSession_def)

text \<open>The snapshot a store keeps of a session: its fields.\<close>

definition snapshot_of :: "Session \<Rightarrow> SessionSnapshot" where
  "snapshot_of s =
     \<lparr>ss_id = s_id s, ss_started_at = s_started_at s, ss_ended_at = s_ended_at s, ss_client = s_client s,
      ss_agent = s_agent s, ss_workspace = s_workspace s, ss_label = s_label s, ss_summary = s_summary s,
      ss_model = s_model s, ss_runtime_mode = s_runtime_mode s, ss_terminal_reason = s_terminal_reason s,
      ss_parent = s_parent s, ss_spawn_event = s_spawn_event s, ss_subagent_kind = s_subagent_kind s,
      ss_spawn_order = s_spawn_order s\<rparr>"

lemma snapshot_restores: "session_wf s \<Longrightarrow> SessionFromSnapshot (snapshot_of s) = Inr s"
  by (cases s) (auto simp: SessionFromSnapshot_def snapshot_of_def session_wf_def lifecycle_ok_def end_ok_def
      RuntimeModeFrom_id TerminalReasonFrom_id split: option.splits)

section \<open>Properties\<close>

text \<open>
  C11: the first terminal state of a session wins. However a session came to be (the legacy
  constructor included), and whatever sequence of terminal, label and model writes follows, the
  session keeps its identity, start, runtime mode and lineage, has an end time exactly when it has a
  terminal reason, and once it has ended keeps that end time, reason and summary.\<close>

theorem session_first_terminal_wins:
  assumes reached: "reach session_init_legacy session_step s"
    and later: "session_step\<^sup>*\<^sup>* s t"
  shows "session_identity t = session_identity s
    \<and> (s_ended_at t = None \<longleftrightarrow> s_terminal_reason t = None)
    \<and> (s_ended_at s \<noteq> None \<longrightarrow>
        s_ended_at t = s_ended_at s \<and> s_terminal_reason t = s_terminal_reason s \<and> s_summary t = s_summary s)"
proof (intro conjI impI)
  have ok: "lifecycle_ok s" using reached by (rule session_outcome.reach_inv)
  show "session_identity t = session_identity s"
    using session_identity_machine.sealed_forever [OF later ok, of "session_identity s"]
    by (simp add: has_identity_def)
  show "s_ended_at t = None \<longleftrightarrow> s_terminal_reason t = None"
    using session_outcome.steps_inv [OF later ok] by (auto simp: lifecycle_ok_def split: option.splits)
  assume "s_ended_at s \<noteq> None"
  then obtain e where e: "s_ended_at s = Some e" by blast
  have "outcome_sealed (e, s_terminal_reason s, s_summary s) t"
    using session_outcome.sealed_forever [OF later ok, of "(e, s_terminal_reason s, s_summary s)"] e
    by (simp add: outcome_sealed_def)
  with e show "s_ended_at t = s_ended_at s" "s_terminal_reason t = s_terminal_reason s" "s_summary t = s_summary s"
    by (simp_all add: outcome_sealed_def)
qed

definition ex_session :: Session where
  "ex_session = NewSession ''s1'' (GoTime 5 None 0) ''cli'' ''codex'' ''/w''"

definition ex_ended :: Session where
  "ex_ended = ex_session\<lparr>s_ended_at := Some (GoTime 9 None 0), s_terminal_reason := Some ''failure'',
                         s_summary := ''done''\<rparr>"

lemma ex_failure: "TerminalReasonFrom ''failure'' = Inr ''failure''"
  by (rule TerminalReasonFrom_id) (simp add: knownTerminalReasons_def)

lemma ex_terminate: "Terminate (Some ex_session) (GoTime 9 None 0) ''failure'' ''done'' = Inr (TransitionApplied, ex_ended)"
  by (simp add: Terminate_def terminate_session_def ex_failure ex_session_def ex_ended_def NewSession_def
      RuntimeModeInteractive_def RuntimeModeOneShot_def is_zero_def before_def tcompare_def)

lemma ex_ended_reach: "reach session_init session_step ex_ended"
proof (rule reach.reach_step)
  show "reach session_init session_step ex_session"
    unfolding ex_session_def by (rule reach.reach_init) (rule session_init.fresh)
  show "session_step ex_session ex_ended" using ex_terminate by (rule session_step.terminated)
qed

lemma legacy_reach: "reach session_init session_step s \<Longrightarrow> reach session_init_legacy session_step s"
  by (induction rule: reach.induct) (auto intro: reach.intros session_init_legacy.current)

theorem session_first_terminal_wins_witness:
  "s_ended_at (SetLabel ex_ended ''late'') = Some (GoTime 9 None 0)
    \<and> s_terminal_reason (SetLabel ex_ended ''late'') = Some ''failure''"
proof -
  have "session_step\<^sup>*\<^sup>* ex_ended (SetLabel ex_ended ''late'')"
    by (intro r_into_rtranclp session_step.labelled)
  from session_first_terminal_wins [OF legacy_reach [OF ex_ended_reach] this]
  show ?thesis by (simp add: ex_ended_def)
qed

text \<open>
  rehydration is faithful. Every session built by the current constructors, and moved by any
  sequence of its methods, restores from the snapshot of its own fields to exactly itself: none of
  the validations of \<open>SessionFromSnapshot\<close> refuses it and none of the legacy defaults rewrites it.\<close>

theorem session_snapshot_roundtrip:
  assumes "reach session_init session_step s"
  shows "SessionFromSnapshot (snapshot_of s) = Inr s"
  using assms by (intro snapshot_restores) (rule session_machine.reach_inv)

theorem session_snapshot_roundtrip_witness:
  "SessionFromSnapshot (snapshot_of ex_ended) = Inr ex_ended"
  using ex_ended_reach by (rule session_snapshot_roundtrip)

end
