(* ===== verification/Memory.thy ===== *)
theory Memory
  imports Domain_Types
begin

text \<open>
  The durable memory aggregate of \<open>domain/model/memory.go\<close>. The clock is outside the program, so a
  method that reads it takes the reading as an argument; \<open>NewMemoryCandidateWithClock\<close> reads it
  twice, once for the stamp of the time to live and once for the row's own times. The scope is an
  interface value and may be nil.
\<close>

section \<open>Data\<close>

record Memory =
  m_id :: string
  m_type :: string
  m_scope :: "MemoryScope option"
  m_fact :: string
  m_status :: string
  m_confidence :: string
  m_source :: string
  m_evidence :: "Ref list"
  m_artifacts :: "Ref list"
  m_supersedes :: "string option"
  m_expires_at :: "gotime option"
  m_valid_from :: gotime
  m_valid_to :: "gotime option"
  m_created_at :: gotime
  m_updated_at :: gotime

datatype memory_error = EmptyFact | NilScope | ErrInvalidMemoryState

section \<open>Constructors\<close>

definition newMemory ::
    "string \<Rightarrow> string \<Rightarrow> MemoryScope option \<Rightarrow> string \<Rightarrow> string \<Rightarrow> string \<Rightarrow> string \<Rightarrow> Ref list \<Rightarrow> Ref list \<Rightarrow>
     string option \<Rightarrow> gotime option \<Rightarrow> gotime \<Rightarrow> memory_error + Memory" where
  "newMemory mid mtype scope factText status confidence source evidence artifacts supersedes expires now =
     (let trimmed = trim_space factText
      in if trimmed = '''' then Inl EmptyFact
         else if scope = None then Inl NilScope
         else Inr \<lparr>m_id = mid, m_type = mtype, m_scope = scope, m_fact = trimmed, m_status = status,
                   m_confidence = confidence, m_source = source, m_evidence = evidence,
                   m_artifacts = artifacts, m_supersedes = supersedes, m_expires_at = expires,
                   m_valid_from = now, m_valid_to = None, m_created_at = now, m_updated_at = now\<rparr>)"

definition NewMemoryCandidateWithClock ::
    "string \<Rightarrow> string \<Rightarrow> MemoryScope option \<Rightarrow> string \<Rightarrow> string \<Rightarrow> Ref list \<Rightarrow> Ref list \<Rightarrow>
     string option \<Rightarrow> gotime \<Rightarrow> gotime \<Rightarrow> memory_error + Memory" where
  "NewMemoryCandidateWithClock mid mtype scope factText source evidence artifacts supersedes stamp now =
     newMemory mid mtype scope factText MemoryStatusCandidate ConfidenceLow source evidence artifacts supersedes
       (if CandidateTTLApplies source then Some (time_add stamp DefaultMemoryDecayOlderThan) else None) now"

definition NewAcceptedMemoryWithValidityAndClock ::
    "string \<Rightarrow> string \<Rightarrow> MemoryScope option \<Rightarrow> string \<Rightarrow> string \<Rightarrow> string \<Rightarrow> Ref list \<Rightarrow> Ref list \<Rightarrow>
     string option \<Rightarrow> gotime option \<Rightarrow> gotime option \<Rightarrow> gotime \<Rightarrow> memory_error + Memory" where
  "NewAcceptedMemoryWithValidityAndClock mid mtype scope factText confidence source evidence artifacts supersedes
       validFrom validTo now =
     (case newMemory mid mtype scope factText MemoryStatusAccepted confidence source evidence artifacts supersedes
             None now of
        Inl e \<Rightarrow> Inl e
      | Inr m \<Rightarrow>
          Inr (m\<lparr>m_valid_from := (case validFrom of Some t \<Rightarrow> t | None \<Rightarrow> m_valid_from m),
                 m_valid_to := validTo\<rparr>))"

definition NewAcceptedMemoryWithClock ::
    "string \<Rightarrow> string \<Rightarrow> MemoryScope option \<Rightarrow> string \<Rightarrow> string \<Rightarrow> string \<Rightarrow> Ref list \<Rightarrow> Ref list \<Rightarrow>
     string option \<Rightarrow> gotime \<Rightarrow> memory_error + Memory" where
  "NewAcceptedMemoryWithClock mid mtype scope factText confidence source evidence artifacts supersedes now =
     NewAcceptedMemoryWithValidityAndClock mid mtype scope factText confidence source evidence artifacts supersedes
       None None now"

definition MemoryOf ::
    "string \<Rightarrow> string \<Rightarrow> MemoryScope option \<Rightarrow> string \<Rightarrow> string \<Rightarrow> string \<Rightarrow> string \<Rightarrow> Ref list \<Rightarrow> Ref list \<Rightarrow>
     string option \<Rightarrow> gotime option \<Rightarrow> gotime \<Rightarrow> gotime option \<Rightarrow> gotime \<Rightarrow> gotime \<Rightarrow> Memory" where
  "MemoryOf mid mtype scope factText status confidence source evidence artifacts supersedes expires
       validFrom validTo created updated =
     \<lparr>m_id = mid, m_type = mtype, m_scope = scope, m_fact = factText, m_status = status,
      m_confidence = confidence, m_source = source, m_evidence = evidence, m_artifacts = artifacts,
      m_supersedes = supersedes, m_expires_at = expires, m_valid_from = validFrom, m_valid_to = validTo,
      m_created_at = created, m_updated_at = updated\<rparr>"

section \<open>Operations\<close>

definition SetValidity :: "Memory \<Rightarrow> gotime option \<Rightarrow> gotime option \<Rightarrow> gotime \<Rightarrow> Memory" where
  "SetValidity m validFrom validTo now =
     m\<lparr>m_valid_from := (case validFrom of Some t \<Rightarrow> t | None \<Rightarrow> m_valid_from m), m_valid_to := validTo,
       m_updated_at := now\<rparr>"

definition AttachRefs :: "Memory \<Rightarrow> Ref list \<Rightarrow> Ref list \<Rightarrow> gotime \<Rightarrow> memory_error + Memory" where
  "AttachRefs m evidence artifacts now =
     (if m_status m \<noteq> MemoryStatusCandidate then Inl ErrInvalidMemoryState
      else Inr (m\<lparr>m_evidence := AppendEvidenceRefs (m_evidence m) evidence,
                  m_artifacts := AppendArtifactRefs (m_artifacts m) artifacts,
                  m_updated_at := now\<rparr>))"

definition Accept :: "Memory \<Rightarrow> string \<Rightarrow> gotime \<Rightarrow> memory_error + Memory" where
  "Accept m confidence now =
     (if m_status m \<noteq> MemoryStatusCandidate then Inl ErrInvalidMemoryState
      else Inr (m\<lparr>m_status := MemoryStatusAccepted, m_confidence := confidence, m_updated_at := now\<rparr>))"

definition Reject :: "Memory \<Rightarrow> gotime \<Rightarrow> memory_error + Memory" where
  "Reject m now =
     (if m_status m \<noteq> MemoryStatusCandidate then Inl ErrInvalidMemoryState
      else Inr (m\<lparr>m_status := MemoryStatusRejected, m_updated_at := now\<rparr>))"

definition MarkSuperseded :: "Memory \<Rightarrow> gotime \<Rightarrow> memory_error + Memory" where
  "MarkSuperseded m now =
     (if m_status m \<noteq> MemoryStatusAccepted then Inl ErrInvalidMemoryState
      else Inr (m\<lparr>m_status := MemoryStatusSuperseded, m_updated_at := now\<rparr>))"

definition MarkCandidateSupersededByDistillation :: "Memory \<Rightarrow> gotime \<Rightarrow> memory_error + Memory" where
  "MarkCandidateSupersededByDistillation m now =
     (if m_status m \<noteq> MemoryStatusCandidate then Inl ErrInvalidMemoryState
      else Inr (m\<lparr>m_status := MemoryStatusSuperseded, m_updated_at := now\<rparr>))"

definition Expire :: "Memory \<Rightarrow> gotime \<Rightarrow> gotime \<Rightarrow> memory_error + Memory" where
  "Expire m expires now =
     (if m_status m \<noteq> MemoryStatusCandidate \<and> m_status m \<noteq> MemoryStatusAccepted then Inl ErrInvalidMemoryState
      else Inr (m\<lparr>m_status := MemoryStatusExpired, m_expires_at := Some expires, m_updated_at := now\<rparr>))"

definition EligibleForDecay :: "Memory \<Rightarrow> MemoryDecayPolicy \<Rightarrow> gotime \<Rightarrow> bool" where
  "EligibleForDecay m policy now \<longleftrightarrow>
     (if m_status m \<noteq> MemoryStatusCandidate then False
      else if \<not> AllowsSource policy (m_source m) then False
      else CandidateDue policy (m_created_at m) (m_expires_at m) now)"

definition MarkCandidateSupersededByDuplicate :: "Memory \<Rightarrow> gotime \<Rightarrow> memory_error + Memory" where
  "MarkCandidateSupersededByDuplicate m now =
     (if m_status m \<noteq> MemoryStatusCandidate then Inl ErrInvalidMemoryState
      else Inr (m\<lparr>m_status := MemoryStatusSuperseded, m_updated_at := now\<rparr>))"

definition RestoreToCandidate :: "Memory \<Rightarrow> gotime \<Rightarrow> memory_error + Memory" where
  "RestoreToCandidate m now =
     (if m_status m \<noteq> MemoryStatusExpired then Inl ErrInvalidMemoryState
      else Inr (m\<lparr>m_status := MemoryStatusCandidate,
                  m_expires_at := (if CandidateTTLApplies (m_source m)
                                   then Some (time_add now DefaultMemoryDecayOlderThan) else None),
                  m_updated_at := now\<rparr>))"

section \<open>The lifecycle machine\<close>

text \<open>Edits that leave the status alone, and the status transitions.\<close>

inductive edit_step :: "Memory \<Rightarrow> Memory \<Rightarrow> bool" where
  attached: "AttachRefs m ev ar now = Inr n \<Longrightarrow> edit_step m n"
| validity: "edit_step m (SetValidity m vf vt now)"

inductive memory_step :: "Memory \<Rightarrow> Memory \<Rightarrow> bool" where
  edited: "edit_step m n \<Longrightarrow> memory_step m n"
| accepted: "Accept m confidence now = Inr n \<Longrightarrow> memory_step m n"
| rejected: "Reject m now = Inr n \<Longrightarrow> memory_step m n"
| superseded: "MarkSuperseded m now = Inr n \<Longrightarrow> memory_step m n"
| distilled: "MarkCandidateSupersededByDistillation m now = Inr n \<Longrightarrow> memory_step m n"
| collapsed: "MarkCandidateSupersededByDuplicate m now = Inr n \<Longrightarrow> memory_step m n"
| expired: "Expire m expires now = Inr n \<Longrightarrow> memory_step m n"
| restored: "RestoreToCandidate m now = Inr n \<Longrightarrow> memory_step m n"

inductive memory_init :: "Memory \<Rightarrow> bool" where
  candidate: "NewMemoryCandidateWithClock mid mtype scope factText source ev ar sp stamp now = Inr m \<Longrightarrow> memory_init m"
| accepted: "NewAcceptedMemoryWithValidityAndClock mid mtype scope factText conf source ev ar sp vf vt now = Inr m
    \<Longrightarrow> memory_init m"
| stored: "status \<in> set knownMemoryStatuses \<Longrightarrow>
    memory_init (MemoryOf mid mtype scope factText status conf source ev ar sp expires vf vt created updated)"

text \<open>
  The status graph, the fields no operation rewrites, and the fields that a rejected or superseded
  memory keeps.
\<close>

fun status_next :: "string \<Rightarrow> string list" where
  "status_next s =
     (if s = MemoryStatusCandidate
      then [MemoryStatusCandidate, MemoryStatusAccepted, MemoryStatusRejected, MemoryStatusSuperseded, MemoryStatusExpired]
      else if s = MemoryStatusAccepted then [MemoryStatusAccepted, MemoryStatusSuperseded, MemoryStatusExpired]
      else if s = MemoryStatusExpired then [MemoryStatusExpired, MemoryStatusCandidate]
      else [s])"

definition memory_identity where
  "memory_identity m = (m_id m, m_type m, m_scope m, m_fact m, m_source m, m_supersedes m, m_created_at m)"

definition identity_is where
  "identity_is k m \<longleftrightarrow> memory_identity m = k"

definition is_retired :: "Memory \<Rightarrow> bool" where
  "is_retired m \<longleftrightarrow> m_status m = MemoryStatusRejected \<or> m_status m = MemoryStatusSuperseded"

definition retired_state where
  "retired_state m = (m_status m, m_confidence m, m_evidence m, m_artifacts m, m_expires_at m)"

definition retired_as where
  "retired_as k m \<longleftrightarrow> is_retired m \<and> retired_state m = k"

definition cites :: "Ref + Ref \<Rightarrow> Memory \<Rightarrow> bool" where
  "cites r m \<longleftrightarrow> (case r of Inl e \<Rightarrow> e \<in> set (m_evidence m) | Inr a \<Rightarrow> a \<in> set (m_artifacts m))"

definition memory_wf :: "Memory \<Rightarrow> bool" where
  "memory_wf m \<longleftrightarrow> m_status m \<in> set knownMemoryStatuses"

lemma status_distinct [simp]:
  "MemoryStatusCandidate \<noteq> MemoryStatusAccepted" "MemoryStatusCandidate \<noteq> MemoryStatusRejected"
  "MemoryStatusCandidate \<noteq> MemoryStatusSuperseded" "MemoryStatusCandidate \<noteq> MemoryStatusExpired"
  "MemoryStatusAccepted \<noteq> MemoryStatusRejected" "MemoryStatusAccepted \<noteq> MemoryStatusSuperseded"
  "MemoryStatusAccepted \<noteq> MemoryStatusExpired" "MemoryStatusRejected \<noteq> MemoryStatusSuperseded"
  "MemoryStatusRejected \<noteq> MemoryStatusExpired" "MemoryStatusSuperseded \<noteq> MemoryStatusExpired"
  by (simp_all add: MemoryStatusCandidate_def MemoryStatusAccepted_def MemoryStatusRejected_def
      MemoryStatusSuperseded_def MemoryStatusExpired_def)

lemmas status_distinct_sym [simp] = status_distinct [symmetric]

lemmas memory_ops =
  AttachRefs_def SetValidity_def Accept_def Reject_def MarkSuperseded_def
  MarkCandidateSupersededByDistillation_def MarkCandidateSupersededByDuplicate_def Expire_def RestoreToCandidate_def

lemma status_next_at [simp]:
  "set (status_next MemoryStatusCandidate) = set knownMemoryStatuses"
  "set (status_next MemoryStatusAccepted) = {MemoryStatusAccepted, MemoryStatusSuperseded, MemoryStatusExpired}"
  "set (status_next MemoryStatusExpired) = {MemoryStatusExpired, MemoryStatusCandidate}"
  by (simp_all add: knownMemoryStatuses_def)

lemma status_next_refl [simp]: "s \<in> set (status_next s)"
  by simp

declare status_next.simps [simp del]

lemma known_statuses [simp]:
  "MemoryStatusCandidate \<in> set knownMemoryStatuses" "MemoryStatusAccepted \<in> set knownMemoryStatuses"
  "MemoryStatusRejected \<in> set knownMemoryStatuses" "MemoryStatusSuperseded \<in> set knownMemoryStatuses"
  "MemoryStatusExpired \<in> set knownMemoryStatuses"
  by (simp_all add: knownMemoryStatuses_def)

lemma status_next_keeps: "s \<in> set knownMemoryStatuses \<Longrightarrow> t \<in> set (status_next s) \<Longrightarrow> t \<in> set knownMemoryStatuses"
  by (auto simp: status_next.simps split: if_splits)

text \<open>Every operation only overwrites fields of the receiver, which the two lemmas list.\<close>

lemma edit_step_is:
  assumes "edit_step m n"
  obtains ev ar vf vt now where
    "n = m\<lparr>m_evidence := ev, m_artifacts := ar, m_valid_from := vf, m_valid_to := vt, m_updated_at := now\<rparr>"
    "set (m_evidence m) \<subseteq> set ev" "set (m_artifacts m) \<subseteq> set ar"
    "m_status m \<noteq> MemoryStatusCandidate \<longrightarrow> ev = m_evidence m \<and> ar = m_artifacts m"
  using assms
proof cases
  case (attached ev ar now)
  then show ?thesis
    using that [of now "m_valid_to m" "m_valid_from m" "AppendArtifactRefs (m_artifacts m) ar"
        "AppendEvidenceRefs (m_evidence m) ev"]
    by (auto simp: AttachRefs_def AppendEvidenceRefs_def AppendArtifactRefs_def appendUniqueRefs_set split: if_splits)
next
  case (validity vf vt now)
  then show ?thesis
    using that [of now vt "case vf of Some t \<Rightarrow> t | None \<Rightarrow> m_valid_from m" "m_artifacts m" "m_evidence m"]
    by (simp add: SetValidity_def)
qed

lemma memory_step_is:
  assumes "memory_step m n"
  obtains "edit_step m n"
    | status conf ex now where
      "n = m\<lparr>m_status := status, m_confidence := conf, m_expires_at := ex, m_updated_at := now\<rparr>"
      "\<not> is_retired m" "status \<in> set (status_next (m_status m))"
  using assms
proof cases
  case edited
  then show ?thesis by (rule that(1))
next
  case (accepted confidence now)
  then have "m_status m = MemoryStatusCandidate"
    and "n = m\<lparr>m_status := MemoryStatusAccepted, m_confidence := confidence, m_updated_at := now\<rparr>"
    by (auto simp: Accept_def split: if_splits)
  then show ?thesis using that(2) [of now "m_expires_at m" confidence MemoryStatusAccepted] by (auto simp: is_retired_def)
next
  case (rejected now)
  then have "m_status m = MemoryStatusCandidate"
    and "n = m\<lparr>m_status := MemoryStatusRejected, m_updated_at := now\<rparr>"
    by (auto simp: Reject_def split: if_splits)
  then show ?thesis using that(2) [of now "m_expires_at m" "m_confidence m" MemoryStatusRejected] by (auto simp: is_retired_def)
next
  case (superseded now)
  then have "m_status m = MemoryStatusAccepted"
    and "n = m\<lparr>m_status := MemoryStatusSuperseded, m_updated_at := now\<rparr>"
    by (auto simp: MarkSuperseded_def split: if_splits)
  then show ?thesis using that(2) [of now "m_expires_at m" "m_confidence m" MemoryStatusSuperseded] by (auto simp: is_retired_def)
next
  case (distilled now)
  then have "m_status m = MemoryStatusCandidate"
    and "n = m\<lparr>m_status := MemoryStatusSuperseded, m_updated_at := now\<rparr>"
    by (auto simp: MarkCandidateSupersededByDistillation_def split: if_splits)
  then show ?thesis using that(2) [of now "m_expires_at m" "m_confidence m" MemoryStatusSuperseded] by (auto simp: is_retired_def)
next
  case (collapsed now)
  then have "m_status m = MemoryStatusCandidate"
    and "n = m\<lparr>m_status := MemoryStatusSuperseded, m_updated_at := now\<rparr>"
    by (auto simp: MarkCandidateSupersededByDuplicate_def split: if_splits)
  then show ?thesis using that(2) [of now "m_expires_at m" "m_confidence m" MemoryStatusSuperseded] by (auto simp: is_retired_def)
next
  case (expired expires now)
  then have "m_status m = MemoryStatusCandidate \<or> m_status m = MemoryStatusAccepted"
    and "n = m\<lparr>m_status := MemoryStatusExpired, m_expires_at := Some expires, m_updated_at := now\<rparr>"
    by (auto simp: Expire_def split: if_splits)
  then show ?thesis using that(2) [of now "Some expires" "m_confidence m" MemoryStatusExpired] by (auto simp: is_retired_def)
next
  case (restored now)
  then have "m_status m = MemoryStatusExpired"
    and "n = m\<lparr>m_status := MemoryStatusCandidate, m_expires_at := m_expires_at n, m_updated_at := now\<rparr>"
    by (auto simp: RestoreToCandidate_def split: if_splits)
  then show ?thesis using that(2) [of now "m_expires_at n" "m_confidence m" MemoryStatusCandidate] by (auto simp: is_retired_def)
qed

lemma edit_step_effect:
  assumes "edit_step m n"
  shows "memory_identity n = memory_identity m \<and> m_status n = m_status m \<and> m_expires_at n = m_expires_at m"
    and "cites r m \<Longrightarrow> cites r n" and "is_retired m \<Longrightarrow> retired_state n = retired_state m"
  using assms
  by (cases rule: edit_step_is;
      auto simp: memory_identity_def retired_state_def is_retired_def cites_def split: sum.splits)+

lemma memory_step_effect:
  assumes "memory_step m n"
  shows "memory_identity n = memory_identity m" and "m_status n \<in> set (status_next (m_status m))"
    and "cites r m \<Longrightarrow> cites r n" and "is_retired m \<Longrightarrow> retired_state n = retired_state m"
proof -
  show "memory_identity n = memory_identity m"
    using assms edit_step_effect(1) by (cases rule: memory_step_is) (simp, simp add: memory_identity_def)
  show "m_status n \<in> set (status_next (m_status m))"
    using assms by (cases rule: memory_step_is) (auto simp: edit_step_effect)
  show "cites r n" if "cites r m"
    using assms that by (cases rule: memory_step_is) (auto simp: cites_def edit_step_effect(2) [unfolded cites_def] split: sum.splits)
  show "retired_state n = retired_state m" if "is_retired m"
    using assms that by (cases rule: memory_step_is) (simp_all add: edit_step_effect)
qed

lemma newMemory_status: "newMemory mid mtype scope f status conf source ev ar sp ex now = Inr m \<Longrightarrow> m_status m = status"
  by (auto simp: newMemory_def Let_def split: if_splits)

lemma memory_init_wf: "memory_init m \<Longrightarrow> memory_wf m"
  by (induction rule: memory_init.induct)
    (auto simp: NewMemoryCandidateWithClock_def NewAcceptedMemoryWithValidityAndClock_def MemoryOf_def memory_wf_def
      knownMemoryStatuses_def dest: newMemory_status split: sum.splits)

interpretation memory_facts: sealed_machine memory_init memory_step memory_wf identity_is
  by unfold_locales
    (use memory_init_wf in \<open>auto simp: memory_wf_def identity_is_def memory_step_effect(1)
      intro: status_next_keeps memory_step_effect(2)\<close>)

lemma retired_stays: "memory_step m n \<Longrightarrow> is_retired m \<Longrightarrow> is_retired n"
  using memory_step_effect(4) by (simp add: is_retired_def retired_state_def)

interpretation memory_retired: sealed_machine memory_init memory_step memory_wf retired_as
  by unfold_locales (auto simp: retired_as_def memory_step_effect(4) retired_stays)

interpretation memory_refs: sealed_machine memory_init memory_step memory_wf cites
  by unfold_locales (rule memory_step_effect(3))

section \<open>The decay clock\<close>

text \<open>
  A candidate of a source with a time to live carries the grant it got when it was created or
  restored. The edits of a candidate form a machine that seals the grant.
\<close>

definition granted_at :: "gotime \<Rightarrow> Memory \<Rightarrow> bool" where
  "granted_at t m \<longleftrightarrow>
     m_status m = MemoryStatusCandidate \<and> CandidateTTLApplies (m_source m)
     \<and> m_expires_at m = Some (time_add t DefaultMemoryDecayOlderThan)"

lemma created_granted:
  "NewMemoryCandidateWithClock mid mtype scope f source ev ar sp stamp now = Inr m \<Longrightarrow>
    CandidateTTLApplies source \<Longrightarrow> granted_at stamp m"
  by (auto simp: NewMemoryCandidateWithClock_def newMemory_def Let_def granted_at_def split: if_splits)

lemma restored_granted: "RestoreToCandidate m now = Inr n \<Longrightarrow> CandidateTTLApplies (m_source m) \<Longrightarrow> granted_at now n"
  by (auto simp: RestoreToCandidate_def granted_at_def split: if_splits)

lemma edit_step_granted: "edit_step m n \<Longrightarrow> granted_at t m \<Longrightarrow> granted_at t n"
  by (auto simp: granted_at_def elim: edit_step_is)

interpretation decay_clock: sealed_machine memory_init edit_step memory_wf granted_at
  by unfold_locales (use memory_init_wf in \<open>auto simp: memory_wf_def edit_step_effect edit_step_granted\<close>)

lemma granted_decay:
  "granted_at t m \<Longrightarrow> EligibleForDecay m p now \<longleftrightarrow> AllowsSource p (m_source m) \<and> tcompare t now < - dp_older_than p"
  by (simp add: granted_at_def EligibleForDecay_def CandidateDue_stamped)

text \<open>An unset \<open>validFrom\<close> leaves the stored one alone.\<close>

lemma SetValidity_unset_keeps: "m_valid_from (SetValidity m None vt now) = m_valid_from m"
  by (simp add: SetValidity_def)

section \<open>Properties\<close>

text \<open>
  C33: the lifecycle of a memory. Over any sequence of operations a memory keeps its id, type,
  scope, fact, source, predecessor and creation time; its status stays one of the five known ones; a
  reference once attached is never lost; and once it is rejected or superseded, its status,
  confidence, references and expiry never change again.\<close>

theorem memory_lifecycle:
  assumes reached: "reach memory_init memory_step m" and later: "memory_step\<^sup>*\<^sup>* m n"
  shows "memory_identity n = memory_identity m
    \<and> m_status n \<in> set knownMemoryStatuses
    \<and> set (m_evidence m) \<subseteq> set (m_evidence n) \<and> set (m_artifacts m) \<subseteq> set (m_artifacts n)
    \<and> (is_retired m \<longrightarrow> retired_state n = retired_state m)"
proof (intro conjI impI)
  have wf: "memory_wf m" using reached by (rule memory_facts.reach_inv)
  show "memory_identity n = memory_identity m"
    using memory_facts.sealed_forever [OF later wf, of "memory_identity m"] by (simp add: identity_is_def)
  show "m_status n \<in> set knownMemoryStatuses"
    using memory_facts.steps_inv [OF later wf] by (simp add: memory_wf_def)
  show "set (m_evidence m) \<subseteq> set (m_evidence n)" "set (m_artifacts m) \<subseteq> set (m_artifacts n)"
    using memory_refs.sealed_forever [OF later wf, of "Inl r" for r]
      memory_refs.sealed_forever [OF later wf, of "Inr r" for r]
    by (auto simp: cites_def)
  show "retired_state n = retired_state m" if "is_retired m"
    using memory_retired.sealed_forever [OF later wf, of "retired_state m"] that by (simp add: retired_as_def)
qed

definition ex_memory :: Memory where
  "ex_memory = MemoryOf ''m1'' ''lesson'' (Some GlobalScope) ''tabs'' MemoryStatusRejected ConfidenceLow
     MemorySourceExtracted [(''event'', ''e1'')] [] None None (GoTime 5 None 0) None (GoTime 5 None 0) (GoTime 5 None 0)"

lemma ex_memory_reach: "reach memory_init memory_step ex_memory"
  unfolding ex_memory_def by (rule reach.reach_init, rule memory_init.stored) simp

theorem memory_lifecycle_witness:
  "memory_identity (SetValidity ex_memory None None (GoTime 8 None 0)) = memory_identity ex_memory
    \<and> retired_state (SetValidity ex_memory None None (GoTime 8 None 0)) = retired_state ex_memory"
proof -
  have "memory_step\<^sup>*\<^sup>* ex_memory (SetValidity ex_memory None None (GoTime 8 None 0))"
    by (intro r_into_rtranclp memory_step.edited edit_step.validity)
  from memory_lifecycle [OF ex_memory_reach this] show ?thesis
    by (simp add: is_retired_def ex_memory_def MemoryOf_def)
qed

text \<open>
  edits never move the decay clock. A candidate whose source has a time to live, created or
  restored at clock reading \<open>t\<close> and then edited in any way (references, validity, so also
  \<open>updatedAt\<close>), may be expired by a decay policy at a later reading exactly when the policy allows its
  source and more than the policy's age has passed since \<open>t\<close>; the policy's age also shortens or
  lengthens the window. A restored memory so gets a fresh window whatever its creation time.\<close>

theorem decay_clock_exact:
  assumes grant: "(\<exists>mid mtype scope f source ev ar sp now.
        NewMemoryCandidateWithClock mid mtype scope f source ev ar sp t now = Inr m \<and> CandidateTTLApplies source)
      \<or> (\<exists>old. RestoreToCandidate old t = Inr m \<and> CandidateTTLApplies (m_source old))"
    and edits: "edit_step\<^sup>*\<^sup>* m n"
  shows "EligibleForDecay n p now \<longleftrightarrow> AllowsSource p (m_source m) \<and> tcompare t now < - dp_older_than p"
proof -
  have g: "granted_at t m" using grant created_granted restored_granted by blast
  then have "memory_wf m" by (simp add: granted_at_def memory_wf_def)
  with edits g have "granted_at t n" using decay_clock.sealed_forever by blast
  moreover have "m_source n = m_source m"
    using edits by (induction rule: rtranclp_induct) (auto dest: edit_step_effect(1) simp: memory_identity_def)
  ultimately show ?thesis by (simp add: granted_decay)
qed

definition ex_expired :: Memory where
  "ex_expired = ex_memory\<lparr>m_status := MemoryStatusExpired, m_expires_at := Some (GoTime 6 None 0)\<rparr>"

theorem decay_clock_exact_witness:
  "EligibleForDecay (SetValidity (projr (RestoreToCandidate ex_expired (GoTime 100 None 0))) None None (GoTime 150 None 0))
     \<lparr>dp_older_than = 50, dp_sources = DefaultDecaySources\<rparr> (GoTime 151 None 0)
   \<and> \<not> EligibleForDecay (SetValidity (projr (RestoreToCandidate ex_expired (GoTime 100 None 0))) None None (GoTime 150 None 0))
     \<lparr>dp_older_than = 50, dp_sources = DefaultDecaySources\<rparr> (GoTime 150 None 0)"
proof -
  let ?m = "projr (RestoreToCandidate ex_expired (GoTime 100 None 0))"
  have r: "RestoreToCandidate ex_expired (GoTime 100 None 0) = Inr ?m" and s: "m_source ?m = MemorySourceExtracted"
    by (simp_all add: RestoreToCandidate_def ex_expired_def ex_memory_def MemoryOf_def)
  have "CandidateTTLApplies (m_source ex_expired)"
    by (simp add: CandidateTTLApplies_def ex_expired_def ex_memory_def MemoryOf_def)
  with r have g: "(\<exists>mid mtype scope f source ev ar sp now.
        NewMemoryCandidateWithClock mid mtype scope f source ev ar sp (GoTime 100 None 0) now = Inr ?m
          \<and> CandidateTTLApplies source)
      \<or> (\<exists>old. RestoreToCandidate old (GoTime 100 None 0) = Inr ?m \<and> CandidateTTLApplies (m_source old))"
    by blast
  have "edit_step\<^sup>*\<^sup>* ?m (SetValidity ?m None None (GoTime 150 None 0))"
    by (intro r_into_rtranclp edit_step.validity)
  from decay_clock_exact [OF g this] show ?thesis
    by (simp add: s AllowsSource_def DefaultDecaySources_def tcompare_def)
qed

end
