(* ===== verification/Hook_Delivery.thy ===== *)
theory Hook_Delivery
  imports Domain_Types Go_Codec
begin

text \<open>
  Recorded events and the identity of hook deliveries: \<open>domain/model/event.go\<close>,
  \<open>hook_delivery.go\<close> and \<open>workspace_alias.go\<close>. The reported identity is a self-delimiting text, the
  fingerprints are SHA-256 digests of length-framed fields, and a workspace is classified against the
  session's canonical one by its path segments. The command audit that a reader may attach to an
  event is not modelled. \<open>strings.ToLower\<close> is written out on ASCII text; on other text it is the
  argument \<open>ulower\<close>, which stands for the Unicode tables of the Go runtime.
\<close>

section \<open>Data\<close>

record HookDeliveryEvidence =
  hd_reported_id :: string
  hd_delivery_fingerprint :: string
  hd_attribution_fingerprint :: string
  hd_raw_workspace :: string

record Event =
  e_id :: string
  e_kind :: string
  e_client :: string
  e_agent :: string
  e_session :: string
  e_workspace :: string
  e_body :: string
  e_created_at :: gotime
  e_source_hook :: string
  e_raw_workspace :: string
  e_evidence :: "HookDeliveryEvidence option"
  e_persist_known :: bool
  e_persist_inserted :: bool

datatype event_error = EmptyBody | NilEvent | EmptyNativeID | MissingDeliveryContext

datatype WorkspaceRelationship =
  RelationExact | RelationDescendant | RelationAncestor | RelationExplicitAlias | RelationConflict | RelationUnknown

section \<open>Events\<close>

definition EventOf ::
    "string \<Rightarrow> string \<Rightarrow> string \<Rightarrow> string \<Rightarrow> string \<Rightarrow> string \<Rightarrow> string \<Rightarrow> gotime \<Rightarrow> Event" where
  "EventOf eid kind client agent session workspace body created =
     \<lparr>e_id = eid, e_kind = kind, e_client = client, e_agent = agent, e_session = session,
      e_workspace = workspace, e_body = body, e_created_at = created, e_source_hook = '''',
      e_raw_workspace = '''', e_evidence = None, e_persist_known = False, e_persist_inserted = False\<rparr>"

definition NewEventWithClock ::
    "string \<Rightarrow> string \<Rightarrow> string \<Rightarrow> string \<Rightarrow> string \<Rightarrow> string \<Rightarrow> string \<Rightarrow> gotime \<Rightarrow> event_error + Event" where
  "NewEventWithClock eid kind client agent session workspace body now =
     (let trimmed = trim_space body
      in if trimmed = '''' \<and> kind \<noteq> ''command_executed'' then Inl EmptyBody
         else Inr (EventOf eid kind client agent session workspace trimmed now))"

definition EventOfWithSourceHook ::
    "string \<Rightarrow> string \<Rightarrow> string \<Rightarrow> string \<Rightarrow> string \<Rightarrow> string \<Rightarrow> string \<Rightarrow> gotime \<Rightarrow> string \<Rightarrow> Event" where
  "EventOfWithSourceHook eid kind client agent session workspace body created hook =
     (EventOf eid kind client agent session workspace body created)\<lparr>e_source_hook := hook\<rparr>"

definition SetSourceHook :: "Event \<Rightarrow> string \<Rightarrow> Event" where
  "SetSourceHook e name = (let t = trim_space name in if t = '''' then e else e\<lparr>e_source_hook := t\<rparr>)"

definition SetRawWorkspace :: "Event \<Rightarrow> string \<Rightarrow> Event" where
  "SetRawWorkspace e v = e\<lparr>e_raw_workspace := v\<rparr>"

definition SetDeliveryEvidence :: "Event \<Rightarrow> HookDeliveryEvidence \<Rightarrow> Event" where
  "SetDeliveryEvidence e evidence = e\<lparr>e_evidence := Some evidence\<rparr>"

definition RecordPersistOutcome :: "Event option \<Rightarrow> bool \<Rightarrow> string \<Rightarrow> Event option" where
  "RecordPersistOutcome receiver inserted persistedID =
     map_option (\<lambda>e.
       let e' = e\<lparr>e_persist_known := True, e_persist_inserted := inserted\<rparr>
       in if inserted then e'
          else (case EventIDFrom persistedID of Inl _ \<Rightarrow> e' | Inr t \<Rightarrow> e'\<lparr>e_id := t\<rparr>)) receiver"

definition PersistInserted :: "Event option \<Rightarrow> bool" where
  "PersistInserted receiver =
     (case receiver of None \<Rightarrow> True | Some e \<Rightarrow> if \<not> e_persist_known e then True else e_persist_inserted e)"

section \<open>Delivery evidence\<close>

definition rootAgentName :: "string \<Rightarrow> string" where
  "rootAgentName v = trim_space (takeWhile (\<lambda>c. c \<noteq> CHR ''/'') (trim_space v))"

definition joinReportedIdentityFields :: "string list \<Rightarrow> string" where
  "joinReportedIdentityFields fs = join ''|'' (map (\<lambda>f. itoa (length f) @ '':'' @ f) fs)"

definition digest_frame :: "string list \<Rightarrow> string" where
  "digest_frame vs = concat (map (\<lambda>v. be64 (of_nat (length v)) @ v) vs)"

definition digestFields :: "string list \<Rightarrow> string" where
  "digestFields vs = hex_encode (sha256 (digest_frame vs))"

definition NewHookDeliveryEvidence ::
    "Event option \<Rightarrow> string \<Rightarrow> string \<Rightarrow> string list \<Rightarrow> event_error + HookDeliveryEvidence" where
  "NewHookDeliveryEvidence event nativeID rawWorkspace semantic =
     (case event of
        None \<Rightarrow> Inl NilEvent
      | Some e \<Rightarrow>
          let native = trim_space nativeID; host = rootAgentName (e_agent e)
          in if native = '''' then Inl EmptyNativeID
             else if host = '''' \<or> trim_space (e_source_hook e) = '''' \<or> e_session e = ''''
             then Inl MissingDeliveryContext
             else Inr \<lparr>hd_reported_id = joinReportedIdentityFields [host, e_source_hook e, e_session e, native],
                       hd_delivery_fingerprint =
                         digestFields ([e_kind e, e_client e, e_agent e, e_session e, e_source_hook e, e_body e]
                                       @ semantic),
                       hd_attribution_fingerprint = digestFields [e_workspace e, rawWorkspace],
                       hd_raw_workspace = rawWorkspace\<rparr>)"

definition DeliveryRecordID :: "HookDeliveryEvidence \<Rightarrow> string" where
  "DeliveryRecordID d = ''delivery:'' @ digestFields [hd_reported_id d, hd_delivery_fingerprint d]"

definition HookObservationID :: "HookDeliveryEvidence \<Rightarrow> string" where
  "HookObservationID d = ''observation:'' @ digestFields [DeliveryRecordID d, hd_attribution_fingerprint d]"

definition WorkspaceAttributionFingerprint :: "string \<Rightarrow> string \<Rightarrow> string" where
  "WorkspaceAttributionFingerprint workspace rawWorkspace = digestFields [workspace, rawWorkspace]"

section \<open>Workspace relationship\<close>

definition to_lower_text :: "(string \<Rightarrow> string) \<Rightarrow> string \<Rightarrow> string" where
  "to_lower_text ulower s = (if list_all (\<lambda>c. ord c < 128) s then map to_lower s else ulower s)"

definition trim_suffix_slash :: "string \<Rightarrow> string" where
  "trim_suffix_slash s = (if s \<noteq> [] \<and> last s = CHR ''/'' then butlast s else s)"

fun cleaned_parts :: "string list \<Rightarrow> string list \<Rightarrow> string list" where
  "cleaned_parts cleaned [] = cleaned"
| "cleaned_parts cleaned (p # ps) =
     (if p = '''' \<or> p = ''.'' then cleaned_parts cleaned ps
      else if p = ''..'' then cleaned_parts (if cleaned \<noteq> [] then butlast cleaned else cleaned) ps
      else cleaned_parts (cleaned @ [p]) ps)"

text \<open>\<open>None\<close> is the index panic of \<open>cleaned[0]\<close> on an empty slice.\<close>

definition normalizeAbsoluteWorkspacePath :: "(string \<Rightarrow> string) \<Rightarrow> string \<Rightarrow> (string \<times> bool) option" where
  "normalizeAbsoluteWorkspacePath ulower v =
     (let normalized = replace_byte (CHR 0x5C) CHR ''/'' (trim_space v);
          isUnixAbsolute = prefix ''/'' normalized;
          isWindowsDriveAbsolute =
            3 \<le> length normalized \<and> normalized ! 1 = CHR '':'' \<and> normalized ! 2 = CHR ''/'';
          isUNCAbsolute = prefix ''//'' normalized
      in if \<not> isUnixAbsolute \<and> \<not> isWindowsDriveAbsolute \<and> \<not> isUNCAbsolute then Some ('''', False)
         else let cleaned = cleaned_parts [] (split_on CHR ''/'' normalized)
              in if isWindowsDriveAbsolute
                 then (case cleaned of
                         [] \<Rightarrow> None
                       | d # rest \<Rightarrow>
                           Some (trim_suffix_slash
                                   ((to_lower_text ulower d @ ''/'') @ join ''/'' (map (to_lower_text ulower) rest)), True))
                 else if isUNCAbsolute
                 then Some (trim_suffix_slash (''//'' @ join ''/'' (map (to_lower_text ulower) cleaned)), True)
                 else Some (trim_suffix_slash (''/'' @ join ''/'' cleaned), True))"

definition ClassifyWorkspaceRelationship ::
    "(string \<Rightarrow> string) \<Rightarrow> string \<Rightarrow> string \<Rightarrow> WorkspaceRelationship option" where
  "ClassifyWorkspaceRelationship ulower canonical effective =
     (let c = trim_space canonical; e = trim_space effective
      in if c = '''' \<or> e = '''' then Some RelationUnknown
         else case normalizeAbsoluteWorkspacePath ulower c of
                None \<Rightarrow> None
              | Some (cn, cl) \<Rightarrow>
                  (case normalizeAbsoluteWorkspacePath ulower e of
                     None \<Rightarrow> None
                   | Some (en, el) \<Rightarrow>
                       Some (if cl \<and> el
                             then (if cn = en then RelationExact
                                   else if prefix (cn @ ''/'') en then RelationDescendant
                                   else if prefix (en @ ''/'') cn then RelationAncestor
                                   else RelationConflict)
                             else if c = e then RelationExact
                             else RelationConflict)))"

section \<open>Reviewed aliases\<close>

record WorkspaceAlias =
  wa_session :: string
  wa_workspace :: string
  wa_reviewed_at :: gotime
  wa_reviewed_by :: string
  wa_note :: string

datatype alias_error = AliasSession | AliasWorkspace | AliasReviewer | AliasReviewTime

definition NewWorkspaceAlias ::
    "string \<Rightarrow> string \<Rightarrow> gotime \<Rightarrow> string \<Rightarrow> string \<Rightarrow> alias_error + WorkspaceAlias" where
  "NewWorkspaceAlias session workspace reviewedAt reviewedBy note =
     (case SessionIDFrom session of
        Inl _ \<Rightarrow> Inl AliasSession
      | Inr sid \<Rightarrow>
          if trim_space workspace = '''' then Inl AliasWorkspace
          else if trim_space reviewedBy = '''' then Inl AliasReviewer
          else if is_zero reviewedAt then Inl AliasReviewTime
          else Inr \<lparr>wa_session = sid, wa_workspace = trim_space workspace, wa_reviewed_at = utc reviewedAt,
                    wa_reviewed_by = trim_space reviewedBy, wa_note = trim_space note\<rparr>)"

section \<open>Laws of the encodings\<close>

text \<open>A length-prefixed field is self-delimiting, in decimal as in the binary frame.\<close>

lemma reported_field_cancel:
  "itoa (length a) @ '':'' @ a @ r = itoa (length b) @ '':'' @ b @ s \<Longrightarrow> a = b \<and> r = s"
proof -
  assume eq: "itoa (length a) @ '':'' @ a @ r = itoa (length b) @ '':'' @ b @ s"
  have d: "CHR '':'' \<notin> set (itoa n)" for n using itoa_no_char [of "CHR '':''" n] by (auto simp: char_in_def)
  from eq have "itoa (length a) = itoa (length b) \<and> a @ r = b @ s"
    using append_sep_cancel [OF d d] by simp
  then show ?thesis using append_eq_append_conv [of a b r s] by simp
qed

lemma join_Cons_or: "join sep (x # xs) = x @ (if xs = [] then [] else sep @ join sep xs)"
  by (cases xs) simp_all

lemma joinReported_inject: "joinReportedIdentityFields xs = joinReportedIdentityFields ys \<Longrightarrow> xs = ys"
proof (induction xs arbitrary: ys)
  case Nil
  then show ?case by (cases ys) (simp_all add: joinReportedIdentityFields_def join_Cons_or)
next
  case (Cons x xs)
  then obtain y ys' where ys: "ys = y # ys'"
    by (cases ys) (simp_all add: joinReportedIdentityFields_def join_Cons_or)
  let ?tail = "\<lambda>zs. if zs = [] then [] else ''|'' @ joinReportedIdentityFields zs"
  have "itoa (length x) @ '':'' @ x @ ?tail xs = itoa (length y) @ '':'' @ y @ ?tail ys'"
    using Cons.prems by (simp add: ys joinReportedIdentityFields_def join_Cons_or split: if_splits)
  then have "x = y \<and> ?tail xs = ?tail ys'" by (rule reported_field_cancel)
  then show ?case using Cons.IH [of ys'] ys by (auto split: if_splits)
qed

definition go_strings :: "string list \<Rightarrow> bool" where
  "go_strings vs \<longleftrightarrow> list_all (\<lambda>v. length v < 2 ^ 63) vs"

lemma digest_field_cancel:
  assumes a: "length a < 2 ^ 63" and b: "length b < 2 ^ 63"
    and eq: "be64 (of_nat (length a)) @ a @ r = be64 (of_nat (length b)) @ b @ s"
  shows "a = b \<and> r = s"
proof -
  have fits: "unat (of_nat n :: uint64) = n" if "n < 2 ^ 63" for n :: nat
    using that by (intro unat_of_nat_uint64) (rule less_trans, assumption, simp)
  have "be64 (of_nat (length a)) = be64 (of_nat (length b))" and ab: "a @ r = b @ s"
    using eq by (auto simp: append_eq_append_conv)
  then have "unat (of_nat (length a) :: uint64) = unat (of_nat (length b) :: uint64)"
    by (simp only: be64_inject)
  then have "length a = length b" by (simp only: fits [OF a] fits [OF b])
  with ab show ?thesis using append_eq_append_conv [of a b r s] by simp
qed

lemma digest_frame_inject: "go_strings xs \<Longrightarrow> go_strings ys \<Longrightarrow> digest_frame xs = digest_frame ys \<Longrightarrow> xs = ys"
proof (induction xs arbitrary: ys)
  case Nil
  then show ?case by (cases ys) (auto simp: digest_frame_def dest: arg_cong [where f = length])
next
  case (Cons x xs)
  then obtain y ys' where ys: "ys = y # ys'"
    by (cases ys) (auto simp: digest_frame_def dest: arg_cong [where f = length])
  have "x = y \<and> digest_frame xs = digest_frame ys'"
    using Cons.prems by (intro digest_field_cancel) (simp_all add: ys go_strings_def digest_frame_def)
  then show ?case using Cons ys by (auto simp: go_strings_def)
qed

interpretation delivery_digest: digest_binding sha256 digest_frame go_strings
  by unfold_locales (rule digest_frame_inject)

lemma digestFields_binds:
  "go_strings xs \<Longrightarrow> go_strings ys \<Longrightarrow> digestFields xs = digestFields ys \<Longrightarrow>
    xs = ys \<or> collision sha256 (digest_frame xs) (digest_frame ys)"
  by (rule delivery_digest.digest_binds) (simp_all add: digestFields_def)

section \<open>Laws of workspace paths\<close>

text \<open>A path as the text of its segments; a segment is nonempty and has no slash.\<close>

definition path_text :: "string list \<Rightarrow> string" where
  "path_text xs = concat (map (\<lambda>x. CHR ''/'' # x) xs)"

definition segments :: "string list \<Rightarrow> bool" where
  "segments xs \<longleftrightarrow> list_all (\<lambda>x. x \<noteq> [] \<and> CHR ''/'' \<notin> set x) xs"

lemma path_text_simps [simp]:
  "path_text [] = []" "path_text (x # xs) = CHR ''/'' # x @ path_text xs"
  "segments []" "segments (x # xs) \<longleftrightarrow> x \<noteq> [] \<and> CHR ''/'' \<notin> set x \<and> segments xs"
  by (simp_all add: path_text_def segments_def)

lemma path_text_cases: "path_text xs = [] \<or> (\<exists>r. path_text xs = CHR ''/'' # r)"
  by (cases xs) simp_all

lemma segment_prefix_cancel:
  "CHR ''/'' \<notin> set x \<Longrightarrow> CHR ''/'' \<notin> set y \<Longrightarrow>
    prefix (x @ CHR ''/'' # r) (y @ path_text ys) \<longleftrightarrow> x = y \<and> prefix (CHR ''/'' # r) (path_text ys)"
proof (induction x arbitrary: y)
  case Nil
  then show ?case by (cases y) auto
next
  case (Cons c x)
  then show ?case using path_text_cases [of ys] by (cases y) auto
qed

lemma path_text_snoc_slash: "\<exists>r. path_text xs @ ''/'' = CHR ''/'' # r"
  using path_text_cases [of xs] by auto

lemma path_text_prefix:
  "segments xs \<Longrightarrow> segments ys \<Longrightarrow> prefix (path_text xs @ ''/'') (path_text ys) \<longleftrightarrow> strict_prefix xs ys"
proof (induction xs arbitrary: ys)
  case Nil
  then show ?case by (cases ys) simp_all
next
  case (Cons x xs)
  obtain r where r: "path_text xs @ ''/'' = CHR ''/'' # r" using path_text_snoc_slash by blast
  show ?case
  proof (cases ys)
    case (Cons y ys')
    then have "prefix (path_text (x # xs) @ ''/'') (path_text ys) \<longleftrightarrow> prefix (x @ CHR ''/'' # r) (y @ path_text ys')"
      using r by simp
    also have "\<dots> \<longleftrightarrow> x = y \<and> prefix (path_text xs @ ''/'') (path_text ys')"
      using Cons Cons.prems r by (simp add: segment_prefix_cancel)
    finally show ?thesis using Cons Cons.prems Cons.IH [of ys'] by auto
  qed simp
qed

lemma path_text_inject: "segments xs \<Longrightarrow> segments ys \<Longrightarrow> path_text xs = path_text ys \<longleftrightarrow> xs = ys"
proof (induction xs arbitrary: ys)
  case Nil
  then show ?case by (cases ys) simp_all
next
  case (Cons x xs)
  show ?case
  proof (cases ys)
    case (Cons y ys')
    have "x = y" if eq: "x @ path_text xs = y @ path_text ys'"
    proof -
      have "x @ path_text (xs @ [[]]) = y @ path_text (ys' @ [[]])"
        using arg_cong [OF eq, of "\<lambda>s. s @ ''/''"] by (simp add: path_text_def)
      moreover obtain r where "path_text (xs @ [[]]) = CHR ''/'' # r"
        using path_text_snoc_slash [of xs] by (auto simp: path_text_def)
      ultimately show "x = y"
        using segment_prefix_cancel [of x y r "ys' @ [[]]"] Cons Cons.prems by simp
    qed
    then show ?thesis using Cons Cons.prems Cons.IH [of ys'] by auto
  qed simp
qed

lemma slash_join: "xs \<noteq> [] \<Longrightarrow> CHR ''/'' # join ''/'' xs = path_text xs"
proof (induction xs)
  case (Cons x xs)
  then show ?case by (cases xs) simp_all
qed simp

lemma last_path_text: "segments xs \<Longrightarrow> xs \<noteq> [] \<Longrightarrow> path_text xs \<noteq> [] \<and> last (path_text xs) \<noteq> CHR ''/''"
proof (induction xs)
  case (Cons x xs)
  moreover have "x \<noteq> []" "CHR ''/'' \<notin> set x" using Cons.prems by simp_all
  then have "last x \<noteq> CHR ''/''" by (metis last_in_set)
  ultimately show ?case by (cases "xs = []") auto
qed simp

lemma trim_slash_root:
  "segments xs \<Longrightarrow> trim_suffix_slash (base @ CHR ''/'' # join ''/'' xs) = base @ path_text xs"
  using last_path_text [of xs] slash_join [of xs]
  by (cases "xs = []") (auto simp: trim_suffix_slash_def butlast_append)

lemma cleaned_segments:
  "segments acc \<Longrightarrow> list_all (\<lambda>p. CHR ''/'' \<notin> set p) ps \<Longrightarrow> segments (cleaned_parts acc ps)"
proof (induction acc ps rule: cleaned_parts.induct)
  case (2 acc p ps)
  have "segments (butlast acc)" using "2.prems"(1) by (auto simp: segments_def list_all_iff dest: in_set_butlastD)
  then show ?case using 2 by (auto simp: segments_def)
qed simp

lemma cleaned_split: "segments (cleaned_parts [] (split_on CHR ''/'' s))"
  using split_on_parts_no_sep by (intro cleaned_segments) (auto simp: list_all_iff)

text \<open>What the classification sees of a workspace: the kind of its root and its segments.\<close>

datatype root_kind = UnixRoot | UNCRoot | DriveRoot

definition workspace_view :: "(string \<Rightarrow> string) \<Rightarrow> string \<Rightarrow> (root_kind \<times> string list) option" where
  "workspace_view ulower v =
     (let n = replace_byte (CHR 0x5C) CHR ''/'' (trim_space v);
          cleaned = cleaned_parts [] (split_on CHR ''/'' n)
      in if 3 \<le> length n \<and> n ! 1 = CHR '':'' \<and> n ! 2 = CHR ''/''
         then (if cleaned = [] then None else Some (DriveRoot, map (to_lower_text ulower) cleaned))
         else if prefix ''//'' n then Some (UNCRoot, map (to_lower_text ulower) cleaned)
         else if prefix ''/'' n then Some (UnixRoot, cleaned)
         else None)"

fun render :: "root_kind \<times> string list \<Rightarrow> string" where
  "render (UnixRoot, xs) = path_text xs"
| "render (UNCRoot, xs) = CHR ''/'' # path_text xs"
| "render (DriveRoot, xs) = tl (path_text xs)"

text \<open>What the code relies on from the Unicode tables: no letter becomes a slash, none vanishes.\<close>

definition keeps_segments :: "(string \<Rightarrow> string) \<Rightarrow> bool" where
  "keeps_segments ulower \<longleftrightarrow>
     (\<forall>s. s \<noteq> [] \<and> CHR ''/'' \<notin> set s \<longrightarrow> ulower s \<noteq> [] \<and> CHR ''/'' \<notin> set (ulower s))"

lemma to_lower_slash: "to_lower c = CHR ''/'' \<longleftrightarrow> c = CHR ''/''"
proof
  assume l: "to_lower c = CHR ''/''"
  show "c = CHR ''/''"
  proof (cases "is_upper c")
    case True
    then have r: "65 \<le> ord c" "ord c \<le> 90" by (simp_all add: char_in_def)
    have "ord (to_lower c) = ord c + 32" using True r by (simp add: to_lower_def of_char_of)
    with l r show ?thesis by simp
  qed (use l in \<open>simp add: to_lower_def\<close>)
qed (simp add: to_lower_def char_in_def)

lemma lower_segment:
  assumes "keeps_segments ulower" "x \<noteq> []" "CHR ''/'' \<notin> set x"
  shows "to_lower_text ulower x \<noteq> [] \<and> CHR ''/'' \<notin> set (to_lower_text ulower x)"
proof (cases "list_all (\<lambda>c. ord c < 128) x")
  case True
  have "CHR ''/'' \<notin> set (map to_lower x)" using assms(3) to_lower_slash by (metis (no_types, lifting) imageE set_map)
  with True assms(2) show ?thesis by (simp only: to_lower_text_def) simp
next
  case False
  with assms show ?thesis by (simp only: to_lower_text_def keeps_segments_def) simp
qed

lemma lower_segments: "keeps_segments ulower \<Longrightarrow> segments xs \<Longrightarrow> segments (map (to_lower_text ulower) xs)"
  by (induction xs) (simp_all add: lower_segment)

lemma workspace_view_segments:
  "keeps_segments ulower \<Longrightarrow> workspace_view ulower v = Some (k, xs) \<Longrightarrow> segments xs \<and> (k = DriveRoot \<longrightarrow> xs \<noteq> [])"
  by (auto simp: workspace_view_def Let_def cleaned_split intro: lower_segments split: if_splits)

lemma normalize_view:
  assumes ok: "keeps_segments ulower" and v: "workspace_view ulower v = Some kx"
  shows "normalizeAbsoluteWorkspacePath ulower v = Some (render kx, True)"
proof -
  define n where "n = replace_byte (CHR 0x5C) CHR ''/'' (trim_space v)"
  define c where "c = cleaned_parts [] (split_on CHR ''/'' n)"
  define drive where "drive \<longleftrightarrow> 3 \<le> length n \<and> n ! 1 = CHR '':'' \<and> n ! 2 = CHR ''/''"
  have seg: "segments c" unfolding c_def by (rule cleaned_split)
  have low: "segments (map (to_lower_text ulower) c)" using ok seg by (rule lower_segments)
  note norm = normalizeAbsoluteWorkspacePath_def [of ulower v, folded n_def, unfolded Let_def, folded drive_def c_def]
  note view = workspace_view_def [of ulower v, folded n_def, unfolded Let_def, folded drive_def c_def]
  consider (drive) d rest where drive "c = d # rest" "kx = (DriveRoot, map (to_lower_text ulower) c)"
    | (unc) "\<not> drive" "prefix ''//'' n" "kx = (UNCRoot, map (to_lower_text ulower) c)"
    | (unix) "\<not> drive" "\<not> prefix ''//'' n" "prefix ''/'' n" "kx = (UnixRoot, c)"
  proof (cases drive)
    case True
    then show thesis using v drive unfolding view by (cases c) simp_all
  next
    case False
    then show thesis using v unc unix unfolding view by (simp split: if_splits)
  qed
  then show ?thesis
  proof cases
    case drive
    then have "segments (map (to_lower_text ulower) rest)" using low by simp
    with drive show ?thesis unfolding norm
      using trim_slash_root [of "map (to_lower_text ulower) rest" "to_lower_text ulower d"] by simp
  next
    case unc
    then show ?thesis unfolding norm using trim_slash_root [OF low, of "''/''"] by simp
  next
    case unix
    then show ?thesis unfolding norm using trim_slash_root [OF seg, of "[]"] by simp
  qed
qed

lemma render_order:
  assumes "segments xs" "segments ys" "k = DriveRoot \<longrightarrow> xs \<noteq> [] \<and> ys \<noteq> []"
  shows "render (k, xs) = render (k, ys) \<longleftrightarrow> xs = ys"
    and "prefix (render (k, xs) @ ''/'') (render (k, ys)) \<longleftrightarrow> strict_prefix xs ys"
proof -
  have tl_eq: "tl (path_text as) = tl (path_text bs) \<longleftrightarrow> path_text as = path_text bs"
    and tl_prefix: "prefix (tl (path_text as) @ r) (tl (path_text bs)) \<longleftrightarrow> prefix (path_text as @ r) (path_text bs)"
    if "as \<noteq> []" "bs \<noteq> []" for as bs r
    using that by (cases as; cases bs; simp)+
  show "render (k, xs) = render (k, ys) \<longleftrightarrow> xs = ys"
    using assms path_text_inject [of xs ys] tl_eq by (cases k) simp_all
  show "prefix (render (k, xs) @ ''/'') (render (k, ys)) \<longleftrightarrow> strict_prefix xs ys"
    using assms path_text_prefix [of xs ys] tl_prefix [of xs ys "''/''"] by (cases k) simp_all
qed

lemma view_nonempty: "workspace_view ulower v = Some kx \<Longrightarrow> trim_space v \<noteq> ''''"
  by (auto simp: workspace_view_def replace_byte_def)

lemma view_trim: "workspace_view ulower (trim_space v) = workspace_view ulower v"
  by (simp add: workspace_view_def)

text \<open>
  The code indexes the first cleaned part of a drive path without checking that one is left: a drive
  root followed by a parent reference panics.
\<close>

lemma drive_parent_panics: "normalizeAbsoluteWorkspacePath ulower ''C:/..'' = None"
proof -
  have t: "trim_space ''C:/..'' = ''C:/..''" by (rule trim_space_solid) (simp_all add: solid_def)
  show ?thesis by (simp add: normalizeAbsoluteWorkspacePath_def t replace_byte_def)
qed

fun converse_relation :: "WorkspaceRelationship \<Rightarrow> WorkspaceRelationship" where
  "converse_relation RelationDescendant = RelationAncestor"
| "converse_relation RelationAncestor = RelationDescendant"
| "converse_relation r = r"

lemma prefix_slash_asym: "prefix (a @ ''/'') b \<Longrightarrow> \<not> prefix (b @ ''/'') a"
  by (auto dest!: prefix_length_le)

lemma classify_converse:
  "ClassifyWorkspaceRelationship ulower b a = map_option converse_relation (ClassifyWorkspaceRelationship ulower a b)"
  by (auto simp: ClassifyWorkspaceRelationship_def Let_def dest: prefix_slash_asym split: option.splits)

section \<open>Properties\<close>

definition delivery_fields :: "Event \<Rightarrow> string list \<Rightarrow> string list" where
  "delivery_fields e semantic =
     [e_kind e, e_client e, e_agent e, e_session e, e_source_hook e, e_body e] @ semantic"

lemma evidence_of:
  "NewHookDeliveryEvidence (Some e) native raw semantic = Inr a \<Longrightarrow>
    hd_reported_id a = joinReportedIdentityFields [rootAgentName (e_agent e), e_source_hook e, e_session e, trim_space native]
    \<and> hd_delivery_fingerprint a = digestFields (delivery_fields e semantic)"
  by (auto simp: NewHookDeliveryEvidence_def Let_def delivery_fields_def split: if_splits)

lemma length_digestFields [simp]: "length (digestFields vs) = 64"
  by (simp add: digestFields_def)

text \<open>
  C35: the delivery record id identifies a logical hook delivery. Two deliveries get the same record
  id when they agree on kind, client, agent, session, hook, body, semantic fields and native id,
  whatever their workspace attribution, so a retry that only improves the attribution is not a new
  event. Conversely, equal record ids mean that all of these agree, unless one of the two named pairs
  of byte strings is a SHA-256 collision; the reported identity itself never collides.\<close>

theorem delivery_record_identifies:
  assumes a: "NewHookDeliveryEvidence (Some e) native raw semantic = Inr a"
    and b: "NewHookDeliveryEvidence (Some f) native' raw' semantic' = Inr b"
    and sizes: "go_strings (hd_reported_id a # delivery_fields e semantic)"
      "go_strings (hd_reported_id b # delivery_fields f semantic')"
  shows "(delivery_fields e semantic = delivery_fields f semantic' \<and> trim_space native = trim_space native'
            \<longrightarrow> DeliveryRecordID a = DeliveryRecordID b)
    \<and> (DeliveryRecordID a = DeliveryRecordID b \<longrightarrow>
        delivery_fields e semantic = delivery_fields f semantic' \<and> trim_space native = trim_space native'
        \<or> collision sha256 (digest_frame [hd_reported_id a, hd_delivery_fingerprint a])
                           (digest_frame [hd_reported_id b, hd_delivery_fingerprint b])
        \<or> collision sha256 (digest_frame (delivery_fields e semantic)) (digest_frame (delivery_fields f semantic')))"
proof (intro conjI impI)
  note A = evidence_of [OF a] and B = evidence_of [OF b]
  show "DeliveryRecordID a = DeliveryRecordID b"
    if "delivery_fields e semantic = delivery_fields f semantic' \<and> trim_space native = trim_space native'"
    using that A B by (simp add: DeliveryRecordID_def delivery_fields_def)
  assume "DeliveryRecordID a = DeliveryRecordID b"
  then have same: "digestFields [hd_reported_id a, hd_delivery_fingerprint a]
      = digestFields [hd_reported_id b, hd_delivery_fingerprint b]"
    by (simp add: DeliveryRecordID_def)
  have "go_strings [hd_reported_id a, hd_delivery_fingerprint a]" "go_strings [hd_reported_id b, hd_delivery_fingerprint b]"
    using sizes A B by (simp_all add: go_strings_def)
  from digestFields_binds [OF this same]
  consider "hd_reported_id a = hd_reported_id b" "hd_delivery_fingerprint a = hd_delivery_fingerprint b"
    | "collision sha256 (digest_frame [hd_reported_id a, hd_delivery_fingerprint a])
                        (digest_frame [hd_reported_id b, hd_delivery_fingerprint b])" by auto
  then show "delivery_fields e semantic = delivery_fields f semantic' \<and> trim_space native = trim_space native'
        \<or> collision sha256 (digest_frame [hd_reported_id a, hd_delivery_fingerprint a])
                           (digest_frame [hd_reported_id b, hd_delivery_fingerprint b])
        \<or> collision sha256 (digest_frame (delivery_fields e semantic)) (digest_frame (delivery_fields f semantic'))"
  proof cases
    case 1
    have "trim_space native = trim_space native'"
      using joinReported_inject [of "[rootAgentName (e_agent e), e_source_hook e, e_session e, trim_space native]"
          "[rootAgentName (e_agent f), e_source_hook f, e_session f, trim_space native']"] 1 A B by simp
    moreover have "delivery_fields e semantic = delivery_fields f semantic'
        \<or> collision sha256 (digest_frame (delivery_fields e semantic)) (digest_frame (delivery_fields f semantic'))"
      using sizes 1 A B by (intro digestFields_binds) (simp_all add: go_strings_def)
    ultimately show ?thesis by blast
  qed simp
qed

definition ex_event :: Event where
  "ex_event = (EventOf ''e1'' ''prompt'' ''hook'' ''codex'' ''s1'' ''/w'' ''hi'' (GoTime 5 None 0))
     \<lparr>e_source_hook := ''stop''\<rparr>"

lemma ex_trims:
  "trim_space ''codex'' = ''codex''" "trim_space ''stop'' = ''stop''" "trim_space ''n1'' = ''n1''"
  "trim_space ''/w/a'' = ''/w/a''" "trim_space ''/w'' = ''/w''"
  by (rule trim_space_solid; simp add: solid_def)+

lemma ex_root: "rootAgentName ''codex'' = ''codex''"
  by (simp add: rootAgentName_def ex_trims)

definition ex_evidence :: "string \<Rightarrow> string \<Rightarrow> HookDeliveryEvidence" where
  "ex_evidence w raw =
     \<lparr>hd_reported_id = joinReportedIdentityFields [''codex'', ''stop'', ''s1'', ''n1''],
      hd_delivery_fingerprint = digestFields (delivery_fields ex_event []),
      hd_attribution_fingerprint = digestFields [w, raw], hd_raw_workspace = raw\<rparr>"

lemma ex_evidence_of:
  "NewHookDeliveryEvidence (Some (ex_event\<lparr>e_workspace := w\<rparr>)) ''n1'' raw [] = Inr (ex_evidence w raw)"
  by (simp add: NewHookDeliveryEvidence_def ex_event_def ex_evidence_def EventOf_def Let_def ex_trims ex_root
      delivery_fields_def)

lemma length_itoa_digit: "n < 10 \<Longrightarrow> length (itoa n) = 1"
  by (subst itoa.simps) simp

lemma ex_sizes: "go_strings (hd_reported_id (ex_evidence w raw) # delivery_fields (ex_event\<lparr>e_workspace := w\<rparr>) [])"
  by (simp add: go_strings_def ex_evidence_def joinReportedIdentityFields_def delivery_fields_def ex_event_def EventOf_def
      length_itoa_digit)

theorem delivery_record_identifies_witness:
  "DeliveryRecordID (ex_evidence ''/w'' ''x'') = DeliveryRecordID (ex_evidence ''/w/a'' ''y'')"
  using delivery_record_identifies [OF ex_evidence_of [of "''/w''" "''x''"] ex_evidence_of [of "''/w/a''" "''y''"]
      ex_sizes ex_sizes]
  by (simp add: delivery_fields_def ex_event_def EventOf_def)

text \<open>
  C40: workspaces with the same kind of root are compared by their path segments, after lexical
  cleaning (and lower-casing on Windows paths): equal segments are exact, a strict segment prefix is
  an ancestor or a descendant, everything else is a conflict. So a sibling such as \<open>/w/ab\<close> is never
  taken for a descendant of \<open>/w/a\<close>, and swapping the two workspaces swaps the answer.\<close>

theorem workspace_relationship_by_segments:
  assumes unicode: "keeps_segments ulower"
    and c: "workspace_view ulower canonical = Some (k, xs)"
    and e: "workspace_view ulower effective = Some (k, ys)"
  shows "ClassifyWorkspaceRelationship ulower canonical effective
      = Some (if xs = ys then RelationExact
              else if strict_prefix xs ys then RelationDescendant
              else if strict_prefix ys xs then RelationAncestor
              else RelationConflict)
    \<and> ClassifyWorkspaceRelationship ulower effective canonical
      = map_option converse_relation (ClassifyWorkspaceRelationship ulower canonical effective)"
proof
  have n: "normalizeAbsoluteWorkspacePath ulower (trim_space canonical) = Some (render (k, xs), True)"
    "normalizeAbsoluteWorkspacePath ulower (trim_space effective) = Some (render (k, ys), True)"
    using c e by (intro normalize_view [OF unicode]; simp add: view_trim)+
  have s: "segments xs" "segments ys" "k = DriveRoot \<longrightarrow> xs \<noteq> [] \<and> ys \<noteq> []"
    using workspace_view_segments [OF unicode c] workspace_view_segments [OF unicode e] by auto
  show "ClassifyWorkspaceRelationship ulower canonical effective
      = Some (if xs = ys then RelationExact
              else if strict_prefix xs ys then RelationDescendant
              else if strict_prefix ys xs then RelationAncestor
              else RelationConflict)"
    using view_nonempty [OF c] view_nonempty [OF e] n render_order [OF s] render_order [of ys xs k] s
    by (simp add: ClassifyWorkspaceRelationship_def)
  show "ClassifyWorkspaceRelationship ulower effective canonical
      = map_option converse_relation (ClassifyWorkspaceRelationship ulower canonical effective)"
    by (rule classify_converse)
qed

lemma ex_views:
  "workspace_view id ''/w'' = Some (UnixRoot, [''w''])" "workspace_view id ''/w/a'' = Some (UnixRoot, [''w'', ''a''])"
  by (simp_all add: workspace_view_def ex_trims replace_byte_def Let_def)

theorem workspace_relationship_by_segments_witness:
  "ClassifyWorkspaceRelationship id ''/w'' ''/w/a'' = Some RelationDescendant"
proof -
  have "keeps_segments id" by (simp add: keeps_segments_def)
  from workspace_relationship_by_segments [OF this ex_views(1) ex_views(2)] show ?thesis by simp
qed

end
