(* ===== verification/Command_Audit.thy ===== *)
theory Command_Audit
  imports Domain_Types Go_Codec
begin

text \<open>
  Command audits: the outcome classification, the truncation marker and the rehydration of
  \<open>domain/model/command_audit.go\<close> and \<open>command_audit_restore.go\<close>, the failure reasons and the
  quote-aware command identity of \<open>domain/types\<close>, and the access facts of \<open>tool_access.go\<close> less
  their JSON spelling. A method on a possibly nil audit does nothing there, so only the non-nil case
  is a definition.
\<close>

section \<open>Failure reasons\<close>

definition CommandFailureReasonUnknown :: string where "CommandFailureReasonUnknown = ''unknown''"
definition CommandFailureReasonNone :: string where "CommandFailureReasonNone = ''none''"
definition CommandFailureReasonExitCode :: string where "CommandFailureReasonExitCode = ''exit_code''"
definition CommandFailureReasonSignal :: string where "CommandFailureReasonSignal = ''signal''"
definition CommandFailureReasonTimeout :: string where "CommandFailureReasonTimeout = ''timeout''"
definition CommandFailureReasonHookDenied :: string where "CommandFailureReasonHookDenied = ''hook_denied''"
definition CommandFailureReasonHostError :: string where "CommandFailureReasonHostError = ''host_error''"

lemmas failure_reason_defs =
  CommandFailureReasonUnknown_def CommandFailureReasonNone_def CommandFailureReasonExitCode_def
  CommandFailureReasonSignal_def CommandFailureReasonTimeout_def CommandFailureReasonHookDenied_def
  CommandFailureReasonHostError_def

definition knownCommandFailureReasons :: "string list" where
  "knownCommandFailureReasons =
     [CommandFailureReasonUnknown, CommandFailureReasonNone, CommandFailureReasonExitCode,
      CommandFailureReasonSignal, CommandFailureReasonTimeout, CommandFailureReasonHookDenied,
      CommandFailureReasonHostError]"

definition CommandFailureReasonFrom :: "string \<Rightarrow> type_error + string" where
  "CommandFailureReasonFrom = closed_from knownCommandFailureReasons"

definition IsFailure :: "string \<Rightarrow> bool" where
  "IsFailure r \<longleftrightarrow>
     List.member [CommandFailureReasonExitCode, CommandFailureReasonSignal, CommandFailureReasonTimeout,
                  CommandFailureReasonHookDenied, CommandFailureReasonHostError] r"

section \<open>Command identity\<close>

definition CommandNameUnknown :: string where "CommandNameUnknown = ''unknown''"

record CommandIdentity =
  cid_wrapper :: "string option"
  cid_command :: string

text \<open>\<open>utf8.AppendRune\<close>, \<open>unicode.IsSpace\<close> and \<open>path.Base\<close>.\<close>

definition encode_rune :: "nat \<Rightarrow> string" where
  "encode_rune r =
     (if r < 0x80 then [char_of r]
      else if r < 0x800 then [char_of (0xC0 + r div 64), char_of (0x80 + r mod 64)]
      else if 0xD800 \<le> r \<and> r \<le> 0xDFFF \<or> 0x10FFFF < r then [CHR 0xEF, CHR 0xBF, CHR 0xBD]
      else if r < 0x10000
      then [char_of (0xE0 + r div 4096), char_of (0x80 + r div 64 mod 64), char_of (0x80 + r mod 64)]
      else [char_of (0xF0 + r div 262144), char_of (0x80 + r div 4096 mod 64),
            char_of (0x80 + r div 64 mod 64), char_of (0x80 + r mod 64)])"

definition is_space_rune :: "nat \<Rightarrow> bool" where
  "is_space_rune r \<longleftrightarrow>
     List.member [0x09, 0x0A, 0x0B, 0x0C, 0x0D, 0x20, 0x85, 0xA0, 0x1680, 0x2028, 0x2029, 0x202F, 0x205F, 0x3000] r
     \<or> (0x2000 \<le> r \<and> r \<le> 0x200A)"

definition path_base :: "string \<Rightarrow> string" where
  "path_base p =
     (if p = '''' then ''.''
      else let q = rev (dropWhile (\<lambda>c. c = slash) (rev p))
           in if q = '''' then ''/'' else rev (takeWhile (\<lambda>c. c \<noteq> slash) (rev q)))"

definition shell_chars :: string where
  "shell_chars = [CHR ''$'', CHR 0x60, CHR '';'', CHR ''&'', CHR ''|'', CHR ''<'', CHR ''>'', CHR ''('', CHR '')'']"

definition commandTokenName :: "string \<Rightarrow> string" where
  "commandTokenName token =
     (let t = trim_space token
      in if t = '''' \<or> list_ex (\<lambda>c. List.member shell_chars c) t then CommandNameUnknown else path_base t)"

text \<open>
  The scan of \<open>commandPrefixTokens\<close> over the runes of the command: the tokens read, the bytes of the
  current one, the open quote (0 for none) and the two flags of the loop.
\<close>

record scan_state =
  sc_tokens :: "string list"
  sc_builder :: string
  sc_quote :: nat
  sc_escaped :: bool
  sc_in_token :: bool

definition scan_write :: "nat \<Rightarrow> scan_state \<Rightarrow> scan_state" where
  "scan_write r st = st\<lparr>sc_builder := sc_builder st @ encode_rune r, sc_in_token := True\<rparr>"

definition scan_flush :: "scan_state \<Rightarrow> scan_state" where
  "scan_flush st =
     (if \<not> sc_in_token st then st
      else st\<lparr>sc_tokens := sc_tokens st @ [sc_builder st], sc_builder := '''', sc_in_token := False\<rparr>)"

fun scan_tokens :: "nat \<Rightarrow> scan_state \<Rightarrow> nat list \<Rightarrow> string list \<times> bool" where
  "scan_tokens limit st [] =
     (if sc_escaped st \<or> sc_quote st \<noteq> 0 then (sc_tokens st, False) else (sc_tokens (scan_flush st), True))"
| "scan_tokens limit st (r # rs) =
     (if sc_escaped st then scan_tokens limit ((scan_write r st)\<lparr>sc_escaped := False\<rparr>) rs
      else if r = 0x5C \<and> sc_quote st \<noteq> 0x27
      then scan_tokens limit (st\<lparr>sc_escaped := True, sc_in_token := True\<rparr>) rs
      else if sc_quote st \<noteq> 0
      then (if r = sc_quote st then scan_tokens limit (st\<lparr>sc_quote := 0, sc_in_token := True\<rparr>) rs
            else scan_tokens limit (scan_write r st) rs)
      else if r = 0x27 \<or> r = 0x22 then scan_tokens limit (st\<lparr>sc_quote := r, sc_in_token := True\<rparr>) rs
      else if is_space_rune r
      then (if sc_in_token st \<and> limit \<le> length (sc_tokens (scan_flush st)) then (sc_tokens (scan_flush st), True)
            else scan_tokens limit (scan_flush st) rs)
      else scan_tokens limit (scan_write r st) rs)"

definition commandPrefixTokens :: "string \<Rightarrow> int \<Rightarrow> string list \<times> bool" where
  "commandPrefixTokens raw limit =
     (if limit \<le> 0 then ([], False)
      else scan_tokens (nat limit)
             \<lparr>sc_tokens = [], sc_builder = '''', sc_quote = 0, sc_escaped = False, sc_in_token = False\<rparr>
             (map fst (runes raw)))"

definition CommandIdentityFrom :: "string \<Rightarrow> CommandIdentity" where
  "CommandIdentityFrom raw =
     (let (tokens, valid) = commandPrefixTokens raw 3
      in if \<not> valid \<or> tokens = [] then \<lparr>cid_wrapper = None, cid_command = CommandNameUnknown\<rparr>
         else let first = commandTokenName (tokens ! 0)
              in if first \<noteq> ''rtk'' then \<lparr>cid_wrapper = None, cid_command = first\<rparr>
                 else let identity = \<lparr>cid_wrapper = Some ''rtk'', cid_command = CommandNameUnknown\<rparr>
                      in if length tokens < 2 then identity
                         else let i = (if tokens ! 1 = ''proxy'' then 2 else 1)
                              in if i < length tokens
                                 then let candidate = commandTokenName (tokens ! i)
                                      in if candidate \<noteq> '''' \<and> \<not> prefix ''-'' candidate
                                         then identity\<lparr>cid_command := candidate\<rparr> else identity
                                 else identity)"

definition CommandIdentityOf :: "string option \<Rightarrow> string \<Rightarrow> CommandIdentity" where
  "CommandIdentityOf wrapper command =
     \<lparr>cid_wrapper = wrapper, cid_command = (if trim_space command = '''' then CommandNameUnknown else command)\<rparr>"

definition identity_command :: "CommandIdentity \<Rightarrow> string" where
  "identity_command i = (if trim_space (cid_command i) = '''' then CommandNameUnknown else cid_command i)"

section \<open>Access facts\<close>

record ReadOnlyOutputMetadata =
  ro_paths :: "string list"
  ro_bytes :: int
  ro_sha256 :: string
  ro_truncated :: bool

definition readOnlyTargetLimit :: nat where "readOnlyTargetLimit = 8"
definition readOnlyTargetMaxBytes :: nat where "readOnlyTargetMaxBytes = 512"

fun shrink_utf8 :: "string \<Rightarrow> nat \<Rightarrow> nat" where
  "shrink_utf8 v 0 = 0"
| "shrink_utf8 v (Suc n) = (if \<not> valid_utf8 (take (Suc n) v) then shrink_utf8 v n else Suc n)"

definition takeUTF8PrefixBytes :: "string \<Rightarrow> nat \<Rightarrow> string" where
  "takeUTF8PrefixBytes v limit =
     (if limit = 0 \<or> length v \<le> limit then v else take (shrink_utf8 v limit) v)"

fun bound_targets :: "string list \<Rightarrow> string list \<Rightarrow> string list" where
  "bound_targets out [] = out"
| "bound_targets out (p # ps) =
     (let t0 = trim_space p
      in if t0 = '''' then bound_targets out ps
         else let t = (if 0 < length (runes t0) \<and> readOnlyTargetMaxBytes < length t0
                       then takeUTF8PrefixBytes t0 readOnlyTargetMaxBytes else t0)
              in if List.member out t then bound_targets out ps
                 else if length (out @ [t]) = readOnlyTargetLimit then out @ [t]
                 else bound_targets (out @ [t]) ps)"

definition boundReadOnlyTargets :: "string list \<Rightarrow> string list" where
  "boundReadOnlyTargets paths = (if paths = [] then [] else bound_targets [] paths)"

definition ReadOnlyOutputMetadataOf :: "string list \<Rightarrow> string \<Rightarrow> int \<Rightarrow> ReadOnlyOutputMetadata" where
  "ReadOnlyOutputMetadataOf paths output maxOutputBytes =
     \<lparr>ro_paths = boundReadOnlyTargets paths, ro_bytes = int (length output),
      ro_sha256 = hex_encode (sha256 output),
      ro_truncated = (maxOutputBytes > 0 \<and> int (length output) > maxOutputBytes)\<rparr>"

definition ReadOnlyOutputMetadataRestore :: "string list \<Rightarrow> int \<Rightarrow> string \<Rightarrow> bool \<Rightarrow> ReadOnlyOutputMetadata" where
  "ReadOnlyOutputMetadataRestore paths bytes digest truncated =
     \<lparr>ro_paths = boundReadOnlyTargets paths, ro_bytes = bytes, ro_sha256 = digest, ro_truncated = truncated\<rparr>"

text \<open>The host tables, and the values of a decoded tool input that the code distinguishes.\<close>

datatype ToolAccess = ToolAccessUnknown | ToolAccessReadOnly

datatype tool_value = ToolString string | ToolAnys "tool_value list" | ToolStrings "string list" | ToolOther

definition readOnlyToolsByHost :: "(string \<times> string list) list" where
  "readOnlyToolsByHost =
     [(''claude'', [''Read'', ''NotebookRead'', ''Grep'', ''Glob'', ''WebFetch'']),
      (''grok'', [''read_file'', ''grep'', ''list_dir'']),
      (''kimi'', [''Read'', ''Grep'', ''Glob'', ''ReadMediaFile'']),
      (''gemini'', [''read_file'', ''read_many_files'', ''list_directory'', ''glob'', ''search_file_content''])]"

definition readOnlyToolTargetKeysByHost :: "(string \<times> (string \<times> string list) list) list" where
  "readOnlyToolTargetKeysByHost =
     [(''claude'',
        [(''Read'', [''file_path'']), (''NotebookRead'', [''notebook_path'']), (''Grep'', [''pattern'', ''path'']),
         (''Glob'', [''pattern'', ''path'']), (''WebFetch'', [''url''])]),
      (''grok'',
        [(''read_file'', [''target_file'', ''path'', ''file_path'', ''absolute_path'']),
         (''grep'', [''pattern'', ''path'']),
         (''list_dir'', [''target_directory'', ''path'', ''directory'', ''dir''])]),
      (''kimi'',
        [(''Read'', [''path'', ''file_path'']), (''Grep'', [''pattern'', ''path'']), (''Glob'', [''pattern'', ''path'']),
         (''ReadMediaFile'', [''path'', ''file_path''])]),
      (''gemini'',
        [(''read_file'', [''absolute_path'', ''path'', ''file_path'']), (''read_many_files'', [''paths'', ''path'']),
         (''list_directory'', [''path'', ''directory'', ''dir'']), (''glob'', [''pattern'', ''path'']),
         (''search_file_content'', [''pattern'', ''path''])])]"

definition readOnlyGenericTargetKeys :: "string list" where
  "readOnlyGenericTargetKeys =
     [''path'', ''file_path'', ''absolute_path'', ''target_file'', ''paths'', ''directory'', ''dir'', ''pattern'',
      ''url'', ''target_directory'']"

definition ToolAccessOf :: "string \<Rightarrow> string \<Rightarrow> ToolAccess" where
  "ToolAccessOf host toolName =
     (let name = trim_space toolName
      in if host = '''' \<or> name = '''' then ToolAccessUnknown
         else case map_of readOnlyToolsByHost host of
                None \<Rightarrow> ToolAccessUnknown
              | Some tools \<Rightarrow> if List.member tools name then ToolAccessReadOnly else ToolAccessUnknown)"

text \<open>The seen set of the collection holds exactly the collected targets, so the list stands for both.\<close>

definition addReadOnlyTarget :: "string list \<Rightarrow> string \<Rightarrow> string list" where
  "addReadOnlyTarget dst v =
     (let t = trim_space v in if t = '''' \<or> List.member dst t then dst else dst @ [t])"

fun appendTargetValues :: "string list \<Rightarrow> tool_value option \<Rightarrow> string list" where
  "appendTargetValues dst (Some (ToolString v)) = addReadOnlyTarget dst v"
| "appendTargetValues dst (Some (ToolAnys items)) =
     fold (\<lambda>item d. case item of ToolString v \<Rightarrow> addReadOnlyTarget d v | _ \<Rightarrow> d) items dst"
| "appendTargetValues dst (Some (ToolStrings vs)) = fold (\<lambda>v d. addReadOnlyTarget d v) vs dst"
| "appendTargetValues dst _ = dst"

definition ReadOnlyToolTargetsOf :: "string \<Rightarrow> string \<Rightarrow> (string \<times> tool_value) list \<Rightarrow> string list" where
  "ReadOnlyToolTargetsOf host toolName toolInput =
     (if ToolAccessOf host toolName \<noteq> ToolAccessReadOnly then []
      else let name = trim_space toolName;
               keys = (case map_of readOnlyToolTargetKeysByHost host of
                         None \<Rightarrow> []
                       | Some m \<Rightarrow> (case map_of m name of None \<Rightarrow> [] | Some ks \<Rightarrow> ks))
                      @ readOnlyGenericTargetKeys
           in boundReadOnlyTargets (fold (\<lambda>key d. appendTargetValues d (map_of toolInput key)) keys []))"

section \<open>Truncation markers\<close>

definition auditTruncationMarkerPrefix :: string where
  "auditTruncationMarkerPrefix = ''...[truncated original_bytes=''"

definition auditTruncationMarkerSuffix :: string where
  "auditTruncationMarkerSuffix = '']...''"

text \<open>\<open>strings.Index\<close>, \<open>strings.LastIndex\<close> and \<open>strconv.Atoi\<close>.\<close>

definition occurs_at :: "string \<Rightarrow> string \<Rightarrow> nat \<Rightarrow> bool" where
  "occurs_at pat s i \<longleftrightarrow> prefix pat (drop i s)"

definition str_index :: "string \<Rightarrow> string \<Rightarrow> nat option" where
  "str_index pat s = List.find (occurs_at pat s) [0..<Suc (length s)]"

definition str_last_index :: "string \<Rightarrow> string \<Rightarrow> nat option" where
  "str_last_index pat s = List.find (occurs_at pat s) (rev [0..<Suc (length s)])"

definition atoi :: "string \<Rightarrow> int option" where
  "atoi s =
     (let neg = (s \<noteq> [] \<and> hd s = CHR ''-'');
          ds = (if s \<noteq> [] \<and> (hd s = CHR ''-'' \<or> hd s = CHR ''+'') then tl s else s);
          v = (if neg then - int (parse_dec ds) else int (parse_dec ds))
      in if ds \<noteq> [] \<and> list_all is_digit ds \<and> - (2 ^ 63) \<le> v \<and> v < 2 ^ 63 then Some v else None)"

definition AuditPayloadTruncationMarker :: "int \<Rightarrow> string" where
  "AuditPayloadTruncationMarker originalBytes =
     (if originalBytes \<le> 0 then auditTruncationMarkerPrefix @ ''0'' @ auditTruncationMarkerSuffix
      else auditTruncationMarkerPrefix @ itoa (nat originalBytes) @ auditTruncationMarkerSuffix)"

definition AuditPayloadOriginalBytesFromTruncationMarker :: "string \<Rightarrow> int" where
  "AuditPayloadOriginalBytesFromTruncationMarker payload =
     (case str_last_index auditTruncationMarkerPrefix payload of
        None \<Rightarrow> 0
      | Some i \<Rightarrow>
          let rest = drop (i + length auditTruncationMarkerPrefix) payload
          in case str_index auditTruncationMarkerSuffix rest of
               None \<Rightarrow> 0
             | Some j \<Rightarrow> (case atoi (take j rest) of None \<Rightarrow> 0 | Some v \<Rightarrow> v))"

definition inferAuditPayloadOriginalBytes :: "string \<Rightarrow> bool \<Rightarrow> int" where
  "inferAuditPayloadOriginalBytes payload truncated =
     (if \<not> truncated then 0 else AuditPayloadOriginalBytesFromTruncationMarker payload)"

section \<open>The audit\<close>

record CommandAudit =
  ca_event_id :: string
  ca_command :: string
  ca_identity :: CommandIdentity
  ca_input :: string
  ca_output :: string
  ca_input_truncated :: bool
  ca_output_truncated :: bool
  ca_input_original :: int
  ca_output_original :: int
  ca_input_redacted :: bool
  ca_output_redacted :: bool
  ca_exit_code :: "int option"
  ca_failed :: bool
  ca_failure_reason :: string
  ca_metadata :: "ReadOnlyOutputMetadata option"

record CommandAuditSnapshot =
  cas_event_id :: string
  cas_command :: string
  cas_wrapper :: "string option"
  cas_command_name :: string
  cas_input :: string
  cas_output :: string
  cas_input_truncated :: bool
  cas_output_truncated :: bool
  cas_input_original :: int
  cas_output_original :: int
  cas_exit_code :: "int option"
  cas_failed :: bool
  cas_failure_reason :: string
  cas_metadata :: "ReadOnlyOutputMetadata option"

datatype audit_error = EmptyCommand | BadFailureReason type_error | ZeroExitFailure | NonZeroExitNoReason
  | NonZeroExitReason string | FailedContradiction

definition NewCommandAudit ::
    "string \<Rightarrow> string \<Rightarrow> string \<Rightarrow> string \<Rightarrow> bool \<Rightarrow> bool \<Rightarrow> audit_error + CommandAudit" where
  "NewCommandAudit eventID command input output inputTruncated outputTruncated =
     (let trimmed = trim_space command
      in if trimmed = '''' then Inl EmptyCommand
         else Inr \<lparr>ca_event_id = eventID, ca_command = trimmed, ca_identity = CommandIdentityFrom trimmed,
                   ca_input = input, ca_output = output, ca_input_truncated = inputTruncated,
                   ca_output_truncated = outputTruncated,
                   ca_input_original = inferAuditPayloadOriginalBytes input inputTruncated,
                   ca_output_original = inferAuditPayloadOriginalBytes output outputTruncated,
                   ca_input_redacted = False, ca_output_redacted = False, ca_exit_code = None,
                   ca_failed = False, ca_failure_reason = CommandFailureReasonUnknown, ca_metadata = None\<rparr>)"

definition CommandAuditOf ::
    "string \<Rightarrow> string \<Rightarrow> string \<Rightarrow> string \<Rightarrow> bool \<Rightarrow> bool \<Rightarrow> int option \<Rightarrow> bool \<Rightarrow> CommandAudit" where
  "CommandAuditOf eventID command input output inputTruncated outputTruncated exitCode failed =
     \<lparr>ca_event_id = eventID, ca_command = command, ca_identity = CommandIdentityOf None CommandNameUnknown,
      ca_input = input, ca_output = output, ca_input_truncated = inputTruncated,
      ca_output_truncated = outputTruncated,
      ca_input_original = inferAuditPayloadOriginalBytes input inputTruncated,
      ca_output_original = inferAuditPayloadOriginalBytes output outputTruncated,
      ca_input_redacted = False, ca_output_redacted = False, ca_exit_code = exitCode, ca_failed = failed,
      ca_failure_reason = CommandFailureReasonUnknown, ca_metadata = None\<rparr>"

section \<open>Operations of the audit\<close>

definition RebindEventID :: "CommandAudit \<Rightarrow> string \<Rightarrow> CommandAudit" where
  "RebindEventID a eventID = (case EventIDFrom eventID of Inl _ \<Rightarrow> a | Inr parsed \<Rightarrow> a\<lparr>ca_event_id := parsed\<rparr>)"

definition SetOriginalPayloadBytes :: "CommandAudit \<Rightarrow> int \<Rightarrow> int \<Rightarrow> CommandAudit" where
  "SetOriginalPayloadBytes a inputBytes outputBytes =
     (let b = (if ca_input_truncated a \<and> inputBytes > 0 then a\<lparr>ca_input_original := inputBytes\<rparr> else a)
      in if ca_output_truncated b \<and> outputBytes > 0 then b\<lparr>ca_output_original := outputBytes\<rparr> else b)"

definition SetRedaction :: "CommandAudit \<Rightarrow> bool \<Rightarrow> bool \<Rightarrow> CommandAudit" where
  "SetRedaction a inputRedacted outputRedacted =
     a\<lparr>ca_input_redacted := inputRedacted, ca_output_redacted := outputRedacted\<rparr>"

definition SetReadOnlyOutputMetadata :: "CommandAudit \<Rightarrow> ReadOnlyOutputMetadata \<Rightarrow> CommandAudit" where
  "SetReadOnlyOutputMetadata a metadata = a\<lparr>ca_metadata := Some metadata\<rparr>"

definition audit_failure_reason :: "CommandAudit option \<Rightarrow> string" where
  "audit_failure_reason receiver =
     (case receiver of
        None \<Rightarrow> CommandFailureReasonUnknown
      | Some a \<Rightarrow> if ca_failure_reason a = '''' then CommandFailureReasonUnknown else ca_failure_reason a)"

definition ClassifyOutcome :: "CommandAudit \<Rightarrow> int option \<Rightarrow> string \<Rightarrow> bool \<Rightarrow> audit_error + CommandAudit" where
  "ClassifyOutcome a exitCode reportedReason structuralFailure =
     (case CommandFailureReasonFrom (if reportedReason = '''' then CommandFailureReasonUnknown else reportedReason) of
        Inl e \<Rightarrow> Inl (BadFailureReason e)
      | Inr validated \<Rightarrow>
          (case exitCode of
             Some code \<Rightarrow>
               Inr (if code = 0
                    then a\<lparr>ca_exit_code := exitCode, ca_failure_reason := CommandFailureReasonNone, ca_failed := False\<rparr>
                    else a\<lparr>ca_exit_code := exitCode,
                           ca_failure_reason :=
                             (if List.member [CommandFailureReasonSignal, CommandFailureReasonTimeout,
                                              CommandFailureReasonHookDenied] validated
                              then validated else CommandFailureReasonExitCode),
                           ca_failed := True\<rparr>)
           | None \<Rightarrow>
               let reason = (if validated = CommandFailureReasonUnknown \<and> structuralFailure
                             then CommandFailureReasonHostError else validated)
               in Inr (a\<lparr>ca_exit_code := None, ca_failure_reason := reason, ca_failed := IsFailure reason\<rparr>)))"

text \<open>The two setters discard the error of the classification.\<close>

definition SetExitCode :: "CommandAudit \<Rightarrow> int option \<Rightarrow> CommandAudit" where
  "SetExitCode a code =
     (case ClassifyOutcome a code (ca_failure_reason a) (ca_failed a) of Inl _ \<Rightarrow> a | Inr b \<Rightarrow> b)"

definition SetFailed :: "CommandAudit \<Rightarrow> bool \<Rightarrow> CommandAudit" where
  "SetFailed a failed =
     (case ClassifyOutcome a (ca_exit_code a) (ca_failure_reason a) failed of Inl _ \<Rightarrow> a | Inr b \<Rightarrow> b)"

definition commandAuditFromSnapshot :: "CommandAuditSnapshot \<Rightarrow> string \<Rightarrow> audit_error + CommandAudit" where
  "commandAuditFromSnapshot n command =
     (let commandName = (if trim_space (cas_command_name n) = '''' then CommandNameUnknown else cas_command_name n)
      in case CommandFailureReasonFrom
                (if cas_failure_reason n = '''' then CommandFailureReasonUnknown else cas_failure_reason n) of
           Inl e \<Rightarrow> Inl (BadFailureReason e)
         | Inr reason \<Rightarrow>
             (case (case cas_exit_code n of
                      None \<Rightarrow> None
                    | Some code \<Rightarrow>
                        if code = 0 \<and> IsFailure reason then Some ZeroExitFailure
                        else if code \<noteq> 0 \<and> reason = CommandFailureReasonNone then Some NonZeroExitNoReason
                        else if code \<noteq> 0
                          \<and> \<not> List.member [CommandFailureReasonUnknown, CommandFailureReasonExitCode,
                                 CommandFailureReasonSignal, CommandFailureReasonTimeout,
                                 CommandFailureReasonHookDenied] reason
                        then Some (NonZeroExitReason reason) else None) of
                Some e \<Rightarrow> Inl e
              | None \<Rightarrow>
                  if reason \<noteq> CommandFailureReasonUnknown \<and> cas_failed n \<noteq> IsFailure reason then Inl FailedContradiction
                  else Inr \<lparr>ca_event_id = cas_event_id n, ca_command = command,
                            ca_identity = CommandIdentityOf (cas_wrapper n) commandName,
                            ca_input = cas_input n, ca_output = cas_output n,
                            ca_input_truncated = cas_input_truncated n, ca_output_truncated = cas_output_truncated n,
                            ca_input_original = cas_input_original n, ca_output_original = cas_output_original n,
                            ca_input_redacted = False, ca_output_redacted = False,
                            ca_exit_code = cas_exit_code n,
                            ca_failed = (if reason \<noteq> CommandFailureReasonUnknown then IsFailure reason else cas_failed n),
                            ca_failure_reason = reason, ca_metadata = cas_metadata n\<rparr>))"

definition CommandAuditFromSnapshot :: "CommandAuditSnapshot \<Rightarrow> audit_error + CommandAudit" where
  "CommandAuditFromSnapshot n =
     (let command = trim_space (cas_command n)
      in if command = '''' then Inl EmptyCommand else commandAuditFromSnapshot n command)"

definition CommandAuditFromListingMetadata :: "CommandAuditSnapshot \<Rightarrow> audit_error + CommandAudit" where
  "CommandAuditFromListingMetadata n = commandAuditFromSnapshot n (trim_space (cas_command n))"

section \<open>The outcome machine\<close>

inductive audit_init :: "CommandAudit \<Rightarrow> bool" where
  captured: "NewCommandAudit eid command input output it ot = Inr a \<Longrightarrow> audit_init a"
| restored: "CommandAuditFromSnapshot n = Inr a \<Longrightarrow> audit_init a"

inductive audit_step :: "CommandAudit \<Rightarrow> CommandAudit \<Rightarrow> bool" where
  rebound: "audit_step a (RebindEventID a eid)"
| sized: "audit_step a (SetOriginalPayloadBytes a i j)"
| redacted: "audit_step a (SetRedaction a i j)"
| facts: "audit_step a (SetReadOnlyOutputMetadata a md)"
| classified: "ClassifyOutcome a code reason failure = Inr b \<Longrightarrow> audit_step a b"
| exited: "audit_step a (SetExitCode a code)"
| failed: "audit_step a (SetFailed a f)"

text \<open>
  A coherent outcome: the reason is a known one; an affirmative reason fixes the failure flag; a zero
  exit code is never a failure, a nonzero one has a reason that the classification keeps.
\<close>

definition outcome_ok :: "CommandAudit \<Rightarrow> bool" where
  "outcome_ok a \<longleftrightarrow>
     ca_failure_reason a \<in> set knownCommandFailureReasons
     \<and> (ca_failure_reason a \<noteq> CommandFailureReasonUnknown \<longrightarrow> ca_failed a = IsFailure (ca_failure_reason a))
     \<and> (case ca_exit_code a of
          None \<Rightarrow> True
        | Some code \<Rightarrow>
            if code = 0 then \<not> IsFailure (ca_failure_reason a)
            else ca_failure_reason a \<noteq> CommandFailureReasonNone \<and> ca_failure_reason a \<noteq> CommandFailureReasonHostError)"

definition audit_wf :: "CommandAudit \<Rightarrow> bool" where
  "audit_wf a \<longleftrightarrow> outcome_ok a \<and> ca_command a \<noteq> '''' \<and> trim_space (ca_command a) = ca_command a"

interpretation failure_reasons: closed_set knownCommandFailureReasons
  by unfold_locales (simp add: knownCommandFailureReasons_def failure_reason_defs solid_def)

lemma reason_distinct [simp]:
  "CommandFailureReasonUnknown \<noteq> CommandFailureReasonNone" "CommandFailureReasonUnknown \<noteq> CommandFailureReasonExitCode"
  "CommandFailureReasonUnknown \<noteq> CommandFailureReasonSignal" "CommandFailureReasonUnknown \<noteq> CommandFailureReasonTimeout"
  "CommandFailureReasonUnknown \<noteq> CommandFailureReasonHookDenied" "CommandFailureReasonUnknown \<noteq> CommandFailureReasonHostError"
  "CommandFailureReasonNone \<noteq> CommandFailureReasonExitCode" "CommandFailureReasonNone \<noteq> CommandFailureReasonSignal"
  "CommandFailureReasonNone \<noteq> CommandFailureReasonTimeout" "CommandFailureReasonNone \<noteq> CommandFailureReasonHookDenied"
  "CommandFailureReasonNone \<noteq> CommandFailureReasonHostError" "CommandFailureReasonExitCode \<noteq> CommandFailureReasonHostError"
  "CommandFailureReasonSignal \<noteq> CommandFailureReasonHostError" "CommandFailureReasonTimeout \<noteq> CommandFailureReasonHostError"
  "CommandFailureReasonHookDenied \<noteq> CommandFailureReasonHostError"
  by (simp_all add: failure_reason_defs)

lemmas reason_distinct_sym [simp] = reason_distinct [symmetric]

lemma IsFailure_simps [simp]:
  "\<not> IsFailure CommandFailureReasonUnknown" "\<not> IsFailure CommandFailureReasonNone"
  "IsFailure CommandFailureReasonExitCode" "IsFailure CommandFailureReasonSignal" "IsFailure CommandFailureReasonTimeout"
  "IsFailure CommandFailureReasonHookDenied" "IsFailure CommandFailureReasonHostError"
  by (simp_all add: IsFailure_def)

lemma known_reasons [simp]:
  "CommandFailureReasonUnknown \<in> set knownCommandFailureReasons" "CommandFailureReasonNone \<in> set knownCommandFailureReasons"
  "CommandFailureReasonExitCode \<in> set knownCommandFailureReasons" "CommandFailureReasonSignal \<in> set knownCommandFailureReasons"
  "CommandFailureReasonTimeout \<in> set knownCommandFailureReasons" "CommandFailureReasonHookDenied \<in> set knownCommandFailureReasons"
  "CommandFailureReasonHostError \<in> set knownCommandFailureReasons"
  by (simp_all add: knownCommandFailureReasons_def)

lemma reason_from_known: "CommandFailureReasonFrom s = Inr v \<Longrightarrow> v \<in> set knownCommandFailureReasons"
  using failure_reasons.from_member by (simp add: CommandFailureReasonFrom_def)

lemma reason_from_id: "v \<in> set knownCommandFailureReasons \<Longrightarrow> CommandFailureReasonFrom v = Inr v \<and> v \<noteq> ''''"
  using failure_reasons.from_known failure_reasons.known_trimmed by (simp add: CommandFailureReasonFrom_def)

lemma ClassifyOutcome_Inr:
  assumes "ClassifyOutcome a code reason failure = Inr b"
  obtains c r f where "b = a\<lparr>ca_exit_code := c, ca_failure_reason := r, ca_failed := f\<rparr>" "outcome_ok b"
proof -
  obtain v where v: "CommandFailureReasonFrom (if reason = '''' then CommandFailureReasonUnknown else reason) = Inr v"
    using assms by (auto simp: ClassifyOutcome_def split: sum.splits)
  have known: "v \<in> set knownCommandFailureReasons" using v by (rule reason_from_known)
  show ?thesis
  proof (cases code)
    case None
    let ?r = "if v = CommandFailureReasonUnknown \<and> failure then CommandFailureReasonHostError else v"
    have b: "b = a\<lparr>ca_exit_code := None, ca_failure_reason := ?r, ca_failed := IsFailure ?r\<rparr>"
      using assms v None by (simp add: ClassifyOutcome_def Let_def)
    show ?thesis by (rule that [of "IsFailure ?r" ?r None]) (use b known in \<open>simp_all add: outcome_ok_def\<close>)
  next
    case (Some n)
    let ?r = "if n = 0 then CommandFailureReasonNone
      else if List.member [CommandFailureReasonSignal, CommandFailureReasonTimeout, CommandFailureReasonHookDenied] v
      then v else CommandFailureReasonExitCode"
    have b: "b = a\<lparr>ca_exit_code := code, ca_failure_reason := ?r, ca_failed := (n \<noteq> 0)\<rparr>"
      using assms v Some by (cases "n = 0") (auto simp: ClassifyOutcome_def)
    have "?r \<in> set knownCommandFailureReasons" "IsFailure ?r \<longleftrightarrow> n \<noteq> 0" "n \<noteq> 0 \<longrightarrow> ?r \<noteq> CommandFailureReasonHostError"
      using known by (auto simp: IsFailure_def)
    then show ?thesis by (intro that [of "n \<noteq> 0" ?r code]) (use b Some in \<open>auto simp: outcome_ok_def\<close>)
  qed
qed

text \<open>A step that is no classification leaves the outcome and the command alone.\<close>

lemma audit_wf_cong:
  "ca_exit_code b = ca_exit_code a \<Longrightarrow> ca_failure_reason b = ca_failure_reason a \<Longrightarrow> ca_failed b = ca_failed a \<Longrightarrow>
    ca_command b = ca_command a \<Longrightarrow> audit_wf b = audit_wf a"
  unfolding audit_wf_def outcome_ok_def by (simp split: option.split)

lemma ClassifyOutcome_wf: "ClassifyOutcome a code reason failure = Inr b \<Longrightarrow> audit_wf a \<Longrightarrow> audit_wf b"
  by (erule ClassifyOutcome_Inr) (simp add: audit_wf_def)

lemma audit_step_wf:
  assumes "audit_step a b" "audit_wf a"
  shows "audit_wf b"
  using assms(1)
proof cases
  case (rebound eid)
  have "audit_wf b = audit_wf a"
    unfolding rebound by (rule audit_wf_cong; simp add: RebindEventID_def split: sum.split)
  then show ?thesis using assms(2) by simp
next
  case (sized i j)
  have "audit_wf b = audit_wf a"
    unfolding sized by (rule audit_wf_cong; simp add: SetOriginalPayloadBytes_def Let_def)
  then show ?thesis using assms(2) by simp
next
  case (redacted i j)
  have "audit_wf b = audit_wf a" unfolding redacted by (rule audit_wf_cong; simp add: SetRedaction_def)
  then show ?thesis using assms(2) by simp
next
  case (facts md)
  have "audit_wf b = audit_wf a" unfolding facts by (rule audit_wf_cong; simp add: SetReadOnlyOutputMetadata_def)
  then show ?thesis using assms(2) by simp
next
  case (classified code reason failure)
  then show ?thesis using ClassifyOutcome_wf assms(2) by blast
next
  case (exited code)
  then show ?thesis using ClassifyOutcome_wf assms(2) by (auto simp: SetExitCode_def split: sum.splits)
next
  case (failed f)
  then show ?thesis using ClassifyOutcome_wf assms(2) by (auto simp: SetFailed_def split: sum.splits)
qed

lemma fromSnapshot_Inr:
  assumes a: "commandAuditFromSnapshot n command = Inr a"
  shows "outcome_ok a \<and> ca_command a = command"
proof -
  obtain reason where r: "CommandFailureReasonFrom
      (if cas_failure_reason n = '''' then CommandFailureReasonUnknown else cas_failure_reason n) = Inr reason"
    using a by (auto simp: commandAuditFromSnapshot_def Let_def split: sum.splits)
  have known: "reason \<in> set knownCommandFailureReasons" using r by (rule reason_from_known)
  note eq = a [unfolded commandAuditFromSnapshot_def Let_def r sum.case]
  have f: "ca_failure_reason a = reason" "ca_exit_code a = cas_exit_code n" "ca_command a = command"
    "ca_failed a = (if reason \<noteq> CommandFailureReasonUnknown then IsFailure reason else cas_failed n)"
    using eq by (auto split: option.splits if_splits simp del: List.member_iff)
  have c: "if code = 0 then \<not> IsFailure reason
      else reason \<noteq> CommandFailureReasonNone \<and> reason \<noteq> CommandFailureReasonHostError"
    if "cas_exit_code n = Some code" for code
    using eq that by (auto split: if_splits)
  show ?thesis using f c known by (simp add: outcome_ok_def split: option.split)
qed

lemma audit_init_wf: "audit_init a \<Longrightarrow> audit_wf a"
proof (induction rule: audit_init.induct)
  case (captured eid command input out it ot a)
  then show ?case by (auto simp: NewCommandAudit_def Let_def audit_wf_def outcome_ok_def split: if_splits)
next
  case (restored n a)
  then show ?case
    using fromSnapshot_Inr by (auto simp: CommandAuditFromSnapshot_def Let_def audit_wf_def split: if_splits)
qed

interpretation audit_machine: invariant_machine audit_init audit_step audit_wf
  by unfold_locales (auto intro: audit_init_wf audit_step_wf)

text \<open>The snapshot that a store keeps of an audit, read through its accessors.\<close>

definition audit_snapshot :: "CommandAudit \<Rightarrow> CommandAuditSnapshot" where
  "audit_snapshot a =
     \<lparr>cas_event_id = ca_event_id a, cas_command = ca_command a, cas_wrapper = cid_wrapper (ca_identity a),
      cas_command_name = identity_command (ca_identity a), cas_input = ca_input a, cas_output = ca_output a,
      cas_input_truncated = ca_input_truncated a, cas_output_truncated = ca_output_truncated a,
      cas_input_original = ca_input_original a, cas_output_original = ca_output_original a,
      cas_exit_code = ca_exit_code a, cas_failed = ca_failed a,
      cas_failure_reason = audit_failure_reason (Some a), cas_metadata = ca_metadata a\<rparr>"

text \<open>What the snapshot does not keep: the redaction flags, and a blank spelling of the command name.\<close>

definition stored_view :: "CommandAudit \<Rightarrow> CommandAudit" where
  "stored_view a =
     a\<lparr>ca_input_redacted := False, ca_output_redacted := False,
       ca_identity := (ca_identity a)\<lparr>cid_command := identity_command (ca_identity a)\<rparr>\<rparr>"

lemma trim_unknown [simp]: "trim_space CommandNameUnknown = CommandNameUnknown" "CommandNameUnknown \<noteq> ''''"
  unfolding CommandNameUnknown_def by (rule trim_space_solid; simp add: solid_def) simp

lemma identity_command_nonblank: "trim_space (identity_command i) \<noteq> ''''"
  by (simp add: identity_command_def)

lemma IsFailure_cases:
  "r \<in> set knownCommandFailureReasons \<Longrightarrow> r \<noteq> CommandFailureReasonNone \<Longrightarrow> r \<noteq> CommandFailureReasonHostError \<Longrightarrow>
    List.member [CommandFailureReasonUnknown, CommandFailureReasonExitCode, CommandFailureReasonSignal,
      CommandFailureReasonTimeout, CommandFailureReasonHookDenied] r"
  by (auto simp: knownCommandFailureReasons_def)

lemma snapshot_restores_audit:
  assumes "audit_wf a"
  shows "CommandAuditFromSnapshot (audit_snapshot a) = Inr (stored_view a)"
proof -
  have r: "CommandFailureReasonFrom (ca_failure_reason a) = Inr (ca_failure_reason a)" "ca_failure_reason a \<noteq> ''''"
    using assms reason_from_id by (simp_all add: audit_wf_def outcome_ok_def)
  have code: "(case ca_exit_code a of
        None \<Rightarrow> True
      | Some code \<Rightarrow> \<not> (code = 0 \<and> IsFailure (ca_failure_reason a))
          \<and> (code \<noteq> 0 \<longrightarrow> ca_failure_reason a \<noteq> CommandFailureReasonNone
              \<and> List.member [CommandFailureReasonUnknown, CommandFailureReasonExitCode, CommandFailureReasonSignal,
                  CommandFailureReasonTimeout, CommandFailureReasonHookDenied] (ca_failure_reason a)))"
    using assms IsFailure_cases by (auto simp: audit_wf_def outcome_ok_def split: option.splits if_splits simp del: List.member_iff)
  have f: "ca_failure_reason a \<noteq> CommandFailureReasonUnknown \<longrightarrow> ca_failed a = IsFailure (ca_failure_reason a)"
    using assms by (simp add: audit_wf_def outcome_ok_def)
  have view: "stored_view a =
      \<lparr>ca_event_id = ca_event_id a, ca_command = ca_command a,
       ca_identity = \<lparr>cid_wrapper = cid_wrapper (ca_identity a), cid_command = identity_command (ca_identity a)\<rparr>,
       ca_input = ca_input a, ca_output = ca_output a, ca_input_truncated = ca_input_truncated a,
       ca_output_truncated = ca_output_truncated a, ca_input_original = ca_input_original a,
       ca_output_original = ca_output_original a, ca_input_redacted = False, ca_output_redacted = False,
       ca_exit_code = ca_exit_code a, ca_failed = ca_failed a, ca_failure_reason = ca_failure_reason a,
       ca_metadata = ca_metadata a\<rparr>"
    by (simp add: stored_view_def)
  have name: "CommandIdentityOf (cid_wrapper (ca_identity a)) (identity_command (ca_identity a))
      = \<lparr>cid_wrapper = cid_wrapper (ca_identity a), cid_command = identity_command (ca_identity a)\<rparr>"
    using identity_command_nonblank by (simp add: CommandIdentityOf_def)
  have "commandAuditFromSnapshot (audit_snapshot a) (ca_command a) = Inr (stored_view a)"
    unfolding view using r code f identity_command_nonblank [of "ca_identity a"] name
    by (cases "ca_exit_code a"; cases "the (ca_exit_code a) = 0"; cases "ca_failure_reason a = CommandFailureReasonUnknown")
      (simp_all add: commandAuditFromSnapshot_def audit_snapshot_def audit_failure_reason_def Let_def)
  then show ?thesis using assms by (simp add: CommandAuditFromSnapshot_def audit_snapshot_def audit_wf_def Let_def)
qed

section \<open>Laws of the marker\<close>

lemma str_index_is:
  "i \<le> length s \<Longrightarrow> occurs_at pat s i \<Longrightarrow> (\<And>j. j < i \<Longrightarrow> \<not> occurs_at pat s j) \<Longrightarrow> str_index pat s = Some i"
  unfolding str_index_def find_Some_iff by (rule exI [of _ i]) (simp del: upt_Suc)

lemma str_last_index_is:
  assumes "i \<le> length s" "occurs_at pat s i" "\<And>j. i < j \<Longrightarrow> j \<le> length s \<Longrightarrow> \<not> occurs_at pat s j"
  shows "str_last_index pat s = Some i"
  unfolding str_last_index_def find_Some_iff
  using assms by (intro exI [of _ "length s - i"]) (simp add: rev_nth del: upt_Suc)

lemma str_last_index_None: "str_last_index pat s = None \<Longrightarrow> pat \<noteq> [] \<Longrightarrow> \<not> occurs_at pat s j"
  by (cases "j < length s") (auto simp: str_last_index_def find_None_iff occurs_at_def)

lemma marker_prefix_length [simp]: "length auditTruncationMarkerPrefix = 29"
  by (simp add: auditTruncationMarkerPrefix_def)

lemma prefix_nth_neq: "k < length pat \<Longrightarrow> k < length s \<Longrightarrow> pat ! k \<noteq> s ! k \<Longrightarrow> \<not> prefix pat s"
  by (auto simp: prefix_def nth_append)

text \<open>The prefix of the marker does not overlap itself.\<close>

lemma marker_prefix_unbordered:
  assumes "0 < k" "k < 29"
  shows "\<not> prefix auditTruncationMarkerPrefix (drop k auditTruncationMarkerPrefix @ r)"
proof -
  have "list_all (\<lambda>k. list_ex (\<lambda>j. auditTruncationMarkerPrefix ! j \<noteq> auditTruncationMarkerPrefix ! (k + j)) [0..<29 - k]) [1..<29]"
    by (simp add: auditTruncationMarkerPrefix_def upt_rec)
  then obtain j where "j < 29 - k" "auditTruncationMarkerPrefix ! j \<noteq> auditTruncationMarkerPrefix ! (k + j)"
    using assms by (force simp: list_all_iff list_ex_iff)
  then show ?thesis
    using assms by (intro prefix_nth_neq [of j]) (simp_all add: nth_append add.commute)
qed

lemma no_prefix_at_other: "s \<noteq> [] \<Longrightarrow> hd s \<noteq> CHR ''.'' \<Longrightarrow> \<not> prefix auditTruncationMarkerPrefix s"
  by (cases s) (simp_all add: auditTruncationMarkerPrefix_def)

lemma last_marker:
  assumes digits: "list_all is_digit ds"
    and clean: "str_last_index auditTruncationMarkerPrefix rest = None"
  shows "str_last_index auditTruncationMarkerPrefix (head @ auditTruncationMarkerPrefix @ ds @ rest) = Some (length head)"
proof (rule str_last_index_is)
  let ?p = auditTruncationMarkerPrefix
  let ?s = "head @ ?p @ ds @ rest"
  show "length head \<le> length ?s" by simp
  show "occurs_at ?p ?s (length head)" by (simp add: occurs_at_def)
  fix j assume "length head < j" "j \<le> length ?s"
  then obtain k where k: "j = length head + k" "0 < k" by (metis less_imp_add_positive)
  have drop_j: "drop j ?s = drop k (?p @ ds @ rest)" using k(1) by simp
  consider "k < 29" | m where "k = 29 + m" "m < length ds" | m where "k = 29 + length ds + m"
    by (metis add.assoc le_add_diff_inverse not_less nat_add_left_cancel_less)
  then show "\<not> occurs_at ?p ?s j"
  proof cases
    case 1
    then show ?thesis using marker_prefix_unbordered [of k "ds @ rest"] k(2) drop_j by (simp add: occurs_at_def)
  next
    case (2 m)
    then have d: "drop j ?s = drop m ds @ rest" using drop_j by simp
    have "hd (drop m ds @ rest) = ds ! m" using 2 by (simp add: hd_append hd_drop_conv_nth)
    moreover have "is_digit (ds ! m)" using digits 2 by (simp add: list_all_length)
    ultimately have "hd (drop m ds @ rest) \<noteq> CHR ''.''" by (auto simp: char_in_def)
    then have "\<not> prefix ?p (drop m ds @ rest)" using 2 by (intro no_prefix_at_other) simp_all
    then show ?thesis using d by (metis occurs_at_def)
  next
    case (3 m)
    then have "drop j ?s = drop m rest" using drop_j by simp
    then show ?thesis
      using str_last_index_None [OF clean, of m] by (simp add: occurs_at_def auditTruncationMarkerPrefix_def)
  qed
qed

lemma first_suffix:
  assumes "list_all is_digit ds"
  shows "str_index auditTruncationMarkerSuffix (ds @ auditTruncationMarkerSuffix @ tail) = Some (length ds)"
proof (rule str_index_is)
  fix j assume j: "j < length ds"
  then have "is_digit (ds ! j)" using assms by (simp add: list_all_length)
  moreover have "\<not> is_digit CHR '']''" by (simp add: char_in_def)
  ultimately have "CHR '']'' \<noteq> ds ! j" by metis
  then have "auditTruncationMarkerSuffix ! 0 \<noteq> drop j (ds @ auditTruncationMarkerSuffix @ tail) ! 0"
    using j by (auto simp: auditTruncationMarkerSuffix_def nth_append)
  then show "\<not> occurs_at auditTruncationMarkerSuffix (ds @ auditTruncationMarkerSuffix @ tail) j"
    unfolding occurs_at_def using j by (intro prefix_nth_neq [of 0]) (simp_all add: auditTruncationMarkerSuffix_def)
qed (simp_all add: occurs_at_def)

lemma atoi_itoa: "n < 2 ^ 63 \<Longrightarrow> atoi (itoa n) = Some (int n)"
proof -
  assume n: "n < 2 ^ 63"
  have "hd (itoa n) \<in> set (itoa n)" by (rule hd_in_set) (rule itoa_nonempty)
  then have "is_digit (hd (itoa n))" by (rule itoa_no_char)
  then have "hd (itoa n) \<noteq> CHR ''-''" "hd (itoa n) \<noteq> CHR ''+''" by (auto simp: char_in_def)
  moreover have "int n < 2 ^ 63" using n by (metis of_nat_less_iff of_nat_numeral of_nat_power)
  ultimately show ?thesis using itoa_digits [of n] by (simp add: atoi_def)
qed

section \<open>Laws of names and targets\<close>

definition safe_name :: "string \<Rightarrow> bool" where
  "safe_name n \<longleftrightarrow> n \<noteq> '''' \<and> list_all (\<lambda>c. \<not> List.member shell_chars c) n \<and> (slash \<in> set n \<longrightarrow> n = ''/'')"

lemma path_base_props:
  assumes "p \<noteq> ''''"
  shows "path_base p \<noteq> ''''" and "set (path_base p) \<subseteq> set p" and "slash \<in> set (path_base p) \<Longrightarrow> path_base p = ''/''"
proof -
  define q where "q = rev (dropWhile (\<lambda>c. c = slash) (rev p))"
  have sub: "set q \<subseteq> set p" unfolding q_def using set_dropWhileD [of _ "\<lambda>c. c = slash" "rev p"] by auto
  have take: "c \<in> set q \<and> c \<noteq> slash" if "c \<in> set (takeWhile (\<lambda>c. c \<noteq> slash) (rev q))" for c
    using set_takeWhileD [OF that] by simp
  have base: "path_base p = (if q = '''' then ''/'' else rev (takeWhile (\<lambda>c. c \<noteq> slash) (rev q)))"
    using assms by (simp add: path_base_def q_def)
  have last: "takeWhile (\<lambda>c. c \<noteq> slash) (rev q) \<noteq> []" if "q \<noteq> ''''"
  proof -
    have "hd (rev q) \<noteq> slash" using that hd_dropWhile [of "\<lambda>c. c = slash" "rev p"] by (auto simp: q_def)
    then show ?thesis using that by (cases "rev q") auto
  qed
  have root: "slash \<in> set p" if "q = ''''"
  proof -
    have "\<forall>c \<in> set p. c = slash" using that by (simp add: q_def)
    then show ?thesis using assms by (cases p) auto
  qed
  show "path_base p \<noteq> ''''" using base last by simp
  show "set (path_base p) \<subseteq> set p" using base sub root take by (cases "q = ''''") auto
  show "slash \<in> set (path_base p) \<Longrightarrow> path_base p = ''/''" using base take [of slash] by (cases "q = ''''") simp_all
qed

lemma safe_unknown: "safe_name CommandNameUnknown"
  by (simp add: safe_name_def CommandNameUnknown_def shell_chars_def)

lemma commandTokenName_safe: "safe_name (commandTokenName token)"
  using path_base_props [of "trim_space token"] safe_unknown
  by (auto simp: commandTokenName_def Let_def safe_name_def list_ex_iff list_all_iff)

lemma CommandIdentityFrom_safe:
  "safe_name (cid_command (CommandIdentityFrom raw))
   \<and> (cid_wrapper (CommandIdentityFrom raw) = None \<or> cid_wrapper (CommandIdentityFrom raw) = Some ''rtk'')"
  using commandTokenName_safe safe_unknown by (auto simp: CommandIdentityFrom_def Let_def split: prod.split)

lemma shrink_utf8_le: "shrink_utf8 v n \<le> n"
  by (induction v n rule: shrink_utf8.induct) auto

lemma takeUTF8PrefixBytes_length: "0 < limit \<Longrightarrow> length (takeUTF8PrefixBytes v limit) \<le> limit"
  using shrink_utf8_le [of v limit] by (simp add: takeUTF8PrefixBytes_def)

lemma bound_targets_bounded:
  "distinct out \<Longrightarrow> list_all (\<lambda>t. length t \<le> readOnlyTargetMaxBytes) out \<Longrightarrow> length out < readOnlyTargetLimit \<Longrightarrow>
    distinct (bound_targets out ps) \<and> length (bound_targets out ps) \<le> readOnlyTargetLimit
    \<and> list_all (\<lambda>t. length t \<le> readOnlyTargetMaxBytes) (bound_targets out ps) \<and> prefix out (bound_targets out ps)"
proof (induction out ps rule: bound_targets.induct)
  case (2 out p ps)
  let ?u = "trim_space p"
  let ?t = "if 0 < length (runes ?u) \<and> readOnlyTargetMaxBytes < length ?u
    then takeUTF8PrefixBytes ?u readOnlyTargetMaxBytes else ?u"
  have len: "length ?t \<le> readOnlyTargetMaxBytes" if "?u \<noteq> ''''"
  proof -
    have "runes ?u \<noteq> []" using that by (cases ?u) (simp_all add: runes_def Let_def)
    then show ?thesis
      using takeUTF8PrefixBytes_length [of readOnlyTargetMaxBytes ?u] by (simp add: readOnlyTargetMaxBytes_def)
  qed
  show ?case
  proof (cases "?u = '''' \<or> ?t \<in> set out \<or> length (out @ [?t]) = readOnlyTargetLimit")
    case True
    then show ?thesis using 2 len by (auto simp: Let_def)
  next
    case False
    then have step: "bound_targets out (p # ps) = bound_targets (out @ [?t]) ps" by (simp add: Let_def)
    have "length (out @ [?t]) < readOnlyTargetLimit" using False "2.prems"(3) by auto
    then have "distinct (bound_targets (out @ [?t]) ps) \<and> length (bound_targets (out @ [?t]) ps) \<le> readOnlyTargetLimit
      \<and> list_all (\<lambda>t. length t \<le> readOnlyTargetMaxBytes) (bound_targets (out @ [?t]) ps)
      \<and> prefix (out @ [?t]) (bound_targets (out @ [?t]) ps)"
      using False "2.prems" len by (intro "2.IH"(3) [OF refl _ refl]) auto
    then show ?thesis unfolding step by (auto dest: append_prefixD)
  qed
qed simp

text \<open>Plain words: printable ASCII without white space, quotes or backslashes.\<close>

definition plain_char :: "char \<Rightarrow> bool" where
  "plain_char c \<longleftrightarrow> solid c \<and> ord c \<noteq> 0x5C \<and> ord c \<noteq> 0x27 \<and> ord c \<noteq> 0x22"

definition plain_word :: "string \<Rightarrow> bool" where
  "plain_word w \<longleftrightarrow> w \<noteq> [] \<and> list_all plain_char w"

definition between_tokens :: "string list \<Rightarrow> scan_state" where
  "between_tokens ts =
     \<lparr>sc_tokens = ts, sc_builder = '''', sc_quote = 0, sc_escaped = False, sc_in_token = False\<rparr>"

lemma plain_char_facts:
  assumes "plain_char c"
  shows "encode_rune (ord c) = [c]" "\<not> is_space_rune (ord c)" "ord c \<noteq> 0x5C" "ord c \<noteq> 0x27" "ord c \<noteq> 0x22"
  using assms by (auto simp: plain_char_def solid_def encode_rune_def is_space_rune_def)

lemma scan_plain_chars:
  "list_all plain_char w \<Longrightarrow> \<not> sc_escaped st \<Longrightarrow> sc_quote st = 0 \<Longrightarrow> sc_in_token st \<or> w \<noteq> [] \<Longrightarrow>
    scan_tokens n st (map ord w @ rs) =
    scan_tokens n (st\<lparr>sc_builder := sc_builder st @ w, sc_in_token := True\<rparr>) rs"
proof (induction w arbitrary: st)
  case (Cons c w)
  note c = plain_char_facts [of c]
  have "scan_tokens n st (map ord (c # w) @ rs) = scan_tokens n (scan_write (ord c) st) (map ord w @ rs)"
    using Cons.prems c by simp
  also have "\<dots> = scan_tokens n ((scan_write (ord c) st)\<lparr>sc_builder := sc_builder (scan_write (ord c) st) @ w,
      sc_in_token := True\<rparr>) rs"
    using Cons.prems by (intro Cons.IH) (simp_all add: scan_write_def)
  finally show ?case using Cons.prems c by (simp add: scan_write_def)
next
  case Nil
  then have "st\<lparr>sc_builder := sc_builder st @ [], sc_in_token := True\<rparr> = st" by (cases st) simp
  then show ?case by simp
qed

lemma scan_plain_words:
  "list_all plain_word ws \<Longrightarrow> ws \<noteq> [] \<Longrightarrow> length ts < n \<Longrightarrow>
    scan_tokens n (between_tokens ts) (map ord (join '' '' ws)) = (take n (ts @ ws), True)"
proof (induction ws arbitrary: ts)
  case (Cons w ws)
  then have w: "w \<noteq> []" "list_all plain_char w" by (simp_all add: plain_word_def)
  let ?st = "(between_tokens ts)\<lparr>sc_builder := w, sc_in_token := True\<rparr>"
  have word: "scan_tokens n (between_tokens ts) (map ord w @ rs) = scan_tokens n ?st rs" for rs
    using scan_plain_chars [OF w(2), of "between_tokens ts" n rs] w(1) by (simp add: between_tokens_def)
  show ?case
  proof (cases ws)
    case Nil
    then show ?thesis
      using word [of "[]"] Cons.prems(3) by (simp add: between_tokens_def scan_flush_def)
  next
    case (Cons v vs)
    have flush: "scan_flush ?st = between_tokens (ts @ [w])" by (simp add: scan_flush_def between_tokens_def)
    have "scan_tokens n (between_tokens ts) (map ord (join '' '' (w # ws))) = scan_tokens n ?st (32 # map ord (join '' '' ws))"
      using word [of "32 # map ord (join '' '' ws)"] Cons by simp
    also have "\<dots> = (if n \<le> Suc (length ts) then (ts @ [w], True)
        else scan_tokens n (between_tokens (ts @ [w])) (map ord (join '' '' ws)))"
      using flush by (simp add: is_space_rune_def) (simp add: between_tokens_def)
    also have "\<dots> = (take n (ts @ w # ws), True)"
    proof (cases "n \<le> Suc (length ts)")
      case True
      then have "n = Suc (length ts)" using Cons.prems(3) by simp
      then show ?thesis by simp
    next
      case False
      then show ?thesis using Cons.IH [of "ts @ [w]"] Cons.prems(1) \<open>ws = v # vs\<close> by simp
    qed
    finally show ?thesis .
  qed
qed simp

lemma join_plain_ascii: "list_all plain_word ws \<Longrightarrow> list_all (\<lambda>c. ord c < 128) (join '' '' ws)"
proof (induction ws)
  case (Cons w ws)
  then show ?case by (cases ws) (auto simp: plain_word_def plain_char_def solid_def list_all_iff)
qed simp

lemma commandPrefixTokens_plain:
  assumes "list_all plain_word ws" "ws \<noteq> []" "0 < n"
  shows "commandPrefixTokens (join '' '' ws) (int n) = (take n ws, True)"
proof -
  have "map fst (runes (join '' '' ws)) = map ord (join '' '' ws)"
    using runes_ascii [OF join_plain_ascii [OF assms(1)]] by simp
  then show ?thesis
    using scan_plain_words [OF assms(1,2), of "[]" n] assms(3)
    by (simp add: commandPrefixTokens_def between_tokens_def)
qed

section \<open>Properties\<close>

lemma marker_original_bytes:
  assumes n: "0 < n" "n < 2 ^ 63"
    and clean: "str_last_index auditTruncationMarkerPrefix (auditTruncationMarkerSuffix @ tail) = None"
  shows "AuditPayloadOriginalBytesFromTruncationMarker (head @ AuditPayloadTruncationMarker (int n) @ tail) = int n"
proof -
  have digits: "list_all is_digit (itoa n)" using itoa_no_char by (auto simp: list_all_iff)
  have "str_last_index auditTruncationMarkerPrefix
      (head @ auditTruncationMarkerPrefix @ itoa n @ auditTruncationMarkerSuffix @ tail) = Some (length head)"
    by (rule last_marker [OF digits clean])
  moreover have "str_index auditTruncationMarkerSuffix (itoa n @ auditTruncationMarkerSuffix @ tail) = Some (length (itoa n))"
    by (rule first_suffix [OF digits])
  ultimately show ?thesis
    using n atoi_itoa [OF n(2)]
    by (simp add: AuditPayloadTruncationMarker_def AuditPayloadOriginalBytesFromTruncationMarker_def)
qed

text \<open>
  What the truncation of an audit payload writes, rehydration reads: if the marker for \<open>n\<close> original
  bytes is embedded between a kept head and a kept tail, and the tail does not itself hold the start of a
  marker, the recovered size is \<open>n\<close>; the head may hold any number of older markers.\<close>

theorem truncation_marker_roundtrip:
  assumes "0 < n" "n < 2 ^ 63"
    and "str_last_index auditTruncationMarkerPrefix (auditTruncationMarkerSuffix @ tail) = None"
  shows "inferAuditPayloadOriginalBytes (head @ AuditPayloadTruncationMarker (int n) @ tail) True = int n"
  using marker_original_bytes [OF assms] by (simp add: inferAuditPayloadOriginalBytes_def)

theorem truncation_marker_roundtrip_witness:
  "inferAuditPayloadOriginalBytes (''older ...[truncated original_bytes=7]...'' @ AuditPayloadTruncationMarker (int 4096) @ ''tail'') True
   = int 4096"
  by (rule truncation_marker_roundtrip)
     (simp_all add: auditTruncationMarkerPrefix_def auditTruncationMarkerSuffix_def str_last_index_def occurs_at_def upt_rec)

definition ex_captured :: CommandAudit where
  "ex_captured =
     \<lparr>ca_event_id = ''e1'', ca_command = ''make'', ca_identity = CommandIdentityFrom ''make'', ca_input = '''',
      ca_output = '''', ca_input_truncated = False, ca_output_truncated = False, ca_input_original = 0,
      ca_output_original = 0, ca_input_redacted = False, ca_output_redacted = False, ca_exit_code = None,
      ca_failed = False, ca_failure_reason = CommandFailureReasonUnknown, ca_metadata = None\<rparr>"

lemma ex_captured_reach: "reach audit_init audit_step (SetExitCode ex_captured (Some 2))"
proof -
  have "trim_space ''make'' = ''make''" by (rule trim_space_solid) (simp_all add: solid_def)
  then have "NewCommandAudit ''e1'' ''make'' '''' '''' False False = Inr ex_captured"
    by (simp add: NewCommandAudit_def Let_def ex_captured_def inferAuditPayloadOriginalBytes_def)
  then show ?thesis by (intro reach.intros) (erule audit_init.captured, rule audit_step.exited)
qed

text \<open>
  However an audit was captured, restored, reclassified, resized, redacted or rebound, the snapshot
  read from its accessors is accepted again by rehydration and yields the same audit: identity, payloads,
  truncation sizes, outcome and access facts; only the redaction flags, which the snapshot does not
  carry, are reset.\<close>

theorem audit_snapshot_roundtrip:
  assumes "reach audit_init audit_step a"
  shows "CommandAuditFromSnapshot (audit_snapshot a) = Inr (stored_view a)"
  by (rule snapshot_restores_audit) (rule audit_machine.reach_inv [OF assms])

theorem audit_snapshot_roundtrip_witness:
  "CommandAuditFromSnapshot (audit_snapshot (SetExitCode ex_captured (Some 2)))
     = Inr (stored_view (SetExitCode ex_captured (Some 2)))
   \<and> ca_failed (SetExitCode ex_captured (Some 2))"
  using audit_snapshot_roundtrip [OF ex_captured_reach]
  by (simp add: SetExitCode_def ClassifyOutcome_def ex_captured_def reason_from_id knownCommandFailureReasons_def)

text \<open>
  On a command written with plain words (printable ASCII without blanks, quotes or backslashes), the
  quote-aware scanner is the reference tokenizer: it returns exactly the first \<open>n\<close> words.\<close>

theorem command_tokens_plain:
  assumes "list_all plain_word ws" "ws \<noteq> []" "0 < n"
  shows "commandPrefixTokens (join '' '' ws) (int n) = (take n ws, True)"
  by (rule commandPrefixTokens_plain [OF assms])

theorem command_tokens_plain_witness:
  "commandPrefixTokens (join '' '' [''rtk'', ''proxy'', ''git'', ''log'']) (int 3) = (take 3 [''rtk'', ''proxy'', ''git'', ''log''], True)"
  by (rule command_tokens_plain) (simp_all add: plain_word_def plain_char_def solid_def)

text \<open>
  Whatever text an agent submits as a command, the name used as aggregation key is never empty, holds
  no shell metacharacter, no directory part (unless it is the root itself), and the only wrapper ever
  reported is \<open>rtk\<close>.\<close>

theorem command_identity_safe:
  "safe_name (cid_command (CommandIdentityFrom raw))
   \<and> (cid_wrapper (CommandIdentityFrom raw) = None \<or> cid_wrapper (CommandIdentityFrom raw) = Some ''rtk'')"
  by (rule CommandIdentityFrom_safe)

text \<open>
  The targets recorded as access facts of a read-only call are at most eight, pairwise different and
  at most 512 bytes long each, whatever paths the host reported.\<close>

theorem read_only_targets_bounded:
  "length (ro_paths (ReadOnlyOutputMetadataOf paths out limit)) \<le> readOnlyTargetLimit
   \<and> distinct (ro_paths (ReadOnlyOutputMetadataOf paths out limit))
   \<and> list_all (\<lambda>t. length t \<le> readOnlyTargetMaxBytes) (ro_paths (ReadOnlyOutputMetadataOf paths out limit))"
  using bound_targets_bounded [of "[]" paths]
  by (simp add: ReadOnlyOutputMetadataOf_def boundReadOnlyTargets_def readOnlyTargetLimit_def)

end
