(* ===== verification/Usage.thy ===== *)
theory Usage
  imports Domain_Types
begin

text \<open>
  Usage accounting (\<open>domain/types/usage_value.go\<close>, \<open>usage_cost.go\<close>, \<open>usage_observation.go\<close>,
  \<open>usage_terminal_code.go\<close>, \<open>run_lineage.go\<close> and \<open>domain/model/usage_observation.go\<close>): token counters that
  keep "known zero" apart from "not reported", costs in integer micro-units, and the observation
  aggregate that is finalized at most once. A sequence of checks with an early return for each is the
  list of its conditions with their errors; \<open>first_error\<close> returns the first one that fails.
\<close>

section \<open>Checks\<close>

datatype usage_error = UsageRefused string | ErrInvalidUsageObservation
  | ErrConflictingUsageObservation | UsageConflict string string

fun first_error :: "(bool \<times> usage_error) list \<Rightarrow> usage_error + unit" where
  "first_error [] = Inr ()"
| "first_error ((ok, e) # cs) = (if ok then first_error cs else Inl e)"

definition succeeds :: "'e + 'a \<Rightarrow> bool" where "succeeds r \<longleftrightarrow> \<not> isl r"

definition opt_all :: "('a \<Rightarrow> bool) \<Rightarrow> 'a option \<Rightarrow> bool" where
  "opt_all P x = (case x of None \<Rightarrow> True | Some v \<Rightarrow> P v)"

section \<open>Counters\<close>

definition UsageValueUnknown :: string where "UsageValueUnknown = ''unknown''"
definition UsageValueUnavailable :: string where "UsageValueUnavailable = ''unavailable''"
definition UsageValueKnown :: string where "UsageValueKnown = ''known''"

record UsageValue =
  uv_state :: string
  uv_value :: int

definition UnknownUsageValue :: UsageValue where
  "UnknownUsageValue = \<lparr>uv_state = UsageValueUnknown, uv_value = 0\<rparr>"

definition UnavailableUsageValue :: UsageValue where
  "UnavailableUsageValue = \<lparr>uv_state = UsageValueUnavailable, uv_value = 0\<rparr>"

definition KnownUsageValue :: "int \<Rightarrow> usage_error + UsageValue" where
  "KnownUsageValue v =
     (if v < 0 then Inl (UsageRefused ''negative value'')
      else Inr \<lparr>uv_state = UsageValueKnown, uv_value = v\<rparr>)"

definition UsageValueFrom :: "string \<Rightarrow> int option \<Rightarrow> usage_error + UsageValue" where
  "UsageValueFrom state value =
     (if state = UsageValueUnknown
      then (if value \<noteq> None then Inl (UsageRefused ''unknown with number'') else Inr UnknownUsageValue)
      else if state = UsageValueUnavailable
      then (if value \<noteq> None then Inl (UsageRefused ''unavailable with number'') else Inr UnavailableUsageValue)
      else if state = UsageValueKnown
      then (case value of None \<Rightarrow> Inl (UsageRefused ''known without number'') | Some numeric \<Rightarrow> KnownUsageValue numeric)
      else Inl (UsageRefused ''value state''))"

text \<open>\<open>Value\<close> returns a number only in the known state.\<close>

definition optionalUsageValue :: "UsageValue \<Rightarrow> int option" where
  "optionalUsageValue v = (if uv_state v \<noteq> UsageValueKnown then None else Some (uv_value v))"

definition value_validate :: "UsageValue \<Rightarrow> bool" where
  "value_validate v \<longleftrightarrow> succeeds (UsageValueFrom (uv_state v) (optionalUsageValue v))"

record UsageCounters =
  uc_input :: UsageValue
  uc_cached_input :: UsageValue
  uc_cache_write_input :: UsageValue
  uc_output :: UsageValue
  uc_reasoning_output :: UsageValue
  uc_total :: UsageValue

definition counter_values :: "UsageCounters \<Rightarrow> UsageValue list" where
  "counter_values c = [uc_input c, uc_cached_input c, uc_cache_write_input c, uc_output c, uc_reasoning_output c, uc_total c]"

definition usageCountersOfUnchecked ::
    "UsageValue \<Rightarrow> UsageValue \<Rightarrow> UsageValue \<Rightarrow> UsageValue \<Rightarrow> UsageValue \<Rightarrow> UsageValue \<Rightarrow> UsageCounters" where
  "usageCountersOfUnchecked input cached written output reasoning tot =
     \<lparr>uc_input = input, uc_cached_input = cached, uc_cache_write_input = written, uc_output = output,
      uc_reasoning_output = reasoning, uc_total = tot\<rparr>"

definition UnknownUsageCounters :: UsageCounters where
  "UnknownUsageCounters =
     (let u = UnknownUsageValue in usageCountersOfUnchecked u u u u u u)"

definition UsageCountersOf ::
    "UsageValue \<Rightarrow> UsageValue \<Rightarrow> UsageValue \<Rightarrow> UsageValue \<Rightarrow> UsageValue \<Rightarrow> UsageValue \<Rightarrow> usage_error + UsageCounters" where
  "UsageCountersOf input cached written output reasoning tot =
     (if list_all value_validate [input, cached, written, output, reasoning, tot]
      then Inr (usageCountersOfUnchecked input cached written output reasoning tot)
      else Inl (UsageRefused ''counters''))"

datatype UsageAvailability = UsageAvailabilityUnknown | UsageAvailabilityUnavailable
  | UsageAvailabilityPartial | UsageAvailabilityAvailable

fun count_known :: "nat \<Rightarrow> UsageValue list \<Rightarrow> nat option" where
  "count_known known [] = Some known"
| "count_known known (v # vs) =
     (if uv_state v = UsageValueUnknown then None
      else count_known (if uv_state v = UsageValueKnown then known + 1 else known) vs)"

definition Availability :: "UsageCounters \<Rightarrow> UsageAvailability" where
  "Availability c =
     (case count_known 0 (counter_values c) of
        None \<Rightarrow> UsageAvailabilityUnknown
      | Some known \<Rightarrow>
          if known = 0 then UsageAvailabilityUnavailable
          else if known = length (counter_values c) then UsageAvailabilityAvailable
          else UsageAvailabilityPartial)"

section \<open>Costs\<close>

definition UsageCostUnknown :: string where "UsageCostUnknown = ''unknown''"
definition UsageCostUnavailable :: string where "UsageCostUnavailable = ''unavailable''"
definition UsageCostKnown :: string where "UsageCostKnown = ''known''"
definition UsageCostEstimated :: string where "UsageCostEstimated = ''estimated''"
definition UsageCostProviderReported :: string where "UsageCostProviderReported = ''provider_reported''"

record UsageCost =
  co_state :: string
  co_amount :: int
  co_currency :: string
  co_origin :: string
  co_version :: string

definition UnknownUsageCost :: UsageCost where
  "UnknownUsageCost = \<lparr>co_state = UsageCostUnknown, co_amount = 0, co_currency = '''', co_origin = '''', co_version = ''''\<rparr>"

definition UnavailableUsageCost :: UsageCost where
  "UnavailableUsageCost = \<lparr>co_state = UsageCostUnavailable, co_amount = 0, co_currency = '''', co_origin = '''', co_version = ''''\<rparr>"

definition isUpperCurrency :: "string \<Rightarrow> bool" where
  "isUpperCurrency v \<longleftrightarrow> length v = 3 \<and> list_all (\<lambda>(r, n). 0x41 \<le> r \<and> r \<le> 0x5A) (runes v)"

definition knownUsageCost :: "int \<Rightarrow> string \<Rightarrow> string \<Rightarrow> string \<Rightarrow> usage_error + UsageCost" where
  "knownUsageCost amount currency origin version =
     (if amount < 0 then Inl (UsageRefused ''negative cost'')
      else let normalized = trim_space currency
           in if \<not> isUpperCurrency normalized then Inl (UsageRefused ''currency'')
              else Inr \<lparr>co_state = UsageCostKnown, co_amount = amount, co_currency = normalized,
                        co_origin = origin, co_version = version\<rparr>)"

definition EstimatedUsageCost :: "int \<Rightarrow> string \<Rightarrow> string \<Rightarrow> usage_error + UsageCost" where
  "EstimatedUsageCost amount currency priceTableVersion =
     (let version = trim_space priceTableVersion
      in if version = '''' then Inl (UsageRefused ''price table version'')
         else knownUsageCost amount currency UsageCostEstimated version)"

definition ProviderReportedUsageCost :: "int \<Rightarrow> string \<Rightarrow> usage_error + UsageCost" where
  "ProviderReportedUsageCost amount currency = knownUsageCost amount currency UsageCostProviderReported ''''"

definition requireEmptyUsageCost :: "int option \<Rightarrow> string \<Rightarrow> string \<Rightarrow> string \<Rightarrow> bool" where
  "requireEmptyUsageCost amount currency origin version \<longleftrightarrow>
     amount = None \<and> currency = '''' \<and> origin = '''' \<and> version = ''''"

definition UsageCostFrom :: "string \<Rightarrow> int option \<Rightarrow> string \<Rightarrow> string \<Rightarrow> string \<Rightarrow> usage_error + UsageCost" where
  "UsageCostFrom state amountMicros currency origin priceTableVersion =
     (if state = UsageCostUnknown
      then (if requireEmptyUsageCost amountMicros currency origin priceTableVersion then Inr UnknownUsageCost
            else Inl (UsageRefused ''unknown cost''))
      else if state = UsageCostUnavailable
      then (if requireEmptyUsageCost amountMicros currency origin priceTableVersion then Inr UnavailableUsageCost
            else Inl (UsageRefused ''unavailable cost''))
      else if state = UsageCostKnown
      then (case amountMicros of
              None \<Rightarrow> Inl (UsageRefused ''known cost without amount'')
            | Some amount \<Rightarrow>
                if origin = UsageCostEstimated then EstimatedUsageCost amount currency priceTableVersion
                else if origin = UsageCostProviderReported
                then (if trim_space priceTableVersion \<noteq> '''' then Inl (UsageRefused ''reported cost with version'')
                      else ProviderReportedUsageCost amount currency)
                else Inl (UsageRefused ''cost origin''))
      else Inl (UsageRefused ''cost state''))"

definition AmountMicros :: "UsageCost \<Rightarrow> int option" where
  "AmountMicros c = (if co_state c \<noteq> UsageCostKnown then None else Some (co_amount c))"

section \<open>Identities and closed sets\<close>

definition bounded_id :: "string \<Rightarrow> usage_error + string" where
  "bounded_id v =
     (let t = trim_space v
      in if t = '''' then Inl (UsageRefused ''empty identity'')
         else if 512 < length t then Inl (UsageRefused ''long identity'') else Inr t)"

definition UsageObservationIDFrom :: "string \<Rightarrow> usage_error + string" where
  "UsageObservationIDFrom = bounded_id"

definition UsageExclusivityKeyFrom :: "string \<Rightarrow> usage_error + string" where
  "UsageExclusivityKeyFrom v =
     (case bounded_id v of
        Inl e \<Rightarrow> Inl e
      | Inr t \<Rightarrow> if list_ex (\<lambda>c. List.member [CHR 0x0D, CHR 0x0A, CHR 0x00] c) t
                 then Inl (UsageRefused ''control character'') else Inr t)"

definition UsageScopeCall :: string where "UsageScopeCall = ''call''"
definition UsageScopeRun :: string where "UsageScopeRun = ''run''"
definition UsageScopeSessionSnapshot :: string where "UsageScopeSessionSnapshot = ''session_snapshot''"
definition UsageAccountingAdditive :: string where "UsageAccountingAdditive = ''additive''"
definition UsageAccountingLatestSnapshot :: string where "UsageAccountingLatestSnapshot = ''latest_snapshot''"
definition UsageAccountingExcluded :: string where "UsageAccountingExcluded = ''excluded''"
definition UsageObservationPending :: string where "UsageObservationPending = ''pending''"
definition UsageObservationFinalized :: string where "UsageObservationFinalized = ''finalized''"

lemmas usage_names =
  UsageScopeCall_def UsageScopeRun_def UsageScopeSessionSnapshot_def UsageAccountingAdditive_def
  UsageAccountingLatestSnapshot_def UsageAccountingExcluded_def UsageObservationPending_def
  UsageObservationFinalized_def

definition one_of :: "string list \<Rightarrow> string \<Rightarrow> usage_error + string" where
  "one_of known v = (if List.member known v then Inr v else Inl (UsageRefused v))"

definition UsageScopeFrom :: "string \<Rightarrow> usage_error + string" where
  "UsageScopeFrom = one_of [UsageScopeCall, UsageScopeRun, UsageScopeSessionSnapshot]"

definition UsageAccountingFrom :: "string \<Rightarrow> usage_error + string" where
  "UsageAccountingFrom = one_of [UsageAccountingAdditive, UsageAccountingLatestSnapshot, UsageAccountingExcluded]"

definition UsageObservationStatusFrom :: "string \<Rightarrow> usage_error + string" where
  "UsageObservationStatusFrom = one_of [UsageObservationPending, UsageObservationFinalized]"

definition UsageTerminalCodeFrom :: "string \<Rightarrow> usage_error + string" where
  "UsageTerminalCodeFrom = one_of [''success'', ''failure'', ''timeout'', ''signal'', ''aborted_stream'', ''unknown'']"

record UsageSource =
  us_host :: string
  us_name :: string
  us_version :: string
  us_provider :: string
  us_model :: string

definition UsageSourceOf :: "string \<Rightarrow> string \<Rightarrow> string \<Rightarrow> string \<Rightarrow> string \<Rightarrow> usage_error + UsageSource" where
  "UsageSourceOf host name version provider model =
     (let source = \<lparr>us_host = trim_space host, us_name = trim_space name, us_version = trim_space version,
                    us_provider = trim_space provider, us_model = trim_space model\<rparr>
      in if us_host source = '''' \<or> us_name source = '''' \<or> us_version source = ''''
         then Inl (UsageRefused ''source'') else Inr source)"

record RunIdentity =
  ri_host :: string
  ri_run_id :: string

definition maxRunIDBytes :: nat where "maxRunIDBytes = 512"

definition RunIdentityFrom :: "string \<Rightarrow> string \<Rightarrow> usage_error + RunIdentity" where
  "RunIdentityFrom host0 runID =
     (let host = trim_space host0
      in if host = '''' \<or> \<not> valid_utf8 host then Inl (UsageRefused ''run host'')
         else if \<not> valid_utf8 runID \<or> trim_space runID = '''' then Inl (UsageRefused ''run id'')
         else if maxRunIDBytes < length runID then Inl (UsageRefused ''long run id'')
         else Inr \<lparr>ri_host = host, ri_run_id = runID\<rparr>)"

section \<open>The descriptor\<close>

record UsageObservationDescriptor =
  ud_observation_id :: string
  ud_session_id :: string
  ud_source :: UsageSource
  ud_scope :: string
  ud_accounting :: string
  ud_observed_at :: gotime
  ud_series :: string
  ud_revision :: int
  ud_supersedes :: "string option"
  ud_run :: "RunIdentity option"
  ud_key :: "string option"

definition descriptor_validate :: "UsageObservationDescriptor \<Rightarrow> usage_error + unit" where
  "descriptor_validate d =
     (let s = ud_source d; snapshot = (ud_scope d = UsageScopeSessionSnapshot)
      in first_error
        [(succeeds (UsageObservationIDFrom (ud_observation_id d)), UsageRefused ''observation id''),
         (succeeds (SessionIDFrom (ud_session_id d)), UsageRefused ''session id''),
         (succeeds (UsageSourceOf (us_host s) (us_name s) (us_version s) (us_provider s) (us_model s)),
            UsageRefused ''source''),
         (succeeds (UsageScopeFrom (ud_scope d)), UsageRefused ''scope''),
         (succeeds (UsageAccountingFrom (ud_accounting d)), UsageRefused ''accounting''),
         (\<not> is_zero (ud_observed_at d), UsageRefused ''timestamp''),
         (snapshot \<longrightarrow> ud_run d = None, UsageRefused ''snapshot with run''),
         (snapshot \<longrightarrow> ud_key d = None, UsageRefused ''snapshot with key''),
         (snapshot \<longrightarrow> ud_accounting d = UsageAccountingLatestSnapshot \<and> ud_series d \<noteq> '''' \<and> 1 \<le> ud_revision d,
            UsageRefused ''snapshot metadata''),
         (snapshot \<longrightarrow> length (ud_series d) \<le> 512, UsageRefused ''long series''),
         (\<not> snapshot \<longrightarrow> ud_series d = '''' \<and> ud_revision d = 0, UsageRefused ''call with snapshot metadata''),
         (\<not> snapshot \<longrightarrow> ud_supersedes d = None, UsageRefused ''call supersedes''),
         (opt_all (\<lambda>p. succeeds (UsageObservationIDFrom p)) (ud_supersedes d), UsageRefused ''superseded id''),
         (opt_all (\<lambda>p. p \<noteq> ud_observation_id d) (ud_supersedes d), UsageRefused ''supersedes itself''),
         (opt_all (\<lambda>r. RunIdentityFrom (ri_host r) (ri_run_id r) = Inr r) (ud_run d), UsageRefused ''run identity''),
         (opt_all (\<lambda>r. ri_host r = us_host s) (ud_run d), UsageRefused ''run host''),
         (opt_all (\<lambda>k. succeeds (UsageExclusivityKeyFrom k)) (ud_key d), UsageRefused ''exclusivity key''),
         (opt_all (\<lambda>k. ud_accounting d = UsageAccountingAdditive \<or> ud_accounting d = UsageAccountingExcluded) (ud_key d),
            UsageRefused ''exclusivity accounting'')])"

definition validated :: "UsageObservationDescriptor \<Rightarrow> usage_error + UsageObservationDescriptor" where
  "validated d = (case descriptor_validate d of Inl e \<Rightarrow> Inl e | Inr _ \<Rightarrow> Inr d)"

definition NewUsageObservationDescriptor ::
    "string \<Rightarrow> string \<Rightarrow> UsageSource \<Rightarrow> string \<Rightarrow> string \<Rightarrow> gotime \<Rightarrow> usage_error + UsageObservationDescriptor" where
  "NewUsageObservationDescriptor observationID sessionID source scope accounting observedAt =
     (if scope \<noteq> UsageScopeCall \<and> scope \<noteq> UsageScopeRun then Inl (UsageRefused ''scope'')
      else if accounting \<noteq> UsageAccountingAdditive \<and> accounting \<noteq> UsageAccountingExcluded
      then Inl (UsageRefused ''accounting'')
      else validated
        \<lparr>ud_observation_id = observationID, ud_session_id = sessionID, ud_source = source, ud_scope = scope,
         ud_accounting = accounting, ud_observed_at = observedAt, ud_series = '''', ud_revision = 0,
         ud_supersedes = None, ud_run = None, ud_key = None\<rparr>)"

definition WithExclusivityKey ::
    "UsageObservationDescriptor \<Rightarrow> string \<Rightarrow> usage_error + UsageObservationDescriptor" where
  "WithExclusivityKey d key =
     (case UsageExclusivityKeyFrom key of Inl e \<Rightarrow> Inl e | Inr k \<Rightarrow> validated (d\<lparr>ud_key := Some k\<rparr>))"

definition NewUsageObservationDescriptorWithRunIdentity ::
    "string \<Rightarrow> string \<Rightarrow> UsageSource \<Rightarrow> string \<Rightarrow> string \<Rightarrow> gotime \<Rightarrow> RunIdentity
      \<Rightarrow> usage_error + UsageObservationDescriptor" where
  "NewUsageObservationDescriptorWithRunIdentity observationID sessionID source scope accounting observedAt runIdentity =
     (case NewUsageObservationDescriptor observationID sessionID source scope accounting observedAt of
        Inl e \<Rightarrow> Inl e
      | Inr d \<Rightarrow> validated (d\<lparr>ud_run := Some runIdentity\<rparr>))"

definition NewUsageSnapshotDescriptor ::
    "string \<Rightarrow> string \<Rightarrow> UsageSource \<Rightarrow> string \<Rightarrow> int \<Rightarrow> string option \<Rightarrow> gotime
      \<Rightarrow> usage_error + UsageObservationDescriptor" where
  "NewUsageSnapshotDescriptor observationID sessionID source series revision supersedesID observedAt =
     validated
       \<lparr>ud_observation_id = observationID, ud_session_id = sessionID, ud_source = source,
        ud_scope = UsageScopeSessionSnapshot, ud_accounting = UsageAccountingLatestSnapshot,
        ud_observed_at = observedAt, ud_series = trim_space series, ud_revision = revision,
        ud_supersedes = supersedesID, ud_run = None, ud_key = None\<rparr>"

definition equivalent :: "UsageObservationDescriptor \<Rightarrow> UsageObservationDescriptor \<Rightarrow> bool" where
  "equivalent d other \<longleftrightarrow>
     ud_observation_id d = ud_observation_id other \<and> ud_session_id d = ud_session_id other
     \<and> ud_source d = ud_source other \<and> ud_scope d = ud_scope other \<and> ud_accounting d = ud_accounting other
     \<and> ud_series d = ud_series other \<and> ud_revision d = ud_revision other
     \<and> time_equal (ud_observed_at d) (ud_observed_at other) \<and> ud_supersedes d = ud_supersedes other
     \<and> ud_run d = ud_run other \<and> ud_key d = ud_key other"

section \<open>The aggregate\<close>

record UsageObservation =
  uo_descriptor :: UsageObservationDescriptor
  uo_status :: string
  uo_counters :: UsageCounters
  uo_cost :: UsageCost
  uo_terminal_code :: "string option"
  uo_finalized_at :: "gotime option"

definition allUsageValuesHaveState :: "UsageCounters \<Rightarrow> string \<Rightarrow> bool" where
  "allUsageValuesHaveState c state \<longleftrightarrow> list_all (\<lambda>v. uv_state v = state) (counter_values c)"

definition usage_validate :: "UsageObservation option \<Rightarrow> usage_error + unit" where
  "usage_validate receiver =
     (case receiver of
        None \<Rightarrow> Inl ErrInvalidUsageObservation
      | Some u \<Rightarrow>
          (case descriptor_validate (uo_descriptor u) of
             Inl e \<Rightarrow> Inl e
           | Inr _ \<Rightarrow>
               let c = uo_counters u; k = uo_cost u; pending = (uo_status u = UsageObservationPending)
               in first_error
                 [(succeeds (UsageObservationStatusFrom (uo_status u)), UsageRefused ''status''),
                  (succeeds (UsageCountersOf (uc_input c) (uc_cached_input c) (uc_cache_write_input c) (uc_output c)
                     (uc_reasoning_output c) (uc_total c)), UsageRefused ''counters''),
                  (succeeds (UsageCostFrom (co_state k) (AmountMicros k) (co_currency k) (co_origin k) (co_version k)),
                     UsageRefused ''cost''),
                  (pending \<longrightarrow> ud_scope (uo_descriptor u) \<noteq> UsageScopeSessionSnapshot, ErrInvalidUsageObservation),
                  (pending \<longrightarrow> allUsageValuesHaveState c UsageValueUnknown \<and> co_state k = UsageCostUnknown,
                     ErrInvalidUsageObservation),
                  (pending \<longrightarrow> uo_terminal_code u = None, ErrInvalidUsageObservation),
                  (pending \<longrightarrow> uo_finalized_at u = None, ErrInvalidUsageObservation),
                  (\<not> pending \<longrightarrow> Availability c \<noteq> UsageAvailabilityUnknown \<and> co_state k \<noteq> UsageCostUnknown,
                     ErrInvalidUsageObservation),
                  (\<not> pending \<longrightarrow> uo_terminal_code u \<noteq> None, ErrInvalidUsageObservation),
                  (\<not> pending \<longrightarrow> opt_all (\<lambda>code. succeeds (UsageTerminalCodeFrom code)) (uo_terminal_code u),
                     UsageRefused ''terminal code''),
                  (\<not> pending \<longrightarrow> (case uo_finalized_at u of
                                     None \<Rightarrow> False
                                   | Some f \<Rightarrow> \<not> is_zero f \<and> \<not> before f (ud_observed_at (uo_descriptor u))),
                     ErrInvalidUsageObservation)]))"

definition UsageObservationOf ::
    "UsageObservationDescriptor \<Rightarrow> string \<Rightarrow> UsageCounters \<Rightarrow> UsageCost \<Rightarrow> string option \<Rightarrow> gotime option
      \<Rightarrow> usage_error + UsageObservation" where
  "UsageObservationOf descriptor status counters cost terminalCode finalizedAt =
     (let u = \<lparr>uo_descriptor = descriptor, uo_status = status, uo_counters = counters, uo_cost = cost,
               uo_terminal_code = terminalCode, uo_finalized_at = finalizedAt\<rparr>
      in case usage_validate (Some u) of Inl e \<Rightarrow> Inl e | Inr _ \<Rightarrow> Inr u)"

definition NewPendingUsageObservation :: "UsageObservationDescriptor \<Rightarrow> usage_error + UsageObservation" where
  "NewPendingUsageObservation descriptor =
     UsageObservationOf descriptor UsageObservationPending UnknownUsageCounters UnknownUsageCost None None"

definition NewFinalizedUsageObservation ::
    "UsageObservationDescriptor \<Rightarrow> UsageCounters \<Rightarrow> UsageCost \<Rightarrow> string \<Rightarrow> gotime \<Rightarrow> usage_error + UsageObservation" where
  "NewFinalizedUsageObservation descriptor counters cost terminalCode finalizedAt =
     UsageObservationOf descriptor UsageObservationFinalized counters cost (Some terminalCode) (Some finalizedAt)"

datatype UsageObservationTransition = UsageObservationTransitionApplied | UsageObservationTransitionAlreadyApplied

text \<open>The zero value that \<open>Optional.Value\<close> returns beside \<open>false\<close>.\<close>

definition code_or_empty :: "string option \<Rightarrow> string" where
  "code_or_empty c = (case c of None \<Rightarrow> '''' | Some v \<Rightarrow> v)"

definition time_or_zero :: "gotime option \<Rightarrow> gotime" where
  "time_or_zero t = (case t of None \<Rightarrow> zero_time | Some v \<Rightarrow> v)"

definition Reconcile ::
    "UsageObservation option \<Rightarrow> UsageObservation option \<Rightarrow> usage_error + UsageObservationTransition \<times> UsageObservation" where
  "Reconcile receiver proposal =
     (case (receiver, proposal) of
        (Some u, Some p) \<Rightarrow>
          if \<not> equivalent (uo_descriptor u) (uo_descriptor p)
          then Inl (UsageConflict (ud_observation_id (uo_descriptor u)) ''identity metadata'')
          else if uo_status u = UsageObservationPending \<and> uo_status p = UsageObservationPending
          then Inr (UsageObservationTransitionAlreadyApplied, u)
          else if uo_status u = UsageObservationPending \<and> uo_status p = UsageObservationFinalized
          then Inr (UsageObservationTransitionApplied,
                    u\<lparr>uo_status := uo_status p, uo_counters := uo_counters p, uo_cost := uo_cost p,
                      uo_terminal_code := uo_terminal_code p, uo_finalized_at := uo_finalized_at p\<rparr>)
          else if uo_status u = UsageObservationFinalized
          then (if uo_status p = UsageObservationPending then Inr (UsageObservationTransitionAlreadyApplied, u)
                else if uo_counters u = uo_counters p \<and> uo_cost u = uo_cost p
                        \<and> code_or_empty (uo_terminal_code u) = code_or_empty (uo_terminal_code p)
                        \<and> time_equal (time_or_zero (uo_finalized_at u)) (time_or_zero (uo_finalized_at p))
                then Inr (UsageObservationTransitionAlreadyApplied, u)
                else Inl (UsageConflict (ud_observation_id (uo_descriptor u)) ''terminal accounting''))
          else Inl ErrInvalidUsageObservation
      | _ \<Rightarrow> Inl ErrInvalidUsageObservation)"

definition ValidateAccountingAlternative :: "UsageObservation option \<Rightarrow> UsageObservation option \<Rightarrow> usage_error + unit" where
  "ValidateAccountingAlternative receiver alternative =
     (case (receiver, alternative) of
        (Some u, Some a) \<Rightarrow>
          let current = uo_descriptor u; other = uo_descriptor a; id = ud_observation_id current
          in first_error
            [(ud_accounting current = UsageAccountingAdditive \<and> ud_accounting other = UsageAccountingExcluded,
                UsageConflict id ''accounting alternatives''),
             (equivalent (current\<lparr>ud_accounting := ud_accounting other\<rparr>) other \<and> uo_status u = uo_status a
                \<and> uo_counters u = uo_counters a \<and> uo_cost u = uo_cost a,
                UsageConflict id ''accounting alternative semantics''),
             (uo_terminal_code u = uo_terminal_code a
                \<and> (uo_finalized_at u = None \<longleftrightarrow> uo_finalized_at a = None)
                \<and> (uo_finalized_at u \<noteq> None
                     \<longrightarrow> time_equal (time_or_zero (uo_finalized_at u)) (time_or_zero (uo_finalized_at a))),
                UsageConflict id ''accounting alternative terminal semantics'')]
      | _ \<Rightarrow> Inl ErrInvalidUsageObservation)"

definition ValidateSnapshotSuccessor :: "UsageObservation option \<Rightarrow> UsageObservation option \<Rightarrow> usage_error + unit" where
  "ValidateSnapshotSuccessor receiver head =
     (case receiver of
        None \<Rightarrow> Inl ErrInvalidUsageObservation
      | Some u \<Rightarrow>
          let d = uo_descriptor u; id = ud_observation_id d
          in if ud_scope d \<noteq> UsageScopeSessionSnapshot \<or> uo_status u \<noteq> UsageObservationFinalized
             then Inl ErrInvalidUsageObservation
             else (case head of
                     None \<Rightarrow> if ud_supersedes d \<noteq> None then Inl (UsageConflict id ''missing snapshot predecessor'')
                             else Inr ()
                   | Some h \<Rightarrow>
                       let hd = uo_descriptor h
                       in first_error
                         [(ud_scope hd = UsageScopeSessionSnapshot \<and> ud_series hd = ud_series d
                             \<and> uo_status h = UsageObservationFinalized, UsageConflict id ''snapshot series''),
                          (ud_session_id hd = ud_session_id d \<and> ud_source hd = ud_source d,
                             UsageConflict id ''snapshot lineage''),
                          (ud_supersedes d = Some (ud_observation_id hd), UsageConflict id ''snapshot predecessor''),
                          (ud_revision hd < ud_revision d, UsageConflict id ''snapshot revision'')]))"

section \<open>Laws of the checks\<close>

lemma first_error_Inr [simp]: "first_error cs = Inr x \<longleftrightarrow> list_all fst cs"
  by (induction cs rule: first_error.induct) auto

lemma succeeds_Inr [simp]: "succeeds (Inr x)" "\<not> succeeds (Inl e)"
  by (simp_all add: succeeds_def)

lemma opt_all_simps [simp]: "opt_all P None" "opt_all P (Some x) \<longleftrightarrow> P x"
  by (simp_all add: opt_all_def)

lemma one_of_Inr [simp]: "one_of known v = Inr w \<longleftrightarrow> w = v \<and> v \<in> set known"
  by (auto simp: one_of_def)

lemma succeeds_one_of [simp]: "succeeds (one_of known v) \<longleftrightarrow> v \<in> set known"
  by (simp add: one_of_def)

lemma one_of_id: "succeeds (one_of known v) \<Longrightarrow> one_of known v = Inr v"
  by (simp add: one_of_def split: if_splits)

lemma terminal_code_id: "succeeds (UsageTerminalCodeFrom c) \<Longrightarrow> UsageTerminalCodeFrom c = Inr c"
  unfolding UsageTerminalCodeFrom_def by (rule one_of_id)

lemma descriptor_validate_Inr:
  "descriptor_validate d = Inr () \<longleftrightarrow>
     succeeds (UsageObservationIDFrom (ud_observation_id d)) \<and> succeeds (SessionIDFrom (ud_session_id d))
     \<and> succeeds (UsageSourceOf (us_host (ud_source d)) (us_name (ud_source d)) (us_version (ud_source d))
         (us_provider (ud_source d)) (us_model (ud_source d)))
     \<and> ud_scope d \<in> {UsageScopeCall, UsageScopeRun, UsageScopeSessionSnapshot}
     \<and> ud_accounting d \<in> {UsageAccountingAdditive, UsageAccountingLatestSnapshot, UsageAccountingExcluded}
     \<and> \<not> is_zero (ud_observed_at d)
     \<and> (if ud_scope d = UsageScopeSessionSnapshot
        then ud_run d = None \<and> ud_key d = None \<and> ud_accounting d = UsageAccountingLatestSnapshot
          \<and> ud_series d \<noteq> '''' \<and> 1 \<le> ud_revision d \<and> length (ud_series d) \<le> 512
        else ud_series d = '''' \<and> ud_revision d = 0 \<and> ud_supersedes d = None)
     \<and> opt_all (\<lambda>p. succeeds (UsageObservationIDFrom p) \<and> p \<noteq> ud_observation_id d) (ud_supersedes d)
     \<and> opt_all (\<lambda>r. RunIdentityFrom (ri_host r) (ri_run_id r) = Inr r \<and> ri_host r = us_host (ud_source d)) (ud_run d)
     \<and> opt_all (\<lambda>k. succeeds (UsageExclusivityKeyFrom k)
          \<and> (ud_accounting d = UsageAccountingAdditive \<or> ud_accounting d = UsageAccountingExcluded)) (ud_key d)"
proof -
  have split: "opt_all (\<lambda>x. P x \<and> Q x) y \<longleftrightarrow> opt_all P y \<and> opt_all Q y" for P Q and y :: "'z option"
    by (cases y) auto
  show ?thesis
    by (cases "ud_scope d = UsageScopeSessionSnapshot")
       (auto simp: descriptor_validate_def Let_def UsageScopeFrom_def UsageAccountingFrom_def split
          simp del: first_error.simps)
qed

lemma validated_Inr: "validated d = Inr d' \<longleftrightarrow> d' = d \<and> descriptor_validate d = Inr ()"
  by (auto simp: validated_def split: sum.splits)

lemma usage_validate_descriptor:
  "usage_validate (Some u) = Inr () \<Longrightarrow> descriptor_validate (uo_descriptor u) = Inr ()"
  by (auto simp: usage_validate_def split: sum.splits)

text \<open>
  An observation whose parts are as their own constructors return them (identities trimmed, costs and
  counters normalized) and that passes its validation. The accessible constructors produce no other.
\<close>

definition descriptor_canonical :: "UsageObservationDescriptor \<Rightarrow> bool" where
  "descriptor_canonical d \<longleftrightarrow>
     UsageObservationIDFrom (ud_observation_id d) = Inr (ud_observation_id d)
     \<and> SessionIDFrom (ud_session_id d) = Inr (ud_session_id d)
     \<and> UsageSourceOf (us_host (ud_source d)) (us_name (ud_source d)) (us_version (ud_source d))
         (us_provider (ud_source d)) (us_model (ud_source d)) = Inr (ud_source d)
     \<and> trim_space (ud_series d) = ud_series d
     \<and> opt_all (\<lambda>p. UsageObservationIDFrom p = Inr p) (ud_supersedes d)
     \<and> opt_all (\<lambda>k. UsageExclusivityKeyFrom k = Inr k) (ud_key d)
     \<and> (ud_scope d \<noteq> UsageScopeSessionSnapshot
          \<longrightarrow> ud_accounting d = UsageAccountingAdditive \<or> ud_accounting d = UsageAccountingExcluded)"

definition canonical :: "UsageObservation \<Rightarrow> bool" where
  "canonical u \<longleftrightarrow>
     usage_validate (Some u) = Inr () \<and> descriptor_canonical (uo_descriptor u)
     \<and> list_all (\<lambda>v. UsageValueFrom (uv_state v) (optionalUsageValue v) = Inr v) (counter_values (uo_counters u))
     \<and> UsageCostFrom (co_state (uo_cost u)) (AmountMicros (uo_cost u)) (co_currency (uo_cost u))
         (co_origin (uo_cost u)) (co_version (uo_cost u)) = Inr (uo_cost u)"

lemma validate_Inr:
  "usage_validate (Some u) = Inr () \<longleftrightarrow>
     descriptor_validate (uo_descriptor u) = Inr ()
     \<and> uo_status u \<in> {UsageObservationPending, UsageObservationFinalized}
     \<and> list_all value_validate (counter_values (uo_counters u))
     \<and> succeeds (UsageCostFrom (co_state (uo_cost u)) (AmountMicros (uo_cost u)) (co_currency (uo_cost u))
         (co_origin (uo_cost u)) (co_version (uo_cost u)))
     \<and> (if uo_status u = UsageObservationPending
        then ud_scope (uo_descriptor u) \<noteq> UsageScopeSessionSnapshot
          \<and> allUsageValuesHaveState (uo_counters u) UsageValueUnknown \<and> co_state (uo_cost u) = UsageCostUnknown
          \<and> uo_terminal_code u = None \<and> uo_finalized_at u = None
        else Availability (uo_counters u) \<noteq> UsageAvailabilityUnknown \<and> co_state (uo_cost u) \<noteq> UsageCostUnknown
          \<and> (\<exists>code. uo_terminal_code u = Some code \<and> succeeds (UsageTerminalCodeFrom code))
          \<and> (\<exists>f. uo_finalized_at u = Some f \<and> \<not> is_zero f \<and> \<not> before f (ud_observed_at (uo_descriptor u))))"
proof -
  let ?c = "uo_counters u"
  have counters: "succeeds (UsageCountersOf (uc_input ?c) (uc_cached_input ?c) (uc_cache_write_input ?c) (uc_output ?c)
      (uc_reasoning_output ?c) (uc_total ?c)) \<longleftrightarrow> list_all value_validate (counter_values ?c)"
    by (simp add: UsageCountersOf_def counter_values_def)
  have status: "succeeds (UsageObservationStatusFrom (uo_status u)) \<longleftrightarrow>
      uo_status u \<in> {UsageObservationPending, UsageObservationFinalized}"
    by (simp add: UsageObservationStatusFrom_def)
  show ?thesis
    by (cases "descriptor_validate (uo_descriptor u)"; cases "uo_terminal_code u"; cases "uo_finalized_at u")
       (auto simp: usage_validate_def Let_def counters status)
qed

section \<open>Reconciliation\<close>

lemma Reconcile_Inr:
  assumes "Reconcile (Some u) (Some p) = Inr (t, v)"
  shows "equivalent (uo_descriptor u) (uo_descriptor p)
    \<and> (t = UsageObservationTransitionAlreadyApplied \<and> v = u
       \<or> t = UsageObservationTransitionApplied \<and> uo_status u = UsageObservationPending
         \<and> uo_status p = UsageObservationFinalized \<and> v = p\<lparr>uo_descriptor := uo_descriptor u\<rparr>)"
  using assms by (auto simp: Reconcile_def split: if_splits)

lemma pending_not_finalized [simp]: "UsageObservationPending \<noteq> UsageObservationFinalized"
  "UsageObservationFinalized \<noteq> UsageObservationPending"
  by (simp_all add: usage_names)

text \<open>
  Reconciling two valid observations gives a valid one, if the open one carries no monotonic clock
  reading (an observation read back from the store never does) and the wall times of the proposal are
  ordered: its validation compares monotonic readings where both of its times carry one.
\<close>

definition ordered_walls :: "UsageObservation \<Rightarrow> bool" where
  "ordered_walls u \<longleftrightarrow> opt_all (\<lambda>f. wall (ud_observed_at (uo_descriptor u)) \<le> wall f) (uo_finalized_at u)"

lemma canonical_ordered:
  assumes "canonical u" "mono (ud_observed_at (uo_descriptor u)) = None"
  shows "ordered_walls u"
  using assms by (cases "uo_finalized_at u") (auto simp: ordered_walls_def canonical_def validate_Inr before_wall split: if_splits)

lemma Reconcile_canonical:
  assumes r: "Reconcile (Some u) (Some p) = Inr (t, v)" and c: "canonical u" "canonical p"
    and m: "mono (ud_observed_at (uo_descriptor u)) = None" "ordered_walls p"
  shows "canonical v"
proof (cases "t = UsageObservationTransitionApplied")
  case True
  have eq: "equivalent (uo_descriptor u) (uo_descriptor p)" and v: "v = p\<lparr>uo_descriptor := uo_descriptor u\<rparr>"
    using Reconcile_Inr [OF r] True by auto
  have wall: "wall (ud_observed_at (uo_descriptor u)) = wall (ud_observed_at (uo_descriptor p))"
    using eq m by (simp add: equivalent_def time_equal_def tcompare_def)
  have "\<not> before f (ud_observed_at (uo_descriptor u))" if "uo_finalized_at p = Some f" for f
    using m wall that by (simp add: before_wall ordered_walls_def)
  moreover have "ud_scope (uo_descriptor u) = ud_scope (uo_descriptor p)" using eq by (simp add: equivalent_def)
  moreover have "descriptor_validate (uo_descriptor u) = Inr ()"
    using c(1) by (auto simp: canonical_def dest: usage_validate_descriptor)
  ultimately have "usage_validate (Some v) = Inr ()"
    using c(2) v by (auto simp: canonical_def validate_Inr)
  then show ?thesis using c v by (simp add: canonical_def)
next
  case False
  then show ?thesis using Reconcile_Inr [OF r] c(1) by auto
qed

lemma Reconcile_finalized:
  "uo_status u = UsageObservationFinalized \<Longrightarrow> Reconcile (Some u) (Some p) = Inr (t, v) \<Longrightarrow>
    v = u \<and> t = UsageObservationTransitionAlreadyApplied"
  by (auto dest: Reconcile_Inr)

text \<open>Repeating a proposal that was applied is recognized as a replay.\<close>

lemma Reconcile_again:
  assumes "Reconcile (Some u) (Some p) = Inr (t, v)"
  shows "Reconcile (Some v) (Some p) = Inr (UsageObservationTransitionAlreadyApplied, v)"
proof -
  have "time_equal x x" for x by (simp add: time_equal_def tcompare_def split: option.splits)
  then show ?thesis
    using assms by (auto simp: Reconcile_def split: if_splits)
qed

lemma snapshot_successor_Inr:
  "ValidateSnapshotSuccessor (Some u) (Some h) = Inr () \<Longrightarrow>
    ud_series (uo_descriptor h) = ud_series (uo_descriptor u)
    \<and> ud_session_id (uo_descriptor h) = ud_session_id (uo_descriptor u)
    \<and> ud_source (uo_descriptor h) = ud_source (uo_descriptor u)
    \<and> ud_supersedes (uo_descriptor u) = Some (ud_observation_id (uo_descriptor h))
    \<and> ud_revision (uo_descriptor h) < ud_revision (uo_descriptor u)
    \<and> uo_status u = UsageObservationFinalized \<and> ud_scope (uo_descriptor u) = UsageScopeSessionSnapshot"
  by (auto simp: ValidateSnapshotSuccessor_def Let_def split: if_splits)

lemma snapshot_root_Inr:
  "ValidateSnapshotSuccessor (Some u) None = Inr () \<Longrightarrow>
    ud_supersedes (uo_descriptor u) = None \<and> uo_status u = UsageObservationFinalized
    \<and> ud_scope (uo_descriptor u) = UsageScopeSessionSnapshot"
  by (auto simp: ValidateSnapshotSuccessor_def Let_def split: if_splits)

end
