(* ===== verification/Go_Time.thy ===== *)
theory Go_Time
  imports Go_Format
begin

text \<open>
  \<open>time.Parse\<close> for RFC 3339 with nanoseconds, as the repositories use it on the text columns they
  wrote with \<open>formatTimestamp\<close> and \<open>formatMemoryValidityTimestamp\<close> (\<open>infrastructure/sqlite/database.go\<close>):
  the calendar and its inverse, the printers and the parser. The parser is \<open>parseRFC3339\<close> of the standard library; what
  the library tries after it (a one-digit hour, a comma before the fraction) is text no printer here writes.
\<close>

section \<open>The calendar\<close>

definition days_of_civil :: "int \<Rightarrow> int \<Rightarrow> int \<Rightarrow> int" where
  "days_of_civil y m d = days_before_year y + sum_list (take (nat (m - 1)) (month_lengths y)) + (d - 1)"

definition days_in :: "int \<Rightarrow> int \<Rightarrow> int" where
  "days_in y m = month_lengths y ! nat (m - 1)"

lemma year_span:
  fixes d :: int
  shows "days_before_year (year_of_days d) \<le> d"
    and "d - days_before_year (year_of_days d) < sum_list (month_lengths (year_of_days d))"
proof -
  define a r where "a = d div 146097" and "r = d mod 146097"
  define b where "b = min 3 (r div 36524)"
  define s where "s = r - b * 36524"
  define e u where "e = s div 1461" and "u = s mod 1461"
  define g where "g = min 3 (u div 365)"
  have d: "d = 146097 * a + r" "0 \<le> r" "r < 146097" by (simp_all add: a_def r_def)
  have b: "0 \<le> b" "b \<le> 3" "0 \<le> s" "s \<le> 36524" "b < 3 \<Longrightarrow> s < 36524"
    using d(2,3) unfolding b_def s_def by linarith+
  have e1: "s = 1461 * e + u" by (simp add: e_def u_def)
  have e2: "0 \<le> u" "u < 1461" by (simp_all add: u_def)
  have e3: "0 \<le> e" "e \<le> 24" using e1 e2 b(3,4) by linarith+
  note e = e1 e2 e3
  have g: "0 \<le> g" "g \<le> 3" "365 * g \<le> u" "u < 365 * g + 366" "g < 3 \<Longrightarrow> u < 365 * g + 365"
    using e2 unfolding g_def by linarith+
  have y: "year_of_days d = 400 * a + 100 * b + 4 * e + g + 1"
    by (simp add: year_of_days_def Let_def a_def r_def b_def s_def e_def u_def g_def)
  have q1: "(400 * a + 100 * b + 4 * e + g) div 4 = 100 * a + 25 * b + e"
    using g(1,2) by (intro int_div_pos_eq [where r = g]) (simp_all)
  have q2: "(400 * a + 100 * b + 4 * e + g) div 100 = 4 * a + b"
    using g(1,2) e3 by (intro int_div_pos_eq [where r = "4 * e + g"]) (simp_all)
  have q3: "(400 * a + 100 * b + 4 * e + g) div 400 = a"
    using g(1,2) e3 b(1,2) by (intro int_div_pos_eq [where r = "100 * b + 4 * e + g"]) (simp_all)
  note q = q1 q2 q3
  have before: "days_before_year (year_of_days d) = 146097 * a + 36524 * b + 1461 * e + 365 * g"
    by (simp add: y days_before_year_def Let_def q)
  show "days_before_year (year_of_days d) \<le> d"
    unfolding before using d(1) e(1) g(3) by (simp add: s_def)
  have len: "sum_list (month_lengths z) = (if leap_year z then 366 else 365)" for z
    by (simp add: month_lengths_def)
  have rest: "d - days_before_year (year_of_days d) = u - 365 * g"
    unfolding before using d(1) e(1) by (simp add: s_def)
  show "d - days_before_year (year_of_days d) < sum_list (month_lengths (year_of_days d))"
  proof (cases "g = 3 \<and> u = 1460")
    case True
    have "e < 24 \<or> b = 3" using b(2,5) e(1) True by linarith
    have y4: "year_of_days d = 400 * a + 100 * b + 4 * e + 4" using y True by simp
    have m4: "(400 * a + 100 * b + 4 * e + 4) mod 4 = 0"
      by (intro int_mod_pos_eq [where q = "100 * a + 25 * b + e + 1"]) simp_all
    have "leap_year (year_of_days d)"
    proof (cases "e < 24")
      case lt: True
      have "(400 * a + 100 * b + 4 * e + 4) mod 100 = 4 * e + 4"
        using lt e(4) by (intro int_mod_pos_eq [where q = "4 * a + b"]) simp_all
      then have "(400 * a + 100 * b + 4 * e + 4) mod 100 \<noteq> 0" using e(4) by linarith
      then show ?thesis unfolding leap_year_def y4 using m4 by blast
    next
      case False
      then have "e = 24" "b = 3" using \<open>e < 24 \<or> b = 3\<close> e(5) by simp_all
      then have "(400 * a + 100 * b + 4 * e + 4) mod 400 = 0"
        by (intro int_mod_pos_eq [where q = "a + 1"]) simp_all
      then show ?thesis unfolding leap_year_def y4 using m4 by blast
    qed
    then show ?thesis using rest True by (simp add: len)
  next
    case False
    then have "u - 365 * g < 365" using g e(3) by (cases "g = 3") auto
    then show ?thesis using rest by (simp add: len)
  qed
qed

lemma month_day_bounds:
  assumes "0 \<le> d" "d < sum_list ls" "list_all (\<lambda>l. 0 < l) ls" "month_day m ls d = (k, dd)"
  shows "m \<le> k \<and> k < m + int (length ls) \<and> 1 \<le> dd \<and> dd \<le> ls ! nat (k - m)
    \<and> sum_list (take (nat (k - m)) ls) + (dd - 1) = d"
  using assms
proof (induction ls arbitrary: m d)
  case (Cons l ls)
  show ?case
  proof (cases "d < l \<or> ls = []")
    case True
    then show ?thesis using Cons.prems by auto
  next
    case False
    have step: "m + 1 \<le> k \<and> k < m + 1 + int (length ls) \<and> 1 \<le> dd \<and> dd \<le> ls ! nat (k - (m + 1))
        \<and> sum_list (take (nat (k - (m + 1))) ls) + (dd - 1) = d - l"
      using Cons.prems False by (intro Cons.IH) auto
    then have "nat (k - m) = Suc (nat (k - (m + 1)))" by linarith
    with step show ?thesis by simp
  qed
qed simp

lemma civil_correct:
  assumes "civil_of_days d = (y, m, dd)"
  shows "y = year_of_days d" "1 \<le> m" "m \<le> 12" "1 \<le> dd" "dd \<le> days_in y m" "days_of_civil y m dd = d"
proof -
  let ?y = "year_of_days d"
  have p: "list_all (\<lambda>l. 0 < l) (month_lengths ?y)" "length (month_lengths ?y) = 12"
    by (simp_all add: month_lengths_def)
  have md: "month_day 1 (month_lengths ?y) (d - days_before_year ?y) = (m, dd)" and y: "y = ?y"
    using assms by (auto simp: civil_of_days_def Let_def split: prod.splits)
  note b = month_day_bounds [OF _ year_span(2) p(1) md] year_span(1) [of d]
  show "y = year_of_days d" by (rule y)
  show "1 \<le> m" "m \<le> 12" "1 \<le> dd" "dd \<le> days_in y m" "days_of_civil y m dd = d"
    using b p(2) by (auto simp: y days_in_def days_of_civil_def)
qed

lemma days_in_bounds: "1 \<le> m \<Longrightarrow> m \<le> 12 \<Longrightarrow> days_in y m \<le> 31"
proof -
  assume m: "1 \<le> m" "m \<le> 12"
  then have "nat (m - 1) < length (month_lengths y)" by (simp add: month_lengths_def)
  then have "days_in y m \<in> set (month_lengths y)" unfolding days_in_def by (rule nth_mem)
  then show ?thesis by (auto simp: month_lengths_def split: if_splits)
qed

section \<open>Printed digits\<close>

lemma parse_dec_append: "parse_dec (s @ t) = parse_dec s * 10 ^ length t + parse_dec t"
  by (induction t rule: rev_induct) (simp_all add: parse_dec_snoc flip: append_assoc, simp add: parse_dec_def)

lemma parse_dec_zeros [simp]: "parse_dec (replicate n CHR ''0'') = 0"
proof (induction n)
  case (Suc n)
  have "replicate (Suc n) CHR ''0'' = replicate n CHR ''0'' @ [CHR ''0'']" by (simp add: replicate_append_same)
  then show ?case using Suc by (simp only: parse_dec_snoc) simp
qed (simp add: parse_dec_def)

lemma parse_dec_cons_zero: "parse_dec (replicate n CHR ''0'' @ s) = parse_dec s"
  by (simp add: parse_dec_append)

lemma parse_dec_bound: "list_all is_digit s \<Longrightarrow> parse_dec s < 10 ^ length s"
proof (induction s rule: rev_induct)
  case (snoc c s)
  then have "ord c - 48 < 10" "parse_dec s + 1 \<le> 10 ^ length s" by (auto simp: char_in_def)
  then show ?case by (simp add: parse_dec_snoc)
qed (simp add: parse_dec_def)

lemma itoa_length: "n < 10 ^ k \<Longrightarrow> 0 < k \<Longrightarrow> length (itoa n) \<le> k"
proof (induction n arbitrary: k rule: itoa.induct)
  case (1 n)
  show ?case
  proof (cases "n < 10")
    case True
    then show ?thesis using 1 by (simp add: itoa.simps [of n])
  next
    case False
    then obtain j where j: "k = Suc j" "0 < j" using 1(2,3) by (cases k; cases "k - 1") auto
    then have "n div 10 < 10 ^ j" using 1(2) by (simp add: less_mult_imp_div_less mult.commute)
    then have "length (itoa (n div 10)) \<le> j" using 1(1) [OF False] j(2) by blast
    then show ?thesis using False j by (simp add: itoa.simps [of n])
  qed
qed

lemma pad_int_nonneg:
  assumes "0 \<le> x"
  shows "pad_int w x = replicate (w - length (itoa (nat x))) CHR ''0'' @ itoa (nat x)"
  using assms by (simp add: pad_int_def Let_def)

lemma pad_int_facts:
  assumes "0 \<le> x" "x < 10 ^ w" "0 < w"
  shows "length (pad_int w x) = w" "list_all is_digit (pad_int w x)" "parse_dec (pad_int w x) = nat x"
proof -
  have "nat x < 10 ^ w" using assms(1,2) by (simp add: nat_less_iff)
  then show "length (pad_int w x) = w" using itoa_length [of "nat x" w] assms by (simp add: pad_int_nonneg)
  show "list_all is_digit (pad_int w x)" "parse_dec (pad_int w x) = nat x"
    using assms itoa_digits [of "nat x"]
    by (simp_all add: pad_int_nonneg parse_dec_cons_zero list.pred_set ball_Un) (simp add: char_in_def)
qed

section \<open>The parser\<close>

text \<open>The next \<open>n\<close> characters as a number between two bounds, one expected character, and a fraction.\<close>

definition parse_number :: "nat \<Rightarrow> int \<Rightarrow> int \<Rightarrow> string \<Rightarrow> (int \<times> string) option" where
  "parse_number n lo hi s =
     (let digits = take n s; x = int (parse_dec digits)
      in if length digits = n \<and> list_all is_digit digits \<and> lo \<le> x \<and> x \<le> hi then Some (x, drop n s) else None)"

definition parse_char :: "char \<Rightarrow> string \<Rightarrow> string option" where
  "parse_char c s = (case s of [] \<Rightarrow> None | d # r \<Rightarrow> if d = c then Some r else None)"

definition parse_fraction :: "string \<Rightarrow> int \<times> string" where
  "parse_fraction s =
     (case s of
        dot # r \<Rightarrow>
          if dot = CHR ''.'' \<and> r \<noteq> [] \<and> is_digit (hd r)
          then let digits = take 9 (takeWhile is_digit r)
               in (int (parse_dec digits) * 10 ^ (9 - length digits), dropWhile is_digit r)
          else (0, s)
      | [] \<Rightarrow> (0, s))"

definition parse_zone :: "string \<Rightarrow> int option" where
  "parse_zone s =
     (if s = ''Z'' then Some 0
      else if length s \<noteq> 6 \<or> hd s \<noteq> CHR ''-'' \<and> hd s \<noteq> CHR ''+'' then None
      else case parse_number 2 0 23 (tl s) of None \<Rightarrow> None | Some (h, s1) \<Rightarrow>
           case parse_char CHR '':'' s1 of None \<Rightarrow> None | Some s2 \<Rightarrow>
           case parse_number 2 0 59 s2 of None \<Rightarrow> None | Some (m, _) \<Rightarrow>
           Some ((if hd s = CHR ''-'' then - 1 else 1) * (h * 3600 + m * 60)))"

definition parse_date :: "string \<Rightarrow> (int \<times> string) option" where
  "parse_date s =
     (case parse_number 4 0 9999 s of None \<Rightarrow> None | Some (y, s1) \<Rightarrow>
      case parse_char CHR ''-'' s1 of None \<Rightarrow> None | Some s2 \<Rightarrow>
      case parse_number 2 1 12 s2 of None \<Rightarrow> None | Some (m, s3) \<Rightarrow>
      case parse_char CHR ''-'' s3 of None \<Rightarrow> None | Some s4 \<Rightarrow>
      case parse_number 2 1 (days_in y m) s4 of None \<Rightarrow> None | Some (d, s5) \<Rightarrow>
      Some (days_of_civil y m d, s5))"

definition parse_clock :: "string \<Rightarrow> (int \<times> string) option" where
  "parse_clock s =
     (case parse_number 2 0 23 s of None \<Rightarrow> None | Some (h, s1) \<Rightarrow>
      case parse_char CHR '':'' s1 of None \<Rightarrow> None | Some s2 \<Rightarrow>
      case parse_number 2 0 59 s2 of None \<Rightarrow> None | Some (m, s3) \<Rightarrow>
      case parse_char CHR '':'' s3 of None \<Rightarrow> None | Some s4 \<Rightarrow>
      case parse_number 2 0 59 s4 of None \<Rightarrow> None | Some (sec, s5) \<Rightarrow>
      Some (h * 3600 + m * 60 + sec, s5))"

definition parse_rfc3339 :: "string \<Rightarrow> gotime option" where
  "parse_rfc3339 s =
     (case parse_date s of None \<Rightarrow> None | Some (days, s1) \<Rightarrow>
      case parse_char CHR ''T'' s1 of None \<Rightarrow> None | Some s2 \<Rightarrow>
      case parse_clock s2 of None \<Rightarrow> None | Some (secs, s3) \<Rightarrow>
      case parse_fraction s3 of (nanos, s4) \<Rightarrow>
      case parse_zone s4 of None \<Rightarrow> None | Some z \<Rightarrow>
      Some (GoTime ((days * 86400 + secs - z) * second + nanos) None z))"

lemma parse_number_pad:
  assumes "lo \<le> x" "x \<le> hi" "0 \<le> lo" "hi < 10 ^ n" "0 < n"
  shows "parse_number n lo hi (pad_int n x @ r) = Some (x, r)"
proof -
  have "0 \<le> x" "x < 10 ^ n" using assms by simp_all
  note f = pad_int_facts [OF this assms(5)]
  show ?thesis using f assms(1-3) by (simp add: parse_number_def Let_def)
qed

lemma parse_char_cons [simp]: "parse_char c (c # r) = Some r"
  by (simp add: parse_char_def)

section \<open>What is printed is read back\<close>

lemma strip_zeros_split: "\<exists>k. s = strip_zeros s @ replicate k CHR ''0''"
proof -
  have "takeWhile (\<lambda>c. c = CHR ''0'') (rev s) = replicate (length (takeWhile (\<lambda>c. c = CHR ''0'') (rev s))) CHR ''0''"
    by (rule replicate_eqI) (auto dest: set_takeWhileD)
  then have "rev (takeWhile (\<lambda>c. c = CHR ''0'') (rev s)) = replicate (length (takeWhile (\<lambda>c. c = CHR ''0'') (rev s))) CHR ''0''"
    by (metis rev_replicate)
  moreover have "s = rev (dropWhile (\<lambda>c. c = CHR ''0'') (rev s)) @ rev (takeWhile (\<lambda>c. c = CHR ''0'') (rev s))"
    by (metis rev_append rev_rev_ident takeWhile_dropWhile_id)
  ultimately show ?thesis unfolding strip_zeros_def by metis
qed

lemma parse_fraction_digits:
  assumes "f \<noteq> []" "list_all is_digit f" "length f \<le> 9" "r = [] \<or> \<not> is_digit (hd r)"
  shows "parse_fraction (CHR ''.'' # f @ r) = (int (parse_dec f) * 10 ^ (9 - length f), r)"
proof -
  have t: "takeWhile is_digit (f @ r) = f"
    using assms(2,4) by (cases r) (auto simp: list.pred_set takeWhile_append2 intro: takeWhile_append2)
  have d: "dropWhile is_digit (f @ r) = r"
    using t by (metis append_same_eq takeWhile_dropWhile_id append_eq_append_conv)
  have "is_digit (hd (f @ r))" using assms(1,2) by (cases f) simp_all
  then show ?thesis using assms(1,3) t d by (simp add: parse_fraction_def Let_def)
qed

lemma parse_fraction_stripped:
  assumes "0 < n" "n < 10 ^ 9" "r = [] \<or> \<not> is_digit (hd r)"
  shows "parse_fraction (CHR ''.'' # strip_zeros (pad_int 9 n) @ r) = (n, r)"
proof -
  note f = pad_int_facts [of n 9]
  obtain k where k: "pad_int 9 n = strip_zeros (pad_int 9 n) @ replicate k CHR ''0''" using strip_zeros_split by metis
  let ?f = "strip_zeros (pad_int 9 n)"
  have len: "length ?f + k = 9" using arg_cong [OF k, of length] f(1) assms by simp
  have dig: "list_all is_digit ?f" using f(2) assms k by (metis list_all_append less_imp_le zero_less_numeral)
  have val: "parse_dec ?f * 10 ^ k = nat n"
    using arg_cong [OF k, of parse_dec] f(3) assms by (simp add: parse_dec_append)
  then have "?f \<noteq> []" using assms(1) by (auto simp: parse_dec_def)
  moreover have "int (parse_dec ?f) * 10 ^ (9 - length ?f) = n"
  proof -
    have "int (parse_dec ?f * 10 ^ k) = n" using val assms(1) by simp
    moreover have "9 - length ?f = k" using len by simp
    ultimately show ?thesis by simp
  qed
  ultimately show ?thesis using parse_fraction_digits [OF _ dig _ assms(3)] len by simp
qed

lemma parse_date_printed:
  assumes "civil_of_days days = (y, m, d)" "0 \<le> y" "y \<le> 9999"
  shows "parse_date (pad_int 4 y @ CHR ''-'' # pad_int 2 m @ CHR ''-'' # pad_int 2 d @ r) = Some (days, r)"
proof -
  note c = civil_correct [OF assms(1)]
  have "days_in y m < 10 ^ 2" using days_in_bounds [OF c(2,3), of y] by simp
  then show ?thesis
    using assms(2,3) c by (simp add: parse_date_def parse_number_pad)
qed

lemma parse_date_year:
  assumes "y < 0 \<or> 9999 < y"
  shows "parse_date (pad_int 4 y @ CHR ''-'' # r) = None"
proof (cases "y < 0")
  case True
  then have "pad_int 4 y @ CHR ''-'' # r = CHR ''-'' # drop 1 (pad_int 4 y) @ CHR ''-'' # r"
    by (simp add: pad_int_def Let_def)
  moreover have "parse_number 4 0 9999 (CHR ''-'' # u) = None" for u
    by (simp add: parse_number_def Let_def char_in_def numeral_eq_Suc)
  ultimately show ?thesis by (simp only: parse_date_def) simp
next
  case False
  then have y: "0 \<le> y" "9999 < y" using assms by simp_all
  let ?s = "itoa (nat y)"
  have "\<not> length ?s \<le> 4"
  proof
    assume "length ?s \<le> 4"
    have "parse_dec ?s < 10 ^ length ?s" by (rule parse_dec_bound) (rule itoa_digits)
    also have "\<dots> \<le> 10 ^ 4" using \<open>length ?s \<le> 4\<close> by (intro power_increasing) simp_all
    finally show False using y by simp
  qed
  then obtain c u where s: "?s = take 4 ?s @ c # u"
    by (metis append_take_drop_id drop_eq_Nil neq_Nil_conv)
  then have c: "is_digit c" using itoa_no_char by (metis in_set_conv_decomp)
  then have "c \<noteq> CHR ''-''" by (auto simp: char_in_def)
  moreover have "pad_int 4 y = ?s" using y \<open>\<not> length ?s \<le> 4\<close> by (simp add: pad_int_nonneg)
  moreover have "drop 4 (?s @ CHR ''-'' # r) = c # u @ CHR ''-'' # r"
    using \<open>\<not> length ?s \<le> 4\<close> s by (metis append_Cons append_take_drop_id drop_append linorder_not_le same_append_eq less_imp_le drop0 diff_is_0_eq)
  ultimately show ?thesis
    by (simp add: parse_date_def parse_number_def Let_def parse_char_def del: drop_append)
qed

lemma parse_clock_printed:
  assumes "0 \<le> t" "t < 86400"
  shows "parse_clock (pad_int 2 (t div 3600) @ CHR '':'' # pad_int 2 (t div 60 mod 60) @ CHR '':'' # pad_int 2 (t mod 60) @ r)
           = Some (t, r)"
proof -
  have "t div 3600 \<le> 23" "0 \<le> t div 3600" using assms by linarith+
  moreover have "t div 60 mod 60 \<le> 59" "t mod 60 \<le> 59" using assms by simp_all
  moreover have "t div 3600 * 3600 + t div 60 mod 60 * 60 + t mod 60 = t"
  proof -
    have "t div 3600 = t div 60 div 60" by (simp add: zdiv_zmult2_eq)
    then show ?thesis using mult_div_mod_eq [of 60 "t div 60"] mult_div_mod_eq [of 60 t] by linarith
  qed
  ultimately show ?thesis by (simp add: parse_clock_def parse_number_pad)
qed

text \<open>
  The text of a time in UTC is read back as that instant, without its monotonic reading, exactly when
  its year has four digits; the text of any other year is refused.
\<close>

lemma parse_rfc3339nano:
  "parse_rfc3339 (rfc3339nano (utc t)) =
     (if 0 \<le> year (utc t) \<and> year (utc t) \<le> 9999 then Some (GoTime (wall t) None 0) else None)"
proof -
  define secs nanos where "secs = wall t div second" and "nanos = wall t mod second"
  define days day where "days = secs div 86400" and "day = secs mod 86400"
  obtain y m d where c: "civil_of_days days = (y, m, d)" by (metis prod_cases3)
  define clock where "clock = (\<lambda>r. pad_int 2 (day div 3600) @ CHR '':'' # pad_int 2 (day div 60 mod 60) @ CHR '':'' # pad_int 2 (day mod 60) @ r)"
  define tail where "tail = (if nanos = 0 then ''Z'' else CHR ''.'' # strip_zeros (pad_int 9 nanos) @ ''Z'')"
  have printed: "rfc3339nano (utc t) = pad_int 4 y @ CHR ''-'' # pad_int 2 m @ CHR ''-'' # pad_int 2 d @ CHR ''T'' # clock tail"
    using c by (simp add: rfc3339nano_def Let_def secs_def nanos_def days_def day_def clock_def tail_def zone_suffix_def)
  have "year (utc t) = year_of_days days"
    using zdiv_zmult2_eq [of 86400 "wall t" second] by (simp add: year_def days_def secs_def)
  then have y: "year (utc t) = y" using civil_correct(1) [OF c] by simp
  have bounds: "0 \<le> day" "day < 86400" "0 \<le> nanos" "nanos < second" by (simp_all add: day_def nanos_def)
  have whole: "(days * 86400 + day) * second + nanos = wall t"
    by (simp add: days_def day_def secs_def nanos_def)
  have frac: "parse_fraction tail = (nanos, ''Z'')"
  proof (cases "nanos = 0")
    case True
    then show ?thesis by (simp add: tail_def parse_fraction_def)
  next
    case False
    then show ?thesis using bounds by (simp add: tail_def parse_fraction_stripped char_in_def)
  qed
  show ?thesis
  proof (cases "0 \<le> y \<and> y \<le> 9999")
    case True
    then show ?thesis
      using c frac whole bounds
      by (simp add: parse_rfc3339_def printed y parse_date_printed clock_def parse_clock_printed parse_zone_def)
  next
    case False
    then have "parse_date (pad_int 4 y @ CHR ''-'' # u) = None" for u using parse_date_year by auto
    then show ?thesis using False by (simp add: parse_rfc3339_def printed y)
  qed
qed

end
