(* ===== verification/Usage_Store.thy ===== *)
theory Usage_Store
  imports Usage Go_Time
begin

text \<open>
  The usage repository (\<open>infrastructure/sqlite/usage_observation_datasource.go\<close>) over the table
  \<open>usage_observations\<close>: the row of an observation, its restoration, the head query of a snapshot series, the
  exclusivity claim and the record transactions. The constraints of the schema that relate a new row to
  the stored ones (migrations 27 and 30) guard the insertion; constraints on a single row repeat the
  validation of the aggregate. A timestamp column holds its RFC 3339 text, which is parsed
  when the row is restored: the monotonic reading and the location are lost, and a year without four digits is
  written but not read back. The run attribution, a table of its own, is a pair of columns.
\<close>

section \<open>Rows\<close>

definition formatTimestamp :: "gotime \<Rightarrow> string" where
  "formatTimestamp t = rfc3339nano (utc t)"

text \<open>\<open>time.Parse(time.RFC3339Nano, column)\<close>.\<close>

definition parseTimestamp :: "string \<Rightarrow> usage_error + gotime" where
  "parseTimestamp column =
     (case parse_rfc3339 column of None \<Rightarrow> Inl (UsageRefused ''timestamp'') | Some t \<Rightarrow> Inr t)"

definition nullableString :: "string \<Rightarrow> string option" where
  "nullableString v = (if v = '''' then None else Some v)"

definition null_string :: "string option \<Rightarrow> string" where
  "null_string c = (case c of None \<Rightarrow> '''' | Some v \<Rightarrow> v)"

record FinalColumns =
  fc_status :: string
  fc_finalized_at :: "string option"
  fc_terminal_code :: "string option"
  fc_values :: "(string \<times> int option) list"
  fc_cost_state :: string
  fc_cost_amount :: "int option"
  fc_cost_currency :: "string option"
  fc_cost_origin :: "string option"
  fc_price_table_version :: "string option"

record UsageRow =
  ur_observation_id :: string
  ur_session_id :: string
  ur_host :: string
  ur_source_name :: string
  ur_source_version :: string
  ur_provider :: "string option"
  ur_model :: "string option"
  ur_scope :: string
  ur_accounting :: string
  ur_exclusivity_key :: "string option"
  ur_observed_at :: string
  ur_final :: FinalColumns
  ur_snapshot_series :: "string option"
  ur_snapshot_revision :: "int option"
  ur_supersedes_id :: "string option"
  ur_run_host :: "string option"
  ur_run_id :: "string option"

definition usageFinalizationArgs :: "UsageObservation \<Rightarrow> FinalColumns" where
  "usageFinalizationArgs u =
     (let cost = uo_cost u; amount = AmountMicros cost
      in \<lparr>fc_status = uo_status u, fc_finalized_at = map_option formatTimestamp (uo_finalized_at u),
          fc_terminal_code = uo_terminal_code u,
          fc_values = map (\<lambda>v. (uv_state v, optionalUsageValue v)) (counter_values (uo_counters u)),
          fc_cost_state = co_state cost, fc_cost_amount = amount,
          fc_cost_currency = (if amount = None then None else Some (co_currency cost)),
          fc_cost_origin = (if amount = None then None else Some (co_origin cost)),
          fc_price_table_version = (if amount = None then None else nullableString (co_version cost))\<rparr>)"

definition usageObservationArgs :: "UsageObservation \<Rightarrow> UsageRow" where
  "usageObservationArgs u =
     (let d = uo_descriptor u; s = ud_source d
      in \<lparr>ur_observation_id = ud_observation_id d, ur_session_id = ud_session_id d, ur_host = us_host s,
          ur_source_name = us_name s, ur_source_version = us_version s, ur_provider = nullableString (us_provider s),
          ur_model = nullableString (us_model s), ur_scope = ud_scope d, ur_accounting = ud_accounting d,
          ur_exclusivity_key = ud_key d, ur_observed_at = formatTimestamp (ud_observed_at d),
          ur_final = usageFinalizationArgs u, ur_snapshot_series = nullableString (ud_series d),
          ur_snapshot_revision = (if ud_revision d > 0 then Some (ud_revision d) else None),
          ur_supersedes_id = ud_supersedes d,
          ur_run_host = map_option ri_host (ud_run d), ur_run_id = map_option ri_run_id (ud_run d)\<rparr>)"

section \<open>Restoring a row\<close>

fun restore_values :: "(string \<times> int option) list \<Rightarrow> usage_error + UsageValue list" where
  "restore_values [] = Inr []"
| "restore_values ((state, numeric) # vs) =
     andThen (UsageValueFrom state numeric) (\<lambda>v. andThen (restore_values vs) (\<lambda>rest. Inr (v # rest)))"

definition restoreUsageCounters :: "(string \<times> int option) list \<Rightarrow> usage_error + UsageCounters" where
  "restoreUsageCounters columns =
     (if length columns \<noteq> 6 then Inl (UsageRefused ''counter columns'')
      else andThen (restore_values columns)
        (\<lambda>r. UsageCountersOf (r ! 0) (r ! 1) (r ! 2) (r ! 3) (r ! 4) (r ! 5)))"

definition restore_descriptor ::
    "UsageRow \<Rightarrow> string \<Rightarrow> string \<Rightarrow> UsageSource \<Rightarrow> gotime \<Rightarrow> string \<Rightarrow> string
      \<Rightarrow> usage_error + UsageObservationDescriptor" where
  "restore_descriptor r oid sid source observedTime scope accounting =
     (if scope = UsageScopeSessionSnapshot
      then andThen (case ur_supersedes_id r of
                      None \<Rightarrow> Inr None
                    | Some p \<Rightarrow> andThen (UsageObservationIDFrom p) (\<lambda>v. Inr (Some v)))
             (\<lambda>predecessor. case ur_snapshot_revision r of
                None \<Rightarrow> Inl (UsageRefused ''snapshot revision is missing'')
              | Some revision \<Rightarrow>
                  NewUsageSnapshotDescriptor oid sid source (null_string (ur_snapshot_series r)) revision predecessor
                    observedTime)
      else (case (ur_run_host r, ur_run_id r) of
              (Some host, Some run) \<Rightarrow>
                andThen (RunIdentityFrom host run)
                  (NewUsageObservationDescriptorWithRunIdentity oid sid source scope accounting observedTime)
            | (None, None) \<Rightarrow> NewUsageObservationDescriptor oid sid source scope accounting observedTime
            | _ \<Rightarrow> Inl (UsageRefused ''run attribution is incomplete'')))"

definition scanUsageObservation :: "UsageRow \<Rightarrow> usage_error + UsageObservation" where
  "scanUsageObservation r =
     (let f = ur_final r
      in andThen (UsageObservationIDFrom (ur_observation_id r)) (\<lambda>oid.
         andThen (map_sum (\<lambda>_. UsageRefused ''session oid'') (\<lambda>s. s) (SessionIDFrom (ur_session_id r))) (\<lambda>sid.
         andThen (UsageSourceOf (ur_host r) (ur_source_name r) (ur_source_version r)
                    (null_string (ur_provider r)) (null_string (ur_model r))) (\<lambda>source.
         andThen (parseTimestamp (ur_observed_at r)) (\<lambda>observedTime.
         andThen (UsageScopeFrom (ur_scope r)) (\<lambda>scope.
         andThen (UsageAccountingFrom (ur_accounting r)) (\<lambda>accounting.
         andThen (restore_descriptor r oid sid source observedTime scope accounting) (\<lambda>d0.
         andThen (case ur_exclusivity_key r of
                    None \<Rightarrow> Inr d0
                  | Some key \<Rightarrow> andThen (UsageExclusivityKeyFrom key) (WithExclusivityKey d0)) (\<lambda>d.
         andThen (restoreUsageCounters (fc_values f)) (\<lambda>counters.
         andThen (UsageCostFrom (fc_cost_state f) (fc_cost_amount f) (null_string (fc_cost_currency f))
                    (null_string (fc_cost_origin f)) (null_string (fc_price_table_version f))) (\<lambda>cost.
         andThen (UsageObservationStatusFrom (fc_status f)) (\<lambda>status.
         andThen (case fc_terminal_code f of
                    None \<Rightarrow> Inr None
                  | Some c \<Rightarrow> andThen (UsageTerminalCodeFrom c) (\<lambda>code. Inr (Some code))) (\<lambda>code.
         andThen (case fc_finalized_at f of
                    None \<Rightarrow> Inr None
                  | Some c \<Rightarrow> andThen (parseTimestamp c) (\<lambda>v. Inr (Some v))) (\<lambda>finalizedAt.
         UsageObservationOf d status counters cost code finalizedAt))))))))))))))"

section \<open>The table\<close>

definition findUsageObservation :: "UsageRow list \<Rightarrow> string \<Rightarrow> usage_error + UsageObservation option" where
  "findUsageObservation rows oid =
     (case find (\<lambda>r. ur_observation_id r = oid) rows of
        None \<Rightarrow> Inr None
      | Some r \<Rightarrow> andThen (scanUsageObservation r) (\<lambda>u. Inr (Some u)))"

definition findUsageSnapshotHead :: "UsageRow list \<Rightarrow> string \<Rightarrow> usage_error + UsageObservation option" where
  "findUsageSnapshotHead rows series =
     (let heads = filter (\<lambda>r. ur_snapshot_series r = Some series
                            \<and> \<not> list_ex (\<lambda>s. ur_supersedes_id s = Some (ur_observation_id r)) rows) rows
      in if heads = [] then Inr None
         else if length heads \<noteq> 1 then Inl ErrConflictingUsageObservation
         else andThen (UsageObservationIDFrom (ur_observation_id (hd heads))) (\<lambda>oid.
              andThen (findUsageObservation rows oid) (\<lambda>head.
                case head of None \<Rightarrow> Inl ErrConflictingUsageObservation | Some h \<Rightarrow> Inr (Some h))))"

definition findUsageExclusivityWinner :: "UsageRow list \<Rightarrow> string \<Rightarrow> usage_error + string option" where
  "findUsageExclusivityWinner rows key =
     (case find (\<lambda>r. ur_exclusivity_key r = Some key \<and> ur_accounting r = UsageAccountingAdditive) rows of
        None \<Rightarrow> Inr None
      | Some r \<Rightarrow> andThen (UsageObservationIDFrom (ur_observation_id r)) (\<lambda>oid. Inr (Some oid)))"

text \<open>What the schema demands of a new row beside the stored ones.\<close>

definition row_admitted :: "UsageRow list \<Rightarrow> UsageRow \<Rightarrow> bool" where
  "row_admitted rows r \<longleftrightarrow>
     list_all (\<lambda>s. ur_observation_id s \<noteq> ur_observation_id r) rows
     \<and> (ur_snapshot_series r \<noteq> None \<and> ur_snapshot_revision r \<noteq> None
          \<longrightarrow> list_all (\<lambda>s. ur_snapshot_series s \<noteq> ur_snapshot_series r
                          \<or> ur_snapshot_revision s \<noteq> ur_snapshot_revision r) rows)
     \<and> (ur_supersedes_id r \<noteq> None
          \<longrightarrow> list_all (\<lambda>s. ur_supersedes_id s \<noteq> ur_supersedes_id r) rows
            \<and> list_ex (\<lambda>s. Some (ur_observation_id s) = ur_supersedes_id r
                         \<and> ur_snapshot_series s = ur_snapshot_series r \<and> ur_session_id s = ur_session_id r
                         \<and> ur_host s = ur_host r \<and> ur_source_name s = ur_source_name r
                         \<and> ur_source_version s = ur_source_version r \<and> ur_provider s = ur_provider r
                         \<and> ur_model s = ur_model r \<and> ur_scope s = UsageScopeSessionSnapshot
                         \<and> fc_status (ur_final s) = UsageObservationFinalized
                         \<and> (case (ur_snapshot_revision s, ur_snapshot_revision r) of
                              (Some a, Some b) \<Rightarrow> a < b | _ \<Rightarrow> False)) rows)
     \<and> (ur_scope r = UsageScopeSessionSnapshot \<and> ur_supersedes_id r = None
          \<longrightarrow> list_all (\<lambda>s. \<not> (ur_scope s = UsageScopeSessionSnapshot \<and> ur_supersedes_id s = None
                              \<and> ur_snapshot_series s = ur_snapshot_series r)) rows)
     \<and> (ur_exclusivity_key r \<noteq> None \<and> ur_accounting r = UsageAccountingAdditive
          \<longrightarrow> list_all (\<lambda>s. \<not> (ur_accounting s = UsageAccountingAdditive
                              \<and> ur_exclusivity_key s = ur_exclusivity_key r)) rows)"

definition insertUsageObservation :: "UsageRow list \<Rightarrow> UsageObservation \<Rightarrow> usage_error + UsageRow list" where
  "insertUsageObservation rows u =
     (if row_admitted rows (usageObservationArgs u) then Inr (rows @ [usageObservationArgs u])
      else Inl (UsageRefused ''constraint''))"

definition updateFinalizedUsageObservation :: "UsageRow list \<Rightarrow> UsageObservation \<Rightarrow> usage_error + UsageRow list" where
  "updateFinalizedUsageObservation rows u =
     (let target = (\<lambda>r. ur_observation_id r = ud_observation_id (uo_descriptor u)
                        \<and> fc_status (ur_final r) = UsageObservationPending)
      in if length (filter target rows) \<noteq> 1 then Inl ErrConflictingUsageObservation
         else Inr (map (\<lambda>r. if target r then r\<lparr>ur_final := usageFinalizationArgs u\<rparr> else r) rows))"

definition attachLegacyUsageExclusivityKey :: "UsageRow list \<Rightarrow> string \<Rightarrow> string \<Rightarrow> UsageRow list" where
  "attachLegacyUsageExclusivityKey rows oid key =
     map (\<lambda>r. if ur_observation_id r = oid \<and> ur_exclusivity_key r = None \<and> ur_accounting r = UsageAccountingExcluded
              then r\<lparr>ur_exclusivity_key := Some key\<rparr> else r) rows"

section \<open>Transactions\<close>

definition recordUsageObservation ::
    "UsageRow list \<Rightarrow> UsageObservation \<Rightarrow> usage_error + UsageObservationTransition \<times> UsageRow list" where
  "recordUsageObservation rows u =
     andThen (findUsageObservation rows (ud_observation_id (uo_descriptor u))) (\<lambda>current.
       case current of
         Some existing \<Rightarrow>
           andThen (Reconcile (Some existing) (Some u)) (\<lambda>(transition, v).
             if transition = UsageObservationTransitionApplied
             then andThen (updateFinalizedUsageObservation rows v) (\<lambda>rows'. Inr (transition, rows'))
             else Inr (transition, rows))
       | None \<Rightarrow>
           andThen (if ud_scope (uo_descriptor u) = UsageScopeSessionSnapshot
                    then andThen (findUsageSnapshotHead rows (ud_series (uo_descriptor u)))
                           (ValidateSnapshotSuccessor (Some u))
                    else Inr ()) (\<lambda>_.
           andThen (insertUsageObservation rows u) (\<lambda>rows'. Inr (UsageObservationTransitionApplied, rows'))))"

text \<open>A failed operation is rolled back: the table stays as it was.\<close>

definition recordTransaction ::
    "UsageRow list \<Rightarrow> (UsageRow list \<Rightarrow> usage_error + UsageObservationTransition \<times> UsageRow list)
      \<Rightarrow> (usage_error + UsageObservationTransition) \<times> UsageRow list" where
  "recordTransaction rows operation =
     (case operation rows of Inl e \<Rightarrow> (Inl e, rows) | Inr (transition, rows') \<Rightarrow> (Inr transition, rows'))"

definition Record ::
    "UsageRow list \<Rightarrow> UsageObservation option \<Rightarrow> (usage_error + UsageObservationTransition) \<times> UsageRow list" where
  "Record rows observation =
     (case observation of
        None \<Rightarrow> (Inl ErrInvalidUsageObservation, rows)
      | Some u \<Rightarrow> recordTransaction rows (\<lambda>rs. recordUsageObservation rs u))"

definition select_alternative ::
    "UsageRow list \<Rightarrow> string \<Rightarrow> UsageObservation \<Rightarrow> UsageObservation \<Rightarrow> usage_error + UsageObservation" where
  "select_alternative rows key additive excluded =
     andThen (findUsageExclusivityWinner rows key) (\<lambda>winner.
       case winner of
         Some winnerID \<Rightarrow> Inr (if winnerID \<noteq> ud_observation_id (uo_descriptor additive) then excluded else additive)
       | None \<Rightarrow>
           andThen (findUsageObservation rows (ud_observation_id (uo_descriptor additive))) (\<lambda>existing.
             case existing of
               Some current \<Rightarrow>
                 Inr (if ud_accounting (uo_descriptor current) = UsageAccountingExcluded then excluded else additive)
             | None \<Rightarrow> Inr additive))"

definition RecordExclusive ::
    "UsageRow list \<Rightarrow> string \<Rightarrow> UsageObservation option \<Rightarrow> UsageObservation option
      \<Rightarrow> (usage_error + UsageObservationTransition) \<times> UsageRow list" where
  "RecordExclusive rows key additive excluded =
     (case UsageExclusivityKeyFrom key of
        Inl e \<Rightarrow> (Inl e, rows)
      | Inr validatedKey \<Rightarrow>
          (case (ValidateAccountingAlternative additive excluded, additive, excluded) of
             (Inr _, Some a, Some x) \<Rightarrow>
               if ud_key (uo_descriptor a) \<noteq> Some validatedKey then (Inl (UsageRefused ''requested key''), rows)
               else recordTransaction rows (\<lambda>rs.
                 andThen (select_alternative rs validatedKey a x) (\<lambda>selected.
                   recordUsageObservation
                     (attachLegacyUsageExclusivityKey rs (ud_observation_id (uo_descriptor selected)) validatedKey)
                     selected))
           | (Inl e, _, _) \<Rightarrow> (Inl e, rows)
           | _ \<Rightarrow> (Inl ErrInvalidUsageObservation, rows)))"

definition FindByID :: "UsageRow list \<Rightarrow> string \<Rightarrow> usage_error + UsageObservation option" where
  "FindByID rows observationID =
     andThen (UsageObservationIDFrom observationID) (\<lambda>_. findUsageObservation rows observationID)"

definition FindSnapshotHead :: "UsageRow list \<Rightarrow> string \<Rightarrow> usage_error + UsageObservation option" where
  "FindSnapshotHead rows series =
     (if trim_space series = '''' \<or> 512 < length (trim_space series) then Inl (UsageRefused ''snapshot series'')
      else findUsageSnapshotHead rows (trim_space series))"

section \<open>Rows restore\<close>

text \<open>What is left of a time after its column: the instant, in UTC, provided that the year has four digits.\<close>

definition stored_time :: "gotime \<Rightarrow> gotime" where
  "stored_time t = GoTime (wall t) None 0"

definition four_digit_year :: "gotime \<Rightarrow> bool" where
  "four_digit_year t \<longleftrightarrow> 0 \<le> year (utc t) \<and> year (utc t) \<le> 9999"

definition in_years :: "UsageObservation \<Rightarrow> bool" where
  "in_years u \<longleftrightarrow> four_digit_year (ud_observed_at (uo_descriptor u)) \<and> opt_all four_digit_year (uo_finalized_at u)"

lemma year_stored [simp]: "four_digit_year (stored_time t) = four_digit_year t"
  by (simp add: four_digit_year_def stored_time_def utc_def year_def)

lemma format_stored [simp]: "formatTimestamp (stored_time t) = formatTimestamp t"
  by (simp add: formatTimestamp_def stored_time_def rfc3339nano_def)

lemma parse_format:
  "parseTimestamp (formatTimestamp t) = (if four_digit_year t then Inr (stored_time t) else Inl (UsageRefused ''timestamp''))"
  by (simp add: parseTimestamp_def formatTimestamp_def parse_rfc3339nano four_digit_year_def stored_time_def)

definition stored_descriptor :: "UsageObservationDescriptor \<Rightarrow> UsageObservationDescriptor" where
  "stored_descriptor d = d\<lparr>ud_observed_at := stored_time (ud_observed_at d)\<rparr>"

definition stored :: "UsageObservation \<Rightarrow> UsageObservation" where
  "stored u = u\<lparr>uo_descriptor := stored_descriptor (uo_descriptor u),
                uo_finalized_at := map_option stored_time (uo_finalized_at u)\<rparr>"

definition recordable :: "UsageObservation \<Rightarrow> bool" where
  "recordable u \<longleftrightarrow> canonical u \<and> ordered_walls u"

definition storable :: "UsageObservation \<Rightarrow> bool" where
  "storable u \<longleftrightarrow> canonical u \<and> stored u = u"

lemma null_nullable [simp]: "null_string (nullableString v) = v" "null_string None = ''''" "null_string (Some v) = v"
  by (simp_all add: nullableString_def null_string_def)

lemma stored_time_simps [simp]:
  "wall (stored_time t) = wall t" "mono (stored_time t) = None" "is_zero (stored_time t) = is_zero t"
  "stored_time (stored_time t) = stored_time t"
  by (simp_all add: stored_time_def is_zero_def)

lemma stored_simps [simp]:
  "uo_status (stored u) = uo_status u" "uo_counters (stored u) = uo_counters u" "uo_cost (stored u) = uo_cost u"
  "uo_terminal_code (stored u) = uo_terminal_code u"
  "uo_finalized_at (stored u) = map_option stored_time (uo_finalized_at u)"
  "uo_descriptor (stored u) = stored_descriptor (uo_descriptor u)"
  by (simp_all add: stored_def)

lemma stored_descriptor_simps [simp]:
  "ud_observation_id (stored_descriptor d) = ud_observation_id d" "ud_session_id (stored_descriptor d) = ud_session_id d"
  "ud_source (stored_descriptor d) = ud_source d" "ud_scope (stored_descriptor d) = ud_scope d"
  "ud_accounting (stored_descriptor d) = ud_accounting d" "ud_series (stored_descriptor d) = ud_series d"
  "ud_revision (stored_descriptor d) = ud_revision d" "ud_supersedes (stored_descriptor d) = ud_supersedes d"
  "ud_run (stored_descriptor d) = ud_run d" "ud_key (stored_descriptor d) = ud_key d"
  "ud_observed_at (stored_descriptor d) = stored_time (ud_observed_at d)"
  by (simp_all add: stored_descriptor_def)

lemma stored_stored [simp]: "stored (stored u) = stored u"
  by (simp add: stored_def stored_descriptor_def option.map_comp comp_def)

lemma row_stored [simp]: "usageObservationArgs (stored u) = usageObservationArgs u"
  "usageFinalizationArgs (stored u) = usageFinalizationArgs u"
  by (simp_all add: usageObservationArgs_def usageFinalizationArgs_def Let_def option.map_comp comp_def)

lemma in_years_stored [simp]: "in_years (stored u) = in_years u"
  by (cases "uo_finalized_at u") (simp_all add: in_years_def)

lemma year_format: "formatTimestamp a = formatTimestamp b \<Longrightarrow> four_digit_year a = four_digit_year b"
  using parse_format [of a] parse_format [of b] by (auto split: if_splits)

text \<open>Whether an observation can be read back is visible in its row.\<close>

lemma in_years_row:
  assumes "usageObservationArgs u = usageObservationArgs v"
  shows "in_years u = in_years v"
proof -
  have observed: "formatTimestamp (ud_observed_at (uo_descriptor u)) = formatTimestamp (ud_observed_at (uo_descriptor v))"
    using arg_cong [OF assms, of ur_observed_at] by (simp add: usageObservationArgs_def Let_def)
  have final: "map_option formatTimestamp (uo_finalized_at u) = map_option formatTimestamp (uo_finalized_at v)"
    using arg_cong [OF assms, of "\<lambda>r. fc_finalized_at (ur_final r)"]
    by (simp add: usageObservationArgs_def usageFinalizationArgs_def Let_def)
  have "opt_all four_digit_year (uo_finalized_at u) = opt_all four_digit_year (uo_finalized_at v)"
  proof (cases "uo_finalized_at u")
    case None
    then have "uo_finalized_at v = None" using final by simp
    then show ?thesis using None by simp
  next
    case (Some a)
    then obtain b where "uo_finalized_at v = Some b" "formatTimestamp a = formatTimestamp b"
      using final by (cases "uo_finalized_at v") auto
    then show ?thesis using Some year_format [of a b] by simp
  qed
  with year_format [OF observed] show ?thesis by (simp add: in_years_def)
qed

lemma recordable_storable:
  assumes "recordable u" shows "storable (stored u)"
proof -
  have m: "ordered_walls u" and c: "canonical u" using assms by (auto simp: recordable_def)
  have "\<not> before (stored_time f) (stored_time (ud_observed_at (uo_descriptor u)))" if "uo_finalized_at u = Some f" for f
    using m that by (simp add: before_wall ordered_walls_def)
  moreover have "descriptor_validate (stored_descriptor d) = descriptor_validate d" for d
    by (simp add: descriptor_validate_def)
  ultimately have "usage_validate (Some (stored u)) = Inr ()"
    using c by (auto simp: canonical_def validate_Inr)
  then show ?thesis using c by (simp add: storable_def canonical_def descriptor_canonical_def)
qed

lemma restore_values_map:
  "list_all (\<lambda>v. UsageValueFrom (uv_state v) (optionalUsageValue v) = Inr v) vs \<Longrightarrow>
    restore_values (map (\<lambda>v. (uv_state v, optionalUsageValue v)) vs) = Inr vs"
  by (induction vs) auto

lemma restore_counters:
  assumes "list_all (\<lambda>v. UsageValueFrom (uv_state v) (optionalUsageValue v) = Inr v) (counter_values c)"
  shows "restoreUsageCounters (map (\<lambda>v. (uv_state v, optionalUsageValue v)) (counter_values c)) = Inr c"
proof -
  have "value_validate v" if "v \<in> set (counter_values c)" for v
    using assms that by (auto simp: value_validate_def list_all_iff)
  then have "list_all value_validate (counter_values c)" by (simp add: list_all_iff)
  then show ?thesis
    using restore_values_map [OF assms]
    by (simp add: restoreUsageCounters_def UsageCountersOf_def usageCountersOfUnchecked_def counter_values_def)
qed

lemma restore_cost:
  assumes "UsageCostFrom (co_state k) (AmountMicros k) (co_currency k) (co_origin k) (co_version k) = Inr k"
  shows "UsageCostFrom (co_state k) (AmountMicros k)
     (null_string (if AmountMicros k = None then None else Some (co_currency k)))
     (null_string (if AmountMicros k = None then None else Some (co_origin k)))
     (null_string (if AmountMicros k = None then None else nullableString (co_version k))) = Inr k"
proof (cases "AmountMicros k")
  case None
  then have "co_currency k = '''' \<and> co_origin k = '''' \<and> co_version k = ''''"
    using assms by (auto simp: UsageCostFrom_def requireEmptyUsageCost_def split: if_splits)
  then show ?thesis using assms None by simp
next
  case (Some amount)
  then show ?thesis using assms by simp
qed

lemma descriptor_validate_parts:
  assumes "descriptor_validate d = Inr ()"
  shows "descriptor_validate (d\<lparr>ud_key := None\<rparr>) = Inr ()" "descriptor_validate (d\<lparr>ud_run := None, ud_key := None\<rparr>) = Inr ()"
  using assms by (simp_all add: descriptor_validate_Inr)

lemma restore_descriptor_row:
  assumes c: "descriptor_canonical (uo_descriptor u)" and v: "descriptor_validate (uo_descriptor u) = Inr ()"
  shows "restore_descriptor (usageObservationArgs u) (ud_observation_id (uo_descriptor u))
     (ud_session_id (uo_descriptor u)) (ud_source (uo_descriptor u)) (ud_observed_at (uo_descriptor u))
     (ud_scope (uo_descriptor u)) (ud_accounting (uo_descriptor u)) = Inr ((uo_descriptor u)\<lparr>ud_key := None\<rparr>)"
proof -
  define d where "d = uo_descriptor u"
  note parts = descriptor_validate_parts [OF v, folded d_def]
  show ?thesis
  proof (cases "ud_scope d = UsageScopeSessionSnapshot")
    case True
    have facts: "ud_accounting d = UsageAccountingLatestSnapshot" "1 \<le> ud_revision d" "ud_run d = None" "ud_key d = None"
      using v True by (simp_all add: descriptor_validate_Inr d_def [symmetric])
    have "d = \<lparr>ud_observation_id = ud_observation_id d, ud_session_id = ud_session_id d, ud_source = ud_source d,
        ud_scope = UsageScopeSessionSnapshot, ud_accounting = UsageAccountingLatestSnapshot,
        ud_observed_at = ud_observed_at d, ud_series = trim_space (ud_series d), ud_revision = ud_revision d,
        ud_supersedes = ud_supersedes d, ud_run = None, ud_key = None\<rparr>"
      using c True facts by (cases d) (simp add: descriptor_canonical_def d_def [symmetric])
    then have new: "NewUsageSnapshotDescriptor (ud_observation_id d) (ud_session_id d) (ud_source d) (ud_series d)
        (ud_revision d) (ud_supersedes d) (ud_observed_at d) = Inr d"
      using v by (simp add: NewUsageSnapshotDescriptor_def validated_Inr d_def [symmetric])
    have "d\<lparr>ud_key := None\<rparr> = d" using facts(4) by (cases d) simp
    then show ?thesis
      using c True facts new
      by (cases "ud_supersedes d")
         (simp_all add: restore_descriptor_def usageObservationArgs_def Let_def descriptor_canonical_def d_def [symmetric])
  next
    case False
    let ?base = "d\<lparr>ud_run := None, ud_key := None\<rparr>"
    have facts: "ud_scope d = UsageScopeCall \<or> ud_scope d = UsageScopeRun"
      "ud_accounting d = UsageAccountingAdditive \<or> ud_accounting d = UsageAccountingExcluded"
      "ud_series d = ''''" "ud_revision d = 0" "ud_supersedes d = None"
      using c v False by (auto simp: descriptor_validate_Inr descriptor_canonical_def d_def [symmetric])
    have "?base = \<lparr>ud_observation_id = ud_observation_id d, ud_session_id = ud_session_id d, ud_source = ud_source d,
        ud_scope = ud_scope d, ud_accounting = ud_accounting d, ud_observed_at = ud_observed_at d, ud_series = '''',
        ud_revision = 0, ud_supersedes = None, ud_run = None, ud_key = None\<rparr>"
      using facts by (cases d) simp
    then have new: "NewUsageObservationDescriptor (ud_observation_id d) (ud_session_id d) (ud_source d) (ud_scope d)
        (ud_accounting d) (ud_observed_at d) = Inr ?base"
      using facts(1,2) parts(2) by (auto simp: NewUsageObservationDescriptor_def validated_Inr)
    show ?thesis
    proof (cases "ud_run d")
      case None
      then have "?base = d\<lparr>ud_key := None\<rparr>" by (cases d) simp
      then show ?thesis
        using None False new
        by (simp add: restore_descriptor_def usageObservationArgs_def Let_def d_def [symmetric])
    next
      case (Some r)
      have "opt_all (\<lambda>r. RunIdentityFrom (ri_host r) (ri_run_id r) = Inr r \<and> ri_host r = us_host (ud_source d)) (ud_run d)"
        using v [unfolded descriptor_validate_Inr, folded d_def] by blast
      then have run: "RunIdentityFrom (ri_host r) (ri_run_id r) = Inr r" unfolding Some opt_all_simps by (rule conjunct1)
      have "?base\<lparr>ud_run := Some r\<rparr> = d\<lparr>ud_key := None\<rparr>" using Some by (cases d) simp
      then have "NewUsageObservationDescriptorWithRunIdentity (ud_observation_id d) (ud_session_id d) (ud_source d)
          (ud_scope d) (ud_accounting d) (ud_observed_at d) r = Inr (d\<lparr>ud_key := None\<rparr>)"
        using new parts(1) by (simp add: NewUsageObservationDescriptorWithRunIdentity_def validated_Inr)
      then show ?thesis
        using Some False run
        by (simp add: restore_descriptor_def usageObservationArgs_def Let_def d_def [symmetric])
    qed
  qed
qed

lemma scan_row:
  assumes "storable u"
  shows "scanUsageObservation (usageObservationArgs u)
    = (if in_years u then Inr u else Inl (UsageRefused ''timestamp''))"
proof -
  let ?d = "uo_descriptor u"
  have c: "canonical u" and t: "stored u = u" using assms by (auto simp: storable_def)
  have dc: "descriptor_canonical ?d" and val: "usage_validate (Some u) = Inr ()" using c by (auto simp: canonical_def)
  have dv: "descriptor_validate ?d = Inr ()" using val by (rule usage_validate_descriptor)
  have td: "stored_descriptor ?d = ?d" "map_option stored_time (uo_finalized_at u) = uo_finalized_at u"
    using stored_simps(5,6) [of u] t by simp_all
  note d = restore_descriptor_row [OF dc dv]
  have time: "stored_time (ud_observed_at ?d) = ud_observed_at ?d"
    using td(1) stored_descriptor_simps(11) [of ?d] by simp
  have key: "(case ud_key ?d of None \<Rightarrow> Inr (?d\<lparr>ud_key := None\<rparr>)
      | Some key \<Rightarrow> andThen (UsageExclusivityKeyFrom key) (WithExclusivityKey (?d\<lparr>ud_key := None\<rparr>))) = Inr ?d"
  proof (cases "ud_key ?d")
    case None
    then show ?thesis by (cases ?d) simp
  next
    case (Some k)
    then have eq: "?d\<lparr>ud_key := Some k\<rparr> = ?d" by (cases ?d) simp
    have "validated (?d\<lparr>ud_key := Some k\<rparr>) = Inr ?d" unfolding eq using dv by (simp add: validated_Inr)
    then show ?thesis
      using Some dc by (simp add: WithExclusivityKey_def descriptor_canonical_def)
  qed
  have st: "UsageScopeFrom (ud_scope ?d) = Inr (ud_scope ?d)" "UsageAccountingFrom (ud_accounting ?d) = Inr (ud_accounting ?d)"
    using dv by (simp_all add: descriptor_validate_Inr UsageScopeFrom_def UsageAccountingFrom_def)
  have status: "UsageObservationStatusFrom (uo_status u) = Inr (uo_status u)"
    using val by (auto simp: validate_Inr UsageObservationStatusFrom_def)
  have code: "(case uo_terminal_code u of None \<Rightarrow> Inr None
      | Some c \<Rightarrow> andThen (UsageTerminalCodeFrom c) (\<lambda>code. Inr (Some code))) = Inr (uo_terminal_code u)"
    using val by (cases "uo_terminal_code u") (simp_all add: validate_Inr terminal_code_id split: if_splits)
  have cost: "UsageCostFrom (fc_cost_state (usageFinalizationArgs u)) (fc_cost_amount (usageFinalizationArgs u))
      (null_string (fc_cost_currency (usageFinalizationArgs u))) (null_string (fc_cost_origin (usageFinalizationArgs u)))
      (null_string (fc_price_table_version (usageFinalizationArgs u))) = Inr (uo_cost u)"
    using restore_cost [of "uo_cost u"] c by (simp add: usageFinalizationArgs_def Let_def canonical_def)
  have counters: "restoreUsageCounters (fc_values (usageFinalizationArgs u)) = Inr (uo_counters u)"
    using restore_counters [of "uo_counters u"] c by (simp add: usageFinalizationArgs_def Let_def canonical_def)
  have final: "fc_status (usageFinalizationArgs u) = uo_status u" "fc_terminal_code (usageFinalizationArgs u) = uo_terminal_code u"
    "fc_finalized_at (usageFinalizationArgs u) = map_option formatTimestamp (uo_finalized_at u)"
    by (simp_all add: usageFinalizationArgs_def Let_def)
  have row: "ur_observation_id (usageObservationArgs u) = ud_observation_id ?d"
    "ur_session_id (usageObservationArgs u) = ud_session_id ?d" "ur_host (usageObservationArgs u) = us_host (ud_source ?d)"
    "ur_source_name (usageObservationArgs u) = us_name (ud_source ?d)"
    "ur_source_version (usageObservationArgs u) = us_version (ud_source ?d)"
    "null_string (ur_provider (usageObservationArgs u)) = us_provider (ud_source ?d)"
    "null_string (ur_model (usageObservationArgs u)) = us_model (ud_source ?d)"
    "ur_scope (usageObservationArgs u) = ud_scope ?d" "ur_accounting (usageObservationArgs u) = ud_accounting ?d"
    "ur_exclusivity_key (usageObservationArgs u) = ud_key ?d"
    "ur_final (usageObservationArgs u) = usageFinalizationArgs u"
    "ur_observed_at (usageObservationArgs u) = formatTimestamp (ud_observed_at ?d)"
    by (simp_all add: usageObservationArgs_def Let_def)
  have at: "(case map_option formatTimestamp (uo_finalized_at u) of None \<Rightarrow> Inr None
      | Some c \<Rightarrow> andThen (parseTimestamp c) (\<lambda>v. Inr (Some v)))
      = (if opt_all four_digit_year (uo_finalized_at u) then Inr (uo_finalized_at u) else Inl (UsageRefused ''timestamp''))"
    using td(2) by (cases "uo_finalized_at u") (simp_all add: parse_format)
  have ids: "UsageObservationIDFrom (ud_observation_id ?d) = Inr (ud_observation_id ?d)"
    "SessionIDFrom (ud_session_id ?d) = Inr (ud_session_id ?d)"
    "UsageSourceOf (us_host (ud_source ?d)) (us_name (ud_source ?d)) (us_version (ud_source ?d))
       (us_provider (ud_source ?d)) (us_model (ud_source ?d)) = Inr (ud_source ?d)"
    using dc by (simp_all add: descriptor_canonical_def)
  have "UsageObservationOf ?d (uo_status u) (uo_counters u) (uo_cost u) (uo_terminal_code u) (uo_finalized_at u) = Inr u"
    using val by (cases u) (simp add: UsageObservationOf_def)
  then show ?thesis
    by (simp add: scanUsageObservation_def Let_def row ids st d key counters cost status code final at
        parse_format time in_years_def del: case_map_option)
qed

section \<open>The ledger that the table stores\<close>

text \<open>
  The abstract repository: the list of observations in the order of their first record. A known identity
  reconciles, a snapshot must extend the latest of its series, and an additive claim on a key is granted once.
\<close>

abbreviation obs_id :: "UsageObservation \<Rightarrow> string" where "obs_id u \<equiv> ud_observation_id (uo_descriptor u)"
abbreviation obs_series :: "UsageObservation \<Rightarrow> string" where "obs_series u \<equiv> ud_series (uo_descriptor u)"
abbreviation obs_key :: "UsageObservation \<Rightarrow> string option" where "obs_key u \<equiv> ud_key (uo_descriptor u)"
abbreviation is_snapshot :: "UsageObservation \<Rightarrow> bool" where
  "is_snapshot u \<equiv> ud_scope (uo_descriptor u) = UsageScopeSessionSnapshot"
abbreviation is_additive :: "UsageObservation \<Rightarrow> bool" where
  "is_additive u \<equiv> ud_accounting (uo_descriptor u) = UsageAccountingAdditive"

definition series_of :: "string \<Rightarrow> UsageObservation list \<Rightarrow> UsageObservation list" where
  "series_of s us = filter (\<lambda>u. obs_series u = s) us"

definition latest :: "UsageObservation list \<Rightarrow> string \<Rightarrow> UsageObservation option" where
  "latest us s = (if series_of s us = [] then None else Some (last (series_of s us)))"

definition claimed :: "UsageObservation list \<Rightarrow> UsageObservation \<Rightarrow> bool" where
  "claimed us u \<longleftrightarrow> is_additive u \<and> obs_key u \<noteq> None \<and> list_ex (\<lambda>v. is_additive v \<and> obs_key v = obs_key u) us"

text \<open>Reading an observation back: refused when one of its times is in a year without four digits.\<close>

definition restored :: "UsageObservation option \<Rightarrow> usage_error + UsageObservation option" where
  "restored v =
     (case v of
        None \<Rightarrow> Inr None
      | Some u \<Rightarrow> if in_years u then Inr (Some u) else Inl (UsageRefused ''timestamp''))"

lemma restored_simps [simp]:
  "restored None = Inr None" "in_years u \<Longrightarrow> restored (Some u) = Inr (Some u)"
  "\<not> in_years u \<Longrightarrow> restored (Some u) = Inl (UsageRefused ''timestamp'')"
  by (simp_all add: restored_def)

definition ledger_replace :: "UsageObservation \<Rightarrow> UsageObservation list \<Rightarrow> UsageObservation list" where
  "ledger_replace w us = map (\<lambda>x. if obs_id x = obs_id w then stored w else x) us"

definition ledger_record ::
    "UsageObservation list \<Rightarrow> UsageObservation \<Rightarrow> usage_error + UsageObservationTransition \<times> UsageObservation list" where
  "ledger_record us u =
     andThen (restored (find (\<lambda>v. obs_id v = obs_id u) us)) (\<lambda>current.
       case current of
         Some v \<Rightarrow> andThen (Reconcile (Some v) (Some u)) (\<lambda>(t, w). Inr (t, ledger_replace w us))
       | None \<Rightarrow>
           andThen (if is_snapshot u
                    then andThen (restored (latest us (obs_series u))) (ValidateSnapshotSuccessor (Some u))
                    else Inr ())
             (\<lambda>_. if claimed us u then Inl (UsageRefused ''constraint'')
                  else Inr (UsageObservationTransitionApplied, us @ [stored u])))"

fun chain :: "UsageObservation option \<Rightarrow> UsageObservation list \<Rightarrow> bool" where
  "chain h [] \<longleftrightarrow> True"
| "chain h (u # us) \<longleftrightarrow> ValidateSnapshotSuccessor (Some u) h = Inr () \<and> chain (Some u) us"

definition one_claim :: "UsageObservation list \<Rightarrow> bool" where
  "one_claim us \<longleftrightarrow>
     (\<forall>u v. u \<in> set us \<longrightarrow> v \<in> set us \<longrightarrow> is_additive u \<longrightarrow> is_additive v \<longrightarrow> obs_key u \<noteq> None
        \<longrightarrow> obs_key u = obs_key v \<longrightarrow> u = v)"

definition ledger_wf :: "UsageObservation list \<Rightarrow> bool" where
  "ledger_wf us \<longleftrightarrow> list_all storable us \<and> distinct (map obs_id us) \<and> (\<forall>s. s \<noteq> '''' \<longrightarrow> chain None (series_of s us))
     \<and> one_claim us"

lemma storable_facts:
  assumes "storable u"
  shows "stored u = u" "canonical u" "obs_series u \<noteq> '''' \<longleftrightarrow> is_snapshot u"
    "ud_supersedes (uo_descriptor u) \<noteq> None \<Longrightarrow> is_snapshot u"
    "uo_status u = UsageObservationPending \<Longrightarrow> \<not> is_snapshot u"
    "is_snapshot u \<Longrightarrow> 0 < ud_revision (uo_descriptor u)"
    "mono (ud_observed_at (uo_descriptor u)) = None"
    "UsageObservationIDFrom (obs_id u) = Inr (obs_id u)"
    "is_snapshot u \<Longrightarrow> obs_key u = None"
proof -
  have c: "canonical u" and t: "stored u = u" using assms by (auto simp: storable_def)
  then show "canonical u" "stored u = u" by auto
  have v: "usage_validate (Some u) = Inr ()" using c by (simp add: canonical_def)
  then have d: "descriptor_validate (uo_descriptor u) = Inr ()" by (rule usage_validate_descriptor)
  show "obs_series u \<noteq> '''' \<longleftrightarrow> is_snapshot u" "ud_supersedes (uo_descriptor u) \<noteq> None \<Longrightarrow> is_snapshot u"
    "is_snapshot u \<Longrightarrow> 0 < ud_revision (uo_descriptor u)" "is_snapshot u \<Longrightarrow> obs_key u = None"
    using d by (auto simp: descriptor_validate_Inr split: if_splits)
  show "uo_status u = UsageObservationPending \<Longrightarrow> \<not> is_snapshot u" using v by (auto simp: validate_Inr)
  show "mono (ud_observed_at (uo_descriptor u)) = None"
    by (metis t stored_simps(6) stored_descriptor_simps(11) stored_time_simps(2))
  show "UsageObservationIDFrom (obs_id u) = Inr (obs_id u)"
    using c by (simp add: canonical_def descriptor_canonical_def)
qed

lemma row_columns [simp]:
  "ur_observation_id (usageObservationArgs u) = obs_id u" "ur_scope (usageObservationArgs u) = ud_scope (uo_descriptor u)"
  "ur_accounting (usageObservationArgs u) = ud_accounting (uo_descriptor u)"
  "ur_exclusivity_key (usageObservationArgs u) = obs_key u"
  "ur_supersedes_id (usageObservationArgs u) = ud_supersedes (uo_descriptor u)"
  "ur_final (usageObservationArgs u) = usageFinalizationArgs u"
  "fc_status (usageFinalizationArgs u) = uo_status u"
  "ur_session_id (usageObservationArgs u) = ud_session_id (uo_descriptor u)"
  "ur_host (usageObservationArgs u) = us_host (ud_source (uo_descriptor u))"
  "ur_source_name (usageObservationArgs u) = us_name (ud_source (uo_descriptor u))"
  "ur_source_version (usageObservationArgs u) = us_version (ud_source (uo_descriptor u))"
  "ur_provider (usageObservationArgs u) = nullableString (us_provider (ud_source (uo_descriptor u)))"
  "ur_model (usageObservationArgs u) = nullableString (us_model (ud_source (uo_descriptor u)))"
  "ur_snapshot_series (usageObservationArgs u) = nullableString (obs_series u)"
  "ur_snapshot_revision (usageObservationArgs u)
     = (if ud_revision (uo_descriptor u) > 0 then Some (ud_revision (uo_descriptor u)) else None)"
  by (simp_all add: usageObservationArgs_def usageFinalizationArgs_def Let_def)

lemma nullable_eq [simp]: "nullableString v = Some s \<longleftrightarrow> v = s \<and> s \<noteq> ''''" "nullableString v = None \<longleftrightarrow> v = ''''"
  "nullableString v = nullableString w \<longleftrightarrow> v = w"
  by (auto simp: nullableString_def)

lemma find_map_rows:
  "find P (map usageObservationArgs us) = map_option usageObservationArgs (find (\<lambda>u. P (usageObservationArgs u)) us)"
  by (induction us) auto

lemma find_SomeD: "find P xs = Some x \<Longrightarrow> x \<in> set xs \<and> P x"
  by (auto simp: find_Some_iff)

lemma find_stored:
  assumes "list_all storable us"
  shows "findUsageObservation (map usageObservationArgs us) i = restored (find (\<lambda>u. obs_id u = i) us)"
proof (cases "find (\<lambda>u. obs_id u = i) us")
  case None
  then show ?thesis by (simp add: findUsageObservation_def find_map_rows)
next
  case (Some u)
  then have "storable u" using find_SomeD [OF Some] assms by (auto simp: list_all_iff)
  then show ?thesis using Some by (simp add: findUsageObservation_def find_map_rows scan_row)
qed

section \<open>Chains of snapshots\<close>

lemma chain_snoc:
  "chain h (us @ [u]) \<longleftrightarrow> chain h us \<and> ValidateSnapshotSuccessor (Some u) (if us = [] then h else Some (last us)) = Inr ()"
  by (induction us arbitrary: h) auto

lemma chain_links:
  "chain h us \<Longrightarrow> Suc i < length us \<Longrightarrow> ud_supersedes (uo_descriptor (us ! Suc i)) = Some (obs_id (us ! i))
    \<and> ud_revision (uo_descriptor (us ! i)) < ud_revision (uo_descriptor (us ! Suc i))"
proof (induction us arbitrary: h i)
  case (Cons u us)
  show ?case
  proof (cases i)
    case 0
    then obtain v vs where vs: "us = v # vs" using Cons.prems(2) by (cases us) auto
    then have "ValidateSnapshotSuccessor (Some v) (Some u) = Inr ()" using Cons.prems(1) by simp
    then show ?thesis using 0 vs snapshot_successor_Inr [of v u] by simp
  next
    case (Suc j)
    then show ?thesis using Cons.IH [of "Some u" j] Cons.prems by simp
  qed
qed simp

lemma chain_root: "chain None (u # us) \<Longrightarrow> ud_supersedes (uo_descriptor u) = None"
  using snapshot_root_Inr by auto

lemma chain_revisions:
  assumes "chain h us" "i < j" "j < length us"
  shows "ud_revision (uo_descriptor (us ! i)) < ud_revision (uo_descriptor (us ! j))"
  using assms(2,3)
proof (induction j)
  case (Suc j)
  then show ?case using chain_links [OF assms(1), of j] by (cases "i = j") (auto simp: less_Suc_eq)
qed simp

text \<open>In a well-formed ledger an observation is superseded exactly when it is not the last of its series.\<close>

lemma superseder_follows:
  assumes wf: "ledger_wf us" and w: "w \<in> set us" "ud_supersedes (uo_descriptor w) = Some (obs_id u)" and u: "u \<in> set us"
  shows "\<exists>i. Suc i < length (series_of (obs_series u) us) \<and> series_of (obs_series u) us ! i = u"
proof -
  have st: "storable w" using wf w(1) by (auto simp: ledger_wf_def list_all_iff)
  have snap: "is_snapshot w" using storable_facts(4) [OF st] w(2) by simp
  then have ne: "obs_series w \<noteq> ''''" using storable_facts(3) [OF st] by simp
  let ?vs = "series_of (obs_series w) us"
  have chain: "chain None ?vs" using wf ne by (simp add: ledger_wf_def)
  have "w \<in> set ?vs" using w(1) by (simp add: series_of_def)
  then obtain j where j: "j < length ?vs" "?vs ! j = w" by (auto simp: in_set_conv_nth)
  obtain i where i: "j = Suc i"
  proof (cases j)
    case 0
    then obtain r where "?vs = w # r" using j by (cases ?vs) auto
    then show ?thesis using chain chain_root [of w r] w(2) by simp
  qed
  have "obs_id (?vs ! i) = obs_id u" using chain_links [OF chain, of i] i j w(2) by simp
  moreover have p: "?vs ! i \<in> set ?vs" using i j by simp
  moreover have "?vs ! i \<in> set us" using p by (simp add: series_of_def)
  ultimately have eq: "?vs ! i = u"
    using wf u by (metis ledger_wf_def distinct_map inj_onD)
  moreover have "obs_series (?vs ! i) = obs_series w" using p by (simp add: series_of_def)
  ultimately show ?thesis using i j by (intro exI [of _ i]) simp
qed

lemma filter_only_last:
  "vs \<noteq> [] \<Longrightarrow> (\<And>u. u \<in> set (butlast vs) \<Longrightarrow> \<not> P u) \<Longrightarrow> P (last vs) \<Longrightarrow> filter P vs = [last vs]"
  by (induction vs rule: rev_induct) (auto simp: filter_empty_conv)

lemma heads_of_series:
  assumes wf: "ledger_wf us" and s: "s \<noteq> ''''"
  shows "filter (\<lambda>u. obs_series u = s \<and> \<not> list_ex (\<lambda>w. ud_supersedes (uo_descriptor w) = Some (obs_id u)) us) us
     = (case latest us s of None \<Rightarrow> [] | Some u \<Rightarrow> [u])"
proof -
  define vs where "vs = series_of s us"
  define latest_open where
    "latest_open = (\<lambda>u. \<not> list_ex (\<lambda>w. ud_supersedes (uo_descriptor w) = Some (obs_id u)) us)"
  have chain: "chain None vs" using wf s by (simp add: ledger_wf_def vs_def)
  have dist: "distinct vs" using wf by (simp add: ledger_wf_def series_of_def distinct_map vs_def)
  have sub: "u \<in> set us" "obs_series u = s" if "u \<in> set vs" for u using that by (auto simp: series_of_def vs_def)
  have "filter (\<lambda>u. obs_series u = s \<and> latest_open u) us = filter latest_open vs"
    by (simp add: series_of_def conj_commute vs_def)
  also have "\<dots> = (if vs = [] then [] else [last vs])"
  proof (cases "vs = []")
    case False
    have mem: "last vs \<in> set vs" using False by (rule last_in_set)
    have last: "latest_open (last vs)"
    proof (rule ccontr)
      assume "\<not> latest_open (last vs)"
      then obtain w where w: "w \<in> set us" "ud_supersedes (uo_descriptor w) = Some (obs_id (last vs))"
        by (auto simp: list_ex_iff latest_open_def)
      obtain i where "Suc i < length vs" "vs ! i = last vs"
        using superseder_follows [OF wf w sub(1) [OF mem]] sub(2) [OF mem] by (auto simp: vs_def [symmetric])
      then show False using dist False by (simp add: last_conv_nth nth_eq_iff_index_eq)
    qed
    have "\<not> latest_open u" if mem_u: "u \<in> set (butlast vs)" for u
    proof -
      obtain i where "i < length (butlast vs)" "butlast vs ! i = u" using mem_u by (auto simp: in_set_conv_nth)
      then have i: "Suc i < length vs" "vs ! i = u" by (auto simp: nth_butlast)
      then have "ud_supersedes (uo_descriptor (vs ! Suc i)) = Some (obs_id u)" using chain_links [OF chain i(1)] by simp
      then show ?thesis using sub(1) [OF nth_mem [OF i(1)]] by (auto simp: list_ex_iff latest_open_def)
    qed
    then show ?thesis using filter_only_last [of vs latest_open] last False by simp
  qed simp
  finally show ?thesis by (simp add: latest_def vs_def latest_open_def)
qed

lemma latest_in: "latest us s = Some h \<Longrightarrow> h \<in> set us \<and> obs_series h = s"
  using last_in_set [of "series_of s us"] by (auto simp: latest_def series_of_def split: if_splits)

lemma find_self:
  assumes "distinct (map obs_id us)" "u \<in> set us"
  shows "find (\<lambda>v. obs_id v = obs_id u) us = Some u"
proof (cases "find (\<lambda>v. obs_id v = obs_id u) us")
  case None
  then show ?thesis using assms(2) by (auto simp: find_None_iff)
next
  case (Some v)
  then show ?thesis using find_SomeD [OF Some] assms by (metis distinct_map inj_onD)
qed

lemma head_query:
  assumes wf: "ledger_wf us" and s: "s \<noteq> ''''"
  shows "findUsageSnapshotHead (map usageObservationArgs us) s = restored (latest us s)"
proof -
  let ?rows = "map usageObservationArgs us"
  have heads: "filter (\<lambda>r. ur_snapshot_series r = Some s
        \<and> \<not> list_ex (\<lambda>q. ur_supersedes_id q = Some (ur_observation_id r)) ?rows) ?rows
      = map usageObservationArgs (case latest us s of None \<Rightarrow> [] | Some u \<Rightarrow> [u])"
    using heads_of_series [OF wf s] s by (simp add: filter_map comp_def list_ex_iff)
  show ?thesis
  proof (cases "latest us s")
    case None
    then show ?thesis using heads by (simp add: findUsageSnapshotHead_def)
  next
    case (Some h)
    have h: "h \<in> set us" using latest_in [OF Some] by simp
    have st: "list_all storable us" and d: "distinct (map obs_id us)" using wf by (simp_all add: ledger_wf_def)
    have "storable h" using h st by (simp add: list_all_iff)
    then show ?thesis
      using heads Some find_stored [OF st, of "obs_id h"] find_self [OF d h] storable_facts(8)
      by (cases "in_years h") (simp_all add: findUsageSnapshotHead_def)
  qed
qed

section \<open>The table refines the ledger\<close>

text \<open>The schema admits the row of an observation that the code has checked, unless the claim is taken.\<close>

lemma latest_revision:
  assumes wf: "ledger_wf us" and s: "s \<noteq> ''''" and h: "latest us s = Some h" and v: "v \<in> set us" "obs_series v = s"
  shows "ud_revision (uo_descriptor v) \<le> ud_revision (uo_descriptor h)"
proof -
  define vs where "vs = series_of s us"
  have "v \<in> set vs" using v by (simp add: vs_def series_of_def)
  then obtain i where i: "i < length vs" "vs ! i = v" by (auto simp: in_set_conv_nth)
  then have ne: "vs \<noteq> []" and le: "i = length vs - 1 \<or> i < length vs - 1" by auto
  have last: "h = vs ! (length vs - 1)" using h ne by (simp add: latest_def vs_def last_conv_nth)
  have "chain None vs" using wf s by (simp add: ledger_wf_def vs_def)
  from chain_revisions [OF this, of i "length vs - 1"] show ?thesis using le last i ne by fastforce
qed

lemma latest_unsuperseded:
  assumes wf: "ledger_wf us" and s: "s \<noteq> ''''" and h: "latest us s = Some h" and w: "w \<in> set us"
  shows "ud_supersedes (uo_descriptor w) \<noteq> Some (obs_id h)"
proof -
  have "h \<in> set (filter (\<lambda>x. obs_series x = s
      \<and> \<not> list_ex (\<lambda>w. ud_supersedes (uo_descriptor w) = Some (obs_id x)) us) us)"
    using heads_of_series [OF wf s] h by simp
  then show ?thesis using w by (auto simp: list_ex_iff)
qed

lemma snapshot_admitted:
  assumes wf: "ledger_wf us" and r: "storable u" and s: "is_snapshot u"
    and val: "ValidateSnapshotSuccessor (Some u) (latest us (obs_series u)) = Inr ()"
    and fresh: "list_all (\<lambda>v. obs_id v \<noteq> obs_id u) us"
  shows "row_admitted (map usageObservationArgs us) (usageObservationArgs u)"
proof -
  have ne: "obs_series u \<noteq> ''''" and key: "obs_key u = None" and pos: "0 < ud_revision (uo_descriptor u)"
    using storable_facts(3,6,9) [OF r] s by simp_all
  show ?thesis
  proof (cases "latest us (obs_series u)")
    case None
    then have "obs_series v \<noteq> obs_series u" if "v \<in> set us" for v
      using that by (auto simp: latest_def series_of_def filter_empty_conv split: if_splits)
    moreover have "ud_supersedes (uo_descriptor u) = None" using snapshot_root_Inr val None by simp
    ultimately show ?thesis using fresh key ne by (auto simp: row_admitted_def list_all_iff)
  next
    case (Some h)
    note next_h = snapshot_successor_Inr [OF val [unfolded Some]]
    have h: "h \<in> set us" "is_snapshot h" "uo_status h = UsageObservationFinalized" "0 < ud_revision (uo_descriptor h)"
    proof -
      show "h \<in> set us" using latest_in [OF Some] by simp
      then have "storable h" using wf by (simp add: ledger_wf_def list_all_iff)
      moreover show "is_snapshot h" "uo_status h = UsageObservationFinalized"
        using val Some by (auto simp: ValidateSnapshotSuccessor_def Let_def split: if_splits)
      ultimately show "0 < ud_revision (uo_descriptor h)" using storable_facts(6) by simp
    qed
    have rev: "obs_series v \<noteq> obs_series u \<or> ud_revision (uo_descriptor v) \<noteq> ud_revision (uo_descriptor u)" if "v \<in> set us" for v
      using latest_revision [OF wf ne Some that] next_h by fastforce
    have "ud_supersedes (uo_descriptor w) \<noteq> ud_supersedes (uo_descriptor u)" if "w \<in> set us" for w
      using latest_unsuperseded [OF wf ne Some that] next_h by simp
    moreover have "\<exists>x\<in>set us. Some (obs_id x) = ud_supersedes (uo_descriptor u) \<and> obs_series x = obs_series u
        \<and> ud_session_id (uo_descriptor x) = ud_session_id (uo_descriptor u) \<and> ud_source (uo_descriptor x) = ud_source (uo_descriptor u)
        \<and> is_snapshot x \<and> uo_status x = UsageObservationFinalized \<and> 0 < ud_revision (uo_descriptor x)
        \<and> ud_revision (uo_descriptor x) < ud_revision (uo_descriptor u)"
      using h next_h by (intro bexI [of _ h]) auto
    ultimately show ?thesis
      using fresh key rev pos next_h by (auto simp: row_admitted_def list_all_iff list_ex_iff)
  qed
qed

lemma admitted_iff:
  assumes wf: "ledger_wf us" and r: "storable u" and fresh: "find (\<lambda>v. obs_id v = obs_id u) us = None"
    and snap: "is_snapshot u \<Longrightarrow> ValidateSnapshotSuccessor (Some u) (latest us (obs_series u)) = Inr ()"
  shows "row_admitted (map usageObservationArgs us) (usageObservationArgs u) \<longleftrightarrow> \<not> claimed us u"
proof -
  have new: "list_all (\<lambda>v. obs_id v \<noteq> obs_id u) us" using fresh by (auto simp: find_None_iff list_all_iff)
  show ?thesis
  proof (cases "is_snapshot u")
    case True
    then show ?thesis
      using snapshot_admitted [OF wf r True snap new] storable_facts(9) [OF r] by (simp add: claimed_def)
  next
    case False
    then have "obs_series u = ''''" "ud_supersedes (uo_descriptor u) = None" using storable_facts(3,4) [OF r] by blast+
    then show ?thesis using new False by (auto simp: row_admitted_def claimed_def list_all_iff list_ex_iff)
  qed
qed

lemma filter_eq_one: "distinct xs \<Longrightarrow> v \<in> set xs \<Longrightarrow> filter (\<lambda>x. x = v) xs = [v]"
  by (induction xs) (auto simp: filter_empty_conv)

lemma update_row:
  assumes d: "distinct (map obs_id us)" and v: "v \<in> set us" and p: "uo_status v = UsageObservationPending"
    and w: "uo_descriptor w = uo_descriptor v"
  shows "updateFinalizedUsageObservation (map usageObservationArgs us) w
    = Inr (map usageObservationArgs (ledger_replace w us))"
proof -
  have one: "obs_id x = obs_id v \<longleftrightarrow> x = v" if "x \<in> set us" for x using d v that by (metis distinct_map inj_onD)
  have "filter (\<lambda>x. obs_id x = obs_id w \<and> uo_status x = UsageObservationPending) us = filter (\<lambda>x. x = v) us"
    using one p w by (intro filter_cong) auto
  also have "\<dots> = [v]" using d v by (simp add: filter_eq_one distinct_map)
  finally have len: "filter (\<lambda>x. obs_id x = obs_id w \<and> uo_status x = UsageObservationPending) us = [v]" .
  have row: "(usageObservationArgs v)\<lparr>ur_final := usageFinalizationArgs w\<rparr> = usageObservationArgs w"
    using w by (simp add: usageObservationArgs_def Let_def)
  show ?thesis
    using len one p w row by (auto simp: updateFinalizedUsageObservation_def Let_def filter_map comp_def ledger_replace_def)
qed

lemma ledger_replace_same:
  assumes "list_all storable us" "distinct (map obs_id us)" "v \<in> set us"
  shows "ledger_replace v us = us"
proof -
  have "(if obs_id x = obs_id v then stored v else x) = x" if "x \<in> set us" for x
    using assms that storable_facts(1) [of v] by (auto simp: list_all_iff distinct_map dest: inj_onD)
  then show ?thesis by (simp add: ledger_replace_def map_idI)
qed

lemma successor_stored [simp]:
  "ValidateSnapshotSuccessor (Some (stored u)) h = ValidateSnapshotSuccessor (Some u) h"
  by (cases h) (simp_all add: ValidateSnapshotSuccessor_def Let_def)

lemma table_record:
  assumes wf: "ledger_wf us" and u: "recordable u"
  shows "recordUsageObservation (map usageObservationArgs us) u
     = map_sum (\<lambda>e. e) (map_prod (\<lambda>t. t) (map usageObservationArgs)) (ledger_record us u)"
proof -
  have st: "list_all storable us" and d: "distinct (map obs_id us)" using wf by (simp_all add: ledger_wf_def)
  note found = find_stored [OF st, of "obs_id u"]
  show ?thesis
  proof (cases "find (\<lambda>v. obs_id v = obs_id u) us")
    case (Some v)
    then have v: "v \<in> set us" using find_SomeD [OF Some] by simp
    show ?thesis
    proof (cases "in_years v")
      case False
      then show ?thesis using found Some by (simp add: recordUsageObservation_def ledger_record_def)
    next
      case True
      then have known: "findUsageObservation (map usageObservationArgs us) (obs_id u) = Inr (Some v)"
        "restored (find (\<lambda>v. obs_id v = obs_id u) us) = Inr (Some v)"
        using found Some by simp_all
      show ?thesis
      proof (cases "Reconcile (Some v) (Some u)")
        case (Inl e)
        then show ?thesis using known by (simp add: recordUsageObservation_def ledger_record_def)
      next
        case (Inr tw)
        obtain t w where tw: "tw = (t, w)" by fastforce
        note rec_facts = Reconcile_Inr [OF Inr [unfolded tw]]
        show ?thesis
        proof (cases "t = UsageObservationTransitionApplied")
          case True
          then have p: "uo_status v = UsageObservationPending" and w: "uo_descriptor w = uo_descriptor v"
            using rec_facts by auto
          show ?thesis
            using known Inr tw True update_row [OF d v p w]
            by (simp add: recordUsageObservation_def ledger_record_def)
        next
          case False
          then have "w = v" using rec_facts by auto
          then show ?thesis
            using known Inr tw False ledger_replace_same [OF st d v]
            by (simp add: recordUsageObservation_def ledger_record_def)
        qed
      qed
    qed
  next
    case None
    have su: "storable (stored u)" using u by (rule recordable_storable)
    have fresh: "find (\<lambda>v. obs_id v = obs_id (stored u)) us = None" using None by simp
    let ?check = "if is_snapshot u then andThen (restored (latest us (obs_series u))) (ValidateSnapshotSuccessor (Some u)) else Inr ()"
    have check: "(if is_snapshot u
          then andThen (findUsageSnapshotHead (map usageObservationArgs us) (obs_series u)) (ValidateSnapshotSuccessor (Some u))
          else Inr ()) = ?check"
      using head_query [OF wf] storable_facts(3) [OF su] by simp
    have claim: "claimed us (stored u) = claimed us u" by (simp add: claimed_def)
    have ins: "insertUsageObservation (map usageObservationArgs us) u
        = (if claimed us u then Inl (UsageRefused ''constraint'') else Inr (map usageObservationArgs (us @ [stored u])))"
      if c: "?check = Inr ()"
    proof -
      have "is_snapshot u \<Longrightarrow> ValidateSnapshotSuccessor (Some u) (latest us (obs_series u)) = Inr ()"
        using c by (auto simp: andThen_Inr restored_def split: option.splits if_splits)
      then show ?thesis using admitted_iff [OF wf su fresh] claim by (simp add: insertUsageObservation_def)
    qed
    show ?thesis
    proof (cases ?check)
      case (Inr y)
      then show ?thesis
        using ins found None check by (simp add: recordUsageObservation_def ledger_record_def)
    next
      case (Inl e)
      then show ?thesis using found None check by (simp add: recordUsageObservation_def ledger_record_def)
    qed
  qed
qed

text \<open>The ledger keeps its laws.\<close>

lemma find_None_ids: "find (\<lambda>v. obs_id v = i) us = None \<longleftrightarrow> i \<notin> set (map obs_id us)"
  by (auto simp: find_None_iff)

lemma ledger_append_wf:
  assumes wf: "ledger_wf us" and u: "storable u" and fresh: "obs_id u \<notin> set (map obs_id us)"
    and snap: "is_snapshot u \<Longrightarrow> ValidateSnapshotSuccessor (Some u) (latest us (obs_series u)) = Inr ()"
    and claim: "\<not> claimed us u"
  shows "ledger_wf (us @ [u])"
proof -
  have "chain None (series_of s (us @ [u]))" if s: "s \<noteq> ''''" for s
  proof (cases "obs_series u = s")
    case True
    then have "is_snapshot u" using storable_facts(3) [OF u] s by simp
    then have "ValidateSnapshotSuccessor (Some u) (latest us s) = Inr ()" using snap True by simp
    moreover have "series_of s (us @ [u]) = series_of s us @ [u]" using True by (simp add: series_of_def)
    ultimately show ?thesis using wf s by (auto simp: ledger_wf_def chain_snoc latest_def split: if_splits)
  next
    case False
    then show ?thesis using wf s by (simp add: ledger_wf_def series_of_def)
  qed
  moreover have "one_claim (us @ [u])"
    using wf claim by (auto simp: ledger_wf_def one_claim_def claimed_def list_ex_iff)
  ultimately show ?thesis using wf u fresh by (simp add: ledger_wf_def)
qed

lemma ledger_replace_wf:
  assumes wf: "ledger_wf us" and v: "v \<in> set us" and p: "uo_status v = UsageObservationPending"
    and w: "uo_descriptor w = uo_descriptor v" "canonical w"
  shows "ledger_wf (ledger_replace w us)"
proof -
  let ?f = "\<lambda>x. if obs_id x = obs_id w then stored w else x"
  have d: "distinct (map obs_id us)" and st: "\<And>x. x \<in> set us \<Longrightarrow> storable x" using wf by (auto simp: ledger_wf_def list_all_iff)
  have one: "x = v" if "x \<in> set us" "obs_id x = obs_id w" for x using d v w(1) that by (metis distinct_map inj_onD)
  have "stored_descriptor (uo_descriptor v) = uo_descriptor v" using storable_facts(1) [OF st [OF v]] stored_simps(6) by metis
  then have desc: "uo_descriptor (?f x) = uo_descriptor x" if "x \<in> set us" for x using one [OF that] w(1) by auto
  have sw: "storable (stored w)"
    using w storable_facts(7) [OF st [OF v]] by (intro recordable_storable) (simp add: recordable_def canonical_ordered)
  have ids: "map obs_id (ledger_replace w us) = map obs_id us" using desc by (simp add: ledger_replace_def)
  have nv: "obs_series v = ''''" using storable_facts(3,5) [OF st [OF v]] p by blast
  have series: "series_of s (ledger_replace w us) = series_of s us" if s: "s \<noteq> ''''" for s
  proof -
    have "?f x = x" if x: "x \<in> set (series_of s us)" for x
    proof -
      have "x \<in> set us" "obs_series x = s" using x by (auto simp: series_of_def)
      then show ?thesis using one [of x] nv s by auto
    qed
    then have "map ?f (series_of s us) = series_of s us" by (rule map_idI)
    moreover have "filter (\<lambda>x. obs_series (?f x) = s) us = filter (\<lambda>x. obs_series x = s) us"
      using desc by (intro filter_cong) auto
    ultimately show ?thesis by (simp only: series_of_def ledger_replace_def filter_map comp_def)
  qed
  have claims: "one_claim (ledger_replace w us)"
    unfolding one_claim_def
  proof (intro allI impI)
    fix x y
    assume xy: "x \<in> set (ledger_replace w us)" "y \<in> set (ledger_replace w us)" "is_additive x" "is_additive y"
      "obs_key x \<noteq> None" "obs_key x = obs_key y"
    obtain a where a: "a \<in> set us" "x = ?f a" using xy(1) by (auto simp: ledger_replace_def)
    obtain b where b: "b \<in> set us" "y = ?f b" using xy(2) by (auto simp: ledger_replace_def)
    have oc: "one_claim us" using wf by (simp add: ledger_wf_def)
    have "uo_descriptor x = uo_descriptor a" "uo_descriptor y = uo_descriptor b"
      using desc [OF a(1)] desc [OF b(1)] a(2) b(2) by simp_all
    then have "a = b" using oc [unfolded one_claim_def, rule_format, OF a(1) b(1)] xy(3-6) by simp
    then show "x = y" using a(2) b(2) by simp
  qed
  have "list_all storable (ledger_replace w us)" using st sw by (auto simp: list_all_iff ledger_replace_def)
  then show ?thesis using d claims ids series wf by (simp add: ledger_wf_def)
qed

lemma ledger_record_wf:
  assumes wf: "ledger_wf us" and u: "recordable u" and r: "ledger_record us u = Inr (t, us')"
  shows "ledger_wf us'"
proof (cases "find (\<lambda>v. obs_id v = obs_id u) us")
  case None
  have su: "storable (stored u)" using u by (rule recordable_storable)
  show ?thesis
    using r None ledger_append_wf [OF wf su]
    by (auto simp: ledger_record_def find_None_ids claimed_def andThen_Inr restored_def split: if_splits option.splits)
next
  case (Some v)
  have v: "v \<in> set us" using find_SomeD [OF Some] by simp
  have sv: "storable v" using wf v by (simp add: ledger_wf_def list_all_iff)
  obtain w where w: "Reconcile (Some v) (Some u) = Inr (t, w)" "us' = ledger_replace w us"
    using r Some by (cases "in_years v") (auto simp: ledger_record_def andThen_Inr)
  have cw: "canonical w"
    using Reconcile_canonical [OF w(1)] storable_facts(2,7) [OF sv] u by (simp add: recordable_def)
  show ?thesis
  proof (cases "t = UsageObservationTransitionApplied")
    case True
    then show ?thesis using Reconcile_Inr [OF w(1)] w(2) ledger_replace_wf [OF wf v _ _ cw] by auto
  next
    case False
    then have "w = v" using Reconcile_Inr [OF w(1)] by auto
    then show ?thesis using w(2) wf v ledger_replace_same by (auto simp: ledger_wf_def)
  qed
qed

section \<open>The exclusive claim\<close>

definition attach_key :: "string \<Rightarrow> string \<Rightarrow> UsageObservation \<Rightarrow> UsageObservation" where
  "attach_key i k u =
     (if obs_id u = i \<and> obs_key u = None \<and> ud_accounting (uo_descriptor u) = UsageAccountingExcluded
      then u\<lparr>uo_descriptor := (uo_descriptor u)\<lparr>ud_key := Some k\<rparr>\<rparr> else u)"

lemma excluded_not_additive [simp]: "UsageAccountingExcluded \<noteq> UsageAccountingAdditive"
  "UsageAccountingAdditive \<noteq> UsageAccountingExcluded" "UsageAccountingExcluded \<noteq> UsageAccountingLatestSnapshot"
  "UsageAccountingLatestSnapshot \<noteq> UsageAccountingExcluded"
  by (simp_all add: usage_names)

lemma attach_rows:
  "attachLegacyUsageExclusivityKey (map usageObservationArgs us) i k = map usageObservationArgs (map (attach_key i k) us)"
  by (simp add: attachLegacyUsageExclusivityKey_def attach_key_def usageObservationArgs_def usageFinalizationArgs_def Let_def)

lemma attach_key_facts [simp]:
  "obs_id (attach_key i k u) = obs_id u" "obs_series (attach_key i k u) = obs_series u"
  "is_additive (attach_key i k u) \<longleftrightarrow> is_additive u" "uo_status (attach_key i k u) = uo_status u"
  "ud_accounting (uo_descriptor (attach_key i k u)) = ud_accounting (uo_descriptor u)"
  "usageFinalizationArgs (attach_key i k u) = usageFinalizationArgs u"
  by (simp_all add: attach_key_def usageFinalizationArgs_def)

lemma attach_key_same: "is_snapshot u \<Longrightarrow> storable u \<Longrightarrow> attach_key i k u = u" "is_additive u \<Longrightarrow> attach_key i k u = u"
proof -
  assume "is_snapshot u" "storable u"
  then have "ud_accounting (uo_descriptor u) = UsageAccountingLatestSnapshot"
    using usage_validate_descriptor [of u] by (auto simp: storable_def canonical_def descriptor_validate_Inr)
  then show "attach_key i k u = u" using excluded_not_additive(3) by (simp add: attach_key_def)
qed (simp add: attach_key_def)

lemma attach_key_storable:
  assumes k: "UsageExclusivityKeyFrom k = Inr k" and u: "storable u"
  shows "storable (attach_key i k u)"
proof (cases "attach_key i k u = u")
  case False
  then have ex: "ud_accounting (uo_descriptor u) = UsageAccountingExcluded" and snap: "\<not> is_snapshot u"
    and v: "attach_key i k u = u\<lparr>uo_descriptor := (uo_descriptor u)\<lparr>ud_key := Some k\<rparr>\<rparr>"
    using attach_key_same(1) [OF _ u, of i k] unfolding attach_key_def by metis+
  have c: "canonical u" and t: "stored u = u" using u by (simp_all add: storable_def)
  have val: "usage_validate (Some u) = Inr ()" using c by (simp add: canonical_def)
  have "descriptor_validate ((uo_descriptor u)\<lparr>ud_key := Some k\<rparr>) = Inr ()"
    using usage_validate_descriptor [OF val] ex snap k by (simp add: descriptor_validate_Inr)
  then have "usage_validate (Some (attach_key i k u)) = Inr ()" using val unfolding v by (simp add: validate_Inr)
  moreover have "descriptor_canonical (uo_descriptor (attach_key i k u))"
    using c k unfolding v by (simp add: canonical_def descriptor_canonical_def)
  moreover have "stored (attach_key i k u) = attach_key i k u"
    using t unfolding v stored_def stored_descriptor_def by (cases u; cases "uo_descriptor u") auto
  ultimately show ?thesis using c v by (simp add: storable_def canonical_def)
qed (simp add: u)

lemma attach_wf:
  assumes wf: "ledger_wf us" and k: "UsageExclusivityKeyFrom k = Inr k"
  shows "ledger_wf (map (attach_key i k) us)"
proof -
  have st: "storable u" if "u \<in> set us" for u using wf that by (simp add: ledger_wf_def list_all_iff)
  have series: "series_of s (map (attach_key i k) us) = series_of s us" if s: "s \<noteq> ''''" for s
  proof -
    have "attach_key i k u = u" if "u \<in> set (series_of s us)" for u
    proof -
      have u: "u \<in> set us" "obs_series u = s" using that by (auto simp: series_of_def)
      then show ?thesis using s st [OF u(1)] storable_facts(3) attach_key_same(1) by blast
    qed
    then have "map (attach_key i k) (series_of s us) = series_of s us" by (rule map_idI)
    then show ?thesis by (simp add: series_of_def filter_map comp_def)
  qed
  have claims: "one_claim (map (attach_key i k) us)"
    unfolding one_claim_def
  proof (intro allI impI)
    fix x y
    assume xy: "x \<in> set (map (attach_key i k) us)" "y \<in> set (map (attach_key i k) us)" "is_additive x" "is_additive y"
      "obs_key x \<noteq> None" "obs_key x = obs_key y"
    then have "x \<in> set us" "y \<in> set us" using attach_key_same(2) by auto
    then show "x = y" using wf xy(3-6) unfolding ledger_wf_def one_claim_def by blast
  qed
  have "map obs_id (map (attach_key i k) us) = map obs_id us" by simp
  moreover have "list_all storable (map (attach_key i k) us)" using st attach_key_storable [OF k] by (simp add: list_all_iff)
  ultimately show ?thesis using wf series claims by (simp add: ledger_wf_def comp_def)
qed

lemma winner_query:
  assumes "list_all storable us"
  shows "findUsageExclusivityWinner (map usageObservationArgs us) k
    = Inr (map_option obs_id (find (\<lambda>v. obs_key v = Some k \<and> is_additive v) us))"
proof (cases "find (\<lambda>v. obs_key v = Some k \<and> is_additive v) us")
  case None
  then show ?thesis by (simp add: findUsageExclusivityWinner_def find_map_rows)
next
  case (Some v)
  then have "storable v" using find_SomeD [OF Some] assms by (simp add: list_all_iff)
  then show ?thesis using Some storable_facts(8) [of v] by (simp add: findUsageExclusivityWinner_def find_map_rows)
qed


definition preferred ::
    "UsageObservation list \<Rightarrow> string \<Rightarrow> UsageObservation \<Rightarrow> UsageObservation \<Rightarrow> usage_error + UsageObservation" where
  "preferred us k a x =
     (case find (\<lambda>v. obs_key v = Some k \<and> is_additive v) us of
        Some w \<Rightarrow> Inr (if obs_id w \<noteq> obs_id a then x else a)
      | None \<Rightarrow> andThen (restored (find (\<lambda>v. obs_id v = obs_id a) us)) (\<lambda>existing.
                  case existing of
                    Some c \<Rightarrow> Inr (if ud_accounting (uo_descriptor c) = UsageAccountingExcluded then x else a)
                  | None \<Rightarrow> Inr a))"

lemma select_preferred:
  "list_all storable us \<Longrightarrow> select_alternative (map usageObservationArgs us) k a x = preferred us k a x"
  by (simp add: select_alternative_def winner_query find_stored preferred_def split: option.split)

lemma key_again: "UsageExclusivityKeyFrom key = Inr k \<Longrightarrow> UsageExclusivityKeyFrom k = Inr k"
  by (auto simp: UsageExclusivityKeyFrom_def bounded_id_def Let_def split: if_splits sum.splits)

text \<open>The exclusive transaction is the ledger transaction on the selected alternative.\<close>

lemma exclusive_is:
  assumes wf: "ledger_wf us" and r: "recordable a" "recordable x" and key: "UsageExclusivityKeyFrom key = Inr k"
    and alt: "ValidateAccountingAlternative (Some a) (Some x) = Inr y" and own: "obs_key a = Some k"
  shows "preferred us k a x = Inl e \<Longrightarrow>
      RecordExclusive (map usageObservationArgs us) key (Some a) (Some x) = (Inl e, map usageObservationArgs us)"
    and "preferred us k a x = Inr s \<Longrightarrow>
      RecordExclusive (map usageObservationArgs us) key (Some a) (Some x)
        = (case ledger_record (map (attach_key (obs_id s) k) us) s of
             Inl e \<Rightarrow> (Inl e, map usageObservationArgs us)
           | Inr (t, us') \<Rightarrow> (Inr t, map usageObservationArgs us'))"
    and "ledger_wf (map (attach_key i k) us)"
    and "preferred us k a x = Inr s \<Longrightarrow> recordable s"
proof -
  have st: "list_all storable us" using wf by (simp add: ledger_wf_def)
  show w: "ledger_wf (map (attach_key i k) us)" for i using attach_wf [OF wf key_again [OF key]] .
  show rs: "recordable s" if "preferred us k a x = Inr s" for s
    using that r by (auto simp: preferred_def andThen_Inr split: option.splits if_splits)
  show "RecordExclusive (map usageObservationArgs us) key (Some a) (Some x) = (Inl e, map usageObservationArgs us)"
    if "preferred us k a x = Inl e"
    using key alt own select_preferred [OF st, of k a x] that by (simp add: RecordExclusive_def recordTransaction_def)
  show "RecordExclusive (map usageObservationArgs us) key (Some a) (Some x)
     = (case ledger_record (map (attach_key (obs_id s) k) us) s of
          Inl e \<Rightarrow> (Inl e, map usageObservationArgs us)
        | Inr (t, us') \<Rightarrow> (Inr t, map usageObservationArgs us'))"
    if s: "preferred us k a x = Inr s"
    using key alt own select_preferred [OF st, of k a x] s table_record [OF w rs [OF s]]
    by (simp add: RecordExclusive_def recordTransaction_def attach_rows del: map_map split: sum.split prod.split)
qed

section \<open>The repository as a machine\<close>

inductive usage_step :: "UsageRow list \<Rightarrow> UsageRow list \<Rightarrow> bool" where
  recorded: "recordable u \<Longrightarrow> Record rows (Some u) = (res, rows') \<Longrightarrow> usage_step rows rows'"
| exclusive: "recordable a \<Longrightarrow> recordable x \<Longrightarrow> RecordExclusive rows key (Some a) (Some x) = (res, rows') \<Longrightarrow>
    usage_step rows rows'"

definition usage_init :: "UsageRow list \<Rightarrow> bool" where "usage_init rows \<longleftrightarrow> rows = []"

definition table_wf :: "UsageRow list \<Rightarrow> bool" where
  "table_wf rows \<longleftrightarrow> (\<exists>us. rows = map usageObservationArgs us \<and> ledger_wf us)"

text \<open>
  What a step of the repository does to the ledger: nothing, or one ledger transaction, possibly after the
  key of a legacy excluded observation was attached.
\<close>

definition ledger_moves :: "UsageObservation list \<Rightarrow> UsageObservation list \<Rightarrow> bool" where
  "ledger_moves us us' \<longleftrightarrow>
     us' = us \<or> (\<exists>u t. recordable u \<and> ledger_record us u = Inr (t, us'))
     \<or> (\<exists>i k u t. recordable u \<and> UsageExclusivityKeyFrom k = Inr k
          \<and> ledger_record (map (attach_key i k) us) u = Inr (t, us'))"

lemma Record_ledger:
  assumes "ledger_wf us" "recordable u"
  shows "Record (map usageObservationArgs us) (Some u)
    = (case ledger_record us u of
         Inl e \<Rightarrow> (Inl e, map usageObservationArgs us) | Inr (t, us') \<Rightarrow> (Inr t, map usageObservationArgs us'))"
  using table_record [OF assms] by (simp add: Record_def recordTransaction_def split: sum.split prod.split)

lemma step_moves:
  assumes "usage_step rows rows'" "rows = map usageObservationArgs us" "ledger_wf us"
  shows "\<exists>us'. rows' = map usageObservationArgs us' \<and> ledger_moves us us'"
  using assms
proof (induction rule: usage_step.induct)
  case (recorded u rows res rows')
  then show ?case
    using Record_ledger [OF recorded.prems(2) recorded.hyps(1)]
    by (cases "ledger_record us u") (auto simp: ledger_moves_def)
next
  case (exclusive a x rows key res rows')
  show ?case
  proof (cases "\<exists>k y. UsageExclusivityKeyFrom key = Inr k \<and> ValidateAccountingAlternative (Some a) (Some x) = Inr y \<and> obs_key a = Some k")
    case True
    then obtain k y where k: "UsageExclusivityKeyFrom key = Inr k" "ValidateAccountingAlternative (Some a) (Some x) = Inr y"
      "obs_key a = Some k" by blast
    note eqs = exclusive_is [OF exclusive.prems(2) exclusive.hyps(1,2) k]
    show ?thesis
    proof (cases "preferred us k a x")
      case (Inl e)
      then show ?thesis using eqs(1) exclusive by (auto simp: ledger_moves_def)
    next
      case (Inr s)
      show ?thesis
      proof (cases "ledger_record (map (attach_key (obs_id s) k) us) s")
        case (Inl e)
        then show ?thesis using eqs(2) [OF Inr] exclusive by (auto simp: ledger_moves_def)
      next
        case moved: (Inr tu)
        then obtain t us' where "ledger_record (map (attach_key (obs_id s) k) us) s = Inr (t, us')" by (cases tu) auto
        then show ?thesis
          using eqs(2,4) [OF Inr] exclusive.hyps(3) exclusive.prems(1) key_again [OF k(1)]
          by (auto simp: ledger_moves_def)
      qed
    qed
  next
    case False
    then have "rows' = rows"
      using exclusive.hyps(3) by (auto simp: RecordExclusive_def split: sum.splits if_splits)
    then show ?thesis using exclusive.prems(1) by (auto simp: ledger_moves_def)
  qed
qed

lemma moves_wf: "ledger_moves us us' \<Longrightarrow> ledger_wf us \<Longrightarrow> ledger_wf us'"
  unfolding ledger_moves_def by (elim disjE exE conjE) (simp, (rule ledger_record_wf, assumption+), (rule ledger_record_wf [OF attach_wf], assumption+))

interpretation usage_machine: invariant_machine usage_init usage_step table_wf
proof
  show "table_wf rows" if "usage_init rows" for rows
    using that by (simp add: usage_init_def table_wf_def ledger_wf_def series_of_def one_claim_def)
  show "table_wf rows'" if "table_wf rows" "usage_step rows rows'" for rows rows'
    using that step_moves moves_wf unfolding table_wf_def by blast
qed

text \<open>Facts of an observation that no later step changes: a claim that was won, and terminal accounting.\<close>

definition won :: "string \<times> string \<Rightarrow> UsageRow list \<Rightarrow> bool" where
  "won ki rows \<longleftrightarrow> list_ex (\<lambda>r. ur_exclusivity_key r = Some (fst ki) \<and> ur_accounting r = UsageAccountingAdditive
     \<and> ur_observation_id r = snd ki) rows"

definition accounted :: "string \<times> FinalColumns \<Rightarrow> UsageRow list \<Rightarrow> bool" where
  "accounted f rows \<longleftrightarrow> fc_status (snd f) = UsageObservationFinalized
     \<and> list_ex (\<lambda>r. ur_observation_id r = fst f \<and> ur_final r = snd f) rows"

lemma record_keeps:
  assumes wf: "ledger_wf us" and u: "recordable u" and r: "ledger_record us u = Inr (t, us')" and v: "v \<in> set us"
  shows "\<exists>w\<in>set us'. obs_id w = obs_id v \<and> obs_key w = obs_key v
    \<and> ud_accounting (uo_descriptor w) = ud_accounting (uo_descriptor v)
    \<and> (uo_status v = UsageObservationFinalized \<longrightarrow> usageFinalizationArgs w = usageFinalizationArgs v)"
proof (cases "find (\<lambda>v. obs_id v = obs_id u) us")
  case None
  then show ?thesis using r v by (auto simp: ledger_record_def andThen_Inr restored_def split: if_splits)
next
  case (Some c)
  obtain w where w: "Reconcile (Some c) (Some u) = Inr (t, w)" "us' = ledger_replace w us"
    using r Some by (cases "in_years c") (auto simp: ledger_record_def andThen_Inr)
  have c: "c \<in> set us" using find_SomeD [OF Some] by simp
  have d: "uo_descriptor w = uo_descriptor c" using Reconcile_Inr [OF w(1)] by auto
  show ?thesis
  proof (cases "obs_id v = obs_id w")
    case True
    then have "v = c" using wf v c d by (metis ledger_wf_def distinct_map inj_onD)
    moreover have "stored w \<in> set us'" using w(2) c d by (force simp: ledger_replace_def)
    moreover have "w = c" if "uo_status c = UsageObservationFinalized" using Reconcile_finalized [OF that w(1)] by simp
    ultimately show ?thesis using d by (intro bexI [of _ "stored w"]) auto
  next
    case False
    then have "v \<in> set us'" using w(2) v by (force simp: ledger_replace_def)
    then show ?thesis by blast
  qed
qed

lemma moves_keep:
  assumes m: "ledger_moves us us'" and wf: "ledger_wf us" and v: "v \<in> set us"
  shows "\<exists>w\<in>set us'. obs_id w = obs_id v \<and> (is_additive v \<longrightarrow> obs_key w = obs_key v \<and> is_additive w)
    \<and> (uo_status v = UsageObservationFinalized \<longrightarrow> usageFinalizationArgs w = usageFinalizationArgs v)"
  using m unfolding ledger_moves_def
proof (elim disjE exE conjE)
  assume "us' = us"
  then show ?thesis using v by blast
next
  fix u t assume "recordable u" "ledger_record us u = Inr (t, us')"
  from record_keeps [OF wf this v] show ?thesis by (elim bexE) (rule bexI; simp)
next
  fix i k u t assume u: "recordable u" and k: "UsageExclusivityKeyFrom k = Inr k"
    and r: "ledger_record (map (attach_key i k) us) u = Inr (t, us')"
  have "attach_key i k v \<in> set (map (attach_key i k) us)" using v by simp
  from record_keeps [OF attach_wf [OF wf k] u r this] obtain w where
    w: "w \<in> set us'" "obs_id w = obs_id v" "obs_key w = obs_key (attach_key i k v)"
      "ud_accounting (uo_descriptor w) = ud_accounting (uo_descriptor v)"
      "uo_status v = UsageObservationFinalized \<longrightarrow> usageFinalizationArgs w = usageFinalizationArgs v"
    by auto
  moreover have "is_additive v \<longrightarrow> obs_key w = obs_key v" using w(3) attach_key_same(2) by simp
  ultimately show ?thesis by (intro bexI [of _ w]) simp_all
qed

interpretation usage_claims: sealed_machine usage_init usage_step table_wf won
proof
  fix rows rows' ki
  assume "table_wf rows" "usage_step rows rows'" "won ki rows"
  then obtain us us' v where "rows = map usageObservationArgs us" "ledger_wf us" "rows' = map usageObservationArgs us'"
    "ledger_moves us us'" "v \<in> set us" "obs_key v = Some (fst ki)" "is_additive v" "obs_id v = snd ki"
    using step_moves by (fastforce simp: table_wf_def won_def list_ex_iff)
  then show "won ki rows'" using moves_keep [of us us' v] by (auto simp: won_def list_ex_iff)
qed

interpretation usage_accounts: sealed_machine usage_init usage_step table_wf accounted
proof
  fix rows rows' f
  assume a: "table_wf rows" "usage_step rows rows'" "accounted f rows"
  then obtain us us' v where us: "rows = map usageObservationArgs us" "ledger_wf us" "rows' = map usageObservationArgs us'"
    "ledger_moves us us'" "v \<in> set us" "obs_id v = fst f" "usageFinalizationArgs v = snd f"
    using step_moves by (fastforce simp: table_wf_def accounted_def list_ex_iff)
  have s: "fc_status (snd f) = UsageObservationFinalized" using a(3) by (simp add: accounted_def)
  then have "uo_status v = UsageObservationFinalized" using us(7) row_columns(7) by metis
  then show "accounted f rows'" using moves_keep [OF us(4,2,5)] us(3,6,7) s by (auto simp: accounted_def list_ex_iff)
qed

section \<open>Properties\<close>


text \<open>
  C25: storing is faithful. The row written for an observation that its constructors return (from trimmed
  identifiers and versions, and with ordered wall times) restores to that observation, its times being
  the same instants in UTC without a monotonic reading, exactly when the years of its times have four
  digits; otherwise the row is written and its restoration is refused. (The identifier constructors
  trim; a value converted from an untrimmed string without them would be read back trimmed.)\<close>

theorem usage_row_roundtrip:
  assumes "recordable u"
  shows "scanUsageObservation (usageObservationArgs u)
    = (if in_years u then Inr (stored u) else Inl (UsageRefused ''timestamp''))"
  using scan_row [OF recordable_storable [OF assms]] by simp


text \<open>
  C19: an additive claim is exclusive and permanent. In every reachable table a key has at most one additive
  observation, and whatever is recorded later the winner stays the winner.\<close>

theorem usage_claim_exclusive:
  assumes reach: "reach usage_init usage_step rows" and later: "usage_step\<^sup>*\<^sup>* rows rows'" and w: "won (k, i) rows"
  shows "won (k, j) rows' \<longleftrightarrow> j = i"
proof -
  have wf: "table_wf rows" using reach by (rule usage_machine.reach_inv)
  have i: "won (k, i) rows'" using usage_claims.sealed_forever [OF later wf w] .
  obtain us where us: "rows' = map usageObservationArgs us" "ledger_wf us"
    using usage_machine.steps_inv [OF later wf] by (auto simp: table_wf_def)
  have "j = i" if j: "won (k, j) rows'"
  proof -
    obtain u v where uv: "u \<in> set us" "obs_key u = Some k" "is_additive u" "obs_id u = i"
      "v \<in> set us" "obs_key v = Some k" "is_additive v" "obs_id v = j"
      using i j us(1) by (auto simp: won_def list_ex_iff)
    have "one_claim us" using us(2) by (simp add: ledger_wf_def)
    then have "u = v" using uv unfolding one_claim_def by auto
    then show ?thesis using uv by simp
  qed
  then show ?thesis using i by auto
qed

text \<open>
  C18: terminal accounting is immutable. Once an observation is finalized, no sequence of records changes its
  status, its counters, its cost, its terminal code or its final timestamp.\<close>

theorem finalized_usage_immutable:
  assumes "reach usage_init usage_step rows" and "usage_step\<^sup>*\<^sup>* rows rows'"
    and "r \<in> set rows" and "fc_status (ur_final r) = UsageObservationFinalized"
  shows "\<exists>r'. r' \<in> set rows' \<and> ur_observation_id r' = ur_observation_id r \<and> ur_final r' = ur_final r"
proof -
  have "accounted (ur_observation_id r, ur_final r) rows" using assms(3,4) by (auto simp: accounted_def list_ex_iff)
  then have "accounted (ur_observation_id r, ur_final r) rows'"
    using usage_accounts.sealed_forever [OF assms(2) usage_machine.reach_inv [OF assms(1)]] by blast
  then show ?thesis by (auto simp: accounted_def list_ex_iff)
qed

text \<open>
  C20: a snapshot series never forks. In every reachable table a stored series has one head: a stored
  observation of the series of which no stored revision of the series is later. The head lookup answers with
  it; only when one of its times lies in a year without four digits, which cannot be parsed, is the lookup
  refused.\<close>

theorem snapshot_series_single_head:
  assumes reach: "reach usage_init usage_step rows" and s: "trim_space s = s" "length s \<le> 512"
    and r: "r \<in> set rows" "ur_snapshot_series r = Some s"
  shows "\<exists>h. FindSnapshotHead rows s = (if in_years h then Inr (Some h) else Inl (UsageRefused ''timestamp''))
    \<and> obs_series h = s \<and> usageObservationArgs h \<in> set rows
    \<and> (\<exists>v. ur_snapshot_revision r = Some v \<and> v \<le> ud_revision (uo_descriptor h))"
proof -
  obtain us where us: "rows = map usageObservationArgs us" "ledger_wf us"
    using usage_machine.reach_inv [OF reach] by (auto simp: table_wf_def)
  obtain u where u: "u \<in> set us" "r = usageObservationArgs u" using r(1) us(1) by auto
  then have ne: "obs_series u = s" "s \<noteq> ''''" using r(2) by auto
  have "latest us s \<noteq> None" using u(1) ne(1) by (auto simp: latest_def series_of_def filter_empty_conv)
  then obtain h where h: "latest us s = Some h" by auto
  have "storable u" using us(2) u(1) by (simp add: ledger_wf_def list_all_iff)
  then have "0 < ud_revision (uo_descriptor u)" using storable_facts(3,6) ne by blast
  then show ?thesis
    using head_query [OF us(2) ne(2)] h latest_in [OF h] latest_revision [OF us(2) ne(2) h u(1) ne(1)] u(2) us(1) s ne(2)
    by (intro exI [of _ h]) (auto simp: FindSnapshotHead_def restored_def)
qed

section \<open>Concrete observations\<close>

definition ex_source :: UsageSource where
  "ex_source = \<lparr>us_host = ''codex'', us_name = ''hook'', us_version = ''1'', us_provider = '''', us_model = ''''\<rparr>"

definition ex_call :: "string \<Rightarrow> string \<Rightarrow> UsageObservation" where
  "ex_call i accounting =
     \<lparr>uo_descriptor = \<lparr>ud_observation_id = i, ud_session_id = ''s1'', ud_source = ex_source, ud_scope = UsageScopeCall,
        ud_accounting = accounting, ud_observed_at = GoTime 5 None 0, ud_series = '''', ud_revision = 0,
        ud_supersedes = None, ud_run = None, ud_key = Some ''k''\<rparr>,
      uo_status = UsageObservationFinalized,
      uo_counters = (let u = UnavailableUsageValue in usageCountersOfUnchecked u u u u u u),
      uo_cost = UnavailableUsageCost, uo_terminal_code = Some ''success'', uo_finalized_at = Some (GoTime 9 None 0)\<rparr>"

definition ex_snapshot :: UsageObservation where
  "ex_snapshot = (ex_call ''u1'' UsageAccountingLatestSnapshot)
     \<lparr>uo_descriptor := (uo_descriptor (ex_call ''u1'' UsageAccountingLatestSnapshot))
        \<lparr>ud_scope := UsageScopeSessionSnapshot, ud_series := ''day'', ud_revision := 3, ud_key := None\<rparr>\<rparr>"

lemma ex_trim [simp]:
  "trim_space ''codex'' = ''codex''" "trim_space ''hook'' = ''hook''" "trim_space ''1'' = ''1''" "trim_space ''k'' = ''k''"
  "trim_space ''s1'' = ''s1''" "trim_space ''u1'' = ''u1''" "trim_space ''u2'' = ''u2''" "trim_space ''day'' = ''day''"
  by (rule trim_space_solid; simp add: solid_def)+

lemma ex_values [simp]:
  "UsageValueFrom (uv_state UnavailableUsageValue) (optionalUsageValue UnavailableUsageValue) = Inr UnavailableUsageValue"
  "uv_state UnavailableUsageValue \<noteq> UsageValueUnknown" "uv_state UnavailableUsageValue \<noteq> UsageValueKnown"
  "UsageCostFrom (co_state UnavailableUsageCost) (AmountMicros UnavailableUsageCost) (co_currency UnavailableUsageCost)
     (co_origin UnavailableUsageCost) (co_version UnavailableUsageCost) = Inr UnavailableUsageCost"
  "co_state UnavailableUsageCost \<noteq> UsageCostUnknown"
  by (simp_all add: UsageValueFrom_def UnavailableUsageValue_def optionalUsageValue_def UsageValueUnknown_def
      UsageValueUnavailable_def UsageValueKnown_def UsageCostFrom_def UnavailableUsageCost_def AmountMicros_def
      UsageCostUnknown_def UsageCostUnavailable_def UsageCostKnown_def requireEmptyUsageCost_def)

lemma ex_parts [simp]:
  "UsageObservationIDFrom ''u1'' = Inr ''u1''" "UsageObservationIDFrom ''u2'' = Inr ''u2''" "SessionIDFrom ''s1'' = Inr ''s1''"
  "UsageExclusivityKeyFrom ''k'' = Inr ''k''" "succeeds (UsageTerminalCodeFrom ''success'')"
  "UsageSourceOf (us_host ex_source) (us_name ex_source) (us_version ex_source) (us_provider ex_source) (us_model ex_source)
     = Inr ex_source"
  by (simp_all add: UsageObservationIDFrom_def bounded_id_def SessionIDFrom_def nonempty_from_def UsageExclusivityKeyFrom_def
      UsageTerminalCodeFrom_def UsageSourceOf_def ex_source_def)

lemma ex_validates:
  assumes "descriptor_validate d = Inr ()" "ud_observed_at d = GoTime 5 None 0" "descriptor_canonical d"
  shows "recordable ((ex_call i acc)\<lparr>uo_descriptor := d\<rparr>)"
  using assms
  by (simp add: recordable_def ordered_walls_def canonical_def validate_Inr ex_call_def counter_values_def usageCountersOfUnchecked_def
      value_validate_def Availability_def is_zero_def before_def tcompare_def)

lemma ex_recordable:
  assumes "i = ''u1'' \<or> i = ''u2''" "acc = UsageAccountingAdditive \<or> acc = UsageAccountingExcluded"
  shows "recordable (ex_call i acc)"
proof -
  let ?d = "uo_descriptor (ex_call i acc)"
  have "descriptor_validate ?d = Inr ()" "descriptor_canonical ?d" "ud_observed_at ?d = GoTime 5 None 0"
    using assms by (auto simp: ex_call_def descriptor_validate_Inr descriptor_canonical_def is_zero_def usage_names)
  then show ?thesis using ex_validates [of ?d i acc] by (simp add: ex_call_def)
qed

lemma ex_snapshot_recordable: "recordable ex_snapshot"
proof -
  let ?d = "uo_descriptor ex_snapshot"
  have "descriptor_validate ?d = Inr ()" "descriptor_canonical ?d" "ud_observed_at ?d = GoTime 5 None 0"
    by (auto simp: ex_snapshot_def ex_call_def descriptor_validate_Inr descriptor_canonical_def is_zero_def usage_names)
  then show ?thesis using ex_validates [of ?d "''u1''" UsageAccountingLatestSnapshot] by (simp add: ex_snapshot_def)
qed

lemma empty_ledger: "ledger_wf []"
  by (simp add: ledger_wf_def series_of_def one_claim_def)

lemma ex_first_record:
  assumes "recordable u" "\<not> is_snapshot u \<or> ValidateSnapshotSuccessor (Some u) None = Inr ()"
  shows "reach usage_init usage_step [usageObservationArgs u]"
proof -
  have "ledger_record [] u = Inr (UsageObservationTransitionApplied, [stored u])"
    using assms(2) by (auto simp: ledger_record_def latest_def series_of_def claimed_def)
  then have "Record [] (Some u) = (Inr UsageObservationTransitionApplied, [usageObservationArgs u])"
    using Record_ledger [OF empty_ledger assms(1)] by simp
  from usage_step.recorded [OF assms(1) this] show ?thesis
    by (intro reach.reach_step [OF reach.reach_init]) (simp_all add: usage_init_def)
qed

lemma ex_call_fields [simp]:
  "obs_id (ex_call i acc) = i" "obs_key (ex_call i acc) = Some ''k''" "ud_accounting (uo_descriptor (ex_call i acc)) = acc"
  "uo_status (ex_call i acc) = UsageObservationFinalized" "\<not> is_snapshot (ex_call i acc)"
  by (simp_all add: ex_call_def usage_names)

lemma ex_in_years: "in_years (ex_call i acc)" "in_years ex_snapshot"
  by (simp_all add: in_years_def ex_snapshot_def ex_call_def four_digit_year_def year_def utc_def year_of_days_def)

lemma ex_owned: "reach usage_init usage_step [usageObservationArgs (ex_call ''u1'' UsageAccountingAdditive)]"
  by (rule ex_first_record) (simp_all add: ex_recordable)


theorem usage_row_roundtrip_witness:
  "scanUsageObservation (usageObservationArgs (ex_call ''u1'' UsageAccountingAdditive))
     = Inr (ex_call ''u1'' UsageAccountingAdditive)"
proof -
  have "stored (ex_call ''u1'' UsageAccountingAdditive) = ex_call ''u1'' UsageAccountingAdditive"
    by (simp add: ex_call_def stored_def stored_descriptor_def stored_time_def)
  then show ?thesis
    using usage_row_roundtrip [OF ex_recordable [of "''u1''" UsageAccountingAdditive]] by (simp add: ex_in_years)
qed


theorem usage_claim_exclusive_witness:
  "won (''k'', ''u1'') [usageObservationArgs (ex_call ''u1'' UsageAccountingAdditive)]
   \<and> \<not> won (''k'', ''u2'') [usageObservationArgs (ex_call ''u1'' UsageAccountingAdditive)]"
proof -
  have w: "won (''k'', ''u1'') [usageObservationArgs (ex_call ''u1'' UsageAccountingAdditive)]" by (simp add: won_def)
  from usage_claim_exclusive [OF ex_owned rtranclp.rtrancl_refl w, of "''u2''"] w show ?thesis by simp
qed

theorem finalized_usage_immutable_witness:
  "\<exists>r'. r' \<in> set [usageObservationArgs (ex_call ''u1'' UsageAccountingAdditive)] \<and> ur_observation_id r' = ''u1''
     \<and> fc_status (ur_final r') = UsageObservationFinalized"
  using finalized_usage_immutable [OF ex_owned rtranclp.rtrancl_refl, of "usageObservationArgs (ex_call ''u1'' UsageAccountingAdditive)"]
  by simp

theorem snapshot_series_single_head_witness:
  "\<exists>h. FindSnapshotHead [usageObservationArgs ex_snapshot] ''day'' = Inr (Some h) \<and> 3 \<le> ud_revision (uo_descriptor h)"
proof -
  have "ValidateSnapshotSuccessor (Some ex_snapshot) None = Inr ()"
    by (simp add: ValidateSnapshotSuccessor_def ex_snapshot_def ex_call_def)
  then have "reach usage_init usage_step [usageObservationArgs ex_snapshot]"
    using ex_first_record [OF ex_snapshot_recordable] by simp
  from snapshot_series_single_head [OF this, of "''day''" "usageObservationArgs ex_snapshot"]
  obtain h where h: "FindSnapshotHead [usageObservationArgs ex_snapshot] ''day''
      = (if in_years h then Inr (Some h) else Inl (UsageRefused ''timestamp''))"
    "usageObservationArgs h = usageObservationArgs ex_snapshot" "3 \<le> ud_revision (uo_descriptor h)"
    by (auto simp: ex_snapshot_def ex_call_def)
  then have "in_years h" using ex_in_years(2) in_years_row [OF h(2)] by simp
  with h show ?thesis by auto
qed

end
