(* ===== verification/Refinement.thy ===== *)
theory Refinement
  imports Domain_Types
begin

text \<open>
  Session refinements: the aggregate (\<open>domain/model/session_refinement.go\<close>), the write port with its
  compare-and-swap loop (\<open>application/usecase/session_refinement_usecase_impl.go\<close>) and the repositories it runs
  on (\<open>infrastructure/sqlite/session_refinement_datasource.go\<close>, \<open>event_order_datasource.go\<close> with their statements
  \<open>upsert_session_refinement.sql\<close> and \<open>select_event_is_strictly_after.sql\<close>). Writers are concurrent: a writer
  reads a row and decides, other writers may act, then it writes under the generation it read. Event rows are
  permanent and ordered by (\<open>ts_norm(created_at)\<close>, id); the normalized time is a column of the model.
\<close>

section \<open>Events and their canonical order\<close>

record EventRow =
  ev_id :: string
  ev_session_id :: string
  ev_created_norm :: string

definition later_row :: "EventRow \<Rightarrow> EventRow \<Rightarrow> bool" where
  "later_row l r \<longleftrightarrow>
     (if ev_created_norm r < ev_created_norm l then True
      else if ev_created_norm l < ev_created_norm r then False
      else ev_id r < ev_id l)"

definition event_row :: "EventRow list \<Rightarrow> string \<Rightarrow> EventRow option" where
  "event_row events i = find (\<lambda>e. ev_id e = i) events"

datatype refine_error = RefineInvalid string | RefineNotFound string | RefineNoRow | RefineContention

definition EventIsStrictlyAfter :: "EventRow list \<Rightarrow> string \<Rightarrow> string \<Rightarrow> refine_error + bool" where
  "EventIsStrictlyAfter events left right =
     (case (event_row events left, event_row events right) of
        (Some l, Some r) \<Rightarrow> Inr (later_row l r)
      | _ \<Rightarrow> Inl (RefineInvalid ''missing events''))"

definition FindEventSessionID :: "EventRow list \<Rightarrow> string \<Rightarrow> refine_error + string option" where
  "FindEventSessionID events i =
     (case event_row events i of
        None \<Rightarrow> Inr None
      | Some e \<Rightarrow> (case SessionIDFrom (ev_session_id e) of
                    Inl _ \<Rightarrow> Inl (RefineInvalid ''stored session id'') | Inr s \<Rightarrow> Inr (Some s)))"

fun first_row :: "EventRow list \<Rightarrow> EventRow option" where
  "first_row [] = None"
| "first_row (e # es) = (case first_row es of None \<Rightarrow> Some e | Some f \<Rightarrow> Some (if later_row e f then f else e))"

definition EarliestEventID :: "EventRow list \<Rightarrow> string \<Rightarrow> refine_error + string option" where
  "EarliestEventID events sid =
     (case first_row (filter (\<lambda>e. ev_session_id e = sid) events) of
        None \<Rightarrow> Inr None
      | Some e \<Rightarrow> (case EventIDFrom (ev_id e) of
                    Inl _ \<Rightarrow> Inl (RefineInvalid ''stored event id'') | Inr i \<Rightarrow> Inr (Some i)))"

section \<open>The refinement\<close>

record SessionRefinement =
  sr_session_id :: string
  sr_generation :: int
  sr_covers_from :: string
  sr_covers_to :: string
  sr_summary :: string
  sr_keywords :: string
  sr_produced_by :: string
  sr_produced_at :: gotime
  sr_degraded :: bool
  sr_has_agent_reasoning :: bool

definition refinement_validate :: "SessionRefinement option \<Rightarrow> refine_error + unit" where
  "refinement_validate receiver =
     (case receiver of
        None \<Rightarrow> Inl (RefineInvalid ''nil'')
      | Some r \<Rightarrow>
          if trim_space (sr_session_id r) = '''' then Inl (RefineInvalid ''session id'')
          else if sr_generation r < 1 then Inl (RefineInvalid ''generation'')
          else if trim_space (sr_covers_from r) = '''' then Inl (RefineInvalid ''covers_from'')
          else if trim_space (sr_covers_to r) = '''' then Inl (RefineInvalid ''covers_to'')
          else if sr_summary r = '''' then Inl (RefineInvalid ''summary'')
          else if sr_produced_by r = '''' then Inl (RefineInvalid ''produced_by'')
          else if is_zero (sr_produced_at r) then Inl (RefineInvalid ''produced_at'')
          else Inr ())"

definition NewSessionRefinement ::
    "string \<Rightarrow> int \<Rightarrow> string \<Rightarrow> string \<Rightarrow> string \<Rightarrow> string \<Rightarrow> string \<Rightarrow> gotime \<Rightarrow> bool \<Rightarrow> refine_error + SessionRefinement" where
  "NewSessionRefinement sessionID generation coversFrom coversTo summary keywords producedBy producedAt degraded =
     (let r = \<lparr>sr_session_id = sessionID, sr_generation = generation, sr_covers_from = coversFrom,
               sr_covers_to = coversTo, sr_summary = trim_space summary, sr_keywords = keywords,
               sr_produced_by = trim_space producedBy, sr_produced_at = utc producedAt, sr_degraded = degraded,
               sr_has_agent_reasoning = (\<not> degraded)\<rparr>
      in case refinement_validate (Some r) of Inl e \<Rightarrow> Inl e | Inr _ \<Rightarrow> Inr r)"

definition WithHasAgentReasoning :: "SessionRefinement option \<Rightarrow> bool \<Rightarrow> SessionRefinement option" where
  "WithHasAgentReasoning receiver has = map_option (\<lambda>r. r\<lparr>sr_has_agent_reasoning := has\<rparr>) receiver"

definition SessionRefinementOf ::
    "string \<Rightarrow> int \<Rightarrow> string \<Rightarrow> string \<Rightarrow> string \<Rightarrow> string \<Rightarrow> string \<Rightarrow> gotime \<Rightarrow> bool \<Rightarrow> bool
      \<Rightarrow> refine_error + SessionRefinement" where
  "SessionRefinementOf sessionID generation coversFrom coversTo summary keywords producedBy producedAt degraded hasAgent =
     (case NewSessionRefinement sessionID generation coversFrom coversTo summary keywords producedBy producedAt degraded of
        Inl e \<Rightarrow> Inl e
      | Inr r \<Rightarrow> Inr (r\<lparr>sr_has_agent_reasoning := hasAgent\<rparr>))"

datatype SessionRefineOutcome = SessionRefineOutcomeCreated | SessionRefineOutcomeSuperseded | SessionRefineOutcomeUnchanged

record SessionRefineResult =
  rr_outcome :: SessionRefineOutcome
  rr_refinement :: SessionRefinement

section \<open>The repository\<close>

record RefineStore =
  rs_sessions :: "string list"
  rs_events :: "EventRow list"
  rs_rows :: "SessionRefinement list"

definition refinement_row :: "SessionRefinement list \<Rightarrow> string \<Rightarrow> SessionRefinement option" where
  "refinement_row rows sid = find (\<lambda>r. sr_session_id r = sid) rows"

definition scanSessionRefinement :: "SessionRefinement \<Rightarrow> refine_error + SessionRefinement" where
  "scanSessionRefinement r =
     SessionRefinementOf (sr_session_id r) (sr_generation r) (sr_covers_from r) (sr_covers_to r) (sr_summary r)
       (sr_keywords r) (sr_produced_by r) (sr_produced_at r) (sr_degraded r) (sr_has_agent_reasoning r)"

definition FindBySessionID :: "RefineStore \<Rightarrow> string \<Rightarrow> refine_error + SessionRefinement option" where
  "FindBySessionID st sid =
     (case refinement_row (rs_rows st) sid of
        None \<Rightarrow> Inr None
      | Some r \<Rightarrow> (case scanSessionRefinement r of Inl e \<Rightarrow> Inl e | Inr v \<Rightarrow> Inr (Some v)))"

text \<open>
  The guarded upsert. A scalar comparison over a missing event is NULL and refuses the update. The stored
  time is the instant in UTC without the monotonic reading.
\<close>

definition upper_advances :: "EventRow list \<Rightarrow> SessionRefinement \<Rightarrow> SessionRefinement \<Rightarrow> bool" where
  "upper_advances events old new =
     (case (event_row events (sr_covers_to new), event_row events (sr_covers_to old)) of
        (Some l, Some r) \<Rightarrow> later_row l r | _ \<Rightarrow> False)"

definition lower_keeps :: "EventRow list \<Rightarrow> SessionRefinement \<Rightarrow> SessionRefinement \<Rightarrow> bool" where
  "lower_keeps events old new =
     (case (event_row events (sr_covers_from new), event_row events (sr_covers_from old)) of
        (Some l, Some r) \<Rightarrow>
          if ev_created_norm l < ev_created_norm r then True
          else if ev_created_norm r < ev_created_norm l then False
          else ev_id l \<le> ev_id r
      | _ \<Rightarrow> False)"

definition SaveIfAdvances :: "RefineStore \<Rightarrow> SessionRefinement option \<Rightarrow> int \<Rightarrow> (refine_error + bool) \<times> RefineStore" where
  "SaveIfAdvances st refinement expectedGeneration =
     (case refinement of
        None \<Rightarrow> (Inl (RefineInvalid ''nil''), st)
      | Some n \<Rightarrow>
          let new = n\<lparr>sr_produced_at := round0 (utc (sr_produced_at n))\<rparr>
          in case refinement_row (rs_rows st) (sr_session_id n) of
               None \<Rightarrow>
                 if expectedGeneration = 0 then (Inr True, st\<lparr>rs_rows := rs_rows st @ [new]\<rparr>) else (Inr False, st)
             | Some old \<Rightarrow>
                 if sr_generation old = expectedGeneration \<and> upper_advances (rs_events st) old new
                    \<and> lower_keeps (rs_events st) old new
                 then (Inr True, st\<lparr>rs_rows := map (\<lambda>r. if sr_session_id r = sr_session_id n then new else r) (rs_rows st)\<rparr>)
                 else (Inr False, st))"

section \<open>The write port\<close>

record SessionRefineInput =
  ri_session_id :: string
  ri_summary :: string
  ri_keywords :: string
  ri_produced_by :: string
  ri_covers_to :: string
  ri_degraded :: bool
  ri_has_agent_reasoning :: bool
  ri_coverage_only :: bool

definition refineHasAgentReasoning :: "SessionRefineInput \<Rightarrow> SessionRefinement option \<Rightarrow> bool" where
  "refineHasAgentReasoning input current =
     (if (case current of Some existing \<Rightarrow> sr_has_agent_reasoning existing | None \<Rightarrow> False) then True else if \<not> ri_degraded input then True else ri_has_agent_reasoning input)"

definition sessionRefineMaxAttempts :: nat where "sessionRefineMaxAttempts = 3"

text \<open>
  What a writer does with the row it read: it has an answer, or it attempts to write a refinement under the
  generation of that row.
\<close>

datatype decision = Answer SessionRefineResult | Attempt SessionRefinement int SessionRefineOutcome

definition advanceCoverageOnly ::
    "EventRow list \<Rightarrow> SessionRefinement option \<Rightarrow> string \<Rightarrow> string \<Rightarrow> gotime \<Rightarrow> refine_error + decision" where
  "advanceCoverageOnly events current sessionID coversTo now =
     (case current of
        None \<Rightarrow> Inl RefineNoRow
      | Some existing \<Rightarrow>
          andThen (EventIsStrictlyAfter events coversTo (sr_covers_to existing)) (\<lambda>after.
            if \<not> after then Inr (Answer \<lparr>rr_outcome = SessionRefineOutcomeUnchanged, rr_refinement = existing\<rparr>)
            else andThen (NewSessionRefinement sessionID (sr_generation existing + 1) (sr_covers_from existing) coversTo
                           (sr_summary existing) (sr_keywords existing) (sr_produced_by existing) now
                           (sr_degraded existing)) (\<lambda>next.
                 Inr (Attempt (next\<lparr>sr_has_agent_reasoning := sr_has_agent_reasoning existing\<rparr>)
                        (sr_generation existing) SessionRefineOutcomeSuperseded))))"

definition decide ::
    "EventRow list \<Rightarrow> SessionRefinement option \<Rightarrow> SessionRefineInput \<Rightarrow> string \<Rightarrow> string \<Rightarrow> string \<Rightarrow> gotime
      \<Rightarrow> refine_error + decision" where
  "decide events current input sessionID coversTo producedBy now =
     (if ri_coverage_only input then advanceCoverageOnly events current sessionID coversTo now
      else (case current of
              Some existing \<Rightarrow>
                andThen (EventIsStrictlyAfter events coversTo (sr_covers_to existing)) (\<lambda>after.
                  if \<not> after then Inr (Answer \<lparr>rr_outcome = SessionRefineOutcomeUnchanged, rr_refinement = existing\<rparr>)
                  else andThen (NewSessionRefinement sessionID (sr_generation existing + 1) (sr_covers_from existing)
                                 coversTo (ri_summary input) (ri_keywords input) producedBy now (ri_degraded input))
                         (\<lambda>next. Inr (Attempt (next\<lparr>sr_has_agent_reasoning := refineHasAgentReasoning input current\<rparr>)
                                          (sr_generation existing) SessionRefineOutcomeSuperseded)))
            | None \<Rightarrow>
                andThen (EarliestEventID events sessionID) (\<lambda>earliest.
                  case earliest of
                    None \<Rightarrow> Inl (RefineInvalid ''no events'')
                  | Some coversFrom \<Rightarrow>
                      andThen (NewSessionRefinement sessionID 1 coversFrom coversTo (ri_summary input)
                                (ri_keywords input) producedBy now (ri_degraded input))
                        (\<lambda>created. Inr (Attempt created 0 SessionRefineOutcomeCreated)))))"

text \<open>
  One attempt. Between reading and writing the rest of the world acts once (\<open>world\<close>); \<open>None\<close> reports a lost
  compare-and-swap.
\<close>

definition decideAndWrite ::
    "(RefineStore \<Rightarrow> RefineStore) \<Rightarrow> RefineStore \<Rightarrow> SessionRefineInput \<Rightarrow> string \<Rightarrow> string \<Rightarrow> string \<Rightarrow> gotime
      \<Rightarrow> (refine_error + SessionRefineResult option) \<times> RefineStore" where
  "decideAndWrite world st input sessionID coversTo producedBy now =
     (case andThen (FindBySessionID st sessionID)
             (\<lambda>current. decide (rs_events st) current input sessionID coversTo producedBy now) of
        Inl e \<Rightarrow> (Inl e, world st)
      | Inr (Answer result) \<Rightarrow> (Inr (Some result), world st)
      | Inr (Attempt next expected outcome) \<Rightarrow>
          (case SaveIfAdvances (world st) (Some next) expected of
             (Inl e, st') \<Rightarrow> (Inl e, st')
           | (Inr advanced, st') \<Rightarrow>
               (Inr (if advanced then Some \<lparr>rr_outcome = outcome, rr_refinement = next\<rparr> else None), st')))"

fun attempts ::
    "((RefineStore \<Rightarrow> RefineStore) \<times> gotime) list \<Rightarrow> RefineStore \<Rightarrow> SessionRefineInput \<Rightarrow> string \<Rightarrow> string \<Rightarrow> string
      \<Rightarrow> (refine_error + SessionRefineResult) \<times> RefineStore" where
  "attempts [] st input sessionID coversTo producedBy = (Inl RefineContention, st)"
| "attempts ((world, now) # later_worlds) st input sessionID coversTo producedBy =
     (case decideAndWrite world st input sessionID coversTo producedBy now of
        (Inl e, st') \<Rightarrow> (Inl e, st')
      | (Inr (Some result), st') \<Rightarrow> (Inr result, st')
      | (Inr None, st') \<Rightarrow> attempts later_worlds st' input sessionID coversTo producedBy)"

definition Refine ::
    "((RefineStore \<Rightarrow> RefineStore) \<times> gotime) list \<Rightarrow> RefineStore \<Rightarrow> SessionRefineInput
      \<Rightarrow> (refine_error + SessionRefineResult) \<times> RefineStore" where
  "Refine worlds st input =
     (case (SessionIDFrom (trim_space (ri_session_id input)), EventIDFrom (trim_space (ri_covers_to input))) of
        (Inr sessionID, Inr coversTo) \<Rightarrow>
          let producedBy = trim_space (ri_produced_by input)
          in if producedBy = '''' then (Inl (RefineInvalid ''produced_by''), st)
             else if \<not> List.member (rs_sessions st) sessionID then (Inl (RefineNotFound sessionID), st)
             else (case FindEventSessionID (rs_events st) coversTo of
                     Inl e \<Rightarrow> (Inl e, st)
                   | Inr None \<Rightarrow> (Inl (RefineInvalid ''covers_to not found''), st)
                   | Inr (Some ownedBy) \<Rightarrow>
                       if ownedBy \<noteq> sessionID then (Inl (RefineInvalid ''foreign covers_to''), st)
                       else attempts (take sessionRefineMaxAttempts worlds) st input sessionID coversTo producedBy)
      | _ \<Rightarrow> (Inl (RefineInvalid ''identity''), st))"

section \<open>Order and coverage\<close>

lemma later_row_alt:
  "later_row l r \<longleftrightarrow> ev_created_norm r < ev_created_norm l \<or> ev_created_norm r = ev_created_norm l \<and> ev_id r < ev_id l"
  by (auto simp: later_row_def)

lemma later_row_trans: "later_row a b \<Longrightarrow> later_row b c \<Longrightarrow> later_row a c"
  by (auto simp: later_row_alt)

lemma later_row_irrefl [simp]: "\<not> later_row a a"
  by (simp add: later_row_alt)

definition not_later :: "EventRow \<Rightarrow> EventRow \<Rightarrow> bool" where
  "not_later l r \<longleftrightarrow> ev_created_norm l < ev_created_norm r \<or> ev_created_norm l = ev_created_norm r \<and> ev_id l \<le> ev_id r"

lemma not_later_trans: "not_later a b \<Longrightarrow> not_later b c \<Longrightarrow> not_later a c"
  by (auto simp: not_later_def)

lemma not_later_iff: "not_later l r \<longleftrightarrow> \<not> later_row l r"
  by (auto simp: not_later_def later_row_alt)

lemma upper_advances_iff:
  "upper_advances events old new \<longleftrightarrow>
     (\<exists>l r. event_row events (sr_covers_to new) = Some l \<and> event_row events (sr_covers_to old) = Some r \<and> later_row l r)"
  by (auto simp: upper_advances_def split: option.splits)

lemma lower_keeps_iff:
  "lower_keeps events old new \<longleftrightarrow>
     (\<exists>l r. event_row events (sr_covers_from new) = Some l \<and> event_row events (sr_covers_from old) = Some r \<and> not_later l r)"
  by (auto simp: lower_keeps_def not_later_def split: option.splits)

text \<open>A later version of a row: the same one, or a wider one of a later generation that forgets no reasoning.\<close>

definition widens :: "EventRow list \<Rightarrow> SessionRefinement \<Rightarrow> SessionRefinement \<Rightarrow> bool" where
  "widens events old new \<longleftrightarrow>
     new = old
     \<or> sr_generation old < sr_generation new \<and> upper_advances events old new \<and> lower_keeps events old new
       \<and> (sr_has_agent_reasoning old \<longrightarrow> sr_has_agent_reasoning new)"

lemma widens_refl [simp]: "widens events r r"
  by (simp add: widens_def)

lemma widens_trans:
  assumes "widens events a b" "widens events b c" shows "widens events a c"
proof (cases "a = b \<or> b = c")
  case False
  then have ab: "sr_generation a < sr_generation b" "upper_advances events a b" "lower_keeps events a b"
      "sr_has_agent_reasoning a \<longrightarrow> sr_has_agent_reasoning b"
    and bc: "sr_generation b < sr_generation c" "upper_advances events b c" "lower_keeps events b c"
      "sr_has_agent_reasoning b \<longrightarrow> sr_has_agent_reasoning c"
    using assms by (auto simp: widens_def)
  have "upper_advances events a c" using ab(2) bc(2) later_row_trans by (auto simp: upper_advances_iff)
  moreover have "lower_keeps events a c" using ab(3) bc(3) not_later_trans by (auto simp: lower_keeps_iff)
  ultimately show ?thesis using ab bc by (auto simp: widens_def)
qed (use assms in auto)

lemma event_row_append: "event_row events i = Some e \<Longrightarrow> event_row (events @ new_events) i = Some e"
  by (induction events) (auto simp: event_row_def split: if_splits)

lemma widens_more: "widens events a b \<Longrightarrow> widens (events @ new_events) a b"
proof -
  have "upper_advances events a b \<Longrightarrow> upper_advances (events @ new_events) a b"
    using event_row_append unfolding upper_advances_iff by blast
  moreover have "lower_keeps events a b \<Longrightarrow> lower_keeps (events @ new_events) a b"
    using event_row_append unfolding lower_keeps_iff by blast
  ultimately show "widens events a b \<Longrightarrow> widens (events @ new_events) a b" by (auto simp: widens_def)
qed

section \<open>Concurrent writers\<close>

record Writers =
  w_store :: RefineStore
  w_pending :: "(SessionRefinement option \<times> SessionRefinement \<times> int) list"

inductive writers_init :: "Writers \<Rightarrow> bool" where
  "writers_init \<lparr>w_store = \<lparr>rs_sessions = ss, rs_events = es, rs_rows = []\<rparr>, w_pending = []\<rparr>"

inductive writers_step :: "Writers \<Rightarrow> Writers \<Rightarrow> bool" where
  observed: "writers_step w (w\<lparr>w_store := (w_store w)\<lparr>rs_events := rs_events (w_store w) @ [e]\<rparr>\<rparr>)"
| decided: "FindBySessionID (w_store w) sid = Inr current \<Longrightarrow>
    decide (rs_events (w_store w)) current input sid to by now = Inr (Attempt next expected outcome) \<Longrightarrow>
    writers_step w (w\<lparr>w_pending := w_pending w @ [(current, next, expected)]\<rparr>)"
| saved: "(current, next, expected) \<in> set (w_pending w) \<Longrightarrow>
    SaveIfAdvances (w_store w) (Some next) expected = (res, st') \<Longrightarrow> writers_step w (w\<lparr>w_store := st'\<rparr>)"

text \<open>A row as the table holds it, and what is known of an outstanding attempt.\<close>

definition row_ok :: "SessionRefinement \<Rightarrow> bool" where
  "row_ok r \<longleftrightarrow> scanSessionRefinement r = Inr r"

definition attempt_ok :: "SessionRefinement option \<times> SessionRefinement \<times> int \<Rightarrow> bool" where
  "attempt_ok a \<longleftrightarrow>
     (case a of
        (None, next, expected) \<Rightarrow> expected = 0
      | (Some old, next, expected) \<Rightarrow>
          expected = sr_generation old \<and> 1 \<le> sr_generation old \<and> sr_generation next = sr_generation old + 1
          \<and> sr_session_id next = sr_session_id old \<and> (sr_has_agent_reasoning old \<longrightarrow> sr_has_agent_reasoning next))
     \<and> row_ok ((fst (snd a))\<lparr>sr_produced_at := round0 (utc (sr_produced_at (fst (snd a))))\<rparr>)"

definition attempt_fresh :: "SessionRefinement list \<Rightarrow> SessionRefinement option \<times> SessionRefinement \<times> int \<Rightarrow> bool" where
  "attempt_fresh rows a \<longleftrightarrow>
     (case fst a of
        None \<Rightarrow> True
      | Some old \<Rightarrow> \<exists>r. refinement_row rows (sr_session_id old) = Some r \<and> sr_generation old \<le> sr_generation r
                     \<and> (sr_generation r = sr_generation old \<longrightarrow> r = old))"

definition writers_wf :: "Writers \<Rightarrow> bool" where
  "writers_wf w \<longleftrightarrow>
     (let rows = rs_rows (w_store w)
      in distinct (map sr_session_id rows) \<and> list_all row_ok rows
         \<and> list_all attempt_ok (w_pending w) \<and> list_all (attempt_fresh rows) (w_pending w))"

lemma New_Inr:
  assumes "NewSessionRefinement sid gen from to summary keywords by at degraded = Inr r"
  shows "sr_session_id r = sid" "sr_generation r = gen" "sr_covers_from r = from" "sr_covers_to r = to" "1 \<le> gen"
    "row_ok (r\<lparr>sr_has_agent_reasoning := h, sr_produced_at := round0 (utc (sr_produced_at r))\<rparr>)"
  using assms
  by (auto simp: NewSessionRefinement_def refinement_validate_def row_ok_def scanSessionRefinement_def
      SessionRefinementOf_def Let_def round0_utc_commute [symmetric] split: if_splits)

lemma row_ok_generation: "row_ok r \<Longrightarrow> 1 \<le> sr_generation r"
  by (auto simp: row_ok_def scanSessionRefinement_def SessionRefinementOf_def dest: New_Inr(5) split: sum.splits)

lemma built_attempt:
  assumes n: "NewSessionRefinement (sr_session_id old) (sr_generation old + 1) (sr_covers_from old) bound summ kws author now deg = Inr r"
    and h: "sr_has_agent_reasoning old \<longrightarrow> h" and g: "1 \<le> sr_generation old"
  shows "attempt_ok (Some old, r\<lparr>sr_has_agent_reasoning := h\<rparr>, sr_generation old)
    \<and> sr_session_id r = sr_session_id old \<and> sr_covers_to r = bound \<and> sr_covers_from r = sr_covers_from old"
  using New_Inr(1-4) [OF n] New_Inr(6) [OF n, of h] h g by (simp add: attempt_ok_def)

lemma decide_created:
  assumes d: "decide events None input sid bound author now = Inr (Attempt nxt expected outcome)"
  obtains from_id where "expected = 0"
    "NewSessionRefinement sid 1 from_id bound (ri_summary input) (ri_keywords input) author now (ri_degraded input) = Inr nxt"
proof -
  have nc: "\<not> ri_coverage_only input" using d by (auto simp: decide_def advanceCoverageOnly_def)
  obtain from_id where e: "EarliestEventID events sid = Inr (Some from_id)"
    using d nc by (cases "EarliestEventID events sid") (auto simp: decide_def split: option.splits)
  show thesis
    using d nc e that
    by (cases "NewSessionRefinement sid 1 from_id bound (ri_summary input) (ri_keywords input) author now (ri_degraded input)")
       (auto simp: decide_def)
qed

lemma decide_superseded:
  assumes d: "decide events (Some old) input sid bound author now = Inr (Attempt nxt expected outcome)"
  obtains r h summ kws by_whom deg where "expected = sr_generation old" "nxt = r\<lparr>sr_has_agent_reasoning := h\<rparr>"
    "sr_has_agent_reasoning old \<longrightarrow> h" "EventIsStrictlyAfter events bound (sr_covers_to old) = Inr True"
    "NewSessionRefinement sid (sr_generation old + 1) (sr_covers_from old) bound summ kws by_whom now deg = Inr r"
proof -
  have after: "EventIsStrictlyAfter events bound (sr_covers_to old) = Inr True"
    using d by (cases "EventIsStrictlyAfter events bound (sr_covers_to old)")
      (auto simp: decide_def advanceCoverageOnly_def split: if_splits)
  have h: "sr_has_agent_reasoning old \<longrightarrow> refineHasAgentReasoning input (Some old)" by (simp add: refineHasAgentReasoning_def)
  show thesis
  proof (cases "ri_coverage_only input")
    case True
    then show thesis
      using d after that [OF _ _ _ after, of "sr_has_agent_reasoning old" _ "sr_summary old" "sr_keywords old" "sr_produced_by old" "sr_degraded old"]
      by (cases "NewSessionRefinement sid (sr_generation old + 1) (sr_covers_from old) bound (sr_summary old)
            (sr_keywords old) (sr_produced_by old) now (sr_degraded old)")
         (auto simp: decide_def advanceCoverageOnly_def)
  next
    case False
    then show thesis
      using d after h that [OF _ _ _ after, of "refineHasAgentReasoning input (Some old)" _ "ri_summary input" "ri_keywords input" author "ri_degraded input"]
      by (cases "NewSessionRefinement sid (sr_generation old + 1) (sr_covers_from old) bound (ri_summary input)
            (ri_keywords input) author now (ri_degraded input)")
         (auto simp: decide_def)
  qed
qed

lemma decide_attempt:
  assumes d: "decide events current input sid bound author now = Inr (Attempt nxt expected outcome)"
    and c: "\<And>old. current = Some old \<Longrightarrow> sr_session_id old = sid \<and> 1 \<le> sr_generation old"
  shows "attempt_ok (current, nxt, expected) \<and> sr_session_id nxt = sid \<and> sr_covers_to nxt = bound
    \<and> (\<forall>old. current = Some old \<longrightarrow> EventIsStrictlyAfter events bound (sr_covers_to old) = Inr True
          \<and> sr_covers_from nxt = sr_covers_from old)"
proof (cases current)
  case None
  obtain from_id where e: "expected = 0"
    and n: "NewSessionRefinement sid 1 from_id bound (ri_summary input) (ri_keywords input) author now (ri_degraded input) = Inr nxt"
    using d [unfolded None] by (rule decide_created)
  have "nxt\<lparr>sr_has_agent_reasoning := sr_has_agent_reasoning nxt\<rparr> = nxt" by simp
  then show ?thesis
    using None e New_Inr(1,4) [OF n] New_Inr(6) [OF n, of "sr_has_agent_reasoning nxt"] by (simp add: attempt_ok_def)
next
  case (Some old)
  have old: "sid = sr_session_id old" "1 \<le> sr_generation old" using c [OF Some] by simp_all
  obtain r h summ kws by_whom deg where x: "expected = sr_generation old" "nxt = r\<lparr>sr_has_agent_reasoning := h\<rparr>"
    "sr_has_agent_reasoning old \<longrightarrow> h" "EventIsStrictlyAfter events bound (sr_covers_to old) = Inr True"
    "NewSessionRefinement sid (sr_generation old + 1) (sr_covers_from old) bound summ kws by_whom now deg = Inr r"
    using d [unfolded Some] by (rule decide_superseded)
  show ?thesis using built_attempt [OF x(5) [unfolded old(1)] x(3) old(2)] x(1,2,4) Some old(1) by simp
qed

lemma row_append: "refinement_row rows s = Some r \<Longrightarrow> refinement_row (rows @ [n]) s = Some r"
  by (induction rows) (auto simp: refinement_row_def)

lemma row_replace_other:
  "sr_session_id n = s \<Longrightarrow> i \<noteq> s \<Longrightarrow>
    refinement_row (map (\<lambda>r. if sr_session_id r = s then n else r) rows) i = refinement_row rows i"
  by (induction rows) (auto simp: refinement_row_def)

lemma row_replace:
  "sr_session_id n = s \<Longrightarrow> refinement_row rows s = Some old \<Longrightarrow>
    refinement_row (map (\<lambda>r. if sr_session_id r = s then n else r) rows) s = Some n"
  by (induction rows) (auto simp: refinement_row_def split: if_splits)

lemma row_in: "refinement_row rows s = Some r \<Longrightarrow> r \<in> set rows \<and> sr_session_id r = s"
  by (auto simp: refinement_row_def find_Some_iff)

lemma row_None: "refinement_row rows s = None \<longleftrightarrow> s \<notin> set (map sr_session_id rows)"
  by (auto simp: refinement_row_def find_None_iff)

lemma FindBySessionID_row:
  assumes "list_all row_ok (rs_rows st)"
  shows "FindBySessionID st sid = Inr (refinement_row (rs_rows st) sid)"
proof (cases "refinement_row (rs_rows st) sid")
  case (Some r)
  then have "row_ok r" using assms row_in [OF Some] by (simp add: list_all_iff)
  then show ?thesis using Some by (simp add: FindBySessionID_def row_ok_def)
qed (simp add: FindBySessionID_def)

text \<open>A successful write replaces exactly the row its writer had read, by a wider one.\<close>

lemma save_effect:
  assumes wf: "writers_wf w" and p: "(current, n, expected) \<in> set (w_pending w)"
    and s: "SaveIfAdvances (w_store w) (Some n) expected = (res, st')"
  defines "new \<equiv> n\<lparr>sr_produced_at := round0 (utc (sr_produced_at n))\<rparr>"
  obtains (refused) "st' = w_store w"
  | (inserted) "refinement_row (rs_rows (w_store w)) (sr_session_id n) = None" "current = None"
      "st' = (w_store w)\<lparr>rs_rows := rs_rows (w_store w) @ [new]\<rparr>"
  | (replaced) old where "current = Some old" "refinement_row (rs_rows (w_store w)) (sr_session_id n) = Some old"
      "sr_generation new = sr_generation old + 1" "widens (rs_events (w_store w)) old new"
      "st' = (w_store w)\<lparr>rs_rows := map (\<lambda>r. if sr_session_id r = sr_session_id n then new else r) (rs_rows (w_store w))\<rparr>"
proof -
  have a: "attempt_ok (current, n, expected)" and f: "attempt_fresh (rs_rows (w_store w)) (current, n, expected)"
    and rows: "list_all row_ok (rs_rows (w_store w))"
    using wf p by (auto simp: writers_wf_def Let_def list_all_iff)
  show thesis
  proof (cases "refinement_row (rs_rows (w_store w)) (sr_session_id n)")
    case None
    show thesis
    proof (cases current)
      case (Some old)
      then have "sr_session_id n = sr_session_id old" using a by (simp add: attempt_ok_def)
      then show thesis using f Some None by (simp add: attempt_fresh_def)
    next
      case cn: None
      then show thesis using s None a inserted refused by (auto simp: SaveIfAdvances_def Let_def new_def attempt_ok_def split: if_splits)
    qed
  next
    case (Some r)
    then have g: "1 \<le> sr_generation r" using rows row_in [OF Some] row_ok_generation by (auto simp: list_all_iff)
    show thesis
    proof (cases "sr_generation r = expected \<and> upper_advances (rs_events (w_store w)) r new
        \<and> lower_keeps (rs_events (w_store w)) r new")
      case False
      then have "st' = w_store w" using s Some by (auto simp: SaveIfAdvances_def Let_def new_def split: if_splits)
      then show thesis by (rule refused)
    next
      case True
      then obtain old where old: "current = Some old" using a g by (cases current) (auto simp: attempt_ok_def)
      then have e: "expected = sr_generation old" "sr_session_id n = sr_session_id old" "sr_generation n = sr_generation old + 1"
        "sr_has_agent_reasoning old \<longrightarrow> sr_has_agent_reasoning n" using a by (auto simp: attempt_ok_def)
      then have "r = old" using f old Some True by (auto simp: attempt_fresh_def)
      then have "widens (rs_events (w_store w)) old new" "sr_generation new = sr_generation old + 1"
        using True e by (auto simp: widens_def new_def)
      moreover have "st' = (w_store w)\<lparr>rs_rows := map (\<lambda>r. if sr_session_id r = sr_session_id n then new else r) (rs_rows (w_store w))\<rparr>"
        using s Some True by (auto simp: SaveIfAdvances_def Let_def new_def)
      ultimately show thesis using replaced [OF old] Some \<open>r = old\<close> by simp
    qed
  qed
qed

lemma fresh_append: "attempt_fresh rows a \<Longrightarrow> attempt_fresh (rows @ [n]) a"
  using row_append by (fastforce simp: attempt_fresh_def split: option.splits)

lemma fresh_replace:
  assumes f: "attempt_fresh rows a" and old: "refinement_row rows (sr_session_id new) = Some old"
    and g: "sr_generation old < sr_generation new"
  shows "attempt_fresh (map (\<lambda>r. if sr_session_id r = sr_session_id new then new else r) rows) a"
proof (cases "fst a")
  case (Some b)
  then obtain r where r: "refinement_row rows (sr_session_id b) = Some r" "sr_generation b \<le> sr_generation r"
    "sr_generation r = sr_generation b \<longrightarrow> r = b" using f by (auto simp: attempt_fresh_def)
  show ?thesis
  proof (cases "sr_session_id b = sr_session_id new")
    case True
    then have "r = old" using r(1) old by simp
    then show ?thesis using Some True r(2) g row_replace [OF refl old] by (simp add: attempt_fresh_def)
  next
    case False
    then show ?thesis using Some r row_replace_other [OF refl False] by (simp add: attempt_fresh_def)
  qed
qed (simp add: attempt_fresh_def)

lemma writers_step_wf:
  assumes "writers_step w w'" "writers_wf w"
  shows "writers_wf w'"
  using assms
proof (induction rule: writers_step.induct)
  case (observed w e)
  then show ?case by (simp add: writers_wf_def)
next
  case (decided w sid current input bound author now nxt expected outcome)
  have rows: "list_all row_ok (rs_rows (w_store w))" using decided.prems by (simp add: writers_wf_def Let_def)
  have cur: "current = refinement_row (rs_rows (w_store w)) sid" using decided.hyps(1) FindBySessionID_row [OF rows] by simp
  have "sr_session_id old = sid \<and> 1 \<le> sr_generation old" if "current = Some old" for old
    using that cur row_in [of "rs_rows (w_store w)" sid old] rows row_ok_generation by (auto simp: list_all_iff)
  from decide_attempt [OF decided.hyps(2) this]
  have "attempt_ok (current, nxt, expected)" by blast
  moreover have "attempt_fresh (rs_rows (w_store w)) (current, nxt, expected)"
    using cur row_in [of "rs_rows (w_store w)" sid] by (auto simp: attempt_fresh_def split: option.split)
  ultimately show ?case using decided.prems by (simp add: writers_wf_def Let_def)
next
  case (saved current nxt expected w res st')
  let ?new = "nxt\<lparr>sr_produced_at := round0 (utc (sr_produced_at nxt))\<rparr>"
  have new: "row_ok ?new" using saved.hyps(1) saved.prems by (auto simp: writers_wf_def Let_def list_all_iff attempt_ok_def)
  from saved.prems saved.hyps show ?case
  proof (cases rule: save_effect)
    case refused
    then show ?thesis using saved.prems by (cases w) simp
  next
    case inserted
    then show ?thesis
      using saved.prems new fresh_append by (auto simp: writers_wf_def Let_def row_None list_all_iff)
  next
    case (replaced old)
    let ?rows = "map (\<lambda>r. if sr_session_id r = sr_session_id nxt then ?new else r) (rs_rows (w_store w))"
    have "map sr_session_id ?rows = map sr_session_id (rs_rows (w_store w))" by simp
    then have "distinct (map sr_session_id ?rows)" using saved.prems by (metis writers_wf_def)
    moreover have "list_all row_ok ?rows" using saved.prems new by (auto simp: writers_wf_def Let_def list_all_iff)
    moreover have "attempt_fresh (map (\<lambda>r. if sr_session_id r = sr_session_id nxt then ?new else r) (rs_rows (w_store w))) a"
      if "attempt_fresh (rs_rows (w_store w)) a" for a
      using fresh_replace [of _ a ?new old] that replaced(2,3) by simp
    ultimately show ?thesis
      using saved.prems replaced(5) by (simp add: writers_wf_def Let_def list_all_iff del: map_map)
  qed
qed

definition seen :: "string \<times> SessionRefinement \<Rightarrow> Writers \<Rightarrow> bool" where
  "seen k w \<longleftrightarrow> (case refinement_row (rs_rows (w_store w)) (fst k) of
     None \<Rightarrow> False | Some r \<Rightarrow> widens (rs_events (w_store w)) (snd k) r)"

lemma writers_step_seen:
  assumes "writers_step w w'" "writers_wf w" "seen k w"
  shows "seen k w'"
  using assms
proof (induction rule: writers_step.induct)
  case (observed w e)
  then show ?case using widens_more by (auto simp: seen_def split: option.splits)
next
  case (decided w sid current input bound author now nxt expected outcome)
  then show ?case by (simp add: seen_def split: option.splits)
next
  case (saved current nxt expected w res st')
  obtain r where r: "refinement_row (rs_rows (w_store w)) (fst k) = Some r" "widens (rs_events (w_store w)) (snd k) r"
    using saved.prems(2) by (auto simp: seen_def split: option.splits)
  from saved.prems(1) saved.hyps show ?case
  proof (cases rule: save_effect)
    case refused
    then show ?thesis using saved.prems by (simp add: seen_def)
  next
    case inserted
    then show ?thesis using r row_append by (fastforce simp: seen_def)
  next
    case (replaced old)
    let ?new = "nxt\<lparr>sr_produced_at := round0 (utc (sr_produced_at nxt))\<rparr>"
    have id: "sr_session_id ?new = sr_session_id nxt" by simp
    show ?thesis
    proof (cases "fst k = sr_session_id nxt")
      case True
      then have "widens (rs_events (w_store w)) (snd k) ?new" using r replaced(2,4) widens_trans by auto
      then show ?thesis using row_replace [OF id replaced(2)] replaced(5) True by (simp add: seen_def)
    next
      case False
      then show ?thesis using row_replace_other [OF id False] replaced(5) r by (simp add: seen_def)
    qed
  qed
qed

interpretation refinement_writers: sealed_machine writers_init writers_step writers_wf seen
proof
  show "writers_wf w" if "writers_init w" for w using that by (induction rule: writers_init.induct) (simp add: writers_wf_def)
qed (use writers_step_wf writers_step_seen in blast)+

section \<open>Properties\<close>

text \<open>
  C26: coverage only widens, whatever the interleaving. Writers that read at different times, decide and
  write in any order can only replace a session's row by one of a later generation whose upper bound is
  strictly later and whose lower bound is not later in canonical event order, and that still has the agent
  reasoning the row had. No row disappears and no lost update narrows what was covered.\<close>

theorem refinement_coverage_widens:
  assumes "reach writers_init writers_step w" and "writers_step\<^sup>*\<^sup>* w w'"
    and "refinement_row (rs_rows (w_store w)) sid = Some r"
  shows "\<exists>r'. refinement_row (rs_rows (w_store w')) sid = Some r' \<and> widens (rs_events (w_store w')) r r'"
proof -
  have "seen (sid, r) w" using assms(3) by (simp add: seen_def)
  then have "seen (sid, r) w'"
    using refinement_writers.sealed_forever [OF assms(2) refinement_writers.reach_inv [OF assms(1)]] by blast
  then show ?thesis by (auto simp: seen_def split: option.splits)
qed

lemma wf_rows: "writers_wf w \<Longrightarrow> list_all row_ok (rs_rows (w_store w))"
  by (simp add: writers_wf_def Let_def)

lemma undisturbed_save:
  assumes rows: "list_all row_ok (rs_rows st)"
    and bounds: "list_all (\<lambda>r. event_row (rs_events st) (sr_covers_from r) \<noteq> None) (rs_rows st)"
    and d: "decide (rs_events st) (refinement_row (rs_rows st) sid) input sid bound author now = Inr (Attempt nxt expected outcome)"
  shows "\<exists>st'. SaveIfAdvances st (Some nxt) expected = (Inr True, st')"
proof -
  have c: "sr_session_id old = sid \<and> 1 \<le> sr_generation old" if "refinement_row (rs_rows st) sid = Some old" for old
    using that row_in [OF that] rows row_ok_generation by (auto simp: list_all_iff)
  note facts = decide_attempt [OF d c]
  show ?thesis
  proof (cases "refinement_row (rs_rows st) sid")
    case None
    then show ?thesis using facts by (simp add: SaveIfAdvances_def Let_def attempt_ok_def)
  next
    case (Some old)
    then have a: "expected = sr_generation old" "EventIsStrictlyAfter (rs_events st) bound (sr_covers_to old) = Inr True"
      "sr_covers_from nxt = sr_covers_from old" "sr_covers_to nxt = bound" "sr_session_id nxt = sid"
      using facts by (auto simp: attempt_ok_def)
    obtain f where f: "event_row (rs_events st) (sr_covers_from old) = Some f"
      using bounds row_in [OF Some] by (auto simp: list_all_iff)
    have "upper_advances (rs_events st) old (nxt\<lparr>sr_produced_at := t\<rparr>)" for t
      using a(2,4) by (auto simp: upper_advances_def EventIsStrictlyAfter_def split: option.splits)
    moreover have "lower_keeps (rs_events st) old (nxt\<lparr>sr_produced_at := t\<rparr>)" for t
      using a(3) f by (simp add: lower_keeps_def)
    ultimately show ?thesis using a(1,5) Some by (simp add: SaveIfAdvances_def Let_def)
  qed
qed

lemma undisturbed_attempt:
  assumes "list_all row_ok (rs_rows st)"
    and "list_all (\<lambda>r. event_row (rs_events st) (sr_covers_from r) \<noteq> None) (rs_rows st)"
  shows "fst (decideAndWrite (\<lambda>s. s) st input sid bound author now) \<noteq> Inr None"
proof (cases "decide (rs_events st) (refinement_row (rs_rows st) sid) input sid bound author now")
  case (Inr dec)
  show ?thesis
  proof (cases dec)
    case (Attempt nxt expected outcome)
    then show ?thesis
      using undisturbed_save [OF assms Inr [unfolded Attempt]] Inr FindBySessionID_row [OF assms(1)]
      by (auto simp: decideAndWrite_def)
  qed (use Inr FindBySessionID_row [OF assms(1)] in \<open>simp add: decideAndWrite_def\<close>)
qed (use FindBySessionID_row [OF assms(1)] in \<open>simp add: decideAndWrite_def\<close>)

text \<open>
  C27: the compare-and-swap loop ends at once when nobody interferes. In every reachable store whose lower
  bounds are stored events, a writer that is not disturbed during its first attempt never retries: the
  result does not depend on any further attempt, and it never reports contention.\<close>

theorem refine_undisturbed_ends:
  assumes reach: "reach writers_init writers_step w"
    and bounds: "list_all (\<lambda>r. event_row (rs_events (w_store w)) (sr_covers_from r) \<noteq> None) (rs_rows (w_store w))"
  shows "Refine ((\<lambda>s. s, now) # worlds) (w_store w) input = Refine [(\<lambda>s. s, now)] (w_store w) input
    \<and> fst (Refine ((\<lambda>s. s, now) # worlds) (w_store w) input) \<noteq> Inl RefineContention"
proof -
  let ?st = "w_store w"
  have rows: "list_all row_ok (rs_rows ?st)" by (rule wf_rows [OF refinement_writers.reach_inv [OF reach]])
  have one: "attempts ((\<lambda>s. s, now) # ws) ?st input sid bound author
      = (case decideAndWrite (\<lambda>s. s) ?st input sid bound author now of
           (Inl e, st') \<Rightarrow> (Inl e, st') | (Inr None, st') \<Rightarrow> (Inl RefineContention, st')
         | (Inr (Some result), st') \<Rightarrow> (Inr result, st'))" for ws sid bound author
    using undisturbed_attempt [OF rows bounds, of input sid bound author now]
    by (auto split: prod.split sum.split option.split)
  have no_contention: "decide events cur input sid bound author now \<noteq> Inl RefineContention" for events cur sid bound author
    by (auto simp: decide_def advanceCoverageOnly_def andThen_def EventIsStrictlyAfter_def EarliestEventID_def
        NewSessionRefinement_def refinement_validate_def Let_def split: option.splits sum.splits if_splits)
  have nc: "fst (decideAndWrite (\<lambda>s. s) ?st input sid bound author now) \<noteq> Inl RefineContention" for sid bound author
    using no_contention [of "rs_events ?st" "refinement_row (rs_rows ?st) sid" sid bound author] FindBySessionID_row [OF rows, of sid]
    by (auto simp: decideAndWrite_def SaveIfAdvances_def Let_def split: sum.split decision.split option.split prod.split)
  have "fst (attempts ((\<lambda>s. s, now) # ws) ?st input sid bound author) \<noteq> Inl RefineContention" for ws sid bound author
    using undisturbed_attempt [OF rows bounds, of input sid bound author now] nc [of sid bound author]
    unfolding one by (auto split: prod.split sum.split option.split)
  then show ?thesis
    by (auto simp: Refine_def Let_def sessionRefineMaxAttempts_def FindEventSessionID_def one simp del: attempts.simps
        split: sum.split option.split)
qed

text \<open>
  a replay changes nothing. Refining a session again up to the bound its row already covers answers
  "unchanged" with the stored row and leaves the store as it was, whatever text, author or mode the caller sends.\<close>

theorem refine_replay_unchanged:
  assumes reach: "reach writers_init writers_step w"
    and ids: "SessionIDFrom (trim_space (ri_session_id input)) = Inr sid"
      "EventIDFrom (trim_space (ri_covers_to input)) = Inr (sr_covers_to r)"
    and known: "sid \<in> set (rs_sessions (w_store w))" "trim_space (ri_produced_by input) \<noteq> ''''"
      "FindEventSessionID (rs_events (w_store w)) (sr_covers_to r) = Inr (Some sid)"
    and row: "refinement_row (rs_rows (w_store w)) sid = Some r"
  shows "Refine ((\<lambda>s. s, now) # worlds) (w_store w) input
    = (Inr \<lparr>rr_outcome = SessionRefineOutcomeUnchanged, rr_refinement = r\<rparr>, w_store w)"
proof -
  have rows: "list_all row_ok (rs_rows (w_store w))" by (rule wf_rows [OF refinement_writers.reach_inv [OF reach]])
  have "EventIsStrictlyAfter (rs_events (w_store w)) (sr_covers_to r) (sr_covers_to r) = Inr False"
    using known(3) by (auto simp: EventIsStrictlyAfter_def FindEventSessionID_def split: option.splits)
  then have "decideAndWrite (\<lambda>s. s) (w_store w) input sid (sr_covers_to r) (trim_space (ri_produced_by input)) now
      = (Inr (Some \<lparr>rr_outcome = SessionRefineOutcomeUnchanged, rr_refinement = r\<rparr>), w_store w)"
    using FindBySessionID_row [OF rows] row by (simp add: decideAndWrite_def decide_def advanceCoverageOnly_def)
  then show ?thesis using ids known by (simp add: Refine_def Let_def sessionRefineMaxAttempts_def)
qed

section \<open>Concrete stores\<close>

definition ex_event :: EventRow where
  "ex_event = \<lparr>ev_id = ''e1'', ev_session_id = ''s1'', ev_created_norm = ''2026''\<rparr>"

definition ex_input :: SessionRefineInput where
  "ex_input = \<lparr>ri_session_id = ''s1'', ri_summary = ''did it'', ri_keywords = '''', ri_produced_by = ''bot'',
     ri_covers_to = ''e1'', ri_degraded = False, ri_has_agent_reasoning = False, ri_coverage_only = False\<rparr>"

definition ex_row :: SessionRefinement where
  "ex_row = \<lparr>sr_session_id = ''s1'', sr_generation = 1, sr_covers_from = ''e1'', sr_covers_to = ''e1'', sr_summary = ''did it'',
     sr_keywords = '''', sr_produced_by = ''bot'', sr_produced_at = GoTime 7 None 0, sr_degraded = False,
     sr_has_agent_reasoning = True\<rparr>"

definition ex_writers :: "SessionRefinement list \<Rightarrow> (SessionRefinement option \<times> SessionRefinement \<times> int) list \<Rightarrow> Writers" where
  "ex_writers rows pending =
     \<lparr>w_store = \<lparr>rs_sessions = [''s1''], rs_events = [ex_event], rs_rows = rows\<rparr>, w_pending = pending\<rparr>"

lemma refine_trims [simp]:
  "trim_space ''s1'' = ''s1''" "trim_space ''e1'' = ''e1''" "trim_space ''bot'' = ''bot''" "trim_space ''did it'' = ''did it''"
  by (rule trim_space_solid; simp add: solid_def)+

lemma ex_decides:
  "decide [ex_event] None ex_input ''s1'' ''e1'' ''bot'' (GoTime 7 None 0) = Inr (Attempt ex_row 0 SessionRefineOutcomeCreated)"
  by (simp add: decide_def ex_input_def EarliestEventID_def ex_event_def EventIDFrom_def nonempty_from_def
      NewSessionRefinement_def refinement_validate_def ex_row_def is_zero_def utc_def)

lemma ex_reach: "reach writers_init writers_step (ex_writers [ex_row] [(None, ex_row, 0)])"
proof -
  have i: "writers_init (ex_writers [] [])" unfolding ex_writers_def by (rule writers_init.intros)
  have "writers_step (ex_writers [] []) (ex_writers [] [(None, ex_row, 0)])"
    using writers_step.decided [of "ex_writers [] []" "''s1''" None ex_input "''e1''" "''bot''" "GoTime 7 None 0" ex_row 0 SessionRefineOutcomeCreated]
      ex_decides by (simp add: ex_writers_def FindBySessionID_def refinement_row_def)
  moreover have "writers_step (ex_writers [] [(None, ex_row, 0)]) (ex_writers [ex_row] [(None, ex_row, 0)])"
    using writers_step.saved [of None ex_row 0 "ex_writers [] [(None, ex_row, 0)]" "Inr True" "w_store (ex_writers [ex_row] [])"]
    by (simp add: ex_writers_def SaveIfAdvances_def refinement_row_def ex_row_def round0_def utc_def)
  ultimately show ?thesis using i by (blast intro: reach.intros)
qed

theorem refinement_coverage_widens_witness:
  "\<exists>r'. refinement_row (rs_rows (w_store (ex_writers [ex_row] [(None, ex_row, 0)]))) ''s1'' = Some r'
     \<and> widens [ex_event] ex_row r'"
  using refinement_coverage_widens [OF ex_reach rtranclp.rtrancl_refl, of "''s1''" ex_row]
  by (simp add: ex_writers_def refinement_row_def ex_row_def)

theorem refine_undisturbed_ends_witness:
  "fst (Refine [(\<lambda>s. s, GoTime 9 None 0), (\<lambda>s. s, GoTime 10 None 0)] (w_store (ex_writers [ex_row] [(None, ex_row, 0)])) ex_input)
     \<noteq> Inl RefineContention"
proof -
  have "list_all (\<lambda>r. event_row (rs_events (w_store (ex_writers [ex_row] [(None, ex_row, 0)]))) (sr_covers_from r) \<noteq> None)
      (rs_rows (w_store (ex_writers [ex_row] [(None, ex_row, 0)])))"
    by (simp add: ex_writers_def ex_row_def ex_event_def event_row_def)
  from refine_undisturbed_ends [OF ex_reach this] show ?thesis by blast
qed

theorem refine_replay_unchanged_witness:
  "Refine [(\<lambda>s. s, GoTime 9 None 0)] (w_store (ex_writers [ex_row] [(None, ex_row, 0)])) ex_input
    = (Inr \<lparr>rr_outcome = SessionRefineOutcomeUnchanged, rr_refinement = ex_row\<rparr>, w_store (ex_writers [ex_row] [(None, ex_row, 0)]))"
  by (rule refine_replay_unchanged [OF ex_reach, of ex_input "''s1''" ex_row])
     (simp_all add: ex_writers_def ex_input_def ex_row_def ex_event_def SessionIDFrom_def EventIDFrom_def nonempty_from_def
       FindEventSessionID_def event_row_def refinement_row_def)

end
