(* ===== verification/Consolidation.thy ===== *)
theory Consolidation
  imports Refinement Go_Time
begin

text \<open>
  The ledger of consolidation requests: the request fact and the prompt claim
  (\<open>domain/model/consolidation_request.go\<close>, \<open>domain/types/consolidation_*.go\<close>) and the repository
  (\<open>infrastructure/sqlite/consolidation_request_datasource.go\<close> with its statements), whose rows carry the lease
  of a prompt delivery. A timestamp column holds the instant that its fixed-width text denotes, so that
  comparing columns compares wall times (the text is ordered like the instants for years of four digits);
  reading a request back parses the text, which fails for a year that is not of four digits.
\<close>

section \<open>Requests and claims\<close>

datatype consolidation_error =
    InvalidConsolidationRequest string
  | UnknownToken string
  | LeaseNotActive
  | ConstraintFailed string
  | NotConfigured string
  | SessionIDRequired
  | RefinementUnreadable refine_error

definition ConsolidationDeliveryStopExit2 :: string where "ConsolidationDeliveryStopExit2 = ''stop_exit_2''"
definition ConsolidationDeliveryAdditionalContext :: string where
  "ConsolidationDeliveryAdditionalContext = ''additional_context''"
definition ConsolidationDeliveryNone :: string where "ConsolidationDeliveryNone = ''none''"

definition consolidation_deliveries :: "string list" where
  "consolidation_deliveries =
     [ConsolidationDeliveryStopExit2, ConsolidationDeliveryAdditionalContext, ConsolidationDeliveryNone]"

definition ConsolidationDeliveryFrom :: "string \<Rightarrow> consolidation_error + string" where
  "ConsolidationDeliveryFrom raw =
     (let t = trim_space raw
      in if List.member consolidation_deliveries t then Inr t else Inl (UnknownToken raw))"

definition ConsolidationRefineAccepted :: string where "ConsolidationRefineAccepted = ''accepted''"
definition ConsolidationRefineRejected :: string where "ConsolidationRefineRejected = ''rejected''"

definition consolidation_outcomes :: "string list" where
  "consolidation_outcomes = [ConsolidationRefineAccepted, ConsolidationRefineRejected]"

definition ConsolidationRefineOutcomeFrom :: "string \<Rightarrow> consolidation_error + string" where
  "ConsolidationRefineOutcomeFrom raw =
     (let t = trim_space raw
      in if List.member consolidation_outcomes t then Inr t else Inl (UnknownToken raw))"

definition ConsolidationPromptRequestIDFrom :: "string \<Rightarrow> consolidation_error + string" where
  "ConsolidationPromptRequestIDFrom v =
     (let t = trim_space v in if t = '''' then Inl (InvalidConsolidationRequest ''prompt request id'') else Inr t)"

definition ConsolidationPromptClaimTokenFrom :: "string \<Rightarrow> consolidation_error + string" where
  "ConsolidationPromptClaimTokenFrom v =
     (let t = trim_space v in if t = '''' then Inl (InvalidConsolidationRequest ''claim token'') else Inr t)"

record ConsolidationRequest =
  cr_session_id :: string
  cr_client :: string
  cr_requested_at :: gotime
  cr_at_event_id :: string
  cr_signal :: string
  cr_pressure :: int
  cr_threshold :: int
  cr_re_request :: bool
  cr_delivery :: string

definition request_validate :: "ConsolidationRequest \<Rightarrow> consolidation_error + unit" where
  "request_validate r =
     (if trim_space (cr_session_id r) = '''' then Inl (InvalidConsolidationRequest ''session id'')
      else if cr_client r = '''' then Inl (InvalidConsolidationRequest ''client'')
      else if trim_space (cr_at_event_id r) = '''' then Inl (InvalidConsolidationRequest ''at event id'')
      else if cr_signal r = '''' then Inl (InvalidConsolidationRequest ''signal'')
      else if cr_threshold r \<le> 0 then Inl (InvalidConsolidationRequest ''threshold'')
      else if cr_pressure r < 0 then Inl (InvalidConsolidationRequest ''pressure'')
      else (case ConsolidationDeliveryFrom (cr_delivery r) of Inl e \<Rightarrow> Inl e | Inr _ \<Rightarrow> Inr ()))"

definition NewConsolidationRequest ::
    "string \<Rightarrow> string \<Rightarrow> gotime \<Rightarrow> string \<Rightarrow> string \<Rightarrow> int \<Rightarrow> int \<Rightarrow> bool \<Rightarrow> string
      \<Rightarrow> consolidation_error + ConsolidationRequest" where
  "NewConsolidationRequest sessionID client requestedAt atEventID signal pressure threshold reRequest delivery =
     (let r = \<lparr>cr_session_id = sessionID, cr_client = trim_space client, cr_requested_at = utc requestedAt,
               cr_at_event_id = atEventID, cr_signal = trim_space signal, cr_pressure = pressure,
               cr_threshold = threshold, cr_re_request = reRequest, cr_delivery = delivery\<rparr>
      in case request_validate r of Inl e \<Rightarrow> Inl e | Inr _ \<Rightarrow> Inr r)"

record CodexPromptClaim =
  pc_request :: ConsolidationRequest
  pc_request_id :: string
  pc_token :: string

definition NewCodexPromptClaim ::
    "ConsolidationRequest option \<Rightarrow> string \<Rightarrow> string \<Rightarrow> consolidation_error + CodexPromptClaim" where
  "NewCodexPromptClaim request requestID token =
     (case request of
        None \<Rightarrow> Inl (InvalidConsolidationRequest ''prompt claim'')
      | Some r \<Rightarrow> if requestID = '''' \<or> token = '''' then Inl (InvalidConsolidationRequest ''prompt claim'')
                  else Inr \<lparr>pc_request = r, pc_request_id = requestID, pc_token = token\<rparr>)"

section \<open>Rows\<close>

datatype PromptState = PromptPending | PromptClaimed | PromptDelivered | PromptFulfilled

record RequestRow =
  rq_id :: nat
  rq_request :: ConsolidationRequest
  rq_refine_outcome :: "string option"
  rq_refine_reason :: string
  rq_refine_produced_by :: string
  rq_refined_at :: "gotime option"
  rq_generation :: "int option"
  rq_prompt_id :: string
  rq_prompt_state :: PromptState
  rq_claim_token :: "string option"
  rq_claimed_at :: "gotime option"
  rq_lease_expires_at :: "gotime option"
  rq_delivered_at :: "gotime option"

definition formatMemoryValidityTimestamp :: "gotime \<Rightarrow> gotime" where
  "formatMemoryValidityTimestamp t = round0 (utc t)"

definition sql_hex_digit :: "char \<Rightarrow> char" where
  "sql_hex_digit c = (if CHR ''a'' \<le> c then char_of (ord c - 32) else c)"

definition sql_hex :: "string \<Rightarrow> string" where
  "sql_hex s = map sql_hex_digit (hex_encode s)"

definition prompt_request_id :: "string \<Rightarrow> string \<Rightarrow> string" where
  "prompt_request_id sessionID atEventID = ''consolidation:'' @ sql_hex sessionID @ '':'' @ sql_hex atEventID"

text \<open>\<open>ORDER BY id DESC LIMIT 1\<close>.\<close>

fun newest :: "RequestRow list \<Rightarrow> RequestRow option" where
  "newest [] = None"
| "newest (r # rs) = (case newest rs of None \<Rightarrow> Some r | Some s \<Rightarrow> Some (if rq_id s < rq_id r then r else s))"

definition clear_lease :: "RequestRow \<Rightarrow> RequestRow" where
  "clear_lease r = r\<lparr>rq_claim_token := None, rq_claimed_at := None, rq_lease_expires_at := None\<rparr>"

definition is_open :: "string \<Rightarrow> RequestRow \<Rightarrow> bool" where
  "is_open sid r \<longleftrightarrow> cr_session_id (rq_request r) = sid \<and> rq_refine_outcome r = None"

definition prompt_only :: "RequestRow \<Rightarrow> bool" where
  "prompt_only r \<longleftrightarrow> cr_client (rq_request r) = ''codex'' \<and> cr_delivery (rq_request r) = ConsolidationDeliveryNone"

section \<open>The repository\<close>

definition Save :: "RequestRow list \<Rightarrow> ConsolidationRequest option \<Rightarrow> (consolidation_error + bool) \<times> RequestRow list" where
  "Save rows request =
     (case request of
        None \<Rightarrow> (Inl (InvalidConsolidationRequest ''nil''), rows)
      | Some q \<Rightarrow>
          let pid = prompt_request_id (cr_session_id q) (cr_at_event_id q);
              new = \<lparr>rq_id = Suc (foldr max (map rq_id rows) 0),
                     rq_request = q\<lparr>cr_requested_at := formatMemoryValidityTimestamp (cr_requested_at q)\<rparr>,
                     rq_refine_outcome = None, rq_refine_reason = '''', rq_refine_produced_by = '''', rq_refined_at = None,
                     rq_generation = None, rq_prompt_id = pid, rq_prompt_state = PromptPending, rq_claim_token = None,
                     rq_claimed_at = None, rq_lease_expires_at = None, rq_delivered_at = None\<rparr>
          in if \<not> List.member consolidation_deliveries (cr_delivery q) then (Inr False, rows)
             else if list_ex (\<lambda>r. cr_session_id (rq_request r) = cr_session_id q \<and> cr_at_event_id (rq_request r) = cr_at_event_id q
                                \<or> rq_prompt_id r = pid) rows
             then (Inr False, rows) else (Inr True, rows @ [new]))"

text \<open>
  \<open>time.Parse\<close> of a stored time: the column's text names the instant, unless its year needs a sign or a fifth
  digit (\<open>parse_rfc3339nano\<close> of \<open>Go_Time\<close>).
\<close>

definition parseStoredTime :: "gotime \<Rightarrow> consolidation_error + gotime" where
  "parseStoredTime t =
     (if 0 \<le> year t \<and> year t \<le> 9999 then Inr t else Inl (InvalidConsolidationRequest ''requested_at''))"

definition consolidationRequestFromStored :: "ConsolidationRequest \<Rightarrow> consolidation_error + ConsolidationRequest" where
  "consolidationRequestFromStored q =
     andThen (parseStoredTime (cr_requested_at q)) (\<lambda>at.
     andThen (map_sum (\<lambda>_. InvalidConsolidationRequest ''stored session id'') (\<lambda>s. s) (SessionIDFrom (cr_session_id q))) (\<lambda>sid.
     andThen (map_sum (\<lambda>_. InvalidConsolidationRequest ''stored at_event_id'') (\<lambda>s. s) (EventIDFrom (cr_at_event_id q))) (\<lambda>eid.
     andThen (ConsolidationDeliveryFrom (cr_delivery q)) (\<lambda>del.
     NewConsolidationRequest sid (cr_client q) at eid (cr_signal q) (cr_pressure q) (cr_threshold q)
       (cr_re_request q) del))))"

definition FindLatestOpen :: "RequestRow list \<Rightarrow> string \<Rightarrow> consolidation_error + ConsolidationRequest option" where
  "FindLatestOpen rows sid =
     (case newest (filter (is_open sid) rows) of
        None \<Rightarrow> Inr None
      | Some r \<Rightarrow> andThen (consolidationRequestFromStored (rq_request r)) (\<lambda>q. Inr (Some q)))"

definition FindLatest :: "RequestRow list \<Rightarrow> string \<Rightarrow> consolidation_error + ConsolidationRequest option" where
  "FindLatest rows sid =
     (case newest (filter (\<lambda>r. cr_session_id (rq_request r) = sid) rows) of
        None \<Rightarrow> Inr None
      | Some r \<Rightarrow> andThen (consolidationRequestFromStored (rq_request r)) (\<lambda>q. Inr (Some q)))"

record ConsolidationRefineStamp =
  st_session_id :: string
  st_outcome :: string
  st_reason :: string
  st_produced_by :: string
  st_generation :: "int option"
  st_at :: gotime

definition fulfill_row :: "RequestRow \<Rightarrow> RequestRow" where
  "fulfill_row r = (clear_lease r)\<lparr>rq_prompt_state := PromptFulfilled\<rparr>"

definition stamp_row :: "ConsolidationRefineStamp \<Rightarrow> RequestRow \<Rightarrow> RequestRow" where
  "stamp_row s r =
     (let stamped = r\<lparr>rq_refine_outcome := Some (st_outcome s), rq_refine_reason := st_reason s,
                      rq_refine_produced_by := st_produced_by s,
                      rq_refined_at := Some (formatMemoryValidityTimestamp (st_at s)), rq_generation := st_generation s\<rparr>
      in if st_outcome s = ConsolidationRefineAccepted \<and> cr_delivery (rq_request r) = ConsolidationDeliveryNone
         then fulfill_row stamped else stamped)"

definition fulfill_superseded :: "string \<Rightarrow> RequestRow list \<Rightarrow> RequestRow list" where
  "fulfill_superseded sid rows =
     (case newest (filter (\<lambda>r. cr_session_id (rq_request r) = sid) rows) of
        None \<Rightarrow> rows
      | Some latest_row \<Rightarrow>
          map (\<lambda>r. if is_open sid r \<and> prompt_only r \<and> rq_id r < rq_id latest_row
                   then fulfill_row r else r) rows)"

definition MarkRefineOutcome :: "RequestRow list \<Rightarrow> ConsolidationRefineStamp \<Rightarrow> (consolidation_error + bool) \<times> RequestRow list" where
  "MarkRefineOutcome rows s =
     (case newest (filter (is_open (st_session_id s)) rows) of
        None \<Rightarrow> (Inr False, rows)
      | Some target \<Rightarrow>
          if \<not> List.member consolidation_outcomes (st_outcome s) then (Inl (ConstraintFailed ''refine_outcome''), rows)
          else let rows' = map (\<lambda>r. if rq_id r = rq_id target then stamp_row s r else r) rows
               in (Inr True, if st_outcome s = ConsolidationRefineAccepted then fulfill_superseded (st_session_id s) rows' else rows'))"

definition claimable :: "string \<Rightarrow> gotime \<Rightarrow> RequestRow \<Rightarrow> bool" where
  "claimable sid at r \<longleftrightarrow>
     is_open sid r \<and> prompt_only r
     \<and> (rq_prompt_state r = PromptPending
        \<or> rq_prompt_state r = PromptClaimed
          \<and> (case rq_lease_expires_at r of None \<Rightarrow> False | Some e \<Rightarrow> wall e \<le> wall at))"

definition claim_row :: "string \<Rightarrow> gotime \<Rightarrow> gotime \<Rightarrow> RequestRow \<Rightarrow> RequestRow" where
  "claim_row token at expiresAt r =
     r\<lparr>rq_prompt_state := PromptClaimed, rq_claim_token := Some token,
       rq_claimed_at := Some (formatMemoryValidityTimestamp at),
       rq_lease_expires_at := Some (formatMemoryValidityTimestamp expiresAt)\<rparr>"

definition ClaimCodexPrompt ::
    "RequestRow list \<Rightarrow> string \<Rightarrow> string \<Rightarrow> gotime \<Rightarrow> gotime \<Rightarrow> (consolidation_error + CodexPromptClaim option) \<times> RequestRow list" where
  "ClaimCodexPrompt rows sid token at expiresAt =
     (case newest (filter (claimable sid at) rows) of
        None \<Rightarrow> (Inr None, rows)
      | Some target \<Rightarrow>
          (andThen (consolidationRequestFromStored (rq_request target)) (\<lambda>request.
           andThen (ConsolidationPromptRequestIDFrom (rq_prompt_id target)) (\<lambda>stableID.
           andThen (NewCodexPromptClaim (Some request) stableID token) (\<lambda>claim. Inr (Some claim)))),
           map (\<lambda>r. if rq_id r = rq_id target then claim_row token at expiresAt r else r) rows))"

definition holds_lease :: "string \<Rightarrow> string \<Rightarrow> RequestRow \<Rightarrow> bool" where
  "holds_lease requestID token r \<longleftrightarrow>
     rq_prompt_id r = requestID \<and> rq_claim_token r = Some token \<and> rq_prompt_state r = PromptClaimed"

definition requireOneCodexPromptTransition :: "nat \<Rightarrow> consolidation_error + unit" where
  "requireOneCodexPromptTransition n = (if n \<noteq> 1 then Inl LeaseNotActive else Inr ())"

definition transitionCodexPrompt ::
    "RequestRow list \<Rightarrow> (RequestRow \<Rightarrow> RequestRow) \<Rightarrow> string \<Rightarrow> string \<Rightarrow> (consolidation_error + unit) \<times> RequestRow list" where
  "transitionCodexPrompt rows change requestID token =
     (requireOneCodexPromptTransition (length (filter (holds_lease requestID token) rows)),
      map (\<lambda>r. if holds_lease requestID token r then change r else r) rows)"

definition release_row :: "RequestRow \<Rightarrow> RequestRow" where
  "release_row r = (clear_lease r)\<lparr>rq_prompt_state := PromptPending\<rparr>"

definition ReleaseCodexPrompt :: "RequestRow list \<Rightarrow> string \<Rightarrow> string \<Rightarrow> (consolidation_error + unit) \<times> RequestRow list" where
  "ReleaseCodexPrompt rows requestID token =
     transitionCodexPrompt rows release_row requestID token"

definition confirm_row :: "gotime \<Rightarrow> RequestRow \<Rightarrow> RequestRow" where
  "confirm_row deliveredAt r =
     (clear_lease r)\<lparr>rq_prompt_state := PromptDelivered,
                      rq_delivered_at := Some (formatMemoryValidityTimestamp deliveredAt)\<rparr>"

definition ConfirmCodexPrompt ::
    "RequestRow list \<Rightarrow> string \<Rightarrow> string \<Rightarrow> gotime \<Rightarrow> (consolidation_error + unit) \<times> RequestRow list" where
  "ConfirmCodexPrompt rows requestID token deliveredAt =
     transitionCodexPrompt rows (confirm_row deliveredAt) requestID token"

section \<open>The write port\<close>

definition ConsolidationRefineFromSessionOutcome :: "SessionRefineOutcome \<Rightarrow> string \<times> string" where
  "ConsolidationRefineFromSessionOutcome outcome =
     (case outcome of
        SessionRefineOutcomeCreated \<Rightarrow> (ConsolidationRefineAccepted, ''created'')
      | SessionRefineOutcomeSuperseded \<Rightarrow> (ConsolidationRefineAccepted, ''superseded'')
      | SessionRefineOutcomeUnchanged \<Rightarrow> (ConsolidationRefineRejected, ''unchanged''))"

record ConsolidationRequestInput =
  ci_session_id :: string
  ci_client :: string
  ci_at_event_id :: string
  ci_signal :: string
  ci_pressure :: int
  ci_threshold :: int
  ci_delivery :: string

record ConsolidationRequestRecorded =
  rd_recorded :: bool
  rd_re_request :: bool

definition Record ::
    "RequestRow list \<Rightarrow> gotime \<Rightarrow> ConsolidationRequestInput
      \<Rightarrow> (consolidation_error + ConsolidationRequestRecorded) \<times> RequestRow list" where
  "Record rows now input =
     (case FindLatestOpen rows (ci_session_id input) of
        Inl e \<Rightarrow> (Inl e, rows)
      | Inr prior \<Rightarrow>
          let reRequest = (prior \<noteq> None) in
          (case NewConsolidationRequest (ci_session_id input) (ci_client input) now (ci_at_event_id input)
                  (ci_signal input) (ci_pressure input) (ci_threshold input) reRequest (ci_delivery input) of
             Inl e \<Rightarrow> (Inl e, rows)
           | Inr request \<Rightarrow>
               (case Save rows (Some request) of
                  (Inl e, rows') \<Rightarrow> (Inl e, rows')
                | (Inr recorded, rows') \<Rightarrow> (Inr \<lparr>rd_recorded = recorded, rd_re_request = reRequest\<rparr>, rows'))))"

definition codexPromptLeaseDuration :: int where "codexPromptLeaseDuration = 5 * 60 * 1000000000"

definition newCodexPromptClaimToken :: "string \<Rightarrow> consolidation_error + string" where
  "newCodexPromptClaimToken random_bytes = ConsolidationPromptClaimTokenFrom (hex_encode random_bytes)"

definition uc_ClaimCodexPrompt ::
    "RequestRow list \<Rightarrow> string \<Rightarrow> gotime \<Rightarrow> string \<Rightarrow> (consolidation_error + CodexPromptClaim option) \<times> RequestRow list" where
  "uc_ClaimCodexPrompt rows random_bytes now sid =
     (case newCodexPromptClaimToken random_bytes of
        Inl e \<Rightarrow> (Inl e, rows)
      | Inr token \<Rightarrow> ClaimCodexPrompt rows sid token now (time_add now codexPromptLeaseDuration))"

definition RecordRefineOutcome ::
    "RequestRow list \<Rightarrow> gotime \<Rightarrow> ConsolidationRefineStamp \<Rightarrow> (consolidation_error + bool) \<times> RequestRow list" where
  "RecordRefineOutcome rows now stamp =
     MarkRefineOutcome rows (if is_zero (st_at stamp) then stamp\<lparr>st_at := now\<rparr> else stamp)"

section \<open>The work check\<close>

record KindRow =
  kr_event :: EventRow
  kr_kind :: string

definition CountKindAfter :: "KindRow list \<Rightarrow> string \<Rightarrow> string \<Rightarrow> string option \<Rightarrow> int" where
  "CountKindAfter events sid kind boundary_id =
     (let same = filter (\<lambda>e. ev_session_id (kr_event e) = sid \<and> kr_kind e = kind) events
      in case boundary_id of
           None \<Rightarrow> int (length same)
         | Some b \<Rightarrow> (case event_row (map kr_event events) b of
                        None \<Rightarrow> 0
                      | Some boundary \<Rightarrow> int (length (filter (\<lambda>e. later_row (kr_event e) boundary) same))))"

record SessionKindRow =
  sk_session_id :: string
  sk_parent :: "string option"
  sk_subagent_kind :: string
  sk_agent :: string

definition IsMainSession :: "SessionKindRow list \<Rightarrow> string \<Rightarrow> bool option" where
  "IsMainSession sessions sid =
     map_option
       (\<lambda>r. if (case sk_parent r of None \<Rightarrow> '''' | Some p \<Rightarrow> p) \<noteq> '''' then False
            else if sk_subagent_kind r \<noteq> '''' then False
            else if List.member (sk_agent r) (CHR ''/'') then False
            else True)
       (find (\<lambda>r. sk_session_id r = sid) sessions)"

record ConsolidationPolicy =
  po_min_commands :: int
  po_stop_cadence :: int

record ConsolidationPressureResult =
  pr_due :: bool
  pr_signal :: string
  pr_commands :: int
  pr_stops :: int
  pr_skipped :: string
  pr_previous_summary :: "string option"
  pr_previous_covers_to :: "string option"

definition no_result :: ConsolidationPressureResult where
  "no_result = \<lparr>pr_due = False, pr_signal = '''', pr_commands = 0, pr_stops = 0, pr_skipped = '''',
                pr_previous_summary = None, pr_previous_covers_to = None\<rparr>"

text \<open>The repositories that the check is wired with, each possibly absent.\<close>

record PressurePorts =
  pp_pressure :: "KindRow list option"
  pp_refinement :: "RefineStore option"
  pp_kind :: "SessionKindRow list option"
  pp_requests :: "RequestRow list option"

definition cadence_check ::
    "KindRow list \<Rightarrow> RequestRow list \<Rightarrow> string \<Rightarrow> ConsolidationPolicy \<Rightarrow> ConsolidationPressureResult
      \<Rightarrow> consolidation_error + ConsolidationPressureResult" where
  "cadence_check events requests sid policy result =
     andThen (FindLatest requests sid) (\<lambda>latest.
       (case latest of
          None \<Rightarrow> Inr (result\<lparr>pr_due := True, pr_signal := ''work''\<rparr>)
        | Some request \<Rightarrow>
            let stops = CountKindAfter events sid ''transcript'' (Some (cr_at_event_id request));
                result' = result\<lparr>pr_stops := stops\<rparr>
            in if stops < po_stop_cadence policy then Inr (result'\<lparr>pr_skipped := ''cadence''\<rparr>)
               else Inr (result'\<lparr>pr_due := True, pr_signal := ''work''\<rparr>)))"

definition Check ::
    "PressurePorts \<Rightarrow> string \<Rightarrow> ConsolidationPolicy \<Rightarrow> consolidation_error + ConsolidationPressureResult" where
  "Check ports sid policy =
     (if po_min_commands policy \<le> 0 \<or> po_stop_cadence policy \<le> 0 then Inr (no_result\<lparr>pr_skipped := ''disabled''\<rparr>)
      else case pp_pressure ports of None \<Rightarrow> Inl (NotConfigured ''session consolidation pressure repository'') | Some events \<Rightarrow>
           case pp_refinement ports of None \<Rightarrow> Inl (NotConfigured ''session refinement repository'') | Some store \<Rightarrow>
           case pp_kind ports of None \<Rightarrow> Inl (NotConfigured ''session kind repository'') | Some sessions \<Rightarrow>
           case pp_requests ports of None \<Rightarrow> Inl (NotConfigured ''consolidation request repository'') | Some requests \<Rightarrow>
           if trim_space sid = '''' then Inl SessionIDRequired
           else if IsMainSession sessions sid = Some False then Inr (no_result\<lparr>pr_skipped := ''subagent''\<rparr>)
           else andThen (map_sum RefinementUnreadable (\<lambda>r. r) (FindBySessionID store sid)) (\<lambda>existing.
                let coversTo = map_option sr_covers_to existing;
                    commands = CountKindAfter events sid ''command_executed'' coversTo;
                    result = no_result\<lparr>pr_commands := commands, pr_previous_summary := map_option sr_summary existing,
                                       pr_previous_covers_to := coversTo\<rparr>
                in if commands < po_min_commands policy then Inr (result\<lparr>pr_skipped := ''min_commands''\<rparr>)
                   else cadence_check events requests sid policy result))"

section \<open>The invariant of the ledger\<close>

lemma newest_None [simp]: "newest rs = None \<longleftrightarrow> rs = []"
  by (cases rs) (auto split: option.splits)

lemma newest_Some: "newest rs = Some r \<Longrightarrow> r \<in> set rs \<and> (\<forall>s \<in> set rs. rq_id s \<le> rq_id r)"
  by (induction rs arbitrary: r) (auto split: option.splits if_splits)

lemma newest_append_largest: "\<forall>r \<in> set rs. rq_id r < rq_id n \<Longrightarrow> newest (rs @ [n]) = Some n"
  by (induction rs) auto

lemmas row_change_defs = clear_lease_def fulfill_row_def stamp_row_def claim_row_def release_row_def confirm_row_def Let_def

lemma row_changes_keep [simp]:
  "rq_id (fulfill_row r) = rq_id r" "rq_prompt_id (fulfill_row r) = rq_prompt_id r" "rq_request (fulfill_row r) = rq_request r"
  "rq_id (stamp_row s r) = rq_id r" "rq_prompt_id (stamp_row s r) = rq_prompt_id r" "rq_request (stamp_row s r) = rq_request r"
  "rq_id (claim_row tok at ex r) = rq_id r" "rq_prompt_id (claim_row tok at ex r) = rq_prompt_id r"
  "rq_request (claim_row tok at ex r) = rq_request r"
  "rq_id (release_row r) = rq_id r" "rq_prompt_id (release_row r) = rq_prompt_id r" "rq_request (release_row r) = rq_request r"
  "rq_id (confirm_row t r) = rq_id r" "rq_prompt_id (confirm_row t r) = rq_prompt_id r" "rq_request (confirm_row t r) = rq_request r"
  by (simp_all add: row_change_defs)

text \<open>A lease is held exactly by a claimed row, a delivered row has its time, and only prompt-only rows leave \<open>pending\<close>.\<close>

definition prompt_row_ok :: "RequestRow \<Rightarrow> bool" where
  "prompt_row_ok r \<longleftrightarrow>
     (rq_prompt_state r = PromptClaimed \<longleftrightarrow> rq_claim_token r \<noteq> None)
     \<and> (rq_claim_token r = None \<longleftrightarrow> rq_claimed_at r = None) \<and> (rq_claim_token r = None \<longleftrightarrow> rq_lease_expires_at r = None)
     \<and> (rq_prompt_state r = PromptDelivered \<longrightarrow> rq_delivered_at r \<noteq> None)
     \<and> (rq_prompt_state r \<noteq> PromptPending \<longrightarrow> cr_delivery (rq_request r) = ConsolidationDeliveryNone)
     \<and> rq_prompt_id r = prompt_request_id (cr_session_id (rq_request r)) (cr_at_event_id (rq_request r))"

definition ledger_ok :: "RequestRow list \<Rightarrow> bool" where
  "ledger_ok rows \<longleftrightarrow> list_all prompt_row_ok rows \<and> distinct (map rq_id rows) \<and> distinct (map rq_prompt_id rows)"

lemma filter_key_single: "distinct (map f xs) \<Longrightarrow> x \<in> set xs \<Longrightarrow> filter (\<lambda>y. f y = f x) xs = [x]"
  by (induction xs) (auto simp: filter_empty_conv image_iff)

lemma ledger_okD:
  assumes "ledger_ok rows" "r \<in> set rows" "s \<in> set rows"
  shows "rq_id r = rq_id s \<longleftrightarrow> r = s" "rq_prompt_id r = rq_prompt_id s \<longleftrightarrow> r = s" "prompt_row_ok r"
  using assms by (auto simp: ledger_ok_def list_all_iff distinct_map dest: inj_onD)

lemma ledger_map:
  assumes "ledger_ok rows"
    and "\<And>r. r \<in> set rows \<Longrightarrow> prompt_row_ok (f r) \<and> rq_id (f r) = rq_id r \<and> rq_prompt_id (f r) = rq_prompt_id r"
  shows "ledger_ok (map f rows)"
proof -
  have "map rq_id (map f rows) = map rq_id rows" "map rq_prompt_id (map f rows) = map rq_prompt_id rows"
    using assms(2) by simp_all
  then show ?thesis using assms by (simp only: ledger_ok_def) (simp add: list_all_iff)
qed

lemma row_changes_ok:
  assumes "prompt_row_ok r"
  shows "prompt_row_ok (stamp_row s r)" and "prompt_row_ok (release_row r)"
    and "prompt_only r \<Longrightarrow> prompt_row_ok (fulfill_row r)"
    and "prompt_only r \<Longrightarrow> prompt_row_ok (claim_row tok at ex r)"
    and "rq_prompt_state r = PromptClaimed \<Longrightarrow> prompt_row_ok (confirm_row t r)"
  using assms by (auto simp: prompt_row_ok_def row_change_defs prompt_only_def)

lemma fulfill_superseded_ok: "ledger_ok rows \<Longrightarrow> ledger_ok (fulfill_superseded sid rows)"
  by (auto simp: fulfill_superseded_def split: option.splits intro!: ledger_map row_changes_ok dest: ledger_okD(3))

lemma Mark_ok: "ledger_ok rows \<Longrightarrow> ledger_ok (snd (MarkRefineOutcome rows s))"
  by (auto simp: MarkRefineOutcome_def Let_def split: option.splits
      intro!: fulfill_superseded_ok ledger_map row_changes_ok dest: ledger_okD(3))

lemma claim_target:
  "newest (filter (claimable sid at) rows) = Some t \<Longrightarrow> t \<in> set rows \<and> claimable sid at t"
  using newest_Some by fastforce

lemma Claim_ok:
  assumes "ledger_ok rows" shows "ledger_ok (snd (ClaimCodexPrompt rows sid tok at ex))"
proof (cases "newest (filter (claimable sid at) rows)")
  case None
  then show ?thesis using assms by (simp add: ClaimCodexPrompt_def)
next
  case (Some t)
  note t = claim_target [OF Some]
  have "prompt_only r" if "r \<in> set rows" "rq_id r = rq_id t" for r
    using ledger_okD(1) [OF assms that(1)] t that(2) by (auto simp: claimable_def)
  then show ?thesis
    using assms Some ledger_okD(3) [OF assms]
    by (auto simp: ClaimCodexPrompt_def intro!: ledger_map row_changes_ok)
qed

lemma transition_ok:
  assumes "ledger_ok rows"
    and "\<And>r. r \<in> set rows \<Longrightarrow> holds_lease pid tok r \<Longrightarrow> prompt_row_ok (f r)"
    and "\<And>r. rq_id (f r) = rq_id r \<and> rq_prompt_id (f r) = rq_prompt_id r"
  shows "ledger_ok (snd (transitionCodexPrompt rows f pid tok))"
  using assms ledger_okD(3) [OF assms(1)] by (auto simp: transitionCodexPrompt_def intro!: ledger_map)

lemma Release_ok: "ledger_ok rows \<Longrightarrow> ledger_ok (snd (ReleaseCodexPrompt rows pid tok))"
  unfolding ReleaseCodexPrompt_def by (rule transition_ok) (auto dest: ledger_okD(3) intro!: row_changes_ok)

lemma Confirm_ok: "ledger_ok rows \<Longrightarrow> ledger_ok (snd (ConfirmCodexPrompt rows pid tok t))"
  unfolding ConfirmCodexPrompt_def
  by (rule transition_ok) (auto simp: holds_lease_def dest: ledger_okD(3) intro!: row_changes_ok)

lemma foldr_max_bound: "x \<in> set xs \<Longrightarrow> x < Suc (foldr max xs (0 :: nat))"
  by (induction xs) (auto simp: less_Suc_eq_le max_def)

lemma Save_cases:
  assumes "Save rows (Some q) = (res, rows')"
  obtains (kept) "rows' = rows" "res = Inr False"
  | (added) n where "rows' = rows @ [n]" "res = Inr True" "rq_request n = q\<lparr>cr_requested_at := formatMemoryValidityTimestamp (cr_requested_at q)\<rparr>"
      "\<forall>r \<in> set rows. rq_id r < rq_id n \<and> rq_prompt_id r \<noteq> rq_prompt_id n" "prompt_row_ok n"
      "rq_refine_outcome n = None" "rq_prompt_state n = PromptPending"
  using assms foldr_max_bound [of _ "map rq_id rows"]
  by (auto simp: Save_def Let_def list_ex_iff prompt_row_ok_def split: if_splits)

lemma Save_ok:
  assumes "ledger_ok rows" shows "ledger_ok (snd (Save rows request))"
proof (cases request)
  case None
  then show ?thesis using assms by (simp add: Save_def)
next
  case (Some q)
  obtain res rows' where s: "Save rows (Some q) = (res, rows')" by fastforce
  then show ?thesis
  proof (cases rule: Save_cases)
    case kept
    then show ?thesis using s Some assms by simp
  next
    case (added n)
    then have "rq_id n \<notin> set (map rq_id rows)" "rq_prompt_id n \<notin> set (map rq_prompt_id rows)" by auto
    then show ?thesis using s Some assms added by (simp add: ledger_ok_def)
  qed
qed

section \<open>Every interleaving of the writers\<close>

inductive ledger_init :: "RequestRow list \<Rightarrow> bool" where
  "ledger_init []"

inductive ledger_step :: "RequestRow list \<Rightarrow> RequestRow list \<Rightarrow> bool" where
  recorded: "Record rows now input = (res, rows') \<Longrightarrow> ledger_step rows rows'"
| refined: "RecordRefineOutcome rows now stamp = (res, rows') \<Longrightarrow> ledger_step rows rows'"
| claimed: "uc_ClaimCodexPrompt rows random_bytes now sid = (res, rows') \<Longrightarrow> ledger_step rows rows'"
| released: "ReleaseCodexPrompt rows pid tok = (res, rows') \<Longrightarrow> ledger_step rows rows'"
| confirmed: "ConfirmCodexPrompt rows pid tok now = (res, rows') \<Longrightarrow> ledger_step rows rows'"

lemma Record_rows: "Record rows now input = (res, rows') \<Longrightarrow> rows' = rows \<or> (\<exists>q b. Save rows (Some q) = (Inr b, rows'))"
  by (auto simp: Record_def Save_def Let_def split: sum.splits if_splits)

lemma uc_Claim_rows:
  "uc_ClaimCodexPrompt rows bs now sid = (res, rows') \<Longrightarrow>
     rows' = rows \<or> (\<exists>tok ex. rows' = snd (ClaimCodexPrompt rows sid tok now ex))"
  by (cases "newCodexPromptClaimToken bs") (simp_all add: uc_ClaimCodexPrompt_def, metis snd_conv)

lemma ledger_step_ok: "ledger_ok rows \<Longrightarrow> ledger_step rows rows' \<Longrightarrow> ledger_ok rows'"
  by (erule ledger_step.cases)
    (use Record_rows uc_Claim_rows Save_ok Mark_ok Claim_ok Release_ok Confirm_ok in
      \<open>(metis snd_conv RecordRefineOutcome_def)+\<close>)

definition settled_row :: "RequestRow \<Rightarrow> bool" where
  "settled_row r \<longleftrightarrow> rq_prompt_state r = PromptDelivered \<or> rq_prompt_state r = PromptFulfilled"

definition settled :: "string \<Rightarrow> RequestRow list \<Rightarrow> bool" where
  "settled pid rows \<longleftrightarrow> list_ex (\<lambda>r. rq_prompt_id r = pid \<and> settled_row r) rows"

lemma settled_map:
  assumes "settled pid rows"
    and "\<And>r. r \<in> set rows \<Longrightarrow> settled_row r \<Longrightarrow> rq_prompt_id (f r) = rq_prompt_id r \<and> settled_row (f r)"
  shows "settled pid (map f rows)"
  using assms by (fastforce simp: settled_def list_ex_iff)

lemma settled_rows [simp]:
  "settled_row (fulfill_row r)" "settled_row r \<Longrightarrow> settled_row (stamp_row s r)"
  by (simp_all add: row_change_defs settled_row_def)

lemma settled_superseded: "settled pid rows \<Longrightarrow> settled pid (fulfill_superseded sid rows)"
  unfolding fulfill_superseded_def
  by (cases "newest (filter (\<lambda>r. cr_session_id (rq_request r) = sid) rows)") (simp_all add: settled_map)

lemma settled_stamp: "settled pid rows \<Longrightarrow> settled pid (snd (MarkRefineOutcome rows s))"
  by (cases "newest (filter (is_open (st_session_id s)) rows)")
    (simp_all add: MarkRefineOutcome_def Let_def settled_map settled_superseded)

lemma settled_claim:
  assumes "ledger_ok rows" "settled pid rows"
  shows "settled pid (snd (ClaimCodexPrompt rows sid tok at ex))"
proof (cases "newest (filter (claimable sid at) rows)")
  case None
  then show ?thesis using assms by (simp add: ClaimCodexPrompt_def)
next
  case (Some t)
  have "\<not> settled_row r" if "r \<in> set rows" "rq_id r = rq_id t" for r
    using ledger_okD(1) [OF assms(1) that(1), of t] claim_target [OF Some] that(2)
    by (auto simp: claimable_def settled_row_def)
  then have "settled pid (map (\<lambda>r. if rq_id r = rq_id t then claim_row tok at ex r else r) rows)"
    by (intro settled_map [OF assms(2)]) auto
  then show ?thesis using Some by (simp add: ClaimCodexPrompt_def)
qed

lemma settled_transition: "settled pid rows \<Longrightarrow> settled pid (snd (transitionCodexPrompt rows f pid' tok))"
  by (auto simp: transitionCodexPrompt_def holds_lease_def settled_row_def intro!: settled_map)

lemma settled_save: "settled pid rows \<Longrightarrow> settled pid (snd (Save rows request))"
  by (auto simp: Save_def Let_def settled_def split: option.splits)

lemma ledger_step_settled: "ledger_ok rows \<Longrightarrow> ledger_step rows rows' \<Longrightarrow> settled pid rows \<Longrightarrow> settled pid rows'"
  by (erule ledger_step.cases)
    (use Record_rows uc_Claim_rows settled_save settled_stamp settled_claim settled_transition in
      \<open>(metis snd_conv RecordRefineOutcome_def ReleaseCodexPrompt_def ConfirmCodexPrompt_def)+\<close>)

interpretation prompt_ledger: sealed_machine ledger_init ledger_step ledger_ok settled
proof
  show "ledger_ok rows" if "ledger_init rows" for rows
    using that by (induction rule: ledger_init.induct) (simp add: ledger_ok_def)
qed (use ledger_step_ok ledger_step_settled in blast)+

section \<open>Stable identifiers\<close>

lemma solid_sql_hex_digit: "hex_lower c \<Longrightarrow> solid (sql_hex_digit c)"
  by (auto simp: sql_hex_digit_def hex_lower_def char_in_def solid_def of_char_of less_eq_char_def)

lemma solid_sql_hex: "list_all solid (sql_hex s)"
  using hex_encode_lower [of s] by (auto simp: sql_hex_def list_all_iff solid_sql_hex_digit)

lemma prompt_request_id_trimmed [simp]: "trim_space (prompt_request_id a b) = prompt_request_id a b"
proof -
  have "solid (last (prompt_request_id a b))"
    using solid_sql_hex [of b]
    by (cases "sql_hex b = []") (auto simp: prompt_request_id_def list_all_iff last_append solid_def dest: last_in_set)
  then show ?thesis by (intro trim_space_solid) (auto simp: prompt_request_id_def solid_def)
qed

lemma claim_grant:
  assumes "ledger_ok rows" and "ClaimCodexPrompt rows sid tok at ex = (Inr (Some c), rows')"
  obtains t where "t \<in> set rows" "claimable sid at t" "pc_request_id c = rq_prompt_id t" "pc_token c = tok"
    "rows' = map (\<lambda>r. if rq_id r = rq_id t then claim_row tok at ex r else r) rows"
proof -
  obtain t where n: "newest (filter (claimable sid at) rows) = Some t"
    using assms(2) by (cases "newest (filter (claimable sid at) rows)") (auto simp: ClaimCodexPrompt_def)
  note t = claim_target [OF n]
  have "trim_space (rq_prompt_id t) = rq_prompt_id t"
    using ledger_okD(3) [OF assms(1)] t by (auto simp: prompt_row_ok_def)
  then have "pc_request_id c = rq_prompt_id t \<and> pc_token c = tok"
    using assms(2) n
    by (auto simp: ClaimCodexPrompt_def andThen_Inr ConsolidationPromptRequestIDFrom_def NewCodexPromptClaim_def Let_def split: if_splits)
  moreover have "rows' = map (\<lambda>r. if rq_id r = rq_id t then claim_row tok at ex r else r) rows"
    using assms(2) n by (simp add: ClaimCodexPrompt_def)
  ultimately show ?thesis using t by (intro that [of t]) blast+
qed

lemma settled_rowD:
  assumes "ledger_ok rows" "settled (rq_prompt_id r) rows" "r \<in> set rows" shows "settled_row r"
proof -
  obtain u where "u \<in> set rows" "rq_prompt_id u = rq_prompt_id r" "settled_row u"
    using assms(2) by (auto simp: settled_def list_ex_iff)
  then show ?thesis using ledger_okD(2) [OF assms(1) _ assms(3)] by blast
qed

lemma settled_unheld: "ledger_ok rows \<Longrightarrow> settled pid rows \<Longrightarrow> r \<in> set rows \<Longrightarrow> \<not> holds_lease pid tok r"
  by (auto simp: holds_lease_def settled_row_def dest: settled_rowD)

lemma transition_unheld:
  assumes "\<And>r. r \<in> set rows \<Longrightarrow> \<not> holds_lease pid tok r"
  shows "transitionCodexPrompt rows f pid tok = (Inl LeaseNotActive, rows)"
proof -
  have "filter (holds_lease pid tok) rows = []" using assms by (simp add: filter_empty_conv)
  moreover have "map (\<lambda>r. if holds_lease pid tok r then f r else r) rows = rows"
    using assms by (simp add: map_idI)
  ultimately show ?thesis by (simp add: transitionCodexPrompt_def requireOneCodexPromptTransition_def)
qed

lemma transition_held_row:
  assumes "t \<in> set rows" "holds_lease pid tok t"
  shows "f t \<in> set (snd (transitionCodexPrompt rows f pid tok))"
proof -
  have "f t = (\<lambda>r. if holds_lease pid tok r then f r else r) t" using assms(2) by simp
  then show ?thesis unfolding transitionCodexPrompt_def snd_conv set_map using assms(1) by (rule image_eqI)
qed

lemma transition_held:
  assumes "ledger_ok rows" "t \<in> set rows" "holds_lease pid tok t"
  shows "fst (transitionCodexPrompt rows f pid tok) = Inr ()"
proof -
  have d: "distinct rows" using assms(1) by (simp add: ledger_ok_def distinct_map)
  have "r = t" if "r \<in> set rows" "holds_lease pid tok r" for r
    using ledger_okD(2) [OF assms(1) that(1) assms(2)] that(2) assms(3) by (simp add: holds_lease_def)
  then have "set (filter (holds_lease pid tok) rows) = {t}" unfolding set_filter using assms(2,3) by blast
  then have "length (filter (holds_lease pid tok) rows) = 1"
    using distinct_card [OF distinct_filter [OF d, of "holds_lease pid tok"]] by simp
  then show "fst (transitionCodexPrompt rows f pid tok) = Inr ()"
    by (simp add: transitionCodexPrompt_def requireOneCodexPromptTransition_def)
qed

lemma claim_winner:
  assumes "ledger_ok rows" and "ClaimCodexPrompt rows sid tok at ex = (Inr (Some c), rows')"
  obtains w where "ledger_ok rows'" "pc_token c = tok" "w \<in> set rows'" "rq_prompt_id w = pc_request_id c"
    "holds_lease (pc_request_id c) tok w" "rq_lease_expires_at w = Some (formatMemoryValidityTimestamp ex)"
proof -
  obtain t where t: "t \<in> set rows" "claimable sid at t" "pc_request_id c = rq_prompt_id t" "pc_token c = tok"
    and rows': "rows' = map (\<lambda>r. if rq_id r = rq_id t then claim_row tok at ex r else r) rows"
    by (rule claim_grant [OF assms])
  have "ledger_ok rows'" using Claim_ok [OF assms(1), of sid tok at ex] assms(2) by simp
  moreover have "claim_row tok at ex t = (\<lambda>r. if rq_id r = rq_id t then claim_row tok at ex r else r) t" by simp
  then have "claim_row tok at ex t \<in> set rows'" unfolding rows' set_map using t(1) by (rule image_eqI)
  ultimately show ?thesis using t(3,4) by (intro that [of "claim_row tok at ex t"]) (simp_all add: holds_lease_def claim_row_def)
qed

section \<open>Properties\<close>

text \<open>
  C28: a delivered prompt is never asked for again. In any history of the ledger, with recordings,
  refinements, claims, releases and confirmations interleaved in any order, once the row of a prompt is
  delivered or fulfilled no later claim, of any session at any time, is granted that prompt, and no
  token can release or confirm it: such a call reports that the lease is not active and changes nothing.\<close>

theorem settled_prompt_final:
  assumes "reach ledger_init ledger_step rows" and "settled pid rows" and "ledger_step\<^sup>*\<^sup>* rows rows'"
  shows "(fst (ClaimCodexPrompt rows' sid tok at ex) = Inr (Some c) \<longrightarrow> pc_request_id c \<noteq> pid)
    \<and> ReleaseCodexPrompt rows' pid tok = (Inl LeaseNotActive, rows')
    \<and> ConfirmCodexPrompt rows' pid tok now = (Inl LeaseNotActive, rows')"
proof -
  have ok: "ledger_ok rows'"
    using prompt_ledger.reach_inv prompt_ledger.steps_inv assms(1,3) by blast
  have s: "settled pid rows'"
    using prompt_ledger.sealed_forever [OF assms(3) prompt_ledger.reach_inv [OF assms(1)] assms(2)] .
  have inactive: "ReleaseCodexPrompt rows' pid tok = (Inl LeaseNotActive, rows')"
    "ConfirmCodexPrompt rows' pid tok now = (Inl LeaseNotActive, rows')"
    unfolding ReleaseCodexPrompt_def ConfirmCodexPrompt_def
    by (rule transition_unheld, erule settled_unheld [OF ok s])+
  moreover have "pc_request_id c \<noteq> pid" if granted: "fst (ClaimCodexPrompt rows' sid tok at ex) = Inr (Some c)"
  proof -
    obtain rows'' where "ClaimCodexPrompt rows' sid tok at ex = (Inr (Some c), rows'')"
      using granted by (metis prod.collapse)
    then obtain t where t: "t \<in> set rows'" "claimable sid at t" "pc_request_id c = rq_prompt_id t"
      using claim_grant [OF ok] by metis
    then show ?thesis
      using settled_rowD [OF ok _ t(1)] s by (auto simp: settled_row_def claimable_def)
  qed
  ultimately show ?thesis by blast
qed

text \<open>
  C29: a claim is exclusive while its lease runs. After a claim is granted, a second claim before the
  expiry of the lease is never granted the same prompt, another token can neither release nor confirm
  it, and the winner's token confirms it: the call succeeds, and the one row of the prompt is then
  delivered, at exactly the time the caller gave (its instant, in UTC), and holds no claim any more.\<close>

theorem live_lease_exclusive:
  assumes "ledger_ok rows" and "ClaimCodexPrompt rows sid tok at ex = (Inr (Some c), rows')"
  shows "(wall at' < wall ex \<longrightarrow> fst (ClaimCodexPrompt rows' sid' tok' at' ex') = Inr (Some c') \<longrightarrow>
             pc_request_id c' \<noteq> pc_request_id c)
    \<and> (tok' \<noteq> tok \<longrightarrow> ReleaseCodexPrompt rows' (pc_request_id c) tok' = (Inl LeaseNotActive, rows')
         \<and> ConfirmCodexPrompt rows' (pc_request_id c) tok' now = (Inl LeaseNotActive, rows'))
    \<and> (\<exists>rows''. ConfirmCodexPrompt rows' (pc_request_id c) (pc_token c) now = (Inr (), rows'')
         \<and> map (\<lambda>r. (rq_prompt_state r, rq_delivered_at r, rq_claim_token r, rq_lease_expires_at r))
             (filter (\<lambda>r. rq_prompt_id r = pc_request_id c) rows'')
           = [(PromptDelivered, Some (GoTime (wall now) None 0), None, None)])"
proof -
  obtain w where ok: "ledger_ok rows'" and c: "pc_token c = tok"
    and w: "w \<in> set rows'" "rq_prompt_id w = pc_request_id c" "holds_lease (pc_request_id c) tok w"
      "rq_lease_expires_at w = Some (formatMemoryValidityTimestamp ex)"
    using claim_winner [OF assms] by metis
  have only: "r = w" if "r \<in> set rows'" "rq_prompt_id r = pc_request_id c" for r
    using ledger_okD(2) [OF ok that(1) w(1)] w(2) that(2) by simp
  have other: "\<not> holds_lease (pc_request_id c) tok' r" if "tok' \<noteq> tok" "r \<in> set rows'" for r
    using only [OF that(2)] w(3) that(1) by (auto simp: holds_lease_def)
  have released: "ReleaseCodexPrompt rows' (pc_request_id c) tok' = (Inl LeaseNotActive, rows')" if "tok' \<noteq> tok"
    unfolding ReleaseCodexPrompt_def by (rule transition_unheld) (rule other [OF that])
  have confirmed: "ConfirmCodexPrompt rows' (pc_request_id c) tok' now = (Inl LeaseNotActive, rows')" if "tok' \<noteq> tok"
    unfolding ConfirmCodexPrompt_def by (rule transition_unheld) (rule other [OF that])
  have exclusive: "pc_request_id c' \<noteq> pc_request_id c"
    if "wall at' < wall ex" and granted: "fst (ClaimCodexPrompt rows' sid' tok' at' ex') = Inr (Some c')"
  proof
    assume same: "pc_request_id c' = pc_request_id c"
    obtain rows'' where "ClaimCodexPrompt rows' sid' tok' at' ex' = (Inr (Some c'), rows'')"
      using granted by (metis prod.collapse)
    then obtain u where u: "u \<in> set rows'" "claimable sid' at' u" "pc_request_id c' = rq_prompt_id u"
      using claim_grant [OF ok] by metis
    have "u = w" using only u(1,3) same by simp
    then show False using u(2) that(1) w(3,4) by (simp add: claimable_def holds_lease_def formatMemoryValidityTimestamp_def)
  qed
  let ?after = "snd (ConfirmCodexPrompt rows' (pc_request_id c) tok now)"
  have "confirm_row now w \<in> set ?after"
    unfolding ConfirmCodexPrompt_def by (rule transition_held_row [OF w(1,3)])
  then have "filter (\<lambda>r. rq_prompt_id r = pc_request_id c) ?after = [confirm_row now w]"
    using filter_key_single [of rq_prompt_id ?after "confirm_row now w"] Confirm_ok [OF ok] w(2)
    by (simp add: ledger_ok_def)
  moreover have "(rq_prompt_state r, rq_delivered_at r, rq_claim_token r, rq_lease_expires_at r)
      = (PromptDelivered, Some (GoTime (wall now) None 0), None, None)" if "r = confirm_row now w" for r
    by (simp add: that row_change_defs formatMemoryValidityTimestamp_def round0_def utc_def)
  moreover have "fst (ConfirmCodexPrompt rows' (pc_request_id c) tok now) = Inr ()"
    unfolding ConfirmCodexPrompt_def by (rule transition_held [OF ok w(1,3)])
  ultimately have "\<exists>rows''. ConfirmCodexPrompt rows' (pc_request_id c) (pc_token c) now = (Inr (), rows'')
         \<and> map (\<lambda>r. (rq_prompt_state r, rq_delivered_at r, rq_claim_token r, rq_lease_expires_at r))
             (filter (\<lambda>r. rq_prompt_id r = pc_request_id c) rows'')
           = [(PromptDelivered, Some (GoTime (wall now) None 0), None, None)]"
    using c by (intro exI [of _ ?after]) (simp add: prod_eq_iff)
  then show ?thesis using released confirmed exclusive by blast
qed

lemma stamped_outcome [simp]: "rq_refine_outcome (stamp_row s r) = Some (st_outcome s)"
  by (simp add: row_change_defs)

lemma superseded_not_claimable:
  assumes "ledger_ok rows" and "t \<in> set rows" "cr_session_id (rq_request t) = sid" "rq_refine_outcome t \<noteq> None"
    and "\<And>r. r \<in> set rows \<Longrightarrow> is_open sid r \<Longrightarrow> rq_id r < rq_id t"
    and "u \<in> set (fulfill_superseded sid rows)"
  shows "\<not> claimable sid at u"
proof -
  define same where "same = filter (\<lambda>r. cr_session_id (rq_request r) = sid) rows"
  have "t \<in> set same" using assms(2,3) by (simp add: same_def)
  then obtain l where l: "newest same = Some l" by (cases "newest same") auto
  then have "rq_id t \<le> rq_id l" using newest_Some \<open>t \<in> set same\<close> by blast
  then have older: "rq_id r < rq_id l" if "r \<in> set rows" "is_open sid r" for r
    using assms(5) [OF that] by simp
  obtain r where r: "r \<in> set rows" "u = (if is_open sid r \<and> prompt_only r \<and> rq_id r < rq_id l then fulfill_row r else r)"
    using assms(6) l unfolding fulfill_superseded_def same_def by auto
  show ?thesis
  proof (cases "is_open sid r \<and> prompt_only r")
    case True
    then have "u = fulfill_row r" using r older by simp
    then show ?thesis by (simp add: claimable_def fulfill_row_def)
  next
    case False
    then show ?thesis using r(2) by (auto simp: claimable_def)
  qed
qed

lemma nothing_claimable:
  "(\<And>u. u \<in> set rows \<Longrightarrow> \<not> claimable sid at u) \<Longrightarrow> ClaimCodexPrompt rows sid tok at ex = (Inr None, rows)"
proof -
  assume "\<And>u. u \<in> set rows \<Longrightarrow> \<not> claimable sid at u"
  then have "filter (claimable sid at) rows = []" by (simp add: filter_empty_conv)
  then show ?thesis by (simp add: ClaimCodexPrompt_def)
qed

text \<open>
  C30: an accepted refinement covers every pending prompt of its session. When the newest open request
  is stamped as accepted, whatever leases are pending, claimed or expired, no prompt of the session can
  be claimed from the resulting ledger: a claim at any time and with any token finds nothing and writes
  nothing.\<close>

theorem accepted_refine_covers:
  assumes "ledger_ok rows" and "MarkRefineOutcome rows s = (Inr True, rows')"
    and "st_outcome s = ConsolidationRefineAccepted"
  shows "ClaimCodexPrompt rows' (st_session_id s) tok at ex = (Inr None, rows')"
proof (rule nothing_claimable)
  fix u assume u: "u \<in> set rows'"
  obtain t where n: "newest (filter (is_open (st_session_id s)) rows) = Some t"
    using assms(2) by (cases "newest (filter (is_open (st_session_id s)) rows)") (auto simp: MarkRefineOutcome_def)
  then have t: "t \<in> set rows" "is_open (st_session_id s) t"
    and least: "\<And>r. r \<in> set rows \<Longrightarrow> is_open (st_session_id s) r \<Longrightarrow> rq_id r \<le> rq_id t"
    using newest_Some [OF n] by auto
  define f where "f = (\<lambda>r. if rq_id r = rq_id t then stamp_row s r else r)"
  define rows1 where "rows1 = map f rows"
  have rows': "rows' = fulfill_superseded (st_session_id s) rows1"
    using assms(2,3) n by (auto simp: MarkRefineOutcome_def Let_def rows1_def f_def split: if_splits)
  have ok: "ledger_ok rows1"
    unfolding rows1_def f_def using ledger_okD(3) [OF assms(1)]
    by (intro ledger_map [OF assms(1)]) (auto intro!: row_changes_ok)
  have "f t \<in> set rows1" unfolding rows1_def set_map using t(1) by (rule imageI)
  moreover have "cr_session_id (rq_request (f t)) = st_session_id s" "rq_refine_outcome (f t) \<noteq> None"
    using t(2) by (simp_all add: f_def is_open_def)
  moreover have "rq_id r < rq_id (f t)" if r: "r \<in> set rows1" "is_open (st_session_id s) r" for r
  proof -
    obtain r0 where r0: "r0 \<in> set rows" "r = f r0" using r(1) by (auto simp: rows1_def)
    have "rq_id r0 \<noteq> rq_id t" using r(2) r0(2) by (auto simp: f_def is_open_def)
    then have "rq_id r0 < rq_id t" using least [OF r0(1)] r(2) r0(2) by (simp add: f_def)
    then show ?thesis using r0(2) by (simp add: f_def)
  qed
  ultimately show "\<not> claimable (st_session_id s) at u"
    using superseded_not_claimable [OF ok] u rows' by metis
qed

section \<open>What the work check reads back\<close>

lemma request_validate_Inr:
  "request_validate r = Inr () \<longleftrightarrow>
     trim_space (cr_session_id r) \<noteq> '''' \<and> cr_client r \<noteq> '''' \<and> trim_space (cr_at_event_id r) \<noteq> '''' \<and> cr_signal r \<noteq> ''''
     \<and> 0 < cr_threshold r \<and> 0 \<le> cr_pressure r \<and> (\<exists>d. ConsolidationDeliveryFrom (cr_delivery r) = Inr d)"
  by (auto simp: request_validate_def split: sum.splits)

lemma New_request_Inr:
  "NewConsolidationRequest sid client at eid signal p th re d = Inr r \<longleftrightarrow>
     r = \<lparr>cr_session_id = sid, cr_client = trim_space client, cr_requested_at = utc at, cr_at_event_id = eid,
          cr_signal = trim_space signal, cr_pressure = p, cr_threshold = th, cr_re_request = re, cr_delivery = d\<rparr>
     \<and> request_validate r = Inr ()"
  by (auto simp: NewConsolidationRequest_def Let_def split: sum.splits)

lemma delivery_known: "List.member consolidation_deliveries d \<Longrightarrow> ConsolidationDeliveryFrom d = Inr d"
proof -
  assume d: "List.member consolidation_deliveries d"
  have "trim_space d = d"
    using d by (intro trim_space_solid)
      (auto simp: consolidation_deliveries_def ConsolidationDeliveryStopExit2_def ConsolidationDeliveryAdditionalContext_def
        ConsolidationDeliveryNone_def solid_def)
  then show ?thesis using d by (simp add: ConsolidationDeliveryFrom_def)
qed

lemma stored_roundtrip:
  assumes "request_validate q = Inr ()" "trim_space (cr_client q) = cr_client q" "trim_space (cr_signal q) = cr_signal q"
    and "List.member consolidation_deliveries (cr_delivery q)" "SessionIDFrom (cr_session_id q) = Inr (cr_session_id q)"
    "EventIDFrom (cr_at_event_id q) = Inr (cr_at_event_id q)"
    and "0 \<le> year (utc t)" "year (utc t) \<le> 9999"
  shows "consolidationRequestFromStored (q\<lparr>cr_requested_at := formatMemoryValidityTimestamp t\<rparr>)
           = Inr (q\<lparr>cr_requested_at := formatMemoryValidityTimestamp t\<rparr>)"
proof -
  have "utc (formatMemoryValidityTimestamp t) = formatMemoryValidityTimestamp t"
    by (simp add: formatMemoryValidityTimestamp_def utc_def round0_def)
  moreover have "request_validate (q\<lparr>cr_requested_at := u\<rparr>) = Inr ()" for u
    using assms(1) by (simp add: request_validate_Inr)
  ultimately show ?thesis using assms(2-)
    by (cases q) (simp add: consolidationRequestFromStored_def parseStoredTime_def delivery_known New_request_Inr
        formatMemoryValidityTimestamp_def year_def)
qed

text \<open>
  C31: a recorded request is read back and silences the trigger. When a request is recorded, the latest
  request that the repository returns for the session, and the latest open one, is the request of the
  input in every field: its event, pressure, threshold and delivery as given, client and signal
  trimmed, the clock's instant in UTC, marked as repeated just when an earlier request was open. (The
  session and event ids are trimmed ones, as their constructors return them, and the clock reads a
  year of four digits, without which the stored time could not be parsed.) From then on the work check cannot report
  work that is due before as many transcripts as the stop cadence follow the event the request was made
  at, whatever the other repositories hold.\<close>

theorem recorded_request_quiets:
  assumes "Record rows now input = (Inr recorded, rows')" and "rd_recorded recorded"
    and "SessionIDFrom (ci_session_id input) = Inr (ci_session_id input)"
    and "EventIDFrom (ci_at_event_id input) = Inr (ci_at_event_id input)"
    and "0 \<le> year (utc now)" "year (utc now) \<le> 9999"
    and "q = \<lparr>cr_session_id = ci_session_id input, cr_client = trim_space (ci_client input),
              cr_requested_at = GoTime (wall now) None 0, cr_at_event_id = ci_at_event_id input,
              cr_signal = trim_space (ci_signal input), cr_pressure = ci_pressure input,
              cr_threshold = ci_threshold input, cr_re_request = rd_re_request recorded,
              cr_delivery = ci_delivery input\<rparr>"
  shows "FindLatest rows' (ci_session_id input) = Inr (Some q)
    \<and> FindLatestOpen rows' (ci_session_id input) = Inr (Some q)
    \<and> (rd_re_request recorded \<longleftrightarrow> FindLatestOpen rows (ci_session_id input) \<noteq> Inr None)
    \<and> (pp_requests ports = Some rows' \<and> Check ports (ci_session_id input) policy = Inr res
        \<and> pp_pressure ports = Some events
        \<and> CountKindAfter events (ci_session_id input) ''transcript'' (Some (ci_at_event_id input)) < po_stop_cadence policy
        \<longrightarrow> \<not> pr_due res)"
proof -
  define sid where "sid = ci_session_id input"
  obtain prior q0 where prior: "FindLatestOpen rows sid = Inr prior"
    and q0: "NewConsolidationRequest sid (ci_client input) now (ci_at_event_id input) (ci_signal input)
               (ci_pressure input) (ci_threshold input) (prior \<noteq> None) (ci_delivery input) = Inr q0"
    and saved: "Save rows (Some q0) = (Inr True, rows')" and re: "rd_re_request recorded = (prior \<noteq> None)"
    using assms(1,2) by (auto simp: Record_def Let_def sid_def split: sum.splits prod.splits)
  have same: "q = q0\<lparr>cr_requested_at := formatMemoryValidityTimestamp (cr_requested_at q0)\<rparr>"
    using q0 re assms(7) by (simp add: New_request_Inr sid_def formatMemoryValidityTimestamp_def round0_def utc_def)
  have known: "List.member consolidation_deliveries (cr_delivery q0)"
    using saved by (auto simp: Save_def Let_def split: if_splits)
  have stored: "consolidationRequestFromStored q = Inr q"
    unfolding same using q0 known assms(3-6)
    by (intro stored_roundtrip) (auto simp: New_request_Inr sid_def year_def)
  obtain n where n: "rows' = rows @ [n]" "rq_request n = q" "\<forall>r \<in> set rows. rq_id r < rq_id n" "rq_refine_outcome n = None"
    using saved by (rule Save_cases) (auto simp: same)
  have q: "cr_session_id q = sid" "cr_at_event_id q = ci_at_event_id input" by (simp_all add: assms(7) sid_def)
  have latest: "FindLatest rows' sid = Inr (Some q)"
    using n q(1) stored newest_append_largest [of "filter (\<lambda>r. cr_session_id (rq_request r) = sid) rows" n]
    by (simp add: FindLatest_def)
  moreover have "FindLatestOpen rows' sid = Inr (Some q)"
    using n q(1) stored newest_append_largest [of "filter (is_open sid) rows" n]
    by (simp add: FindLatestOpen_def is_open_def)
  moreover have "rd_re_request recorded \<longleftrightarrow> FindLatestOpen rows sid \<noteq> Inr None" using re prior by simp
  moreover have "\<not> pr_due res"
    if "pp_requests ports = Some rows'" "Check ports (ci_session_id input) policy = Inr res" "pp_pressure ports = Some events"
      "CountKindAfter events (ci_session_id input) ''transcript'' (Some (ci_at_event_id input)) < po_stop_cadence policy"
    using that latest q(2)
    by (auto simp: Check_def cadence_check_def Let_def andThen_Inr no_result_def sid_def split: if_splits option.splits)
  ultimately show ?thesis unfolding sid_def by blast
qed

text \<open>The work check, completely: it is due exactly when both policy fields are positive, the session is not a
  subagent's, enough commands follow the covered part, and enough transcripts follow the latest request.\<close>

lemma work_due_iff:
  assumes "pp_pressure ports = Some events" "pp_refinement ports = Some store" "pp_kind ports = Some sessions"
    "pp_requests ports = Some requests" "trim_space sid \<noteq> ''''" "FindBySessionID store sid = Inr existing"
    "FindLatest requests sid = Inr latest"
  shows "\<exists>res. Check ports sid policy = Inr res
     \<and> (pr_due res \<longleftrightarrow>
          0 < po_min_commands policy \<and> 0 < po_stop_cadence policy \<and> IsMainSession sessions sid \<noteq> Some False
          \<and> po_min_commands policy \<le> CountKindAfter events sid ''command_executed'' (map_option sr_covers_to existing)
          \<and> (\<forall>q. latest = Some q \<longrightarrow> po_stop_cadence policy \<le> CountKindAfter events sid ''transcript'' (Some (cr_at_event_id q))))
     \<and> (pr_due res \<longleftrightarrow> pr_skipped res = '''')"
  using assms
  by (cases latest) (auto simp: Check_def cadence_check_def Let_def no_result_def)

section \<open>A concrete ledger\<close>

definition ask_input :: ConsolidationRequestInput where
  "ask_input = \<lparr>ci_session_id = ''s1'', ci_client = ''codex'', ci_at_event_id = ''e1'', ci_signal = ''work'',
     ci_pressure = 3, ci_threshold = 2, ci_delivery = ''none''\<rparr>"

definition ask_row :: RequestRow where
  "ask_row = \<lparr>rq_id = 1,
     rq_request = \<lparr>cr_session_id = ''s1'', cr_client = ''codex'', cr_requested_at = GoTime 5 None 0, cr_at_event_id = ''e1'',
       cr_signal = ''work'', cr_pressure = 3, cr_threshold = 2, cr_re_request = False, cr_delivery = ''none''\<rparr>,
     rq_refine_outcome = None, rq_refine_reason = '''', rq_refine_produced_by = '''', rq_refined_at = None,
     rq_generation = None, rq_prompt_id = prompt_request_id ''s1'' ''e1'', rq_prompt_state = PromptPending,
     rq_claim_token = None, rq_claimed_at = None, rq_lease_expires_at = None, rq_delivered_at = None\<rparr>"

lemma ask_trims [simp]:
  "trim_space ''codex'' = ''codex''" "trim_space ''work'' = ''work''" "trim_space ''none'' = ''none''" "trim_space ''t1'' = ''t1''"
  by (rule trim_space_solid; simp add: solid_def)+

lemmas ask_defs = ask_input_def ask_row_def ConsolidationDeliveryFrom_def consolidation_deliveries_def
  ConsolidationDeliveryStopExit2_def ConsolidationDeliveryAdditionalContext_def ConsolidationDeliveryNone_def
  SessionIDFrom_def EventIDFrom_def nonempty_from_def request_validate_def NewConsolidationRequest_def

lemma ask_recorded:
  "Record [] (GoTime 5 (Some 1) 9) ask_input = (Inr \<lparr>rd_recorded = True, rd_re_request = False\<rparr>, [ask_row])"
  by (simp add: Record_def FindLatestOpen_def Save_def formatMemoryValidityTimestamp_def round0_def utc_def Let_def ask_defs)

lemma ask_reach: "reach ledger_init ledger_step [ask_row]"
  using reach.intros ledger_init.intros ledger_step.recorded [OF ask_recorded] by metis

lemma ask_ok: "ledger_ok [ask_row]"
  by (rule prompt_ledger.reach_inv [OF ask_reach])

definition ask_claim :: CodexPromptClaim where
  "ask_claim = \<lparr>pc_request = rq_request ask_row, pc_request_id = prompt_request_id ''s1'' ''e1'', pc_token = ''t1''\<rparr>"

lemma prompt_request_id_nonempty [simp]: "prompt_request_id a b \<noteq> ''''"
  by (simp add: prompt_request_id_def)

lemma ask_claimed:
  "ClaimCodexPrompt [ask_row] ''s1'' ''t1'' (GoTime 6 None 0) (GoTime 9 None 0)
     = (Inr (Some ask_claim), [claim_row ''t1'' (GoTime 6 None 0) (GoTime 9 None 0) ask_row])"
  by (simp add: ClaimCodexPrompt_def claimable_def is_open_def prompt_only_def consolidationRequestFromStored_def
      ConsolidationPromptRequestIDFrom_def NewCodexPromptClaim_def ask_claim_def utc_def Let_def ask_defs
      parseStoredTime_def year_def year_of_days_def)

definition ask_stamp :: ConsolidationRefineStamp where
  "ask_stamp = \<lparr>st_session_id = ''s1'', st_outcome = ''accepted'', st_reason = '''', st_produced_by = ''bot'',
     st_generation = Some 1, st_at = GoTime 8 None 0\<rparr>"

lemma ask_stamped: "MarkRefineOutcome [ask_row] ask_stamp = (Inr True, [stamp_row ask_stamp ask_row])"
proof -
  have "is_open ''s1'' ask_row" "\<not> is_open ''s1'' (stamp_row ask_stamp ask_row)"
    by (simp_all add: is_open_def ask_row_def)
  then show ?thesis
    by (simp add: MarkRefineOutcome_def fulfill_superseded_def ask_stamp_def consolidation_outcomes_def
        ConsolidationRefineAccepted_def ConsolidationRefineRejected_def)
qed

lemma ask_refined: "ledger_step [ask_row] [stamp_row ask_stamp ask_row]"
  using ledger_step.refined [of "[ask_row]" "GoTime 8 None 0" ask_stamp] ask_stamped
  by (simp add: RecordRefineOutcome_def is_zero_def ask_stamp_def)

lemma ask_settled: "settled (prompt_request_id ''s1'' ''e1'') [stamp_row ask_stamp ask_row]"
  by (simp add: settled_def settled_row_def row_change_defs ask_stamp_def ask_row_def ConsolidationRefineAccepted_def
      ConsolidationDeliveryNone_def)

theorem settled_prompt_final_witness:
  "ReleaseCodexPrompt [stamp_row ask_stamp ask_row] (prompt_request_id ''s1'' ''e1'') ''t1''
     = (Inl LeaseNotActive, [stamp_row ask_stamp ask_row])"
  using settled_prompt_final [OF reach.reach_step [OF ask_reach ask_refined] ask_settled rtranclp.rtrancl_refl] by blast

theorem live_lease_exclusive_witness:
  "ReleaseCodexPrompt [claim_row ''t1'' (GoTime 6 None 0) (GoTime 9 None 0) ask_row] (pc_request_id ask_claim) ''t2''
     = (Inl LeaseNotActive, [claim_row ''t1'' (GoTime 6 None 0) (GoTime 9 None 0) ask_row])"
  using live_lease_exclusive [OF ask_ok ask_claimed, where tok' = "''t2''"] by simp

theorem accepted_refine_covers_witness:
  "ClaimCodexPrompt [stamp_row ask_stamp ask_row] ''s1'' ''t1'' (GoTime 9 None 0) (GoTime 10 None 0)
     = (Inr None, [stamp_row ask_stamp ask_row])"
  using accepted_refine_covers [OF ask_ok ask_stamped]
  by (simp add: ask_stamp_def ConsolidationRefineAccepted_def)

theorem recorded_request_quiets_witness: "FindLatest [ask_row] ''s1'' = Inr (Some (rq_request ask_row))"
proof -
  have "0 \<le> year (utc (GoTime 5 (Some 1) 9))" "year (utc (GoTime 5 (Some 1) 9)) \<le> 9999"
    by (simp_all add: year_def utc_def year_of_days_def)
  with recorded_request_quiets [OF ask_recorded, of "rq_request ask_row"] show ?thesis
    by (simp add: ask_row_def ask_input_def SessionIDFrom_def EventIDFrom_def nonempty_from_def)
qed

end
