(* ===== verification/Upgrade_Run.thy ===== *)
theory Upgrade_Run
  imports Go_Strings
begin

text \<open>
  The prepared store upgrade as the domain sees it (\<open>domain/prepared_store_upgrade.go\<close>,
  \<open>bound_drop_approval.go\<close>, \<open>unavailable_retention_approval.go\<close>): the durable record of a run, its phases, the
  observed placement of the fenced files, the next action of a normal run and the actions of a recovery.
\<close>

section \<open>The record of a run\<close>

datatype PreparedStoreUpgradePhase =
    PreparedStoreUpgradePlanned
  | PreparedStoreUpgradeCopyIntent
  | PreparedStoreUpgradeCopyRetryIntent
  | PreparedStoreUpgradeCandidatePrepared
  | PreparedStoreUpgradeCopyComplete
  | PreparedStoreUpgradeCandidateSyncIntent
  | PreparedStoreUpgradeCandidateSynced
  | PreparedStoreUpgradeScrubInProgress
  | PreparedStoreUpgradeCandidateVerified
  | PreparedStoreUpgradeSwapIntent
  | PreparedStoreUpgradeSwapped
  | PreparedStoreUpgradeRollbackPublishIntent
  | PreparedStoreUpgradeRollbackReady
  | PreparedStoreUpgradeCommitted
  | PreparedStoreUpgradeRollbackSwapIntent
  | PreparedStoreUpgradeRollbackSwapped
  | PreparedStoreUpgradeRolledBack
  | PreparedStoreUpgradeAbandoned
  | OtherPhase string

record StoreFileIdentity =
  fi_device :: nat
  fi_inode :: nat
  fi_size :: int
  fi_mod_unix :: int
  fi_mode :: nat
  fi_links :: nat

definition no_identity :: StoreFileIdentity where
  "no_identity = \<lparr>fi_device = 0, fi_inode = 0, fi_size = 0, fi_mod_unix = 0, fi_mode = 0, fi_links = 0\<rparr>"

definition SameInode :: "StoreFileIdentity \<Rightarrow> StoreFileIdentity \<Rightarrow> bool" where
  "SameInode i other \<longleftrightarrow> fi_device i = fi_device other \<and> fi_inode i = fi_inode other \<and> fi_device i \<noteq> 0 \<and> fi_inode i \<noteq> 0"

record PreparedStoreUpgradeResourcePlan =
  rp_required_bytes :: uint64
  rp_destination_bytes :: uint64
  rp_temporary_bytes :: uint64
  rp_safety_margin_bytes :: uint64
  rp_available_bytes :: uint64
  rp_filesystem_device :: nat
  rp_lease_capability :: bool
  rp_exchange_capability :: bool

definition no_resources :: PreparedStoreUpgradeResourcePlan where
  "no_resources = \<lparr>rp_required_bytes = 0, rp_destination_bytes = 0, rp_temporary_bytes = 0, rp_safety_margin_bytes = 0,
     rp_available_bytes = 0, rp_filesystem_device = 0, rp_lease_capability = False, rp_exchange_capability = False\<rparr>"

datatype PreparedStoreUpgradeOperation =
    PreparedStoreUpgradeOperationCompaction
  | PreparedStoreUpgradeOperationOfflineMigrationUpgrade
  | OtherOperation string

definition Known :: "PreparedStoreUpgradeOperation \<Rightarrow> bool" where
  "Known p \<longleftrightarrow> p = PreparedStoreUpgradeOperationCompaction \<or> p = PreparedStoreUpgradeOperationOfflineMigrationUpgrade"

record PreparedStoreUpgradeBudget =
  bu_wall_time_limit :: int
  bu_publish_lock_limit :: int
  bu_owned_disk_byte_limit :: uint64
  bu_wal_byte_limit :: uint64
  bu_temporary_byte_limit :: uint64
  bu_safety_margin_bytes :: uint64

record CanonicalEventAuditEvidence =
  ce_event_count :: uint64
  ce_audit_count :: uint64
  ce_digest :: string

record PreparedCandidateEvidence =
  pe_source_digest :: string
  pe_candidate_digest :: string
  pe_migration_set_digest :: string
  pe_schema_digest :: string
  pe_canonical :: CanonicalEventAuditEvidence
  pe_peak_owned_bytes :: uint64
  pe_peak_wal_bytes :: uint64
  pe_build_milliseconds :: int

definition no_evidence :: PreparedCandidateEvidence where
  "no_evidence = \<lparr>pe_source_digest = '''', pe_candidate_digest = '''', pe_migration_set_digest = '''', pe_schema_digest = '''',
     pe_canonical = \<lparr>ce_event_count = 0, ce_audit_count = 0, ce_digest = ''''\<rparr>, pe_peak_owned_bytes = 0,
     pe_peak_wal_bytes = 0, pe_build_milliseconds = 0\<rparr>"

datatype PreparedStoreUpgradeOrientation =
    OrientationSourceOriginal
  | OrientationCandidateReady
  | OrientationSwapped
  | OrientationRollbackReady
  | OrientationRolledBack
  | NoOrientation

datatype CandidateCondition = CandidateConditionUnknown | CandidateConditionComplete | CandidateConditionOwnedIncomplete | NoCondition

record PreparedStoreUpgradeObservation =
  ob_orientation :: PreparedStoreUpgradeOrientation
  ob_source :: StoreFileIdentity
  ob_candidate :: StoreFileIdentity
  ob_rollback :: StoreFileIdentity
  ob_candidate_exists :: bool
  ob_rollback_exists :: bool
  ob_candidate_condition :: CandidateCondition

datatype PreparedStoreUpgradeAction =
    ActionRecheckPlan
  | ActionPrepareCandidate
  | ActionBuildCandidate
  | ActionRemoveOwnedPartialCandidate
  | ActionRecordCopyRetryIntent
  | ActionRecordCopyComplete
  | ActionRecordSyncIntent
  | ActionSyncCandidate
  | ActionRecordScrubInProgress
  | ActionVerifyCandidate
  | ActionRecordSwapIntent
  | ActionExchange
  | ActionRecordSwapped
  | ActionRecordPublishIntent
  | ActionPublishRollback
  | ActionRecordRollbackReady
  | ActionCommit
  | ActionRollbackExchange
  | ActionSyncRecoveredOrientation
  | ActionRecordRollbackSwapped
  | ActionRecordRolledBack
  | NoAction

datatype upgrade_error = UpgradeRefused string | ErrNotExist | IOFailed

text \<open>Guards tried in order; the first that holds refuses.\<close>

fun checks :: "(bool \<times> string) list \<Rightarrow> upgrade_error + unit" where
  "checks [] = Inr ()"
| "checks ((b, msg) # cs) = (if b then Inl (UpgradeRefused msg) else checks cs)"

lemma checks_Inr: "checks ((b, msg) # cs) = Inr u \<longleftrightarrow> \<not> b \<and> checks cs = Inr u"
  by simp

record BoundDropApproval =
  bd_row_count :: int
  bd_identity_digest :: string

definition NewBoundDropApproval :: "int \<Rightarrow> string \<Rightarrow> upgrade_error + BoundDropApproval" where
  "NewBoundDropApproval rowCount identityDigest =
     (let digest = trim_space identityDigest
      in if rowCount < 0 then Inl (UpgradeRefused ''bound drop approval row count must not be negative'')
         else if digest = '''' then Inl (UpgradeRefused ''bound drop approval identity digest must not be empty'')
         else Inr \<lparr>bd_row_count = rowCount, bd_identity_digest = digest\<rparr>)"

record UnavailableRetentionApproval =
  ua_run_id :: string
  ua_source_identity :: StoreFileIdentity
  ua_schema_version :: int
  ua_row_count :: int
  ua_set_digest :: string

definition NewUnavailableRetentionApproval :: "int \<Rightarrow> string \<Rightarrow> int \<Rightarrow> upgrade_error + UnavailableRetentionApproval" where
  "NewUnavailableRetentionApproval rowCount setDigest schemaVersion =
     (let digest = trim_space setDigest
      in if rowCount < 0 then Inl (UpgradeRefused ''unavailable retention approval row count must not be negative'')
         else if digest = '''' then Inl (UpgradeRefused ''unavailable retention approval set digest must not be empty'')
         else if schemaVersion < 0 then Inl (UpgradeRefused ''unavailable retention approval schema version must not be negative'')
         else Inr \<lparr>ua_run_id = '''', ua_source_identity = no_identity, ua_schema_version = schemaVersion,
                   ua_row_count = rowCount, ua_set_digest = digest\<rparr>)"

definition Bind :: "UnavailableRetentionApproval \<Rightarrow> string \<Rightarrow> StoreFileIdentity \<Rightarrow> UnavailableRetentionApproval" where
  "Bind a runID sourceIdentity = a\<lparr>ua_run_id := trim_space runID, ua_source_identity := sourceIdentity\<rparr>"

definition Matches :: "UnavailableRetentionApproval \<Rightarrow> string \<Rightarrow> StoreFileIdentity \<Rightarrow> int \<Rightarrow> int \<Rightarrow> string \<Rightarrow> bool" where
  "Matches a runID sourceIdentity schemaVersion rowCount setDigest \<longleftrightarrow>
     ua_run_id a = runID \<and> ua_source_identity a = sourceIdentity \<and> ua_schema_version a = schemaVersion
     \<and> ua_row_count a = rowCount \<and> ua_set_digest a = setDigest"

record PreparedStoreUpgradeRun =
  ru_id :: string
  ru_source_path :: string
  ru_candidate_path :: string
  ru_rollback_path :: string
  ru_phase :: PreparedStoreUpgradePhase
  ru_source_identity :: StoreFileIdentity
  ru_candidate :: StoreFileIdentity
  ru_prepared_candidate_identity :: StoreFileIdentity
  ru_prepared_attempt :: uint64
  ru_resources :: PreparedStoreUpgradeResourcePlan
  ru_operation :: PreparedStoreUpgradeOperation
  ru_consumer_binding :: string
  ru_plan_digest :: string
  ru_source_digest :: string
  ru_bound_drop_approval :: "BoundDropApproval option"
  ru_unavailable_retention_approval :: "UnavailableRetentionApproval option"
  ru_budget :: PreparedStoreUpgradeBudget
  ru_evidence :: PreparedCandidateEvidence
  ru_created_at :: gotime
  ru_updated_at :: gotime

section \<open>Decisions\<close>

fun next_action :: "PreparedStoreUpgradePhase \<Rightarrow> upgrade_error + PreparedStoreUpgradeAction" where
  "next_action PreparedStoreUpgradePlanned = Inr ActionRecheckPlan"
| "next_action PreparedStoreUpgradeCopyIntent = Inr ActionPrepareCandidate"
| "next_action PreparedStoreUpgradeCopyRetryIntent = Inr ActionPrepareCandidate"
| "next_action PreparedStoreUpgradeCandidatePrepared = Inr ActionBuildCandidate"
| "next_action PreparedStoreUpgradeCopyComplete = Inr ActionRecordSyncIntent"
| "next_action PreparedStoreUpgradeCandidateSyncIntent = Inr ActionSyncCandidate"
| "next_action PreparedStoreUpgradeCandidateSynced = Inr ActionRecordScrubInProgress"
| "next_action PreparedStoreUpgradeScrubInProgress = Inr ActionVerifyCandidate"
| "next_action PreparedStoreUpgradeCandidateVerified = Inr ActionRecordSwapIntent"
| "next_action PreparedStoreUpgradeSwapIntent = Inr ActionExchange"
| "next_action PreparedStoreUpgradeSwapped = Inr ActionRecordPublishIntent"
| "next_action PreparedStoreUpgradeRollbackPublishIntent = Inr ActionPublishRollback"
| "next_action PreparedStoreUpgradeRollbackReady = Inr ActionCommit"
| "next_action PreparedStoreUpgradeCommitted = Inr NoAction"
| "next_action _ = Inl (UpgradeRefused ''no normal apply action'')"

definition NextAction :: "PreparedStoreUpgradeRun \<Rightarrow> upgrade_error + PreparedStoreUpgradeAction" where
  "NextAction r = next_action (ru_phase r)"

definition unsafe_observation :: "upgrade_error + PreparedStoreUpgradeAction list" where
  "unsafe_observation = Inl (UpgradeRefused ''unsafe prepared upgrade observation'')"

definition RecoveryActions ::
    "PreparedStoreUpgradeRun \<Rightarrow> PreparedStoreUpgradeObservation \<Rightarrow> upgrade_error + PreparedStoreUpgradeAction list" where
  "RecoveryActions r observation =
     (case ob_orientation observation of
        OrientationSwapped \<Rightarrow>
          (case ru_phase r of
             PreparedStoreUpgradeCandidateVerified \<Rightarrow> Inr [ActionRecordSwapIntent, ActionSyncRecoveredOrientation, ActionRecordSwapped]
           | PreparedStoreUpgradeSwapIntent \<Rightarrow> Inr [ActionSyncRecoveredOrientation, ActionRecordSwapped]
           | PreparedStoreUpgradeSwapped \<Rightarrow> Inr []
           | PreparedStoreUpgradeRollbackPublishIntent \<Rightarrow> Inr []
           | _ \<Rightarrow> unsafe_observation)
      | OrientationRollbackReady \<Rightarrow>
          (case ru_phase r of
             PreparedStoreUpgradeSwapped \<Rightarrow> Inr [ActionRecordPublishIntent, ActionSyncRecoveredOrientation, ActionRecordRollbackReady]
           | PreparedStoreUpgradeRollbackPublishIntent \<Rightarrow> Inr [ActionSyncRecoveredOrientation, ActionRecordRollbackReady]
           | PreparedStoreUpgradeRollbackReady \<Rightarrow> Inr []
           | PreparedStoreUpgradeCommitted \<Rightarrow> Inr []
           | PreparedStoreUpgradeRollbackSwapIntent \<Rightarrow> Inr [ActionRollbackExchange, ActionRecordRollbackSwapped, ActionRecordRolledBack]
           | _ \<Rightarrow> unsafe_observation)
      | OrientationRolledBack \<Rightarrow>
          (case ru_phase r of
             PreparedStoreUpgradeRollbackSwapIntent \<Rightarrow>
               Inr [ActionSyncRecoveredOrientation, ActionRecordRollbackSwapped, ActionRecordRolledBack]
           | PreparedStoreUpgradeRollbackSwapped \<Rightarrow> Inr [ActionRecordRolledBack]
           | PreparedStoreUpgradeRolledBack \<Rightarrow> Inr []
           | _ \<Rightarrow> unsafe_observation)
      | OrientationSourceOriginal \<Rightarrow>
          (case ru_phase r of
             PreparedStoreUpgradePlanned \<Rightarrow> Inr []
           | PreparedStoreUpgradeCopyIntent \<Rightarrow> Inr []
           | PreparedStoreUpgradeCopyRetryIntent \<Rightarrow> Inr []
           | _ \<Rightarrow> unsafe_observation)
      | OrientationCandidateReady \<Rightarrow>
          (case ru_phase r of
             PreparedStoreUpgradeCopyIntent \<Rightarrow> Inl (UpgradeRefused ''candidate appeared before prepared identity was durable'')
           | PreparedStoreUpgradeCopyRetryIntent \<Rightarrow>
               if \<not> SameInode (ob_candidate observation) (ru_prepared_candidate_identity r)
               then Inl (UpgradeRefused ''retry candidate identity changed'')
               else Inr [ActionRemoveOwnedPartialCandidate]
           | PreparedStoreUpgradeCandidatePrepared \<Rightarrow>
               if \<not> SameInode (ob_candidate observation) (ru_prepared_candidate_identity r)
               then Inl (UpgradeRefused ''prepared candidate identity changed'')
               else (case ob_candidate_condition observation of
                       CandidateConditionComplete \<Rightarrow> Inr [ActionRecordCopyComplete]
                     | CandidateConditionOwnedIncomplete \<Rightarrow> Inr [ActionRecordCopyRetryIntent, ActionRemoveOwnedPartialCandidate]
                     | _ \<Rightarrow> Inl (UpgradeRefused ''candidate ownership/completeness is unknown''))
           | PreparedStoreUpgradeCopyComplete \<Rightarrow> Inr []
           | PreparedStoreUpgradeCandidateSyncIntent \<Rightarrow> Inr []
           | PreparedStoreUpgradeCandidateSynced \<Rightarrow> Inr []
           | PreparedStoreUpgradeScrubInProgress \<Rightarrow> Inr []
           | PreparedStoreUpgradeCandidateVerified \<Rightarrow> Inr []
           | PreparedStoreUpgradeSwapIntent \<Rightarrow> Inr [ActionExchange, ActionRecordSwapped]
           | _ \<Rightarrow> unsafe_observation)
      | NoOrientation \<Rightarrow> unsafe_observation)"

fun preparedStoreUpgradeTransitions :: "PreparedStoreUpgradePhase \<Rightarrow> PreparedStoreUpgradePhase list" where
  "preparedStoreUpgradeTransitions PreparedStoreUpgradePlanned = [PreparedStoreUpgradeCopyIntent, PreparedStoreUpgradeAbandoned]"
| "preparedStoreUpgradeTransitions PreparedStoreUpgradeCopyIntent =
     [PreparedStoreUpgradeCandidatePrepared, PreparedStoreUpgradeAbandoned]"
| "preparedStoreUpgradeTransitions PreparedStoreUpgradeCopyRetryIntent =
     [PreparedStoreUpgradeCandidatePrepared, PreparedStoreUpgradeAbandoned]"
| "preparedStoreUpgradeTransitions PreparedStoreUpgradeCandidatePrepared =
     [PreparedStoreUpgradeCopyComplete, PreparedStoreUpgradeCopyRetryIntent, PreparedStoreUpgradeAbandoned]"
| "preparedStoreUpgradeTransitions PreparedStoreUpgradeCopyComplete = [PreparedStoreUpgradeCandidateSyncIntent]"
| "preparedStoreUpgradeTransitions PreparedStoreUpgradeCandidateSyncIntent = [PreparedStoreUpgradeCandidateSynced]"
| "preparedStoreUpgradeTransitions PreparedStoreUpgradeCandidateSynced = [PreparedStoreUpgradeScrubInProgress]"
| "preparedStoreUpgradeTransitions PreparedStoreUpgradeScrubInProgress = [PreparedStoreUpgradeCandidateVerified]"
| "preparedStoreUpgradeTransitions PreparedStoreUpgradeCandidateVerified = [PreparedStoreUpgradeSwapIntent]"
| "preparedStoreUpgradeTransitions PreparedStoreUpgradeSwapIntent = [PreparedStoreUpgradeSwapped]"
| "preparedStoreUpgradeTransitions PreparedStoreUpgradeSwapped = [PreparedStoreUpgradeRollbackPublishIntent]"
| "preparedStoreUpgradeTransitions PreparedStoreUpgradeRollbackPublishIntent = [PreparedStoreUpgradeRollbackReady]"
| "preparedStoreUpgradeTransitions PreparedStoreUpgradeRollbackReady =
     [PreparedStoreUpgradeCommitted, PreparedStoreUpgradeRollbackSwapIntent]"
| "preparedStoreUpgradeTransitions PreparedStoreUpgradeCommitted = [PreparedStoreUpgradeRollbackSwapIntent]"
| "preparedStoreUpgradeTransitions PreparedStoreUpgradeRollbackSwapIntent = [PreparedStoreUpgradeRollbackSwapped]"
| "preparedStoreUpgradeTransitions PreparedStoreUpgradeRollbackSwapped = [PreparedStoreUpgradeRolledBack]"
| "preparedStoreUpgradeTransitions _ = []"

definition IsTerminal :: "PreparedStoreUpgradePhase \<Rightarrow> bool" where
  "IsTerminal p \<longleftrightarrow> List.member [PreparedStoreUpgradeCommitted, PreparedStoreUpgradeRolledBack, PreparedStoreUpgradeAbandoned] p"

definition IsPrePublication :: "PreparedStoreUpgradePhase \<Rightarrow> bool" where
  "IsPrePublication p \<longleftrightarrow>
     List.member [PreparedStoreUpgradePlanned, PreparedStoreUpgradeCopyIntent, PreparedStoreUpgradeCopyRetryIntent,
                  PreparedStoreUpgradeCandidatePrepared] p"

definition ShouldAbandonForStaleSource :: "PreparedStoreUpgradeRun \<Rightarrow> StoreFileIdentity \<Rightarrow> bool" where
  "ShouldAbandonForStaleSource r current \<longleftrightarrow>
     IsPrePublication (ru_phase r) \<and> current \<noteq> no_identity \<and> current \<noteq> ru_source_identity r"

definition AdvanceRun ::
    "PreparedStoreUpgradeRun \<Rightarrow> PreparedStoreUpgradePhase \<Rightarrow> gotime \<Rightarrow> upgrade_error + PreparedStoreUpgradeRun" where
  "AdvanceRun r next now =
     (if ru_phase r = PreparedStoreUpgradeCommitted \<and> next = PreparedStoreUpgradeRollbackSwapIntent
         \<and> ru_operation r = PreparedStoreUpgradeOperationOfflineMigrationUpgrade
      then Inl (UpgradeRefused ''upgrade run refuses post-commit rollback'')
      else if List.member (preparedStoreUpgradeTransitions (ru_phase r)) next
      then Inr (r\<lparr>ru_phase := next, ru_updated_at := utc now\<rparr>)
      else Inl (UpgradeRefused ''invalid prepared upgrade transition''))"

end
