(* ===== verification/Upgrade_Files.thy ===== *)
theory Upgrade_Files
  imports Upgrade_Run Go_Paths "HOL-Library.AList"
begin

text \<open>
  The disk under a prepared store upgrade (\<open>infrastructure/sqlite/compaction_files.go\<close>, \<open>compaction_sidecars.go\<close>,
  \<open>store_lease_unix.go\<close>): the append-only journal of runs and the fenced file operations. Operations run on a
  world in which any step may fail. A failing step fails before or after its effect, and an append may leave
  a torn record; since the program stops at the first error, the disk that a crash leaves at some point is
  the disk that a failure at that point leaves. Journal records are the values that their JSON lines denote,
  hence without a monotonic clock reading; permission, symlink and size checks of the journal fail as steps do.
\<close>

section \<open>The world and its failures\<close>

datatype fault = Fine | FailBefore | FailAfter | Torn

record DiskFile =
  df_identity :: StoreFileIdentity
  df_digest :: string
  df_legacy_search :: bool

record Journal =
  jr_records :: "PreparedStoreUpgradeRun list"
  jr_torn :: bool

record World =
  wo_files :: "string \<Rightarrow> DiskFile option"
  wo_journals :: "(string \<times> Journal) list"
  wo_faults :: "fault list"
  wo_clock :: "gotime list"
  wo_now :: gotime
  wo_device :: nat
  wo_new_inode :: nat
  wo_available :: uint64
  wo_spool_reserve :: uint64
  wo_reclaimable :: "int option"
  wo_exchange_supported :: bool
  wo_lease_supported :: bool

type_synonym 'a io = "World \<Rightarrow> (upgrade_error + 'a) \<times> World"

definition retIO :: "'a \<Rightarrow> 'a io" where "retIO x w = (Inr x, w)"
definition failIO :: "upgrade_error \<Rightarrow> 'a io" where "failIO e w = (Inl e, w)"
definition liftIO :: "upgrade_error + 'a \<Rightarrow> 'a io" where "liftIO r w = (r, w)"
definition getIO :: "(World \<Rightarrow> 'a) \<Rightarrow> 'a io" where "getIO f w = (Inr (f w), w)"

definition bindIO :: "'a io \<Rightarrow> ('a \<Rightarrow> 'b io) \<Rightarrow> 'b io" where
  "bindIO m k w = (case m w of (Inl e, w') \<Rightarrow> (Inl e, w') | (Inr x, w') \<Rightarrow> k x w')"

definition refuse :: "bool \<Rightarrow> string \<Rightarrow> unit io" where
  "refuse b e = (if b then failIO (UpgradeRefused e) else retIO ())"

definition pop_fault :: "World \<Rightarrow> fault \<times> World" where
  "pop_fault w = (case wo_faults w of [] \<Rightarrow> (Fine, w) | f # fs \<Rightarrow> (f, w\<lparr>wo_faults := fs\<rparr>))"

text \<open>A step that only reads or waits, and a step that changes the disk.\<close>

definition stepIO :: "unit io" where
  "stepIO w = (case pop_fault w of (Fine, w') \<Rightarrow> (Inr (), w') | (_, w') \<Rightarrow> (Inl IOFailed, w'))"

definition effectIO :: "(World \<Rightarrow> World) \<Rightarrow> unit io" where
  "effectIO f w =
     (case pop_fault w of
        (Fine, w') \<Rightarrow> (Inr (), f w') | (FailAfter, w') \<Rightarrow> (Inl IOFailed, f w') | (_, w') \<Rightarrow> (Inl IOFailed, w'))"

definition nowIO :: "gotime io" where
  "nowIO w = (case wo_clock w of [] \<Rightarrow> (Inr (wo_now w), w) | t # ts \<Rightarrow> (Inr t, w\<lparr>wo_now := t, wo_clock := ts\<rparr>))"

section \<open>The journal\<close>

definition stored_run :: "PreparedStoreUpgradeRun \<Rightarrow> PreparedStoreUpgradeRun" where
  "stored_run r = r\<lparr>ru_created_at := round0 (ru_created_at r), ru_updated_at := round0 (ru_updated_at r)\<rparr>"

definition journal_path :: "string \<Rightarrow> upgrade_error + unit" where
  "journal_path i =
     (if length i \<noteq> 32 \<or> \<not> list_all (\<lambda>c. List.member ''0123456789abcdef'' c) i
      then Inl (UpgradeRefused ''invalid compaction run id'') else Inr ())"

definition validateInitialRun :: "PreparedStoreUpgradeRun \<Rightarrow> upgrade_error + unit" where
  "validateInitialRun run =
     checks
       [(ru_phase run \<noteq> PreparedStoreUpgradePlanned \<or> ru_source_path run = '''' \<or> ru_candidate_path run = ''''
         \<or> ru_rollback_path run = '''' \<or> is_zero (ru_created_at run) \<or> is_zero (ru_updated_at run),
         ''invalid initial compaction run''),
        (ru_source_identity run = no_identity,
         ''initial source identity is required''),
        (ru_prepared_candidate_identity run \<noteq> no_identity \<or> ru_prepared_attempt run \<noteq> 0,
         ''initial prepared candidate identity must be empty''),
        (rp_required_bytes (ru_resources run) = 0 \<or> rp_destination_bytes (ru_resources run) = 0
         \<or> rp_filesystem_device (ru_resources run) \<noteq> fi_device (ru_source_identity run)
         \<or> \<not> rp_exchange_capability (ru_resources run),
         ''initial resource plan is incomplete''),
        (before (ru_updated_at run) (ru_created_at run),
         ''initial timestamps are inconsistent''),
        (ru_operation run \<noteq> OtherOperation '''' \<and> (\<not> Known (ru_operation run) \<or> ru_consumer_binding run = ''''),
         ''initial prepared upgrade binding is invalid''),
        (ru_operation run = PreparedStoreUpgradeOperationOfflineMigrationUpgrade
         \<and> (ru_plan_digest run = '''' \<or> ru_source_digest run = '''' \<or> bu_wall_time_limit (ru_budget run) \<le> 0
         \<or> bu_publish_lock_limit (ru_budget run) \<le> 0 \<or> bu_owned_disk_byte_limit (ru_budget run) = 0
         \<or> bu_wal_byte_limit (ru_budget run) = 0 \<or> bu_temporary_byte_limit (ru_budget run) = 0),
         ''initial offline upgrade plan or budget is invalid'')]"

definition validateRunAppend :: "PreparedStoreUpgradeRun \<Rightarrow> PreparedStoreUpgradeRun \<Rightarrow> upgrade_error + unit" where
  "validateRunAppend previous next =
     andThen (checks
       [(ru_id previous \<noteq> ru_id next \<or> ru_source_path previous \<noteq> ru_source_path next
         \<or> ru_candidate_path previous \<noteq> ru_candidate_path next \<or> ru_rollback_path previous \<noteq> ru_rollback_path next
         \<or> ru_source_identity previous \<noteq> ru_source_identity next \<or> ru_source_digest previous \<noteq> ru_source_digest next
         \<or> ru_resources previous \<noteq> ru_resources next \<or> ru_operation previous \<noteq> ru_operation next
         \<or> ru_consumer_binding previous \<noteq> ru_consumer_binding next \<or> ru_plan_digest previous \<noteq> ru_plan_digest next
         \<or> ru_budget previous \<noteq> ru_budget next \<or> \<not> time_equal (ru_created_at previous) (ru_created_at next),
         ''immutable compaction run fields changed''),
        (before (ru_updated_at next) (ru_updated_at previous),
         ''compaction timestamp moved backwards''),
        (ru_candidate previous \<noteq> no_identity \<and> ru_candidate previous \<noteq> ru_candidate next,
         ''candidate identity changed after fencing''),
        (ru_candidate previous = no_identity \<and> ru_candidate next \<noteq> no_identity
         \<and> ru_phase next \<noteq> PreparedStoreUpgradeCandidateVerified,
         ''candidate identity appeared outside verification''),
        (ru_phase next = PreparedStoreUpgradeCandidateVerified
         \<and> \<not> SameInode (ru_candidate next) (ru_prepared_candidate_identity next),
         ''verified candidate differs from prepared inode''),
        (ru_evidence previous \<noteq> no_evidence \<and> ru_evidence previous \<noteq> ru_evidence next,
         ''candidate evidence changed after verification''),
        (ru_evidence previous = no_evidence \<and> ru_evidence next \<noteq> no_evidence
         \<and> ru_phase next \<noteq> PreparedStoreUpgradeCandidateVerified,
         ''candidate evidence appeared outside verification''),
        (ru_phase next = PreparedStoreUpgradeCandidatePrepared
         \<and> (ru_phase previous = PreparedStoreUpgradeCopyIntent \<or> ru_phase previous = PreparedStoreUpgradeCopyRetryIntent)
         \<and> (ru_prepared_candidate_identity next = no_identity \<or> fi_size (ru_prepared_candidate_identity next) \<noteq> 0
         \<or> ru_prepared_attempt next \<noteq> ru_prepared_attempt previous + 1),
         ''prepared candidate identity/attempt is invalid''),
        (\<not> (ru_phase next = PreparedStoreUpgradeCandidatePrepared
         \<and> (ru_phase previous = PreparedStoreUpgradeCopyIntent \<or> ru_phase previous = PreparedStoreUpgradeCopyRetryIntent))
         \<and> (ru_prepared_candidate_identity next \<noteq> ru_prepared_candidate_identity previous
         \<or> ru_prepared_attempt next \<noteq> ru_prepared_attempt previous),
         ''prepared candidate identity changed outside prepare transition'')])
       (\<lambda>_. map_sum (\<lambda>e. e) (\<lambda>_. ()) (AdvanceRun previous (ru_phase next) (ru_updated_at next)))"

fun load_records :: "string \<Rightarrow> PreparedStoreUpgradeRun option \<Rightarrow> PreparedStoreUpgradeRun list \<Rightarrow> upgrade_error + PreparedStoreUpgradeRun" where
  "load_records i None [] = Inl (UpgradeRefused ''empty compaction journal'')"
| "load_records i (Some last_run) [] = Inr last_run"
| "load_records i previous (r # rs) =
     (if ru_id r \<noteq> i then Inl (UpgradeRefused ''compaction journal run id mismatch'')
      else andThen (case previous of None \<Rightarrow> validateInitialRun r | Some p \<Rightarrow> validateRunAppend p r)
             (\<lambda>_. load_records i (Some r) rs))"

definition Load :: "string \<Rightarrow> PreparedStoreUpgradeRun io" where
  "Load i = bindIO stepIO (\<lambda>_. bindIO (liftIO (journal_path i)) (\<lambda>_. bindIO stepIO (\<lambda>_.
     bindIO (getIO (\<lambda>w. map_of (wo_journals w) i)) (\<lambda>found.
       case found of
         None \<Rightarrow> failIO ErrNotExist
       | Some j \<Rightarrow> if jr_torn j then failIO (UpgradeRefused ''truncated compaction journal record'')
                   else liftIO (load_records i None (jr_records j))))))"

definition write_record :: "PreparedStoreUpgradeRun \<Rightarrow> unit io" where
  "write_record run w =
     (let old = (case map_of (wo_journals w) (ru_id run) of None \<Rightarrow> \<lparr>jr_records = [], jr_torn = False\<rparr> | Some j \<Rightarrow> j);
          put = (\<lambda>j v. v\<lparr>wo_journals := AList.update (ru_id run) j (wo_journals v)\<rparr>);
          new = old\<lparr>jr_records := jr_records old @ [stored_run run]\<rparr>
      in case pop_fault w of
           (Fine, w') \<Rightarrow> (Inr (), put new w')
         | (FailAfter, w') \<Rightarrow> (Inl IOFailed, put new w')
         | (Torn, w') \<Rightarrow> (Inl IOFailed, put (old\<lparr>jr_torn := True\<rparr>) w')
         | (FailBefore, w') \<Rightarrow> (Inl IOFailed, w'))"

definition Create :: "PreparedStoreUpgradeRun \<Rightarrow> unit io" where
  "Create run = bindIO stepIO (\<lambda>_. bindIO (liftIO (journal_path (ru_id run))) (\<lambda>_.
     bindIO (liftIO (validateInitialRun run)) (\<lambda>_. bindIO stepIO (\<lambda>_.
     bindIO (getIO (\<lambda>w. map_of (wo_journals w) (ru_id run))) (\<lambda>found.
     bindIO (refuse (found \<noteq> None) ''create compaction journal'') (\<lambda>_. write_record run))))))"

definition Append :: "PreparedStoreUpgradeRun \<Rightarrow> unit io" where
  "Append run = bindIO stepIO (\<lambda>_. bindIO (liftIO (journal_path (ru_id run))) (\<lambda>_. bindIO stepIO (\<lambda>_.
     bindIO (Load (ru_id run)) (\<lambda>previous.
     bindIO (liftIO (validateRunAppend previous run)) (\<lambda>_. bindIO stepIO (\<lambda>_. write_record run))))))"

fun find_active ::
    "PreparedStoreUpgradeOperation \<Rightarrow> string \<Rightarrow> string \<Rightarrow> PreparedStoreUpgradeRun option \<Rightarrow> string list
      \<Rightarrow> PreparedStoreUpgradeRun option io" where
  "find_active operation target binding found [] = retIO found"
| "find_active operation target binding found (i # is) =
     bindIO stepIO (\<lambda>_. bindIO (Load i) (\<lambda>run.
       if ru_operation run \<noteq> operation \<or> path_clean (ru_source_path run) \<noteq> target \<or> ru_consumer_binding run \<noteq> binding
          \<or> ru_phase run = PreparedStoreUpgradeRolledBack
       then find_active operation target binding found is
       else if found \<noteq> None then failIO (UpgradeRefused ''ambiguous active prepared upgrade'')
       else find_active operation target binding (Some run) is))"

definition maxActiveUpgradeJournals :: nat where "maxActiveUpgradeJournals = 1024"

definition FindActive :: "PreparedStoreUpgradeOperation \<Rightarrow> string \<Rightarrow> string \<Rightarrow> PreparedStoreUpgradeRun io" where
  "FindActive operation target binding =
     bindIO (refuse (\<not> Known operation \<or> target = '''' \<or> binding = '''') ''invalid prepared upgrade lookup'') (\<lambda>_.
     bindIO stepIO (\<lambda>_. bindIO (getIO (\<lambda>w. map fst (wo_journals w))) (\<lambda>entries.
     bindIO (refuse (length entries > maxActiveUpgradeJournals) ''prepared upgrade journal entry limit exceeded'') (\<lambda>_.
     bindIO (find_active operation (path_clean target) binding None entries) (\<lambda>found.
       case found of None \<Rightarrow> failIO ErrNotExist | Some run \<Rightarrow> retIO run)))))"

section \<open>Files\<close>

definition inspectRegularFile :: "string \<Rightarrow> StoreFileIdentity io" where
  "inspectRegularFile path = bindIO stepIO (\<lambda>_. bindIO (getIO (\<lambda>w. wo_files w path)) (\<lambda>f.
     case f of None \<Rightarrow> failIO ErrNotExist | Some d \<Rightarrow> retIO (df_identity d)))"

definition inspectOptionalRegularFile :: "string \<Rightarrow> (StoreFileIdentity \<times> bool) io" where
  "inspectOptionalRegularFile path = bindIO stepIO (\<lambda>_. getIO (\<lambda>w.
     case wo_files w path of None \<Rightarrow> (no_identity, False) | Some d \<Rightarrow> (df_identity d, True)))"

definition validateStoreLinkIdentity :: "string \<Rightarrow> unit io" where
  "validateStoreLinkIdentity path = bindIO stepIO (\<lambda>_. bindIO (getIO (\<lambda>w. wo_files w path)) (\<lambda>f.
     case f of None \<Rightarrow> retIO () | Some d \<Rightarrow> refuse (fi_links (df_identity d) > 1) ''SQLite store has multiple hard links''))"

definition sidecar_present :: "(string \<Rightarrow> DiskFile option) \<Rightarrow> string \<Rightarrow> bool" where
  "sidecar_present files path \<longleftrightarrow> list_ex (\<lambda>s. files (path @ s) \<noteq> None) [''-wal'', ''-shm'', ''-journal'']"

definition rejectSQLiteSidecars :: "string \<Rightarrow> unit io" where
  "rejectSQLiteSidecars path = bindIO stepIO (\<lambda>_. bindIO (getIO (\<lambda>w. sidecar_present (wo_files w) path)) (\<lambda>b.
     refuse b ''SQLite sidecar present''))"

definition remove_file :: "string \<Rightarrow> unit io" where
  "remove_file path = effectIO (\<lambda>w. w\<lparr>wo_files := (wo_files w)(path := None)\<rparr>)"

definition remove_stale :: "string \<Rightarrow> unit io" where
  "remove_stale path = bindIO (getIO (\<lambda>w. wo_files w path)) (\<lambda>f. case f of None \<Rightarrow> retIO () | Some _ \<Rightarrow> remove_file path)"

definition cleanupStaleSQLiteSidecars :: "string \<Rightarrow> unit io" where
  "cleanupStaleSQLiteSidecars path =
     bindIO stepIO (\<lambda>_.
     bindIO (getIO (\<lambda>w. wo_files w (path @ ''-journal''))) (\<lambda>journal.
     bindIO (getIO (\<lambda>w. wo_files w (path @ ''-wal''))) (\<lambda>wal.
     bindIO (refuse (journal \<noteq> None \<or> (case wal of None \<Rightarrow> False | Some d \<Rightarrow> fi_size (df_identity d) \<noteq> 0)) ''SQLite sidecar refused'') (\<lambda>_.
     bindIO (remove_stale (path @ ''-wal'')) (\<lambda>_. bindIO (remove_stale (path @ ''-shm'')) (\<lambda>_.
     rejectSQLiteSidecars path))))))"

definition checkSQLiteSidecars :: "bool \<Rightarrow> string \<Rightarrow> unit io" where
  "checkSQLiteSidecars callerHoldsLease path =
     (if callerHoldsLease then cleanupStaleSQLiteSidecars path else rejectSQLiteSidecars path)"

definition fileDigest :: "string \<Rightarrow> string io" where
  "fileDigest path = bindIO stepIO (\<lambda>_. bindIO (getIO (\<lambda>w. wo_files w path)) (\<lambda>f.
     case f of None \<Rightarrow> failIO ErrNotExist | Some d \<Rightarrow> retIO (df_digest d)))"

definition ownedCandidatePath :: "PreparedStoreUpgradeRun \<Rightarrow> string" where
  "ownedCandidatePath run =
     (if ru_operation run = PreparedStoreUpgradeOperationOfflineMigrationUpgrade
      then ru_source_path run @ ''.upgrade-'' @ ru_id run else ru_source_path run @ ''.compact-'' @ ru_id run)"

definition compactionRequiredBytes :: "int \<Rightarrow> uint64 \<Rightarrow> upgrade_error + uint64 \<times> uint64" where
  "compactionRequiredBytes destination temporary =
     (if destination < 0 then Inl (UpgradeRefused ''negative source size'')
      else let base = (of_int destination :: uint64);
               tenth = base div 10;
               margin = (if tenth < 64 * 1024 * 1024 then 64 * 1024 * 1024 else tenth)
           in if max_uint64 - base < temporary \<or> max_uint64 - (base + temporary) < margin
              then Inl (UpgradeRefused ''compaction resource size overflow'')
              else Inr (base + temporary + margin, margin))"

text \<open>Sizes that the plan reserves: three copies and the spool for an offline upgrade, else the destination.\<close>

definition plan_sizes :: "PreparedStoreUpgradeOperation \<Rightarrow> int \<Rightarrow> World \<Rightarrow> upgrade_error + int \<times> uint64" where
  "plan_sizes operation sourceSize w =
     (if operation = PreparedStoreUpgradeOperationOfflineMigrationUpgrade
      then if sourceSize < 0 then Inl (UpgradeRefused ''negative source size'')
           else let sourceBytes = (of_int sourceSize :: uint64)
                in if max_uint64 div 3 < sourceBytes then Inl (UpgradeRefused ''prepared upgrade resource size overflow'')
                   else let temporary = sourceBytes + sourceBytes + sourceBytes
                        in if max_uint64 - temporary < wo_spool_reserve w
                           then Inl (UpgradeRefused ''prepared upgrade resource size overflow'')
                           else Inr (sourceSize, temporary + wo_spool_reserve w)
      else if sourceSize > 0
      then if wo_available w \<ge> of_int sourceSize then Inr (sourceSize, of_int sourceSize)
           else (case wo_reclaimable w of
                   Some estimate \<Rightarrow>
                     if estimate > 0 \<and> estimate < sourceSize
                     then Inr (if sourceSize - estimate < sourceSize div 10 then sourceSize div 10 else sourceSize - estimate, 0)
                     else Inr (sourceSize, 0)
                 | None \<Rightarrow> Inr (sourceSize, 0))
      else Inr (sourceSize, 0))"

definition distinct_output :: "string \<Rightarrow> unit io" where
  "distinct_output path = bindIO stepIO (\<lambda>_. bindIO (getIO (\<lambda>w. wo_files w path \<noteq> None)) (\<lambda>b.
     refuse b ''compaction output already exists''))"

definition path_dir :: "string \<Rightarrow> string" where
  "path_dir p = path_clean (rev (dropWhile (\<lambda>c. c \<noteq> CHR ''/'') (rev p)))"

definition plan_resources :: "bool \<Rightarrow> PreparedStoreUpgradeRun \<Rightarrow> StoreFileIdentity \<Rightarrow> PreparedStoreUpgradeRun io" where
  "plan_resources callerHoldsLease run i =
     bindIO stepIO (\<lambda>_.
     bindIO (getIO (plan_sizes (ru_operation run) (fi_size i))) (\<lambda>sizes. bindIO (liftIO sizes) (\<lambda>(destination, temporary).
     bindIO (liftIO (compactionRequiredBytes destination temporary)) (\<lambda>(required, margin).
     bindIO (getIO wo_available) (\<lambda>available.
     bindIO (refuse (required > available) ''insufficient free space'') (\<lambda>_.
     bindIO (fileDigest (ru_source_path run)) (\<lambda>digest.
     bindIO (getIO wo_exchange_supported) (\<lambda>exchange.
     bindIO (getIO (\<lambda>w. callerHoldsLease \<or> wo_lease_supported w)) (\<lambda>lease.
     bindIO (refuse (\<not> exchange) ''atomic exchange capability unavailable'') (\<lambda>_.
     bindIO (refuse (\<not> lease) ''cross-process store lease capability unavailable'') (\<lambda>_.
     retIO (run\<lparr>ru_source_identity := i, ru_source_digest := digest,
                ru_resources := \<lparr>rp_required_bytes = required, rp_destination_bytes = of_int destination,
                  rp_temporary_bytes = temporary, rp_safety_margin_bytes = margin, rp_available_bytes = available,
                  rp_filesystem_device = fi_device i, rp_lease_capability = lease, rp_exchange_capability = exchange\<rparr>\<rparr>))))))))))))"

definition PlanFiles :: "bool \<Rightarrow> PreparedStoreUpgradeRun \<Rightarrow> PreparedStoreUpgradeRun io" where
  "PlanFiles callerHoldsLease run =
     bindIO stepIO (\<lambda>_.
     bindIO (refuse (path_dir (ru_source_path run) \<noteq> path_dir (ru_candidate_path run)
                     \<or> path_dir (ru_source_path run) \<noteq> path_dir (ru_rollback_path run))
               ''compaction paths must share one directory'') (\<lambda>_.
     bindIO (distinct_output (ru_candidate_path run)) (\<lambda>_. bindIO (distinct_output (ru_rollback_path run)) (\<lambda>_.
     bindIO (validateStoreLinkIdentity (ru_source_path run)) (\<lambda>_.
     bindIO (checkSQLiteSidecars callerHoldsLease (ru_source_path run)) (\<lambda>_.
     bindIO (inspectRegularFile (ru_source_path run)) (plan_resources callerHoldsLease run)))))))"

definition Recheck :: "bool \<Rightarrow> PreparedStoreUpgradeRun \<Rightarrow> unit io" where
  "Recheck callerHoldsLease run =
     bindIO stepIO (\<lambda>_.
     bindIO (refuse (\<not> rp_lease_capability (ru_resources run)) ''cross-process store lease capability unavailable'') (\<lambda>_.
     bindIO (validateStoreLinkIdentity (ru_source_path run)) (\<lambda>_.
     bindIO (inspectRegularFile (ru_source_path run)) (\<lambda>current.
     bindIO (refuse (current \<noteq> ru_source_identity run) ''source identity drift after plan'') (\<lambda>_.
     bindIO (fileDigest (ru_source_path run)) (\<lambda>digest.
     bindIO (refuse (digest \<noteq> ru_source_digest run) ''prepared upgrade source content changed'') (\<lambda>_.
     bindIO stepIO (\<lambda>_. bindIO (getIO wo_available) (\<lambda>available.
     bindIO (refuse (available < rp_required_bytes (ru_resources run)) ''free space drift'') (\<lambda>_.
     bindIO (getIO wo_exchange_supported) (\<lambda>exchange.
     bindIO (refuse (fi_device current \<noteq> rp_filesystem_device (ru_resources run) \<or> \<not> exchange) ''planned filesystem capability drift'') (\<lambda>_.
     checkSQLiteSidecars callerHoldsLease (ru_source_path run)))))))))))))"

definition RecheckForPublish :: "PreparedStoreUpgradeRun \<Rightarrow> unit io" where
  "RecheckForPublish run =
     bindIO stepIO (\<lambda>_.
     bindIO (validateStoreLinkIdentity (ru_source_path run)) (\<lambda>_. bindIO (rejectSQLiteSidecars (ru_source_path run)) (\<lambda>_.
     bindIO (validateStoreLinkIdentity (ru_candidate_path run)) (\<lambda>_. bindIO (rejectSQLiteSidecars (ru_candidate_path run)) (\<lambda>_.
     bindIO (inspectRegularFile (ru_source_path run)) (\<lambda>source.
     bindIO (inspectRegularFile (ru_candidate_path run)) (\<lambda>candidate.
     bindIO (refuse (source \<noteq> ru_source_identity run \<or> candidate \<noteq> ru_candidate run
                     \<or> \<not> SameInode candidate (ru_prepared_candidate_identity run)) ''publication identity fence changed'') (\<lambda>_.
     bindIO (inspectOptionalRegularFile (ru_rollback_path run)) (\<lambda>(_, exists).
     refuse exists ''prepared upgrade rollback destination is not empty'')))))))))"

definition new_file :: "World \<Rightarrow> DiskFile" where
  "new_file w = \<lparr>df_identity = \<lparr>fi_device = wo_device w, fi_inode = wo_new_inode w, fi_size = 0,
                   fi_mod_unix = wall (wo_now w), fi_mode = 384, fi_links = 1\<rparr>,
                 df_digest = '''', df_legacy_search = False\<rparr>"

definition PrepareCandidate :: "PreparedStoreUpgradeRun \<Rightarrow> StoreFileIdentity io" where
  "PrepareCandidate run =
     bindIO stepIO (\<lambda>_.
     bindIO (refuse (ru_phase run \<noteq> PreparedStoreUpgradeCopyIntent \<and> ru_phase run \<noteq> PreparedStoreUpgradeCopyRetryIntent)
               ''candidate prepare requires copy intent'') (\<lambda>_.
     bindIO (refuse (ru_candidate_path run \<noteq> ownedCandidatePath run) ''candidate path is not owned by run'') (\<lambda>_.
     bindIO (getIO (\<lambda>w. wo_files w (ru_candidate_path run) \<noteq> None)) (\<lambda>exists.
     bindIO (refuse exists ''create prepared candidate'') (\<lambda>_.
     bindIO (effectIO (\<lambda>w. w\<lparr>wo_files := (wo_files w)(ru_candidate_path run := Some (new_file w))\<rparr>)) (\<lambda>_.
     bindIO (inspectRegularFile (ru_candidate_path run)) (\<lambda>identity.
     bindIO (refuse (fi_size identity \<noteq> 0 \<or> fi_device identity \<noteq> fi_device (ru_source_identity run))
               ''prepared candidate identity is invalid'') (\<lambda>_.
     bindIO stepIO (\<lambda>_. retIO identity)))))))))"

definition RemoveOwnedPartialCandidate :: "PreparedStoreUpgradeRun \<Rightarrow> PreparedStoreUpgradeObservation \<Rightarrow> unit io" where
  "RemoveOwnedPartialCandidate run observation =
     bindIO stepIO (\<lambda>_.
     bindIO (refuse ((ru_phase run \<noteq> PreparedStoreUpgradeCandidatePrepared \<and> ru_phase run \<noteq> PreparedStoreUpgradeCopyRetryIntent)
                     \<or> ob_orientation observation \<noteq> OrientationCandidateReady
                     \<or> (ru_phase run = PreparedStoreUpgradeCandidatePrepared
                        \<and> ob_candidate_condition observation \<noteq> CandidateConditionOwnedIncomplete))
               ''partial candidate cleanup is not aggregate-authorized'') (\<lambda>_.
     bindIO (refuse (ru_candidate_path run \<noteq> ownedCandidatePath run) ''candidate path is not owned by run'') (\<lambda>_.
     bindIO (refuse (ob_rollback_exists observation) ''rollback path exists during copy recovery'') (\<lambda>_.
     bindIO (inspectRegularFile (ru_source_path run)) (\<lambda>source.
     bindIO (inspectRegularFile (ru_candidate_path run)) (\<lambda>candidate.
     bindIO (refuse (source \<noteq> ru_source_identity run \<or> candidate \<noteq> ob_candidate observation
                     \<or> \<not> SameInode candidate (ru_prepared_candidate_identity run) \<or> fi_device candidate \<noteq> fi_device source)
               ''partial candidate identity fence changed'') (\<lambda>_.
     remove_file (ru_candidate_path run))))))))"

definition FenceCandidate :: "PreparedStoreUpgradeRun \<Rightarrow> PreparedStoreUpgradeRun io" where
  "FenceCandidate run =
     bindIO stepIO (\<lambda>_. bindIO (rejectSQLiteSidecars (ru_candidate_path run)) (\<lambda>_.
     bindIO (validateStoreLinkIdentity (ru_source_path run)) (\<lambda>_. bindIO (validateStoreLinkIdentity (ru_candidate_path run)) (\<lambda>_.
     bindIO (inspectRegularFile (ru_candidate_path run)) (\<lambda>identity.
     bindIO (refuse (fi_device identity \<noteq> fi_device (ru_source_identity run)) ''candidate is not on source filesystem'') (\<lambda>_.
     bindIO (refuse (\<not> SameInode identity (ru_prepared_candidate_identity run)) ''candidate inode differs from prepared identity'') (\<lambda>_.
     retIO (run\<lparr>ru_candidate := identity\<rparr>))))))))"

definition samePublishedFile :: "StoreFileIdentity \<Rightarrow> StoreFileIdentity \<Rightarrow> bool" where
  "samePublishedFile current published \<longleftrightarrow>
     SameInode current published \<and> fi_mode current = fi_mode published \<and> fi_links current = fi_links published"

definition atomicExchange :: "string \<Rightarrow> string \<Rightarrow> unit io" where
  "atomicExchange left right =
     effectIO (\<lambda>w. w\<lparr>wo_files := (wo_files w)(left := wo_files w right, right := wo_files w left)\<rparr>)"

definition Exchange :: "PreparedStoreUpgradeRun \<Rightarrow> unit io" where
  "Exchange run =
     (let left = ru_source_path run;
          back = (ru_phase run = PreparedStoreUpgradeRollbackSwapIntent);
          right = (if back then ru_rollback_path run else ru_candidate_path run)
      in bindIO stepIO (\<lambda>_.
         bindIO (validateStoreLinkIdentity left) (\<lambda>_. bindIO (validateStoreLinkIdentity right) (\<lambda>_.
         bindIO (inspectRegularFile left) (\<lambda>current.
         bindIO (refuse (if back then \<not> samePublishedFile current (ru_candidate run) else current \<noteq> ru_source_identity run)
                   ''source identity fence changed'') (\<lambda>_.
         bindIO (inspectRegularFile right) (\<lambda>rightIdentity.
         bindIO (refuse (rightIdentity \<noteq> (if back then ru_source_identity run else ru_candidate run))
                   ''candidate identity fence changed'') (\<lambda>_.
         bindIO (rejectSQLiteSidecars left) (\<lambda>_.
         atomicExchange left right)))))))))"

definition renameNoReplace :: "string \<Rightarrow> string \<Rightarrow> unit io" where
  "renameNoReplace source target = bindIO (getIO (\<lambda>w. wo_files w target \<noteq> None)) (\<lambda>exists.
     bindIO (refuse exists ''publish rollback without replacement'') (\<lambda>_.
     bindIO (getIO (\<lambda>w. wo_files w source = None)) (\<lambda>missing. if missing then failIO ErrNotExist else
     effectIO (\<lambda>w. w\<lparr>wo_files := (wo_files w)(target := wo_files w source, source := None)\<rparr>))))"

definition PublishRollback :: "PreparedStoreUpgradeRun \<Rightarrow> unit io" where
  "PublishRollback run =
     bindIO stepIO (\<lambda>_. bindIO (getIO (\<lambda>w. wo_files w (ru_rollback_path run) \<noteq> None)) (\<lambda>exists.
     bindIO (refuse exists ''rollback destination exists'') (\<lambda>_.
     bindIO (validateStoreLinkIdentity (ru_source_path run)) (\<lambda>_. bindIO (validateStoreLinkIdentity (ru_candidate_path run)) (\<lambda>_.
     renameNoReplace (ru_candidate_path run) (ru_rollback_path run))))))"

definition inode_key :: "StoreFileIdentity \<Rightarrow> nat \<times> nat" where
  "inode_key i = (fi_device i, fi_inode i)"

definition orientation ::
    "PreparedStoreUpgradeRun \<Rightarrow> StoreFileIdentity \<Rightarrow> StoreFileIdentity \<times> bool \<Rightarrow> StoreFileIdentity \<times> bool
      \<Rightarrow> upgrade_error + PreparedStoreUpgradeOrientation" where
  "orientation run source cand rb =
     (case (cand, rb) of ((candidate, candidateExists), (rollback, rollbackExists)) \<Rightarrow>
      if source = ru_source_identity run \<and> \<not> candidateExists \<and> \<not> rollbackExists then Inr OrientationSourceOriginal
      else if source = ru_source_identity run \<and> candidateExists \<and> \<not> rollbackExists
      then if ru_candidate run \<noteq> no_identity \<and> candidate \<noteq> ru_candidate run
           then Inl (UpgradeRefused ''candidate-ready identity conflicts with journal fence'') else Inr OrientationCandidateReady
      else if ru_candidate run \<noteq> no_identity \<and> samePublishedFile source (ru_candidate run) \<and> candidateExists
              \<and> candidate = ru_source_identity run \<and> \<not> rollbackExists then Inr OrientationSwapped
      else if ru_candidate run \<noteq> no_identity \<and> samePublishedFile source (ru_candidate run) \<and> \<not> candidateExists
              \<and> rollbackExists \<and> rollback = ru_source_identity run then Inr OrientationRollbackReady
      else if source = ru_source_identity run \<and> \<not> candidateExists \<and> rollbackExists
              \<and> samePublishedFile rollback (ru_candidate run) then Inr OrientationRolledBack
      else Inl (UpgradeRefused ''unknown compaction file orientation''))"

definition Observe :: "PreparedStoreUpgradeRun \<Rightarrow> PreparedStoreUpgradeObservation io" where
  "Observe run =
     bindIO (inspectRegularFile (ru_source_path run)) (\<lambda>source.
     bindIO (inspectOptionalRegularFile (ru_candidate_path run)) (\<lambda>cand.
     bindIO (inspectOptionalRegularFile (ru_rollback_path run)) (\<lambda>rb.
     bindIO (refuse (List.member [PreparedStoreUpgradeCopyComplete, PreparedStoreUpgradeCandidateSyncIntent,
                                  PreparedStoreUpgradeCandidateSynced, PreparedStoreUpgradeScrubInProgress] (ru_phase run)
                     \<and> (\<not> snd cand \<or> \<not> SameInode (fst cand) (ru_prepared_candidate_identity run)))
               ''candidate inode differs from prepared identity'') (\<lambda>_.
     bindIO (refuse (\<not> distinct (map inode_key (filter (\<lambda>i. i \<noteq> no_identity) [source, fst cand, fst rb])))
               ''duplicate compaction inode'') (\<lambda>_.
     bindIO (liftIO (orientation run source cand rb)) (\<lambda>o'.
     retIO \<lparr>ob_orientation = o', ob_source = source, ob_candidate = fst cand, ob_rollback = fst rb,
            ob_candidate_exists = snd cand, ob_rollback_exists = snd rb, ob_candidate_condition = NoCondition\<rparr>))))))"

definition SyncRecoveredOrientation :: "PreparedStoreUpgradeRun \<Rightarrow> PreparedStoreUpgradeObservation \<Rightarrow> unit io" where
  "SyncRecoveredOrientation run observation =
     bindIO stepIO (\<lambda>_.
     bindIO (refuse (\<not> List.member [OrientationSwapped, OrientationRollbackReady, OrientationRolledBack] (ob_orientation observation))
               ''cannot sync unknown recovered orientation'') (\<lambda>_.
     bindIO stepIO (\<lambda>_. bindIO stepIO (\<lambda>_. stepIO))))"

definition RejectRetiredSearchIndex :: "PreparedStoreUpgradeRun \<Rightarrow> unit io" where
  "RejectRetiredSearchIndex run =
     (if ru_operation run = PreparedStoreUpgradeOperationOfflineMigrationUpgrade then retIO ()
      else bindIO (getIO (\<lambda>w. case wo_files w (ru_candidate_path run) of
                            Some c \<Rightarrow> if fi_size (df_identity c) > 0 then df_legacy_search c
                                      else (case wo_files w (ru_source_path run) of None \<Rightarrow> False | Some s \<Rightarrow> df_legacy_search s)
                          | None \<Rightarrow> (case wo_files w (ru_source_path run) of None \<Rightarrow> False | Some s \<Rightarrow> df_legacy_search s)))
             (\<lambda>present. refuse present ''legacy search index family is still present''))"

end
