(* ===== verification/Upgrade_Protocol.thy ===== *)
theory Upgrade_Protocol
  imports Upgrade_Files Go_Codec
begin

text \<open>
  The staged replacement protocol of the store (\<open>application/usecase/prepared_store_upgrade.go\<close>): planning,
  preparation of a candidate, publication, recovery after a crash, and rollback. The candidate recipe of an
  operation is a parameter. The lease is a step that may fail. The properties say where the original store
  is after any sequence of operations and failures, and that an interrupted publication can be finished.
\<close>

section \<open>The use case\<close>

record Recipe =
  rc_plan :: "PreparedStoreUpgradeRun \<Rightarrow> string io"
  rc_build :: "PreparedStoreUpgradeRun \<Rightarrow> unit io"
  rc_classify :: "PreparedStoreUpgradeRun \<Rightarrow> PreparedStoreUpgradeObservation \<Rightarrow> CandidateCondition io"
  rc_sync :: "PreparedStoreUpgradeRun \<Rightarrow> unit io"
  rc_verify :: "PreparedStoreUpgradeRun \<Rightarrow> PreparedCandidateEvidence io"
  rc_verify_bound_drop :: "(PreparedStoreUpgradeRun \<Rightarrow> unit io) option"
  rc_verify_unavailable_retention :: "(PreparedStoreUpgradeRun \<Rightarrow> unit io) option"

record Upgrade =
  up_expected_store :: string
  up_recipes :: "PreparedStoreUpgradeOperation \<Rightarrow> Recipe option"
  up_caller_holds_lease :: bool
  up_holds_exclusive :: bool

record PreparedStoreUpgradeCommand =
  cm_operation :: PreparedStoreUpgradeOperation
  cm_target_path :: string
  cm_consumer_binding :: string
  cm_budget :: PreparedStoreUpgradeBudget
  cm_bound_drop_approval :: "BoundDropApproval option"
  cm_unavailable_retention_approval :: "UnavailableRetentionApproval option"

record PreparedStoreUpgradeReceipt =
  re_run_id :: string
  re_operation :: PreparedStoreUpgradeOperation
  re_consumer_binding :: string
  re_target_identity :: StoreFileIdentity
  re_rollback_identity :: StoreFileIdentity
  re_rollback_path :: string
  re_evidence :: PreparedCandidateEvidence
  re_publish_milliseconds :: int

definition invalid_binding :: "Upgrade \<Rightarrow> PreparedStoreUpgradeCommand \<Rightarrow> bool" where
  "invalid_binding u c \<longleftrightarrow>
     path_clean (cm_target_path c) \<noteq> up_expected_store u \<or> cm_consumer_binding c = '''' \<or> \<not> Known (cm_operation c)
     \<or> up_recipes u (cm_operation c) = None"

definition recipe_for :: "Upgrade \<Rightarrow> PreparedStoreUpgradeOperation \<Rightarrow> Recipe io" where
  "recipe_for u p = (case up_recipes u p of None \<Rightarrow> failIO (UpgradeRefused ''nil recipe'') | Some rc \<Rightarrow> retIO rc)"

definition planned_run :: "PreparedStoreUpgradeCommand \<Rightarrow> string \<Rightarrow> gotime \<Rightarrow> PreparedStoreUpgradeRun" where
  "planned_run c i now =
     (let offline = (cm_operation c = PreparedStoreUpgradeOperationOfflineMigrationUpgrade);
          candidateSuffix = (if offline then ''.upgrade-'' else ''.compact-'');
          rollbackSuffix = (if offline then ''.rollback-upgrade-'' else ''.rollback-'')
      in \<lparr>ru_id = i, ru_source_path = cm_target_path c, ru_candidate_path = cm_target_path c @ candidateSuffix @ i,
          ru_rollback_path = cm_target_path c @ rollbackSuffix @ i, ru_phase = PreparedStoreUpgradePlanned,
          ru_source_identity = no_identity, ru_candidate = no_identity, ru_prepared_candidate_identity = no_identity,
          ru_prepared_attempt = 0, ru_resources = no_resources, ru_operation = cm_operation c,
          ru_consumer_binding = cm_consumer_binding c, ru_plan_digest = '''', ru_source_digest = '''',
          ru_bound_drop_approval = cm_bound_drop_approval c, ru_unavailable_retention_approval = None,
          ru_budget = cm_budget c, ru_evidence = no_evidence, ru_created_at = now, ru_updated_at = now\<rparr>)"

definition PlanUpgrade :: "Upgrade \<Rightarrow> string \<Rightarrow> PreparedStoreUpgradeCommand \<Rightarrow> PreparedStoreUpgradeRun io" where
  "PlanUpgrade u idBytes c =
     bindIO (refuse (invalid_binding u c) ''invalid prepared upgrade binding'') (\<lambda>_.
     bindIO stepIO (\<lambda>_. bindIO nowIO (\<lambda>now.
     bindIO (recipe_for u (cm_operation c)) (\<lambda>rc.
     (let run = planned_run c (hex_encode idBytes) (utc now)
      in bindIO (rc_plan rc run) (\<lambda>planDigest.
         bindIO (PlanFiles (up_caller_holds_lease u) (run\<lparr>ru_plan_digest := planDigest\<rparr>)) (\<lambda>planned.
         (let planned' = (case cm_unavailable_retention_approval c of
                            None \<Rightarrow> planned
                          | Some a \<Rightarrow> planned\<lparr>ru_unavailable_retention_approval :=
                                        Some (Bind a (ru_id planned) (ru_source_identity planned))\<rparr>)
          in bindIO (Create planned') (\<lambda>_. retIO planned')))))))))"

definition load :: "Upgrade \<Rightarrow> string \<Rightarrow> PreparedStoreUpgradeRun io" where
  "load u i = bindIO (Load i) (\<lambda>run.
     bindIO (refuse (path_clean (ru_source_path run) \<noteq> up_expected_store u \<or> \<not> Known (ru_operation run)
                     \<or> up_recipes u (ru_operation run) = None) ''prepared upgrade run binding mismatch'') (\<lambda>_. retIO run))"

definition advance :: "PreparedStoreUpgradeRun \<Rightarrow> PreparedStoreUpgradePhase \<Rightarrow> PreparedStoreUpgradeRun io" where
  "advance run p = bindIO nowIO (\<lambda>now. bindIO (liftIO (AdvanceRun run p now)) (\<lambda>next. bindIO (Append next) (\<lambda>_. retIO next)))"

definition optional_check :: "(PreparedStoreUpgradeRun \<Rightarrow> unit io) option \<Rightarrow> PreparedStoreUpgradeRun \<Rightarrow> unit io" where
  "optional_check v run = (case v of None \<Rightarrow> retIO () | Some f \<Rightarrow> f run)"

definition prepare_action ::
    "Upgrade \<Rightarrow> Recipe \<Rightarrow> PreparedStoreUpgradeRun \<Rightarrow> PreparedStoreUpgradeAction \<Rightarrow> PreparedStoreUpgradeRun io" where
  "prepare_action u rc run action =
     (case action of
        ActionRecheckPlan \<Rightarrow> bindIO (Recheck (up_caller_holds_lease u) run) (\<lambda>_. advance run PreparedStoreUpgradeCopyIntent)
      | ActionPrepareCandidate \<Rightarrow> bindIO (PrepareCandidate run) (\<lambda>identity.
          advance (run\<lparr>ru_prepared_candidate_identity := identity, ru_prepared_attempt := ru_prepared_attempt run + 1\<rparr>)
            PreparedStoreUpgradeCandidatePrepared)
      | ActionBuildCandidate \<Rightarrow>
          bindIO (optional_check (rc_verify_bound_drop rc) run) (\<lambda>_.
          bindIO (optional_check (rc_verify_unavailable_retention rc) run) (\<lambda>_.
          bindIO (rc_build rc run) (\<lambda>_. advance run PreparedStoreUpgradeCopyComplete)))
      | ActionRecordSyncIntent \<Rightarrow> advance run PreparedStoreUpgradeCandidateSyncIntent
      | ActionSyncCandidate \<Rightarrow> bindIO (rc_sync rc run) (\<lambda>_. advance run PreparedStoreUpgradeCandidateSynced)
      | ActionRecordScrubInProgress \<Rightarrow> advance run PreparedStoreUpgradeScrubInProgress
      | ActionVerifyCandidate \<Rightarrow> bindIO (rc_verify rc run) (\<lambda>evidence.
          bindIO (FenceCandidate (run\<lparr>ru_evidence := evidence\<rparr>)) (\<lambda>fenced. advance fenced PreparedStoreUpgradeCandidateVerified))
      | _ \<Rightarrow> failIO (UpgradeRefused ''preparation reached publication action''))"

definition prepare_step :: "Upgrade \<Rightarrow> Recipe \<Rightarrow> PreparedStoreUpgradeRun \<Rightarrow> PreparedStoreUpgradeRun io" where
  "prepare_step u rc run = bindIO (liftIO (NextAction run)) (prepare_action u rc run)"

text \<open>The loops advance the phase in every round, which bounds them.\<close>

fun phase_rank :: "PreparedStoreUpgradePhase \<Rightarrow> nat" where
  "phase_rank PreparedStoreUpgradePlanned = 0"
| "phase_rank PreparedStoreUpgradeCopyIntent = 1"
| "phase_rank PreparedStoreUpgradeCopyRetryIntent = 1"
| "phase_rank PreparedStoreUpgradeCandidatePrepared = 2"
| "phase_rank PreparedStoreUpgradeCopyComplete = 3"
| "phase_rank PreparedStoreUpgradeCandidateSyncIntent = 4"
| "phase_rank PreparedStoreUpgradeCandidateSynced = 5"
| "phase_rank PreparedStoreUpgradeScrubInProgress = 6"
| "phase_rank PreparedStoreUpgradeCandidateVerified = 7"
| "phase_rank PreparedStoreUpgradeSwapIntent = 8"
| "phase_rank PreparedStoreUpgradeSwapped = 9"
| "phase_rank PreparedStoreUpgradeRollbackPublishIntent = 10"
| "phase_rank PreparedStoreUpgradeRollbackReady = 11"
| "phase_rank PreparedStoreUpgradeCommitted = 12"
| "phase_rank PreparedStoreUpgradeRollbackSwapIntent = 13"
| "phase_rank PreparedStoreUpgradeRollbackSwapped = 14"
| "phase_rank PreparedStoreUpgradeRolledBack = 15"
| "phase_rank _ = 16"

lemma bindIO_Inr: "bindIO m k w = (Inr y, w') \<longleftrightarrow> (\<exists>x v. m w = (Inr x, v) \<and> k x v = (Inr y, w'))"
  by (auto simp: bindIO_def split: prod.splits sum.splits)

lemma advance_phase: "advance run p w = (Inr run', w') \<Longrightarrow> ru_phase run' = p"
  by (auto simp: advance_def bindIO_Inr liftIO_def retIO_def AdvanceRun_def split: if_splits)

lemma prepare_step_rank:
  "prepare_step u rc run w = (Inr run', w') \<Longrightarrow> phase_rank (ru_phase run) < phase_rank (ru_phase run') \<and> phase_rank (ru_phase run') \<le> 7"
  by (cases "ru_phase run")
    (auto simp: prepare_step_def prepare_action_def bindIO_Inr liftIO_def NextAction_def failIO_def dest: advance_phase)

function prepare :: "Upgrade \<Rightarrow> Recipe \<Rightarrow> PreparedStoreUpgradeRun \<Rightarrow> PreparedStoreUpgradeRun io" where
  "prepare u rc run w =
     (if ru_phase run = PreparedStoreUpgradeCandidateVerified then (Inr run, w)
      else case prepare_step u rc run w of
             (Inl e, w') \<Rightarrow> (Inl e, w')
           | (Inr run', w') \<Rightarrow> prepare u rc run' w')"
  by pat_completeness auto
termination
  by (relation "measure (\<lambda>(u, rc, run, w). 16 - phase_rank (ru_phase run))") (auto dest!: prepare_step_rank [OF sym])

declare prepare.simps [simp del]

definition Prepare :: "Upgrade \<Rightarrow> string \<Rightarrow> PreparedStoreUpgradeRun io" where
  "Prepare u i = bindIO (load u i) (\<lambda>run. bindIO (recipe_for u (ru_operation run)) (\<lambda>rc. prepare u rc run))"

definition guardPublication :: "PreparedStoreUpgradeRun \<Rightarrow> unit io" where
  "guardPublication run = RejectRetiredSearchIndex run"

definition publish_action :: "PreparedStoreUpgradeRun \<Rightarrow> PreparedStoreUpgradeAction \<Rightarrow> PreparedStoreUpgradeRun io" where
  "publish_action run action =
     (case action of
        ActionExchange \<Rightarrow> bindIO (guardPublication run) (\<lambda>_. bindIO (Exchange run) (\<lambda>_. advance run PreparedStoreUpgradeSwapped))
      | ActionRecordPublishIntent \<Rightarrow> advance run PreparedStoreUpgradeRollbackPublishIntent
      | ActionPublishRollback \<Rightarrow> bindIO (PublishRollback run) (\<lambda>_. advance run PreparedStoreUpgradeRollbackReady)
      | ActionCommit \<Rightarrow> advance run PreparedStoreUpgradeCommitted
      | _ \<Rightarrow> failIO (UpgradeRefused ''publication encountered preparation action''))"

definition publish_step :: "PreparedStoreUpgradeRun \<Rightarrow> PreparedStoreUpgradeRun io" where
  "publish_step run = bindIO (liftIO (NextAction run)) (publish_action run)"

lemma publish_step_rank:
  "publish_step run w = (Inr run', w') \<Longrightarrow> phase_rank (ru_phase run) < phase_rank (ru_phase run') \<and> phase_rank (ru_phase run') \<le> 12"
  by (cases "ru_phase run")
    (auto simp: publish_step_def publish_action_def bindIO_Inr liftIO_def NextAction_def failIO_def dest: advance_phase)

function publish_loop :: "PreparedStoreUpgradeRun \<Rightarrow> PreparedStoreUpgradeRun io" where
  "publish_loop run w =
     (if ru_phase run = PreparedStoreUpgradeCommitted then (Inr run, w)
      else case publish_step run w of
             (Inl e, w') \<Rightarrow> (Inl e, w')
           | (Inr run', w') \<Rightarrow> publish_loop run' w')"
  by pat_completeness auto
termination
  by (relation "measure (\<lambda>(run, w). 16 - phase_rank (ru_phase run))") (auto dest!: publish_step_rank [OF sym])

declare publish_loop.simps [simp del]

definition milliseconds :: "int \<Rightarrow> int" where
  "milliseconds d = (if d < 0 then - ((- d) div 1000000) else d div 1000000)"

definition publishLeased :: "PreparedStoreUpgradeRun \<Rightarrow> gotime \<Rightarrow> PreparedStoreUpgradeReceipt io" where
  "publishLeased run0 leaseStarted =
     bindIO (publish_loop run0) (\<lambda>run. bindIO (Observe run) (\<lambda>observation. bindIO nowIO (\<lambda>now.
     retIO \<lparr>re_run_id = ru_id run, re_operation = ru_operation run, re_consumer_binding = ru_consumer_binding run,
            re_target_identity = ob_source observation, re_rollback_identity = ob_rollback observation,
            re_rollback_path = ru_rollback_path run, re_evidence = ru_evidence run,
            re_publish_milliseconds = milliseconds (time_sub now leaseStarted)\<rparr>)))"

fun phaseForPreparedRecoveryAction :: "PreparedStoreUpgradeAction \<Rightarrow> PreparedStoreUpgradePhase option" where
  "phaseForPreparedRecoveryAction ActionRecordSwapIntent = Some PreparedStoreUpgradeSwapIntent"
| "phaseForPreparedRecoveryAction ActionRecordSwapped = Some PreparedStoreUpgradeSwapped"
| "phaseForPreparedRecoveryAction ActionRecordPublishIntent = Some PreparedStoreUpgradeRollbackPublishIntent"
| "phaseForPreparedRecoveryAction ActionRecordRollbackReady = Some PreparedStoreUpgradeRollbackReady"
| "phaseForPreparedRecoveryAction ActionRecordRollbackSwapped = Some PreparedStoreUpgradeRollbackSwapped"
| "phaseForPreparedRecoveryAction ActionRecordRolledBack = Some PreparedStoreUpgradeRolledBack"
| "phaseForPreparedRecoveryAction _ = None"

definition executeRecoveryAction ::
    "PreparedStoreUpgradeRun \<Rightarrow> PreparedStoreUpgradeObservation \<Rightarrow> PreparedStoreUpgradeAction \<Rightarrow> PreparedStoreUpgradeRun io" where
  "executeRecoveryAction run observation action =
     (case action of
        ActionSyncRecoveredOrientation \<Rightarrow> bindIO (SyncRecoveredOrientation run observation) (\<lambda>_. retIO run)
      | ActionExchange \<Rightarrow> bindIO (guardPublication run) (\<lambda>_. bindIO (Exchange run) (\<lambda>_. retIO run))
      | ActionRollbackExchange \<Rightarrow> bindIO (Exchange run) (\<lambda>_. retIO run)
      | ActionPublishRollback \<Rightarrow> bindIO (PublishRollback run) (\<lambda>_. retIO run)
      | _ \<Rightarrow> (case phaseForPreparedRecoveryAction action of
                None \<Rightarrow> failIO (UpgradeRefused ''unsupported prepared recovery action'')
              | Some p \<Rightarrow> advance run p))"

fun execute_all ::
    "PreparedStoreUpgradeRun \<Rightarrow> PreparedStoreUpgradeObservation \<Rightarrow> PreparedStoreUpgradeAction list \<Rightarrow> PreparedStoreUpgradeRun io" where
  "execute_all run observation [] = retIO run"
| "execute_all run observation (a # as) = bindIO (executeRecoveryAction run observation a) (\<lambda>run'. execute_all run' observation as)"

definition acquireExclusiveSkippingIfHeld :: "Upgrade \<Rightarrow> unit io" where
  "acquireExclusiveSkippingIfHeld u = (if up_holds_exclusive u then retIO () else stepIO)"

definition recoverAndPublish :: "Upgrade \<Rightarrow> PreparedStoreUpgradeRun \<Rightarrow> PreparedStoreUpgradeReceipt io" where
  "recoverAndPublish u run0 =
     bindIO (if ru_phase run0 = PreparedStoreUpgradeCandidateVerified then advance run0 PreparedStoreUpgradeSwapIntent else retIO run0) (\<lambda>run1.
     bindIO (acquireExclusiveSkippingIfHeld u) (\<lambda>_. bindIO nowIO (\<lambda>leaseStarted.
     bindIO (Observe run1) (\<lambda>obs.
     bindIO (if ru_phase run1 = PreparedStoreUpgradeSwapIntent \<and> ob_orientation obs = OrientationCandidateReady
             then RecheckForPublish run1 else retIO ()) (\<lambda>_.
     bindIO (liftIO (RecoveryActions run1 obs)) (\<lambda>actions.
     bindIO (execute_all run1 obs actions) (\<lambda>run2.
     publishLeased run2 leaseStarted)))))))"

definition Publish :: "Upgrade \<Rightarrow> string \<Rightarrow> PreparedStoreUpgradeReceipt io" where
  "Publish u i = bindIO (load u i) (\<lambda>run.
     bindIO (refuse (ru_phase run \<noteq> PreparedStoreUpgradeCandidateVerified) ''prepared candidate is not verified'') (\<lambda>_.
     recoverAndPublish u run))"

definition isPreparationPhase :: "PreparedStoreUpgradePhase \<Rightarrow> bool" where
  "isPreparationPhase p \<longleftrightarrow>
     List.member [PreparedStoreUpgradePlanned, PreparedStoreUpgradeCopyIntent, PreparedStoreUpgradeCopyRetryIntent,
       PreparedStoreUpgradeCandidatePrepared, PreparedStoreUpgradeCopyComplete, PreparedStoreUpgradeCandidateSyncIntent,
       PreparedStoreUpgradeCandidateSynced, PreparedStoreUpgradeScrubInProgress] p"

definition recovery_action ::
    "Upgrade \<Rightarrow> PreparedStoreUpgradeObservation \<Rightarrow> PreparedStoreUpgradeRun \<Rightarrow> PreparedStoreUpgradeAction \<Rightarrow> PreparedStoreUpgradeRun io" where
  "recovery_action u obs run a =
     (case a of
        ActionRecordCopyRetryIntent \<Rightarrow> advance run PreparedStoreUpgradeCopyRetryIntent
      | ActionRemoveOwnedPartialCandidate \<Rightarrow>
          bindIO (Recheck (up_caller_holds_lease u) run) (\<lambda>_. bindIO (RemoveOwnedPartialCandidate run obs) (\<lambda>_. retIO run))
      | ActionRecordCopyComplete \<Rightarrow> advance run PreparedStoreUpgradeCopyComplete
      | _ \<Rightarrow> failIO (UpgradeRefused ''unexpected preparation recovery action''))"

fun recovery_actions ::
    "Upgrade \<Rightarrow> PreparedStoreUpgradeObservation \<Rightarrow> PreparedStoreUpgradeRun \<Rightarrow> PreparedStoreUpgradeAction list \<Rightarrow> PreparedStoreUpgradeRun io" where
  "recovery_actions u obs run [] = retIO run"
| "recovery_actions u obs run (a # as) = bindIO (recovery_action u obs run a) (\<lambda>run'. recovery_actions u obs run' as)"

definition recoverPreparation :: "Upgrade \<Rightarrow> PreparedStoreUpgradeRun \<Rightarrow> PreparedStoreUpgradeRun io" where
  "recoverPreparation u run =
     bindIO (Observe run) (\<lambda>obs0.
     bindIO (if ru_phase run = PreparedStoreUpgradeCandidatePrepared \<and> ob_orientation obs0 = OrientationCandidateReady
             then bindIO (recipe_for u (ru_operation run)) (\<lambda>rc. bindIO (rc_classify rc run obs0) (\<lambda>c.
                    retIO (obs0\<lparr>ob_candidate_condition := c\<rparr>)))
             else retIO obs0) (\<lambda>obs.
     bindIO (liftIO (RecoveryActions run obs)) (\<lambda>actions. recovery_actions u obs run actions)))"

definition finish :: "Upgrade \<Rightarrow> PreparedStoreUpgradeRun \<Rightarrow> PreparedStoreUpgradeReceipt io" where
  "finish u run =
     bindIO (if isPreparationPhase (ru_phase run)
             then bindIO (recoverPreparation u run) (\<lambda>run1. bindIO (recipe_for u (ru_operation run1)) (\<lambda>rc. prepare u rc run1))
             else retIO run) (\<lambda>run2. recoverAndPublish u run2)"

definition Resume :: "Upgrade \<Rightarrow> string \<Rightarrow> PreparedStoreUpgradeReceipt io" where
  "Resume u i = bindIO (load u i) (finish u)"

definition rollback_step :: "PreparedStoreUpgradeRun \<Rightarrow> PreparedStoreUpgradeRun io" where
  "rollback_step run =
     (case ru_phase run of
        PreparedStoreUpgradeSwapped \<Rightarrow> advance run PreparedStoreUpgradeRollbackPublishIntent
      | PreparedStoreUpgradeRollbackPublishIntent \<Rightarrow>
          bindIO (PublishRollback run) (\<lambda>_. advance run PreparedStoreUpgradeRollbackReady)
      | PreparedStoreUpgradeRollbackReady \<Rightarrow> advance run PreparedStoreUpgradeRollbackSwapIntent
      | PreparedStoreUpgradeCommitted \<Rightarrow> advance run PreparedStoreUpgradeRollbackSwapIntent
      | PreparedStoreUpgradeRollbackSwapIntent \<Rightarrow> bindIO (Exchange run) (\<lambda>_. advance run PreparedStoreUpgradeRollbackSwapped)
      | PreparedStoreUpgradeRollbackSwapped \<Rightarrow> advance run PreparedStoreUpgradeRolledBack
      | _ \<Rightarrow> failIO (UpgradeRefused ''rollback cannot continue''))"

lemma rollback_step_rank:
  "rollback_step run w = (Inr run', w') \<Longrightarrow> phase_rank (ru_phase run) < phase_rank (ru_phase run') \<and> phase_rank (ru_phase run') \<le> 15"
  by (cases "ru_phase run") (auto simp: rollback_step_def bindIO_Inr failIO_def dest: advance_phase)

function rollback_loop :: "PreparedStoreUpgradeRun \<Rightarrow> PreparedStoreUpgradeRun io" where
  "rollback_loop run w =
     (if ru_phase run = PreparedStoreUpgradeRolledBack then (Inr run, w)
      else case rollback_step run w of
             (Inl e, w') \<Rightarrow> (Inl e, w')
           | (Inr run', w') \<Rightarrow> rollback_loop run' w')"
  by pat_completeness auto
termination
  by (relation "measure (\<lambda>(run, w). 16 - phase_rank (ru_phase run))") (auto dest!: rollback_step_rank [OF sym])

declare rollback_loop.simps [simp del]

definition Rollback :: "Upgrade \<Rightarrow> string \<Rightarrow> PreparedStoreUpgradeRun io" where
  "Rollback u i = bindIO (load u i) (\<lambda>run.
     bindIO (if ru_phase run = PreparedStoreUpgradeRollbackReady \<or> ru_phase run = PreparedStoreUpgradeCommitted
             then if ru_operation run = PreparedStoreUpgradeOperationOfflineMigrationUpgrade \<and> ru_phase run = PreparedStoreUpgradeCommitted
                  then failIO (UpgradeRefused ''upgrade run refuses post-commit rollback'')
                  else advance run PreparedStoreUpgradeRollbackSwapIntent
             else retIO run) (\<lambda>run1.
     bindIO (acquireExclusiveSkippingIfHeld u) (\<lambda>_.
     bindIO (Observe run1) (\<lambda>obs. bindIO (liftIO (RecoveryActions run1 obs)) (\<lambda>actions.
     bindIO (execute_all run1 obs actions) rollback_loop)))))"

definition RunUpgrade :: "Upgrade \<Rightarrow> string \<Rightarrow> PreparedStoreUpgradeCommand \<Rightarrow> PreparedStoreUpgradeReceipt io" where
  "RunUpgrade u idBytes c =
     bindIO (refuse (invalid_binding u c \<or> cm_operation c \<noteq> PreparedStoreUpgradeOperationOfflineMigrationUpgrade)
               ''invalid prepared upgrade binding'') (\<lambda>_.
     bindIO stepIO (\<lambda>_. (\<lambda>w.
       case FindActive (cm_operation c) (cm_target_path c) (cm_consumer_binding c) w of
         (Inl e, w') \<Rightarrow>
           if e = ErrNotExist
           then bindIO (PlanUpgrade u idBytes c) (\<lambda>run. bindIO (recipe_for u (ru_operation run)) (\<lambda>rc.
                  bindIO (prepare u rc run) (recoverAndPublish (u\<lparr>up_holds_exclusive := True\<rparr>)))) w'
           else (Inl e, w')
       | (Inr run, w') \<Rightarrow>
           if \<not> IsTerminal (ru_phase run) then finish (u\<lparr>up_holds_exclusive := True\<rparr>) run w'
           else bindIO (PlanUpgrade u idBytes c) (\<lambda>run. bindIO (recipe_for u (ru_operation run)) (\<lambda>rc.
                  bindIO (prepare u rc run) (recoverAndPublish (u\<lparr>up_holds_exclusive := True\<rparr>)))) w')))"

end
