(* ===== verification/Upgrade_Safety.thy ===== *)
theory Upgrade_Safety
  imports Upgrade_Protocol
begin

text \<open>
  Where the files of a prepared upgrade are, after any operations and failures. The invariant ties the last
  durable phase to the placement of the original and of the candidate; triples over the failing world carry
  it through the protocol.
\<close>

section \<open>Placements\<close>

definition holds_inode :: "(string \<Rightarrow> DiskFile option) \<Rightarrow> string \<Rightarrow> StoreFileIdentity \<Rightarrow> bool" where
  "holds_inode files p i \<longleftrightarrow> (case files p of None \<Rightarrow> False | Some f \<Rightarrow> inode_key (df_identity f) = inode_key i)"

definition holds_file :: "(string \<Rightarrow> DiskFile option) \<Rightarrow> string \<Rightarrow> StoreFileIdentity \<Rightarrow> bool" where
  "holds_file files p i \<longleftrightarrow> (case files p of None \<Rightarrow> False | Some f \<Rightarrow> df_identity f = i)"

definition in_place :: "PreparedStoreUpgradeRun \<Rightarrow> (string \<Rightarrow> DiskFile option) \<Rightarrow> bool" where
  "in_place r files \<longleftrightarrow> holds_inode files (ru_source_path r) (ru_source_identity r) \<and> files (ru_rollback_path r) = None"

definition exchanged :: "PreparedStoreUpgradeRun \<Rightarrow> (string \<Rightarrow> DiskFile option) \<Rightarrow> bool" where
  "exchanged r files \<longleftrightarrow>
     holds_inode files (ru_source_path r) (ru_candidate r) \<and> holds_file files (ru_candidate_path r) (ru_source_identity r)
     \<and> files (ru_rollback_path r) = None"

definition retained :: "PreparedStoreUpgradeRun \<Rightarrow> (string \<Rightarrow> DiskFile option) \<Rightarrow> bool" where
  "retained r files \<longleftrightarrow>
     holds_inode files (ru_source_path r) (ru_candidate r) \<and> holds_file files (ru_rollback_path r) (ru_source_identity r)
     \<and> files (ru_candidate_path r) = None"

definition restored :: "PreparedStoreUpgradeRun \<Rightarrow> (string \<Rightarrow> DiskFile option) \<Rightarrow> bool" where
  "restored r files \<longleftrightarrow>
     holds_inode files (ru_source_path r) (ru_source_identity r) \<and> holds_inode files (ru_rollback_path r) (ru_candidate r)
     \<and> files (ru_candidate_path r) = None"

definition placed :: "PreparedStoreUpgradePhase \<Rightarrow> PreparedStoreUpgradeRun \<Rightarrow> (string \<Rightarrow> DiskFile option) \<Rightarrow> bool" where
  "placed p r files =
     (case p of
        PreparedStoreUpgradeSwapIntent \<Rightarrow> in_place r files \<or> exchanged r files
      | PreparedStoreUpgradeSwapped \<Rightarrow> exchanged r files
      | PreparedStoreUpgradeRollbackPublishIntent \<Rightarrow> exchanged r files \<or> retained r files
      | PreparedStoreUpgradeRollbackReady \<Rightarrow> retained r files
      | PreparedStoreUpgradeCommitted \<Rightarrow> retained r files
      | PreparedStoreUpgradeRollbackSwapIntent \<Rightarrow> retained r files \<or> restored r files
      | PreparedStoreUpgradeRollbackSwapped \<Rightarrow> restored r files
      | PreparedStoreUpgradeRolledBack \<Rightarrow> restored r files
      | _ \<Rightarrow> in_place r files)"

definition ownedRollbackPath :: "PreparedStoreUpgradeRun \<Rightarrow> string" where
  "ownedRollbackPath r =
     ru_source_path r @ (if ru_operation r = PreparedStoreUpgradeOperationOfflineMigrationUpgrade
                         then ''.rollback-upgrade-'' else ''.rollback-'') @ ru_id r"

definition paths_ok :: "PreparedStoreUpgradeRun \<Rightarrow> bool" where
  "paths_ok r \<longleftrightarrow> ru_candidate_path r = ownedCandidatePath r \<and> ru_rollback_path r = ownedRollbackPath r"

definition undated :: "PreparedStoreUpgradeRun \<Rightarrow> bool" where
  "undated r \<longleftrightarrow> mono (ru_created_at r) = None \<and> mono (ru_updated_at r) = None"

definition last_record :: "string \<Rightarrow> World \<Rightarrow> PreparedStoreUpgradeRun option" where
  "last_record i w =
     (case map_of (wo_journals w) i of
        None \<Rightarrow> None
      | Some j \<Rightarrow> (case load_records i None (jr_records j) of Inl _ \<Rightarrow> None | Inr r \<Rightarrow> Some r))"

definition untorn :: "string \<Rightarrow> World \<Rightarrow> bool" where
  "untorn i w \<longleftrightarrow> (case map_of (wo_journals w) i of None \<Rightarrow> False | Some j \<Rightarrow> \<not> jr_torn j)"

definition record_ok :: "PreparedStoreUpgradeRun \<Rightarrow> (string \<Rightarrow> DiskFile option) \<Rightarrow> bool" where
  "record_ok r files \<longleftrightarrow> paths_ok r \<and> undated r \<and> placed (ru_phase r) r files"

definition safe :: "string \<Rightarrow> World \<Rightarrow> bool" where
  "safe i w \<longleftrightarrow> (case last_record i w of None \<Rightarrow> False | Some r \<Rightarrow> ru_id r = i \<and> record_ok r (wo_files w))"

text \<open>A run in memory agrees with the last durable record.\<close>

definition live :: "PreparedStoreUpgradeRun \<Rightarrow> World \<Rightarrow> bool" where
  "live run w \<longleftrightarrow> last_record (ru_id run) w = Some (stored_run run) \<and> untorn (ru_id run) w \<and> record_ok (stored_run run) (wo_files w)"

lemma stored_run_fields [simp]:
  "ru_id (stored_run r) = ru_id r" "ru_source_path (stored_run r) = ru_source_path r"
  "ru_candidate_path (stored_run r) = ru_candidate_path r" "ru_rollback_path (stored_run r) = ru_rollback_path r"
  "ru_phase (stored_run r) = ru_phase r" "ru_source_identity (stored_run r) = ru_source_identity r"
  "ru_candidate (stored_run r) = ru_candidate r" "ru_prepared_candidate_identity (stored_run r) = ru_prepared_candidate_identity r"
  "ru_operation (stored_run r) = ru_operation r" "undated (stored_run r)"
  "ru_prepared_attempt (stored_run r) = ru_prepared_attempt r" "ru_resources (stored_run r) = ru_resources r"
  "ru_evidence (stored_run r) = ru_evidence r" "ru_consumer_binding (stored_run r) = ru_consumer_binding r"
  "ru_source_digest (stored_run r) = ru_source_digest r" "ru_plan_digest (stored_run r) = ru_plan_digest r"
  "ru_budget (stored_run r) = ru_budget r"
  by (simp_all add: stored_run_def undated_def)

lemma placements_stored [simp]:
  "in_place (stored_run r) = in_place r" "exchanged (stored_run r) = exchanged r"
  "retained (stored_run r) = retained r" "restored (stored_run r) = restored r"
  "placed p (stored_run r) = placed p r" "paths_ok (stored_run r) = paths_ok r"
  by (simp_all add: fun_eq_iff in_place_def exchanged_def retained_def restored_def placed_def paths_ok_def
      ownedCandidatePath_def ownedRollbackPath_def split: PreparedStoreUpgradePhase.splits)

lemma live_safe: "live run w \<Longrightarrow> safe (ru_id run) w"
  by (simp add: live_def safe_def)

lemma paths_distinct:
  "paths_ok r \<Longrightarrow> ru_candidate_path r \<noteq> ru_source_path r \<and> ru_rollback_path r \<noteq> ru_source_path r
     \<and> ru_candidate_path r \<noteq> ru_rollback_path r"
  by (auto simp: paths_ok_def ownedCandidatePath_def ownedRollbackPath_def)

section \<open>Triples over a failing world\<close>

definition triple :: "(World \<Rightarrow> bool) \<Rightarrow> 'a io \<Rightarrow> ('a \<Rightarrow> World \<Rightarrow> bool) \<Rightarrow> (World \<Rightarrow> bool) \<Rightarrow> bool" where
  "triple P m Q E \<longleftrightarrow>
     (\<forall>w e w'. P w \<longrightarrow> m w = (Inl e, w') \<longrightarrow> E w') \<and> (\<forall>w x w'. P w \<longrightarrow> m w = (Inr x, w') \<longrightarrow> Q x w')"

lemma tripleI: "(\<And>w e w'. P w \<Longrightarrow> m w = (Inl e, w') \<Longrightarrow> E w') \<Longrightarrow> (\<And>w x w'. P w \<Longrightarrow> m w = (Inr x, w') \<Longrightarrow> Q x w') \<Longrightarrow> triple P m Q E"
  by (simp add: triple_def)

lemma tripleD1: "triple P m Q E \<Longrightarrow> P w \<Longrightarrow> m w = (Inr x, w') \<Longrightarrow> Q x w'"
  and tripleD2: "triple P m Q E \<Longrightarrow> P w \<Longrightarrow> m w = (Inl e, w') \<Longrightarrow> E w'"
  by (simp_all add: triple_def)

lemma bindIO_Inl: "bindIO m k w = (Inl e, w') \<longleftrightarrow> m w = (Inl e, w') \<or> (\<exists>x v. m w = (Inr x, v) \<and> k x v = (Inl e, w'))"
  by (auto simp: bindIO_def split: prod.splits sum.splits)

lemma triple_bind: "triple P m Q E \<Longrightarrow> (\<And>x. triple (Q x) (k x) R E) \<Longrightarrow> triple P (bindIO m k) R E"
  by (rule tripleI) (unfold bindIO_Inl bindIO_Inr, (metis tripleD1 tripleD2)+)

lemma triple_weaken: "triple P' m Q' E \<Longrightarrow> (\<And>w. P w \<Longrightarrow> P' w) \<Longrightarrow> (\<And>x w. Q' x w \<Longrightarrow> Q x w) \<Longrightarrow> triple P m Q E"
  by (rule tripleI) (metis tripleD1 tripleD2)+

lemma triple_ret: "(\<And>w. P w \<Longrightarrow> Q x w) \<Longrightarrow> triple P (retIO x) Q E"
  by (simp add: triple_def retIO_def)

lemma triple_fail: "(\<And>w. P w \<Longrightarrow> E w) \<Longrightarrow> triple P (failIO e) Q E"
  by (simp add: triple_def failIO_def)

lemma triple_lift: "(\<And>w. P w \<Longrightarrow> E w) \<Longrightarrow> (\<And>x w. r = Inr x \<Longrightarrow> P w \<Longrightarrow> Q x w) \<Longrightarrow> triple P (liftIO r) Q E"
  by (auto simp: triple_def liftIO_def split: sum.splits)

text \<open>Operations that leave the journals and some of the files alone.\<close>

definition touches :: "string set \<Rightarrow> 'a io \<Rightarrow> bool" where
  "touches S m \<longleftrightarrow> (\<forall>w. wo_journals (snd (m w)) = wo_journals w \<and> (\<forall>p. p \<notin> S \<longrightarrow> wo_files (snd (m w)) p = wo_files w p))"

named_theorems quiet

lemma touches_basic [quiet]:
  "touches S (retIO x)" "touches S (failIO e)" "touches S (liftIO r)" "touches S (getIO f)" "touches S stepIO"
  "touches S nowIO" "touches S (refuse b msg)"
  by (auto simp: touches_def retIO_def failIO_def liftIO_def getIO_def stepIO_def nowIO_def refuse_def pop_fault_def
      split: list.splits fault.splits)

lemma touches_bind [quiet]: "touches S m \<Longrightarrow> (\<And>x. touches S (k x)) \<Longrightarrow> touches S (bindIO m k)"
  by (auto simp: touches_def bindIO_def split: prod.splits sum.splits) (metis snd_conv)+

lemma touches_case [quiet]:
  "touches S m \<Longrightarrow> (\<And>x. touches S (k x)) \<Longrightarrow> touches S (case o' of None \<Rightarrow> m | Some x \<Rightarrow> k x)"
  "(\<And>a b. touches S (f a b)) \<Longrightarrow> touches S (case pr of (a, b) \<Rightarrow> f a b)"
  "touches S m \<Longrightarrow> touches S m' \<Longrightarrow> touches S (if b then m else m')"
  by (auto split: option.splits prod.splits)

lemma touches_effect:
  "(\<And>w. wo_journals (f w) = wo_journals w) \<Longrightarrow> (\<And>w p. p \<notin> S \<Longrightarrow> wo_files (f w) p = wo_files w p) \<Longrightarrow> touches S (effectIO f)"
  by (auto simp: touches_def effectIO_def pop_fault_def split: list.splits fault.splits)

lemma touches_inspect [quiet]:
  "touches S (inspectRegularFile p)" "touches S (inspectOptionalRegularFile p)" "touches S (validateStoreLinkIdentity p)"
  "touches S (rejectSQLiteSidecars p)" "touches S (fileDigest p)" "touches S (Load i)"
  unfolding inspectRegularFile_def inspectOptionalRegularFile_def validateStoreLinkIdentity_def rejectSQLiteSidecars_def
    fileDigest_def Load_def
  by (intro quiet)+

lemma touches_observe [quiet]:
  "touches S (Observe run)" "touches S (RecheckForPublish run)" "touches S (FenceCandidate run)"
  "touches S (SyncRecoveredOrientation run obs)" "touches S (guardPublication run)"
  unfolding Observe_def RecheckForPublish_def FenceCandidate_def SyncRecoveredOrientation_def guardPublication_def
    RejectRetiredSearchIndex_def
  by (intro quiet)+

lemma touches_load [quiet]: "touches S (load u i)" "touches S (recipe_for u p)" "touches S (acquireExclusiveSkippingIfHeld u)"
  unfolding load_def recipe_for_def acquireExclusiveSkippingIfHeld_def by (intro quiet)+

lemma touches_remove: "path \<in> S \<Longrightarrow> touches S (remove_file path)" "path \<in> S \<Longrightarrow> touches S (remove_stale path)"
proof -
  show r: "touches S (remove_file path)" if "path \<in> S"
    unfolding remove_file_def using that by (intro touches_effect) auto
  show "touches S (remove_stale path)" if "path \<in> S"
    unfolding remove_stale_def using r [OF that] by (intro quiet)
qed

text \<open>Conditions on the files and the journals only.\<close>

definition stable :: "(World \<Rightarrow> bool) \<Rightarrow> bool" where
  "stable P \<longleftrightarrow> (\<forall>w w'. wo_files w' = wo_files w \<longrightarrow> wo_journals w' = wo_journals w \<longrightarrow> P w \<longrightarrow> P w')"

lemma last_record_cong: "wo_journals w' = wo_journals w \<Longrightarrow> last_record i w' = last_record i w"
  by (simp add: last_record_def)

lemma safe_cong: "wo_files w' = wo_files w \<Longrightarrow> wo_journals w' = wo_journals w \<Longrightarrow> safe i w' = safe i w"
  using last_record_cong [of w' w i] by (auto simp: safe_def split: option.splits)

lemma stable_live [intro]: "stable (live run)"
  unfolding stable_def live_def untorn_def last_record_def by simp

lemma stable_safe [intro]: "stable (safe i)"
  unfolding stable_def using safe_cong by blast

lemma stable_rules [intro]:
  "stable (\<lambda>w. R (wo_files w))" "stable P \<Longrightarrow> stable Q \<Longrightarrow> stable (\<lambda>w. P w \<and> Q w)" "stable (\<lambda>w. b)"
  by (simp_all add: stable_def)

lemma triple_quiet:
  assumes "touches {} m" "stable P" "\<And>w. P w \<Longrightarrow> E w"
    and "\<And>w x w'. P w' \<Longrightarrow> m w = (Inr x, w') \<Longrightarrow> wo_files w' = wo_files w \<Longrightarrow> Q x w'"
  shows "triple P m Q E"
proof (rule tripleI)
  fix w r w' assume w: "P w" "m w = (r, w')"
  have same: "wo_files w' = wo_files w" "wo_journals w' = wo_journals w"
    using assms(1) w(2) by (auto simp: touches_def fun_eq_iff) (metis snd_conv)+
  then have p: "P w'" using assms(2) w(1) by (simp add: stable_def)
  show "E w'" by (rule assms(3) [OF p])
next
  fix w x w' assume w: "P w" "m w = (Inr x, w')"
  have same: "wo_files w' = wo_files w" "wo_journals w' = wo_journals w"
    using assms(1) w(2) by (auto simp: touches_def fun_eq_iff) (metis snd_conv)+
  then have p: "P w'" using assms(2) w(1) by (simp add: stable_def)
  show "Q x w'" using assms(4) [OF p w(2) same(1)] .
qed

lemma triple_pass: "touches {} m \<Longrightarrow> stable P \<Longrightarrow> (\<And>w. P w \<Longrightarrow> E w) \<Longrightarrow> triple P m (\<lambda>_. P) E"
  by (rule triple_quiet) auto

section \<open>The journal\<close>

lemma load_records_snoc:
  "load_records i prev rs = Inr r \<Longrightarrow> ru_id n = i \<Longrightarrow> validateRunAppend r n = Inr () \<Longrightarrow> load_records i prev (rs @ [n]) = Inr n"
proof (induction i prev rs arbitrary: r rule: load_records.induct)
  case (3 i previous q qs)
  then show ?case by (auto simp: andThen_Inr split: if_splits)
qed auto

lemma tcompare_round0: "mono p = None \<Longrightarrow> tcompare (round0 t) p = tcompare t p" "mono p = None \<Longrightarrow> tcompare p (round0 t) = tcompare p t"
  by (simp_all add: tcompare_def split: option.splits)

lemma validate_stored: "undated p \<Longrightarrow> validateRunAppend p (stored_run n) = validateRunAppend p n"
proof -
  assume u: "undated p"
  have "before (ru_updated_at (stored_run n)) (ru_updated_at p) = before (ru_updated_at n) (ru_updated_at p)"
    and "time_equal (ru_created_at p) (ru_created_at (stored_run n)) = time_equal (ru_created_at p) (ru_created_at n)"
    using u by (simp_all add: stored_run_def undated_def before_def time_equal_def tcompare_round0)
  moreover have "map_sum (\<lambda>e. e) (\<lambda>_. ()) (AdvanceRun p q (ru_updated_at (stored_run n)))
      = map_sum (\<lambda>e. e) (\<lambda>_. ()) (AdvanceRun p q (ru_updated_at n))" for q
    by (simp add: AdvanceRun_def)
  ultimately show ?thesis unfolding validateRunAppend_def by (simp only: stored_run_fields)
qed

lemma validate_append_same:
  assumes "validateRunAppend p n = Inr ()"
  shows "ru_id n = ru_id p" "ru_source_path n = ru_source_path p" "ru_candidate_path n = ru_candidate_path p"
    "ru_rollback_path n = ru_rollback_path p" "ru_source_identity n = ru_source_identity p" "ru_operation n = ru_operation p"
    "List.member (preparedStoreUpgradeTransitions (ru_phase p)) (ru_phase n)"
  using assms by (simp_all add: validateRunAppend_def andThen_Inr checks_Inr AdvanceRun_def del: checks.simps(2) split: if_split_asm)

lemma last_record_write:
  assumes "last_record (ru_id n) w = Some r" "undated r" "validateRunAppend r n = Inr ()" "map_of (wo_journals w) (ru_id n) = Some j"
  shows "last_record (ru_id n) (v\<lparr>wo_journals := AList.update (ru_id n) (j\<lparr>jr_records := jr_records j @ [stored_run n]\<rparr>) (wo_journals w)\<rparr>)
           = Some (stored_run n)"
  using assms load_records_snoc [of "ru_id n" None "jr_records j" r "stored_run n"]
  by (auto simp: last_record_def validate_stored update_conv' split: sum.splits)

lemma triple_write_record:
  assumes "ru_id n = ru_id base" "validateRunAppend (stored_run base) n = Inr ()"
  shows "triple (\<lambda>w. (live base w \<and> R (wo_files w)) \<and> placed (ru_phase n) n (wo_files w)) (write_record n)
           (\<lambda>_ w. live n w \<and> R (wo_files w)) (safe (ru_id base))"
proof -
  have main: "safe (ru_id base) w' \<and> (res = Inr () \<longrightarrow> live n w' \<and> R (wo_files w'))"
    if pre: "live base w" "R (wo_files w)" "placed (ru_phase n) n (wo_files w)" and run: "write_record n w = (res, w')" for w res w'
  proof -
    obtain j where j: "map_of (wo_journals w) (ru_id n) = Some j" "\<not> jr_torn j"
      using pre(1) assms(1) by (auto simp: live_def untorn_def split: option.splits)
    have l: "last_record (ru_id n) w = Some (stored_run base)" "record_ok (stored_run base) (wo_files w)"
      using pre(1) assms(1) by (simp_all add: live_def)
    have ok: "record_ok (stored_run n) (wo_files w)"
      using l(2) pre(3) validate_append_same [OF assms(2)]
      by (simp add: record_ok_def paths_ok_def ownedCandidatePath_def ownedRollbackPath_def)
    define v where "v = snd (pop_fault w)"
    have v: "wo_files v = wo_files w" "wo_journals v = wo_journals w"
      by (simp_all add: v_def pop_fault_def split: list.splits)
    define new where "new = v\<lparr>wo_journals := AList.update (ru_id n) (j\<lparr>jr_records := jr_records j @ [stored_run n]\<rparr>) (wo_journals w)\<rparr>"
    define torn where "torn = v\<lparr>wo_journals := AList.update (ru_id n) (j\<lparr>jr_torn := True\<rparr>) (wo_journals w)\<rparr>"
    have "live n new"
      using last_record_write [OF l(1) _ assms(2) j(1), of v] ok v j(2)
      by (simp add: live_def new_def untorn_def update_conv')
    moreover have "safe (ru_id base) torn"
      using l j(1) v assms(1) by (auto simp: safe_def torn_def last_record_def update_conv' split: option.splits sum.splits)
    moreover have "safe (ru_id base) v" using live_safe [OF pre(1)] safe_cong [OF v] by simp
    moreover have "(res, w') = (case fst (pop_fault w) of Fine \<Rightarrow> (Inr (), new) | FailAfter \<Rightarrow> (Inl IOFailed, new)
                       | Torn \<Rightarrow> (Inl IOFailed, torn) | FailBefore \<Rightarrow> (Inl IOFailed, v))"
      using run j(1) v by (simp add: write_record_def new_def torn_def v_def Let_def split: prod.splits fault.splits)
    ultimately show ?thesis using assms(1) live_safe [of n new] pre(2) v
      by (auto simp: new_def split: fault.splits)
  qed
  show ?thesis by (rule tripleI) (use main in \<open>auto dest: meta_spec\<close>)
qed

lemma stepIO_same: "stepIO w = (x, v) \<Longrightarrow> wo_journals v = wo_journals w \<and> wo_files v = wo_files w"
  by (auto simp: stepIO_def pop_fault_def split: list.splits fault.splits)

lemma Load_Inr:
  assumes "Load i w = (Inr r, w')" shows "last_record i w = Some r \<and> untorn i w"
proof -
  obtain v where j: "wo_journals v = wo_journals w"
    and v: "(case map_of (wo_journals v) i of
        None \<Rightarrow> failIO ErrNotExist
      | Some j \<Rightarrow> if jr_torn j then failIO (UpgradeRefused ''truncated compaction journal record'')
                  else liftIO (load_records i None (jr_records j))) v = (Inr r, w')"
    using assms unfolding Load_def bindIO_Inr getIO_def liftIO_def by (auto dest!: stepIO_same)
  show ?thesis
  proof (cases "map_of (wo_journals w) i")
    case None
    then show ?thesis using v j by (simp add: failIO_def)
  next
    case (Some jr)
    then show ?thesis using v j by (cases "jr_torn jr") (simp_all add: failIO_def liftIO_def last_record_def untorn_def)
  qed
qed

lemma Load_live: "live base w \<Longrightarrow> Load (ru_id base) w = (Inr r, w') \<Longrightarrow> r = stored_run base"
  using Load_Inr by (fastforce simp: live_def)

lemma triple_Append:
  assumes "ru_id n = ru_id base"
  shows "triple (\<lambda>w. (live base w \<and> R (wo_files w)) \<and> placed (ru_phase n) n (wo_files w)) (Append n)
           (\<lambda>_ w. live n w \<and> R (wo_files w)) (safe (ru_id base))"
    (is "triple ?P _ _ _")
proof -
  have st: "stable ?P" by (intro stable_rules(2) stable_live stable_rules(1))
  have e: "safe (ru_id base) w" if "?P w" for w using that live_safe by blast
  have loaded: "triple ?P (Load (ru_id n)) (\<lambda>r w. ?P w \<and> r = stored_run base) (safe (ru_id base))"
  proof (rule triple_quiet [OF touches_inspect(6) st e])
    fix w x w' assume "?P w'" "Load (ru_id n) w = (Inr x, w')" "wo_files w' = wo_files w"
    moreover have "wo_journals w' = wo_journals w"
      using touches_inspect(6) [of "{}" "ru_id n"] calculation(2) by (metis snd_conv touches_def)
    ultimately show "?P w' \<and> x = stored_run base" using Load_live [of base w x w'] assms st by (simp add: stable_def) metis
  qed
  have checked: "triple (\<lambda>w. ?P w \<and> r = stored_run base) (liftIO (validateRunAppend r n))
      (\<lambda>_ w. ?P w \<and> validateRunAppend (stored_run base) n = Inr ()) (safe (ru_id base))" for r
    by (rule triple_lift) (use e in auto)
  have written: "triple (\<lambda>w. ?P w \<and> validateRunAppend (stored_run base) n = Inr ()) (write_record n)
      (\<lambda>_ w. live n w \<and> R (wo_files w)) (safe (ru_id base))"
    using triple_write_record [OF assms, of R] by (cases "validateRunAppend (stored_run base) n = Inr ()") (auto simp: triple_def)
  have step: "triple (\<lambda>w. ?P w \<and> b) stepIO (\<lambda>_ w. ?P w \<and> b) (safe (ru_id base))" for b
    by (rule triple_pass [OF touches_basic(5) stable_rules(2) [OF st stable_rules(3)]]) (use e in simp)
  show ?thesis unfolding Append_def
    by (rule triple_bind [OF triple_pass [OF touches_basic(5) st e]], assumption,
        rule triple_bind [OF triple_pass [OF touches_basic(3) st e]], assumption,
        rule triple_bind [OF triple_pass [OF touches_basic(5) st e]], assumption,
        rule triple_bind [OF loaded], rule triple_bind [OF checked], rule triple_bind [OF step written])
qed

text \<open>Recording a phase is safe when the files are placed as the new phase says.\<close>

lemma triple_advance:
  assumes "ru_id run = ru_id base"
  shows "triple (\<lambda>w. (live base w \<and> R (wo_files w)) \<and> placed p run (wo_files w)) (advance run p)
           (\<lambda>run' w. (live run' w \<and> R (wo_files w)) \<and> (\<exists>t. run' = run\<lparr>ru_phase := p, ru_updated_at := t\<rparr>)) (safe (ru_id base))"
    (is "triple ?P _ _ _")
proof -
  have st: "stable ?P" by (intro stable_rules(2) stable_live stable_rules(1))
  have e: "safe (ru_id base) w" if "?P w" for w using that live_safe by blast
  define Next where "Next = (\<lambda>n w. ?P w \<and> (\<exists>t. n = run\<lparr>ru_phase := p, ru_updated_at := t\<rparr>))"
  have decided: "triple ?P (liftIO (AdvanceRun run p now)) Next (safe (ru_id base))" for now
    by (rule triple_lift) (use e in \<open>auto simp: Next_def AdvanceRun_def split: if_splits\<close>)
  have appended: "triple (Next n) (Append n) (\<lambda>_ w. (live n w \<and> R (wo_files w)) \<and> (\<exists>t. n = run\<lparr>ru_phase := p, ru_updated_at := t\<rparr>)) (safe (ru_id base))"
    for n
  proof (cases "\<exists>t. n = run\<lparr>ru_phase := p, ru_updated_at := t\<rparr>")
    case True
    then have n: "ru_id n = ru_id base" "ru_phase n = p" "placed p n = placed p run"
      using assms by (auto simp: fun_eq_iff placed_def in_place_def exchanged_def retained_def restored_def
          split: PreparedStoreUpgradePhase.splits)
    then show ?thesis
      by (intro triple_weaken [OF triple_Append [OF n(1), of R]]) (use True in \<open>auto simp: Next_def\<close>)
  next
    case False
    then show ?thesis by (auto simp: triple_def Next_def)
  qed
  show ?thesis unfolding advance_def
    by (rule triple_bind [OF triple_pass [OF touches_basic(6) st e]], assumption,
        rule triple_bind [OF decided], rule triple_bind [OF appended], rule triple_ret, assumption)
qed

section \<open>Preparation keeps the original in place\<close>

definition preparing :: "PreparedStoreUpgradePhase \<Rightarrow> bool" where
  "preparing p \<longleftrightarrow> phase_rank p \<le> 7"

lemma placed_preparing: "preparing p \<Longrightarrow> placed p r = in_place r"
  by (cases p) (simp_all add: preparing_def placed_def fun_eq_iff)

text \<open>What an operation may touch without moving the original: anything but the source and the rollback path.\<close>

definition elsewhere :: "PreparedStoreUpgradeRun \<Rightarrow> string set" where
  "elsewhere r = - {ru_source_path r, ru_rollback_path r}"

lemma touches_mono: "touches S m \<Longrightarrow> S \<subseteq> T \<Longrightarrow> touches T m"
  by (auto simp: touches_def)

lemma triple_elsewhere:
  assumes "touches (elsewhere run) m" "preparing (ru_phase run)"
  shows "triple (live run) m (\<lambda>_. live run) (safe (ru_id run))"
proof -
  have keep: "live run w'" if "live run w" "m w = (r, w')" for w r w'
  proof -
    have j: "wo_journals w' = wo_journals w" and f: "wo_files w' (ru_source_path run) = wo_files w (ru_source_path run)"
      "wo_files w' (ru_rollback_path run) = wo_files w (ru_rollback_path run)"
      using assms(1) that(2) by (auto simp: touches_def elsewhere_def) (metis snd_conv)+
    have "in_place run (wo_files w') = in_place run (wo_files w)" using f by (simp add: in_place_def holds_inode_def)
    then show ?thesis using that(1) last_record_cong [OF j] j assms(2)
      by (simp add: live_def record_ok_def untorn_def placed_preparing)
  qed
  show ?thesis by (rule tripleI) (use keep live_safe in \<open>blast+\<close>)
qed

lemma triple_prep_advance:
  assumes "preparing p" "ru_id run = ru_id base" "ru_source_path run = ru_source_path base"
    "ru_rollback_path run = ru_rollback_path base" "ru_source_identity run = ru_source_identity base" "preparing (ru_phase base)"
  shows "triple (live base) (advance run p) live (safe (ru_id base))"
proof (rule triple_weaken [OF triple_advance [OF assms(2), of "\<lambda>_. True"]])
  show "(live base w \<and> True) \<and> placed p run (wo_files w)" if "live base w" for w
    using that assms placed_preparing
    by (simp add: live_def record_ok_def in_place_def)
qed simp

lemma touches_sidecars: "paths_ok run \<Longrightarrow> touches (elsewhere run) (checkSQLiteSidecars b (ru_source_path run))"
proof -
  assume p: "paths_ok run"
  have "ru_source_path run @ ''-wal'' \<in> elsewhere run" "ru_source_path run @ ''-shm'' \<in> elsewhere run"
    using p by (auto simp: elsewhere_def paths_ok_def ownedRollbackPath_def)
  then show ?thesis unfolding checkSQLiteSidecars_def cleanupStaleSQLiteSidecars_def
    by (intro quiet touches_remove)
qed

lemma touches_recheck: "paths_ok run \<Longrightarrow> touches (elsewhere run) (Recheck b run)"
  unfolding Recheck_def by (intro quiet touches_sidecars)

lemma touches_candidate:
  assumes "paths_ok run"
  shows "touches (elsewhere run) (PrepareCandidate run)" "touches (elsewhere run) (RemoveOwnedPartialCandidate run obs)"
proof -
  have c: "ru_candidate_path run \<in> elsewhere run" using paths_distinct [OF assms] by (simp add: elsewhere_def)
  have "touches (elsewhere run) (effectIO (\<lambda>w. w\<lparr>wo_files := (wo_files w)(ru_candidate_path run := Some (new_file w))\<rparr>))"
    using c by (intro touches_effect) auto
  then show "touches (elsewhere run) (PrepareCandidate run)" unfolding PrepareCandidate_def by (intro quiet)
  show "touches (elsewhere run) (RemoveOwnedPartialCandidate run obs)"
    unfolding RemoveOwnedPartialCandidate_def using c by (intro quiet touches_remove)
qed

text \<open>
  What the protocol relies on from a recipe: it writes only the candidate and its own files, never the
  source, the retained file or the journals.\<close>

definition recipe_ok :: "Recipe \<Rightarrow> bool" where
  "recipe_ok rc \<longleftrightarrow>
     (\<forall>run. touches (elsewhere run) (rc_plan rc run) \<and> touches (elsewhere run) (rc_build rc run)
          \<and> (\<forall>obs. touches (elsewhere run) (rc_classify rc run obs)) \<and> touches (elsewhere run) (rc_sync rc run)
          \<and> touches (elsewhere run) (rc_verify rc run)
          \<and> touches (elsewhere run) (optional_check (rc_verify_bound_drop rc) run)
          \<and> touches (elsewhere run) (optional_check (rc_verify_unavailable_retention rc) run))"

lemma live_paths: "live run w \<Longrightarrow> paths_ok run"
  by (simp add: live_def record_ok_def)

lemma triple_by_paths: "(paths_ok run \<Longrightarrow> triple (live run) m Q E) \<Longrightarrow> triple (live run) m Q E"
  by (cases "paths_ok run") (auto simp: triple_def dest: live_paths)

lemma triple_prep_then:
  assumes "touches (elsewhere run) m" "preparing (ru_phase run)" "\<And>x. triple (live run) (k x) Q (safe (ru_id run))"
  shows "triple (live run) (bindIO m k) Q (safe (ru_id run))"
  by (rule triple_bind [OF triple_elsewhere [OF assms(1,2)] assms(3)])

lemma FenceCandidate_Inr: "FenceCandidate r w = (Inr f, w') \<Longrightarrow> \<exists>i. f = r\<lparr>ru_candidate := i\<rparr>"
  unfolding FenceCandidate_def bindIO_Inr by (auto simp: retIO_def)

lemma triple_verify:
  assumes "recipe_ok rc" "preparing (ru_phase run)"
  shows "triple (live run) (prepare_action u rc run ActionVerifyCandidate) live (safe (ru_id run))"
proof -
  have v: "touches (elsewhere run) (rc_verify rc run)" using assms(1) by (simp add: recipe_ok_def)
  define Fenced where "Fenced = (\<lambda>f w. live run w \<and> (\<exists>i e. f = run\<lparr>ru_evidence := e, ru_candidate := i\<rparr>))"
  have fence: "triple (live run) (FenceCandidate (run\<lparr>ru_evidence := e\<rparr>)) Fenced (safe (ru_id run))" for e
    by (rule triple_quiet [OF touches_observe(3) stable_live live_safe])
      (auto simp: Fenced_def dest!: FenceCandidate_Inr)
  have adv: "triple (Fenced f) (advance f PreparedStoreUpgradeCandidateVerified) live (safe (ru_id run))" for f
  proof (cases "\<exists>i e. f = run\<lparr>ru_evidence := e, ru_candidate := i\<rparr>")
    case True
    then have "triple (live run) (advance f PreparedStoreUpgradeCandidateVerified) live (safe (ru_id run))"
      using assms(2) by (intro triple_prep_advance) (auto simp: preparing_def)
    then show ?thesis by (rule triple_weaken) (simp_all add: Fenced_def)
  next
    case False
    then show ?thesis by (simp add: triple_def Fenced_def)
  qed
  show ?thesis unfolding prepare_action_def PreparedStoreUpgradeAction.case
    by (rule triple_prep_then [OF v assms(2)], rule triple_bind [OF fence adv])
qed

lemma triple_prepare_step:
  assumes "recipe_ok rc"
  shows "triple (live run) (prepare_step u rc run) live (safe (ru_id run))"
proof (rule triple_by_paths)
  assume p: "paths_ok run"
  note rc = assms [unfolded recipe_ok_def, rule_format, of run]
  have adv: "triple (live run) (advance run q) live (safe (ru_id run))" if "preparing q" "preparing (ru_phase run)" for q
    using that by (intro triple_prep_advance) simp_all
  note acts = prepare_action_def PreparedStoreUpgradeAction.case
  have recheck: "triple (live run) (prepare_action u rc run ActionRecheckPlan) live (safe (ru_id run))" if "preparing (ru_phase run)"
    unfolding acts using touches_recheck [OF p] that by (intro triple_prep_then adv) (simp_all add: preparing_def)
  have candidate: "triple (live run) (prepare_action u rc run ActionPrepareCandidate) live (safe (ru_id run))" if "preparing (ru_phase run)"
    unfolding acts using touches_candidate(1) [OF p] that by (intro triple_prep_then triple_prep_advance) (simp_all add: preparing_def)
  have build: "triple (live run) (prepare_action u rc run ActionBuildCandidate) live (safe (ru_id run))" if "preparing (ru_phase run)"
    unfolding acts using rc that by (intro triple_prep_then adv) (simp_all add: preparing_def)
  have sync: "triple (live run) (prepare_action u rc run ActionSyncCandidate) live (safe (ru_id run))" if "preparing (ru_phase run)"
    unfolding acts using rc that by (intro triple_prep_then adv) (simp_all add: preparing_def)
  have records: "triple (live run) (prepare_action u rc run ActionRecordSyncIntent) live (safe (ru_id run))"
    "triple (live run) (prepare_action u rc run ActionRecordScrubInProgress) live (safe (ru_id run))" if "preparing (ru_phase run)"
    unfolding acts using that by (intro adv; simp add: preparing_def)+
  have no: "triple (live run) (failIO e) live (safe (ru_id run))" for e by (rule triple_fail) (rule live_safe)
  have "triple (live run) (prepare_action u rc run a) live (safe (ru_id run))" if "next_action (ru_phase run) = Inr a" for a
    using that recheck candidate build sync records triple_verify [OF assms, of run u] no
    by (cases "ru_phase run") (auto simp: preparing_def, simp_all add: prepare_action_def)
  then show ?thesis unfolding prepare_step_def
    by (intro triple_bind [OF triple_lift [where Q = "\<lambda>a w. live run w \<and> NextAction run = Inr a"]])
      (auto simp: live_safe NextAction_def triple_def)
qed

lemma advance_id: "advance run p w = (Inr run', w') \<Longrightarrow> ru_id run' = ru_id run"
  by (auto simp: advance_def bindIO_Inr liftIO_def retIO_def AdvanceRun_def split: if_splits)

lemma prepare_step_id: "prepare_step u rc run w = (Inr run', w') \<Longrightarrow> ru_id run' = ru_id run"
  unfolding prepare_step_def NextAction_def
  by (cases "ru_phase run")
    (auto simp: bindIO_Inr liftIO_def prepare_action_def failIO_def dest!: advance_id FenceCandidate_Inr)

text \<open>A loop that runs a safe step until it is done.\<close>

lemma triple_loop:
  assumes loop: "\<And>run w. L run w = (if dn run then (Inr run, w)
        else case S run w of (Inl e, w') \<Rightarrow> (Inl e, w') | (Inr run', w') \<Rightarrow> L run' w')"
    and rank: "\<And>run w run' w'. S run w = (Inr run', w') \<Longrightarrow> phase_rank (ru_phase run) < phase_rank (ru_phase run') \<and> phase_rank (ru_phase run') \<le> 16"
    and same: "\<And>run w run' w'. S run w = (Inr run', w') \<Longrightarrow> ru_id run' = ru_id run"
    and step: "\<And>run. triple (live run) (S run) live (safe (ru_id run))"
  shows "triple (live run) (L run) (\<lambda>run' w. live run' w \<and> ru_id run' = ru_id run \<and> dn run') (safe (ru_id run))"
proof -
  have main: "live run w \<Longrightarrow> L run w = (r, w') \<Longrightarrow>
      (case r of Inl _ \<Rightarrow> safe (ru_id run) w' | Inr run' \<Rightarrow> live run' w' \<and> ru_id run' = ru_id run \<and> dn run')" for run w r w'
  proof (induction "16 - phase_rank (ru_phase run)" arbitrary: run w r w' rule: less_induct)
    case (less run)
    show ?case
    proof (cases "dn run")
      case True
      then show ?thesis using less.prems loop [of run w] by auto
    next
      case False
      obtain s v where s: "S run w = (s, v)" by fastforce
      show ?thesis
      proof (cases s)
        case (Inl e)
        then have "r = Inl e" "w' = v" using less.prems(2) loop [of run w] False s by simp_all
        then show ?thesis using tripleD2 [OF step less.prems(1)] s Inl by simp
      next
        case (Inr run')
        then have next_run: "live run' v" "ru_id run' = ru_id run"
          using tripleD1 [OF step less.prems(1)] same [of run w run' v] s by simp_all
        have lt: "16 - phase_rank (ru_phase run') < 16 - phase_rank (ru_phase run)"
          using rank [OF s [unfolded Inr]] by linarith
        have "L run' v = (r, w')" using less.prems(2) loop [of run w] False s Inr by simp
        from less.hyps [OF lt next_run(1) this] show ?thesis using next_run(2) by (cases r) simp_all
      qed
    qed
  qed
  show ?thesis
  proof (rule tripleI)
    show "safe (ru_id run) w'" if "live run w" "L run w = (Inl e, w')" for w e w' using main [OF that] by simp
    show "live run' w' \<and> ru_id run' = ru_id run \<and> dn run'" if "live run w" "L run w = (Inr run', w')" for w run' w'
      using main [OF that] by simp
  qed
qed

lemma triple_prepare:
  assumes "recipe_ok rc"
  shows "triple (live run) (prepare u rc run)
           (\<lambda>run' w. live run' w \<and> ru_id run' = ru_id run \<and> ru_phase run' = PreparedStoreUpgradeCandidateVerified) (safe (ru_id run))"
  by (rule triple_loop [OF prepare.simps _ prepare_step_id triple_prepare_step [OF assms]])
    (use prepare_step_rank in fastforce)

section \<open>Publication and rollback move the original safely\<close>

lemma inspect_Inr: "inspectRegularFile p w = (Inr i, w') \<Longrightarrow> holds_file (wo_files w) p i"
proof -
  assume "inspectRegularFile p w = (Inr i, w')"
  then obtain v where "wo_files v = wo_files w" "(case wo_files v p of None \<Rightarrow> failIO ErrNotExist | Some d \<Rightarrow> retIO (df_identity d)) v = (Inr i, w')"
    unfolding inspectRegularFile_def bindIO_Inr getIO_def by (auto dest!: stepIO_same)
  then show ?thesis by (cases "wo_files w p") (simp_all add: failIO_def retIO_def holds_file_def)
qed

lemma triple_inspect:
  assumes "stable P" "\<And>w. P w \<Longrightarrow> E w"
  shows "triple P (inspectRegularFile p) (\<lambda>i w. P w \<and> holds_file (wo_files w) p i) E"
proof (rule triple_quiet [OF touches_inspect(1) assms])
  fix w x w' assume "P w'" "inspectRegularFile p w = (Inr x, w')" "wo_files w' = wo_files w"
  then show "P w' \<and> holds_file (wo_files w') p x" using inspect_Inr [of p w x w'] by simp
qed

lemma triple_refuse: "(\<And>w. P w \<Longrightarrow> E w) \<Longrightarrow> triple P (refuse b msg) (\<lambda>_ w. P w \<and> \<not> b) E"
  by (auto simp: triple_def refuse_def failIO_def retIO_def split: if_splits)

lemma triple_effect:
  assumes "stable P" "\<And>w. P w \<Longrightarrow> E w" "\<And>w. P w \<Longrightarrow> E (f w) \<and> Q () (f w)"
  shows "triple P (effectIO f) Q E"
proof -
  have "P v" if "P w" "pop_fault w = (x, v)" for w x v
    using assms(1) that by (auto simp: stable_def pop_fault_def split: list.splits)
  then show ?thesis
    by (intro tripleI) (auto simp: effectIO_def split: prod.splits fault.splits dest: assms(2,3))
qed

lemma live_moved:
  assumes "live run w" "wo_journals w' = wo_journals w" "placed (ru_phase run) run (wo_files w')"
  shows "live run w'"
  using assms last_record_cong [OF assms(2)] by (simp add: live_def record_ok_def untorn_def)

lemma live_placed: "live run w \<Longrightarrow> placed (ru_phase run) run (wo_files w)"
  by (simp add: live_def record_ok_def)

text \<open>The exchange of the source with another path, in either direction.\<close>

lemma triple_exchange_with:
  assumes swap: "\<And>w v c. live run w \<Longrightarrow> holds_file (wo_files w) (ru_source_path run) c \<Longrightarrow> left_fence c \<Longrightarrow>
      holds_file (wo_files w) right rid \<Longrightarrow>
      v = w\<lparr>wo_files := (wo_files w)(ru_source_path run := wo_files w right, right := wo_files w (ru_source_path run))\<rparr> \<Longrightarrow>
      live run v \<and> R (wo_files v)"
  shows "triple (live run)
      (bindIO stepIO (\<lambda>_. bindIO (validateStoreLinkIdentity (ru_source_path run)) (\<lambda>_.
       bindIO (validateStoreLinkIdentity right) (\<lambda>_. bindIO (inspectRegularFile (ru_source_path run)) (\<lambda>current.
       bindIO (refuse (\<not> left_fence current) ''source identity fence changed'') (\<lambda>_.
       bindIO (inspectRegularFile right) (\<lambda>ri.
       bindIO (refuse (ri \<noteq> rid) ''candidate identity fence changed'') (\<lambda>_.
       bindIO (rejectSQLiteSidecars (ru_source_path run)) (\<lambda>_.
       atomicExchange (ru_source_path run) right)))))))))
      (\<lambda>_ w. live run w \<and> R (wo_files w)) (safe (ru_id run))"
proof -
  define at_left where "at_left = (\<lambda>current w. live run w \<and> holds_file (wo_files w) (ru_source_path run) current)"
  define left_ok where "left_ok = (\<lambda>current w. at_left current w \<and> \<not> \<not> left_fence current)"
  define at_right where "at_right = (\<lambda>current ri w. left_ok current w \<and> holds_file (wo_files w) right ri)"
  define right_ok where "right_ok = (\<lambda>current ri w. at_right current ri w \<and> \<not> ri \<noteq> rid)"
  note defs = at_left_def left_ok_def at_right_def right_ok_def
  have stab: "stable (live run)" "stable (left_ok c)" "stable (right_ok c r)" for c r
    unfolding defs by (intro stable_live stable_rules)+
  have err: "safe (ru_id run) w" if "right_ok c r w \<or> left_ok c w \<or> at_left c w \<or> at_right c r w" for c r w
    using that live_safe by (auto simp: defs)
  have swapped: "safe (ru_id run) v \<and> (live run v \<and> R (wo_files v))"
    if "right_ok c r w" "v = w\<lparr>wo_files := (wo_files w)(ru_source_path run := wo_files w right, right := wo_files w (ru_source_path run))\<rparr>"
    for c r w v
    using swap [of w c v] that live_safe by (auto simp: defs)
  have exchange: "triple (right_ok c r) (atomicExchange (ru_source_path run) right)
      (\<lambda>_ w. live run w \<and> R (wo_files w)) (safe (ru_id run))" for c r
    unfolding atomicExchange_def by (rule triple_effect [OF stab(3)]) (use err swapped in blast)+
  show ?thesis
  proof (intro triple_bind)
    show "triple (live run) stepIO (\<lambda>_. live run) (safe (ru_id run))"
      by (rule triple_pass [OF touches_basic(5) stab(1) live_safe])
    show "triple (live run) (validateStoreLinkIdentity p) (\<lambda>_. live run) (safe (ru_id run))" for p
      by (rule triple_pass [OF touches_inspect(3) stab(1) live_safe])
    show "triple (live run) (validateStoreLinkIdentity p) (\<lambda>_. live run) (safe (ru_id run))" for p
      by (rule triple_pass [OF touches_inspect(3) stab(1) live_safe])
    show "triple (live run) (inspectRegularFile (ru_source_path run)) at_left (safe (ru_id run))"
      unfolding at_left_def by (rule triple_inspect [OF stab(1) live_safe])
    show "triple (at_left c) (refuse (\<not> left_fence c) ''source identity fence changed'') (\<lambda>_. left_ok c) (safe (ru_id run))" for c
      unfolding left_ok_def by (rule triple_refuse) (use err in blast)
    show "triple (left_ok c) (inspectRegularFile right) (at_right c) (safe (ru_id run))" for c
      unfolding at_right_def by (rule triple_inspect [OF stab(2)]) (use err in blast)
    show "triple (at_right c r) (refuse (r \<noteq> rid) ''candidate identity fence changed'') (\<lambda>_. right_ok c r) (safe (ru_id run))" for c r
      unfolding right_ok_def by (rule triple_refuse) (use err in blast)
    show "triple (right_ok c r) (rejectSQLiteSidecars (ru_source_path run)) (\<lambda>_. right_ok c r) (safe (ru_id run))" for c r
      by (rule triple_pass [OF touches_inspect(4) stab(3)]) (use err in blast)
  qed (rule exchange)
qed

lemma holds_file_inode: "holds_file files p i \<Longrightarrow> holds_inode files p i"
  by (simp add: holds_file_def holds_inode_def split: option.splits)

lemma triple_Exchange:
  assumes "ru_phase run = PreparedStoreUpgradeSwapIntent"
  shows "triple (live run) (Exchange run) (\<lambda>_ w. live run w \<and> exchanged run (wo_files w)) (safe (ru_id run))"
proof -
  have swap: "live run v \<and> exchanged run (wo_files v)"
    if "live run w" "holds_file (wo_files w) (ru_source_path run) c" "c = ru_source_identity run"
      "holds_file (wo_files w) (ru_candidate_path run) (ru_candidate run)"
      "v = w\<lparr>wo_files := (wo_files w)(ru_source_path run := wo_files w (ru_candidate_path run),
         ru_candidate_path run := wo_files w (ru_source_path run))\<rparr>" for w v c
  proof -
    have d: "ru_candidate_path run \<noteq> ru_source_path run" "ru_rollback_path run \<noteq> ru_source_path run" "ru_candidate_path run \<noteq> ru_rollback_path run"
      using paths_distinct [OF live_paths [OF that(1)]] by auto
    have "wo_files w (ru_rollback_path run) = None"
      using live_placed [OF that(1)] assms by (auto simp: placed_def in_place_def exchanged_def)
    then have ex: "exchanged run (wo_files v)"
      using that(2-5) d by (auto simp: exchanged_def holds_inode_def holds_file_def split: option.splits)
    then show ?thesis using live_moved [OF that(1), of v] that(5) assms by (simp add: placed_def)
  qed
  show ?thesis
    using triple_exchange_with [where run = run and left_fence = "\<lambda>c. c = ru_source_identity run" and right = "ru_candidate_path run"
        and rid = "ru_candidate run" and R = "exchanged run", OF swap] assms
    by (simp add: Exchange_def Let_def)
qed

lemma SameInode_key: "SameInode i j \<Longrightarrow> inode_key i = inode_key j"
  by (simp add: SameInode_def inode_key_def)

lemma triple_Exchange_back:
  assumes "ru_phase run = PreparedStoreUpgradeRollbackSwapIntent"
  shows "triple (live run) (Exchange run) (\<lambda>_ w. live run w \<and> restored run (wo_files w)) (safe (ru_id run))"
proof -
  have swap: "live run v \<and> restored run (wo_files v)"
    if "live run w" "holds_file (wo_files w) (ru_source_path run) c" "samePublishedFile c (ru_candidate run)"
      "holds_file (wo_files w) (ru_rollback_path run) (ru_source_identity run)"
      "v = w\<lparr>wo_files := (wo_files w)(ru_source_path run := wo_files w (ru_rollback_path run),
         ru_rollback_path run := wo_files w (ru_source_path run))\<rparr>" for w v c
  proof -
    have d: "ru_candidate_path run \<noteq> ru_source_path run" "ru_rollback_path run \<noteq> ru_source_path run" "ru_candidate_path run \<noteq> ru_rollback_path run"
      using paths_distinct [OF live_paths [OF that(1)]] by auto
    have "wo_files w (ru_candidate_path run) = None"
      using live_placed [OF that(1)] assms by (auto simp: placed_def retained_def restored_def)
    moreover have "inode_key c = inode_key (ru_candidate run)" using that(3) SameInode_key by (simp add: samePublishedFile_def)
    ultimately have ex: "restored run (wo_files v)"
      using that(2,4,5) d by (auto simp: restored_def holds_inode_def holds_file_def split: option.splits)
    then show ?thesis using live_moved [OF that(1), of v] that(5) assms by (simp add: placed_def)
  qed
  show ?thesis
    using triple_exchange_with [where run = run and left_fence = "\<lambda>c. samePublishedFile c (ru_candidate run)" and right = "ru_rollback_path run"
        and rid = "ru_source_identity run" and R = "restored run", OF swap] assms
    by (simp add: Exchange_def Let_def)
qed

lemma triple_PublishRollback:
  assumes "ru_phase run = PreparedStoreUpgradeRollbackPublishIntent"
  shows "triple (live run) (PublishRollback run) (\<lambda>_ w. live run w \<and> retained run (wo_files w)) (safe (ru_id run))"
proof -
  define free where "free = (\<lambda>w. live run w \<and> wo_files w (ru_rollback_path run) = None)"
  have stab: "stable free" unfolding free_def by (intro stable_live stable_rules)
  have err: "safe (ru_id run) w" if "free w" for w using that live_safe by (simp add: free_def)
  have ask: "triple (live run) (bindIO (getIO (\<lambda>w. wo_files w (ru_rollback_path run) \<noteq> None)) (\<lambda>b. refuse b msg)) (\<lambda>_. free) (safe (ru_id run))"
    for msg
    using live_safe by (auto simp: triple_def bindIO_Inl bindIO_Inr getIO_def refuse_def failIO_def retIO_def free_def split: if_splits)
  have move: "safe (ru_id run) v \<and> (live run v \<and> retained run (wo_files v))"
    if "free w" "v = w\<lparr>wo_files := (wo_files w)(ru_rollback_path run := wo_files w (ru_candidate_path run), ru_candidate_path run := None)\<rparr>" for w v
  proof -
    have l: "live run w" "wo_files w (ru_rollback_path run) = None" using that(1) by (auto simp: free_def)
    have d: "ru_candidate_path run \<noteq> ru_source_path run" "ru_rollback_path run \<noteq> ru_source_path run" "ru_candidate_path run \<noteq> ru_rollback_path run"
      using paths_distinct [OF live_paths [OF l(1)]] by auto
    have "exchanged run (wo_files w)"
      using live_placed [OF l(1)] assms l(2) by (auto simp: placed_def retained_def holds_file_def)
    then have "retained run (wo_files v)"
      using d that(2) by (auto simp: exchanged_def retained_def holds_inode_def holds_file_def)
    then show ?thesis using live_moved [OF l(1), of v] that(2) assms live_safe by (simp add: placed_def)
  qed
  have publish: "triple free (renameNoReplace (ru_candidate_path run) (ru_rollback_path run)) (\<lambda>_ w. live run w \<and> retained run (wo_files w)) (safe (ru_id run))"
  proof -
    have eff: "triple free (effectIO (\<lambda>w. w\<lparr>wo_files := (wo_files w)(ru_rollback_path run := wo_files w (ru_candidate_path run),
        ru_candidate_path run := None)\<rparr>)) (\<lambda>_ w. live run w \<and> retained run (wo_files w)) (safe (ru_id run))"
      by (rule triple_effect [OF stab]) (use err move in blast)+
    show ?thesis unfolding renameNoReplace_def
      by (intro triple_bind [OF triple_pass [OF touches_basic(4) stab err]] triple_bind [OF triple_pass [OF touches_basic(7) stab err]])
        (use eff err in \<open>auto intro: triple_fail\<close>)
  qed
  have unfold: "PublishRollback run = bindIO stepIO (\<lambda>_. bindIO (bindIO (getIO (\<lambda>w. wo_files w (ru_rollback_path run) \<noteq> None))
      (\<lambda>b. refuse b ''rollback destination exists'')) (\<lambda>_. bindIO (validateStoreLinkIdentity (ru_source_path run)) (\<lambda>_.
      bindIO (validateStoreLinkIdentity (ru_candidate_path run)) (\<lambda>_. renameNoReplace (ru_candidate_path run) (ru_rollback_path run)))))"
    unfolding PublishRollback_def by (simp add: fun_eq_iff bindIO_def getIO_def split: prod.splits sum.splits)
  show ?thesis unfolding unfold
    by (rule triple_bind [OF triple_pass [OF touches_basic(5) stable_live live_safe]], assumption, rule triple_bind [OF ask],
        rule triple_bind [OF triple_pass [OF touches_inspect(3) stab err]], assumption,
        rule triple_bind [OF triple_pass [OF touches_inspect(3) stab err]], assumption, rule publish)
qed

lemma triple_adv:
  assumes "\<And>w. P w \<Longrightarrow> live run w \<and> placed p run (wo_files w)"
  shows "triple P (advance run p) live (safe (ru_id run))"
  by (rule triple_weaken [OF triple_advance [OF refl, of run "\<lambda>_. True"]]) (use assms in simp_all)

lemma triple_guard: "triple (live run) (guardPublication run) (\<lambda>_. live run) (safe (ru_id run))"
  by (rule triple_pass [OF touches_observe(5) stable_live live_safe])

lemma triple_publish_step: "triple (live run) (publish_step run) live (safe (ru_id run))"
proof -
  have no: "triple (live run) (failIO e) live (safe (ru_id run))" for e by (rule triple_fail) (rule live_safe)
  have swap: "triple (live run) (publish_action run ActionExchange) live (safe (ru_id run))"
    if "ru_phase run = PreparedStoreUpgradeSwapIntent"
    unfolding publish_action_def PreparedStoreUpgradeAction.case
    by (rule triple_bind [OF triple_guard], rule triple_bind [OF triple_Exchange [OF that]], rule triple_adv) (simp add: placed_def)
  have keep: "triple (live run) (publish_action run ActionPublishRollback) live (safe (ru_id run))"
    if "ru_phase run = PreparedStoreUpgradeRollbackPublishIntent"
    unfolding publish_action_def PreparedStoreUpgradeAction.case
    by (rule triple_bind [OF triple_PublishRollback [OF that]], rule triple_adv) (simp add: placed_def)
  have intent: "triple (live run) (publish_action run ActionRecordPublishIntent) live (safe (ru_id run))"
    if "ru_phase run = PreparedStoreUpgradeSwapped"
    unfolding publish_action_def PreparedStoreUpgradeAction.case
    by (rule triple_adv) (use that in \<open>auto simp: placed_def dest: live_placed\<close>)
  have commit: "triple (live run) (publish_action run ActionCommit) live (safe (ru_id run))"
    if "ru_phase run = PreparedStoreUpgradeRollbackReady"
    unfolding publish_action_def PreparedStoreUpgradeAction.case
    by (rule triple_adv) (use that in \<open>auto simp: placed_def dest: live_placed\<close>)
  have "triple (live run) (publish_action run a) live (safe (ru_id run))" if "next_action (ru_phase run) = Inr a" for a
    using that swap keep intent commit no
    by (cases "ru_phase run") (auto, simp_all add: publish_action_def)
  then show ?thesis unfolding publish_step_def
    by (intro triple_bind [OF triple_lift [where Q = "\<lambda>a w. live run w \<and> NextAction run = Inr a"]])
      (auto simp: live_safe NextAction_def triple_def)
qed

lemma publish_step_id: "publish_step run w = (Inr run', w') \<Longrightarrow> ru_id run' = ru_id run"
  unfolding publish_step_def NextAction_def
  by (cases "ru_phase run") (auto simp: bindIO_Inr liftIO_def publish_action_def failIO_def dest!: advance_id)

lemma triple_publish_loop:
  "triple (live run) (publish_loop run) (\<lambda>run' w. live run' w \<and> ru_id run' = ru_id run \<and> ru_phase run' = PreparedStoreUpgradeCommitted)
     (safe (ru_id run))"
  by (rule triple_loop [OF publish_loop.simps _ publish_step_id triple_publish_step]) (use publish_step_rank in fastforce)

lemma triple_rollback_step: "triple (live run) (rollback_step run) live (safe (ru_id run))"
proof -
  have no: "triple (live run) (failIO e) live (safe (ru_id run))" for e by (rule triple_fail) (rule live_safe)
  have adv: "triple (live run) (advance run p) live (safe (ru_id run))"
    if "\<And>F. placed (ru_phase run) run F \<Longrightarrow> placed p run F" for p
    by (rule triple_adv) (use that in \<open>auto dest: live_placed\<close>)
  have undo: "triple (live run) (bindIO (Exchange run) (\<lambda>_. advance run PreparedStoreUpgradeRollbackSwapped)) live (safe (ru_id run))"
    if "ru_phase run = PreparedStoreUpgradeRollbackSwapIntent"
    by (rule triple_bind [OF triple_Exchange_back [OF that]], rule triple_adv) (simp add: placed_def)
  have keep: "triple (live run) (bindIO (PublishRollback run) (\<lambda>_. advance run PreparedStoreUpgradeRollbackReady)) live (safe (ru_id run))"
    if "ru_phase run = PreparedStoreUpgradeRollbackPublishIntent"
    by (rule triple_bind [OF triple_PublishRollback [OF that]], rule triple_adv) (simp add: placed_def)
  show ?thesis
    using no undo keep adv by (cases "ru_phase run") (simp_all add: rollback_step_def placed_def)
qed

lemma rollback_step_id: "rollback_step run w = (Inr run', w') \<Longrightarrow> ru_id run' = ru_id run"
  unfolding rollback_step_def by (cases "ru_phase run") (auto simp: bindIO_Inr failIO_def dest!: advance_id)

lemma triple_rollback_loop:
  "triple (live run) (rollback_loop run) (\<lambda>run' w. live run' w \<and> ru_id run' = ru_id run \<and> ru_phase run' = PreparedStoreUpgradeRolledBack)
     (safe (ru_id run))"
  by (rule triple_loop [OF rollback_loop.simps _ rollback_step_id triple_rollback_step]) (use rollback_step_rank in fastforce)

section \<open>Recovery\<close>

definition oriented :: "PreparedStoreUpgradeRun \<Rightarrow> PreparedStoreUpgradeObservation \<Rightarrow> (string \<Rightarrow> DiskFile option) \<Rightarrow> bool" where
  "oriented run obs files \<longleftrightarrow>
     (ob_orientation obs = OrientationSwapped \<longrightarrow> exchanged run files)
     \<and> (ob_orientation obs = OrientationRollbackReady \<longrightarrow> retained run files)
     \<and> (ob_orientation obs = OrientationRolledBack \<longrightarrow> restored run files)"

lemma optional_Inr:
  "inspectOptionalRegularFile p w = (Inr x, w') \<Longrightarrow>
     wo_files w' = wo_files w \<and> (case wo_files w p of None \<Rightarrow> x = (no_identity, False) | Some f \<Rightarrow> x = (df_identity f, True))"
  unfolding inspectOptionalRegularFile_def bindIO_Inr getIO_def by (auto dest!: stepIO_same split: option.splits)

lemma inspect_same: "inspectRegularFile p w = (Inr i, w') \<Longrightarrow> wo_files w' = wo_files w"
  using touches_inspect(1) [of "{}" p] by (auto simp: touches_def fun_eq_iff) (metis snd_conv)

lemma orientation_placed:
  assumes "orientation run source cand rb = Inr o'" "holds_file files (ru_source_path run) source"
    "case files (ru_candidate_path run) of None \<Rightarrow> cand = (no_identity, False) | Some f \<Rightarrow> cand = (df_identity f, True)"
    "case files (ru_rollback_path run) of None \<Rightarrow> rb = (no_identity, False) | Some f \<Rightarrow> rb = (df_identity f, True)"
  shows "(o' = OrientationSwapped \<longrightarrow> exchanged run files) \<and> (o' = OrientationRollbackReady \<longrightarrow> retained run files)
    \<and> (o' = OrientationRolledBack \<longrightarrow> restored run files)"
proof -
  obtain c ce r re where p: "cand = (c, ce)" "rb = (r, re)" by fastforce
  have key: "inode_key i = inode_key j" if "samePublishedFile i j" for i j using that SameInode_key by (simp add: samePublishedFile_def)
  show ?thesis
    using assms p key
    by (cases "files (ru_candidate_path run)"; cases "files (ru_rollback_path run)")
      (auto simp: orientation_def exchanged_def retained_def restored_def holds_inode_def holds_file_def split: if_splits option.splits)
qed

lemma Observe_oriented: "Observe run w = (Inr obs, w') \<Longrightarrow> oriented run obs (wo_files w)"
  unfolding Observe_def bindIO_Inr
proof (elim exE conjE)
  fix source v1 cand v2 rb v3 x v4 y v5 o' v6
  assume a: "inspectRegularFile (ru_source_path run) w = (Inr source, v1)"
    "inspectOptionalRegularFile (ru_candidate_path run) v1 = (Inr cand, v2)"
    "inspectOptionalRegularFile (ru_rollback_path run) v2 = (Inr rb, v3)"
    "liftIO (orientation run source cand rb) v5 = (Inr o', v6)"
    "retIO \<lparr>ob_orientation = o', ob_source = source, ob_candidate = fst cand, ob_rollback = fst rb,
            ob_candidate_exists = snd cand, ob_rollback_exists = snd rb, ob_candidate_condition = NoCondition\<rparr> v6 = (Inr obs, w')"
  have o: "orientation run source cand rb = Inr o'" "ob_orientation obs = o'" using a(4,5) by (auto simp: liftIO_def retIO_def)
  show "oriented run obs (wo_files w)"
    unfolding oriented_def o(2)
    by (rule orientation_placed [OF o(1) inspect_Inr [OF a(1)]])
      (use optional_Inr [OF a(2)] optional_Inr [OF a(3)] inspect_same [OF a(1)] in auto)
qed

lemma triple_observe: "triple (live run) (Observe run) (\<lambda>obs w. live run w \<and> oriented run obs (wo_files w)) (safe (ru_id run))"
  by (rule triple_quiet [OF touches_observe(1) stable_live live_safe]) (auto dest: Observe_oriented)

lemma execute_record: "phaseForPreparedRecoveryAction a = Some p \<Longrightarrow> executeRecoveryAction run obs a = advance run p"
  by (cases a) (simp_all add: executeRecoveryAction_def)

definition restamped :: "PreparedStoreUpgradeRun \<Rightarrow> PreparedStoreUpgradeRun \<Rightarrow> bool" where
  "restamped run run' \<longleftrightarrow> (\<exists>p t. run' = run\<lparr>ru_phase := p, ru_updated_at := t\<rparr>)"

lemma restamped_step: "restamped run run' \<Longrightarrow> restamped run (run'\<lparr>ru_phase := p, ru_updated_at := t\<rparr>)"
  unfolding restamped_def by (elim exE, intro exI [of _ p] exI [of _ t]) simp

lemma restamped_same:
  assumes "restamped run run'"
  shows "ru_id run' = ru_id run" "placed p run' = placed p run" "in_place run' = in_place run" "exchanged run' = exchanged run"
    "retained run' = retained run" "restored run' = restored run"
  using assms by (auto simp: restamped_def fun_eq_iff placed_def in_place_def exchanged_def retained_def restored_def
      split: PreparedStoreUpgradePhase.splits)

lemma triple_pin: "triple P (m r0) Q E \<Longrightarrow> triple (\<lambda>w. r = r0 \<and> P w) (m r) Q E"
  by (cases "r = r0") (simp_all add: triple_def)

lemma triple_never: "(\<And>w. \<not> P w) \<Longrightarrow> triple P m Q E"
  by (simp add: triple_def)

lemma triple_execute_Cons:
  "triple P (executeRecoveryAction run obs a) T E \<Longrightarrow> (\<And>r. triple (T r) (execute_all r obs as) Q E) \<Longrightarrow>
     triple P (execute_all run obs (a # as)) Q E"
  unfolding execute_all.simps by (rule triple_bind)

text \<open>A recovery that only records what was observed.\<close>

lemma triple_record_all:
  assumes "list_all (\<lambda>a. a = ActionSyncRecoveredOrientation
      \<or> (\<exists>p. phaseForPreparedRecoveryAction a = Some p \<and> (\<forall>F. R F \<longrightarrow> placed p run F))) as" "restamped run run'"
  shows "triple (\<lambda>w. live run' w \<and> R (wo_files w)) (execute_all run' obs as) (\<lambda>r w. live r w \<and> ru_id r = ru_id run) (safe (ru_id run))"
  using assms
proof (induction as arbitrary: run')
  case Nil
  then show ?case by (simp add: triple_def retIO_def restamped_same(1))
next
  case (Cons a as)
  note same = restamped_same [OF Cons.prems(2)]
  have rest: "list_all (\<lambda>a. a = ActionSyncRecoveredOrientation
      \<or> (\<exists>p. phaseForPreparedRecoveryAction a = Some p \<and> (\<forall>F. R F \<longrightarrow> placed p run F))) as" using Cons.prems(1) by simp
  show ?case
  proof (cases "a = ActionSyncRecoveredOrientation")
    case True
    have st: "stable (\<lambda>w. live run' w \<and> R (wo_files w))" by (intro stable_live stable_rules)
    have e: "safe (ru_id run) w" if "live run' w \<and> R (wo_files w)" for w using that live_safe same(1) by metis
    have sync: "triple (\<lambda>w. live run' w \<and> R (wo_files w)) (bindIO (SyncRecoveredOrientation run' obs) (\<lambda>_. retIO run'))
        (\<lambda>r w. r = run' \<and> live run' w \<and> R (wo_files w)) (safe (ru_id run))"
      by (rule triple_bind [OF triple_pass [OF touches_observe(4) st e]], assumption, rule triple_ret) simp
    have act: "executeRecoveryAction run' obs a = bindIO (SyncRecoveredOrientation run' obs) (\<lambda>_. retIO run')"
      using True by (simp add: executeRecoveryAction_def)
    show ?thesis
      by (rule triple_execute_Cons [OF sync [folded act]])
        (rule triple_pin [where m = "\<lambda>r. execute_all r obs as", OF Cons.IH [OF rest Cons.prems(2)]])
  next
    case False
    then obtain p where p: "phaseForPreparedRecoveryAction a = Some p" "\<And>F. R F \<Longrightarrow> placed p run F" using Cons.prems(1) by auto
    have rec: "triple (\<lambda>w. live run' w \<and> R (wo_files w)) (advance run' p)
        (\<lambda>r w. (live r w \<and> R (wo_files w)) \<and> (\<exists>t. r = run'\<lparr>ru_phase := p, ru_updated_at := t\<rparr>)) (safe (ru_id run))"
      by (rule triple_weaken [OF triple_advance [OF refl, of run' R p, unfolded same(1)]]) (use p(2) same(2) in simp_all)
    have "triple (\<lambda>w. (live r w \<and> R (wo_files w)) \<and> (\<exists>t. r = run'\<lparr>ru_phase := p, ru_updated_at := t\<rparr>)) (execute_all r obs as)
        (\<lambda>r w. live r w \<and> ru_id r = ru_id run) (safe (ru_id run))" for r
    proof (cases "\<exists>t. r = run'\<lparr>ru_phase := p, ru_updated_at := t\<rparr>")
      case True
      then have "restamped run r" using restamped_step [OF Cons.prems(2)] by blast
      from Cons.IH [OF rest this] show ?thesis by (rule triple_weaken) auto
    next
      case False
      then show ?thesis by (intro triple_never) blast
    qed
    then show ?thesis by (rule triple_execute_Cons [OF rec [folded execute_record [OF p(1), of run' obs]]])
  qed
qed

lemma restamped_refl [simp]: "restamped run run"
  unfolding restamped_def by (rule exI [of _ "ru_phase run"], rule exI [of _ "ru_updated_at run"]) simp

lemma triple_execute_exchange:
  assumes "ru_phase run = PreparedStoreUpgradeSwapIntent"
  shows "triple (live run) (execute_all run obs [ActionExchange, ActionRecordSwapped]) (\<lambda>r w. live r w \<and> ru_id r = ru_id run) (safe (ru_id run))"
proof -
  have ex: "triple (live run) (executeRecoveryAction run obs ActionExchange) (\<lambda>r w. r = run \<and> live run w \<and> exchanged run (wo_files w)) (safe (ru_id run))"
    unfolding executeRecoveryAction_def PreparedStoreUpgradeAction.case
    by (rule triple_bind [OF triple_guard], rule triple_bind [OF triple_Exchange [OF assms]], rule triple_ret) simp
  have "triple (\<lambda>w. live run w \<and> exchanged run (wo_files w)) (execute_all run obs [ActionRecordSwapped])
      (\<lambda>r w. live r w \<and> ru_id r = ru_id run) (safe (ru_id run))"
    by (rule triple_record_all) (simp_all add: placed_def)
  then show ?thesis
    by (intro triple_execute_Cons [OF ex] triple_pin [where m = "\<lambda>r. execute_all r obs [ActionRecordSwapped]"])
qed

lemma triple_execute_back:
  assumes "ru_phase run = PreparedStoreUpgradeRollbackSwapIntent"
  shows "triple (live run) (execute_all run obs [ActionRollbackExchange, ActionRecordRollbackSwapped, ActionRecordRolledBack])
    (\<lambda>r w. live r w \<and> ru_id r = ru_id run) (safe (ru_id run))"
proof -
  have ex: "triple (live run) (executeRecoveryAction run obs ActionRollbackExchange) (\<lambda>r w. r = run \<and> live run w \<and> restored run (wo_files w)) (safe (ru_id run))"
    unfolding executeRecoveryAction_def PreparedStoreUpgradeAction.case
    by (rule triple_bind [OF triple_Exchange_back [OF assms]], rule triple_ret) simp
  have "triple (\<lambda>w. live run w \<and> restored run (wo_files w)) (execute_all run obs [ActionRecordRollbackSwapped, ActionRecordRolledBack])
      (\<lambda>r w. live r w \<and> ru_id r = ru_id run) (safe (ru_id run))"
    by (rule triple_record_all) (simp_all add: placed_def)
  then show ?thesis
    by (intro triple_execute_Cons [OF ex] triple_pin [where m = "\<lambda>r. execute_all r obs [ActionRecordRollbackSwapped, ActionRecordRolledBack]"])
qed

lemma triple_execute_all:
  assumes "RecoveryActions run obs = Inr actions"
  shows "triple (\<lambda>w. live run w \<and> oriented run obs (wo_files w)) (execute_all run obs actions)
    (\<lambda>r w. live r w \<and> ru_id r = ru_id run) (safe (ru_id run))" (is "triple ?P _ ?Q ?E")
proof -
  have rec: "triple (\<lambda>w. live run w \<and> oriented run obs (wo_files w)) (execute_all run obs actions) ?Q ?E"
    if "list_all (\<lambda>a. a = ActionSyncRecoveredOrientation \<or> (\<exists>p. phaseForPreparedRecoveryAction a = Some p
          \<and> (\<forall>F. oriented run obs F \<longrightarrow> placed p run F))) actions"
    using triple_record_all [of "oriented run obs" run actions run obs] that by simp
  have fails: "triple ?P (execute_all run obs actions) ?Q ?E"
    if "actions = a # as" "a \<in> {ActionRemoveOwnedPartialCandidate, ActionRecordCopyComplete, ActionRecordCopyRetryIntent}" for a as
    using that live_safe by (auto simp: triple_def bindIO_def executeRecoveryAction_def failIO_def)
  have forward: "triple ?P (execute_all run obs [ActionExchange, ActionRecordSwapped]) ?Q ?E" if "ru_phase run = PreparedStoreUpgradeSwapIntent"
    by (rule triple_weaken [OF triple_execute_exchange [OF that]]) simp_all
  have backward: "triple ?P (execute_all run obs [ActionRollbackExchange, ActionRecordRollbackSwapped, ActionRecordRolledBack]) ?Q ?E"
    if "ru_phase run = PreparedStoreUpgradeRollbackSwapIntent"
    by (rule triple_weaken [OF triple_execute_back [OF that]]) simp_all
  show ?thesis
  proof (cases "ob_orientation obs")
    case OrientationSwapped
    then show ?thesis using assms rec
      by (cases "ru_phase run") (auto simp: RecoveryActions_def unsafe_observation_def oriented_def placed_def)
  next
    case OrientationRollbackReady
    then show ?thesis using assms rec backward
      by (cases "ru_phase run") (auto simp: RecoveryActions_def unsafe_observation_def oriented_def placed_def)
  next
    case OrientationRolledBack
    then show ?thesis using assms rec
      by (cases "ru_phase run") (auto simp: RecoveryActions_def unsafe_observation_def oriented_def placed_def)
  next
    case OrientationSourceOriginal
    then show ?thesis using assms rec
      by (cases "ru_phase run") (auto simp: RecoveryActions_def unsafe_observation_def)
  next
    case OrientationCandidateReady
    then show ?thesis using assms rec fails forward
      by (cases "ru_phase run"; cases "ob_candidate_condition obs")
        (auto simp: RecoveryActions_def unsafe_observation_def split: if_splits)
  next
    case NoOrientation
    then show ?thesis using assms by (simp add: RecoveryActions_def unsafe_observation_def)
  qed
qed

section \<open>Operations\<close>

lemma triple_recoverAndPublish: "triple (live run) (recoverAndPublish u run) (\<lambda>_. safe (ru_id run)) (safe (ru_id run))"
proof -
  define ready where "ready = (\<lambda>r w. live r w \<and> ru_id r = ru_id run)"
  have stab: "stable (ready r)" for r unfolding ready_def by (intro stable_live stable_rules)
  have err: "safe (ru_id run) w" if "ready r w" for r w using that live_safe by (metis ready_def)
  have start: "triple (live run) (if ru_phase run = PreparedStoreUpgradeCandidateVerified
      then advance run PreparedStoreUpgradeSwapIntent else retIO run) ready (safe (ru_id run))"
  proof (cases "ru_phase run = PreparedStoreUpgradeCandidateVerified")
    case True
    have "triple (live run) (advance run PreparedStoreUpgradeSwapIntent)
        (\<lambda>r w. (live r w \<and> True) \<and> (\<exists>t. r = run\<lparr>ru_phase := PreparedStoreUpgradeSwapIntent, ru_updated_at := t\<rparr>)) (safe (ru_id run))"
      by (rule triple_weaken [OF triple_advance [OF refl, of run "\<lambda>_. True"]]) (use True in \<open>auto simp: placed_def dest: live_placed\<close>)
    then have "triple (live run) (advance run PreparedStoreUpgradeSwapIntent) ready (safe (ru_id run))"
      by (rule triple_weaken) (auto simp: ready_def)
    then show ?thesis using True by simp
  next
    case False
    then show ?thesis by (simp add: triple_def retIO_def ready_def)
  qed
  have seen: "triple (ready r) (Observe r) (\<lambda>obs w. ready r w \<and> oriented r obs (wo_files w)) (safe (ru_id run))" for r
    by (rule triple_quiet [OF touches_observe(1) stab err]) (auto dest: Observe_oriented)
  have pass: "triple (\<lambda>w. ready r w \<and> oriented r obs (wo_files w)) m (\<lambda>_ w. ready r w \<and> oriented r obs (wo_files w)) (safe (ru_id run))"
    if "touches {} m" for r obs and m :: "'b io"
    by (rule triple_pass [OF that]) (use stab err in \<open>(intro stable_rules | blast)+\<close>)
  have act: "triple (\<lambda>w. ready r w \<and> oriented r obs (wo_files w)) (bindIO (liftIO (RecoveryActions r obs)) (execute_all r obs)) ready (safe (ru_id run))"
    for r obs
  proof (cases "RecoveryActions r obs")
    case (Inl e)
    then show ?thesis by (auto simp: triple_def bindIO_Inl bindIO_Inr liftIO_def dest: err)
  next
    case (Inr actions)
    have "triple (\<lambda>w. ready r w \<and> oriented r obs (wo_files w)) (execute_all r obs actions) ready (safe (ru_id run))"
    proof (cases "ru_id r = ru_id run")
      case True
      show ?thesis
        by (rule triple_weaken [OF triple_execute_all [OF Inr, unfolded True]]) (auto simp: ready_def)
    next
      case False
      then show ?thesis by (intro triple_never) (simp add: ready_def)
    qed
    then show ?thesis using Inr by (simp add: triple_def bindIO_Inl bindIO_Inr liftIO_def)
  qed
  have publish: "triple (ready r) (publishLeased r t) (\<lambda>_. safe (ru_id run)) (safe (ru_id run))" for r t
  proof (cases "ru_id r = ru_id run")
    case True
    have loop: "triple (ready r) (publish_loop r) (\<lambda>r' w. safe (ru_id run) w) (safe (ru_id run))"
      by (rule triple_weaken [OF triple_publish_loop [of r, unfolded True]]) (use live_safe in \<open>auto simp: ready_def dest: live_safe\<close>)
    show ?thesis unfolding publishLeased_def
      by (rule triple_bind [OF loop], rule triple_pass, intro quiet, rule stable_safe) assumption
  next
    case False
    then show ?thesis by (intro triple_never) (simp add: ready_def)
  qed
  have unfold: "recoverAndPublish u run = bindIO (if ru_phase run = PreparedStoreUpgradeCandidateVerified
        then advance run PreparedStoreUpgradeSwapIntent else retIO run) (\<lambda>run1.
      bindIO (acquireExclusiveSkippingIfHeld u) (\<lambda>_. bindIO nowIO (\<lambda>t. bindIO (Observe run1) (\<lambda>obs.
      bindIO (if ru_phase run1 = PreparedStoreUpgradeSwapIntent \<and> ob_orientation obs = OrientationCandidateReady
              then RecheckForPublish run1 else retIO ()) (\<lambda>_.
      bindIO (bindIO (liftIO (RecoveryActions run1 obs)) (execute_all run1 obs)) (\<lambda>run2. publishLeased run2 t))))))"
    unfolding recoverAndPublish_def by (simp add: fun_eq_iff bindIO_def split: prod.splits sum.splits)
  show ?thesis unfolding unfold
    by (rule triple_bind [OF start], rule triple_bind [OF triple_pass [OF touches_load(3) stab err]], assumption,
        rule triple_bind [OF triple_pass [OF touches_basic(6) stab err]], assumption, rule triple_bind [OF seen],
        rule triple_bind [OF pass], intro quiet, rule triple_bind [OF act publish])
qed

lemma stored_undated: "undated run \<Longrightarrow> stored_run run = run"
proof -
  have "mono t = None \<Longrightarrow> round0 t = t" for t by (cases t) (simp add: round0_def)
  then show "undated run \<Longrightarrow> stored_run run = run" by (simp add: undated_def stored_run_def)
qed

lemma load_live:
  assumes "load u i w = (Inr run, w')" "safe i w" shows "live run w' \<and> ru_id run = i"
proof -
  obtain v where l: "Load i w = (Inr run, v)"
    using assms(1) by (auto simp: load_def bindIO_Inr retIO_def)
  note r = Load_Inr [OF l]
  have same: "wo_files w' = wo_files w" "wo_journals w' = wo_journals w"
    using touches_load(1) [of "{}" u i] assms(1) by (auto simp: touches_def fun_eq_iff) (metis snd_conv)+
  have ok: "ru_id run = i" "record_ok run (wo_files w)" using assms(2) r by (simp_all add: safe_def)
  have "stored_run run = run" using ok(2) stored_undated by (simp add: record_ok_def)
  then show ?thesis using r ok same last_record_cong [OF same(2)] by (simp add: live_def untorn_def)
qed

lemma triple_load:
  assumes "\<And>run. ru_id run = i \<Longrightarrow> triple (live run) (k run) (\<lambda>_. safe i) (safe i)"
  shows "triple (safe i) (bindIO (load u i) k) (\<lambda>_. safe i) (safe i)"
proof (rule triple_bind [where Q = "\<lambda>run w. live run w \<and> ru_id run = i"])
  show "triple (safe i) (load u i) (\<lambda>run w. live run w \<and> ru_id run = i) (safe i)"
  proof (rule tripleI)
    fix w e w' assume w: "safe i w" "load u i w = (Inl e, w')"
    have "wo_files w' = wo_files w" "wo_journals w' = wo_journals w"
      using touches_load(1) [of "{}" u i] w(2) by (auto simp: touches_def fun_eq_iff) (metis snd_conv)+
    then show "safe i w'" using w(1) safe_cong by blast
  qed (use load_live in blast)
  show "triple (\<lambda>w. live run w \<and> ru_id run = i) (k run) (\<lambda>_. safe i) (safe i)" for run
    using assms [of run] by (cases "ru_id run = i") (auto simp: triple_def)
qed

definition recipes_ok :: "Upgrade \<Rightarrow> bool" where
  "recipes_ok u \<longleftrightarrow> (\<forall>p rc. up_recipes u p = Some rc \<longrightarrow> recipe_ok rc)"

lemma triple_with_recipe:
  assumes "recipes_ok u" "\<And>rc. recipe_ok rc \<Longrightarrow> triple (live run) (k rc) Q (safe (ru_id run))"
  shows "triple (live run) (bindIO (recipe_for u p) k) Q (safe (ru_id run))"
proof (cases "up_recipes u p")
  case None
  then show ?thesis using live_safe by (auto simp: triple_def recipe_for_def bindIO_Inl bindIO_Inr failIO_def)
next
  case (Some rc)
  then have "triple (live run) (k rc) Q (safe (ru_id run))" using assms by (auto simp: recipes_ok_def)
  then show ?thesis using Some by (simp add: triple_def recipe_for_def bindIO_Inl bindIO_Inr retIO_def)
qed

lemma triple_fixed:
  assumes "\<And>r. b r \<Longrightarrow> triple (P r) (k r) Q E" "\<And>r w. R r w \<Longrightarrow> P r w \<and> b r"
  shows "triple (R r) (k r) Q E"
proof (rule tripleI)
  show "E w'" if "R r w" "k r w = (Inl e, w')" for w e w'
    using assms(2) [OF that(1)] tripleD2 [OF assms(1) _ that(2)] by blast
  show "Q x w'" if "R r w" "k r w = (Inr x, w')" for w x w'
    using assms(2) [OF that(1)] tripleD1 [OF assms(1) _ that(2)] by blast
qed

lemma triple_recovery_action:
  assumes "preparing (ru_phase run)"
  shows "triple (live run) (recovery_action u obs run a) (\<lambda>r w. live r w \<and> ru_id r = ru_id run \<and> preparing (ru_phase r)) (safe (ru_id run))"
proof (rule triple_by_paths)
  assume p: "paths_ok run"
  have adv: "triple (live run) (advance run q) (\<lambda>r w. live r w \<and> ru_id r = ru_id run \<and> preparing (ru_phase r)) (safe (ru_id run))"
    if "preparing q" for q
  proof (rule tripleI)
    note t = triple_prep_advance [OF that refl refl refl refl assms]
    show "safe (ru_id run) w'" if "live run w" "advance run q w = (Inl e, w')" for w e w'
      by (rule tripleD2 [OF t that])
    show "live r w' \<and> ru_id r = ru_id run \<and> preparing (ru_phase r)" if a: "live run w" "advance run q w = (Inr r, w')" for w r w'
      using tripleD1 [OF t a] advance_id [OF a(2)] advance_phase [OF a(2)] \<open>preparing q\<close> by simp
  qed
  have remove: "triple (live run) (bindIO (Recheck b run) (\<lambda>_. bindIO (RemoveOwnedPartialCandidate run obs) (\<lambda>_. retIO run)))
      (\<lambda>r w. live r w \<and> ru_id r = ru_id run \<and> preparing (ru_phase r)) (safe (ru_id run))" for b
    by (rule triple_prep_then [OF touches_recheck [OF p] assms], rule triple_prep_then [OF touches_candidate(2) [OF p] assms], rule triple_ret)
      (use assms in simp)
  have no: "triple (live run) (failIO e) Q (safe (ru_id run))" for e Q by (rule triple_fail) (rule live_safe)
  show ?thesis using adv remove no by (cases a) (simp_all add: recovery_action_def preparing_def)
qed

lemma triple_recovery_actions:
  assumes "preparing (ru_phase run)"
  shows "triple (live run) (recovery_actions u obs run as) (\<lambda>r w. live r w \<and> ru_id r = ru_id run) (safe (ru_id run))"
  using assms
proof (induction as arbitrary: run)
  case Nil
  show ?case unfolding recovery_actions.simps by (rule triple_ret) blast
next
  case (Cons a as)
  have rest: "triple (\<lambda>w. live r w \<and> ru_id r = ru_id run \<and> preparing (ru_phase r)) (recovery_actions u obs r as)
      (\<lambda>r w. live r w \<and> ru_id r = ru_id run) (safe (ru_id run))" for r
  proof (rule triple_fixed [where b = "\<lambda>r. ru_id r = ru_id run \<and> preparing (ru_phase r)" and P = live])
    fix r :: PreparedStoreUpgradeRun assume r: "ru_id r = ru_id run \<and> preparing (ru_phase r)"
    show "triple (live r) (recovery_actions u obs r as) (\<lambda>r w. live r w \<and> ru_id r = ru_id run) (safe (ru_id run))"
      by (rule Cons.IH [of r, unfolded conjunct1 [OF r]]) (rule conjunct2 [OF r])
  qed blast
  show ?case unfolding recovery_actions.simps by (rule triple_bind [OF triple_recovery_action [OF Cons.prems] rest])
qed

lemma triple_recoverPreparation:
  assumes "recipes_ok u" "preparing (ru_phase run)"
  shows "triple (live run) (recoverPreparation u run) (\<lambda>r w. live r w \<and> ru_id r = ru_id run) (safe (ru_id run))"
proof -
  have classify: "triple (live run) (if ru_phase run = PreparedStoreUpgradeCandidatePrepared \<and> ob_orientation o0 = OrientationCandidateReady
      then bindIO (recipe_for u (ru_operation run)) (\<lambda>rc. bindIO (rc_classify rc run o0) (\<lambda>c. retIO (o0\<lparr>ob_candidate_condition := c\<rparr>)))
      else retIO o0) (\<lambda>_. live run) (safe (ru_id run))" for o0
  proof -
    have "triple (live run) (bindIO (recipe_for u (ru_operation run)) (\<lambda>rc. bindIO (rc_classify rc run o0) (\<lambda>c. retIO (o0\<lparr>ob_candidate_condition := c\<rparr>))))
        (\<lambda>_. live run) (safe (ru_id run))"
    proof (rule triple_with_recipe [OF assms(1)])
      fix rc assume "recipe_ok rc"
      then have t: "touches (elsewhere run) (rc_classify rc run o0)" by (simp add: recipe_ok_def)
      show "triple (live run) (bindIO (rc_classify rc run o0) (\<lambda>c. retIO (o0\<lparr>ob_candidate_condition := c\<rparr>))) (\<lambda>_. live run) (safe (ru_id run))"
        by (rule triple_prep_then [OF t assms(2)], rule triple_ret)
    qed
    moreover have "triple (live run) (retIO o0) (\<lambda>_. live run) (safe (ru_id run))" by (rule triple_ret)
    ultimately show ?thesis by simp
  qed
  have actions: "triple (live run) (bindIO (liftIO (RecoveryActions run obs)) (recovery_actions u obs run))
      (\<lambda>r w. live r w \<and> ru_id r = ru_id run) (safe (ru_id run))" for obs
    by (rule triple_bind [where Q = "\<lambda>_. live run"], rule triple_pass [OF touches_basic(3) stable_live live_safe],
        assumption, rule triple_recovery_actions [OF assms(2)])
  show ?thesis unfolding recoverPreparation_def
    by (rule triple_bind [where Q = "\<lambda>_. live run"], rule triple_pass [OF touches_observe(1) stable_live live_safe], assumption,
        rule triple_bind [where Q = "\<lambda>_. live run"], rule classify, rule actions)
qed

lemma isPreparationPhase_preparing: "isPreparationPhase p \<Longrightarrow> preparing p"
  by (cases p) (simp_all add: isPreparationPhase_def preparing_def)

lemma triple_same_id:
  assumes "\<And>run. ru_id run = i \<Longrightarrow> triple (live run) (k run) Q (safe i)"
  shows "triple (\<lambda>w. live r w \<and> ru_id r = i) (k r) Q (safe i)"
  by (rule triple_fixed [where b = "\<lambda>r. ru_id r = i" and P = live]) (rule assms, assumption)+

lemma triple_with_prepare:
  assumes "recipes_ok u" "ru_id run = i"
  shows "triple (live run) (bindIO (recipe_for u (ru_operation run)) (\<lambda>rc. prepare u rc run)) (\<lambda>r w. live r w \<and> ru_id r = i) (safe i)"
  unfolding assms(2) [symmetric]
proof (rule triple_with_recipe [OF assms(1)])
  fix rc assume rc: "recipe_ok rc"
  show "triple (live run) (prepare u rc run) (\<lambda>r w. live r w \<and> ru_id r = ru_id run) (safe (ru_id run))"
    by (rule triple_weaken [OF triple_prepare [OF rc]]) blast+
qed

lemma triple_finish:
  assumes "recipes_ok u" "ru_id run = i"
  shows "triple (live run) (finish u run) (\<lambda>_. safe i) (safe i)"
proof -
  have ready: "triple (live run) (if isPreparationPhase (ru_phase run)
      then bindIO (recoverPreparation u run) (\<lambda>run1. bindIO (recipe_for u (ru_operation run1)) (\<lambda>rc. prepare u rc run1))
      else retIO run) (\<lambda>r w. live r w \<and> ru_id r = ru_id run) (safe (ru_id run))"
  proof (cases "isPreparationPhase (ru_phase run)")
    case True
    have "triple (live run) (bindIO (recoverPreparation u run) (\<lambda>run1. bindIO (recipe_for u (ru_operation run1)) (\<lambda>rc. prepare u rc run1)))
        (\<lambda>r w. live r w \<and> ru_id r = ru_id run) (safe (ru_id run))"
      by (rule triple_bind [OF triple_recoverPreparation [OF assms(1) isPreparationPhase_preparing [OF True]]],
          rule triple_same_id, rule triple_with_prepare [OF assms(1)], assumption)
    then show ?thesis unfolding if_P [OF True] .
  next
    case False
    show ?thesis unfolding if_not_P [OF False] by (rule triple_ret) blast
  qed
  have publish: "triple (live r) (recoverAndPublish u r) (\<lambda>_. safe (ru_id run)) (safe (ru_id run))" if "ru_id r = ru_id run" for r
    by (rule triple_recoverAndPublish [of r, unfolded that])
  show ?thesis unfolding finish_def assms(2) [symmetric]
    by (rule triple_bind [OF ready], rule triple_same_id, rule publish, assumption)
qed

lemma triple_Resume: "recipes_ok u \<Longrightarrow> triple (safe i) (Resume u i) (\<lambda>_. safe i) (safe i)"
  unfolding Resume_def by (rule triple_load, rule triple_finish)

lemma triple_Prepare: "recipes_ok u \<Longrightarrow> triple (safe i) (Prepare u i) (\<lambda>_. safe i) (safe i)"
proof -
  assume u: "recipes_ok u"
  have "triple (live run) (bindIO (recipe_for u (ru_operation run)) (\<lambda>rc. prepare u rc run)) (\<lambda>_. safe i) (safe i)"
    if "ru_id run = i" for run
    by (rule triple_weaken [OF triple_with_prepare [OF u that]]) (blast dest: live_safe)+
  then show ?thesis unfolding Prepare_def by (rule triple_load)
qed

lemma triple_Publish: "triple (safe i) (Publish u i) (\<lambda>_. safe i) (safe i)"
proof -
  have "triple (live run) (bindIO (refuse b msg) (\<lambda>_. recoverAndPublish u run)) (\<lambda>_. safe i) (safe i)" if "ru_id run = i" for run b msg
    unfolding that [symmetric]
    by (rule triple_bind [where Q = "\<lambda>_. live run"], rule triple_pass [OF touches_basic(7) stable_live live_safe], assumption,
        rule triple_recoverAndPublish)
  then show ?thesis unfolding Publish_def by (rule triple_load)
qed

lemma triple_recover:
  assumes "\<And>r. ru_id r = ru_id run \<Longrightarrow> triple (live r) (k r) Q (safe (ru_id run))"
  shows "triple (live run) (bindIO (Observe run) (\<lambda>obs. bindIO (liftIO (RecoveryActions run obs)) (\<lambda>actions.
           bindIO (execute_all run obs actions) k))) Q (safe (ru_id run))"
proof (rule triple_bind [OF triple_observe])
  fix obs
  let ?P = "\<lambda>w. live run w \<and> oriented run obs (wo_files w)"
  have safe: "safe (ru_id run) w" if "?P w" for w using that live_safe by blast
  have step: "triple ?P (liftIO (RecoveryActions run obs)) (\<lambda>as w. ?P w \<and> RecoveryActions run obs = Inr as) (safe (ru_id run))"
    by (rule triple_lift) (use safe in blast)+
  have act: "triple (\<lambda>w. ?P w \<and> RecoveryActions run obs = Inr as) (bindIO (execute_all run obs as) k) Q (safe (ru_id run))" for as
  proof (rule triple_fixed [where b = "\<lambda>as. RecoveryActions run obs = Inr as" and P = "\<lambda>_. ?P"])
    show "triple ?P (bindIO (execute_all run obs as) k) Q (safe (ru_id run))" if "RecoveryActions run obs = Inr as" for as
      by (rule triple_bind [OF triple_execute_all [OF that]], rule triple_same_id, rule assms)
  qed blast
  show "triple ?P (bindIO (liftIO (RecoveryActions run obs)) (\<lambda>actions. bindIO (execute_all run obs actions) k)) Q (safe (ru_id run))"
    by (rule triple_bind [OF step act])
qed

lemma triple_Rollback: "triple (safe i) (Rollback u i) (\<lambda>_. safe i) (safe i)"
proof -
  have loop: "triple (live r) (rollback_loop r) (\<lambda>_. safe j) (safe j)" if "ru_id r = j" for r j
    unfolding that [symmetric] by (rule triple_weaken [OF triple_rollback_loop]) (auto dest: live_safe)
  have rest: "triple (live run1) (bindIO (acquireExclusiveSkippingIfHeld u) (\<lambda>_. bindIO (Observe run1) (\<lambda>obs.
      bindIO (liftIO (RecoveryActions run1 obs)) (\<lambda>actions. bindIO (execute_all run1 obs actions) rollback_loop)))) (\<lambda>_. safe j) (safe j)"
    if "ru_id run1 = j" for run1 j
    unfolding that [symmetric]
    by (rule triple_bind [where Q = "\<lambda>_. live run1"], rule triple_pass [OF touches_load(3) stable_live live_safe], assumption,
        rule triple_recover, rule loop)
  have start: "triple (live run) (if ru_phase run = PreparedStoreUpgradeRollbackReady \<or> ru_phase run = PreparedStoreUpgradeCommitted
             then if ru_operation run = PreparedStoreUpgradeOperationOfflineMigrationUpgrade \<and> ru_phase run = PreparedStoreUpgradeCommitted
                  then failIO e else advance run PreparedStoreUpgradeRollbackSwapIntent
             else retIO run) (\<lambda>r w. live r w \<and> ru_id r = ru_id run) (safe (ru_id run))" for run e
  proof -
    have adv: "triple (live run) (advance run PreparedStoreUpgradeRollbackSwapIntent) (\<lambda>r w. live r w \<and> ru_id r = ru_id run) (safe (ru_id run))"
      if ph: "ru_phase run = PreparedStoreUpgradeRollbackReady \<or> ru_phase run = PreparedStoreUpgradeCommitted"
    proof (rule tripleI)
      have t: "triple (live run) (advance run PreparedStoreUpgradeRollbackSwapIntent) live (safe (ru_id run))"
        by (rule triple_adv) (use ph live_placed [of run] in \<open>auto simp: placed_def\<close>)
      show "safe (ru_id run) w'" if "live run w" "advance run PreparedStoreUpgradeRollbackSwapIntent w = (Inl e, w')" for w e w'
        by (rule tripleD2 [OF t that])
      show "live r w' \<and> ru_id r = ru_id run" if "live run w" "advance run PreparedStoreUpgradeRollbackSwapIntent w = (Inr r, w')" for w r w'
        using tripleD1 [OF t that] advance_id [OF that(2)] by blast
    qed
    have keep: "triple (live run) (retIO run) (\<lambda>r w. live r w \<and> ru_id r = ru_id run) (safe (ru_id run))"
      by (rule triple_ret) blast
    have no: "triple (live run) (failIO e) (\<lambda>r w. live r w \<and> ru_id r = ru_id run) (safe (ru_id run))"
      by (rule triple_fail) (rule live_safe)
    show ?thesis using adv keep no by (simp split: if_splits)
  qed
  have body: "triple (live run) (bindIO (if ru_phase run = PreparedStoreUpgradeRollbackReady \<or> ru_phase run = PreparedStoreUpgradeCommitted
             then if ru_operation run = PreparedStoreUpgradeOperationOfflineMigrationUpgrade \<and> ru_phase run = PreparedStoreUpgradeCommitted
                  then failIO e else advance run PreparedStoreUpgradeRollbackSwapIntent
             else retIO run) (\<lambda>run1. bindIO (acquireExclusiveSkippingIfHeld u) (\<lambda>_. bindIO (Observe run1) (\<lambda>obs.
      bindIO (liftIO (RecoveryActions run1 obs)) (\<lambda>actions. bindIO (execute_all run1 obs actions) rollback_loop))))) (\<lambda>_. safe i) (safe i)"
    if "ru_id run = i" for run e
    unfolding that [symmetric]
    by (rule triple_bind [OF start], rule triple_same_id, rule rest)
  show ?thesis unfolding Rollback_def by (rule triple_load, rule body)
qed

end
