(* ===== verification/Upgrade_Machine.thy ===== *)
theory Upgrade_Machine
  imports Upgrade_Safety
begin

text \<open>
  Planning a prepared upgrade, the operations and failures of a run as a transition system, and the
  properties of the protocol.
\<close>

section \<open>Planning\<close>

definition fresh :: "string \<Rightarrow> World \<Rightarrow> bool" where
  "fresh i w \<longleftrightarrow> map_of (wo_journals w) i = None"

definition unrecorded :: "string \<Rightarrow> World \<Rightarrow> bool" where
  "unrecorded i w \<longleftrightarrow> last_record i w = None \<or> safe i w"

definition vacant :: "PreparedStoreUpgradeRun \<Rightarrow> World \<Rightarrow> bool" where
  "vacant run w \<longleftrightarrow> fresh (ru_id run) w \<and> wo_files w (ru_rollback_path run) = None"

lemma fresh_unrecorded: "fresh i w \<Longrightarrow> unrecorded i w"
  by (simp add: fresh_def unrecorded_def last_record_def)

lemma vacant_unrecorded: "vacant run w \<Longrightarrow> unrecorded (ru_id run) w"
  by (simp add: vacant_def fresh_unrecorded)

lemma stable_fresh [intro]: "stable (fresh i)" "stable (vacant run)"
  by (simp_all add: stable_def fresh_def vacant_def)

lemma triple_fresh: "touches S m \<Longrightarrow> triple (fresh i) m (\<lambda>_. fresh i) (unrecorded i)"
  by (rule tripleI) (metis fresh_def fresh_unrecorded snd_conv touches_def)+

lemma triple_vacant: "touches (elsewhere run) m \<Longrightarrow> triple (vacant run) m (\<lambda>_. vacant run) (unrecorded (ru_id run))"
proof -
  assume t: "touches (elsewhere run) m"
  have keep: "vacant run w'" if "vacant run w" "m w = (r, w')" for w r w'
    using t that by (simp add: touches_def vacant_def fresh_def elsewhere_def) (metis snd_conv)
  show ?thesis by (rule tripleI) (use keep vacant_unrecorded in blast)+
qed

lemma triple_vacate:
  assumes "ru_id run = i" shows "triple (fresh i) (distinct_output (ru_rollback_path run)) (\<lambda>_. vacant run) (unrecorded i)"
proof (rule triple_quiet)
  show "touches {} (distinct_output (ru_rollback_path run))" unfolding distinct_output_def by (intro quiet)
  fix w x w' assume "fresh i w'" "distinct_output (ru_rollback_path run) w = (Inr x, w')" "wo_files w' = wo_files w"
  then show "vacant run w'" using assms
    by (auto simp: distinct_output_def bindIO_Inr getIO_def refuse_def retIO_def failIO_def vacant_def dest!: stepIO_same split: if_splits)
qed (use fresh_unrecorded in blast)+

definition planned_as :: "PreparedStoreUpgradeRun \<Rightarrow> PreparedStoreUpgradeRun \<Rightarrow> World \<Rightarrow> bool" where
  "planned_as run planned w \<longleftrightarrow> vacant run w \<and>
     (\<exists>i d rs. planned = run\<lparr>ru_source_identity := i, ru_source_digest := d, ru_resources := rs\<rparr>
        \<and> holds_file (wo_files w) (ru_source_path run) i)"

lemma plan_resources_Inr:
  "plan_resources b run i w = (Inr planned, w') \<Longrightarrow> \<exists>d rs. planned = run\<lparr>ru_source_identity := i, ru_source_digest := d, ru_resources := rs\<rparr>"
  by (auto simp: plan_resources_def bindIO_Inr retIO_def split: prod.splits)

lemma touches_plan_resources: "touches S (plan_resources b run i)"
  unfolding plan_resources_def by (intro quiet)

lemma triple_plan_resources:
  "triple (\<lambda>w. vacant run w \<and> holds_file (wo_files w) (ru_source_path run) i) (plan_resources b run i) (planned_as run) (unrecorded (ru_id run))"
proof (rule triple_quiet [OF touches_plan_resources])
  show "stable (\<lambda>w. vacant run w \<and> holds_file (wo_files w) (ru_source_path run) i)"
    by (rule stable_rules(2) [OF stable_fresh(2) stable_rules(1)])
  show "planned_as run x w'" if "vacant run w' \<and> holds_file (wo_files w') (ru_source_path run) i" "plan_resources b run i w = (Inr x, w')" for w x w'
    using plan_resources_Inr [OF that(2)] that(1) unfolding planned_as_def by blast
qed (use vacant_unrecorded in blast)

lemma triple_PlanFiles:
  assumes "paths_ok run"
  shows "triple (fresh (ru_id run)) (PlanFiles b run) (planned_as run) (unrecorded (ru_id run))"
proof -
  have d: "touches {} (distinct_output p)" for p unfolding distinct_output_def by (intro quiet)
  have i: "triple (vacant run) (inspectRegularFile (ru_source_path run))
      (\<lambda>i w. vacant run w \<and> holds_file (wo_files w) (ru_source_path run) i) (unrecorded (ru_id run))"
    by (rule triple_inspect [OF stable_fresh(2) vacant_unrecorded])
  show ?thesis unfolding PlanFiles_def
    by (rule triple_bind [OF triple_fresh [OF touches_basic(5)]], rule triple_bind [OF triple_fresh [OF touches_basic(7)]],
        rule triple_bind [OF triple_fresh [OF d]], rule triple_bind [OF triple_vacate [OF refl]],
        rule triple_bind [OF triple_vacant [OF touches_inspect(3)]], rule triple_bind [OF triple_vacant [OF touches_sidecars [OF assms]]],
        rule triple_bind [OF i triple_plan_resources])
qed

lemma initial_stored:
  assumes "validateInitialRun r = Inr ()" "ru_updated_at r = ru_created_at r"
  shows "validateInitialRun (stored_run r) = Inr ()"
proof -
  have d: "ru_updated_at (stored_run r) = round0 (ru_updated_at r)" "ru_created_at (stored_run r) = round0 (ru_created_at r)"
    by (simp_all add: stored_run_def)
  show ?thesis using assms(1) unfolding validateInitialRun_def checks_Inr stored_run_fields d
    by (simp add: assms(2))
qed

lemma triple_create_record:
  assumes "paths_ok run" "ru_updated_at run = ru_created_at run" "validateInitialRun run = Inr ()"
  shows "triple (\<lambda>w. fresh (ru_id run) w \<and> in_place run (wo_files w)) (write_record run) (\<lambda>_. live run) (unrecorded (ru_id run))"
proof -
  have main: "unrecorded (ru_id run) w' \<and> (res = Inr () \<longrightarrow> live run w')"
    if pre: "fresh (ru_id run) w" "in_place run (wo_files w)" and wr: "write_record run w = (res, w')" for w res w'
  proof -
    define v where "v = snd (pop_fault w)"
    have v: "wo_files v = wo_files w" "wo_journals v = wo_journals w"
      by (simp_all add: v_def pop_fault_def split: list.splits)
    define new where "new = v\<lparr>wo_journals := AList.update (ru_id run) \<lparr>jr_records = [stored_run run], jr_torn = False\<rparr> (wo_journals w)\<rparr>"
    define torn where "torn = v\<lparr>wo_journals := AList.update (ru_id run) \<lparr>jr_records = [], jr_torn = True\<rparr> (wo_journals w)\<rparr>"
    have ph: "ru_phase run = PreparedStoreUpgradePlanned"
      using assms(3) unfolding validateInitialRun_def checks_Inr by simp
    have "live run new"
      using initial_stored [OF assms(3,2)] pre(2) assms(1) ph v
      by (simp add: live_def new_def last_record_def untorn_def update_conv' record_ok_def placed_def andThen_def)
    moreover have "last_record (ru_id run) torn = None"
      by (simp add: torn_def last_record_def update_conv')
    moreover have "fresh (ru_id run) v" using pre(1) v by (simp add: fresh_def)
    moreover have "(res, w') = (case fst (pop_fault w) of Fine \<Rightarrow> (Inr (), new) | FailAfter \<Rightarrow> (Inl IOFailed, new)
                       | Torn \<Rightarrow> (Inl IOFailed, torn) | FailBefore \<Rightarrow> (Inl IOFailed, v))"
      using wr pre(1) v by (simp add: write_record_def new_def torn_def v_def Let_def fresh_def split: prod.splits fault.splits)
    ultimately show ?thesis using live_safe [of run new] fresh_unrecorded
      by (auto simp: unrecorded_def split: fault.splits)
  qed
  show ?thesis by (rule tripleI) (use main in \<open>auto dest: meta_spec\<close>)
qed

lemma triple_Create:
  assumes "paths_ok run" "ru_updated_at run = ru_created_at run"
  shows "triple (\<lambda>w. fresh (ru_id run) w \<and> in_place run (wo_files w)) (Create run) (\<lambda>_. live run) (unrecorded (ru_id run))"
    (is "triple ?P _ _ _")
proof -
  have st: "stable ?P" by (rule stable_rules(2) [OF stable_fresh(1) stable_rules(1)])
  have e: "unrecorded (ru_id run) w" if "?P w" for w using that fresh_unrecorded by blast
  let ?V = "\<lambda>w. ?P w \<and> validateInitialRun run = Inr ()"
  have sv: "stable ?V" by (rule stable_rules(2) [OF st stable_rules(3)])
  have ev: "unrecorded (ru_id run) w" if "?V w" for w using that e by blast
  have valid: "triple ?P (liftIO (validateInitialRun run)) (\<lambda>_. ?V) (unrecorded (ru_id run))"
    by (rule triple_lift) (use e in auto)
  have written: "triple ?V (write_record run) (\<lambda>_. live run) (unrecorded (ru_id run))"
  proof (cases "validateInitialRun run = Inr ()")
    case True
    show ?thesis by (rule triple_weaken [OF triple_create_record [OF assms True]]) blast+
  next
    case False
    then show ?thesis by (intro triple_never) blast
  qed
  show ?thesis unfolding Create_def
    by (rule triple_bind [OF triple_pass [OF touches_basic(5) st e]], assumption,
        rule triple_bind [OF triple_pass [OF touches_basic(3) st e]], assumption,
        rule triple_bind [OF valid], rule triple_bind [OF triple_pass [OF touches_basic(5) sv ev]], assumption,
        rule triple_bind [OF triple_pass [OF touches_basic(4) sv ev]], assumption,
        rule triple_bind [OF triple_pass [OF touches_basic(7) sv ev]], assumption, rule written)
qed

lemma planned_paths: "paths_ok (planned_run c i t)"
  by (simp add: planned_run_def paths_ok_def ownedCandidatePath_def ownedRollbackPath_def Let_def)

lemma planned_fields [simp]:
  "ru_id (planned_run c i t) = i" "ru_updated_at (planned_run c i t) = t" "ru_created_at (planned_run c i t) = t"
  by (simp_all add: planned_run_def Let_def)

lemma same_approval: "\<exists>a. (x :: PreparedStoreUpgradeRun) = x\<lparr>ru_unavailable_retention_approval := a\<rparr>"
  by (rule exI [of _ "ru_unavailable_retention_approval x"]) simp

lemma triple_PlanUpgrade:
  assumes u: "recipes_ok u" and i: "hex_encode idBytes = i"
  shows "triple (fresh i) (PlanUpgrade u idBytes c) (\<lambda>run w. live run w \<and> ru_id run = i) (unrecorded i)"
proof -
  have files: "triple (fresh i) (bindIO (rc_plan rc run) (\<lambda>d. bindIO (PlanFiles b (run\<lparr>ru_plan_digest := d\<rparr>)) k)) Q (unrecorded i)"
    if rc: "recipe_ok rc" and p: "paths_ok run" "ru_id run = i"
      and k: "\<And>r planned. paths_ok r \<Longrightarrow> ru_id r = i \<Longrightarrow> ru_updated_at r = ru_updated_at run \<Longrightarrow> ru_created_at r = ru_created_at run \<Longrightarrow>
                triple (planned_as r planned) (k planned) Q (unrecorded i)" for rc run b k and Q :: "PreparedStoreUpgradeRun \<Rightarrow> World \<Rightarrow> bool"
  proof (rule triple_bind)
    show "triple (fresh i) (rc_plan rc run) (\<lambda>_. fresh i) (unrecorded i)"
      by (rule triple_fresh) (use rc in \<open>simp add: recipe_ok_def; blast\<close>)
    fix d
    have r: "paths_ok (run\<lparr>ru_plan_digest := d\<rparr>)" "ru_id (run\<lparr>ru_plan_digest := d\<rparr>) = i"
      using p by (simp_all add: paths_ok_def ownedCandidatePath_def ownedRollbackPath_def)
    show "triple (fresh i) (bindIO (PlanFiles b (run\<lparr>ru_plan_digest := d\<rparr>)) k) Q (unrecorded i)"
      by (rule triple_bind [OF triple_PlanFiles [OF r(1), of b, unfolded r(2)]], rule k [OF r]) simp_all
  qed
  have create: "triple (planned_as r planned) (bindIO (Create (f planned)) (\<lambda>_. retIO (f planned)))
      (\<lambda>run w. live run w \<and> ru_id run = i) (unrecorded i)"
    if r: "paths_ok r" "ru_id r = i" "ru_updated_at r = ru_created_at r"
      and f: "\<And>x. \<exists>a. f x = x\<lparr>ru_unavailable_retention_approval := a\<rparr>" for r planned f
  proof (cases "\<exists>j d rs. planned = r\<lparr>ru_source_identity := j, ru_source_digest := d, ru_resources := rs\<rparr>")
    case True
    obtain a where a: "f planned = planned\<lparr>ru_unavailable_retention_approval := a\<rparr>" using f by blast
    have g: "paths_ok (f planned)" "ru_updated_at (f planned) = ru_created_at (f planned)" "ru_id (f planned) = i"
      using True r a by (auto simp: paths_ok_def ownedCandidatePath_def ownedRollbackPath_def)
    have pre: "fresh i w \<and> in_place (f planned) (wo_files w)" if "planned_as r planned w" for w
      using that r(2) by (auto simp: a planned_as_def vacant_def in_place_def intro: holds_file_inode)
    have t: "triple (planned_as r planned) (Create (f planned)) (\<lambda>_ w. live (f planned) w) (unrecorded i)"
      by (rule triple_weaken [OF triple_Create [OF g(1,2), unfolded g(3)]]) (use pre in blast)+
    show ?thesis by (rule triple_bind [OF t], rule triple_ret) (use g(3) in blast)
  next
    case False
    then show ?thesis by (intro triple_never) (auto simp: planned_as_def)
  qed
  have recipe: "triple (fresh i) (bindIO (recipe_for u p) k) Q (unrecorded i)"
    if "\<And>rc. recipe_ok rc \<Longrightarrow> triple (fresh i) (k rc) Q (unrecorded i)" for p k and Q :: "PreparedStoreUpgradeRun \<Rightarrow> World \<Rightarrow> bool"
  proof (rule triple_bind [where Q = "\<lambda>rc w. fresh i w \<and> recipe_ok rc"])
    show "triple (fresh i) (recipe_for u p) (\<lambda>rc w. fresh i w \<and> recipe_ok rc) (unrecorded i)"
      using u fresh_unrecorded [of i]
      by (auto simp: triple_def recipe_for_def failIO_def retIO_def recipes_ok_def split: option.splits)
    show "triple (\<lambda>w. fresh i w \<and> recipe_ok rc) (k rc) Q (unrecorded i)" for rc
      by (rule triple_fixed [where b = recipe_ok and P = "\<lambda>_. fresh i"]) (use that in blast)+
  qed
  show ?thesis unfolding PlanUpgrade_def Let_def i
    by (rule triple_bind [OF triple_fresh [OF touches_basic(7)]], rule triple_bind [OF triple_fresh [OF touches_basic(5)]],
        rule triple_bind [OF triple_fresh [OF touches_basic(6)]], rule recipe, rule files [OF _ planned_paths], assumption, simp,
        rule create [where f = "\<lambda>planned. case cm_unavailable_retention_approval c of None \<Rightarrow> planned
          | Some a \<Rightarrow> planned\<lparr>ru_unavailable_retention_approval := Some (Bind a (ru_id planned) (ru_source_identity planned))\<rparr>"])
      (auto split: option.split intro: same_approval)
qed

section \<open>Operations, failures and the rest of the system\<close>

text \<open>
  A run is planned under an identifier that has no journal. Afterwards its operations run in any order, each
  to its result or to a failure at any step, and the rest of the system may change the disk between them: it
  leaves the journal of the run and its two private files alone, and writes the store in place, which keeps
  the inode at the source path.
\<close>

definition planned_world :: "string \<Rightarrow> World \<Rightarrow> bool" where
  "planned_world i w \<longleftrightarrow> last_record i w \<noteq> None \<and>
     (\<exists>u idBytes c w0. recipes_ok u \<and> hex_encode idBytes = i \<and> map_of (wo_journals w0) i = None
        \<and> w = snd (PlanUpgrade u idBytes c w0))"

definition keeps_private :: "string \<Rightarrow> World \<Rightarrow> World \<Rightarrow> bool" where
  "keeps_private i w w' \<longleftrightarrow>
     map_of (wo_journals w') i = map_of (wo_journals w) i
     \<and> (case last_record i w of
          None \<Rightarrow> True
        | Some r \<Rightarrow> wo_files w' (ru_candidate_path r) = wo_files w (ru_candidate_path r)
            \<and> wo_files w' (ru_rollback_path r) = wo_files w (ru_rollback_path r)
            \<and> map_option (\<lambda>f. inode_key (df_identity f)) (wo_files w' (ru_source_path r))
              = map_option (\<lambda>f. inode_key (df_identity f)) (wo_files w (ru_source_path r)))"

inductive upgrade_step :: "string \<Rightarrow> World \<Rightarrow> World \<Rightarrow> bool" for i where
  step_prepare: "recipes_ok u \<Longrightarrow> upgrade_step i w (snd (Prepare u i w))"
| step_publish: "recipes_ok u \<Longrightarrow> upgrade_step i w (snd (Publish u i w))"
| step_resume: "recipes_ok u \<Longrightarrow> upgrade_step i w (snd (Resume u i w))"
| step_rollback: "recipes_ok u \<Longrightarrow> upgrade_step i w (snd (Rollback u i w))"
| step_system: "keeps_private i w w' \<Longrightarrow> upgrade_step i w w'"

inductive_cases upgrade_stepE: "upgrade_step i w w'"

lemma triple_outcome: "triple P m (\<lambda>_. E) E \<Longrightarrow> P w \<Longrightarrow> E (snd (m w))"
  by (cases "m w"; cases "fst (m w)") (auto dest: tripleD1 tripleD2)

lemma holds_inode_option: "holds_inode files p k \<longleftrightarrow> map_option (\<lambda>f. inode_key (df_identity f)) (files p) = Some (inode_key k)"
  by (auto simp: holds_inode_def split: option.splits)

lemma system_safe: "safe i w \<Longrightarrow> keeps_private i w w' \<Longrightarrow> safe i w'"
proof -
  assume s: "safe i w" and k: "keeps_private i w w'"
  obtain r where r: "last_record i w = Some r" "ru_id r = i" "record_ok r (wo_files w)"
    using s by (auto simp: safe_def split: option.splits)
  have j: "last_record i w' = Some r" using k r(1) by (simp add: keeps_private_def last_record_def)
  have f: "wo_files w' (ru_candidate_path r) = wo_files w (ru_candidate_path r)"
    "wo_files w' (ru_rollback_path r) = wo_files w (ru_rollback_path r)"
    "holds_inode (wo_files w') (ru_source_path r) x = holds_inode (wo_files w) (ru_source_path r) x" for x
    using k r(1) by (simp_all add: keeps_private_def holds_inode_option)
  have "holds_file (wo_files w') p x = holds_file (wo_files w) p x" "holds_inode (wo_files w') p x = holds_inode (wo_files w) p x"
    if "p = ru_candidate_path r \<or> p = ru_rollback_path r" for p x
    using that f(1,2) by (auto simp: holds_file_def holds_inode_def)
  then have "in_place r (wo_files w') = in_place r (wo_files w)" "exchanged r (wo_files w') = exchanged r (wo_files w)"
    "retained r (wo_files w') = retained r (wo_files w)" "restored r (wo_files w') = restored r (wo_files w)"
    using f by (simp_all add: in_place_def exchanged_def retained_def restored_def)
  then have "placed p r (wo_files w') = placed p r (wo_files w)" for p by (simp add: placed_def split: PreparedStoreUpgradePhase.splits)
  then show "safe i w'" using j r by (simp add: safe_def record_ok_def)
qed

interpretation prepared: invariant_machine "planned_world i" "upgrade_step i" "safe i" for i
proof unfold_locales
  fix w assume "planned_world i w"
  then obtain u b c w0 where p: "last_record i w \<noteq> None" "recipes_ok u" "hex_encode b = i" "fresh i w0" "w = snd (PlanUpgrade u b c w0)"
    unfolding planned_world_def fresh_def by blast
  have "triple (fresh i) (PlanUpgrade u b c) (\<lambda>_. unrecorded i) (unrecorded i)"
    by (rule triple_weaken [OF triple_PlanUpgrade [OF p(2,3)]]) (auto simp: unrecorded_def dest: live_safe)
  from triple_outcome [OF this p(4)] show "safe i w" using p(1,5) unfolding unrecorded_def by auto
next
  fix w w' assume s: "safe i w" and "upgrade_step i w w'"
  from this(2) show "safe i w'"
  proof (cases rule: upgrade_step.cases)
    case (step_prepare u)
    show ?thesis unfolding step_prepare(1) by (rule triple_outcome [OF triple_Prepare [OF step_prepare(2)] s])
  next
    case (step_publish u)
    show ?thesis unfolding step_publish(1) by (rule triple_outcome [OF triple_Publish s])
  next
    case (step_resume u)
    show ?thesis unfolding step_resume(1) by (rule triple_outcome [OF triple_Resume [OF step_resume(2)] s])
  next
    case (step_rollback u)
    show ?thesis unfolding step_rollback(1) by (rule triple_outcome [OF triple_Rollback s])
  next
    case step_system
    then show ?thesis using system_safe s by blast
  qed
qed

section \<open>A committed offline upgrade is final\<close>

definition final_record :: "PreparedStoreUpgradeRun \<Rightarrow> bool" where
  "final_record r \<longleftrightarrow> ru_phase r = PreparedStoreUpgradeCommitted \<and> ru_operation r = PreparedStoreUpgradeOperationOfflineMigrationUpgrade"

lemma final_append: "final_record r \<Longrightarrow> validateRunAppend r n \<noteq> Inr ()"
proof
  assume f: "final_record r" and v: "validateRunAppend r n = Inr ()"
  have "ru_phase n = PreparedStoreUpgradeRollbackSwapIntent"
    using validate_append_same(7) [OF v] f by (simp add: final_record_def)
  then show False using v f unfolding validateRunAppend_def
    by (auto simp: andThen_Inr final_record_def AdvanceRun_def split: if_splits)
qed

definition seals :: "PreparedStoreUpgradeRun \<Rightarrow> 'a io \<Rightarrow> bool" where
  "seals r m \<longleftrightarrow> (\<forall>w. last_record (ru_id r) w = Some r \<longrightarrow> last_record (ru_id r) (snd (m w)) = Some r)"

named_theorems sealing

lemma seals_touches: "touches S m \<Longrightarrow> seals r m"
  unfolding seals_def touches_def using last_record_cong by metis

lemma seals_bind [sealing]: "seals r m \<Longrightarrow> (\<And>x. seals r (k x)) \<Longrightarrow> seals r (bindIO m k)"
  by (auto simp: seals_def bindIO_def split: prod.splits sum.splits)

lemma seals_case [sealing]:
  "seals r m \<Longrightarrow> seals r m' \<Longrightarrow> seals r (if b then m else m')"
  "seals r m \<Longrightarrow> (\<And>x. seals r (k x)) \<Longrightarrow> seals r (case o' of None \<Rightarrow> m | Some x \<Rightarrow> k x)"
  by (auto split: option.splits)

lemma seals_basic [sealing]:
  "seals r (retIO x)" "seals r (failIO e)" "seals r (liftIO z)" "seals r (getIO f)" "seals r stepIO" "seals r nowIO" "seals r (refuse b msg)"
  by (rule seals_touches [OF touches_basic(1)] seals_touches [OF touches_basic(2)] seals_touches [OF touches_basic(3)]
      seals_touches [OF touches_basic(4)] seals_touches [OF touches_basic(5)] seals_touches [OF touches_basic(6)]
      seals_touches [OF touches_basic(7)])+

lemma touches_swap [quiet]: "touches UNIV (Exchange run)" "touches UNIV (PublishRollback run)"
  "touches UNIV (Recheck b run)" "touches UNIV (PrepareCandidate run)" "touches UNIV (RemoveOwnedPartialCandidate run obs)"
proof -
  have e: "touches UNIV (effectIO f)" if "\<And>w. wo_journals (f w) = wo_journals w" for f using that by (intro touches_effect) auto
  have r: "touches UNIV (remove_file p)" "touches UNIV (remove_stale p)" for p by (rule touches_remove, simp)+
  show "touches UNIV (Exchange run)" unfolding Exchange_def Let_def atomicExchange_def by (intro quiet e) simp
  show "touches UNIV (PublishRollback run)" unfolding PublishRollback_def renameNoReplace_def by (intro quiet e) simp
  show "touches UNIV (Recheck b run)" unfolding Recheck_def checkSQLiteSidecars_def cleanupStaleSQLiteSidecars_def by (intro quiet r)
  show "touches UNIV (PrepareCandidate run)" unfolding PrepareCandidate_def by (intro quiet e) simp
  show "touches UNIV (RemoveOwnedPartialCandidate run obs)" unfolding RemoveOwnedPartialCandidate_def by (intro quiet r)
qed

lemma seals_write: "ru_id n \<noteq> ru_id r \<Longrightarrow> seals r (write_record n)"
proof -
  assume n: "ru_id n \<noteq> ru_id r"
  have "map_of (wo_journals (snd (write_record n w))) (ru_id r) = map_of (wo_journals w) (ru_id r)" for w
    using n by (auto simp: write_record_def Let_def pop_fault_def update_conv' split: list.splits fault.splits)
  then show ?thesis by (simp add: seals_def last_record_def)
qed

lemma seals_Append:
  assumes "final_record r" shows "seals r (Append n)"
proof (cases "ru_id n = ru_id r")
  case False
  then show ?thesis unfolding Append_def by (intro sealing seals_write seals_touches [OF touches_inspect(6)])
next
  case True
  have refused: "last_record (ru_id r) (snd (bindIO (Load (ru_id n)) (\<lambda>previous.
      bindIO (liftIO (validateRunAppend previous n)) (\<lambda>_. bindIO stepIO (\<lambda>_. write_record n))) w)) = Some r"
    if w: "last_record (ru_id r) w = Some r" for w
  proof (cases "Load (ru_id n) w")
    case (Pair res v)
    have v: "last_record (ru_id r) v = Some r"
      using seals_touches [OF touches_inspect(6), of r "ru_id n"] w Pair unfolding seals_def by (metis snd_conv)
    show ?thesis
    proof (cases res)
      case (Inl e)
      then show ?thesis using Pair v by (simp add: bindIO_def)
    next
      case (Inr p)
      then have "p = r" using Load_Inr [of "ru_id n" w p v] Pair w True by simp
      then obtain e where "validateRunAppend p n = Inl e" using final_append [OF assms, of n] by (cases "validateRunAppend p n") auto
      then show ?thesis using Pair Inr v by (simp add: bindIO_def liftIO_def)
    qed
  qed
  have core: "seals r (bindIO (Load (ru_id n)) (\<lambda>previous.
      bindIO (liftIO (validateRunAppend previous n)) (\<lambda>_. bindIO stepIO (\<lambda>_. write_record n))))" using refused by (simp add: seals_def)
  show ?thesis unfolding Append_def
    by (rule seals_bind [OF seals_basic(5)], rule seals_bind [OF seals_basic(3)], rule seals_bind [OF seals_basic(5)], rule core)
qed

lemma seals_advance: "final_record r \<Longrightarrow> seals r (advance run p)"
  unfolding advance_def by (intro sealing seals_Append)

lemma seals_loop:
  assumes loop: "\<And>run w. L run w = (if dn run then (Inr run, w)
      else case st run w of (Inl e, w') \<Rightarrow> (Inl e, w') | (Inr run', w') \<Rightarrow> L run' w')"
    and rank: "\<And>run w run' w'. st run w = (Inr run', w') \<Longrightarrow> phase_rank (ru_phase run) < phase_rank (ru_phase run') \<and> phase_rank (ru_phase run') \<le> 16"
    and step: "\<And>run. seals r (st run)"
  shows "seals r (L run)"
proof (induction "16 - phase_rank (ru_phase run)" arbitrary: run rule: less_induct)
  case less
  have "last_record (ru_id r) (snd (L run w)) = Some r" if w: "last_record (ru_id r) w = Some r" for w
  proof (cases "dn run")
    case True
    then show ?thesis using w by (simp add: loop)
  next
    case False
    have v: "last_record (ru_id r) (snd (st run w)) = Some r" using step w by (simp add: seals_def)
    show ?thesis
    proof (cases "st run w")
      case (Pair res v')
      show ?thesis
      proof (cases res)
        case (Inl e)
        then show ?thesis using Pair v False by (simp add: loop [of run])
      next
        case (Inr run')
        have "seals r (L run')" using rank [of run w run' v'] Pair Inr by (intro less) auto
        then show ?thesis using Pair Inr v False unfolding seals_def by (simp add: loop [of run])
      qed
    qed
  qed
  then show ?case by (simp add: seals_def)
qed

lemma seals_files [sealing]:
  "seals r (Exchange run)" "seals r (PublishRollback run)" "seals r (Recheck b run)" "seals r (PrepareCandidate run)"
  "seals r (RemoveOwnedPartialCandidate run obs)" "seals r (Observe run)" "seals r (RecheckForPublish run)"
  "seals r (FenceCandidate run)" "seals r (SyncRecoveredOrientation run obs)" "seals r (guardPublication run)"
  "seals r (load u i)" "seals r (recipe_for u q)" "seals r (acquireExclusiveSkippingIfHeld u)"
  by (rule seals_touches, rule touches_swap touches_observe touches_load)+

lemma seals_recipe:
  assumes "recipe_ok rc"
  shows "seals r (rc_build rc run)" "seals r (rc_sync rc run)" "seals r (rc_verify rc run)" "seals r (rc_classify rc run obs)"
    "seals r (optional_check (rc_verify_bound_drop rc) run)" "seals r (optional_check (rc_verify_unavailable_retention rc) run)"
  by (rule seals_touches [of "elsewhere run"], use assms in \<open>simp add: recipe_ok_def\<close>)+

lemma seals_prepare:
  assumes "final_record r" "recipe_ok rc" shows "seals r (prepare u rc run)"
proof (rule seals_loop [OF prepare.simps])
  note s = sealing seals_advance [OF assms(1)] seals_recipe [OF assms(2)]
  have "seals r (prepare_action u rc q a)" for q a
    unfolding prepare_action_def by (cases a; simp only: PreparedStoreUpgradeAction.case; intro s)
  then show "seals r (prepare_step u rc q)" for q unfolding prepare_step_def by (intro sealing)
qed (use prepare_step_rank in fastforce)

lemma seals_publish_loop:
  assumes "final_record r" shows "seals r (publish_loop run)"
proof (rule seals_loop [OF publish_loop.simps])
  have "seals r (publish_action q a)" for q a
    unfolding publish_action_def by (cases a; simp only: PreparedStoreUpgradeAction.case; intro sealing seals_advance [OF assms])
  then show "seals r (publish_step q)" for q unfolding publish_step_def by (intro sealing)
qed (use publish_step_rank in fastforce)

lemma seals_rollback_loop:
  assumes "final_record r" shows "seals r (rollback_loop run)"
proof (rule seals_loop [OF rollback_loop.simps])
  show "seals r (rollback_step q)" for q
    unfolding rollback_step_def by (cases "ru_phase q"; simp only: PreparedStoreUpgradePhase.case; intro sealing seals_advance [OF assms])
qed (use rollback_step_rank in fastforce)

lemma seals_execute_all: "final_record r \<Longrightarrow> seals r (execute_all run obs as)"
proof (induction as arbitrary: run)
  case (Cons a as)
  have "seals r (executeRecoveryAction run obs a)"
    unfolding executeRecoveryAction_def
    by (cases a; simp only: PreparedStoreUpgradeAction.case; intro sealing seals_advance [OF Cons.prems])
  then show ?case unfolding execute_all.simps by (intro sealing Cons)
qed (simp add: sealing)

lemma seals_recovery_actions: "final_record r \<Longrightarrow> seals r (recovery_actions u obs run as)"
proof (induction as arbitrary: run)
  case (Cons a as)
  have "seals r (recovery_action u obs run a)"
    unfolding recovery_action_def
    by (cases a; simp only: PreparedStoreUpgradeAction.case; intro sealing seals_advance [OF Cons.prems])
  then show ?case unfolding recovery_actions.simps by (intro sealing Cons)
qed (simp add: sealing)

lemma seals_with_recipe:
  assumes "recipes_ok u" "\<And>rc. recipe_ok rc \<Longrightarrow> seals r (k rc)" shows "seals r (bindIO (recipe_for u q) k)"
proof (cases "up_recipes u q")
  case None
  then have "bindIO (recipe_for u q) k = failIO (UpgradeRefused ''nil recipe'')"
    by (simp add: recipe_for_def bindIO_def failIO_def fun_eq_iff)
  then show ?thesis by (simp add: sealing)
next
  case (Some rc)
  then have "bindIO (recipe_for u q) k = k rc" by (simp add: recipe_for_def bindIO_def retIO_def fun_eq_iff)
  then show ?thesis using assms Some by (simp add: recipes_ok_def)
qed

lemma seals_recoverAndPublish: "final_record r \<Longrightarrow> seals r (recoverAndPublish u run)"
  unfolding recoverAndPublish_def publishLeased_def by (intro sealing seals_advance seals_execute_all seals_publish_loop)

lemma seals_operations:
  assumes f: "final_record r" and u: "recipes_ok u"
  shows "seals r (Prepare u i)" "seals r (Publish u i)" "seals r (Resume u i)" "seals r (Rollback u i)"
proof -
  have p: "seals r (bindIO (recipe_for u q) (\<lambda>rc. prepare u rc run))" for q run
    by (rule seals_with_recipe [OF u], rule seals_prepare [OF f])
  show "seals r (Prepare u i)" unfolding Prepare_def by (rule seals_bind [OF seals_files(11)], rule p)
  show "seals r (Publish u i)" unfolding Publish_def by (intro sealing seals_recoverAndPublish [OF f])
  show "seals r (Rollback u i)" unfolding Rollback_def
    by (intro sealing seals_advance [OF f] seals_execute_all [OF f] seals_rollback_loop [OF f])
  have c: "seals r (bindIO (recipe_for u q) (\<lambda>rc. bindIO (rc_classify rc run o') (\<lambda>c. retIO (g c))))" for q run o' and g :: "CandidateCondition \<Rightarrow> 'b"
    by (rule seals_with_recipe [OF u], rule seals_bind [OF seals_recipe(4) seals_basic(1)])
  have "seals r (recoverPreparation u run)" for run unfolding recoverPreparation_def
    by (rule seals_bind [OF seals_files(6)], rule seals_bind [OF seals_case(1) [OF c seals_basic(1)]],
        rule seals_bind [OF seals_basic(3) seals_recovery_actions [OF f]])
  then have "seals r (finish u run)" for run unfolding finish_def
    by (rule seals_bind [OF seals_case(1) [OF seals_bind [OF _ p] seals_basic(1)] seals_recoverAndPublish [OF f]])
  then show "seals r (Resume u i)" unfolding Resume_def by (rule seals_bind [OF seals_files(11)])
qed

interpretation finished: sealed_machine "planned_world i" "upgrade_step i" "safe i"
  "\<lambda>r w. final_record r \<and> ru_id r = i \<and> last_record i w = Some r" for i
proof unfold_locales
  fix w w' r assume "upgrade_step i w w'" and r: "final_record r \<and> ru_id r = i \<and> last_record i w = Some r"
  then show "final_record r \<and> ru_id r = i \<and> last_record i w' = Some r"
  proof (cases rule: upgrade_step.cases)
    case step_system
    then show ?thesis using r by (simp add: keeps_private_def last_record_def)
  qed (use r seals_operations [of r] in \<open>auto simp: seals_def\<close>)
qed

section \<open>A sample run\<close>

definition sample_recipe :: Recipe where
  "sample_recipe = \<lparr>rc_plan = \<lambda>_. retIO ''plan'', rc_build = \<lambda>_. retIO (), rc_classify = \<lambda>_ _. retIO CandidateConditionComplete,
     rc_sync = \<lambda>_. retIO (), rc_verify = \<lambda>_. retIO (no_evidence\<lparr>pe_candidate_digest := ''d''\<rparr>), rc_verify_bound_drop = None,
     rc_verify_unavailable_retention = None\<rparr>"

definition sample_upgrade :: Upgrade where
  "sample_upgrade = \<lparr>up_expected_store = ''/s/db'', up_recipes = \<lambda>_. Some sample_recipe, up_caller_holds_lease = True, up_holds_exclusive = True\<rparr>"

definition sample_command :: PreparedStoreUpgradeCommand where
  "sample_command = \<lparr>cm_operation = PreparedStoreUpgradeOperationOfflineMigrationUpgrade, cm_target_path = ''/s/db'', cm_consumer_binding = ''cli'',
     cm_budget = \<lparr>bu_wall_time_limit = 1, bu_publish_lock_limit = 1, bu_owned_disk_byte_limit = 1, bu_wal_byte_limit = 1, bu_temporary_byte_limit = 1, bu_safety_margin_bytes = 1\<rparr>,
     cm_bound_drop_approval = None, cm_unavailable_retention_approval = None\<rparr>"

definition sample_store :: DiskFile where
  "sample_store = \<lparr>df_identity = \<lparr>fi_device = 1, fi_inode = 7, fi_size = 4096, fi_mod_unix = 5, fi_mode = 384, fi_links = 1\<rparr>,
     df_digest = ''x'', df_legacy_search = False\<rparr>"

definition sample_world :: World where
  "sample_world = \<lparr>wo_files = [''/s/db'' \<mapsto> sample_store],
     wo_journals = [], wo_faults = [], wo_clock = [], wo_now = GoTime 9 None 0, wo_device = 1, wo_new_inode = 8,
     wo_available = 1000000000, wo_spool_reserve = 0, wo_reclaimable = None, wo_exchange_supported = True, wo_lease_supported = True\<rparr>"

definition sample_id :: string where "sample_id = hex_encode (replicate 16 CHR 0x01)"


definition planned_sample :: World where
  "planned_sample = snd (PlanUpgrade sample_upgrade (replicate 16 CHR 0x01) sample_command sample_world)"

definition verified_sample :: World where
  "verified_sample = snd (Prepare sample_upgrade sample_id planned_sample)"

definition crashed_sample :: World where
  "crashed_sample = snd (Publish sample_upgrade sample_id (verified_sample\<lparr>wo_faults := replicate 25 Fine @ [FailAfter]\<rparr>))"

definition sample_base :: PreparedStoreUpgradeRun where
  "sample_base = (planned_run sample_command sample_id (GoTime 9 None 0))
     \<lparr>ru_source_identity := \<lparr>fi_device = 1, fi_inode = 7, fi_size = 4096, fi_mod_unix = 5, fi_mode = 384, fi_links = 1\<rparr>,
      ru_plan_digest := ''plan'', ru_source_digest := ''x'',
      ru_resources := \<lparr>rp_required_bytes = 67125248, rp_destination_bytes = 4096, rp_temporary_bytes = 12288, rp_safety_margin_bytes = 67108864,
        rp_available_bytes = 1000000000, rp_filesystem_device = 1, rp_lease_capability = True, rp_exchange_capability = True\<rparr>\<rparr>"

definition sample_candidate :: StoreFileIdentity where
  "sample_candidate = \<lparr>fi_device = 1, fi_inode = 8, fi_size = 0, fi_mod_unix = 9, fi_mode = 384, fi_links = 1\<rparr>"

definition sample_prepared :: PreparedStoreUpgradeRun where
  "sample_prepared = sample_base\<lparr>ru_prepared_candidate_identity := sample_candidate, ru_prepared_attempt := 1\<rparr>"

definition sample_verified :: PreparedStoreUpgradeRun where
  "sample_verified = sample_prepared\<lparr>ru_phase := PreparedStoreUpgradeCandidateVerified, ru_candidate := sample_candidate,
     ru_evidence := no_evidence\<lparr>pe_candidate_digest := ''d''\<rparr>\<rparr>"

definition sample_records :: "PreparedStoreUpgradeRun list" where
  "sample_records = [sample_base, sample_base\<lparr>ru_phase := PreparedStoreUpgradeCopyIntent\<rparr>] @
     map (\<lambda>p. sample_prepared\<lparr>ru_phase := p\<rparr>) [PreparedStoreUpgradeCandidatePrepared, PreparedStoreUpgradeCopyComplete,
        PreparedStoreUpgradeCandidateSyncIntent, PreparedStoreUpgradeCandidateSynced, PreparedStoreUpgradeScrubInProgress] @
     map (\<lambda>p. sample_verified\<lparr>ru_phase := p\<rparr>) [PreparedStoreUpgradeCandidateVerified, PreparedStoreUpgradeSwapIntent,
        PreparedStoreUpgradeSwapped, PreparedStoreUpgradeRollbackPublishIntent, PreparedStoreUpgradeRollbackReady,
        PreparedStoreUpgradeCommitted]"

definition sample_committed_run :: PreparedStoreUpgradeRun where
  "sample_committed_run = sample_verified\<lparr>ru_phase := PreparedStoreUpgradeCommitted\<rparr>"

definition committed_sample :: World where
  "committed_sample = sample_world
     \<lparr>wo_files := [''/s/db'' \<mapsto> \<lparr>df_identity = sample_candidate, df_digest = '''', df_legacy_search = False\<rparr>,
                   ru_rollback_path sample_base \<mapsto> sample_store],
      wo_journals := [(sample_id, \<lparr>jr_records = sample_records, jr_torn = False\<rparr>)]\<rparr>"

lemma sample_recipes: "recipes_ok sample_upgrade"
  unfolding recipes_ok_def
proof (intro allI impI)
  fix p rc assume "up_recipes sample_upgrade p = Some rc"
  then have "rc = sample_recipe" by (simp add: sample_upgrade_def)
  then show "recipe_ok rc"
    by (simp add: recipe_ok_def sample_recipe_def optional_check_def touches_basic)
qed

lemma sample_reach:
  "reach (planned_world sample_id) (upgrade_step sample_id) crashed_sample"
proof -
  let ?R = "reach (planned_world sample_id) (upgrade_step sample_id)"
  have "last_record sample_id planned_sample \<noteq> None" by code_simp
  then have "planned_world sample_id planned_sample"
    unfolding planned_world_def using sample_recipes
    by (intro conjI exI [of _ sample_upgrade] exI [of _ "replicate 16 CHR 0x01"] exI [of _ sample_command] exI [of _ sample_world])
      (simp_all add: sample_id_def planned_sample_def sample_world_def)
  then have r: "?R planned_sample" by (rule reach.reach_init)
  have "?R verified_sample" unfolding verified_sample_def
    by (rule reach.reach_step [OF r]) (rule step_prepare [OF sample_recipes])
  then have "?R (verified_sample\<lparr>wo_faults := replicate 25 Fine @ [FailAfter]\<rparr>)"
    by (rule reach.reach_step) (rule step_system, simp add: keeps_private_def split: option.split)
  then show "?R crashed_sample" unfolding crashed_sample_def
    by (rule reach.reach_step) (rule step_publish [OF sample_recipes])
qed

section \<open>Properties\<close>

lemma room_below_max: "max_uint64 - x < y \<longleftrightarrow> 2 ^ 64 \<le> unat x + unat (y :: uint64)"
proof -
  have m: "unat max_uint64 = 2 ^ 64 - 1" by (simp add: unsigned_minus_1_eq_mask mask_eq_exp_minus_1)
  have "unat (max_uint64 - x) = unat max_uint64 - unat x" by (rule unat_sub) simp
  then show ?thesis using unsigned_less [of x, where 'a = nat] unsigned_less [of y, where 'a = nat] m by (auto simp: word_less_nat_alt)
qed

lemma unat_plus_below: "unat x + unat y < 2 ^ 64 \<Longrightarrow> unat (x + y :: uint64) = unat x + unat y"
  by (simp add: unat_plus_if')

text \<open>
  C3: However the operations of a prepared upgrade are ordered, fail, crash and are repeated, the original
  store is never lost. Its inode is at the source path, or the candidate that the run fenced is there and the
  original lies unchanged, with the identity recorded at planning, at the candidate path or at the rollback
  path of the run; the second case occurs only in the phases from the swap intent to the rollback intent.
\<close>

theorem original_never_lost:
  assumes "reach (planned_world i) (upgrade_step i) w"
  shows "\<exists>r. last_record i w = Some r \<and>
     (holds_inode (wo_files w) (ru_source_path r) (ru_source_identity r)
      \<or> List.member [PreparedStoreUpgradeSwapIntent, PreparedStoreUpgradeSwapped, PreparedStoreUpgradeRollbackPublishIntent,
           PreparedStoreUpgradeRollbackReady, PreparedStoreUpgradeCommitted, PreparedStoreUpgradeRollbackSwapIntent] (ru_phase r)
        \<and> holds_inode (wo_files w) (ru_source_path r) (ru_candidate r)
        \<and> (holds_file (wo_files w) (ru_candidate_path r) (ru_source_identity r)
           \<or> holds_file (wo_files w) (ru_rollback_path r) (ru_source_identity r)))"
proof -
  obtain r where r: "last_record i w = Some r" "placed (ru_phase r) r (wo_files w)"
    using prepared.reach_inv [OF assms] by (auto simp: safe_def record_ok_def split: option.splits)
  have "ru_phase r = p \<Longrightarrow> ?thesis" for p
    using r by (cases p) (auto simp: placed_def in_place_def exchanged_def retained_def restored_def)
  then show ?thesis by blast
qed

theorem original_never_lost_witness:
  "map_option ru_phase (last_record sample_id crashed_sample) = Some PreparedStoreUpgradeSwapIntent
   \<and> (\<exists>r. last_record sample_id crashed_sample = Some r \<and>
     (holds_inode (wo_files crashed_sample) (ru_source_path r) (ru_source_identity r)
      \<or> List.member [PreparedStoreUpgradeSwapIntent, PreparedStoreUpgradeSwapped, PreparedStoreUpgradeRollbackPublishIntent,
           PreparedStoreUpgradeRollbackReady, PreparedStoreUpgradeCommitted, PreparedStoreUpgradeRollbackSwapIntent] (ru_phase r)
        \<and> holds_inode (wo_files crashed_sample) (ru_source_path r) (ru_candidate r)
        \<and> (holds_file (wo_files crashed_sample) (ru_candidate_path r) (ru_source_identity r)
           \<or> holds_file (wo_files crashed_sample) (ru_rollback_path r) (ru_source_identity r))))"
proof
  show "map_option ru_phase (last_record sample_id crashed_sample) = Some PreparedStoreUpgradeSwapIntent" by code_simp
qed (rule original_never_lost [OF sample_reach])

text \<open>
  C4: A committed offline upgrade is final. Once the journal of a run, with the files placed as it says, records the commit of an offline
  upgrade, no operation, failure or repetition, a rollback included, ever adds a record to it, and the
  upgraded store stays at the source path with the original retained unchanged at the rollback path.
\<close>

theorem committed_upgrade_final:
  assumes "safe i w" "last_record i w = Some r"
    and "ru_phase r = PreparedStoreUpgradeCommitted" "ru_operation r = PreparedStoreUpgradeOperationOfflineMigrationUpgrade"
    and "(upgrade_step i)\<^sup>*\<^sup>* w v"
  shows "last_record i v = Some r
    \<and> holds_inode (wo_files v) (ru_source_path r) (ru_candidate r)
    \<and> holds_file (wo_files v) (ru_rollback_path r) (ru_source_identity r)"
proof -
  note s = assms(1)
  then have "ru_id r = i" using assms(2) by (simp add: safe_def)
  then have l: "last_record i v = Some r"
    using finished.sealed_forever [OF assms(5) s, of r] assms by (simp add: final_record_def)
  moreover have "safe i v" by (rule prepared.steps_inv [OF assms(5) s])
  ultimately show ?thesis using assms(3) by (simp add: safe_def record_ok_def placed_def retained_def)
qed

theorem committed_upgrade_final_witness:
  "let v = snd (Rollback sample_upgrade sample_id committed_sample); r = sample_committed_run in
     last_record sample_id v = Some r
     \<and> holds_inode (wo_files v) (ru_source_path r) (ru_candidate r)
     \<and> holds_file (wo_files v) (ru_rollback_path r) (ru_source_identity r)"
proof -
  have "safe sample_id committed_sample" by code_simp
  moreover have "last_record sample_id committed_sample = Some sample_committed_run" by code_simp
  moreover have "ru_phase sample_committed_run = PreparedStoreUpgradeCommitted" by code_simp
  moreover have "ru_operation sample_committed_run = PreparedStoreUpgradeOperationOfflineMigrationUpgrade" by code_simp
  moreover have "(upgrade_step sample_id)\<^sup>*\<^sup>* committed_sample (snd (Rollback sample_upgrade sample_id committed_sample))"
    by (rule r_into_rtranclp, rule step_rollback [OF sample_recipes])
  ultimately show ?thesis unfolding Let_def by (rule committed_upgrade_final)
qed

text \<open>
  C32: The space that a plan reserves is the exact sum of the destination, the temporary bytes and a margin of
  a tenth of the destination but at least 64 MiB; when that sum does not fit in 64 bits the plan is refused,
  so that the reservation never wraps around.
\<close>

theorem required_bytes_exact:
  assumes "0 \<le> destination" "destination < 2 ^ 63"
  shows "compactionRequiredBytes destination temporary =
    (let margin = max (64 * 1024 * 1024) (nat destination div 10); required = nat destination + unat temporary + margin
     in if required < 2 ^ 64 then Inr (of_nat required, of_nat margin)
        else Inl (UpgradeRefused ''compaction resource size overflow''))"
proof -
  define base where "base = (of_int destination :: uint64)"
  define margin where "margin = (if base div 10 < 64 * 1024 * 1024 then 64 * 1024 * 1024 else base div 10)"
  have base_nat: "base = of_nat (nat destination)" using assms(1) by (simp add: base_def)
  have "nat destination < 2 ^ 64" using assms by (simp add: nat_less_iff)
  then have b: "unat base = nat destination" unfolding base_nat by (simp add: unat_of_nat take_bit_nat_eq_self del: of_nat_nat word_of_nat_eq_iff)
  have ten: "unat (base div 10) = nat destination div 10" using b by (simp add: unat_div)
  have m: "unat margin = max (64 * 1024 * 1024) (nat destination div 10)"
    unfolding margin_def using ten by (auto simp: word_less_nat_alt)
  let ?required = "nat destination + unat temporary + unat margin"
  have room: "(max_uint64 - base < temporary \<or> max_uint64 - (base + temporary) < margin) \<longleftrightarrow> \<not> ?required < 2 ^ 64"
  proof (cases "unat base + unat temporary < 2 ^ 64")
    case True
    then show ?thesis using b by (simp add: room_below_max unat_plus_below not_less)
  next
    case False
    then show ?thesis using b by (simp add: room_below_max)
  qed
  have total: "base + temporary + margin = of_nat ?required" by (simp add: base_nat)
  have m': "of_nat (max (64 * 1024 * 1024) (nat destination div 10)) = margin" unfolding m [symmetric] by simp
  have "compactionRequiredBytes destination temporary =
      (if max_uint64 - base < temporary \<or> max_uint64 - (base + temporary) < margin
       then Inl (UpgradeRefused ''compaction resource size overflow'') else Inr (base + temporary + margin, margin))"
    using assms(1) unfolding compactionRequiredBytes_def Let_def base_def [symmetric] margin_def [symmetric] by simp
  also have "\<dots> = (if ?required < 2 ^ 64 then Inr (of_nat ?required, margin)
        else Inl (UpgradeRefused ''compaction resource size overflow''))" unfolding room total by simp
  finally show ?thesis unfolding Let_def m m' .
qed

theorem required_bytes_exact_witness:
  "compactionRequiredBytes 4096 12288 = Inr (67125248, 67108864)
   \<and> compactionRequiredBytes 4096 (- 1) = Inl (UpgradeRefused ''compaction resource size overflow'')"
  using required_bytes_exact [of 4096 12288] required_bytes_exact [of 4096 "- 1"]
  by (simp add: unsigned_minus_1_eq_mask mask_eq_exp_minus_1)

end
