(* ===== verification/Spool_Disk.thy ===== *)
theory Spool_Disk
  imports Go_Format "HOL-Library.AList" "HOL-Library.List_Lexorder" "HOL-Library.Char_ord"
begin

text \<open>
  The spool directory of undelivered hook events (\<open>src/presentation/cli/hook_spool.go\<close>) as files that several
  processes rename and rewrite. Each system call is a step before which the other processes may act, and that
  may fail or be killed before, during or after its effect. A regular file is what \<open>json.Unmarshal\<close> and the
  check of the schema version make of its bytes. The histories of the disk are not read by the program:
  the receipts delivered and persisted, each dead letter pruned (its receipt, its modification time, and the time
  that the pruning process took for now), and for each name drawn at random the receipt and the modification time of
  the file that was given it.
\<close>

section \<open>Records and files\<close>

record SpoolRecord =
  sr_command :: string
  sr_client :: string
  sr_action :: string
  sr_db_path :: string
  sr_payload :: string
  sr_created_at :: gotime
  sr_receipt_id :: string
  sr_resolved_workspace :: "string option"
  sr_workspace_capture_failed :: bool
  sr_attempt_count :: int
  sr_last_error :: string

text \<open>
  What \<open>json.Unmarshal\<close> makes of the text that \<open>json.MarshalIndent\<close> wrote for a record: each byte of a string that
  is not part of valid UTF-8 has become U+FFFD, and a time has lost its monotonic reading. (The receipt is
  hexadecimal ASCII, drawn by the program or decoded from such a file.)
\<close>

fun coerce_bytes :: "nat list \<Rightarrow> nat list" where
  "coerce_bytes [] = []"
| "coerce_bytes (b # bs) =
     (let rn = decode_rune b bs
      in (if rn = (rune_error, 1) then [0xEF, 0xBF, 0xBD] else b # take (snd rn - 1) bs)
         @ coerce_bytes (drop (snd rn - 1) bs))"

definition json_text :: "string \<Rightarrow> string" where
  "json_text s = map char_of (coerce_bytes (map of_char s))"

lemma coerce_ascii: "list_all (\<lambda>b. b < 128) bs \<Longrightarrow> coerce_bytes bs = bs"
  by (induction bs) (simp_all add: decode_rune_def rune_error_def)

lemma digit7_bound: "\<not> digit7 c \<Longrightarrow> (of_char c :: nat) < 128"
  by (cases c) (simp add: of_char_def)

text \<open>ASCII text is kept.\<close>

lemma json_text_code [code]:
  "json_text s = (if list_all (\<lambda>c. \<not> digit7 c) s then s else map char_of (coerce_bytes (map of_char s)))"
proof (cases "list_all (\<lambda>c. \<not> digit7 c) s")
  case True
  then have "list_all (\<lambda>b. b < 128) (map of_char s :: nat list)"
    by (auto simp: list_all_iff digit7_bound)
  then show ?thesis using True by (simp add: json_text_def coerce_ascii comp_def)
qed (simp add: json_text_def)

definition json_record :: "SpoolRecord \<Rightarrow> SpoolRecord" where
  "json_record r = r\<lparr>sr_command := json_text (sr_command r), sr_client := json_text (sr_client r),
     sr_action := json_text (sr_action r), sr_db_path := json_text (sr_db_path r), sr_payload := json_text (sr_payload r),
     sr_created_at := round0 (sr_created_at r), sr_resolved_workspace := map_option json_text (sr_resolved_workspace r),
     sr_last_error := json_text (sr_last_error r)\<rparr>"

lemma json_record_keeps [simp]:
  "sr_receipt_id (json_record r) = sr_receipt_id r" "sr_attempt_count (json_record r) = sr_attempt_count r"
  by (simp_all add: json_record_def)

datatype SpoolContent = Decodes SpoolRecord | Undecodable string | NotRegular

record SpoolFile =
  sf_content :: SpoolContent
  sf_mtime :: gotime

text \<open>A path of the spool: whether it lies in the dead-letter directory, and its base name.\<close>

type_synonym spool_path = "bool \<times> string"

record Spool =
  sp_files :: "(spool_path \<times> SpoolFile) list"
  sp_now :: gotime
  sp_delivered :: "string list"
  sp_pruned :: "(string \<times> gotime \<times> gotime) list"
  sp_persisted :: "string list"
  sp_owner :: "((bool \<times> string) \<times> string \<times> gotime) list"
  sp_collided :: bool

abbreviation spool_lookup :: "Spool \<Rightarrow> spool_path \<Rightarrow> SpoolFile option" where
  "spool_lookup d \<equiv> map_of (sp_files d)"

fun receipt_of :: "SpoolContent \<Rightarrow> string" where
  "receipt_of (Decodes r) = sr_receipt_id r"
| "receipt_of (Undecodable _) = ''''"
| "receipt_of NotRegular = ''''"

section \<open>Names\<close>

abbreviation has_suffix :: "string \<Rightarrow> string \<Rightarrow> bool" where
  "has_suffix name s \<equiv> suffix s name"

definition trim_suffix :: "string \<Rightarrow> string \<Rightarrow> string" where
  "trim_suffix s name = (if suffix s name then take (length name - length s) name else name)"

definition hookSpoolClaimMarker :: string where
  "hookSpoolClaimMarker = ''.claim-''"

text \<open>The part of a name before the last claim marker (\<open>strings.LastIndex\<close>).\<close>

fun before_claim :: "string \<Rightarrow> string option" where
  "before_claim [] = None"
| "before_claim (c # s) =
     (case before_claim s of
        Some q \<Rightarrow> Some (c # q)
      | None \<Rightarrow> if prefix hookSpoolClaimMarker (c # s) then Some [] else None)"

definition isHookSpoolClaimFile :: "string \<Rightarrow> bool" where
  "isHookSpoolClaimFile name = (case before_claim name of None \<Rightarrow> False | Some q \<Rightarrow> has_suffix q ''.json'')"

definition spool_stamp :: "gotime \<Rightarrow> string" where
  "spool_stamp t =
     (let secs = wall t div second; nanos = wall t mod second; (y, m, d) = civil_of_days (secs div 86400); day = secs mod 86400
      in pad_int 4 y @ pad_int 2 m @ pad_int 2 d @ ''T'' @ pad_int 2 (day div 3600) @ pad_int 2 (day div 60 mod 60) @
         pad_int 2 (day mod 60) @ ''.'' @ pad_int 9 nanos @ ''Z'')"

text \<open>A rune outside the kept characters becomes one underscore, whatever its number of bytes.\<close>

definition sanitizeHookStateKey :: "string \<Rightarrow> string" where
  "sanitizeHookStateKey value =
     (let s = map (\<lambda>(r, _). if r < 128 \<and> (is_alnum (char_of r) \<or> List.member ''._-'' (char_of r)) then char_of r else CHR ''_'') (runes value)
      in if s = '''' then ''default'' else s)"

section \<open>Steps\<close>

datatype spool_error = SpoolError string | SpoolNotExist | SpoolCancelled | MaintenancePending | SpoolKilled

datatype spool_fault = NoFault | FailsBefore | FailsHalfway | FailsAfterwards | KilledBefore | KilledHalfway | KilledAfter

text \<open>Before each step the other processes act; then the step meets its fault.\<close>

datatype spool_tick = Tick (tick_others: "Spool \<Rightarrow> Spool") (tick_fault: spool_fault)

record SpoolRun =
  sn_disk :: Spool
  sn_ticks :: "spool_tick list"
  sn_random :: "string list"

type_synonym 'a sp = "SpoolRun \<Rightarrow> (spool_error + 'a) \<times> SpoolRun"

definition retSp :: "'a \<Rightarrow> 'a sp" where "retSp x s = (Inr x, s)"
definition failSp :: "spool_error \<Rightarrow> 'a sp" where "failSp e s = (Inl e, s)"
definition nowSp :: "gotime sp" where "nowSp s = (Inr (sp_now (sn_disk s)), s)"

definition bindSp :: "'a sp \<Rightarrow> ('a \<Rightarrow> 'b sp) \<Rightarrow> 'b sp" where
  "bindSp m k s = (case m s of (Inl e, s') \<Rightarrow> (Inl e, s') | (Inr x, s') \<Rightarrow> k x s')"

text \<open>The result of an operation as a value; a killed process handles nothing.\<close>

definition trySp :: "'a sp \<Rightarrow> (spool_error + 'a) sp" where
  "trySp m s = (case m s of (Inl e, s') \<Rightarrow> (if e = SpoolKilled then Inl SpoolKilled else Inr (Inl e), s') | (Inr x, s') \<Rightarrow> (Inr (Inr x), s'))"

definition ignoreSp :: "'a sp \<Rightarrow> unit sp" where
  "ignoreSp m = bindSp (trySp m) (\<lambda>_. retSp ())"

definition next_tick :: "SpoolRun \<Rightarrow> spool_fault \<times> SpoolRun" where
  "next_tick s =
     (case sn_ticks s of
        [] \<Rightarrow> (NoFault, s)
      | Tick env f # ts \<Rightarrow> (f, s\<lparr>sn_disk := env (sn_disk s), sn_ticks := ts\<rparr>))"

text \<open>A system call with its effect and with what an interrupted call leaves.\<close>

definition callSp :: "(Spool \<Rightarrow> (spool_error + 'a) \<times> Spool) \<Rightarrow> (Spool \<Rightarrow> Spool) \<Rightarrow> 'a sp" where
  "callSp f half s =
     (case next_tick s of (fault, s') \<Rightarrow>
        (case f (sn_disk s') of (r, d) \<Rightarrow>
           (case fault of
              NoFault \<Rightarrow> (r, s'\<lparr>sn_disk := d\<rparr>)
            | FailsBefore \<Rightarrow> (Inl (SpoolError ''system call''), s')
            | FailsHalfway \<Rightarrow> (Inl (SpoolError ''system call''), s'\<lparr>sn_disk := half (sn_disk s')\<rparr>)
            | FailsAfterwards \<Rightarrow> (Inl (SpoolError ''system call''), s'\<lparr>sn_disk := d\<rparr>)
            | KilledBefore \<Rightarrow> (Inl SpoolKilled, s')
            | KilledHalfway \<Rightarrow> (Inl SpoolKilled, s'\<lparr>sn_disk := half (sn_disk s')\<rparr>)
            | KilledAfter \<Rightarrow> (Inl SpoolKilled, s'\<lparr>sn_disk := d\<rparr>))))"

definition readSp :: "(Spool \<Rightarrow> spool_error + 'a) \<Rightarrow> 'a sp" where
  "readSp f = callSp (\<lambda>d. (f d, d)) (\<lambda>d. d)"

definition randomSp :: "string sp" where
  "randomSp s = (case sn_random s of [] \<Rightarrow> (Inl (SpoolError ''rand''), s) | r # rs \<Rightarrow> (Inr (hex_encode r), s\<lparr>sn_random := rs\<rparr>))"

section \<open>System calls on the spool\<close>

text \<open>
  The stem of a name is what remains without the suffixes that the program adds and removes. The history
  records the file that each stem was given to; a drawn name that was used before is a collision.
\<close>

lemma before_claim_shorter: "before_claim s = Some q \<Longrightarrow> length q < length s"
  by (induction s arbitrary: q) (auto split: option.splits if_splits)

function stem :: "string \<Rightarrow> string" where
  "stem name =
     (if has_suffix name ''.tmp'' then stem (trim_suffix ''.tmp'' name)
      else if isHookSpoolClaimFile name then stem (the (before_claim name))
      else if has_suffix name ''.json'' then trim_suffix ''.json'' name
      else trim_suffix ''.inflight'' name)"
  by pat_completeness auto
termination
proof (relation "measure length")
  fix name assume "has_suffix name ''.tmp''"
  then show "(trim_suffix ''.tmp'' name, name) \<in> measure length"
    by (auto simp: trim_suffix_def dest: suffix_length_le)
next
  fix name assume "isHookSpoolClaimFile name"
  then show "(the (before_claim name), name) \<in> measure length"
    using before_claim_shorter [of name] by (auto simp: isHookSpoolClaimFile_def split: option.splits)
qed simp

declare stem.simps [simp del]

definition is_tmp :: "spool_path \<Rightarrow> bool" where
  "is_tmp p \<longleftrightarrow> has_suffix (snd p) ''.tmp''"

definition stem_key :: "spool_path \<Rightarrow> bool \<times> string" where
  "stem_key p = (fst p, stem (snd p))"

definition own :: "spool_path \<Rightarrow> string \<Rightarrow> gotime \<Rightarrow> Spool \<Rightarrow> Spool" where
  "own p rc t d = d\<lparr>sp_owner := AList.update (stem_key p) (rc, t) (sp_owner d),
                  sp_collided := (sp_collided d \<or> map_of (sp_owner d) (stem_key p) \<noteq> None)\<rparr>"

definition put_file :: "spool_path \<Rightarrow> SpoolContent \<Rightarrow> Spool \<Rightarrow> Spool" where
  "put_file p c d = d\<lparr>sp_files := AList.update p \<lparr>sf_content = c, sf_mtime = sp_now d\<rparr> (sp_files d)\<rparr>"

definition rename_file :: "spool_path \<Rightarrow> spool_path \<Rightarrow> Spool \<Rightarrow> (spool_error + unit) \<times> Spool" where
  "rename_file p q d =
     (case spool_lookup d p of
        None \<Rightarrow> (Inl SpoolNotExist, d)
      | Some f \<Rightarrow> (Inr (), d\<lparr>sp_files := AList.update q f (AList.delete p (sp_files d))\<rparr>))"

definition sys_rename :: "spool_path \<Rightarrow> spool_path \<Rightarrow> unit sp" where
  "sys_rename p q = callSp (rename_file p q) (\<lambda>d. d)"

text \<open>A rename to a name that was just drawn.\<close>

definition sys_rename_drawn :: "spool_path \<Rightarrow> spool_path \<Rightarrow> unit sp" where
  "sys_rename_drawn p q = callSp (\<lambda>d.
     case spool_lookup d p of
       None \<Rightarrow> (Inl SpoolNotExist, d)
     | Some f \<Rightarrow> rename_file p q (own q (receipt_of (sf_content f)) (sf_mtime f) d)) (\<lambda>d. d)"

definition sys_remove :: "spool_path \<Rightarrow> unit sp" where
  "sys_remove p = callSp (\<lambda>d. case spool_lookup d p of
       None \<Rightarrow> (Inl SpoolNotExist, d)
     | Some f \<Rightarrow> (Inr (), d\<lparr>sp_files := AList.delete p (sp_files d)\<rparr>)) (\<lambda>d. d)"

definition sys_prune :: "spool_path \<Rightarrow> gotime \<Rightarrow> unit sp" where
  "sys_prune p now = callSp (\<lambda>d. case spool_lookup d p of
       None \<Rightarrow> (Inl SpoolNotExist, d)
     | Some f \<Rightarrow> (Inr (), d\<lparr>sp_files := AList.delete p (sp_files d), sp_pruned := (receipt_of (sf_content f), sf_mtime f, now) # sp_pruned d\<rparr>)) (\<lambda>d. d)"

text \<open>Writing a temporary file; an interrupted write leaves bytes that do not decode.\<close>

definition sys_write :: "spool_path \<Rightarrow> SpoolRecord \<Rightarrow> unit sp" where
  "sys_write p r = callSp (\<lambda>d. (Inr (), put_file p (Decodes (json_record r)) d)) (put_file p (Undecodable []))"

text \<open>The first write under a name that was just drawn.\<close>

definition sys_write_drawn :: "spool_path \<Rightarrow> SpoolRecord \<Rightarrow> unit sp" where
  "sys_write_drawn p r = callSp (\<lambda>d. (Inr (), put_file p (Decodes (json_record r)) (own p (sr_receipt_id r) (sp_now d) d)))
     (\<lambda>d. put_file p (Undecodable []) (own p (sr_receipt_id r) (sp_now d) d))"

text \<open>The rename that publishes a record for the first time.\<close>

definition sys_publish :: "spool_path \<Rightarrow> spool_path \<Rightarrow> string \<Rightarrow> unit sp" where
  "sys_publish p q rc = callSp (\<lambda>d. case rename_file p q d of
       (Inl e, d') \<Rightarrow> (Inl e, d') | (Inr x, d') \<Rightarrow> (Inr x, d'\<lparr>sp_persisted := rc # sp_persisted d'\<rparr>)) (\<lambda>d. d)"

definition sys_touch :: "spool_path \<Rightarrow> unit sp" where
  "sys_touch p = callSp (\<lambda>d. case spool_lookup d p of
       None \<Rightarrow> (Inl SpoolNotExist, d)
     | Some f \<Rightarrow> (Inr (), d\<lparr>sp_files := AList.update p (f\<lparr>sf_mtime := sp_now d\<rparr>) (sp_files d)\<rparr>)) (\<lambda>d. d)"

definition sys_stat :: "spool_path \<Rightarrow> gotime sp" where
  "sys_stat p = readSp (\<lambda>d. case spool_lookup d p of None \<Rightarrow> Inl SpoolNotExist | Some f \<Rightarrow> Inr (sf_mtime f))"

definition sys_exists :: "spool_path \<Rightarrow> bool sp" where
  "sys_exists p = readSp (\<lambda>d. Inr (spool_lookup d p \<noteq> None))"

definition readHookSpoolFile :: "spool_path \<Rightarrow> SpoolContent sp" where
  "readHookSpoolFile p = readSp (\<lambda>d. case spool_lookup d p of
     None \<Rightarrow> Inl SpoolNotExist
   | Some f \<Rightarrow> (if sf_content f = NotRegular then Inl (SpoolError ''hook spool record is not a regular file'') else Inr (sf_content f)))"

text \<open>The base names of a directory in the order of \<open>os.ReadDir\<close>; a missing directory has no entries.\<close>

definition sys_read_dir :: "bool \<Rightarrow> string list sp" where
  "sys_read_dir dead = readSp (\<lambda>d. Inr (sort (remdups (map (snd \<circ> fst) (filter (\<lambda>(p, _). fst p = dead) (sp_files d))))))"

text \<open>The check of the context, which may have been cancelled.\<close>

definition ctx_err :: "unit sp" where
  "ctx_err s = (case callSp (\<lambda>d. (Inr (), d)) (\<lambda>d. d) s of
     (Inr x, s') \<Rightarrow> (Inr x, s')
   | (Inl e, s') \<Rightarrow> (Inl (if e = SpoolKilled then SpoolKilled else SpoolCancelled), s'))"

text \<open>
  A handler outside this file delivers a record: it returns nil after the delivery is committed, or it fails,
  before or after committing.
\<close>

definition deliver :: "string \<Rightarrow> unit sp" where
  "deliver rc = callSp (\<lambda>d. (Inr (), d\<lparr>sp_delivered := rc # sp_delivered d\<rparr>)) (\<lambda>d. d)"

end
