(* ===== verification/Spool.thy ===== *)
theory Spool
  imports Spool_Disk
begin

text \<open>
  The operations on the spool: persisting the current hook event, claiming, replaying, requeueing and
  dead-lettering records, and the repair of the doctor command.
\<close>

section \<open>Policies\<close>

abbreviation "hookSpoolReplayBatchLimit \<equiv> 5 :: int"
abbreviation "hookSpoolReplayBacklogCap \<equiv> 32 :: int"
abbreviation "hookSpoolDoctorDrainRoundLimit \<equiv> 200 :: int"
abbreviation "hookSpoolRetryLimit \<equiv> 3 :: int"
abbreviation "packagedHostBudget \<equiv> 10 * second"
abbreviation "hookSpoolDrainReserve \<equiv> 2 * second"
abbreviation "hookSpoolDrainLowHeadroom \<equiv> 4 * second"
abbreviation "hookSpoolInflightStaleAge \<equiv> 60 * second"
abbreviation "hookSpoolDeadRetention \<equiv> 14 * 24 * hour"
abbreviation "hookSpoolDeadPruneLimit \<equiv> 200 :: int"
abbreviation "hookSpoolDeadRequeueLimit \<equiv> 200 :: int"
abbreviation "hookSpoolDeadRequeueDoctorWall \<equiv> 45 * second"

definition hookSpoolDrainAllowance :: "int \<Rightarrow> int" where
  "hookSpoolDrainAllowance remaining =
     (if remaining \<le> hookSpoolDrainReserve then 0
      else if remaining < hookSpoolDrainLowHeadroom then 1
      else hookSpoolReplayBatchLimit)"

definition hookSpoolBacklogDrainLimit :: "int \<Rightarrow> int \<Rightarrow> int" where
  "hookSpoolBacklogDrainLimit pending remaining =
     (let allowance = hookSpoolDrainAllowance remaining
      in if allowance \<le> 1 then allowance
         else (let pending' = (if pending < 0 then 0 else pending);
                   scaled = pending' div 100;
                   scaled' = (if scaled < hookSpoolReplayBatchLimit then hookSpoolReplayBatchLimit else scaled)
               in if scaled' > hookSpoolReplayBacklogCap then hookSpoolReplayBacklogCap else scaled'))"

definition hookSpoolDrainRemaining :: "gotime option \<Rightarrow> gotime \<Rightarrow> gotime \<Rightarrow> int" where
  "hookSpoolDrainRemaining deadline startedAt now =
     (case deadline of Some t \<Rightarrow> time_sub t now | None \<Rightarrow> packagedHostBudget - time_sub now startedAt)"

definition shouldDeadLetter :: "int \<Rightarrow> bool" where
  "shouldDeadLetter attempt \<longleftrightarrow> attempt \<ge> hookSpoolRetryLimit"

definition contains_sub :: "string \<Rightarrow> string \<Rightarrow> bool" where
  "contains_sub s m \<longleftrightarrow> list_ex (\<lambda>i. prefix m (drop i s)) [0..<Suc (length s)]"

definition hookSpoolDeadLetterRequeueable :: "string \<Rightarrow> bool" where
  "hookSpoolDeadLetterRequeueable lastError =
     (let msg = map to_lower (trim_space lastError)
      in msg \<noteq> '''' \<and> list_ex (contains_sub msg)
           [''context deadline exceeded'', ''database is locked'', ''failed to ping sqlite db'',
            ''invalid kimi usage record metadata'', ''conflicting duplicate claude assistant usage''])"

section \<open>Renames of single records\<close>

text \<open>\<open>os.IsNotExist\<close> does not look through an error that \<open>xerrors.Errorf\<close> wrapped.\<close>

definition wrapped :: "'a sp \<Rightarrow> 'a sp" where
  "wrapped m s = (case m s of
     (Inl e, s') \<Rightarrow> (Inl (if e = SpoolNotExist then SpoolError ''wrapped'' else e), s') | (Inr x, s') \<Rightarrow> (Inr x, s'))"

definition persistHookSpoolRecordWithSuffix :: "SpoolRecord \<Rightarrow> string \<Rightarrow> spool_path sp" where
  "persistHookSpoolRecordWithSuffix record' sfx =
     bindSp randomSp (\<lambda>random.
     (let base = spool_stamp (sr_created_at record') @ ''-'' @ sanitizeHookStateKey (sr_client record') @ ''-'' @ random @ sfx;
          path = (False, base); tmpPath = (False, base @ ''.tmp'')
      in bindSp (wrapped (sys_write_drawn tmpPath record')) (\<lambda>_.
         bindSp (trySp (sys_publish tmpPath path (sr_receipt_id record'))) (\<lambda>r.
           case r of
             Inl e \<Rightarrow> bindSp (ignoreSp (sys_remove tmpPath)) (\<lambda>_. wrapped (failSp e))
           | Inr _ \<Rightarrow> retSp path))))"

definition persistHookSpoolRecord :: "SpoolRecord \<Rightarrow> spool_path sp" where
  "persistHookSpoolRecord record' = persistHookSpoolRecordWithSuffix record' ''.json''"

definition persistCurrentHookSpoolRecord :: "SpoolRecord \<Rightarrow> spool_path sp" where
  "persistCurrentHookSpoolRecord record' = persistHookSpoolRecordWithSuffix record' ''.inflight''"

definition replayablePathForCurrentHookSpool :: "spool_path \<Rightarrow> spool_path" where
  "replayablePathForCurrentHookSpool p = (fst p, trim_suffix ''.inflight'' (snd p) @ ''.json'')"

definition promoteCurrentHookSpoolRecord :: "spool_path \<Rightarrow> unit sp" where
  "promoteCurrentHookSpoolRecord path =
     (if \<not> has_suffix (snd path) ''.inflight'' then failSp (SpoolError ''current hook spool path must end with .inflight'')
      else wrapped (sys_rename path (replayablePathForCurrentHookSpool path)))"

definition clearCurrentHookSpoolRecord :: "spool_path \<Rightarrow> unit sp" where
  "clearCurrentHookSpoolRecord path =
     bindSp (trySp (sys_remove path)) (\<lambda>r.
       case r of
         Inr _ \<Rightarrow> retSp ()
       | Inl e \<Rightarrow>
           if e \<noteq> SpoolNotExist then failSp e
           else bindSp (trySp (sys_remove (replayablePathForCurrentHookSpool path))) (\<lambda>r'.
                  case r' of Inr _ \<Rightarrow> retSp () | Inl e' \<Rightarrow> if e' = SpoolNotExist then retSp () else failSp e'))"

definition retry_name :: "gotime \<Rightarrow> string \<Rightarrow> string" where
  "retry_name t random = ''zz-retry-'' @ spool_stamp t @ ''-'' @ random @ ''.json''"

definition renameHookSpoolRecordToRetryTail :: "spool_path \<Rightarrow> unit sp" where
  "renameHookSpoolRecordToRetryTail path =
     bindSp randomSp (\<lambda>random. bindSp nowSp (\<lambda>now. wrapped (sys_rename_drawn path (fst path, retry_name now random))))"

definition renameHookSpoolRecordToDead :: "spool_path \<Rightarrow> unit sp" where
  "renameHookSpoolRecordToDead path =
     bindSp randomSp (\<lambda>random. bindSp nowSp (\<lambda>now.
     wrapped (sys_rename_drawn path (True, ''dead-'' @ spool_stamp now @ ''-'' @ random @ ''.json''))))"

section \<open>Stale records\<close>

fun recover_current :: "gotime \<Rightarrow> string list \<Rightarrow> unit sp" where
  "recover_current now [] = retSp ()"
| "recover_current now (name # names) =
     (if \<not> has_suffix name ''.inflight'' then recover_current now names
      else bindSp (wrapped (sys_stat (False, name))) (\<lambda>modTime.
             if time_sub now modTime < hookSpoolInflightStaleAge then recover_current now names
             else bindSp (trySp (promoteCurrentHookSpoolRecord (False, name))) (\<lambda>r.
                    case r of
                      Inr _ \<Rightarrow> recover_current now names
                    | Inl e \<Rightarrow> if e = SpoolNotExist then recover_current now names else failSp e)))"

definition recoverStaleCurrentHookSpoolRecords :: "gotime \<Rightarrow> unit sp" where
  "recoverStaleCurrentHookSpoolRecords now = bindSp (sys_read_dir False) (recover_current now)"

definition releaseStaleClaimedHookSpoolRecord :: "spool_path \<Rightarrow> unit sp" where
  "releaseStaleClaimedHookSpoolRecord claimedPath =
     (if \<not> isHookSpoolClaimFile (snd claimedPath) then failSp (SpoolError ''claimed hook spool path is malformed'')
      else (let restored = (fst claimedPath, the (before_claim (snd claimedPath)))
            in bindSp (sys_exists restored) (\<lambda>occupied.
               if occupied then renameHookSpoolRecordToRetryTail claimedPath
               else bindSp (trySp (sys_rename claimedPath restored)) (\<lambda>r.
                      case r of
                        Inr _ \<Rightarrow> retSp ()
                      | Inl e \<Rightarrow> if e = SpoolNotExist then wrapped (failSp e)
                                 else renameHookSpoolRecordToRetryTail claimedPath))))"

fun recover_claimed :: "gotime \<Rightarrow> string list \<Rightarrow> unit sp" where
  "recover_claimed now [] = retSp ()"
| "recover_claimed now (name # names) =
     (if \<not> isHookSpoolClaimFile name then recover_claimed now names
      else bindSp (wrapped (sys_stat (False, name))) (\<lambda>modTime.
             if time_sub now modTime < hookSpoolInflightStaleAge then recover_claimed now names
             else bindSp (trySp (releaseStaleClaimedHookSpoolRecord (False, name))) (\<lambda>r.
                    case r of
                      Inr _ \<Rightarrow> recover_claimed now names
                    | Inl e \<Rightarrow> if e = SpoolNotExist then recover_claimed now names else failSp e)))"

definition recoverStaleClaimedHookSpoolRecords :: "gotime \<Rightarrow> unit sp" where
  "recoverStaleClaimedHookSpoolRecords now = bindSp (sys_read_dir False) (recover_claimed now)"

section \<open>Claims, requeues and replays\<close>

text \<open>The flag is false when another process won the record.\<close>

definition claimHookSpoolRecord :: "spool_path \<Rightarrow> (spool_path \<times> bool) sp" where
  "claimHookSpoolRecord path =
     (if \<not> has_suffix (snd path) ''.json'' then failSp (SpoolError ''hook spool claim source must end with .json'')
      else bindSp randomSp (\<lambda>random.
        (let claimedPath = (fst path, snd path @ hookSpoolClaimMarker @ random)
         in bindSp (trySp (sys_rename path claimedPath)) (\<lambda>r.
              case r of
                Inl e \<Rightarrow> if e = SpoolNotExist then retSp (path, False) else failSp e
              | Inr _ \<Rightarrow> bindSp (ignoreSp (sys_touch claimedPath)) (\<lambda>_. retSp (claimedPath, True))))))"

definition loadClaimedHookSpoolRecord :: "spool_path \<Rightarrow> SpoolRecord option sp" where
  "loadClaimedHookSpoolRecord claimedPath =
     bindSp (readHookSpoolFile claimedPath) (\<lambda>c. retSp (case c of Decodes r \<Rightarrow> Some r | _ \<Rightarrow> None))"

definition writeHookSpoolRecordAtomic :: "spool_path \<Rightarrow> SpoolRecord \<Rightarrow> unit sp" where
  "writeHookSpoolRecordAtomic path record' =
     (let tmpPath = (fst path, snd path @ ''.tmp'')
      in bindSp (wrapped (sys_write tmpPath record')) (\<lambda>_.
         bindSp (trySp (sys_rename tmpPath path)) (\<lambda>r.
           case r of Inr _ \<Rightarrow> retSp () | Inl e \<Rightarrow> bindSp (ignoreSp (sys_remove tmpPath)) (\<lambda>_. wrapped (failSp e)))))"

definition parseHookSpoolRecordForRequeue :: "SpoolContent \<Rightarrow> SpoolRecord option" where
  "parseHookSpoolRecordForRequeue c = (case c of Decodes r \<Rightarrow> Some r | _ \<Rightarrow> None)"

definition raw_record :: "SpoolContent \<Rightarrow> gotime \<Rightarrow> SpoolRecord" where
  "raw_record c now =
     \<lparr>sr_command = '''', sr_client = '''', sr_action = '''', sr_db_path = '''',
      sr_payload = (case c of Undecodable data \<Rightarrow> data | _ \<Rightarrow> ''''), sr_created_at = utc now,
      sr_receipt_id = '''', sr_resolved_workspace = None, sr_workspace_capture_failed = False, sr_attempt_count = 0,
      sr_last_error = ''''\<rparr>"

text \<open>\<open>AttemptCount++\<close> on a 64-bit \<open>int\<close>.\<close>

definition next_attempt :: "int \<Rightarrow> int" where
  "next_attempt n = (if n = 2 ^ 63 - 1 then - (2 ^ 63) else n + 1)"

definition failed_attempt :: "SpoolRecord \<Rightarrow> string \<Rightarrow> SpoolRecord" where
  "failed_attempt r lastError =
     r\<lparr>sr_attempt_count := next_attempt (sr_attempt_count r),
       sr_last_error := (if trim_space lastError \<noteq> '''' then trim_space lastError else sr_last_error r)\<rparr>"

definition requeueHookSpoolRecord :: "spool_path \<Rightarrow> string \<Rightarrow> unit sp" where
  "requeueHookSpoolRecord path lastError =
     bindSp (trySp (readHookSpoolFile path)) (\<lambda>r.
       case r of
         Inl _ \<Rightarrow> renameHookSpoolRecordToDead path
       | Inr c \<Rightarrow> bindSp nowSp (\<lambda>now.
           (let record' = failed_attempt (case parseHookSpoolRecordForRequeue c of Some q \<Rightarrow> q | None \<Rightarrow> raw_record c now) lastError
            in bindSp (writeHookSpoolRecordAtomic path record') (\<lambda>_.
               if shouldDeadLetter (sr_attempt_count record') then renameHookSpoolRecordToDead path
               else renameHookSpoolRecordToRetryTail path))))"

text \<open>The handlers that a replayed record is routed to.\<close>

definition spool_commands :: "string list" where
  "spool_commands = [''passive'', ''session'', ''audit'', ''compact'', ''subagent-start'', ''subagent-stop'', ''prompt'',
     ''transcript'', ''usage'']"

definition replayAntigravitySpoolRecord :: "string list" where
  "replayAntigravitySpoolRecord = [''pre-invocation'', ''pre-tool-use'', ''post-tool-use'', ''stop'']"

definition replayGrokSpoolRecord :: "string list" where
  "replayGrokSpoolRecord = [''session-start'', ''user-prompt-submit'', ''pre-tool-use'', ''post-tool-use'', ''stop'',
     ''pre-compact'', ''post-compact'']"

definition replayKimiSpoolRecord :: "string list" where
  "replayKimiSpoolRecord = [''session-start'', ''session-end'', ''user-prompt-submit'', ''pre-tool-use'', ''post-tool-use'',
     ''post-tool-use-failure'', ''stop'', ''subagent-stop'', ''pre-compact'', ''post-compact'']"

definition replayMuseSpoolRecord :: "string list" where
  "replayMuseSpoolRecord = [''session-start'', ''user-prompt-submit'', ''pre-tool-use'', ''post-tool-use'',
     ''post-tool-use-failure'', ''stop'', ''pre-compact'', ''post-compact'']"

definition replay_supported :: "SpoolRecord \<Rightarrow> bool" where
  "replay_supported r =
     (let command = trim_space (sr_command r); action = trim_space (sr_action r)
      in if command = ''antigravity'' then List.member replayAntigravitySpoolRecord action
         else if command = ''grok'' then List.member replayGrokSpoolRecord action
         else if command = ''kimi'' then List.member replayKimiSpoolRecord action
         else if command = ''muse'' then List.member replayMuseSpoolRecord action
         else List.member spool_commands command)"

definition replayHookSpoolRecord :: "SpoolRecord \<Rightarrow> unit sp" where
  "replayHookSpoolRecord r =
     (if replay_supported r then deliver (sr_receipt_id r) else failSp (SpoolError ''unsupported hook spool command''))"

section \<open>Draining\<close>

definition listHookSpoolRecordPaths :: "spool_path list sp" where
  "listHookSpoolRecordPaths =
     bindSp (wrapped (sys_read_dir False)) (\<lambda>names. retSp (map (Pair False) (filter (\<lambda>n. has_suffix n ''.json'') names)))"

definition countHookSpoolRecordPaths :: "int sp" where
  "countHookSpoolRecordPaths = bindSp listHookSpoolRecordPaths (\<lambda>paths. retSp (int (length paths)))"

fun count_stale_inflight :: "gotime \<Rightarrow> int \<Rightarrow> string list \<Rightarrow> int sp" where
  "count_stale_inflight now count [] = retSp count"
| "count_stale_inflight now count (name # names) =
     (if \<not> has_suffix name ''.inflight'' then count_stale_inflight now count names
      else bindSp (wrapped (sys_stat (False, name))) (\<lambda>modTime.
             count_stale_inflight now (if time_sub now modTime \<ge> hookSpoolInflightStaleAge then count + 1 else count) names))"

definition countHookSpoolPendingPaths :: "gotime \<Rightarrow> int sp" where
  "countHookSpoolPendingPaths now =
     bindSp listHookSpoolRecordPaths (\<lambda>paths. bindSp (wrapped (sys_read_dir False)) (\<lambda>names.
     count_stale_inflight now (int (length paths)) names))"

record DrainResult =
  dr_replayed :: int
  dr_failed :: int
  dr_unreadable :: int
  dr_remaining :: int
  dr_err :: "spool_error option"

definition no_drain :: DrainResult where
  "no_drain = \<lparr>dr_replayed = 0, dr_failed = 0, dr_unreadable = 0, dr_remaining = 0, dr_err = None\<rparr>"

definition error_text :: "spool_error \<Rightarrow> string" where
  "error_text e = (case e of SpoolError msg \<Rightarrow> msg | SpoolNotExist \<Rightarrow> ''file does not exist''
     | SpoolCancelled \<Rightarrow> ''context canceled'' | MaintenancePending \<Rightarrow> ''store maintenance pending'' | SpoolKilled \<Rightarrow> '''')"

definition drain_unreadable :: "spool_path \<Rightarrow> DrainResult \<Rightarrow> DrainResult sp" where
  "drain_unreadable claimedPath result =
     bindSp (ignoreSp (requeueHookSpoolRecord claimedPath ''unreadable hook spool record'')) (\<lambda>_.
     retSp (result\<lparr>dr_unreadable := dr_unreadable result + 1\<rparr>))"

definition drain_failed :: "spool_path \<Rightarrow> spool_error \<Rightarrow> DrainResult \<Rightarrow> DrainResult sp" where
  "drain_failed claimedPath e result =
     bindSp (ignoreSp (requeueHookSpoolRecord claimedPath (error_text e))) (\<lambda>_.
     retSp (result\<lparr>dr_failed := dr_failed result + 1\<rparr>))"

definition drain_delivered :: "spool_path \<Rightarrow> DrainResult \<Rightarrow> DrainResult sp" where
  "drain_delivered claimedPath result =
     bindSp (trySp (sys_remove claimedPath)) (\<lambda>removed.
       case removed of
         Inl e \<Rightarrow> if e = SpoolNotExist then retSp (result\<lparr>dr_replayed := dr_replayed result + 1\<rparr>)
                  else drain_failed claimedPath e result
       | Inr _ \<Rightarrow> retSp (result\<lparr>dr_replayed := dr_replayed result + 1\<rparr>))"

definition drain_record :: "spool_path \<Rightarrow> SpoolRecord \<Rightarrow> DrainResult \<Rightarrow> DrainResult sp" where
  "drain_record claimedPath record' result =
     (if shouldDeadLetter (sr_attempt_count record')
      then bindSp (ignoreSp (renameHookSpoolRecordToDead claimedPath)) (\<lambda>_. retSp result)
      else bindSp (trySp (replayHookSpoolRecord record')) (\<lambda>replayed.
        case replayed of
          Inl e \<Rightarrow> drain_failed claimedPath e result
        | Inr _ \<Rightarrow> drain_delivered claimedPath result))"

definition drain_claimed :: "spool_path \<Rightarrow> DrainResult \<Rightarrow> DrainResult sp" where
  "drain_claimed claimedPath result =
     bindSp (trySp (loadClaimedHookSpoolRecord claimedPath)) (\<lambda>loaded.
       case loaded of
         Inl _ \<Rightarrow> drain_unreadable claimedPath result
       | Inr found \<Rightarrow> (case found of None \<Rightarrow> drain_unreadable claimedPath result
                                   | Some record' \<Rightarrow> drain_record claimedPath record' result))"

definition past_deadline :: "gotime \<Rightarrow> bool sp" where
  "past_deadline deadline = (if is_zero deadline then retSp False else bindSp nowSp (\<lambda>now. retSp (\<not> before now deadline)))"

fun drain_paths :: "int \<Rightarrow> gotime \<Rightarrow> int \<Rightarrow> DrainResult \<Rightarrow> spool_path list \<Rightarrow> DrainResult sp" where
  "drain_paths limit deadline claimed result [] = retSp result"
| "drain_paths limit deadline claimed result (path # paths) =
     (if claimed \<ge> limit then retSp result
      else bindSp (trySp ctx_err) (\<lambda>cancelled.
        case cancelled of
          Inl _ \<Rightarrow> retSp result
        | Inr _ \<Rightarrow> bindSp (past_deadline deadline) (\<lambda>late.
            if late then retSp result
            else bindSp (trySp (claimHookSpoolRecord path)) (\<lambda>claim.
              case claim of
                Inl _ \<Rightarrow> drain_paths limit deadline claimed result paths
              | Inr won \<Rightarrow>
                  if \<not> snd won then drain_paths limit deadline claimed result paths
                  else bindSp (drain_claimed (fst won) result) (\<lambda>result'.
                         drain_paths limit deadline (claimed + 1) result' paths)))))"

definition with_count :: "DrainResult \<Rightarrow> int sp \<Rightarrow> DrainResult sp" where
  "with_count result m = bindSp (trySp m) (\<lambda>r.
     case r of Inl e \<Rightarrow> retSp (result\<lparr>dr_remaining := 0, dr_err := Some e\<rparr>)
             | Inr n \<Rightarrow> retSp (result\<lparr>dr_remaining := n, dr_err := None\<rparr>))"

text \<open>An error ends the drain with a result that carries it.\<close>

definition or_result :: "'a sp \<Rightarrow> ('a \<Rightarrow> DrainResult sp) \<Rightarrow> DrainResult sp" where
  "or_result m k = bindSp (trySp m) (\<lambda>r. case r of Inl e \<Rightarrow> retSp (no_drain\<lparr>dr_err := Some e\<rparr>) | Inr x \<Rightarrow> k x)"

definition drainHookSpoolRecordsDetailed :: "int \<Rightarrow> gotime \<Rightarrow> DrainResult sp" where
  "drainHookSpoolRecordsDetailed limit deadline =
     bindSp nowSp (\<lambda>now.
     or_result (recoverStaleCurrentHookSpoolRecords now) (\<lambda>_.
     or_result (recoverStaleClaimedHookSpoolRecords now) (\<lambda>_.
     if limit \<le> 0 then with_count no_drain (countHookSpoolPendingPaths now)
     else or_result listHookSpoolRecordPaths (\<lambda>paths.
          bindSp (drain_paths limit deadline 0 no_drain paths) (\<lambda>result.
          with_count result countHookSpoolRecordPaths)))))"

definition drainHookSpoolRecords :: "int \<Rightarrow> (int \<times> int) sp" where
  "drainHookSpoolRecords limit =
     bindSp (drainHookSpoolRecordsDetailed limit zero_time) (\<lambda>r. retSp (dr_replayed r, dr_failed r + dr_unreadable r))"

section \<open>The current hook\<close>

text \<open>
  The handler of the current event commits the record and returns nil, fails, or reports pending store
  maintenance. The result is that of the command that \<open>runHookBestEffort\<close> wraps.
\<close>

record hookInvocationSpec =
  his_command :: string
  his_client :: string
  his_action :: string
  his_db_path :: string

text \<open>What the run meets: the payload, the captured workspace, the deadline of its context and the store.\<close>

record HookRun =
  hr_payload :: string
  hr_workspace :: "string option"
  hr_capture_failed :: bool
  hr_deadline :: "gotime option"
  hr_maintenance :: bool

definition boundedPassiveHook :: "hookInvocationSpec \<Rightarrow> bool" where
  "boundedPassiveHook spec \<longleftrightarrow> his_command spec = ''passive''"

definition current_record :: "hookInvocationSpec \<Rightarrow> HookRun \<Rightarrow> gotime \<Rightarrow> string \<Rightarrow> SpoolRecord" where
  "current_record spec h now receipt =
     \<lparr>sr_command = trim_space (his_command spec), sr_client = trim_space (his_client spec),
      sr_action = trim_space (his_action spec), sr_db_path = trim_space (his_db_path spec),
      sr_payload = hr_payload h, sr_created_at = utc now, sr_receipt_id = ''spool:'' @ receipt,
      sr_resolved_workspace = hr_workspace h, sr_workspace_capture_failed = hr_capture_failed h,
      sr_attempt_count = 0, sr_last_error = []\<rparr>"

definition run_current :: "HookRun \<Rightarrow> SpoolRecord \<Rightarrow> unit sp" where
  "run_current h record' = (if hr_maintenance h then failSp MaintenancePending else deliver (sr_receipt_id record'))"

definition opportunistic_drain :: "hookInvocationSpec \<Rightarrow> HookRun \<Rightarrow> gotime \<Rightarrow> unit sp" where
  "opportunistic_drain spec h startedAt =
     (if boundedPassiveHook spec then retSp ()
      else bindSp (trySp ctx_err) (\<lambda>cancelled.
        case cancelled of
          Inl _ \<Rightarrow> retSp ()
        | Inr _ \<Rightarrow> bindSp nowSp (\<lambda>now. bindSp (trySp (countHookSpoolPendingPaths now)) (\<lambda>counted.
            (let pending = (case counted of Inl _ \<Rightarrow> 0 | Inr n \<Rightarrow> n);
                 limit = hookSpoolBacklogDrainLimit pending (hookSpoolDrainRemaining (hr_deadline h) startedAt now)
             in if limit > 0 then bindSp (drainHookSpoolRecords limit) (\<lambda>_. retSp ()) else retSp ())))))"

text \<open>A record that cannot be persisted is handled without the spool.\<close>

definition run_recorded :: "hookInvocationSpec \<Rightarrow> HookRun \<Rightarrow> gotime \<Rightarrow> SpoolRecord \<Rightarrow> unit sp" where
  "run_recorded spec h startedAt record' =
     bindSp (trySp (persistCurrentHookSpoolRecord record')) (\<lambda>persisted.
       case persisted of
         Inl _ \<Rightarrow> run_current h record'
       | Inr path \<Rightarrow>
           bindSp (trySp ctx_err) (\<lambda>cancelled.
             case cancelled of
               Inl e \<Rightarrow> bindSp (ignoreSp (promoteCurrentHookSpoolRecord path)) (\<lambda>_. failSp e)
             | Inr _ \<Rightarrow> bindSp (trySp (run_current h record')) (\<lambda>ran.
                 case ran of
                   Inl e \<Rightarrow> bindSp (ignoreSp (promoteCurrentHookSpoolRecord path)) (\<lambda>_.
                              if e = MaintenancePending then retSp () else failSp e)
                 | Inr _ \<Rightarrow> bindSp (clearCurrentHookSpoolRecord path) (\<lambda>_. opportunistic_drain spec h startedAt))))"

definition runHookDurably :: "hookInvocationSpec \<Rightarrow> HookRun \<Rightarrow> unit sp" where
  "runHookDurably spec h =
     bindSp nowSp (\<lambda>startedAt. bindSp randomSp (\<lambda>receipt. bindSp nowSp (\<lambda>now.
     run_recorded spec h startedAt (current_record spec h now receipt))))"

section \<open>Repair\<close>

text \<open>The counts of a pass over the dead letters: requeued, skipped and remaining.\<close>

definition requeue_dead :: "spool_path \<Rightarrow> gotime \<Rightarrow> SpoolRecord \<Rightarrow> unit sp" where
  "requeue_dead path now record' =
     bindSp randomSp (\<lambda>random.
     (let dest = (False, retry_name now random)
      in bindSp (wrapped (sys_rename_drawn path dest)) (\<lambda>_.
         writeHookSpoolRecordAtomic dest (record'\<lparr>sr_attempt_count := 0, sr_last_error := ''''\<rparr>))))"

fun requeue_dead_names :: "gotime \<Rightarrow> bool \<Rightarrow> int \<Rightarrow> int \<times> int \<times> int \<Rightarrow> string list \<Rightarrow> (int \<times> int \<times> int) sp" where
  "requeue_dead_names now dryRun limit counts [] = retSp counts"
| "requeue_dead_names now dryRun limit counts (name # names) =
     bindSp ctx_err (\<lambda>_.
       (case counts of (requeued, skipped, remaining) \<Rightarrow>
        if \<not> has_suffix name ''.json'' then requeue_dead_names now dryRun limit counts names
        else bindSp (trySp (readHookSpoolFile (True, name))) (\<lambda>r.
          (let skip = requeue_dead_names now dryRun limit (requeued, skipped + 1, remaining + 1) names
           in case r of
                Inl _ \<Rightarrow> skip
              | Inr c \<Rightarrow>
                  (case parseHookSpoolRecordForRequeue c of
                     None \<Rightarrow> skip
                   | Some record' \<Rightarrow>
                       if \<not> hookSpoolDeadLetterRequeueable (sr_last_error record') then skip
                       else if limit > 0 \<and> requeued \<ge> limit
                       then requeue_dead_names now dryRun limit (requeued, skipped, remaining + 1) names
                       else if dryRun then requeue_dead_names now dryRun limit (requeued + 1, skipped, remaining) names
                       else bindSp (requeue_dead (True, name) now record') (\<lambda>_.
                              requeue_dead_names now dryRun limit (requeued + 1, skipped, remaining) names))))))"

definition requeueHookSpoolDeadLettersLimited :: "gotime \<Rightarrow> bool \<Rightarrow> int \<Rightarrow> (int \<times> int \<times> int) sp" where
  "requeueHookSpoolDeadLettersLimited now dryRun limit =
     bindSp (wrapped (sys_read_dir True)) (requeue_dead_names now dryRun limit (0, 0, 0))"

fun prune_names :: "bool \<Rightarrow> string \<Rightarrow> gotime \<Rightarrow> bool \<Rightarrow> int \<times> int \<Rightarrow> string list \<Rightarrow> (int \<times> int) sp" where
  "prune_names dead sfx now dryRun counts [] = retSp counts"
| "prune_names dead sfx now dryRun counts (name # names) =
     (case counts of (pruned, remaining) \<Rightarrow>
        if \<not> has_suffix name sfx then prune_names dead sfx now dryRun counts names
        else bindSp (trySp (sys_stat (dead, name))) (\<lambda>info.
          case info of
            Inl e \<Rightarrow> if e = SpoolNotExist \<and> \<not> dead then prune_names dead sfx now dryRun counts names else failSp e
          | Inr modTime \<Rightarrow>
              if \<not> before modTime (time_add now (- hookSpoolDeadRetention))
              then prune_names dead sfx now dryRun (pruned, if dead then remaining + 1 else remaining) names
              else if pruned \<ge> hookSpoolDeadPruneLimit then prune_names dead sfx now dryRun (pruned, remaining + 1) names
              else if dryRun then prune_names dead sfx now dryRun (pruned + 1, remaining) names
              else bindSp (trySp (if dead then sys_prune (dead, name) now else sys_remove (dead, name))) (\<lambda>r.
                     case r of
                       Inl e \<Rightarrow> if e = SpoolNotExist then prune_names dead sfx now dryRun (pruned + 1, remaining) names else failSp e
                     | Inr _ \<Rightarrow> prune_names dead sfx now dryRun (pruned + 1, remaining) names)))"

definition pruneHookSpoolDeadLetters :: "gotime \<Rightarrow> bool \<Rightarrow> (int \<times> int) sp" where
  "pruneHookSpoolDeadLetters now dryRun =
     bindSp (sys_read_dir True) (prune_names True ''.json'' now dryRun (0, 0))"

definition pruneHookSpoolOrphanTmpFiles :: "gotime \<Rightarrow> bool \<Rightarrow> (int \<times> int) sp" where
  "pruneHookSpoolOrphanTmpFiles now dryRun =
     bindSp (sys_read_dir False) (prune_names False ''.tmp'' now dryRun (0, 0))"

text \<open>
  The loops of the doctor command run until a round makes no progress or the deadline passes. The fuel is the
  number of rounds after which the process is taken to be killed.
\<close>

fun requeueHookSpoolDeadLettersUntil :: "nat \<Rightarrow> gotime \<Rightarrow> bool \<Rightarrow> gotime \<Rightarrow> int \<Rightarrow> (int \<times> int \<times> int) sp" where
  "requeueHookSpoolDeadLettersUntil 0 now dryRun deadline requeued = failSp SpoolKilled"
| "requeueHookSpoolDeadLettersUntil (Suc fuel) now dryRun deadline requeued =
     (if dryRun then requeueHookSpoolDeadLettersLimited now True 0
      else bindSp ctx_err (\<lambda>_. bindSp (past_deadline deadline) (\<lambda>late.
        if late
        then bindSp (requeueHookSpoolDeadLettersLimited now True 0) (\<lambda>(wouldRequeue, leftoverSkipped, leftoverRemaining).
               retSp (requeued, leftoverSkipped, leftoverRemaining + wouldRequeue))
        else bindSp (requeueHookSpoolDeadLettersLimited now False hookSpoolDeadRequeueLimit)
               (\<lambda>(batchRequeued, batchSkipped, batchRemaining).
                  if batchRequeued = 0 then retSp (requeued + batchRequeued, batchSkipped, batchRemaining)
                  else requeueHookSpoolDeadLettersUntil fuel now dryRun deadline (requeued + batchRequeued)))))"

fun drainHookSpoolRecordsUntil :: "nat \<Rightarrow> DrainResult \<Rightarrow> int \<Rightarrow> gotime \<Rightarrow> DrainResult sp" where
  "drainHookSpoolRecordsUntil 0 aggregated remaining deadline = failSp SpoolKilled"
| "drainHookSpoolRecordsUntil (Suc fuel) aggregated remaining deadline =
     (if \<not> remaining > 0 then retSp aggregated
      else bindSp (trySp ctx_err) (\<lambda>cancelled.
        case cancelled of
          Inl e \<Rightarrow> retSp (aggregated\<lparr>dr_err := Some e\<rparr>)
        | Inr _ \<Rightarrow> bindSp (past_deadline deadline) (\<lambda>late.
            if late then retSp (aggregated\<lparr>dr_remaining := remaining\<rparr>)
            else bindSp (drainHookSpoolRecordsDetailed (if remaining > hookSpoolDoctorDrainRoundLimit
                           then hookSpoolDoctorDrainRoundLimit else remaining) deadline) (\<lambda>result.
              if dr_err result \<noteq> None then retSp (aggregated\<lparr>dr_err := dr_err result, dr_remaining := dr_remaining result\<rparr>)
              else if dr_replayed result = 0
              then (if dr_replayed aggregated = 0 \<and> dr_failed aggregated = 0 \<and> dr_unreadable aggregated = 0
                    then retSp result else retSp aggregated)
              else drainHookSpoolRecordsUntil fuel
                     (aggregated\<lparr>dr_replayed := dr_replayed aggregated + dr_replayed result,
                                 dr_failed := dr_failed aggregated + dr_failed result,
                                 dr_unreadable := dr_unreadable aggregated + dr_unreadable result,
                                 dr_remaining := dr_remaining result\<rparr>) (dr_remaining result) deadline))))"

text \<open>The counts that the command reports: requeued, skipped, pruned, remaining dead letters, pruned temporary files.\<close>

definition fixHookSpoolRequeueThenDrain :: "nat \<Rightarrow> gotime \<Rightarrow> bool \<Rightarrow> ((int \<times> int \<times> int \<times> int \<times> int) \<times> DrainResult) sp" where
  "fixHookSpoolRequeueThenDrain fuel now dryRun =
     bindSp (countHookSpoolPendingPaths now) (\<lambda>pending.
     bindSp (if dryRun then retSp zero_time else bindSp nowSp (\<lambda>t. retSp (time_add t hookSpoolDeadRequeueDoctorWall))) (\<lambda>deadline.
     bindSp (requeueHookSpoolDeadLettersUntil fuel now dryRun deadline 0) (\<lambda>(requeued, skippedNontransient, _).
     bindSp (pruneHookSpoolDeadLetters now dryRun) (\<lambda>(pruned, deadRemaining).
     bindSp (pruneHookSpoolOrphanTmpFiles now dryRun) (\<lambda>(prunedTmp, _).
     (let counts = (requeued, skippedNontransient, pruned, deadRemaining, prunedTmp)
      in if dryRun then retSp (counts, no_drain\<lparr>dr_remaining := pending + requeued\<rparr>)
         else bindSp (drainHookSpoolRecordsUntil fuel no_drain (pending + requeued) deadline) (\<lambda>result.
              retSp (counts, result))))))))"

end
