(* ===== verification/Spool_Safety.thy ===== *)
theory Spool_Safety
  imports Spool
begin

text \<open>
  What interference, failures and kills can do to a spooled record. Every system call of the program keeps an
  invariant and the monotonic histories; each operation is proved under the assumption that the other processes
  do the same between any two of its steps.
\<close>

section \<open>Names\<close>

lemma has_suffix_append [simp]: "has_suffix (n @ s) s"
  by (simp add: suffix_def)

lemma trim_suffix_append [simp]: "trim_suffix s (n @ s) = n"
  by (simp add: trim_suffix_def)

lemma trim_suffix_split: "has_suffix n s \<Longrightarrow> n = trim_suffix s n @ s"
  by (auto simp: trim_suffix_def suffix_def)

lemma stem_tmp: "stem (n @ ''.tmp'') = stem n"
  by (simp only: stem.simps [of "n @ ''.tmp''"] has_suffix_append trim_suffix_append if_True)

lemma before_claim_none: "CHR ''.'' \<notin> set s \<Longrightarrow> before_claim s = None"
  by (induction s) (auto simp: hookSpoolClaimMarker_def split: option.splits)

lemma before_claim_claimed: "CHR ''.'' \<notin> set r \<Longrightarrow> before_claim (n @ hookSpoolClaimMarker @ r) = Some n"
proof (induction n)
  case Nil
  then show ?case using before_claim_none [of "''claim-'' @ r"] by (simp add: hookSpoolClaimMarker_def)
qed simp

lemma marker_apart: "prefix hookSpoolClaimMarker ((c # b) @ CHR ''.'' # t) = prefix hookSpoolClaimMarker (c # b)"
proof -
  have "prefix xs (b @ CHR ''.'' # t) = prefix xs b" if "CHR ''.'' \<notin> set xs" for xs :: string
    using that
  proof (induction xs arbitrary: b)
    case (Cons x xs)
    then show ?case by (cases b) auto
  qed simp
  then show ?thesis by (simp add: hookSpoolClaimMarker_def)
qed

lemma before_claim_append: "before_claim (CHR ''.'' # t) = None \<Longrightarrow> before_claim (b @ CHR ''.'' # t) = before_claim b"
proof (induction b)
  case (Cons c b)
  show ?case using Cons.IH [OF Cons.prems] marker_apart [of c b t] by (simp split: option.splits)
qed simp

lemma before_claim_suffix:
  "t = ''.json'' \<or> t = ''.inflight'' \<or> t = ''.tmp'' \<Longrightarrow> before_claim (b @ t) = before_claim b"
  by (elim disjE; simp only:; rule before_claim_append; simp add: hookSpoolClaimMarker_def)

lemma stem_claimed: "isHookSpoolClaimFile n \<Longrightarrow> stem (the (before_claim n)) = stem n"
proof (induction n rule: stem.induct)
  case (1 n)
  show ?case
  proof (cases "has_suffix n ''.tmp''")
    case True
    define m where "m = trim_suffix ''.tmp'' n"
    have n: "n = m @ ''.tmp''" using trim_suffix_split [OF True] by (simp add: m_def)
    have b: "before_claim n = before_claim m" unfolding n by (rule before_claim_suffix) simp
    have "isHookSpoolClaimFile m" using 1(3) b by (simp add: isHookSpoolClaimFile_def)
    then have "stem (the (before_claim m)) = stem m" using 1(1) [OF True] by (simp add: m_def)
    then show ?thesis unfolding b by (simp only: n stem_tmp)
  next
    case False
    then show ?thesis using 1(3) by (simp only: stem.simps [of n] if_True if_False)
  qed
qed

lemma not_tmp: "length s \<ge> 4 \<Longrightarrow> CHR ''.'' \<notin> set s \<Longrightarrow> \<not> has_suffix (n @ s) ''.tmp''"
proof
  assume s: "length s \<ge> 4" "CHR ''.'' \<notin> set s" and t: "has_suffix (n @ s) ''.tmp''"
  have "suffix ''.tmp'' s" by (rule suffix_length_suffix [OF t has_suffix_append]) (use s(1) in simp)
  then show False using set_mono_suffix [of "''.tmp''" s] s(2) by auto
qed

lemma stem_claim:
  assumes "has_suffix n ''.json''" "CHR ''.'' \<notin> set r"
  shows "stem (n @ hookSpoolClaimMarker @ r) = stem n"
proof -
  have "\<not> has_suffix ((n @ ''.'') @ ''claim-'' @ r) ''.tmp''" by (rule not_tmp) (use assms(2) in auto)
  then have "\<not> has_suffix (n @ hookSpoolClaimMarker @ r) ''.tmp''" by (simp add: hookSpoolClaimMarker_def)
  then show ?thesis
    using stem_claimed [of "n @ hookSpoolClaimMarker @ r"] before_claim_claimed [OF assms(2), of n] assms(1)
    by (simp add: isHookSpoolClaimFile_def)
qed

lemma suffix_apart: "length s = length t \<Longrightarrow> s \<noteq> t \<Longrightarrow> \<not> has_suffix (n @ t) s"
  by (auto simp: suffix_def)

lemma stem_promoted:
  assumes "has_suffix n ''.inflight''"
  shows "stem (trim_suffix ''.inflight'' n @ ''.json'') = stem n"
proof -
  define b where "b = trim_suffix ''.inflight'' n"
  have n: "n = b @ ''.inflight''" using trim_suffix_split [OF assms] by (simp add: b_def)
  have t: "\<not> has_suffix (b @ ''.json'') ''.tmp''" "\<not> has_suffix (b @ ''.inflight'') ''.tmp''" "\<not> has_suffix (b @ ''.inflight'') ''.json''"
    using suffix_apart [of "''.tmp''" "''json''" "b @ ''.''"] suffix_apart [of "''.tmp''" "''ight''" "b @ ''.infl''"]
      suffix_apart [of "''.json''" "''light''" "b @ ''.inf''"] by simp_all
  have c: "before_claim (b @ ''.json'') = before_claim b" "before_claim (b @ ''.inflight'') = before_claim b"
    by (rule before_claim_suffix, simp)+
  have i: "isHookSpoolClaimFile (b @ ''.json'') = isHookSpoolClaimFile b" "isHookSpoolClaimFile (b @ ''.inflight'') = isHookSpoolClaimFile b"
    by (simp_all only: isHookSpoolClaimFile_def c)
  have "stem (b @ ''.json'') = (if isHookSpoolClaimFile b then stem (the (before_claim b)) else b)"
    by (simp only: stem.simps [of "b @ ''.json''"] t i c if_False has_suffix_append if_True trim_suffix_append)
  moreover have "stem (b @ ''.inflight'') = (if isHookSpoolClaimFile b then stem (the (before_claim b)) else b)"
    by (simp only: stem.simps [of "b @ ''.inflight''"] t i c if_False trim_suffix_append)
  ultimately show ?thesis unfolding b_def [symmetric] n by simp
qed

lemma stem_persisted: "sfx = ''.inflight'' \<or> sfx = ''.json'' \<Longrightarrow> stem (b @ sfx @ ''.tmp'') = stem (b @ sfx)"
  using stem_tmp [of "b @ sfx"] by simp

section \<open>The invariant and the interference\<close>

text \<open>The receipt and the modification time of the file that the stem of a path was given to.\<close>

definition owner :: "Spool \<Rightarrow> spool_path \<Rightarrow> string option" where
  "owner d p = map_option fst (map_of (sp_owner d) (stem_key p))"

definition drawn_at :: "Spool \<Rightarrow> spool_path \<Rightarrow> gotime option" where
  "drawn_at d p = map_option snd (map_of (sp_owner d) (stem_key p))"

definition held :: "string \<Rightarrow> Spool \<Rightarrow> bool" where
  "held rc d \<longleftrightarrow> (\<exists>p f. spool_lookup d p = Some f \<and> \<not> is_tmp p \<and> receipt_of (sf_content f) = rc)"

definition receipt_accounted :: "string \<Rightarrow> Spool \<Rightarrow> bool" where
  "receipt_accounted rc d \<longleftrightarrow> rc \<in> set (sp_delivered d) \<or> rc \<in> fst ` set (sp_pruned d) \<or> held rc d"

text \<open>A pruned dead letter was unmodified for more than 14 days.\<close>

definition expired :: "string \<times> gotime \<times> gotime \<Rightarrow> bool" where
  "expired entry = (case entry of (rc, modified, now) \<Rightarrow> before modified (time_add now (- (14 * 24 * 3600 * 10 ^ 9))))"

text \<open>
  Each file bears the receipt that its name was drawn for, and a dead letter also the modification time (nothing
  writes or touches a dead letter); every persisted receipt is accounted for; what was pruned had expired.
\<close>

definition file_owned :: "Spool \<Rightarrow> spool_path \<Rightarrow> SpoolFile \<Rightarrow> bool" where
  "file_owned d p f \<longleftrightarrow> owner d p = Some (receipt_of (sf_content f)) \<and> (fst p \<longrightarrow> drawn_at d p = Some (sf_mtime f))"

definition spool_inv :: "Spool \<Rightarrow> bool" where
  "spool_inv d \<longleftrightarrow> sp_collided d \<or>
     (\<forall>p f. spool_lookup d p = Some f \<longrightarrow> file_owned d p f)
     \<and> (\<forall>rc \<in> set (sp_persisted d). rc \<noteq> [] \<longrightarrow> receipt_accounted rc d)
     \<and> list_all expired (sp_pruned d)"

text \<open>What one process may assume of the others, and what each of its own steps keeps.\<close>

definition others :: "Spool \<Rightarrow> Spool \<Rightarrow> bool" where
  "others d d' \<longleftrightarrow> (spool_inv d \<longrightarrow> spool_inv d') \<and>
     (\<not> sp_collided d' \<longrightarrow> \<not> sp_collided d \<and> (\<forall>k rc. map_of (sp_owner d) k = Some rc \<longrightarrow> map_of (sp_owner d') k = Some rc)
        \<and> set (sp_delivered d) \<subseteq> set (sp_delivered d') \<and> set (sp_persisted d) \<subseteq> set (sp_persisted d'))"

lemma others_refl [simp]: "others d d"
  by (simp add: others_def)

lemma others_trans: "others d e \<Longrightarrow> others e f \<Longrightarrow> others d f"
  unfolding others_def by blast

definition lasting :: "(Spool \<Rightarrow> bool) \<Rightarrow> bool" where
  "lasting P \<longleftrightarrow> (\<forall>d d'. others d d' \<longrightarrow> P d \<longrightarrow> P d')"

definition whole :: "spool_tick list \<Rightarrow> bool" where
  "whole ts \<longleftrightarrow> (\<forall>t \<in> set ts. tick_fault t \<noteq> FailsHalfway \<and> tick_fault t \<noteq> KilledHalfway \<and> (\<forall>d. others d (tick_others t d)))"

definition upholds :: "(Spool \<Rightarrow> bool) \<Rightarrow> 'a sp \<Rightarrow> ('a \<Rightarrow> Spool \<Rightarrow> bool) \<Rightarrow> bool" where
  "upholds P m Q \<longleftrightarrow> (\<forall>s r s'. whole (sn_ticks s) \<longrightarrow> spool_inv (sn_disk s) \<longrightarrow> P (sn_disk s) \<longrightarrow> m s = (r, s') \<longrightarrow>
     whole (sn_ticks s') \<and> others (sn_disk s) (sn_disk s') \<and> (\<forall>x. r = Inr x \<longrightarrow> Q x (sn_disk s')))"

lemma upholdsI:
  "(\<And>s r s'. whole (sn_ticks s) \<Longrightarrow> spool_inv (sn_disk s) \<Longrightarrow> P (sn_disk s) \<Longrightarrow> m s = (r, s') \<Longrightarrow>
     whole (sn_ticks s') \<and> others (sn_disk s) (sn_disk s') \<and> (\<forall>x. r = Inr x \<longrightarrow> Q x (sn_disk s'))) \<Longrightarrow> upholds P m Q"
  by (simp add: upholds_def)

lemma upholdsD:
  "upholds P m Q \<Longrightarrow> whole (sn_ticks s) \<Longrightarrow> spool_inv (sn_disk s) \<Longrightarrow> P (sn_disk s) \<Longrightarrow> m s = (r, s') \<Longrightarrow>
     whole (sn_ticks s') \<and> others (sn_disk s) (sn_disk s') \<and> (\<forall>x. r = Inr x \<longrightarrow> Q x (sn_disk s'))"
  unfolding upholds_def by blast

lemma others_inv: "others d d' \<Longrightarrow> spool_inv d \<Longrightarrow> spool_inv d'"
  by (simp add: others_def)

lemma upholds_bind: "upholds P m Q \<Longrightarrow> (\<And>x. upholds (Q x) (k x) R) \<Longrightarrow> upholds P (bindSp m k) R"
proof (rule upholdsI)
  fix s r s' assume m: "upholds P m Q" and k: "\<And>x. upholds (Q x) (k x) R"
    and s: "whole (sn_ticks s)" "spool_inv (sn_disk s)" "P (sn_disk s)" and run: "bindSp m k s = (r, s')"
  obtain r1 s1 where one: "m s = (r1, s1)" by (cases "m s")
  note t1 = upholdsD [OF m s one]
  show "whole (sn_ticks s') \<and> others (sn_disk s) (sn_disk s') \<and> (\<forall>x. r = Inr x \<longrightarrow> R x (sn_disk s'))"
  proof (cases r1)
    case (Inl e)
    then show ?thesis using run one t1 by (auto simp: bindSp_def)
  next
    case (Inr x)
    then have two: "k x s1 = (r, s')" using run one by (simp add: bindSp_def)
    have "spool_inv (sn_disk s1)" using t1 others_inv s(2) by blast
    then have "whole (sn_ticks s') \<and> others (sn_disk s1) (sn_disk s') \<and> (\<forall>x. r = Inr x \<longrightarrow> R x (sn_disk s'))"
      using upholdsD [OF k _ _ _ two] t1 Inr by blast
    then show ?thesis using t1 others_trans by blast
  qed
qed

lemma upholds_conseq: "upholds P' m Q' \<Longrightarrow> (\<And>d. P d \<Longrightarrow> P' d) \<Longrightarrow> (\<And>x d. Q' x d \<Longrightarrow> Q x d) \<Longrightarrow> upholds P m Q"
  unfolding upholds_def by blast

text \<open>A lasting fact outlives any operation.\<close>

lemma upholds_frame: "upholds P m Q \<Longrightarrow> lasting F \<Longrightarrow> upholds (\<lambda>d. P d \<and> F d) m (\<lambda>x d. Q x d \<and> F d)"
  unfolding upholds_def lasting_def by blast

lemma upholds_if: "upholds P m Q \<Longrightarrow> upholds P m' Q \<Longrightarrow> upholds P (if b then m else m') Q"
  by simp

lemma upholds_ret: "(\<And>d. P d \<Longrightarrow> Q x d) \<Longrightarrow> upholds P (retSp x) Q"
  by (simp add: upholds_def retSp_def)

lemma upholds_fail: "upholds P (failSp e) Q"
  by (simp add: upholds_def failSp_def)

lemma upholds_now: "(\<And>t d. P d \<Longrightarrow> Q t d) \<Longrightarrow> upholds P nowSp Q"
  by (simp add: upholds_def nowSp_def)

lemma hex_no_dot: "CHR ''.'' \<notin> set (hex_encode r)"
  using hex_encode_lower [of r] by (auto simp: list_all_iff hex_lower_def char_in_def)

lemma upholds_random: "(\<And>r d. P d \<Longrightarrow> CHR ''.'' \<notin> set r \<Longrightarrow> Q r d) \<Longrightarrow> upholds P randomSp Q"
  using hex_no_dot by (auto simp: upholds_def randomSp_def split: list.splits)

lemma upholds_try: "upholds P m Q \<Longrightarrow> upholds P (trySp m) (\<lambda>r d. case r of Inl _ \<Rightarrow> True | Inr x \<Rightarrow> Q x d)"
proof (rule upholdsI)
  fix s r s' assume m: "upholds P m Q" and s: "whole (sn_ticks s)" "spool_inv (sn_disk s)" "P (sn_disk s)" and run: "trySp m s = (r, s')"
  obtain r1 where one: "m s = (r1, s')" using run by (cases "m s") (auto simp: trySp_def split: sum.splits)
  then show "whole (sn_ticks s') \<and> others (sn_disk s) (sn_disk s') \<and> (\<forall>x. r = Inr x \<longrightarrow> (case x of Inl _ \<Rightarrow> True | Inr x \<Rightarrow> Q x (sn_disk s')))"
    using upholdsD [OF m s one] run by (cases r1) (auto simp: trySp_def split: if_splits)
qed

lemma upholds_handle:
  assumes "upholds P m Q" "\<And>e. upholds (\<lambda>_. True) (l e) R" "\<And>x. upholds (Q x) (k x) R"
  shows "upholds P (bindSp (trySp m) (\<lambda>r. case r of Inl e \<Rightarrow> l e | Inr x \<Rightarrow> k x)) R"
  by (rule upholds_bind [OF upholds_try [OF assms(1)]]) (use assms(2,3) in \<open>auto split: sum.splits\<close>)

lemma upholds_wrapped: "upholds P m Q \<Longrightarrow> upholds P (wrapped m) Q"
proof (rule upholdsI)
  fix s r s' assume m: "upholds P m Q" and s: "whole (sn_ticks s)" "spool_inv (sn_disk s)" "P (sn_disk s)" and run: "wrapped m s = (r, s')"
  obtain r1 where one: "m s = (r1, s')" "\<And>x. r = Inr x \<Longrightarrow> r1 = Inr x" using run by (cases "m s") (auto simp: wrapped_def split: sum.splits)
  then show "whole (sn_ticks s') \<and> others (sn_disk s) (sn_disk s') \<and> (\<forall>x. r = Inr x \<longrightarrow> Q x (sn_disk s'))"
    using upholdsD [OF m s one(1)] by blast
qed

lemma upholds_call:
  assumes "lasting P" "\<And>d r d'. spool_inv d \<Longrightarrow> P d \<Longrightarrow> f d = (r, d') \<Longrightarrow> others d d' \<and> (\<forall>x. r = Inr x \<longrightarrow> Q x d')"
  shows "upholds P (callSp f half) Q"
proof (rule upholdsI)
  fix s r s' assume s: "whole (sn_ticks s)" "spool_inv (sn_disk s)" "P (sn_disk s)" and run: "callSp f half s = (r, s')"
  obtain fault s1 where t: "next_tick s = (fault, s1)" by (cases "next_tick s")
  have s1: "whole (sn_ticks s1)" "others (sn_disk s) (sn_disk s1)" "fault \<noteq> FailsHalfway" "fault \<noteq> KilledHalfway"
    using t s(1) by (auto simp: next_tick_def whole_def split: list.splits spool_tick.splits)
  obtain r2 d where f: "f (sn_disk s1) = (r2, d)" by (cases "f (sn_disk s1)")
  have p: "spool_inv (sn_disk s1)" "P (sn_disk s1)"
    using s s1(2) assms(1) others_inv by (auto simp: lasting_def)
  note g = assms(2) [OF p f]
  have "sn_ticks s' = sn_ticks s1 \<and> (sn_disk s' = sn_disk s1 \<or> sn_disk s' = d) \<and> (\<forall>x. r = Inr x \<longrightarrow> r2 = Inr x \<and> sn_disk s' = d)"
    using run t f s1(3,4) by (auto simp: callSp_def split: spool_fault.splits)
  then show "whole (sn_ticks s') \<and> others (sn_disk s) (sn_disk s') \<and> (\<forall>x. r = Inr x \<longrightarrow> Q x (sn_disk s'))"
    using s1 g others_trans by auto
qed

section \<open>System calls\<close>

declare split_paired_All [simp del] split_paired_Ex [simp del]

definition owns :: "spool_path \<Rightarrow> string \<Rightarrow> Spool \<Rightarrow> bool" where
  "owns p rc d \<longleftrightarrow> sp_collided d \<or> owner d p = Some rc"

definition drawn :: "spool_path \<Rightarrow> gotime \<Rightarrow> Spool \<Rightarrow> bool" where
  "drawn p t d \<longleftrightarrow> sp_collided d \<or> drawn_at d p = Some t"

definition delivered :: "string \<Rightarrow> Spool \<Rightarrow> bool" where
  "delivered rc d \<longleftrightarrow> sp_collided d \<or> rc \<in> set (sp_delivered d)"

lemma lasting_facts [intro]:
  "lasting (owns p rc)" "lasting (delivered rc)" "lasting (\<lambda>_. b)" "lasting P \<Longrightarrow> lasting Q \<Longrightarrow> lasting (\<lambda>d. P d \<and> Q d)"
  "lasting (drawn p t)"
  unfolding lasting_def owns_def drawn_def delivered_def others_def owner_def drawn_at_def map_option_eq_Some by blast+

abbreviation keeps :: "'a sp \<Rightarrow> bool" where
  "keeps m \<equiv> upholds (\<lambda>_. True) m (\<lambda>_ _. True)"

lemma owns_same: "stem_key p = stem_key q \<Longrightarrow> owns p rc d = owns q rc d"
  by (simp add: owns_def owner_def)

lemma othersI:
  assumes "sp_collided d' \<or>
     (\<not> sp_collided d \<and> (\<forall>p f. spool_lookup d' p = Some f \<longrightarrow> file_owned d' p f)
      \<and> (\<forall>rc \<in> set (sp_persisted d'). rc \<noteq> [] \<longrightarrow> receipt_accounted rc d')
      \<and> list_all expired (sp_pruned d')
      \<and> (\<forall>k rc. map_of (sp_owner d) k = Some rc \<longrightarrow> map_of (sp_owner d') k = Some rc)
      \<and> set (sp_delivered d) \<subseteq> set (sp_delivered d') \<and> set (sp_persisted d) \<subseteq> set (sp_persisted d'))"
  shows "others d d'"
  using assms by (auto simp: others_def spool_inv_def)

lemma inv_parts:
  assumes "spool_inv d" "\<not> sp_collided d"
  shows "\<And>p f. spool_lookup d p = Some f \<Longrightarrow> owner d p = Some (receipt_of (sf_content f))"
    "\<And>rc. rc \<in> set (sp_persisted d) \<Longrightarrow> rc \<noteq> [] \<Longrightarrow> receipt_accounted rc d"
    "\<And>p f. spool_lookup d p = Some f \<Longrightarrow> file_owned d p f" "list_all expired (sp_pruned d)"
  using assms by (auto simp: spool_inv_def file_owned_def)

lemma file_owned_same:
  "file_owned d p f \<Longrightarrow> stem_key q = stem_key p \<Longrightarrow> sp_owner d' = sp_owner d \<Longrightarrow> file_owned d' q f"
  by (simp add: file_owned_def owner_def drawn_at_def stem_key_def)

lemma file_owned_content:
  "owns p (receipt_of (sf_content f)) d \<Longrightarrow> \<not> sp_collided d \<Longrightarrow> \<not> fst p \<Longrightarrow> file_owned d p f"
  by (simp add: file_owned_def owns_def)

lemma rename_others:
  assumes i: "spool_inv d" and k: "stem_key p = stem_key q" and q: "\<not> is_tmp q" and f: "rename_file p q d = (r, d')"
  shows "others d d'"
proof (cases "sp_collided d \<or> spool_lookup d p = None")
  case True
  then show ?thesis
  proof
    assume c: "sp_collided d"
    then have "sp_collided d'" using f by (auto simp: rename_file_def split: option.splits)
    then show ?thesis by (intro othersI disjI1)
  next
    assume "spool_lookup d p = None"
    then show ?thesis using f by (simp add: rename_file_def)
  qed
next
  case False
  then obtain g where g: "spool_lookup d p = Some g" "\<not> sp_collided d" by auto
  have d': "d' = d\<lparr>sp_files := AList.update q g (AList.delete p (sp_files d))\<rparr>" using f g by (simp add: rename_file_def)
  note ip = inv_parts [OF i g(2)]
  have same: "sp_owner d' = sp_owner d" using d' by simp
  have look: "spool_lookup d' x = (if x = q then Some g else if x = p then None else spool_lookup d x)" for x
    using d' by (simp add: update_conv' delete_conv')
  have files: "file_owned d' x h" if "spool_lookup d' x = Some h" for x h
    using that look [of x] file_owned_same [OF ip(3) [OF g(1)] k [symmetric] same] file_owned_same [OF ip(3) _ same, of x]
    by (auto split: if_splits)
  have oq: "owner d q = Some (receipt_of (sf_content g))" using ip(1) [OF g(1)] k by (simp add: owner_def)
  have "held rc d'" if h: "held rc d" for rc
  proof -
    obtain x h where x: "spool_lookup d x = Some h" "\<not> is_tmp x" "receipt_of (sf_content h) = rc" using h unfolding held_def by blast
    show ?thesis
    proof (cases "x = p \<or> x = q")
      case True
      then have "receipt_of (sf_content g) = rc" using x g ip(1) [OF x(1)] oq by auto
      then show ?thesis unfolding held_def using look q by (intro exI [of _ q] exI [of _ g]) simp
    next
      case False
      then show ?thesis unfolding held_def using look x by (intro exI [of _ x] exI [of _ h]) simp
    qed
  qed
  then have acc: "receipt_accounted rc d'" if "receipt_accounted rc d" for rc using that d' by (auto simp: receipt_accounted_def)
  show ?thesis
    by (rule othersI) (use g(2) d' files ip(2,4) acc in auto)
qed

lemma keeps_rename: "stem_key p = stem_key q \<Longrightarrow> \<not> is_tmp q \<Longrightarrow> keeps (sys_rename p q)"
  unfolding sys_rename_def by (rule upholds_call) (auto dest: rename_others)

lemma own_fields [simp]:
  "sp_files (own q rc t d) = sp_files d" "sp_delivered (own q rc t d) = sp_delivered d" "sp_pruned (own q rc t d) = sp_pruned d"
  "sp_persisted (own q rc t d) = sp_persisted d" "sp_now (own q rc t d) = sp_now d"
  "sp_collided (own q rc t d) \<longleftrightarrow> sp_collided d \<or> owner d q \<noteq> None"
  "owner (own q rc t d) x = (if stem_key x = stem_key q then Some rc else owner d x)"
  "map_of (sp_owner (own q rc t d)) k = (if k = stem_key q then Some (rc, t) else map_of (sp_owner d) k)"
  "drawn_at (own q rc t d) x = (if stem_key x = stem_key q then Some t else drawn_at d x)"
  by (simp_all add: own_def owner_def drawn_at_def update_conv')

text \<open>A file placed under a name just drawn, for its receipt and its modification time.\<close>

lemma placed_others:
  assumes i: "spool_inv d" and d': "d' = (own q (receipt_of (sf_content g)) (sf_mtime g) d)\<lparr>sp_files := files\<rparr>"
    and look: "\<And>x h. map_of files x = Some h \<Longrightarrow> x = q \<and> h = g \<or> spool_lookup d x = Some h"
    and keep: "\<And>rc. \<not> sp_collided d \<Longrightarrow> owner d q = None \<Longrightarrow> held rc d \<Longrightarrow> held rc d'"
  shows "others d d'"
proof (cases "sp_collided d \<or> owner d q \<noteq> None")
  case True
  then show ?thesis using d' by (intro othersI disjI1) auto
next
  case False
  then have fresh: "\<not> sp_collided d" "owner d q = None" by simp_all
  note ip = inv_parts [OF i fresh(1)]
  have owner': "owner d' x = owner (own q (receipt_of (sf_content g)) (sf_mtime g) d) x"
    "drawn_at d' x = drawn_at (own q (receipt_of (sf_content g)) (sf_mtime g) d) x" for x
    using d' by (simp_all add: owner_def drawn_at_def)
  have files: "file_owned d' x h" if "map_of files x = Some h" for x h
  proof (cases "x = q \<and> h = g")
    case True
    then show ?thesis by (simp add: file_owned_def owner')
  next
    case no: False
    then have x: "spool_lookup d x = Some h" using look [OF that] by blast
    then have "stem_key x \<noteq> stem_key q" using ip(1) [OF x] fresh(2) by (auto simp: owner_def)
    then show ?thesis using ip(3) [OF x] by (simp add: file_owned_def owner')
  qed
  have acc: "receipt_accounted rc d'" if "receipt_accounted rc d" for rc
    using that keep [OF fresh] d' by (auto simp: receipt_accounted_def)
  have old: "map_of (sp_owner d') k = Some v" if "map_of (sp_owner d) k = Some v" for k v
    using that fresh(2) d' own_fields(8) [of q "receipt_of (sf_content g)" "sf_mtime g" d k] by (auto simp: owner_def)
  show ?thesis by (rule othersI, rule disjI2) (use fresh d' files acc ip(2,4) old in auto)
qed

lemma drawn_others:
  assumes q: "\<not> is_tmp q" and i: "spool_inv d"
    and f: "(case spool_lookup d p of None \<Rightarrow> (Inl SpoolNotExist, d)
      | Some f \<Rightarrow> rename_file p q (own q (receipt_of (sf_content f)) (sf_mtime f) d)) = (r, d')"
  shows "others d d'"
proof (cases "spool_lookup d p")
  case None
  then show ?thesis using f by simp
next
  case (Some g)
  have d': "d' = (own q (receipt_of (sf_content g)) (sf_mtime g) d)\<lparr>sp_files := AList.update q g (AList.delete p (sp_files d))\<rparr>"
    using f Some by (simp add: rename_file_def)
  have look: "spool_lookup d' x = (if x = q then Some g else if x = p then None else spool_lookup d x)" for x
    using d' by (simp add: update_conv' delete_conv')
  show ?thesis
  proof (rule placed_others [OF i d'])
    show "x = q \<and> h = g \<or> spool_lookup d x = Some h" if "map_of (AList.update q g (AList.delete p (sp_files d))) x = Some h" for x h
      using that by (auto simp: update_conv' delete_conv' split: if_splits)
    fix rc assume fresh: "\<not> sp_collided d" "owner d q = None" and h: "held rc d"
    obtain x h where x: "spool_lookup d x = Some h" "\<not> is_tmp x" "receipt_of (sf_content h) = rc" using h unfolding held_def by blast
    show "held rc d'"
    proof (cases "x = p")
      case True
      then show ?thesis unfolding held_def using look q x Some by (intro exI [of _ q] exI [of _ g]) simp
    next
      case False
      have "x \<noteq> q" using inv_parts(1) [OF i fresh(1) x(1)] fresh(2) by auto
      then show ?thesis unfolding held_def using look x False by (intro exI [of _ x] exI [of _ h]) auto
    qed
  qed
qed

lemma keeps_rename_drawn: "\<not> is_tmp q \<Longrightarrow> keeps (sys_rename_drawn p q)"
  unfolding sys_rename_drawn_def by (rule upholds_call) (use drawn_others in blast)+

lemma held_files: "sp_files d' = sp_files d \<Longrightarrow> held rc d' = held rc d"
  by (simp add: held_def)

lemma held_keep:
  "held rc d \<Longrightarrow> (\<And>x f. spool_lookup d x = Some f \<Longrightarrow> \<not> is_tmp x \<Longrightarrow> receipt_of (sf_content f) = rc \<Longrightarrow>
     \<exists>g. spool_lookup d' x = Some g \<and> receipt_of (sf_content g) = rc) \<Longrightarrow> held rc d'"
  unfolding held_def by blast

lemma update_others:
  assumes i: "spool_inv d" and o': "owns p (receipt_of c) d" and p: "is_tmp p \<or> (\<exists>g. spool_lookup d p = Some g \<and> receipt_of (sf_content g) = receipt_of c)"
    and f: "sf_content f = c" and pending: "\<not> fst p"
  shows "others d (d\<lparr>sp_files := AList.update p f (sp_files d)\<rparr>)"
proof (cases "sp_collided d")
  case True
  then show ?thesis by (intro othersI disjI1) simp
next
  case False
  let ?d' = "d\<lparr>sp_files := AList.update p f (sp_files d)\<rparr>"
  note ip = inv_parts [OF i False]
  have "held rc ?d'" if "held rc d" for rc
    by (rule held_keep [OF that]) (use p f in \<open>auto simp: update_conv'\<close>)
  then have "receipt_accounted rc ?d'" if "receipt_accounted rc d" for rc using that by (auto simp: receipt_accounted_def)
  moreover have "file_owned ?d' x h" if "spool_lookup ?d' x = Some h" for x h
  proof (rule file_owned_same [where d = d and p = x])
    show "file_owned d x h"
      using that o' f False pending ip(3) [of x h] file_owned_content [of p f d] by (auto simp: update_conv' split: if_splits)
  qed simp_all
  ultimately show ?thesis using False ip(2,4) by (intro othersI disjI2) auto
qed

lemma remove_others:
  assumes i: "spool_inv d" and p: "is_tmp p \<or> (\<exists>rc. owns p rc d \<and> (rc = [] \<or> delivered rc d))"
  shows "others d (d\<lparr>sp_files := AList.delete p (sp_files d)\<rparr>)"
proof (cases "sp_collided d")
  case True
  then show ?thesis by (intro othersI disjI1) simp
next
  case False
  let ?d' = "d\<lparr>sp_files := AList.delete p (sp_files d)\<rparr>"
  note ip = inv_parts [OF i False]
  have "receipt_accounted rc ?d'" if a: "receipt_accounted rc d" "rc \<noteq> []" for rc
  proof (cases "rc \<in> set (sp_delivered d)")
    case True
    then show ?thesis by (simp add: receipt_accounted_def)
  next
    case no: False
    have "held rc ?d'" if "held rc d"
    proof (rule held_keep [OF that])
      fix x g assume x: "spool_lookup d x = Some g" "\<not> is_tmp x" "receipt_of (sf_content g) = rc"
      have "x \<noteq> p" using p x ip(1) [OF x(1)] no a(2) False by (auto simp: owns_def delivered_def)
      then show "\<exists>g. spool_lookup ?d' x = Some g \<and> receipt_of (sf_content g) = rc" using x by (simp add: delete_conv')
    qed
    then show ?thesis using a(1) by (auto simp: receipt_accounted_def)
  qed
  moreover have "file_owned ?d' x h" if "spool_lookup ?d' x = Some h" for x h
    by (rule file_owned_same [where d = d and p = x]) (use that ip(3) in \<open>auto simp: delete_conv' split: if_splits\<close>)
  ultimately show ?thesis using False ip(2,4) by (intro othersI disjI2) auto
qed

lemma upholds_remove:
  assumes "lasting P" "\<And>d. P d \<Longrightarrow> is_tmp p \<or> (\<exists>rc. owns p rc d \<and> (rc = [] \<or> delivered rc d))"
  shows "upholds P (sys_remove p) (\<lambda>_ _. True)"
  unfolding sys_remove_def by (rule upholds_call [OF assms(1)]) (use remove_others assms(2) in \<open>auto split: option.splits\<close>)

lemma keeps_remove_tmp: "is_tmp p \<Longrightarrow> keeps (sys_remove p)"
  by (rule upholds_remove) auto

lemma upholds_prune:
  assumes p: "fst p" and old: "before t (time_add now (- (14 * 24 * 3600 * 10 ^ 9)))"
  shows "upholds (drawn p t) (sys_prune p now) (\<lambda>_ _. True)"
  unfolding sys_prune_def
proof (rule upholds_call, blast, intro conjI allI impI TrueI)
  fix d r d' assume i: "spool_inv d" and at: "drawn p t d"
    and f: "(case spool_lookup d p of None \<Rightarrow> (Inl SpoolNotExist, d)
      | Some f \<Rightarrow> (Inr (), d\<lparr>sp_files := AList.delete p (sp_files d),
          sp_pruned := (receipt_of (sf_content f), sf_mtime f, now) # sp_pruned d\<rparr>)) = (r, d')"
  show "others d d'"
  proof (cases "spool_lookup d p")
    case None
    then show ?thesis using f by simp
  next
    case (Some g)
    have d': "d' = d\<lparr>sp_files := AList.delete p (sp_files d),
        sp_pruned := (receipt_of (sf_content g), sf_mtime g, now) # sp_pruned d\<rparr>"
      using f Some by simp
    show ?thesis
    proof (cases "sp_collided d")
      case True
      then show ?thesis using d' by (intro othersI disjI1) simp
    next
      case False
      note ip = inv_parts [OF i False]
      have "sf_mtime g = t" using ip(3) [OF Some] p at False by (simp add: file_owned_def drawn_def)
      then have gone: "list_all expired (sp_pruned d')" using ip(4) old d' by (simp add: expired_def)
      have acc: "receipt_accounted rc d'" if a: "receipt_accounted rc d" for rc
      proof (cases "rc \<in> set (sp_delivered d) \<or> rc \<in> fst ` set (sp_pruned d')")
        case True
        then show ?thesis using d' by (auto simp: receipt_accounted_def)
      next
        case no: False
        then have "held rc d" using a d' by (auto simp: receipt_accounted_def)
        then have "held rc d'" by (rule held_keep) (use no d' Some in \<open>auto simp: delete_conv'\<close>)
        then show ?thesis by (simp add: receipt_accounted_def)
      qed
      have files: "file_owned d' x h" if "spool_lookup d' x = Some h" for x h
        by (rule file_owned_same [where d = d and p = x]) (use that ip(3) d' in \<open>auto simp: delete_conv' split: if_splits\<close>)
      show ?thesis by (rule othersI, rule disjI2) (use False ip(2) gone files acc d' in auto)
    qed
  qed
qed

lemma keeps_touch: "\<not> fst p \<Longrightarrow> keeps (sys_touch p)"
  unfolding sys_touch_def
proof (rule upholds_call, blast, intro conjI allI impI TrueI)
  fix d r d' assume pending: "\<not> fst p" and i: "spool_inv d"
    and f: "(case spool_lookup d p of None \<Rightarrow> (Inl SpoolNotExist, d)
      | Some f \<Rightarrow> (Inr (), d\<lparr>sp_files := AList.update p (f\<lparr>sf_mtime := sp_now d\<rparr>) (sp_files d)\<rparr>)) = (r, d')"
  show "others d d'"
  proof (cases "spool_lookup d p")
    case (Some g)
    have "owns p (receipt_of (sf_content g)) d" using inv_parts(1) [OF i _ Some] by (auto simp: owns_def)
    then show ?thesis using f Some update_others [OF i, of p "sf_content g" "g\<lparr>sf_mtime := sp_now d\<rparr>"] pending by auto
  qed (use f in simp)
qed

lemma upholds_write:
  assumes "lasting P" "is_tmp p" "\<And>d. P d \<Longrightarrow> owns p (sr_receipt_id r) d" "\<not> fst p"
  shows "upholds P (sys_write p r) (\<lambda>_ _. True)"
  unfolding sys_write_def put_file_def
  by (rule upholds_call [OF assms(1)]) (use assms(2-4) update_others [of _ p "Decodes (json_record r)"] in auto)

lemma upholds_read:
  assumes "lasting P" "\<And>d x. spool_inv d \<Longrightarrow> P d \<Longrightarrow> f d = Inr x \<Longrightarrow> Q x d"
  shows "upholds P (readSp f) Q"
  unfolding readSp_def by (rule upholds_call [OF assms(1)]) (use assms(2) in auto)

lemma keeps_reads: "keeps (sys_stat p)" "keeps (sys_exists p)" "keeps (sys_read_dir b)" "keeps (readHookSpoolFile p)"
  unfolding sys_stat_def sys_exists_def sys_read_dir_def readHookSpoolFile_def by (rule upholds_read; blast)+

lemma upholds_stat: "fst p \<Longrightarrow> upholds (\<lambda>_. True) (sys_stat p) (\<lambda>t. drawn p t)"
  unfolding sys_stat_def
  by (rule upholds_read) (auto simp: spool_inv_def file_owned_def drawn_def split: option.splits)

lemma upholds_load_content: "upholds (\<lambda>_. True) (readHookSpoolFile p) (\<lambda>c. owns p (receipt_of c))"
  unfolding readHookSpoolFile_def
  by (rule upholds_read) (auto simp: spool_inv_def file_owned_def owns_def split: option.splits if_splits)

lemma keeps_ctx: "keeps ctx_err"
proof (rule upholdsI)
  fix s r s' assume s: "whole (sn_ticks s)" "spool_inv (sn_disk s)" and run: "ctx_err s = (r, s')"
  obtain r1 where c: "callSp (\<lambda>d. (Inr (), d)) (\<lambda>d. d) s = (r1, s')"
    using run by (cases "callSp (\<lambda>d. (Inr (), d)) (\<lambda>d. d) s") (auto simp: ctx_err_def split: sum.splits)
  have k: "keeps (callSp (\<lambda>d. (Inr (), d)) (\<lambda>d. d))" by (rule upholds_call) auto
  show "whole (sn_ticks s') \<and> others (sn_disk s) (sn_disk s') \<and> (\<forall>x. r = Inr x \<longrightarrow> True)"
    using upholdsD [OF k s(1) s(2) TrueI c] by simp
qed

lemma upholds_deliver: "upholds (\<lambda>_. True) (deliver rc) (\<lambda>_. delivered rc)"
  unfolding deliver_def
proof (rule upholds_call, blast, intro conjI allI impI)
  fix d r d' assume i: "spool_inv d" and f: "(Inr (), d\<lparr>sp_delivered := rc # sp_delivered d\<rparr>) = (r, d')"
  have acc: "receipt_accounted x d'" if "receipt_accounted x d" for x using that f held_files [of d' d x] by (auto simp: receipt_accounted_def)
  show "others d d'"
  proof (cases "sp_collided d")
    case True
    then show ?thesis using f by (intro othersI disjI1) auto
  next
    case False
    note ip = inv_parts [OF i False]
    have files: "file_owned d' x h" if "spool_lookup d' x = Some h" for x h
      by (rule file_owned_same [where d = d and p = x]) (use that ip(3) [of x h] f in auto)
    show ?thesis by (rule othersI, rule disjI2) (use False f ip(2,4) files acc in auto)
  qed
  show "delivered rc d'" using f by (auto simp: delivered_def)
qed

lemma upholds_write_drawn:
  assumes "is_tmp p"
  shows "upholds (\<lambda>_. True) (sys_write_drawn p r) (\<lambda>_. owns p (sr_receipt_id r))"
  unfolding sys_write_drawn_def
proof (rule upholds_call, blast, intro conjI allI impI)
  let ?g = "\<lambda>d. \<lparr>sf_content = Decodes (json_record r), sf_mtime = sp_now d\<rparr>"
  fix d x d' assume i: "spool_inv d"
    and f: "(Inr (), put_file p (Decodes (json_record r)) (own p (sr_receipt_id r) (sp_now d) d)) = (x, d')"
  have d': "d' = (own p (receipt_of (sf_content (?g d))) (sf_mtime (?g d)) d)\<lparr>sp_files := AList.update p (?g d) (sp_files d)\<rparr>"
    using f by (simp add: put_file_def)
  show "owns p (sr_receipt_id r) d'"
    using d' own_fields(7) [of p "sr_receipt_id r" "sp_now d" d p] by (simp add: owns_def owner_def)
  show "others d d'"
  proof (rule placed_others [OF i d'])
    show "y = p \<and> h = ?g d \<or> spool_lookup d y = Some h" if "map_of (AList.update p (?g d) (sp_files d)) y = Some h" for y h
      using that by (auto simp: update_conv' split: if_splits)
    show "held rc d'" if "held rc d" for rc
      by (rule held_keep [OF that]) (use assms d' in \<open>auto simp: update_conv'\<close>)
  qed
qed

lemma upholds_publish:
  assumes "stem_key p = stem_key q" "\<not> is_tmp q"
  shows "upholds (owns p rc) (sys_publish p q rc) (\<lambda>_. owns q rc)"
  unfolding sys_publish_def
proof (rule upholds_call, blast, intro conjI allI impI)
  fix d x d' assume i: "spool_inv d" and o': "owns p rc d"
    and f: "(case rename_file p q d of (Inl e, d') \<Rightarrow> (Inl e, d') | (Inr x, d') \<Rightarrow> (Inr x, d'\<lparr>sp_persisted := rc # sp_persisted d'\<rparr>)) = (x, d')"
  obtain r e where m: "rename_file p q d = (r, e)" by (cases "rename_file p q d")
  have one: "others d e" by (rule rename_others [OF i assms m])
  have oq: "owns q rc e" using o' one owns_same [OF assms(1), of rc d] lasting_facts(1) [of q rc] by (auto simp: lasting_def)
  have d': "d' = e \<or> (\<exists>u. r = Inr u \<and> d' = e\<lparr>sp_persisted := rc # sp_persisted e\<rparr>)" using f m by (auto split: sum.splits)
  then show "owns q rc d'" using oq by (auto simp: owns_def owner_def)
  have two: "others e d'"
  proof (cases "sp_collided e \<or> d' = e")
    case True
    then show ?thesis
    proof
      assume "sp_collided e"
      then have "sp_collided d'" using d' by auto
      then show ?thesis by (intro othersI disjI1)
    qed simp
  next
    case False
    then obtain u where u: "r = Inr u" and d': "d' = e\<lparr>sp_persisted := rc # sp_persisted e\<rparr>" using d' by blast
    note ip = inv_parts [OF others_inv [OF one i], OF conjunct1 [OF False [simplified de_Morgan_disj]]]
    obtain g where g: "spool_lookup e q = Some g" using m u by (auto simp: rename_file_def update_conv' split: option.splits)
    have "receipt_of (sf_content g) = rc" using ip(1) [OF g] oq False by (simp add: owns_def)
    then have "held rc d'" using g assms(2) d' unfolding held_def by (intro exI [of _ q] exI [of _ g]) simp
    then have new: "receipt_accounted rc d'" by (simp add: receipt_accounted_def)
    have acc: "receipt_accounted x d'" if "receipt_accounted x e" for x using that d' held_files [of d' e x] by (auto simp: receipt_accounted_def)
    have files: "file_owned d' y h" if "spool_lookup d' y = Some h" for y h
      by (rule file_owned_same [where d = e and p = y]) (use that ip(3) d' in auto)
    show ?thesis by (rule othersI, rule disjI2) (use False d' files ip(2,4) new acc in auto)
  qed
  show "others d d'" by (rule others_trans [OF one two])
qed

section \<open>Operations\<close>

named_theorems keeping

lemma keeps_weaken: "keeps m \<Longrightarrow> upholds P m (\<lambda>_ _. True)"
  by (rule upholds_conseq) auto

lemma keeps_forget: "upholds (\<lambda>_. True) m Q \<Longrightarrow> keeps m"
  by (rule upholds_conseq) auto

lemma keeps_basic [keeping]: "keeps (retSp x)" "keeps (failSp e)" "keeps nowSp" "keeps randomSp"
  by (rule upholds_ret upholds_fail upholds_now upholds_random, simp?)+

lemma keeps_bind [keeping]: "keeps m \<Longrightarrow> (\<And>x. keeps (k x)) \<Longrightarrow> keeps (bindSp m k)"
  by (rule upholds_bind)

lemma keeps_try [keeping]: "keeps m \<Longrightarrow> keeps (trySp m)"
  by (rule upholds_conseq [OF upholds_try]) auto

lemma keeps_ignore [keeping]: "keeps m \<Longrightarrow> keeps (ignoreSp m)"
  unfolding ignoreSp_def by (intro keeping)

lemma keeps_wrapped [keeping]: "keeps m \<Longrightarrow> keeps (wrapped m)"
  by (rule upholds_wrapped)

lemma keeps_cases [keeping]:
  "keeps m \<Longrightarrow> keeps m' \<Longrightarrow> keeps (if b then m else m')"
  "keeps n \<Longrightarrow> (\<And>x. keeps (k x)) \<Longrightarrow> keeps (case z of None \<Rightarrow> n | Some x \<Rightarrow> k x)"
  "(\<And>e. keeps (l e)) \<Longrightarrow> (\<And>x. keeps (k' x)) \<Longrightarrow> keeps (case y of Inl e \<Rightarrow> l e | Inr x \<Rightarrow> k' x)"
  "(\<And>a b. keeps (g a b)) \<Longrightarrow> keeps (case pr of (a, b) \<Rightarrow> g a b)"
  by (auto split: option.splits sum.splits prod.splits)

declare keeps_reads [keeping] keeps_ctx [keeping]

lemma json_not_tmp: "\<not> is_tmp (b, n @ ''.json'')" "\<not> is_tmp (b, n @ ''.inflight'')"
  using suffix_apart [of "''.tmp''" "''json''" "n @ ''.''"] suffix_apart [of "''.tmp''" "''ight''" "n @ ''.infl''"]
  by (simp_all add: is_tmp_def)

lemma suffix_json_not_tmp:
  assumes "has_suffix n ''.json''" shows "\<not> is_tmp (b, n)"
  using json_not_tmp(1) [of b "trim_suffix ''.json'' n"] unfolding trim_suffix_split [OF assms, symmetric] .

lemma tmp_path [simp]: "is_tmp (b, n @ ''.tmp'')" "stem_key (b, n @ ''.tmp'') = stem_key (b, n)"
  by (simp_all add: is_tmp_def stem_key_def stem_tmp)

text \<open>A move to a name just drawn keeps the receipt.\<close>

lemma drawn_not_tmp:
  "\<not> is_tmp (b, retry_name t random)" "\<not> is_tmp (b, ''dead-'' @ spool_stamp t @ ''-'' @ random @ ''.json'')"
  using json_not_tmp(1) [of b "''zz-retry-'' @ spool_stamp t @ ''-'' @ random"] json_not_tmp(1) [of b "''dead-'' @ spool_stamp t @ ''-'' @ random"]
  unfolding retry_name_def by (simp_all only: append_assoc not_False_eq_True)

lemma keeps_move [keeping]: "keeps (renameHookSpoolRecordToRetryTail path)" "keeps (renameHookSpoolRecordToDead path)"
  unfolding renameHookSpoolRecordToRetryTail_def renameHookSpoolRecordToDead_def
  by (rule keeps_bind [OF keeps_basic(4)] keeps_bind [OF keeps_basic(3)] keeps_wrapped keeps_rename_drawn drawn_not_tmp)+

lemma keeps_promote [keeping]: "keeps (promoteCurrentHookSpoolRecord path)"
proof -
  have "keeps (sys_rename path (replayablePathForCurrentHookSpool path))" if "has_suffix (snd path) ''.inflight''"
    by (rule keeps_rename) (use stem_promoted [OF that] json_not_tmp(1) in \<open>simp_all add: stem_key_def replayablePathForCurrentHookSpool_def\<close>)
  then show ?thesis unfolding promoteCurrentHookSpoolRecord_def by (auto intro: keeping)
qed

lemma upholds_persist:
  assumes "sfx = ''.inflight'' \<or> sfx = ''.json''"
  shows "upholds (\<lambda>_. True) (persistHookSpoolRecordWithSuffix r sfx) (\<lambda>path d. owns path (sr_receipt_id r) d \<and> has_suffix (snd path) sfx)"
proof -
  have step: "upholds (\<lambda>_. True) (bindSp (wrapped (sys_write_drawn (False, b @ ''.tmp'') r)) (\<lambda>_.
      bindSp (trySp (sys_publish (False, b @ ''.tmp'') (False, b) (sr_receipt_id r))) (\<lambda>x.
        case x of Inl e \<Rightarrow> bindSp (ignoreSp (sys_remove (False, b @ ''.tmp''))) (\<lambda>_. wrapped (failSp e)) | Inr _ \<Rightarrow> retSp (False, b))))
      (\<lambda>path d. owns path (sr_receipt_id r) d \<and> has_suffix (snd path) sfx)" if b: "b = n @ sfx" for b n
  proof (rule upholds_bind [OF upholds_wrapped [OF upholds_write_drawn]], simp,
      rule upholds_bind [OF upholds_try [OF upholds_publish]], simp)
    show "\<not> is_tmp (False, b)" using assms json_not_tmp b by auto
    fix x
    show "upholds (\<lambda>d. case x of Inl _ \<Rightarrow> True | Inr _ \<Rightarrow> owns (False, b) (sr_receipt_id r) d)
        (case x of Inl e \<Rightarrow> bindSp (ignoreSp (sys_remove (False, b @ ''.tmp''))) (\<lambda>_. wrapped (failSp e)) | Inr _ \<Rightarrow> retSp (False, b))
        (\<lambda>path d. owns path (sr_receipt_id r) d \<and> has_suffix (snd path) sfx)"
    proof (cases x)
      case (Inl e)
      have "upholds (\<lambda>_. True) (bindSp (ignoreSp (sys_remove (False, b @ ''.tmp''))) (\<lambda>_. wrapped (failSp e)))
          (\<lambda>path d. owns path (sr_receipt_id r) d \<and> has_suffix (snd path) sfx)"
        by (rule upholds_bind [OF keeps_ignore [OF keeps_remove_tmp]]) (simp, rule upholds_wrapped, rule upholds_fail)
      then show ?thesis using Inl by simp
    next
      case (Inr u)
      then show ?thesis using b by (auto intro!: upholds_ret)
    qed
  qed
  show ?thesis unfolding persistHookSpoolRecordWithSuffix_def Let_def
    by (rule upholds_bind [OF keeps_basic(4)], rule step) simp
qed

lemma upholds_clear:
  assumes "has_suffix (snd path) ''.inflight''"
  shows "upholds (\<lambda>d. owns path rc d \<and> delivered rc d) (clearCurrentHookSpoolRecord path) (\<lambda>_ _. True)"
proof -
  let ?P = "\<lambda>d. owns path rc d \<and> delivered rc d"
  have k: "stem_key (replayablePathForCurrentHookSpool path) = stem_key path"
    using stem_promoted [OF assms] by (simp add: stem_key_def replayablePathForCurrentHookSpool_def)
  have st: "lasting ?P" by (intro lasting_facts)
  have one: "upholds ?P (sys_remove path) (\<lambda>_ _. True)" by (rule upholds_remove [OF st]) blast
  have two: "upholds ?P (sys_remove (replayablePathForCurrentHookSpool path)) (\<lambda>_ _. True)"
    by (rule upholds_remove [OF st]) (use owns_same [OF k] in blast)
  have tail: "upholds ?P (bindSp (trySp (sys_remove (replayablePathForCurrentHookSpool path))) (\<lambda>r'.
      case r' of Inr _ \<Rightarrow> retSp () | Inl e' \<Rightarrow> if e' = SpoolNotExist then retSp () else failSp e')) (\<lambda>_ _. True)"
    by (rule upholds_bind [OF upholds_try [OF two]], rule keeps_weaken) (intro keeping)
  have first: "upholds ?P (trySp (sys_remove path)) (\<lambda>_. ?P)"
    by (rule upholds_conseq [OF upholds_frame [OF upholds_try [OF one] st]]) auto
  have rest: "upholds ?P (case r of Inr _ \<Rightarrow> retSp () | Inl e \<Rightarrow> if e \<noteq> SpoolNotExist then failSp e else
      bindSp (trySp (sys_remove (replayablePathForCurrentHookSpool path))) (\<lambda>r'.
        case r' of Inr _ \<Rightarrow> retSp () | Inl e' \<Rightarrow> if e' = SpoolNotExist then retSp () else failSp e')) (\<lambda>_ _. True)"
    for r :: "spool_error + unit"
    using tail by (cases r) (auto intro!: upholds_ret upholds_fail)
  show ?thesis unfolding clearCurrentHookSpoolRecord_def by (rule upholds_bind [OF first rest])
qed

lemma keeps_recover_current [keeping]: "keeps (recover_current now names)"
  by (induction names) (simp_all only: recover_current.simps, (intro keeping)+)

lemma keeps_release [keeping]: "keeps (releaseStaleClaimedHookSpoolRecord path)"
proof -
  have "keeps (sys_rename path (fst path, the (before_claim (snd path))))" if c: "isHookSpoolClaimFile (snd path)"
  proof (rule keeps_rename)
    show "stem_key path = stem_key (fst path, the (before_claim (snd path)))" using stem_claimed [OF c] by (simp add: stem_key_def)
    show "\<not> is_tmp (fst path, the (before_claim (snd path)))"
      using c by (auto simp: isHookSpoolClaimFile_def split: option.splits intro!: suffix_json_not_tmp)
  qed
  then show ?thesis unfolding releaseStaleClaimedHookSpoolRecord_def Let_def by (auto intro!: keeping)
qed

lemma keeps_recover_claimed [keeping]: "keeps (recover_claimed now names)"
  by (induction names) (simp_all only: recover_claimed.simps, (intro keeping)+)

lemma keeps_recover [keeping]:
  "keeps (recoverStaleCurrentHookSpoolRecords now)" "keeps (recoverStaleClaimedHookSpoolRecords now)"
  unfolding recoverStaleCurrentHookSpoolRecords_def recoverStaleClaimedHookSpoolRecords_def by (intro keeping)+

text \<open>A path of the queue, whose file may be rewritten and touched.\<close>

definition queued_path :: "spool_path \<Rightarrow> bool" where
  "queued_path p \<longleftrightarrow> \<not> fst p \<and> \<not> is_tmp p"

lemma upholds_claim: "\<not> fst path \<Longrightarrow> upholds (\<lambda>_. True) (claimHookSpoolRecord path) (\<lambda>won _. snd won \<longrightarrow> queued_path (fst won))"
proof (cases "has_suffix (snd path) ''.json''")
  case False
  then show ?thesis unfolding claimHookSpoolRecord_def by (simp add: upholds_fail)
next
  case True
  assume path: "\<not> fst path"
  have step: "upholds (\<lambda>_. CHR ''.'' \<notin> set r) (bindSp (trySp (sys_rename path (fst path, snd path @ hookSpoolClaimMarker @ r))) (\<lambda>x.
      case x of Inl e \<Rightarrow> if e = SpoolNotExist then retSp (path, False) else failSp e
      | Inr _ \<Rightarrow> bindSp (ignoreSp (sys_touch (fst path, snd path @ hookSpoolClaimMarker @ r))) (\<lambda>_.
                 retSp ((fst path, snd path @ hookSpoolClaimMarker @ r), True))))
      (\<lambda>won _. snd won \<longrightarrow> queued_path (fst won))" for r
  proof (cases "CHR ''.'' \<in> set r")
    case False
    have n: "\<not> is_tmp (fst path, snd path @ hookSpoolClaimMarker @ r)"
      using not_tmp [of "''claim-'' @ r" "snd path @ ''.''"] False by (simp add: is_tmp_def hookSpoolClaimMarker_def)
    have "keeps (sys_rename path (fst path, snd path @ hookSpoolClaimMarker @ r))"
      by (rule keeps_rename) (use stem_claim [OF True False] n in \<open>simp_all add: stem_key_def\<close>)
    then have "upholds (\<lambda>_. True) (bindSp (trySp (sys_rename path (fst path, snd path @ hookSpoolClaimMarker @ r))) (\<lambda>x.
        case x of Inl e \<Rightarrow> if e = SpoolNotExist then retSp (path, False) else failSp e
        | Inr _ \<Rightarrow> bindSp (ignoreSp (sys_touch (fst path, snd path @ hookSpoolClaimMarker @ r))) (\<lambda>_.
                   retSp ((fst path, snd path @ hookSpoolClaimMarker @ r), True))))
        (\<lambda>won _. snd won \<longrightarrow> queued_path (fst won))"
    proof (rule upholds_bind [OF keeps_try])
      fix x :: "spool_error + unit"
      have t: "upholds (\<lambda>_. True) (bindSp (ignoreSp (sys_touch (fst path, snd path @ hookSpoolClaimMarker @ r))) (\<lambda>_.
          retSp ((fst path, snd path @ hookSpoolClaimMarker @ r), True))) (\<lambda>won _. snd won \<longrightarrow> queued_path (fst won))"
        by (rule upholds_bind [OF keeps_ignore [OF keeps_touch]], simp add: path, rule upholds_ret)
          (use n path in \<open>simp add: queued_path_def\<close>)
      show "upholds (\<lambda>_. True) (case x of Inl e \<Rightarrow> if e = SpoolNotExist then retSp (path, False) else failSp e
        | Inr _ \<Rightarrow> bindSp (ignoreSp (sys_touch (fst path, snd path @ hookSpoolClaimMarker @ r))) (\<lambda>_.
                   retSp ((fst path, snd path @ hookSpoolClaimMarker @ r), True))) (\<lambda>won _. snd won \<longrightarrow> queued_path (fst won))"
        using t by (cases x) (auto intro!: upholds_ret upholds_fail)
    qed
    then show ?thesis by (rule upholds_conseq) auto
  next
    case True
    then show ?thesis by (simp add: upholds_def)
  qed
  show ?thesis unfolding claimHookSpoolRecord_def Let_def if_not_P [OF not_not [THEN iffD2, OF True]]
    by (rule upholds_bind [OF upholds_random step]) simp
qed

lemma upholds_load: "upholds (\<lambda>_. True) (loadClaimedHookSpoolRecord path)
    (\<lambda>found d. case found of Some r \<Rightarrow> owns path (sr_receipt_id r) d | None \<Rightarrow> True)"
  unfolding loadClaimedHookSpoolRecord_def
  by (rule upholds_bind [OF upholds_load_content], rule upholds_ret) (auto split: SpoolContent.splits)

lemma upholds_write_atomic:
  assumes "queued_path path"
  shows "upholds (owns path (sr_receipt_id r)) (writeHookSpoolRecordAtomic path r) (\<lambda>_ _. True)"
proof -
  obtain b n where p: "path = (b, n)" by (cases path)
  have t: "owns (b, n @ ''.tmp'') rc d = owns (b, n) rc d" for rc d by (rule owns_same) simp
  have w: "upholds (owns path (sr_receipt_id r)) (sys_write (b, n @ ''.tmp'') r) (\<lambda>_ _. True)"
    by (rule upholds_write) (use p t assms in \<open>auto simp: queued_path_def\<close>)
  have m: "keeps (sys_rename (b, n @ ''.tmp'') (b, n))" by (rule keeps_rename) (use assms p in \<open>auto simp: queued_path_def\<close>)
  show ?thesis unfolding writeHookSpoolRecordAtomic_def Let_def p fst_conv snd_conv
    by (rule upholds_bind [OF upholds_wrapped [OF w [unfolded p]]])
      (intro keeping m keeps_remove_tmp tmp_path(1))
qed

lemma receipt_kept:
  "sr_receipt_id (failed_attempt (case parseHookSpoolRecordForRequeue c of Some q \<Rightarrow> q | None \<Rightarrow> raw_record c now) e) = receipt_of c"
  by (cases c) (simp_all add: parseHookSpoolRecordForRequeue_def failed_attempt_def raw_record_def)

lemma keeps_requeue:
  assumes "queued_path path" shows "keeps (requeueHookSpoolRecord path e)"
  unfolding requeueHookSpoolRecord_def Let_def
proof (rule upholds_handle [OF upholds_load_content])
  fix c
  have w: "upholds (owns path (receipt_of c)) (writeHookSpoolRecordAtomic path
      (failed_attempt (case parseHookSpoolRecordForRequeue c of None \<Rightarrow> raw_record c now | Some q \<Rightarrow> q) e)) (\<lambda>_ _. True)" for now
    using upholds_write_atomic [OF assms, of "failed_attempt (case parseHookSpoolRecordForRequeue c of None \<Rightarrow> raw_record c now | Some q \<Rightarrow> q) e"]
    by (simp only: receipt_kept)
  show "upholds (owns path (receipt_of c)) (bindSp nowSp (\<lambda>now. bindSp (writeHookSpoolRecordAtomic path
      (failed_attempt (case parseHookSpoolRecordForRequeue c of None \<Rightarrow> raw_record c now | Some q \<Rightarrow> q) e)) (\<lambda>_.
        if shouldDeadLetter (sr_attempt_count (failed_attempt (case parseHookSpoolRecordForRequeue c of None \<Rightarrow> raw_record c now | Some q \<Rightarrow> q) e))
        then renameHookSpoolRecordToDead path else renameHookSpoolRecordToRetryTail path))) (\<lambda>_ _. True)"
    by (rule upholds_bind [OF upholds_now [where Q = "\<lambda>_. owns path (receipt_of c)"]], assumption, rule upholds_bind [OF w])
      (rule keeping)+
qed (rule keeping)

lemma upholds_replay: "upholds (\<lambda>_. True) (replayHookSpoolRecord r) (\<lambda>_. delivered (sr_receipt_id r))"
  unfolding replayHookSpoolRecord_def by (rule upholds_if [OF upholds_deliver upholds_fail])

lemma keeps_drain_end:
  assumes "queued_path path"
  shows "keeps (drain_unreadable path result)" "keeps (drain_failed path e result)"
  unfolding drain_unreadable_def drain_failed_def by (rule keeping keeps_requeue [OF assms])+

lemma upholds_drain_delivered:
  assumes "queued_path path"
  shows "upholds (\<lambda>d. delivered rc d \<and> owns path rc d) (drain_delivered path result) (\<lambda>_ _. True)"
  unfolding drain_delivered_def
proof (rule upholds_handle [OF upholds_remove])
  show "lasting (\<lambda>d. delivered rc d \<and> owns path rc d)" by (intro lasting_facts)
qed (blast, (rule keeping keeps_drain_end [OF assms])+)

lemma upholds_drain_record:
  assumes "queued_path path"
  shows "upholds (owns path (sr_receipt_id r)) (drain_record path r result) (\<lambda>_ _. True)"
proof -
  have play: "upholds (owns path (sr_receipt_id r)) (replayHookSpoolRecord r)
      (\<lambda>_ d. delivered (sr_receipt_id r) d \<and> owns path (sr_receipt_id r) d)"
    by (rule upholds_conseq [OF upholds_frame [OF upholds_replay lasting_facts(1)]]) auto
  show ?thesis unfolding drain_record_def
    by (rule upholds_if, rule keeps_weaken, (rule keeping)+, rule upholds_handle [OF play])
      (rule keeps_drain_end [OF assms] upholds_drain_delivered [OF assms])+
qed

lemma keeps_drain_claimed: "queued_path path \<Longrightarrow> keeps (drain_claimed path result)"
  unfolding drain_claimed_def
proof (rule upholds_handle [OF upholds_load])
  fix found assume path: "queued_path path"
  show "upholds (\<lambda>d. case found of None \<Rightarrow> True | Some r \<Rightarrow> owns path (sr_receipt_id r) d)
      (case found of None \<Rightarrow> drain_unreadable path result | Some r \<Rightarrow> drain_record path r result) (\<lambda>_ _. True)"
    using keeps_drain_end [OF path] upholds_drain_record [OF path] by (cases found) simp_all
qed (rule keeps_drain_end)

lemma keeps_drain_paths: "list_all (\<lambda>p. \<not> fst p) paths \<Longrightarrow> keeps (drain_paths limit deadline claimed result paths)"
proof (induction paths arbitrary: claimed result)
  case (Cons path paths)
  have path: "\<not> fst path" and rest: "keeps (drain_paths limit deadline c r paths)" for c r using Cons by simp_all
  have won: "upholds (\<lambda>_. snd won \<longrightarrow> queued_path (fst won)) (if \<not> snd won then drain_paths limit deadline claimed result paths
      else bindSp (drain_claimed (fst won) result) (\<lambda>result'. drain_paths limit deadline (claimed + 1) result' paths)) (\<lambda>_ _. True)" for won
  proof (cases "snd won \<longrightarrow> queued_path (fst won)")
    case True
    have "keeps (if \<not> snd won then drain_paths limit deadline claimed result paths
        else bindSp (drain_claimed (fst won) result) (\<lambda>result'. drain_paths limit deadline (claimed + 1) result' paths))"
      using rest keeps_drain_claimed True by (cases "snd won") (simp_all add: keeps_bind)
    then show ?thesis by (rule keeps_weaken)
  qed (simp add: upholds_def)
  have late: "keeps (past_deadline deadline)" unfolding past_deadline_def by (rule keeping)+
  show ?case unfolding drain_paths.simps
    by (rule keeping late rest upholds_handle [OF upholds_claim [OF path]] won)+
qed (simp only: drain_paths.simps keeps_basic)

lemma keeps_list [keeping]: "keeps listHookSpoolRecordPaths" "keeps countHookSpoolRecordPaths"
  unfolding countHookSpoolRecordPaths_def listHookSpoolRecordPaths_def by (rule keeping)+

lemma keeps_count_stale [keeping]: "keeps (count_stale_inflight now count names)"
  by (induction names arbitrary: count) (simp_all only: count_stale_inflight.simps, (rule keeping | assumption)+)

lemma keeps_count [keeping]: "keeps (countHookSpoolPendingPaths now)"
  unfolding countHookSpoolPendingPaths_def by (rule keeping)+

lemma upholds_list: "upholds (\<lambda>_. True) listHookSpoolRecordPaths (\<lambda>paths _. list_all (\<lambda>p. \<not> fst p) paths)"
  unfolding listHookSpoolRecordPaths_def
  by (rule upholds_bind [OF upholds_wrapped [OF keeps_reads(3)]], rule upholds_ret) (simp add: list.pred_map comp_def list_all_iff)

lemma upholds_drain_listed:
  "upholds (\<lambda>_. list_all (\<lambda>p. \<not> fst p) paths) (bindSp (drain_paths limit deadline 0 no_drain paths) (\<lambda>result.
     bindSp (trySp countHookSpoolRecordPaths) (\<lambda>r. case r of
       Inl e \<Rightarrow> retSp (result\<lparr>dr_remaining := 0, dr_err := Some e\<rparr>)
     | Inr n \<Rightarrow> retSp (result\<lparr>dr_remaining := n, dr_err := None\<rparr>)))) (\<lambda>_ _. True)"
proof (cases "list_all (\<lambda>p. \<not> fst p) paths")
  case True
  show ?thesis by (rule keeps_weaken) (rule keeping keeps_drain_paths [OF True])+
qed (simp add: upholds_def)

lemma keeps_detailed [keeping]: "keeps (drainHookSpoolRecordsDetailed limit deadline)" "keeps (drainHookSpoolRecords limit)"
proof -
  show d: "keeps (drainHookSpoolRecordsDetailed l t)" for l t
    unfolding drainHookSpoolRecordsDetailed_def or_result_def with_count_def
    by (rule upholds_handle [OF upholds_list _ upholds_drain_listed] keeping)+
  show "keeps (drainHookSpoolRecords limit)" unfolding drainHookSpoolRecords_def by (rule keeping d)+
qed

lemma keeps_opportunistic [keeping]: "keeps (opportunistic_drain spec h t)"
  unfolding opportunistic_drain_def Let_def by (rule keeping)+

lemma upholds_run_current: "upholds (\<lambda>_. True) (run_current h r) (\<lambda>_. delivered (sr_receipt_id r))"
  unfolding run_current_def by (rule upholds_if [OF upholds_fail upholds_deliver])

lemma keeps_run_recorded [keeping]: "keeps (run_recorded spec h t r)"
  unfolding run_recorded_def
proof (rule upholds_handle [OF upholds_persist [where sfx = "''.inflight''", folded persistCurrentHookSpoolRecord_def]])
  fix path
  let ?O = "owns path (sr_receipt_id r)"
  have ran: "upholds ?O (run_current h r) (\<lambda>_ d. ?O d \<and> delivered (sr_receipt_id r) d)"
    by (rule upholds_conseq [OF upholds_frame [OF upholds_run_current lasting_facts(1)]]) auto
  have ctx: "upholds ?O ctx_err (\<lambda>_. ?O)"
    by (rule upholds_conseq [OF upholds_frame [OF keeps_ctx lasting_facts(1)]]) auto
  have finish: "upholds (\<lambda>d. ?O d \<and> delivered (sr_receipt_id r) d)
      (bindSp (clearCurrentHookSpoolRecord path) (\<lambda>_. opportunistic_drain spec h t)) (\<lambda>_ _. True)" if "has_suffix (snd path) ''.inflight''"
    by (rule upholds_bind [OF upholds_clear [OF that]]) (rule keeping)
  show "upholds (\<lambda>d. ?O d \<and> has_suffix (snd path) ''.inflight'') (bindSp (trySp ctx_err) (\<lambda>cancelled.
      case cancelled of
        Inl e \<Rightarrow> bindSp (ignoreSp (promoteCurrentHookSpoolRecord path)) (\<lambda>_. failSp e)
      | Inr _ \<Rightarrow> bindSp (trySp (run_current h r)) (\<lambda>ran.
          case ran of
            Inl e \<Rightarrow> bindSp (ignoreSp (promoteCurrentHookSpoolRecord path)) (\<lambda>_.
                       if e = MaintenancePending then retSp () else failSp e)
          | Inr _ \<Rightarrow> bindSp (clearCurrentHookSpoolRecord path) (\<lambda>_. opportunistic_drain spec h t)))) (\<lambda>_ _. True)"
  proof (cases "has_suffix (snd path) ''.inflight''")
    case True
    have "upholds ?O (bindSp (trySp ctx_err) (\<lambda>cancelled.
      case cancelled of
        Inl e \<Rightarrow> bindSp (ignoreSp (promoteCurrentHookSpoolRecord path)) (\<lambda>_. failSp e)
      | Inr _ \<Rightarrow> bindSp (trySp (run_current h r)) (\<lambda>ran.
          case ran of
            Inl e \<Rightarrow> bindSp (ignoreSp (promoteCurrentHookSpoolRecord path)) (\<lambda>_.
                       if e = MaintenancePending then retSp () else failSp e)
          | Inr _ \<Rightarrow> bindSp (clearCurrentHookSpoolRecord path) (\<lambda>_. opportunistic_drain spec h t)))) (\<lambda>_ _. True)"
      by (rule upholds_handle [OF ctx], (rule keeping)+, rule upholds_handle [OF ran], (rule keeping)+, rule finish [OF True])
    then show ?thesis by (rule upholds_conseq) auto
  qed (simp add: upholds_def)
next
  show "keeps (run_current h r)" by (rule keeps_forget [OF upholds_run_current])
qed simp

lemma keeps_runHookDurably [keeping]: "keeps (runHookDurably spec h)"
  unfolding runHookDurably_def by (rule keeping)+

section \<open>Repair\<close>

text \<open>The receipt moves with the file to the name just drawn.\<close>

lemma upholds_rename_drawn:
  assumes "\<not> is_tmp q"
  shows "upholds (owns p rc) (sys_rename_drawn p q) (\<lambda>_. owns q rc)"
proof (rule upholdsI)
  fix s r s' assume s: "whole (sn_ticks s)" "spool_inv (sn_disk s)" "owns p rc (sn_disk s)" and run: "sys_rename_drawn p q s = (r, s')"
  have t: "upholds (owns p rc) (sys_rename_drawn p q) (\<lambda>_. owns q rc)" unfolding sys_rename_drawn_def
  proof (rule upholds_call, rule lasting_facts, intro conjI allI impI)
    fix d x d' assume i: "spool_inv d" and o': "owns p rc d"
      and f: "(case spool_lookup d p of None \<Rightarrow> (Inl SpoolNotExist, d) | Some f \<Rightarrow> rename_file p q (own q (receipt_of (sf_content f)) (sf_mtime f) d)) = (x, d')"
    show "others d d'" by (rule drawn_others [OF assms i f])
    fix u assume "x = Inr u"
    then obtain g where g: "spool_lookup d p = Some g" using f by (cases "spool_lookup d p") auto
    have own: "owner d' q = Some (receipt_of (sf_content g))" "sp_collided d \<Longrightarrow> sp_collided d'"
      using f g own_fields(7) [of q "receipt_of (sf_content g)" "sf_mtime g" d q] by (auto simp: rename_file_def owner_def)
    have "sp_collided d \<or> receipt_of (sf_content g) = rc" using i g o' by (auto simp: spool_inv_def file_owned_def owns_def)
    then show "owns q rc d'" using own by (auto simp: owns_def)
  qed
  show "whole (sn_ticks s') \<and> others (sn_disk s) (sn_disk s') \<and> (\<forall>x. r = Inr x \<longrightarrow> owns q rc (sn_disk s'))"
    by (rule upholdsD [OF t s run])
qed

lemma retry_pending: "queued_path (False, retry_name t random)"
  using drawn_not_tmp(1) by (simp add: queued_path_def)

lemma upholds_requeue_dead: "upholds (owns path (sr_receipt_id r)) (requeue_dead path now r) (\<lambda>_ _. True)"
proof -
  have move: "upholds (owns path (sr_receipt_id r)) (bindSp (wrapped (sys_rename_drawn path (False, retry_name now random)))
      (\<lambda>_. writeHookSpoolRecordAtomic (False, retry_name now random) (r\<lparr>sr_attempt_count := 0, sr_last_error := []\<rparr>))) (\<lambda>_ _. True)" for random
    by (rule upholds_bind [OF upholds_wrapped [OF upholds_rename_drawn [OF drawn_not_tmp(1)]]])
      (use upholds_write_atomic [OF retry_pending, where r = "r\<lparr>sr_attempt_count := 0, sr_last_error := []\<rparr>"] in simp)
  show ?thesis unfolding requeue_dead_def Let_def
    by (rule upholds_bind [OF upholds_random [where Q = "\<lambda>_. owns path (sr_receipt_id r)"]], assumption, rule move)
qed

lemma keeps_requeue_dead_names [keeping]: "keeps (requeue_dead_names now dryRun limit counts names)"
proof (induction names arbitrary: counts)
  case (Cons name names)
  obtain a b c where counts: "counts = (a, b, c)" by (metis prod_cases3)
  have found: "upholds (owns (True, name) (receipt_of content)) (case parseHookSpoolRecordForRequeue content of
       None \<Rightarrow> requeue_dead_names now dryRun limit (a, b + 1, c + 1) names
     | Some record' \<Rightarrow>
         if \<not> hookSpoolDeadLetterRequeueable (sr_last_error record') then requeue_dead_names now dryRun limit (a, b + 1, c + 1) names
         else if limit > 0 \<and> a \<ge> limit
         then requeue_dead_names now dryRun limit (a, b, c + 1) names
         else if dryRun then requeue_dead_names now dryRun limit (a + 1, b, c) names
         else bindSp (requeue_dead (True, name) now record') (\<lambda>_.
                requeue_dead_names now dryRun limit (a + 1, b, c) names)) (\<lambda>_ _. True)" for content
  proof (cases "parseHookSpoolRecordForRequeue content")
    case None
    then show ?thesis using keeps_weaken [OF Cons.IH] by simp
  next
    case (Some r)
    have rc: "receipt_of content = sr_receipt_id r" using Some by (cases content) (auto simp: parseHookSpoolRecordForRequeue_def)
    have last: "upholds (owns (True, name) (sr_receipt_id r)) (bindSp (requeue_dead (True, name) now r) (\<lambda>_.
        requeue_dead_names now dryRun limit (a + 1, b, c) names)) (\<lambda>_ _. True)"
      by (rule upholds_bind [OF upholds_requeue_dead Cons.IH])
    show ?thesis unfolding Some option.case rc
      by (rule upholds_if keeps_weaken [OF Cons.IH] last)+
  qed
  show ?case unfolding requeue_dead_names.simps counts prod.case Let_def
    by (rule keeps_bind [OF keeps_ctx], rule upholds_if [OF Cons.IH], rule upholds_handle [OF upholds_load_content Cons.IH found])
qed (simp only: requeue_dead_names.simps keeps_basic)

lemma keeps_requeue_limited [keeping]: "keeps (requeueHookSpoolDeadLettersLimited now dryRun limit)"
  unfolding requeueHookSpoolDeadLettersLimited_def by (rule keeping)+

lemma keeps_prune_names:
  assumes "dead \<or> sfx = ''.tmp''" shows "keeps (prune_names dead sfx now dryRun counts names)"
proof (induction names arbitrary: counts)
  case (Cons name names)
  let ?P = "\<lambda>t d. dead \<longrightarrow> drawn (dead, name) t d"
  obtain a b where counts: "counts = (a, b)" by (cases counts)
  have stat: "upholds (\<lambda>_. True) (sys_stat (dead, name)) ?P"
    using upholds_stat [of "(dead, name)"] upholds_conseq [OF keeps_reads(1) [of "(dead, name)"]] by (cases dead) auto
  show ?case
  proof (cases "has_suffix name sfx")
    case True
    have remove: "upholds (?P t) (if dead then sys_prune (dead, name) now else sys_remove (dead, name)) (\<lambda>_ _. True)"
      if "before t (time_add now (- hookSpoolDeadRetention))" for t
    proof (cases dead)
      case dead: True
      then show ?thesis using upholds_prune [of "(dead, name)" t now] that by simp
    next
      case False
      then have "keeps (sys_remove (dead, name))" using assms True by (intro keeps_remove_tmp) (simp add: is_tmp_def)
      then show ?thesis using False by (simp add: keeps_weaken)
    qed
    have del: "upholds (?P t) (bindSp (trySp (if dead then sys_prune (dead, name) now else sys_remove (dead, name))) (\<lambda>r.
        case r of Inl e \<Rightarrow> if e = SpoolNotExist then prune_names dead sfx now dryRun (a + 1, b) names else failSp e
        | Inr _ \<Rightarrow> prune_names dead sfx now dryRun (a + 1, b) names)) (\<lambda>_ _. True)"
      if "before t (time_add now (- hookSpoolDeadRetention))" for t
      by (rule upholds_bind [OF upholds_try [OF remove [OF that]]], rule keeps_weaken) (rule keeping Cons.IH)+
    have seen: "upholds (?P t)
        (if \<not> before t (time_add now (- hookSpoolDeadRetention)) then prune_names dead sfx now dryRun (a, if dead then b + 1 else b) names
         else if a \<ge> hookSpoolDeadPruneLimit then prune_names dead sfx now dryRun (a, b + 1) names
         else if dryRun then prune_names dead sfx now dryRun (a + 1, b) names
         else bindSp (trySp (if dead then sys_prune (dead, name) now else sys_remove (dead, name))) (\<lambda>r.
           case r of Inl e \<Rightarrow> if e = SpoolNotExist then prune_names dead sfx now dryRun (a + 1, b) names else failSp e
           | Inr _ \<Rightarrow> prune_names dead sfx now dryRun (a + 1, b) names)) (\<lambda>_ _. True)" for t
    proof (cases "before t (time_add now (- hookSpoolDeadRetention))")
      case old: True
      show ?thesis unfolding if_not_P [OF not_not [THEN iffD2, OF old]]
        by (rule upholds_if keeps_weaken [OF Cons.IH] del [OF old])+
    next
      case False
      show ?thesis unfolding if_P [OF False] by (rule keeps_weaken [OF Cons.IH])
    qed
    show ?thesis unfolding prune_names.simps counts prod.case
      unfolding if_not_P [OF not_not [THEN iffD2, OF True]]
      by (rule upholds_handle [OF stat _ seen]) (rule keeping Cons.IH)+
  next
    case False
    show ?thesis unfolding prune_names.simps counts prod.case if_P [OF False] by (rule Cons.IH)
  qed
qed (simp only: prune_names.simps keeps_basic)

lemma keeps_prunes [keeping]: "keeps (pruneHookSpoolDeadLetters now dryRun)" "keeps (pruneHookSpoolOrphanTmpFiles now dryRun)"
  unfolding pruneHookSpoolDeadLetters_def pruneHookSpoolOrphanTmpFiles_def by (rule keeping keeps_prune_names, simp?)+

lemma keeps_late [keeping]: "keeps (past_deadline deadline)"
  unfolding past_deadline_def by (rule keeping)+

lemma keeps_requeue_until [keeping]: "keeps (requeueHookSpoolDeadLettersUntil fuel now dryRun deadline requeued)"
  by (induction fuel arbitrary: requeued) (simp_all only: requeueHookSpoolDeadLettersUntil.simps, (rule keeping | assumption)+)

lemma keeps_drain_until [keeping]: "keeps (drainHookSpoolRecordsUntil fuel aggregated remaining deadline)"
  by (induction fuel arbitrary: aggregated remaining)
    (simp_all only: drainHookSpoolRecordsUntil.simps, (rule keeping | assumption)+)

lemma keeps_fix [keeping]: "keeps (fixHookSpoolRequeueThenDrain fuel now dryRun)"
  unfolding fixHookSpoolRequeueThenDrain_def Let_def by (rule keeping)+

end
