(* ===== verification/Spool_Machine.thy ===== *)
theory Spool_Machine
  imports Spool_Safety
begin

text \<open>
  The spool over any number of runs: hooks, drains and the repairs of the doctor command, each interleaved at
  its system calls with the steps of the other processes, failing or killed anywhere; and what the
  drain promises of its budget.
\<close>

section \<open>The machine\<close>

text \<open>The entry points; \<open>DrainSpool\<close> is the drain that other commands call.\<close>

datatype SpoolOp =
    RunHook hookInvocationSpec HookRun
  | PersistRecord SpoolRecord
  | DrainSpool int gotime
  | RequeueDead gotime bool int
  | PruneDead gotime bool
  | PruneTmp gotime bool
  | DoctorFix nat gotime bool

definition discard :: "'a sp \<Rightarrow> unit sp" where
  "discard m = bindSp m (\<lambda>_. retSp ())"

fun run_op :: "SpoolOp \<Rightarrow> unit sp" where
  "run_op (RunHook spec h) = runHookDurably spec h"
| "run_op (PersistRecord r) = discard (persistHookSpoolRecord r)"
| "run_op (DrainSpool limit deadline) = discard (drainHookSpoolRecordsDetailed limit deadline)"
| "run_op (RequeueDead now dryRun limit) = discard (requeueHookSpoolDeadLettersLimited now dryRun limit)"
| "run_op (PruneDead now dryRun) = discard (pruneHookSpoolDeadLetters now dryRun)"
| "run_op (PruneTmp now dryRun) = discard (pruneHookSpoolOrphanTmpFiles now dryRun)"
| "run_op (DoctorFix fuel now dryRun) = discard (fixHookSpoolRequeueThenDrain fuel now dryRun)"

text \<open>The disk after a run with the given interference and faults.\<close>

definition ran :: "SpoolOp \<Rightarrow> spool_tick list \<Rightarrow> string list \<Rightarrow> Spool \<Rightarrow> Spool" where
  "ran oper ts rs d = sn_disk (snd (run_op oper \<lparr>sn_disk = d, sn_ticks = ts, sn_random = rs\<rparr>))"

definition empty_spool :: "Spool \<Rightarrow> bool" where
  "empty_spool d \<longleftrightarrow> sp_files d = [] \<and> sp_persisted d = [] \<and> sp_pruned d = [] \<and> \<not> sp_collided d"

inductive spool_step :: "Spool \<Rightarrow> Spool \<Rightarrow> bool" where
  step_run: "whole ts \<Longrightarrow> spool_step d (ran oper ts rs d)"
| step_clock: "spool_step d (d\<lparr>sp_now := t\<rparr>)"

lemma keeps_run: "keeps (run_op oper)"
proof -
  have p: "keeps (persistHookSpoolRecord r)" for r
    unfolding persistHookSpoolRecord_def by (rule keeps_forget [OF upholds_persist]) simp
  show ?thesis by (cases oper) (simp_all only: run_op.simps discard_def, (rule keeping p)+)
qed

lemma ran_others: "whole ts \<Longrightarrow> spool_inv d \<Longrightarrow> others d (ran oper ts rs d)"
  using upholdsD [OF keeps_run, of "\<lparr>sn_disk = d, sn_ticks = ts, sn_random = rs\<rparr>" oper] unfolding ran_def
  by (cases "run_op oper \<lparr>sn_disk = d, sn_ticks = ts, sn_random = rs\<rparr>") simp

lemma clock_others: "others d (d\<lparr>sp_now := t\<rparr>)"
  by (simp add: others_def spool_inv_def receipt_accounted_def held_def file_owned_def owner_def drawn_at_def)

interpretation spool_machine: invariant_machine empty_spool spool_step spool_inv
proof unfold_locales
  show "empty_spool d \<Longrightarrow> spool_inv d" for d by (simp add: empty_spool_def spool_inv_def)
  show "spool_inv d \<Longrightarrow> spool_step d d' \<Longrightarrow> spool_inv d'" for d d'
    by (erule spool_step.cases) (use ran_others clock_others others_inv in blast)+
qed

section \<open>No record is lost\<close>

lemma steps_persisted:
  "spool_step\<^sup>*\<^sup>* d d' \<Longrightarrow> spool_inv d \<Longrightarrow> sp_collided d' \<or> set (sp_persisted d) \<subseteq> set (sp_persisted d')"
proof (induction rule: rtranclp_induct)
  case (step e f)
  have "spool_inv e" using spool_machine.steps_inv [OF step.hyps(1) step.prems] .
  then have "others e f" using step.hyps(2) by (auto elim!: spool_step.cases intro: ran_others clock_others)
  then show ?case using step.IH [OF step.prems] unfolding others_def by blast
qed simp

text \<open>The account of a persisted receipt, spelled out.\<close>

lemma accounted_unfolded:
  assumes "spool_inv d" "\<not> sp_collided d" "rc \<in> set (sp_persisted d)" "rc \<noteq> []"
  shows "rc \<in> set (sp_delivered d)
    \<or> (\<exists>modified now. (rc, modified, now) \<in> set (sp_pruned d)
          \<and> before modified (time_add now (- (14 * 24 * 3600 * 10 ^ 9))))
    \<or> (\<exists>p f. spool_lookup d p = Some f \<and> \<not> is_tmp p \<and> receipt_of (sf_content f) = rc)"
proof -
  have a: "receipt_accounted rc d" and e: "list_all expired (sp_pruned d)"
    using assms unfolding spool_inv_def by blast+
  have "\<exists>modified now. (rc, modified, now) \<in> set (sp_pruned d) \<and> before modified (time_add now (- (14 * 24 * 3600 * 10 ^ 9)))"
    if gone: "rc \<in> fst ` set (sp_pruned d)"
  proof -
    obtain m t where "(rc, m, t) \<in> set (sp_pruned d)" using gone by (auto simp: image_iff)
    then show ?thesis using e unfolding list_all_iff expired_def by fast
  qed
  then show ?thesis using a unfolding receipt_accounted_def held_def by blast
qed

text \<open>
  C5: no persisted record is lost. Take any runs of the operations in any order, interleaved at their system
  calls with other processes that keep the same contract, each step failing or being killed before or after
  its effect. A receipt whose record was persisted is then delivered; or it was pruned, as a dead letter that
  at its removal had been unmodified for more than 14 days before the time that the pruning run took for now; or
  it is still in a file of the spool that is not a temporary file. Two things are assumed: no write stops
  halfway, leaving a torn file, and no two of the names that processes draw at random collide.
\<close>

theorem spool_record_never_lost:
  assumes "reach empty_spool spool_step d" "spool_step\<^sup>*\<^sup>* d d'" "rc \<in> set (sp_persisted d)" "rc \<noteq> []" "\<not> sp_collided d'"
  shows "rc \<in> set (sp_delivered d')
    \<or> (\<exists>modified now. (rc, modified, now) \<in> set (sp_pruned d')
          \<and> before modified (time_add now (- (14 * 24 * 3600 * 10 ^ 9))))
    \<or> (\<exists>p f. spool_lookup d' p = Some f \<and> \<not> is_tmp p \<and> receipt_of (sf_content f) = rc)"
proof (rule accounted_unfolded)
  have inv: "spool_inv d" using spool_machine.reach_inv [OF assms(1)] .
  then show "spool_inv d'" using spool_machine.steps_inv [OF assms(2)] by blast
  show "rc \<in> set (sp_persisted d')" using steps_persisted [OF assms(2) inv] assms(3,5) by blast
qed (rule assms(5), rule assms(4))

abbreviation running :: "Spool \<Rightarrow> spool_tick list \<Rightarrow> string list \<Rightarrow> SpoolRun" where
  "running d ts rs \<equiv> \<lparr>sn_disk = d, sn_ticks = ts, sn_random = rs\<rparr>"

lemma hook_recorded:
  "runHookDurably spec h (running d ts (y # rs)) =
     run_recorded spec h (sp_now d) (current_record spec h (sp_now d) (hex_encode y)) (running d ts rs)"
  by (simp add: runHookDurably_def bindSp_def nowSp_def randomSp_def)

abbreviation calm :: "spool_fault \<Rightarrow> spool_tick" where
  "calm \<equiv> Tick (\<lambda>d. d)"

definition sample_spec :: hookInvocationSpec where
  "sample_spec = \<lparr>his_command = ''passive'', his_client = ''codex'', his_action = ''stop_failure'', his_db_path = []\<rparr>"

definition sample_hook :: HookRun where
  "sample_hook = \<lparr>hr_payload = ''{}'', hr_workspace = None, hr_capture_failed = False, hr_deadline = None, hr_maintenance = False\<rparr>"

definition sample_spool_record :: SpoolRecord where
  "sample_spool_record = \<lparr>sr_command = ''passive'', sr_client = ''codex'', sr_action = ''stop_failure'', sr_db_path = [], sr_payload = ''{}'',
     sr_created_at = zero_time, sr_receipt_id = ''spool:30'', sr_resolved_workspace = None, sr_workspace_capture_failed = False,
     sr_attempt_count = 0, sr_last_error = []\<rparr>"

definition sample_empty :: Spool where
  "sample_empty = \<lparr>sp_files = [], sp_now = zero_time, sp_delivered = [], sp_pruned = [], sp_persisted = [], sp_owner = [], sp_collided = False\<rparr>"

text \<open>A hook killed while it delivers; the next drain finds its record stale.\<close>

definition sample_killed :: Spool where
  "sample_killed = ran (RunHook sample_spec sample_hook)
     [Tick (\<lambda>d. d) NoFault, Tick (\<lambda>d. d) NoFault, Tick (\<lambda>d. d) NoFault, Tick (\<lambda>d. d) KilledBefore] [[CHR ''0''], [CHR ''a'']] sample_empty"

lemma sample_current: "current_record sample_spec sample_hook zero_time (hex_encode [CHR ''0'']) = sample_spool_record"
  by code_simp

text \<open>The sample as it is evaluated: the record is acquired once.\<close>

lemma sample_killed_run [code]:
  "sample_killed = sn_disk (snd (run_recorded sample_spec sample_hook zero_time sample_spool_record
     (running sample_empty [calm NoFault, calm NoFault, calm NoFault, calm KilledBefore] [[CHR ''a'']])))"
  unfolding sample_killed_def ran_def run_op.simps hook_recorded
  by (simp only: sample_current [symmetric]) (simp add: sample_empty_def)

definition sample_stale :: Spool where
  "sample_stale = sample_killed\<lparr>sp_now := time_add zero_time (61 * second)\<rparr>"

definition sample_drained :: Spool where
  "sample_drained = ran (DrainSpool 5 zero_time) [] [[CHR ''b'']] sample_stale"

lemma sample_killed_persisted: "sp_persisted sample_killed = [''spool:30'']" "sp_delivered sample_killed = []"
  by code_simp+

lemma sample_drained_delivered: "sp_delivered sample_drained = [''spool:30'']" "sp_files sample_drained = []" "\<not> sp_collided sample_drained"
  by code_simp+

lemma sample_reached: "reach empty_spool spool_step sample_killed" "spool_step\<^sup>*\<^sup>* sample_killed sample_drained" "spool_inv sample_stale"
proof -
  have "reach empty_spool spool_step sample_empty" by (rule reach.reach_init) (simp add: empty_spool_def sample_empty_def)
  moreover have "spool_step sample_empty sample_killed" unfolding sample_killed_def by (rule step_run) (simp add: whole_def)
  ultimately show r: "reach empty_spool spool_step sample_killed" by (rule reach.reach_step)
  have t: "spool_step sample_killed sample_stale" unfolding sample_stale_def by (rule step_clock)
  have "spool_step sample_stale sample_drained" unfolding sample_drained_def by (rule step_run) (simp add: whole_def)
  then show "spool_step\<^sup>*\<^sup>* sample_killed sample_drained" using t by (meson r_into_rtranclp rtranclp.rtrancl_into_rtrancl)
  show "spool_inv sample_stale" by (rule spool_machine.reach_inv [OF reach.reach_step [OF r t]])
qed

theorem spool_record_never_lost_witness:
  "''spool:30'' \<in> set (sp_delivered sample_drained)
    \<or> (\<exists>modified now. (''spool:30'', modified, now) \<in> set (sp_pruned sample_drained)
          \<and> before modified (time_add now (- (14 * 24 * 3600 * 10 ^ 9))))
    \<or> (\<exists>p f. spool_lookup sample_drained p = Some f \<and> \<not> is_tmp p \<and> receipt_of (sf_content f) = ''spool:30'')"
  by (rule spool_record_never_lost [OF sample_reached(1,2)]) (simp_all add: sample_killed_persisted sample_drained_delivered)

text \<open>
  C6: what one run of an operation keeps. From a disk on which the contract holds, as it does on every reachable
  one, interleaved with other processes that keep the same contract, and failing or killed at any step but not
  halfway through a write, a run that meets no collision of drawn names leaves a disk on
  which every persisted receipt is delivered, pruned after its retention, or in a file that is not temporary;
  no name changes hands: a file whose name has the same stem as that of a file there before, whatever suffixes it
  gained or lost, bears the same receipt; and a dead letter that is still there has not been modified. (Where a
  drawn name collides, the older file is overwritten and none of this holds.)
\<close>

theorem spool_operation_contract:
  assumes "whole ts" "spool_inv d" "d' = ran oper ts rs d" "\<not> sp_collided d'"
  shows "(\<forall>rc \<in> set (sp_persisted d'). rc \<noteq> [] \<longrightarrow>
        rc \<in> set (sp_delivered d')
        \<or> (\<exists>modified now. (rc, modified, now) \<in> set (sp_pruned d')
              \<and> before modified (time_add now (- (14 * 24 * 3600 * 10 ^ 9))))
        \<or> (\<exists>p f. spool_lookup d' p = Some f \<and> \<not> is_tmp p \<and> receipt_of (sf_content f) = rc))
    \<and> (\<forall>p q f g. spool_lookup d p = Some f \<longrightarrow> spool_lookup d' q = Some g \<longrightarrow> stem_key p = stem_key q \<longrightarrow>
        receipt_of (sf_content f) = receipt_of (sf_content g) \<and> (fst p \<longrightarrow> sf_mtime f = sf_mtime g))"
proof -
  have o': "others d d'" using ran_others [OF assms(1,2)] assms(3) by simp
  then have i: "spool_inv d'" by (rule others_inv) (rule assms(2))
  have c: "\<not> sp_collided d" using o' assms(4) by (simp add: others_def)
  have same: "receipt_of (sf_content f) = receipt_of (sf_content g) \<and> (fst p \<longrightarrow> sf_mtime f = sf_mtime g)"
    if f: "spool_lookup d p = Some f" and g: "spool_lookup d' q = Some g" and k: "stem_key p = stem_key q" for p q f g
  proof -
    have df: "file_owned d p f" using inv_parts(3) [OF assms(2) c f] .
    have dg: "file_owned d' q g" using inv_parts(3) [OF i assms(4) g] .
    obtain v where v: "map_of (sp_owner d) (stem_key p) = Some v" using df by (auto simp: file_owned_def owner_def)
    then have "map_of (sp_owner d') (stem_key q) = Some v" using o' assms(4) k by (auto simp: others_def)
    moreover have "fst q = fst p" using k by (simp add: stem_key_def)
    ultimately show ?thesis using df dg v by (auto simp: file_owned_def owner_def drawn_at_def)
  qed
  have acc: "rc \<in> set (sp_delivered d')
        \<or> (\<exists>modified now. (rc, modified, now) \<in> set (sp_pruned d')
              \<and> before modified (time_add now (- (14 * 24 * 3600 * 10 ^ 9))))
        \<or> (\<exists>p f. spool_lookup d' p = Some f \<and> \<not> is_tmp p \<and> receipt_of (sf_content f) = rc)"
    if "rc \<in> set (sp_persisted d')" "rc \<noteq> []" for rc
    using accounted_unfolded [OF i assms(4) that] .
  show ?thesis
  proof (intro conjI allI ballI impI)
    fix rc assume "rc \<in> set (sp_persisted d')" "rc \<noteq> []"
    then show "rc \<in> set (sp_delivered d')
        \<or> (\<exists>modified now. (rc, modified, now) \<in> set (sp_pruned d')
              \<and> before modified (time_add now (- (14 * 24 * 3600 * 10 ^ 9))))
        \<or> (\<exists>p f. spool_lookup d' p = Some f \<and> \<not> is_tmp p \<and> receipt_of (sf_content f) = rc)" by (rule acc)
  next
    fix p q f g
    assume h: "spool_lookup d p = Some f" "spool_lookup d' q = Some g" "stem_key p = stem_key q"
    show "receipt_of (sf_content f) = receipt_of (sf_content g)" using same [OF h] by simp
    assume "fst p"
    then show "sf_mtime f = sf_mtime g" using same [OF h] by simp
  qed
qed

text \<open>Before the first step of a drain, another process drains the whole spool.\<close>

definition stealing :: "Spool \<Rightarrow> Spool" where
  "stealing d = (if d = sample_stale then sample_drained else d)"

definition sample_robbed :: Spool where
  "sample_robbed = ran (DrainSpool 5 zero_time) [Tick stealing NoFault] [[CHR ''c'']] sample_stale"

lemma stealing_whole: "whole [Tick stealing NoFault]"
  using ran_others [OF _ sample_reached(3), of "[]"] by (simp add: stealing_def whole_def sample_drained_def)

lemma sample_robbed_delivered: "\<not> sp_collided sample_robbed \<and> sp_delivered sample_robbed = [''spool:30'']"
  by code_simp

lemma sample_robbed_persisted: "sp_persisted sample_robbed = [''spool:30'']"
  by code_simp

theorem spool_operation_contract_witness:
  "''spool:30'' \<in> set (sp_delivered sample_robbed)
    \<or> (\<exists>modified now. (''spool:30'', modified, now) \<in> set (sp_pruned sample_robbed)
          \<and> before modified (time_add now (- (14 * 24 * 3600 * 10 ^ 9))))
    \<or> (\<exists>p f. spool_lookup sample_robbed p = Some f \<and> \<not> is_tmp p \<and> receipt_of (sf_content f) = ''spool:30'')"
proof -
  have c: "\<not> sp_collided sample_robbed" "''spool:30'' \<in> set (sp_persisted sample_robbed)"
    using sample_robbed_delivered sample_robbed_persisted by simp_all
  from conjunct1 [OF spool_operation_contract [OF stealing_whole sample_reached(3) sample_robbed_def c(1)]] c(2)
  show ?thesis by (elim ballE) (erule mp, simp, simp)
qed

section \<open>One hook, one failed replay\<close>


lemma call_calm:
  "callSp f half (running d (calm NoFault # ts) rs) = (case f d of (r, d') \<Rightarrow> (r, running d' ts rs))"
  "callSp f half (running d [] rs) = (case f d of (r, d') \<Rightarrow> (r, running d' [] rs))"
  "callSp f half (running d (calm FailsBefore # ts) rs) = (Inl (SpoolError ''system call''), running d ts rs)"
  by (simp_all add: callSp_def next_tick_def split: prod.splits)

lemmas spool_runs = bindSp_def trySp_def retSp_def failSp_def nowSp_def

lemma lookups [simp]: "map_of (AList.update k v xs) x = (if x = k then Some v else map_of xs x)"
  "map_of (AList.delete k xs) x = (if x = k then None else map_of xs x)"
  by (simp_all add: update_conv' delete_conv')








lemma write_atomic_calm:
  obtains d' where "writeHookSpoolRecordAtomic path r (running d [] rs) = (Inr (), running d' [] rs)"
    "spool_lookup d' = (spool_lookup d)((fst path, snd path @ ''.tmp'') := None, path \<mapsto> \<lparr>sf_content = Decodes (json_record r), sf_mtime = sp_now d\<rparr>)"
    "sp_now d' = sp_now d"
proof -
  let ?t = "(fst path, snd path @ ''.tmp'')" and ?f = "\<lparr>sf_content = Decodes (json_record r), sf_mtime = sp_now d\<rparr>"
  define e where "e = put_file ?t (Decodes (json_record r)) d"
  define d' where "d' = e\<lparr>sp_files := AList.update path ?f (AList.delete ?t (sp_files e))\<rparr>"
  have e: "spool_lookup e = (spool_lookup d)(?t \<mapsto> ?f)" "sp_now e = sp_now d" by (auto simp: e_def put_file_def fun_eq_iff)
  have one: "wrapped (sys_write ?t r) (running d [] rs) = (Inr (), running e [] rs)"
    by (simp add: wrapped_def sys_write_def call_calm e_def)
  have two: "trySp (sys_rename ?t path) (running e [] rs) = (Inr (Inr ()), running d' [] rs)"
    by (simp add: trySp_def sys_rename_def call_calm rename_file_def e d'_def)
  have "writeHookSpoolRecordAtomic path r (running d [] rs) = (Inr (), running d' [] rs)"
    unfolding writeHookSpoolRecordAtomic_def by (simp add: Let_def bindSp_def one two retSp_def)
  moreover have "spool_lookup d' = (spool_lookup d)(?t := None, path \<mapsto> ?f)" using e by (auto simp: d'_def fun_eq_iff)
  ultimately show ?thesis using that e by (simp add: d'_def)
qed

lemma move_calm:
  assumes "spool_lookup d path = Some f"
  shows "\<exists>d'. renameHookSpoolRecordToDead path (running d [] (x # rs)) = (Inr (), running d' [] rs) \<and>
      spool_lookup d' = (spool_lookup d)(path := None, (True, ''dead-'' @ spool_stamp (sp_now d) @ ''-'' @ hex_encode x @ ''.json'') \<mapsto> f)"
    and "\<exists>d'. renameHookSpoolRecordToRetryTail path (running d [] (x # rs)) = (Inr (), running d' [] rs) \<and>
      spool_lookup d' = (spool_lookup d)(path := None, (fst path, retry_name (sp_now d) (hex_encode x)) \<mapsto> f)"
proof -
  have mv: "\<exists>d'. wrapped (sys_rename_drawn path q) (running d [] rs) = (Inr (), running d' [] rs) \<and>
      spool_lookup d' = (spool_lookup d)(path := None, q \<mapsto> f)" for q
    using assms by (auto simp: wrapped_def sys_rename_drawn_def call_calm rename_file_def own_def fun_eq_iff)
  show "\<exists>d'. renameHookSpoolRecordToDead path (running d [] (x # rs)) = (Inr (), running d' [] rs) \<and>
      spool_lookup d' = (spool_lookup d)(path := None, (True, ''dead-'' @ spool_stamp (sp_now d) @ ''-'' @ hex_encode x @ ''.json'') \<mapsto> f)"
    using mv unfolding renameHookSpoolRecordToDead_def by (simp add: bindSp_def randomSp_def nowSp_def)
  show "\<exists>d'. renameHookSpoolRecordToRetryTail path (running d [] (x # rs)) = (Inr (), running d' [] rs) \<and>
      spool_lookup d' = (spool_lookup d)(path := None, (fst path, retry_name (sp_now d) (hex_encode x)) \<mapsto> f)"
    using mv unfolding renameHookSpoolRecordToRetryTail_def by (simp add: bindSp_def randomSp_def nowSp_def)
qed

text \<open>
  C22: a failed replay, in a run that nobody disturbs and in which no step fails, counts one more attempt (in 64
  bits) and records its error in the record, which ends in one file: at the tail of the queue, or from the third
  attempt on among the dead letters. (A run that is killed between the rewriting and the rename may leave two
  files, as \<open>interrupted_requeue_duplicates\<close> below shows.)
\<close>

theorem requeue_outcome:
  assumes "spool_lookup d path = Some f" "sf_content f = Decodes r"
    "n = (if sr_attempt_count r = 2 ^ 63 - 1 then - (2 ^ 63) else sr_attempt_count r + 1)"
  shows "\<exists>d'. requeueHookSpoolRecord path lastError (running d [] [x]) = (Inr (), running d' [] []) \<and>
    spool_lookup d' = (spool_lookup d)((fst path, snd path @ ''.tmp'') := None, path := None,
      (if n \<ge> 3 then (True, ''dead-'' @ spool_stamp (sp_now d) @ ''-'' @ hex_encode x @ ''.json'')
       else (fst path, retry_name (sp_now d) (hex_encode x))) \<mapsto>
        \<lparr>sf_content = Decodes (json_record (r\<lparr>sr_attempt_count := n,
           sr_last_error := (if trim_space lastError \<noteq> [] then trim_space lastError else sr_last_error r)\<rparr>)), sf_mtime = sp_now d\<rparr>)"
proof -
  let ?g = "failed_attempt r lastError"
  have load: "readHookSpoolFile path (running d [] [x]) = (Inr (Decodes r), running d [] [x])"
    using assms(1,2) by (simp add: readHookSpoolFile_def readSp_def call_calm)
  obtain e where e: "writeHookSpoolRecordAtomic path ?g (running d [] [x]) = (Inr (), running e [] [x])"
    "spool_lookup e = (spool_lookup d)((fst path, snd path @ ''.tmp'') := None, path \<mapsto> \<lparr>sf_content = Decodes (json_record ?g), sf_mtime = sp_now d\<rparr>)"
    "sp_now e = sp_now d"
    using write_atomic_calm by metis
  have at: "spool_lookup e path = Some \<lparr>sf_content = Decodes (json_record ?g), sf_mtime = sp_now d\<rparr>" using e(2) by simp
  have run: "requeueHookSpoolRecord path lastError (running d [] [x]) =
      (if shouldDeadLetter (sr_attempt_count ?g) then renameHookSpoolRecordToDead path else renameHookSpoolRecordToRetryTail path) (running e [] [x])"
    unfolding requeueHookSpoolRecord_def by (simp add: spool_runs load parseHookSpoolRecordForRequeue_def Let_def e(1))
  have n: "shouldDeadLetter (sr_attempt_count ?g) = (n \<ge> 3)"
    by (simp add: shouldDeadLetter_def failed_attempt_def next_attempt_def assms(3))
  have g: "?g = r\<lparr>sr_attempt_count := n,
     sr_last_error := (if trim_space lastError \<noteq> [] then trim_space lastError else sr_last_error r)\<rparr>"
    by (simp add: failed_attempt_def next_attempt_def assms(3))
  have eq: "m(t := a, p \<mapsto> b, p := None, q \<mapsto> b) = m(t := a, p := None, q \<mapsto> b)" for m :: "spool_path \<Rightarrow> SpoolFile option" and t p q a b
    by (auto simp: fun_eq_iff)
  show ?thesis unfolding run n g [symmetric]
    using move_calm [OF at, of x "[]"] unfolding e(2,3) eq by (cases "n \<ge> 3") simp_all
qed

definition sample_claimed :: Spool where
  "sample_claimed = sample_empty\<lparr>sp_files := [((False, ''x.json.claim-00''), \<lparr>sf_content = Decodes (sample_spool_record\<lparr>sr_attempt_count := 2\<rparr>), sf_mtime = zero_time\<rparr>)]\<rparr>"

theorem requeue_outcome_witness:
  "\<exists>d'. requeueHookSpoolRecord (False, ''x.json.claim-00'') ''boom'' (running sample_claimed [] [[]]) = (Inr (), running d' [] []) \<and>
    spool_lookup d' (True, ''dead-'' @ spool_stamp zero_time @ ''-.json'') =
      Some \<lparr>sf_content = Decodes (sample_spool_record\<lparr>sr_attempt_count := 3, sr_last_error := ''boom''\<rparr>), sf_mtime = zero_time\<rparr>"
proof -
  let ?r = "sample_spool_record\<lparr>sr_attempt_count := 2\<rparr>"
  have h: "spool_lookup sample_claimed (False, ''x.json.claim-00'') = Some \<lparr>sf_content = Decodes ?r, sf_mtime = zero_time\<rparr>"
    "3 = (if sr_attempt_count ?r = 2 ^ 63 - 1 then - (2 ^ 63) else sr_attempt_count ?r + 1)"
    "sp_now sample_claimed = zero_time" "trim_space ''boom'' = ''boom''" "hex_encode [] = []"
    by code_simp+
  have j: "json_record (sample_spool_record\<lparr>sr_attempt_count := 3, sr_last_error := ''boom''\<rparr>)
      = sample_spool_record\<lparr>sr_attempt_count := 3, sr_last_error := ''boom''\<rparr>"
    by code_simp
  obtain d' where "requeueHookSpoolRecord (False, ''x.json.claim-00'') ''boom'' (running sample_claimed [] [[]]) = (Inr (), running d' [] [])"
    "spool_lookup d' = (spool_lookup sample_claimed)((False, ''x.json.claim-00'' @ ''.tmp'') := None,
      (False, ''x.json.claim-00'') := None, (True, ''dead-'' @ spool_stamp zero_time @ ''-'' @ [] @ ''.json'') \<mapsto>
      \<lparr>sf_content = Decodes (json_record (sample_spool_record\<lparr>sr_attempt_count := 3, sr_last_error := ''boom''\<rparr>)), sf_mtime = zero_time\<rparr>)"
    using requeue_outcome [OF h(1) SpoolFile.select_convs(1) h(2), of "''boom''" "[]"] unfolding h(3-5) by auto
  then show ?thesis unfolding j by (intro exI [of _ d']) simp
qed

text \<open>
  A process killed between the two steps of a requeue leaves the claim and its temporary file, which also bears
  a claim marker: the recovery makes both replayable, two records of one receipt.
\<close>

definition sample_torn :: Spool where
  "sample_torn = ran (DrainSpool 5 zero_time)
     [calm NoFault, calm NoFault, calm NoFault, calm NoFault, calm NoFault, calm NoFault, calm NoFault, calm FailsBefore, calm NoFault, calm KilledAfter]
     [[CHR ''b'']] (ran (PersistRecord sample_spool_record) [] [[CHR ''a'']] sample_empty)"

lemma interrupted_requeue_duplicates:
  "map (receipt_of \<circ> sf_content \<circ> snd) (filter (\<lambda>(p, _). has_suffix (snd p) ''.json'')
     (sp_files (ran (DrainSpool 0 zero_time) [] [[CHR ''c'']] (sample_torn\<lparr>sp_now := time_add zero_time (61 * second)\<rparr>)))) =
   [''spool:30'', ''spool:30'']"
  by code_simp

text \<open>
  Losing the race for a stale record ends the drain with an error: another process takes the record between the
  listing and the rename, and the wrapped error is not recognised.
\<close>

definition taking :: "Spool \<Rightarrow> Spool" where
  "taking d = d\<lparr>sp_files := []\<rparr>"

lemma lost_race_aborts:
  "fst (recoverStaleCurrentHookSpoolRecords (sp_now sample_stale)
     (running sample_stale [calm NoFault, calm NoFault, Tick taking NoFault] [])) = Inl (SpoolError ''wrapped'')"
  by code_simp

section \<open>State keys\<close>

definition key_char :: "char \<Rightarrow> bool" where
  "key_char c \<longleftrightarrow> is_alnum c \<or> List.member ''._-'' c"

lemma key_char_ascii: "key_char c \<Longrightarrow> ord c < 128"
  by (auto simp: key_char_def is_alnum_def char_in_def)

lemma sanitize_keeps: "s \<noteq> [] \<Longrightarrow> list_all key_char s \<Longrightarrow> sanitizeHookStateKey s = s"
proof -
  assume s: "s \<noteq> []" "list_all key_char s"
  have "list_all (\<lambda>c. ord c < 128) s" using s(2) key_char_ascii by (auto simp: list_all_iff)
  then have r: "runes s = map (\<lambda>c. (ord c, 1)) s" by (rule runes_ascii)
  have "map (\<lambda>c. if ord c < 128 \<and> key_char (char_of (ord c)) then char_of (ord c) else CHR ''_'') s = s"
    by (rule map_idI) (use s(2) key_char_ascii in \<open>auto simp: list_all_iff\<close>)
  then show ?thesis using s(1) unfolding sanitizeHookStateKey_def Let_def r key_char_def by (simp add: comp_def)
qed

text \<open>
  C37: the key that the client of a record contributes to its file name is never empty, has only letters,
  digits and \<open>._-\<close> and so no path separator, and is its own key.
\<close>

theorem state_key_typed:
  "sanitizeHookStateKey v \<noteq> [] \<and> list_all key_char (sanitizeHookStateKey v) \<and>
   sanitizeHookStateKey (sanitizeHookStateKey v) = sanitizeHookStateKey v"
proof -
  have "key_char (if n < 128 \<and> (is_alnum (char_of n) \<or> List.member ''._-'' (char_of n)) then char_of n else CHR ''_'')" for n
    by (simp add: key_char_def)
  then have k: "sanitizeHookStateKey v \<noteq> [] \<and> list_all key_char (sanitizeHookStateKey v)"
    by (auto simp: sanitizeHookStateKey_def Let_def list_all_iff key_char_def)
      (simp_all add: is_alnum_def char_in_def)
  then show ?thesis using sanitize_keeps by blast
qed

section \<open>The budget of a drain\<close>

text \<open>
  C23: the number of records that a hook drains is between 0 and 32; near the end of its time it is at most one,
  inside the reserve none, and otherwise one percent of the backlog, but at least five.
\<close>

theorem drain_limit_budget:
  "0 \<le> hookSpoolBacklogDrainLimit pending remaining \<and> hookSpoolBacklogDrainLimit pending remaining \<le> 32 \<and>
   (remaining \<le> 2 * second \<longrightarrow> hookSpoolBacklogDrainLimit pending remaining = 0) \<and>
   (remaining < 4 * second \<longrightarrow> hookSpoolBacklogDrainLimit pending remaining \<le> 1) \<and>
   (4 * second \<le> remaining \<longrightarrow> hookSpoolBacklogDrainLimit pending remaining = min 32 (max 5 (pending div 100)))"
  by (auto simp: hookSpoolBacklogDrainLimit_def hookSpoolDrainAllowance_def Let_def min_def max_def)

theorem drain_limit_budget_witness:
  "hookSpoolBacklogDrainLimit 1990 (5 * second) = min 32 (max 5 (1990 div 100)) \<and> hookSpoolBacklogDrainLimit 1990 (2 * second) = 0"
proof -
  have "4 * second \<le> 5 * second" by simp
  then show ?thesis using drain_limit_budget [of 1990 "5 * second"] drain_limit_budget [of 1990 "2 * second"] by blast
qed

text \<open>An operation that fails only when it is killed, with a fact about what it returns.\<close>

definition yields :: "'a sp \<Rightarrow> ('a \<Rightarrow> bool) \<Rightarrow> bool" where
  "yields m Q \<longleftrightarrow> (\<forall>s. case fst (m s) of Inl e \<Rightarrow> e = SpoolKilled | Inr x \<Rightarrow> Q x)"

lemma yields_bind: "yields m P \<Longrightarrow> (\<And>x. P x \<Longrightarrow> yields (k x) Q) \<Longrightarrow> yields (bindSp m k) Q"
proof -
  assume m: "yields m P" and k: "\<And>x. P x \<Longrightarrow> yields (k x) Q"
  have "case fst (bindSp m k s) of Inl e \<Rightarrow> e = SpoolKilled | Inr x \<Rightarrow> Q x" for s
  proof (cases "fst (m s)")
    case (Inl e)
    then have "e = SpoolKilled" using m unfolding yields_def by (metis sum.simps(5))
    then show ?thesis using Inl by (cases "m s") (simp add: bindSp_def)
  next
    case (Inr x)
    then have "P x" using m unfolding yields_def by (metis sum.simps(6))
    then show ?thesis using Inr k [of x] by (cases "m s") (simp add: bindSp_def yields_def)
  qed
  then show ?thesis unfolding yields_def by blast
qed

lemma yields_ret: "Q x \<Longrightarrow> yields (retSp x) Q"
  by (simp add: yields_def retSp_def)

lemma yields_any: "yields (trySp m) (\<lambda>_. True)" "yields nowSp (\<lambda>_. True)" "yields (ignoreSp m) (\<lambda>_. True)"
  unfolding yields_def nowSp_def ignoreSp_def bindSp_def trySp_def retSp_def by (auto split: prod.splits sum.splits)

lemmas yields_try = yields_bind [OF yields_any(1)] yields_bind [OF yields_any(3)]

abbreviation handled :: "DrainResult \<Rightarrow> int" where
  "handled r \<equiv> dr_replayed r + dr_failed r + dr_unreadable r"

lemma yields_late: "yields (past_deadline deadline) (\<lambda>_. True)"
  unfolding past_deadline_def by (auto intro!: yields_bind [OF yields_any(2)] yields_ret)

lemma yields_claimed: "yields (drain_claimed path r) (\<lambda>r'. handled r \<le> handled r' \<and> handled r' \<le> handled r + 1)"
proof -
  have ends: "yields (drain_unreadable path r) (\<lambda>r'. handled r \<le> handled r' \<and> handled r' \<le> handled r + 1)"
    "yields (drain_failed path e r) (\<lambda>r'. handled r \<le> handled r' \<and> handled r' \<le> handled r + 1)" for e
    unfolding drain_unreadable_def drain_failed_def by (rule yields_try, rule yields_ret, simp)+
  have "yields (drain_delivered path r) (\<lambda>r'. handled r \<le> handled r' \<and> handled r' \<le> handled r + 1)"
    unfolding drain_delivered_def by (rule yields_try(1)) (auto split: sum.splits intro: ends yields_ret)
  then have "yields (drain_record path q r) (\<lambda>r'. handled r \<le> handled r' \<and> handled r' \<le> handled r + 1)" for q
    unfolding drain_record_def by (auto split: sum.splits intro!: yields_try yields_ret ends)
  then show ?thesis unfolding drain_claimed_def
    by (intro yields_try(1)) (auto split: sum.splits option.splits intro: ends)
qed

lemma yields_paths:
  "claimed \<le> limit \<Longrightarrow> yields (drain_paths limit deadline claimed r paths) (\<lambda>r'. handled r \<le> handled r' \<and> handled r' \<le> handled r + (limit - claimed))"
proof (induction paths arbitrary: claimed r)
  case (Cons path paths)
  let ?Q = "\<lambda>r'. handled r \<le> handled r' \<and> handled r' \<le> handled r + (limit - claimed)"
  have stop: "yields (retSp r) ?Q" by (rule yields_ret) (use Cons.prems in simp)
  have next': "yields (bindSp (drain_claimed p r) (\<lambda>r'. drain_paths limit deadline (claimed + 1) r' paths)) ?Q" if "claimed < limit" for p
  proof (rule yields_bind [OF yields_claimed])
    fix r' assume h: "handled r \<le> handled r' \<and> handled r' \<le> handled r + 1"
    have "yields (drain_paths limit deadline (claimed + 1) r' paths)
        (\<lambda>r''. handled r' \<le> handled r'' \<and> handled r'' \<le> handled r' + (limit - (claimed + 1)))"
      by (rule Cons.IH) (use that in simp)
    then show "yields (drain_paths limit deadline (claimed + 1) r' paths) ?Q"
      unfolding yields_def using h by (auto split: sum.splits; force)
  qed
  show ?case
  proof (cases "claimed \<ge> limit")
    case True
    then show ?thesis using stop by simp
  next
    case False
    then have more: "claimed < limit" by simp
    show ?thesis unfolding drain_paths.simps if_not_P [OF False]
    proof (rule yields_try(1))
      fix c :: "spool_error + unit"
      have "yields (bindSp (past_deadline deadline) (\<lambda>late. if late then retSp r
          else bindSp (trySp (claimHookSpoolRecord path)) (\<lambda>claim. case claim of
              Inl _ \<Rightarrow> drain_paths limit deadline claimed r paths
            | Inr won \<Rightarrow> if \<not> snd won then drain_paths limit deadline claimed r paths
                else bindSp (drain_claimed (fst won) r) (\<lambda>result'. drain_paths limit deadline (claimed + 1) result' paths)))) ?Q"
        by (rule yields_bind [OF yields_late])
          (auto split: sum.splits intro!: yields_try(1) stop next' [OF more] Cons.IH [OF Cons.prems])
      then show "yields (case c of Inl _ \<Rightarrow> retSp r | Inr _ \<Rightarrow> bindSp (past_deadline deadline) (\<lambda>late. if late then retSp r
          else bindSp (trySp (claimHookSpoolRecord path)) (\<lambda>claim. case claim of
              Inl _ \<Rightarrow> drain_paths limit deadline claimed r paths
            | Inr won \<Rightarrow> if \<not> snd won then drain_paths limit deadline claimed r paths
                else bindSp (drain_claimed (fst won) r) (\<lambda>result'. drain_paths limit deadline (claimed + 1) result' paths)))) ?Q"
        using stop by (cases c) simp_all
    qed
  qed
qed (simp add: yields_ret)

lemma yields_or_result: "(\<And>x. yields (k x) Q) \<Longrightarrow> (\<And>e. Q (no_drain\<lparr>dr_err := Some e\<rparr>)) \<Longrightarrow> yields (or_result m k) Q"
  unfolding or_result_def by (rule yields_try(1)) (auto split: sum.splits intro!: yields_ret)

lemma yields_count: "(\<And>n e. Q (r\<lparr>dr_remaining := n, dr_err := e\<rparr>)) \<Longrightarrow> yields (with_count r m) Q"
  unfolding with_count_def by (rule yields_try(1)) (auto split: sum.splits intro!: yields_ret)

text \<open>
  C21: whatever fails and whatever the other processes do, a drain that is not killed returns a result, and it
  replayed, failed or gave up at most as many records as its limit.
\<close>

theorem drain_within_limit:
  "case fst (drainHookSpoolRecordsDetailed limit deadline s) of
     Inl e \<Rightarrow> e = SpoolKilled
   | Inr result \<Rightarrow> 0 \<le> dr_replayed result + dr_failed result + dr_unreadable result
       \<and> dr_replayed result + dr_failed result + dr_unreadable result \<le> max 0 limit"
proof -
  let ?Q = "\<lambda>r. 0 \<le> handled r \<and> handled r \<le> max 0 limit"
  have none: "handled no_drain = 0" by (simp add: no_drain_def)
  have drain: "yields (bindSp (drain_paths limit deadline 0 no_drain paths) (\<lambda>result. with_count result countHookSpoolRecordPaths)) ?Q"
    if l: "\<not> limit \<le> 0" for paths
  proof (rule yields_bind [OF yields_paths])
    show "0 \<le> limit" using l by simp
    show "yields (with_count r countHookSpoolRecordPaths) ?Q"
      if "handled no_drain \<le> handled r \<and> handled r \<le> handled no_drain + (limit - 0)" for r
      by (rule yields_count) (use that l none in simp)
  qed
  have rest: "yields (if limit \<le> 0 then with_count no_drain (countHookSpoolPendingPaths now)
      else or_result listHookSpoolRecordPaths (\<lambda>paths. bindSp (drain_paths limit deadline 0 no_drain paths)
             (\<lambda>result. with_count result countHookSpoolRecordPaths))) ?Q" for now
  proof (cases "limit \<le> 0")
    case True
    show ?thesis unfolding if_P [OF True] by (rule yields_count) (use none in simp)
  next
    case False
    show ?thesis unfolding if_not_P [OF False] by (rule yields_or_result, rule drain [OF False]) (use none in simp)
  qed
  have "yields (drainHookSpoolRecordsDetailed limit deadline) ?Q"
    unfolding drainHookSpoolRecordsDetailed_def
    by (rule yields_bind [OF yields_any(2)], rule yields_or_result, rule yields_or_result, rule rest) (use none in simp_all)
  then show ?thesis unfolding yields_def by blast
qed

end
