(* ===== verification/Spool_Rounds.thy ===== *)
theory Spool_Rounds
  imports Spool_Machine
begin

text \<open>
  The loops of the doctor command end: without interference a round that replays a record removes its file, and a
  round that requeues a dead letter takes it out of its directory.
\<close>

section \<open>Counting files\<close>

definition files_in :: "spool_path set \<Rightarrow> Spool \<Rightarrow> nat" where
  "files_in A d = card (dom (spool_lookup d) \<inter> A)"

lemma files_in_le: "dom (spool_lookup d') \<inter> A \<subseteq> dom (spool_lookup d) \<inter> A \<Longrightarrow> files_in A d' \<le> files_in A d"
  unfolding files_in_def by (rule card_mono) (simp_all add: finite_dom_map_of)

lemma files_in_less:
  "dom (spool_lookup d') \<inter> A \<subseteq> dom (spool_lookup d) \<inter> A - {p} \<Longrightarrow> p \<in> dom (spool_lookup d) \<inter> A \<Longrightarrow> files_in A d' < files_in A d"
proof -
  assume "dom (spool_lookup d') \<inter> A \<subseteq> dom (spool_lookup d) \<inter> A - {p}" "p \<in> dom (spool_lookup d) \<inter> A"
  then have "dom (spool_lookup d') \<inter> A \<subset> dom (spool_lookup d) \<inter> A" by blast
  then show ?thesis unfolding files_in_def by (rule psubset_card_mono [rotated]) (simp add: finite_dom_map_of)
qed

lemma files_in_move:
  assumes "spool_lookup d p = Some f" "p \<in> A" "spool_lookup d' = (spool_lookup d)(p := None, q := Some g)"
  shows "files_in A d' \<le> files_in A d"
proof -
  have fin: "finite (dom (spool_lookup d) \<inter> A)" by (simp add: finite_dom_map_of)
  have "dom (spool_lookup d') \<inter> A \<subseteq> insert q (dom (spool_lookup d) \<inter> A - {p})" using assms(3) by (auto split: if_splits)
  then have "files_in A d' \<le> card (insert q (dom (spool_lookup d) \<inter> A - {p}))"
    unfolding files_in_def by (rule card_mono [rotated]) (use fin in simp)
  also have "\<dots> \<le> Suc (card (dom (spool_lookup d) \<inter> A - {p}))" by (rule card_insert_le_m1) (auto simp: fin)
  also have "\<dots> = card (dom (spool_lookup d) \<inter> A)" using fin assms(1,2) by (intro card_Suc_Diff1) auto
  finally show ?thesis unfolding files_in_def .
qed

abbreviation "all_files \<equiv> files_in UNIV"
abbreviation "dead_files \<equiv> files_in {p. fst p}"

text \<open>Undisturbed, an operation is not killed and lowers the number of files by the weight of its result.\<close>

definition lowers :: "(Spool \<Rightarrow> nat) \<Rightarrow> 'a sp \<Rightarrow> ('a \<Rightarrow> nat) \<Rightarrow> bool" where
  "lowers \<mu> m w \<longleftrightarrow> (\<forall>s r s'. sn_ticks s = [] \<longrightarrow> m s = (r, s') \<longrightarrow> sn_ticks s' = [] \<and> r \<noteq> Inl SpoolKilled \<and>
     \<mu> (sn_disk s') + (case r of Inl _ \<Rightarrow> 0 | Inr x \<Rightarrow> w x) \<le> \<mu> (sn_disk s))"

abbreviation settles :: "(Spool \<Rightarrow> nat) \<Rightarrow> 'a sp \<Rightarrow> bool" where
  "settles \<mu> m \<equiv> lowers \<mu> m (\<lambda>_. 0)"

named_theorems settling

lemma lowersI:
  "(\<And>s r s'. sn_ticks s = [] \<Longrightarrow> m s = (r, s') \<Longrightarrow> sn_ticks s' = [] \<and> r \<noteq> Inl SpoolKilled \<and>
     \<mu> (sn_disk s') + (case r of Inl _ \<Rightarrow> 0 | Inr x \<Rightarrow> w x) \<le> \<mu> (sn_disk s)) \<Longrightarrow> lowers \<mu> m w"
  unfolding lowers_def by blast

lemma lowersD:
  "lowers \<mu> m w \<Longrightarrow> sn_ticks s = [] \<Longrightarrow> m s = (r, s') \<Longrightarrow> sn_ticks s' = [] \<and> r \<noteq> Inl SpoolKilled \<and>
     \<mu> (sn_disk s') + (case r of Inl _ \<Rightarrow> 0 | Inr x \<Rightarrow> w x) \<le> \<mu> (sn_disk s)"
  unfolding lowers_def by blast

lemma lowers_weaken: "lowers \<mu> m w \<Longrightarrow> (\<And>x. v x \<le> w x) \<Longrightarrow> lowers \<mu> m v"
proof (rule lowersI)
  fix s r s' assume m: "lowers \<mu> m w" and v: "\<And>x. v x \<le> w x" and s: "sn_ticks s = []" "m s = (r, s')"
  show "sn_ticks s' = [] \<and> r \<noteq> Inl SpoolKilled \<and> \<mu> (sn_disk s') + (case r of Inl _ \<Rightarrow> 0 | Inr x \<Rightarrow> v x) \<le> \<mu> (sn_disk s)"
    using lowersD [OF m s] v [of "projr r"] by (cases r) auto
qed

lemma lowers_bind: "lowers \<mu> m v \<Longrightarrow> (\<And>x. lowers \<mu> (k x) (\<lambda>y. w y - v x)) \<Longrightarrow> lowers \<mu> (bindSp m k) w"
proof (rule lowersI)
  fix s r s' assume m: "lowers \<mu> m v" and k: "\<And>x. lowers \<mu> (k x) (\<lambda>y. w y - v x)"
    and s: "sn_ticks s = []" and run: "bindSp m k s = (r, s')"
  obtain r1 s1 where one: "m s = (r1, s1)" by (cases "m s")
  note l1 = lowersD [OF m s one]
  show "sn_ticks s' = [] \<and> r \<noteq> Inl SpoolKilled \<and> \<mu> (sn_disk s') + (case r of Inl _ \<Rightarrow> 0 | Inr x \<Rightarrow> w x) \<le> \<mu> (sn_disk s)"
  proof (cases r1)
    case (Inl e)
    then show ?thesis using run one l1 by (auto simp: bindSp_def)
  next
    case (Inr x)
    then have two: "k x s1 = (r, s')" using run one by (simp add: bindSp_def)
    show ?thesis using lowersD [OF k conjunct1 [OF l1] two] l1 Inr by (auto split: sum.splits)
  qed
qed

lemma settles_bind [settling]: "settles \<mu> m \<Longrightarrow> (\<And>x. lowers \<mu> (k x) w) \<Longrightarrow> lowers \<mu> (bindSp m k) w"
  by (rule lowers_bind [where v = "\<lambda>_. 0"]) simp_all

lemma settles_basic [settling]: "settles \<mu> (retSp x)" "settles \<mu> nowSp" "settles \<mu> randomSp"
  by (rule lowersI; auto simp: retSp_def nowSp_def randomSp_def split: list.splits)+

lemma lowers_ret: "w x = 0 \<Longrightarrow> lowers \<mu> (retSp x) w"
  by (rule lowersI) (auto simp: retSp_def)

lemma lowers_fail: "e \<noteq> SpoolKilled \<Longrightarrow> lowers \<mu> (failSp e) w"
  by (rule lowersI) (auto simp: failSp_def)

text \<open>The handler of an error knows that it is not the kill.\<close>

lemma lowers_handle:
  assumes "lowers \<mu> m v" "\<And>e. e \<noteq> SpoolKilled \<Longrightarrow> lowers \<mu> (l e) w" "\<And>x. lowers \<mu> (k x) (\<lambda>y. w y - v x)"
  shows "lowers \<mu> (bindSp (trySp m) (\<lambda>r. case r of Inl e \<Rightarrow> l e | Inr x \<Rightarrow> k x)) w"
proof (rule lowersI)
  fix s r s' assume s: "sn_ticks s = []" and run: "bindSp (trySp m) (\<lambda>r. case r of Inl e \<Rightarrow> l e | Inr x \<Rightarrow> k x) s = (r, s')"
  obtain r1 s1 where one: "m s = (r1, s1)" by (cases "m s")
  note l1 = lowersD [OF assms(1) s one]
  show "sn_ticks s' = [] \<and> r \<noteq> Inl SpoolKilled \<and> \<mu> (sn_disk s') + (case r of Inl _ \<Rightarrow> 0 | Inr x \<Rightarrow> w x) \<le> \<mu> (sn_disk s)"
  proof (cases r1)
    case (Inl e)
    then have e: "e \<noteq> SpoolKilled" using l1 by simp
    then have two: "l e s1 = (r, s')" using run one Inl by (simp add: bindSp_def trySp_def)
    show ?thesis using lowersD [OF assms(2) [OF e] conjunct1 [OF l1] two] l1 Inl by (auto split: sum.splits)
  next
    case (Inr x)
    then have two: "k x s1 = (r, s')" using run one by (simp add: bindSp_def trySp_def)
    show ?thesis using lowersD [OF assms(3) conjunct1 [OF l1] two] l1 Inr by (auto split: sum.splits)
  qed
qed

lemma settles_handle:
  "settles \<mu> m \<Longrightarrow> (\<And>e. e \<noteq> SpoolKilled \<Longrightarrow> lowers \<mu> (l e) w) \<Longrightarrow> (\<And>x. lowers \<mu> (k x) w) \<Longrightarrow>
     lowers \<mu> (bindSp (trySp m) (\<lambda>r. case r of Inl e \<Rightarrow> l e | Inr x \<Rightarrow> k x)) w"
  by (rule lowers_handle [where v = "\<lambda>_. 0"]) simp_all

lemma settles_try [settling]: "settles \<mu> m \<Longrightarrow> settles \<mu> (trySp m)"
proof (rule lowersI)
  fix s r s' assume m: "settles \<mu> m" and s: "sn_ticks s = []" and run: "trySp m s = (r, s')"
  obtain r1 where one: "m s = (r1, s')" using run by (cases "m s") (auto simp: trySp_def split: sum.splits)
  show "sn_ticks s' = [] \<and> r \<noteq> Inl SpoolKilled \<and> \<mu> (sn_disk s') + (case r of Inl _ \<Rightarrow> 0 | Inr x \<Rightarrow> 0) \<le> \<mu> (sn_disk s)"
    using lowersD [OF m s one] run one by (cases r1) (auto simp: trySp_def)
qed

lemma settles_ignore [settling]: "settles \<mu> m \<Longrightarrow> settles \<mu> (ignoreSp m)"
  unfolding ignoreSp_def by (rule settling | assumption)+

lemma lowers_wrapped [settling]: "lowers \<mu> m w \<Longrightarrow> lowers \<mu> (wrapped m) w"
proof (rule lowersI)
  fix s r s' assume m: "lowers \<mu> m w" and s: "sn_ticks s = []" and run: "wrapped m s = (r, s')"
  obtain r1 where one: "m s = (r1, s')" using run by (cases "m s") (auto simp: wrapped_def split: sum.splits)
  show "sn_ticks s' = [] \<and> r \<noteq> Inl SpoolKilled \<and> \<mu> (sn_disk s') + (case r of Inl _ \<Rightarrow> 0 | Inr x \<Rightarrow> w x) \<le> \<mu> (sn_disk s)"
    using lowersD [OF m s one] run one by (cases r1) (auto simp: wrapped_def split: if_splits)
qed

lemma settles_cases [settling]:
  "lowers \<mu> m w \<Longrightarrow> lowers \<mu> m' w \<Longrightarrow> lowers \<mu> (if b then m else m') w"
  "lowers \<mu> n w' \<Longrightarrow> (\<And>x. lowers \<mu> (k x) w') \<Longrightarrow> lowers \<mu> (case z of None \<Rightarrow> n | Some x \<Rightarrow> k x) w'"
  "(\<And>a b. lowers \<mu> (g a b) u) \<Longrightarrow> lowers \<mu> (case pr of (a, b) \<Rightarrow> g a b) u"
  by (auto split: option.splits prod.splits)

lemma lowers_call:
  assumes "\<And>d r d'. f d = (r, d') \<Longrightarrow> r \<noteq> Inl SpoolKilled \<and> \<mu> d' + (case r of Inl _ \<Rightarrow> 0 | Inr x \<Rightarrow> w x) \<le> \<mu> d"
  shows "lowers \<mu> (callSp f half) w"
proof (rule lowersI)
  fix s r s' assume s: "sn_ticks s = []" "callSp f half s = (r, s')"
  obtain r1 d where f: "f (sn_disk s) = (r1, d)" by (cases "f (sn_disk s)")
  then have "r = r1" "s' = s\<lparr>sn_disk := d\<rparr>" using s by (auto simp: callSp_def next_tick_def)
  then show "sn_ticks s' = [] \<and> r \<noteq> Inl SpoolKilled \<and> \<mu> (sn_disk s') + (case r of Inl _ \<Rightarrow> 0 | Inr x \<Rightarrow> w x) \<le> \<mu> (sn_disk s)"
    using s(1) assms [OF f] by simp
qed

section \<open>Operations\<close>

lemma settles_reads [settling]:
  "settles \<mu> (sys_stat p)" "settles \<mu> (sys_exists p)" "settles \<mu> (readHookSpoolFile p)" "settles \<mu> (sys_read_dir b)"
  unfolding sys_stat_def sys_exists_def readHookSpoolFile_def sys_read_dir_def readSp_def
  by (rule lowers_call; auto split: option.splits if_splits)+

lemma settles_ctx [settling]: "settles \<mu> ctx_err"
  by (rule lowersI) (auto simp: ctx_err_def callSp_def next_tick_def)

lemma settles_deliver [settling]: "settles (files_in A) (deliver rc)"
  unfolding deliver_def by (rule lowers_call) (auto simp: files_in_def)

lemma settles_touch [settling]: "settles (files_in A) (sys_touch p)"
  unfolding sys_touch_def
  by (rule lowers_call) (auto split: option.splits if_splits intro!: files_in_le)

lemma rename_counts:
  "rename_file p q d = (r, d') \<Longrightarrow> r \<noteq> Inl SpoolKilled \<and> all_files d' \<le> all_files d"
proof -
  assume r: "rename_file p q d = (r, d')"
  show ?thesis
  proof (cases "spool_lookup d p")
    case None
    then show ?thesis using r by (auto simp: rename_file_def)
  next
    case (Some f)
    then have "spool_lookup d' = (spool_lookup d)(p := None, q := Some f)" using r by (auto simp: rename_file_def fun_eq_iff)
    then show ?thesis using files_in_move [OF Some UNIV_I] Some r by (auto simp: rename_file_def)
  qed
qed

lemma settles_rename [settling]: "settles all_files (sys_rename p q)" "settles all_files (sys_rename_drawn p q)"
proof -
  show "settles all_files (sys_rename p q)" unfolding sys_rename_def
    by (rule lowers_call) (use rename_counts in \<open>auto split: sum.splits\<close>)
  have own: "files_in A (own q rc t d) = files_in A d" for A q rc t d by (simp add: files_in_def)
  show "settles all_files (sys_rename_drawn p q)" unfolding sys_rename_drawn_def
  proof (rule lowers_call)
    fix d r d' assume f: "(case spool_lookup d p of None \<Rightarrow> (Inl SpoolNotExist, d)
      | Some f \<Rightarrow> rename_file p q (own q (receipt_of (sf_content f)) (sf_mtime f) d)) = (r, d')"
    show "r \<noteq> Inl SpoolKilled \<and> all_files d' + (case r of Inl _ \<Rightarrow> 0 | Inr x \<Rightarrow> 0) \<le> all_files d"
      using f rename_counts [of p q "own q _ _ d" r d'] own by (auto split: option.splits sum.splits)
  qed
qed

lemma lowers_remove: "lowers all_files (sys_remove p) (\<lambda>_. 1)" "lowers all_files (sys_prune p now) (\<lambda>_. 1)"
proof -
  have del: "Suc (all_files (d\<lparr>sp_files := AList.delete p (sp_files d)\<rparr>)) \<le> all_files d" if "spool_lookup d p = Some f" for d f
    by (rule Suc_leI, rule files_in_less [where p = p]) (use that in \<open>auto split: if_splits\<close>)
  have del': "Suc (all_files (d\<lparr>sp_files := AList.delete p (sp_files d), sp_pruned := x\<rparr>)) \<le> all_files d" if "spool_lookup d p = Some f" for d f x
    using del [OF that] by (simp add: files_in_def)
  show "lowers all_files (sys_remove p) (\<lambda>_. 1)" unfolding sys_remove_def
    by (rule lowers_call) (use del in \<open>auto split: option.splits\<close>)
  show "lowers all_files (sys_prune p now) (\<lambda>_. 1)" unfolding sys_prune_def
    by (rule lowers_call) (use del' in \<open>auto split: option.splits\<close>)
qed

lemma settles_remove [settling]: "settles all_files (sys_remove p)" "settles all_files (sys_prune p now)"
  by (rule lowers_weaken [OF lowers_remove(1)], simp) (rule lowers_weaken [OF lowers_remove(2)], simp)

lemma settles_moves [settling]:
  "settles all_files (renameHookSpoolRecordToRetryTail path)" "settles all_files (renameHookSpoolRecordToDead path)"
  "settles all_files (promoteCurrentHookSpoolRecord path)"
  unfolding renameHookSpoolRecordToRetryTail_def renameHookSpoolRecordToDead_def promoteCurrentHookSpoolRecord_def
  by (rule settling lowers_fail | simp)+

lemma read_run:
  "sn_ticks s = [] \<Longrightarrow> readHookSpoolFile p s = (r, s') \<Longrightarrow> s' = s \<and> (\<forall>c. r = Inr c \<longrightarrow> spool_lookup (sn_disk s) p \<noteq> None)"
  by (auto simp: readHookSpoolFile_def readSp_def callSp_def next_tick_def split: option.splits)

lemma running_collapse: "sn_ticks s = [] \<Longrightarrow> s = running (sn_disk s) [] (sn_random s)"
  by simp

text \<open>Replacing a file that is there.\<close>

lemma write_counts:
  assumes "sn_ticks s = []" "spool_lookup (sn_disk s) path = Some f" "writeHookSpoolRecordAtomic path q s = (r, s')"
  shows "r = Inr () \<and> sn_ticks s' = [] \<and> files_in A (sn_disk s') \<le> files_in A (sn_disk s) \<and> spool_lookup (sn_disk s') path \<noteq> None"
proof -
  obtain d' where d': "writeHookSpoolRecordAtomic path q (running (sn_disk s) [] (sn_random s)) = (Inr (), running d' [] (sn_random s))"
    "spool_lookup d' = (spool_lookup (sn_disk s))((fst path, snd path @ ''.tmp'') := None, path \<mapsto> \<lparr>sf_content = Decodes (json_record q), sf_mtime = sp_now (sn_disk s)\<rparr>)"
    using write_atomic_calm by metis
  have "r = Inr ()" "s' = running d' [] (sn_random s)" using d'(1) assms(3) running_collapse [OF assms(1)] by auto
  then show ?thesis using d'(2) assms(2) by (auto intro!: files_in_le split: if_splits)
qed

lemma settles_requeue [settling]: "settles all_files (requeueHookSpoolRecord path e)"
proof (rule lowersI)
  fix s r s' assume s: "sn_ticks s = []" and run: "requeueHookSpoolRecord path e s = (r, s')"
  obtain r1 s1 where one: "readHookSpoolFile path s = (r1, s1)" by (cases "readHookSpoolFile path s")
  note rd = read_run [OF s one] and l1 = lowersD [OF settles_reads(3) s one]
  show "sn_ticks s' = [] \<and> r \<noteq> Inl SpoolKilled \<and> all_files (sn_disk s') + (case r of Inl _ \<Rightarrow> 0 | Inr x \<Rightarrow> 0) \<le> all_files (sn_disk s)"
  proof (cases r1)
    case (Inl e1)
    then have "renameHookSpoolRecordToDead path s = (r, s')"
      using run one rd l1 by (simp add: requeueHookSpoolRecord_def bindSp_def trySp_def)
    then show ?thesis using lowersD [OF settles_moves(2) s] by blast
  next
    case (Inr c)
    let ?q = "failed_attempt (case parseHookSpoolRecordForRequeue c of Some q \<Rightarrow> q | None \<Rightarrow> raw_record c (sp_now (sn_disk s))) e"
    obtain f where f: "spool_lookup (sn_disk s) path = Some f" using rd Inr by blast
    obtain r2 s2 where two: "writeHookSpoolRecordAtomic path ?q s = (r2, s2)" by (cases "writeHookSpoolRecordAtomic path ?q s")
    note w = write_counts [OF s f two, of UNIV]
    have "(if shouldDeadLetter (sr_attempt_count ?q) then renameHookSpoolRecordToDead path else renameHookSpoolRecordToRetryTail path) s2 = (r, s')"
      using run one rd Inr two w by (simp add: requeueHookSpoolRecord_def bindSp_def trySp_def nowSp_def Let_def)
    then show ?thesis using lowersD [OF settles_cases(1) [OF settles_moves(2,1)], of s2] w by fastforce
  qed
qed

section \<open>The drain\<close>

definition progress :: "DrainResult \<Rightarrow> DrainResult \<Rightarrow> nat" where
  "progress r r' = (if dr_replayed r' = dr_replayed r then 0 else 1)"

lemma progress_self [simp]: "progress r r = 0"
  by (simp add: progress_def)

lemma lowers_then:
  "lowers \<mu> m (progress r) \<Longrightarrow> (\<And>x. lowers \<mu> (k x) (progress x)) \<Longrightarrow> lowers \<mu> (bindSp m k) (progress r)"
  by (rule lowers_bind, assumption, rule lowers_weaken, assumption) (auto simp: progress_def)

lemma lowers_ends:
  "lowers all_files (drain_unreadable path r) (progress r)" "lowers all_files (drain_failed path e r) (progress r)"
  unfolding drain_unreadable_def drain_failed_def
  by (rule settling lowers_ret | simp add: progress_def)+

lemma replay_run:
  "sn_ticks s = [] \<Longrightarrow> replayHookSpoolRecord q s = (r, s') \<Longrightarrow>
     sn_ticks s' = [] \<and> r \<noteq> Inl SpoolKilled \<and> sp_files (sn_disk s') = sp_files (sn_disk s)"
  by (auto simp: replayHookSpoolRecord_def deliver_def callSp_def next_tick_def failSp_def split: if_splits)

lemma drain_record_counts:
  assumes "sn_ticks s = []" "spool_lookup (sn_disk s) path = Some f" "drain_record path q r s = (x, s')"
  shows "sn_ticks s' = [] \<and> x \<noteq> Inl SpoolKilled \<and>
    all_files (sn_disk s') + (case x of Inl _ \<Rightarrow> 0 | Inr r' \<Rightarrow> progress r r') \<le> all_files (sn_disk s)"
proof (cases "shouldDeadLetter (sr_attempt_count q)")
  case True
  have "lowers all_files (bindSp (ignoreSp (renameHookSpoolRecordToDead path)) (\<lambda>_. retSp r)) (progress r)"
    by (rule settling lowers_ret | simp)+
  from lowersD [OF this assms(1)] show ?thesis using assms(3) True by (simp add: drain_record_def)
next
  case False
  obtain r1 s1 where one: "replayHookSpoolRecord q s = (r1, s1)" by (cases "replayHookSpoolRecord q s")
  note rp = replay_run [OF assms(1) one]
  have same: "all_files (sn_disk s1) = all_files (sn_disk s)" using rp by (simp add: files_in_def)
  show ?thesis
  proof (cases r1)
    case (Inl e)
    then have "drain_failed path e r s1 = (x, s')"
      using assms(3) one rp False by (auto simp: drain_record_def bindSp_def trySp_def)
    then show ?thesis using lowersD [OF lowers_ends(2) conjunct1 [OF rp]] same by simp
  next
    case (Inr u)
    define d where "d = (sn_disk s1)\<lparr>sp_files := AList.delete path (sp_files (sn_disk s1))\<rparr>"
    have "sys_remove path s1 = (Inr (), s1\<lparr>sn_disk := d\<rparr>)"
      using rp assms(2) by (simp add: sys_remove_def callSp_def next_tick_def d_def)
    then have res: "x = Inr (r\<lparr>dr_replayed := dr_replayed r + 1\<rparr>)" "s' = s1\<lparr>sn_disk := d\<rparr>"
      using assms(3) one Inr False by (auto simp: drain_record_def drain_delivered_def bindSp_def trySp_def retSp_def)
    have "Suc (all_files d) \<le> all_files (sn_disk s1)"
      by (rule Suc_leI, rule files_in_less [where p = path]) (use rp assms(2) in \<open>auto simp: d_def split: if_splits\<close>)
    then show ?thesis using res rp same by (simp add: progress_def)
  qed
qed

lemma lowers_claimed: "lowers all_files (drain_claimed path r) (progress r)"
proof (rule lowersI)
  fix s x s' assume s: "sn_ticks s = []" and run: "drain_claimed path r s = (x, s')"
  obtain r1 s1 where one: "readHookSpoolFile path s = (r1, s1)" by (cases "readHookSpoolFile path s")
  note rd = read_run [OF s one] and l1 = lowersD [OF settles_reads(3) s one]
  show "sn_ticks s' = [] \<and> x \<noteq> Inl SpoolKilled \<and> all_files (sn_disk s') + (case x of Inl _ \<Rightarrow> 0 | Inr r' \<Rightarrow> progress r r') \<le> all_files (sn_disk s)"
  proof (cases "\<exists>q. r1 = Inr (Decodes q)")
    case True
    then obtain q where q: "r1 = Inr (Decodes q)" by blast
    obtain f where f: "spool_lookup (sn_disk s) path = Some f" using rd q by blast
    have "drain_record path q r s = (x, s')"
      using run one rd q by (simp add: drain_claimed_def loadClaimedHookSpoolRecord_def bindSp_def trySp_def retSp_def)
    then show ?thesis by (rule drain_record_counts [OF s f])
  next
    case False
    have "drain_unreadable path r s = (x, s')"
    proof (cases r1)
      case (Inl e)
      then show ?thesis using run one rd l1 by (simp add: drain_claimed_def loadClaimedHookSpoolRecord_def bindSp_def trySp_def)
    next
      case (Inr c)
      then show ?thesis using run one rd False
        by (cases c) (simp_all add: drain_claimed_def loadClaimedHookSpoolRecord_def bindSp_def trySp_def retSp_def)
    qed
    then show ?thesis using lowersD [OF lowers_ends(1) s] by blast
  qed
qed

lemma settles_claim [settling]: "settles all_files (claimHookSpoolRecord path)"
  unfolding claimHookSpoolRecord_def Let_def
  by (rule settling settles_handle lowers_fail | simp)+

lemma settles_late [settling]: "settles \<mu> (past_deadline deadline)"
  unfolding past_deadline_def by (rule settling)+

lemma lowers_paths: "lowers all_files (drain_paths limit deadline claimed r paths) (progress r)"
proof (induction paths arbitrary: claimed r)
  case (Cons path paths)
  have stop: "lowers all_files (retSp r) (progress r)" by (rule lowers_ret) simp
  have won: "lowers all_files (bindSp (drain_claimed p r) (\<lambda>r'. drain_paths limit deadline c r' paths)) (progress r)" for p c
    by (rule lowers_then [OF lowers_claimed Cons.IH])
  show ?case unfolding drain_paths.simps
    by (rule stop won Cons.IH settles_cases(1) settles_handle settling)+
qed (simp add: lowers_ret)

lemma settles_recover_current [settling]: "settles all_files (recover_current now names)"
  by (induction names) (simp_all only: recover_current.simps, (rule settles_handle lowers_fail settling | assumption)+)

lemma settles_release [settling]: "settles all_files (releaseStaleClaimedHookSpoolRecord path)"
  unfolding releaseStaleClaimedHookSpoolRecord_def Let_def
  by (rule settles_handle lowers_fail settling | simp | assumption)+

lemma settles_recover_claimed [settling]: "settles all_files (recover_claimed now names)"
  by (induction names) (simp_all only: recover_claimed.simps, (rule settles_handle lowers_fail settling | assumption)+)

lemma settles_recover [settling]:
  "settles all_files (recoverStaleCurrentHookSpoolRecords now)" "settles all_files (recoverStaleClaimedHookSpoolRecords now)"
  unfolding recoverStaleCurrentHookSpoolRecords_def recoverStaleClaimedHookSpoolRecords_def by (rule settling)+

lemma settles_list [settling]: "settles \<mu> listHookSpoolRecordPaths" "settles \<mu> countHookSpoolRecordPaths"
  unfolding countHookSpoolRecordPaths_def listHookSpoolRecordPaths_def by (rule settling)+

lemma settles_count_stale [settling]: "settles \<mu> (count_stale_inflight now count names)"
  by (induction names arbitrary: count) (simp_all only: count_stale_inflight.simps, (rule settling | assumption)+)

lemma settles_count [settling]: "settles \<mu> (countHookSpoolPendingPaths now)"
  unfolding countHookSpoolPendingPaths_def by (rule settling)+

lemma lowers_detailed: "lowers all_files (drainHookSpoolRecordsDetailed limit deadline) (\<lambda>r. if dr_replayed r = 0 then 0 else 1)"
proof -
  have w: "(\<lambda>r. if dr_replayed r = 0 then 0 else 1) = progress no_drain" by (auto simp: progress_def no_drain_def)
  have count: "lowers all_files (with_count r m) (progress r)" if "settles all_files m" for r m
    unfolding with_count_def by (rule settles_handle that lowers_ret | simp add: progress_def)+
  have err: "lowers all_files (or_result m k) (progress no_drain)"
    if "settles all_files m" "\<And>x. lowers all_files (k x) (progress no_drain)" for m :: "'b sp" and k
    unfolding or_result_def by (rule settles_handle that lowers_ret | simp add: progress_def no_drain_def)+
  have drain: "lowers all_files (bindSp (drain_paths limit deadline 0 no_drain paths) (\<lambda>result. with_count result countHookSpoolRecordPaths)) (progress no_drain)" for paths
    by (rule lowers_then [OF lowers_paths count]) (rule settling)
  show ?thesis unfolding drainHookSpoolRecordsDetailed_def w
    by (rule settles_bind [OF settles_basic(2)], rule err, rule settling, rule err, rule settling, rule settles_cases(1),
        rule count, rule settling, rule err, rule settling, rule drain)
qed

section \<open>Rounds\<close>

text \<open>The counts that a state of the loop starts from, and those that a result leaves.\<close>

definition calmly :: "(Spool \<Rightarrow> bool) \<Rightarrow> 'a sp \<Rightarrow> ('a \<Rightarrow> Spool \<Rightarrow> bool) \<Rightarrow> bool" where
  "calmly P m Q \<longleftrightarrow> (\<forall>s r s'. sn_ticks s = [] \<longrightarrow> P (sn_disk s) \<longrightarrow> m s = (r, s') \<longrightarrow>
     sn_ticks s' = [] \<and> r \<noteq> Inl SpoolKilled \<and> (\<forall>x. r = Inr x \<longrightarrow> Q x (sn_disk s')))"

lemma calmlyI:
  "(\<And>s r s'. sn_ticks s = [] \<Longrightarrow> P (sn_disk s) \<Longrightarrow> m s = (r, s') \<Longrightarrow>
     sn_ticks s' = [] \<and> r \<noteq> Inl SpoolKilled \<and> (\<forall>x. r = Inr x \<longrightarrow> Q x (sn_disk s'))) \<Longrightarrow> calmly P m Q"
  unfolding calmly_def by blast

lemma calmlyD:
  "calmly P m Q \<Longrightarrow> sn_ticks s = [] \<Longrightarrow> P (sn_disk s) \<Longrightarrow> m s = (r, s') \<Longrightarrow>
     sn_ticks s' = [] \<and> r \<noteq> Inl SpoolKilled \<and> (\<forall>x. r = Inr x \<longrightarrow> Q x (sn_disk s'))"
  unfolding calmly_def by blast

lemma calmly_bind: "calmly P m Q \<Longrightarrow> (\<And>x. calmly (Q x) (k x) R) \<Longrightarrow> calmly P (bindSp m k) R"
proof (rule calmlyI)
  fix s r s' assume m: "calmly P m Q" and k: "\<And>x. calmly (Q x) (k x) R"
    and s: "sn_ticks s = []" "P (sn_disk s)" and run: "bindSp m k s = (r, s')"
  obtain r1 s1 where one: "m s = (r1, s1)" by (cases "m s")
  note c1 = calmlyD [OF m s one]
  show "sn_ticks s' = [] \<and> r \<noteq> Inl SpoolKilled \<and> (\<forall>x. r = Inr x \<longrightarrow> R x (sn_disk s'))"
  proof (cases r1)
    case (Inl e)
    then show ?thesis using run one c1 by (auto simp: bindSp_def)
  next
    case (Inr x)
    then have two: "k x s1 = (r, s')" using run one by (simp add: bindSp_def)
    have "Q x (sn_disk s1)" "sn_ticks s1 = []" using c1 Inr by blast+
    then show ?thesis using calmlyD [OF k _ _ two] by blast
  qed
qed

lemma calmly_ret: "(\<And>d. P d \<Longrightarrow> Q x d) \<Longrightarrow> calmly P (retSp x) Q"
  by (simp add: calmly_def retSp_def)

lemma calmly_if: "calmly P m Q \<Longrightarrow> calmly P n Q \<Longrightarrow> calmly P (if b then m else n) Q"
  by simp

lemma calmly_conseq: "calmly P' m Q' \<Longrightarrow> (\<And>d. P d \<Longrightarrow> P' d) \<Longrightarrow> (\<And>x d. Q' x d \<Longrightarrow> Q x d) \<Longrightarrow> calmly P m Q"
  unfolding calmly_def by blast

lemma calmly_conj: "calmly P m Q \<Longrightarrow> calmly P' m Q' \<Longrightarrow> calmly (\<lambda>d. P d \<and> P' d) m (\<lambda>x d. Q x d \<and> Q' x d)"
  unfolding calmly_def by blast

lemma calmly_lowers: "lowers \<mu> m w \<Longrightarrow> calmly (\<lambda>d. \<mu> d < N) m (\<lambda>x d. \<mu> d + w x < N)"
proof (rule calmlyI)
  fix s r s' assume m: "lowers \<mu> m w" and s: "sn_ticks s = []" "\<mu> (sn_disk s) < N" "m s = (r, s')"
  show "sn_ticks s' = [] \<and> r \<noteq> Inl SpoolKilled \<and> (\<forall>x. r = Inr x \<longrightarrow> \<mu> (sn_disk s') + w x < N)"
    using lowersD [OF m s(1,3)] s(2) by auto
qed

lemma calmly_settles: "settles \<mu> m \<Longrightarrow> calmly (\<lambda>d. \<mu> d < N) m (\<lambda>_ d. \<mu> d < N)"
  using calmly_lowers by fastforce

lemma calmly_try: "calmly P m Q \<Longrightarrow> calmly P (trySp m) (\<lambda>r d. case r of Inl _ \<Rightarrow> True | Inr x \<Rightarrow> Q x d)"
proof (rule calmlyI)
  fix s r s' assume m: "calmly P m Q" and s: "sn_ticks s = []" "P (sn_disk s)" and run: "trySp m s = (r, s')"
  obtain r1 where one: "m s = (r1, s')" using run by (cases "m s") (auto simp: trySp_def split: sum.splits)
  show "sn_ticks s' = [] \<and> r \<noteq> Inl SpoolKilled \<and> (\<forall>x. r = Inr x \<longrightarrow> (case x of Inl _ \<Rightarrow> True | Inr x \<Rightarrow> Q x (sn_disk s')))"
    using calmlyD [OF m s one] run one by (cases r1) (auto simp: trySp_def)
qed

lemma drain_until_ends:
  "calmly (\<lambda>d. all_files d < fuel) (drainHookSpoolRecordsUntil fuel agg remaining deadline) (\<lambda>_ _. True)"
proof (induction fuel arbitrary: agg remaining)
  case (Suc fuel)
  let ?P = "\<lambda>d. all_files d < Suc fuel"
  have round: "calmly ?P (bindSp (drainHookSpoolRecordsDetailed limit deadline) (\<lambda>result.
      if dr_err result \<noteq> None then retSp (agg\<lparr>dr_err := dr_err result, dr_remaining := dr_remaining result\<rparr>)
      else if dr_replayed result = 0
      then (if dr_replayed agg = 0 \<and> dr_failed agg = 0 \<and> dr_unreadable agg = 0 then retSp result else retSp agg)
      else drainHookSpoolRecordsUntil fuel (upd result) (dr_remaining result) deadline)) (\<lambda>_ _. True)" for limit upd
  proof (rule calmly_bind [OF calmly_lowers [OF lowers_detailed]])
    fix result
    have next': "calmly (\<lambda>d. all_files d + 1 < Suc fuel) (drainHookSpoolRecordsUntil fuel (upd result) (dr_remaining result) deadline) (\<lambda>_ _. True)"
      by (rule calmly_conseq [OF Suc.IH]) auto
    show "calmly (\<lambda>d. all_files d + (if dr_replayed result = 0 then 0 else 1) < Suc fuel)
        (if dr_err result \<noteq> None then retSp (agg\<lparr>dr_err := dr_err result, dr_remaining := dr_remaining result\<rparr>)
         else if dr_replayed result = 0
         then (if dr_replayed agg = 0 \<and> dr_failed agg = 0 \<and> dr_unreadable agg = 0 then retSp result else retSp agg)
         else drainHookSpoolRecordsUntil fuel (upd result) (dr_remaining result) deadline) (\<lambda>_ _. True)"
      using next' by (auto intro!: calmly_ret)
  qed
  have body: "calmly ?P (bindSp (past_deadline deadline) (\<lambda>late. if late then retSp x else m)) (\<lambda>_ _. True)"
    if "calmly ?P m (\<lambda>_ _. True)" for x and m :: "DrainResult sp"
    by (rule calmly_bind [OF calmly_settles [OF settles_late]]) (use that in \<open>auto intro: calmly_ret\<close>)
  have ctx: "calmly ?P (bindSp (trySp ctx_err) (\<lambda>cancelled. case cancelled of Inl e \<Rightarrow> retSp (f e) | Inr _ \<Rightarrow> m)) (\<lambda>_ _. True)"
    if "calmly ?P m (\<lambda>_ _. True)" for f and m :: "DrainResult sp"
    by (rule calmly_bind [OF calmly_try [OF calmly_settles [OF settles_ctx]]]) (use that in \<open>auto split: sum.splits intro: calmly_ret\<close>)
  show ?case unfolding drainHookSpoolRecordsUntil.simps
    by (rule calmly_if, rule calmly_ret, rule TrueI, rule ctx, rule body, rule round)
qed (simp add: calmly_def)

text \<open>A requeued dead letter has left its directory.\<close>

lemma requeue_dead_counts:
  assumes "sn_ticks s = []" "requeue_dead (True, name) now q s = (r, s')"
  shows "sn_ticks s' = [] \<and> r \<noteq> Inl SpoolKilled \<and> all_files (sn_disk s') \<le> all_files (sn_disk s) \<and>
    dead_files (sn_disk s') + (case r of Inl _ \<Rightarrow> 0 | Inr _ \<Rightarrow> 1) \<le> dead_files (sn_disk s)"
proof (cases "sn_random s")
  case Nil
  then show ?thesis using assms by (auto simp: requeue_dead_def bindSp_def randomSp_def)
next
  case (Cons x rs)
  let ?p = "(True, name)" and ?q = "(False, retry_name now (hex_encode x))"
  show ?thesis
  proof (cases "spool_lookup (sn_disk s) ?p")
    case None
    then show ?thesis using assms Cons
      by (auto simp: requeue_dead_def bindSp_def randomSp_def Let_def wrapped_def sys_rename_drawn_def callSp_def next_tick_def)
  next
    case (Some f)
    obtain d where d: "wrapped (sys_rename_drawn ?p ?q) (s\<lparr>sn_random := rs\<rparr>) = (Inr (), s\<lparr>sn_random := rs, sn_disk := d\<rparr>)"
      "spool_lookup d = (spool_lookup (sn_disk s))(?p := None, ?q \<mapsto> f)"
      using Some assms(1)
      by (auto simp: wrapped_def sys_rename_drawn_def callSp_def next_tick_def rename_file_def own_def fun_eq_iff)
    have run: "writeHookSpoolRecordAtomic ?q (q\<lparr>sr_attempt_count := 0, sr_last_error := []\<rparr>) (s\<lparr>sn_random := rs, sn_disk := d\<rparr>) = (r, s')"
      using assms(2) Cons d(1) by (simp add: requeue_dead_def bindSp_def randomSp_def Let_def)
    have at: "spool_lookup (sn_disk (s\<lparr>sn_random := rs, sn_disk := d\<rparr>)) ?q = Some f" using d(2) by simp
    have w: "r = Inr ()" "sn_ticks s' = []" "files_in A (sn_disk s') \<le> files_in A d" for A
      using write_counts [OF _ at run, of A] assms(1) by simp_all
    have "all_files d \<le> all_files (sn_disk s)" by (rule files_in_move [OF Some UNIV_I d(2)])
    moreover have "dead_files d < dead_files (sn_disk s)"
      by (rule files_in_less [where p = ?p]) (use d(2) Some in \<open>auto split: if_splits\<close>)
    ultimately show ?thesis using w(1,2) w(3) [of UNIV] w(3) [of "{p. fst p}"] by simp
  qed
qed

lemma lowers_requeue_dead:
  "settles all_files (requeue_dead (True, name) now q)" "lowers dead_files (requeue_dead (True, name) now q) (\<lambda>_. 1)"
  by (rule lowersI, drule (1) requeue_dead_counts, simp split: sum.splits)+

lemma settles_requeue_names:
  "(\<And>name q. settles \<mu> (requeue_dead (True, name) now q)) \<Longrightarrow> settles \<mu> (requeue_dead_names now dryRun limit counts names)"
proof (induction names arbitrary: counts)
  case (Cons name names)
  show ?case unfolding requeue_dead_names.simps Let_def
    by (rule settles_handle settling Cons.IH Cons.prems)+
qed (simp add: settles_basic)

definition moved :: "int \<times> int \<times> int \<Rightarrow> int \<times> int \<times> int \<Rightarrow> nat" where
  "moved counts counts' = (if fst counts' = fst counts then 0 else 1)"

lemma lowers_requeue_names: "lowers dead_files (requeue_dead_names now False limit counts names) (moved counts)"
proof (induction names arbitrary: counts)
  case Nil
  show ?case by (simp add: lowers_ret moved_def)
next
  case (Cons name names)
  obtain a b c where counts: "counts = (a, b, c)" by (metis prod_cases3)
  have skip: "lowers dead_files (requeue_dead_names now False limit (a, b', c') names) (moved (a, b, c))" for b' c'
    by (rule lowers_weaken [OF Cons.IH]) (simp add: moved_def)
  have move: "lowers dead_files (bindSp (requeue_dead (True, name) now q) (\<lambda>_. requeue_dead_names now False limit (a + 1, b, c) names)) (moved (a, b, c))" for q
    by (rule lowers_bind [OF lowers_requeue_dead(2)], rule lowers_weaken [OF Cons.IH]) (simp add: moved_def)
  show ?case unfolding requeue_dead_names.simps Let_def counts prod.case if_False simp_thms
    by (rule settles_handle skip move settles_cases(1,2) settles_bind [OF settles_ctx] settles_reads)+
qed

lemma requeue_limited_counts:
  "settles all_files (requeueHookSpoolDeadLettersLimited now dryRun limit)"
  "settles dead_files (requeueHookSpoolDeadLettersLimited now dryRun limit)"
  "lowers dead_files (requeueHookSpoolDeadLettersLimited now False limit) (\<lambda>counts. if fst counts = 0 then 0 else 1)"
proof -
  show "settles all_files (requeueHookSpoolDeadLettersLimited now dryRun limit)"
    unfolding requeueHookSpoolDeadLettersLimited_def by (rule settling settles_requeue_names lowers_requeue_dead(1))+
  show "settles dead_files (requeueHookSpoolDeadLettersLimited now dryRun limit)"
    unfolding requeueHookSpoolDeadLettersLimited_def
    by (rule settling settles_requeue_names)+ (rule lowers_weaken [OF lowers_requeue_dead(2)], simp)
  have w: "(\<lambda>counts. if fst counts = 0 then 0 else 1) = moved (0, 0, 0)" by (auto simp: moved_def)
  show "lowers dead_files (requeueHookSpoolDeadLettersLimited now False limit) (\<lambda>counts. if fst counts = 0 then 0 else 1)"
    unfolding requeueHookSpoolDeadLettersLimited_def w
    by (rule settles_bind [OF lowers_wrapped [OF settles_reads(4)]]) (rule lowers_requeue_names)
qed

lemma requeue_until_ends:
  "calmly (\<lambda>d. dead_files d < fuel \<and> all_files d < N) (requeueHookSpoolDeadLettersUntil fuel now dryRun deadline requeued) (\<lambda>_ d. all_files d < N)"
proof (induction fuel arbitrary: requeued)
  case (Suc fuel)
  let ?P = "\<lambda>d. dead_files d < Suc fuel \<and> all_files d < N"
  have all: "calmly (\<lambda>d. all_files d < N) (requeueHookSpoolDeadLettersLimited now dry limit) (\<lambda>_ d. all_files d < N)" for dry limit
    by (rule calmly_settles [OF requeue_limited_counts(1)])
  have both: "calmly ?P m (\<lambda>_. ?P)" if "settles dead_files m" "settles all_files m" for m :: "'b sp"
    by (rule calmly_conj [OF calmly_settles calmly_settles]) (rule that)+
  have dry: "calmly ?P (requeueHookSpoolDeadLettersLimited now True 0) (\<lambda>_ d. all_files d < N)"
    by (rule calmly_conseq [OF all]) auto
  have late: "calmly ?P (bindSp (requeueHookSpoolDeadLettersLimited now True 0) (\<lambda>(wouldRequeue, leftoverSkipped, leftoverRemaining).
      retSp (requeued, leftoverSkipped, leftoverRemaining + wouldRequeue))) (\<lambda>_ d. all_files d < N)"
    by (rule calmly_bind [OF dry]) (auto intro: calmly_ret split: prod.splits)
  have round: "calmly ?P (bindSp (requeueHookSpoolDeadLettersLimited now False hookSpoolDeadRequeueLimit)
      (\<lambda>(batchRequeued, batchSkipped, batchRemaining).
         if batchRequeued = 0 then retSp (requeued + batchRequeued, batchSkipped, batchRemaining)
         else requeueHookSpoolDeadLettersUntil fuel now dryRun deadline (requeued + batchRequeued))) (\<lambda>_ d. all_files d < N)"
  proof (rule calmly_bind [OF calmly_conj [OF calmly_lowers [OF requeue_limited_counts(3)] all]])
    fix x :: "int \<times> int \<times> int"
    obtain a b c where x: "x = (a, b, c)" by (metis prod_cases3)
    have next': "calmly (\<lambda>d. dead_files d + 1 < Suc fuel \<and> all_files d < N)
        (requeueHookSpoolDeadLettersUntil fuel now dryRun deadline (requeued + a)) (\<lambda>_ d. all_files d < N)"
      by (rule calmly_conseq [OF Suc.IH]) auto
    show "calmly (\<lambda>d. dead_files d + (if fst x = 0 then 0 else 1) < Suc fuel \<and> all_files d < N)
        (case x of (batchRequeued, batchSkipped, batchRemaining) \<Rightarrow>
          if batchRequeued = 0 then retSp (requeued + batchRequeued, batchSkipped, batchRemaining)
          else requeueHookSpoolDeadLettersUntil fuel now dryRun deadline (requeued + batchRequeued)) (\<lambda>_ d. all_files d < N)"
      using next' x by (auto intro: calmly_ret)
  qed
  show ?case unfolding requeueHookSpoolDeadLettersUntil.simps
    by (rule calmly_if [OF dry calmly_bind [OF both [OF settles_ctx settles_ctx] calmly_bind [OF both [OF settles_late settles_late] calmly_if [OF late round]]]])
qed (simp add: calmly_def)

lemma settles_prune_names [settling]: "settles all_files (prune_names dead sfx now dryRun counts names)"
proof (induction names arbitrary: counts)
  case (Cons name names)
  show ?case unfolding prune_names.simps
    by (rule settles_handle lowers_fail settling Cons.IH | assumption)+
qed (simp add: settles_basic)

lemma settles_prunes [settling]: "settles all_files (pruneHookSpoolDeadLetters now dryRun)" "settles all_files (pruneHookSpoolOrphanTmpFiles now dryRun)"
  unfolding pruneHookSpoolDeadLetters_def pruneHookSpoolOrphanTmpFiles_def by (rule settling)+

text \<open>
  C24: with nobody else at work the repair of the doctor command ends: as many rounds as there are files, and one
  more, are enough for both of its loops, however the pass is chosen and whatever random names it draws.
\<close>

theorem doctor_repair_ends:
  assumes "card (dom (spool_lookup d)) < fuel"
  shows "fst (fixHookSpoolRequeueThenDrain fuel now dryRun (running d [] rs)) \<noteq> Inl SpoolKilled"
proof -
  let ?A = "\<lambda>d. all_files d < fuel"
  have all: "calmly ?A m (\<lambda>_. ?A)" if "settles all_files m" for m :: "'b sp"
    by (rule calmly_settles [OF that])
  have "dead_files d' \<le> all_files d'" for d'
    unfolding files_in_def by (rule card_mono) (auto simp: finite_dom_map_of)
  then have until: "calmly ?A (requeueHookSpoolDeadLettersUntil fuel now dryRun deadline 0) (\<lambda>_. ?A)" for deadline
    by (rule_tac calmly_conseq [OF requeue_until_ends [of fuel fuel]]) (auto intro: le_less_trans)
  have "settles all_files (if dryRun then retSp zero_time else bindSp nowSp (\<lambda>t. retSp (time_add t hookSpoolDeadRequeueDoctorWall)))"
    by (rule settling)+
  note deadline = all [OF this]
  have tail: "calmly ?A (if dryRun then retSp (counts, no_drain\<lparr>dr_remaining := n\<rparr>)
      else bindSp (drainHookSpoolRecordsUntil fuel no_drain n t) (\<lambda>result. retSp (counts, result))) (\<lambda>_ _. True)" for counts n t
    by (rule calmly_if, rule calmly_ret, rule TrueI, rule calmly_bind [OF drain_until_ends], rule calmly_ret, rule TrueI)
  have "calmly ?A (fixHookSpoolRequeueThenDrain fuel now dryRun) (\<lambda>_ _. True)"
    unfolding fixHookSpoolRequeueThenDrain_def Let_def
    by (rule calmly_bind [OF all [OF settles_count]], rule calmly_bind [OF deadline], rule calmly_bind [OF until], clarsimp split del: if_split,
        rule calmly_bind [OF all [OF settles_prunes(1)]], clarsimp split del: if_split,
        rule calmly_bind [OF all [OF settles_prunes(2)]], clarsimp split del: if_split, rule tail)
  then show ?thesis using assms
    by (cases "fixHookSpoolRequeueThenDrain fuel now dryRun (running d [] rs)")
      (auto dest: calmlyD [of _ _ _ "running d [] rs"] simp: files_in_def)
qed

theorem doctor_repair_ends_witness:
  "fst (fixHookSpoolRequeueThenDrain 2 zero_time False (running sample_claimed [] [[], []])) \<noteq> Inl SpoolKilled"
proof (rule doctor_repair_ends)
  have "dom (spool_lookup sample_claimed) = {(False, ''x.json.claim-00'')}" by (auto simp: sample_claimed_def dom_def split: if_splits)
  then show "card (dom (spool_lookup sample_claimed)) < 2" by simp
qed

end
