(* ===== verification/Spec2Isabelle.thy ===== *)
theory Spec2Isabelle
  imports
    Rt_Registry Rt_Launch Rt_Control Rt_Output Rt_Lifecycle Rt_Observation Rt_Recovery
    Rt_Projection Rt_Continuity Rt_History
    Attestation Domain_Types Session Memory Hook_Delivery Command_Audit Usage Usage_Store Refinement Consolidation
    Upgrade_Run Upgrade_Files Upgrade_Protocol Upgrade_Safety Upgrade_Machine Spool_Disk Spool Spool_Safety Spool_Machine Spool_Rounds
    Go_Format Go_Time
begin

text \<open>
  \<^bold>\<open>Traceary: a verification development of its core.\<close>

  Traceary records what coding agents do (events, command audits, sessions, durable memories) in a
  local store and supervises agent runs in a runtime daemon. Its Go code has four layers: the
  presentation calls the application's use cases, these work on the aggregates and value objects of
  the domain, and the infrastructure implements the domain's ports over SQLite, files and the
  operating system. The decisions that make the program correct (what a registry admits, which
  receipt is final, what counts as fresh knowledge, when a session has ended, what an attestation
  proves) are made in the domain; this development models that layer and, of the use cases and the SQLite
  adapter, the attestation walk, the usage repository, the session refinement port, the consolidation
  request ledger and the prepared store upgrade; of the command line, the spool of undelivered hook events.

  \<^bold>\<open>Vocabulary.\<close> \<open>Go_Prelude\<close>: results as sums, 64-bit counters as words, Go maps as association
  lists, \<open>time.Time\<close> with its monotonic reading, and the interfaces: \<open>invariant_machine\<close>,
  \<open>sealed_machine\<close> (a fact no step takes back) and \<open>stamped_machine\<close> (a counter every step raises)
  for the stateful aggregates, \<open>digest_binding\<close> for every use of SHA-256 and \<open>codec\<close> for printers
  with a parser. \<open>Go_Strings\<close>: bytes, split and join, UTF-8, \<open>strings.TrimSpace\<close>. \<open>Go_Codec\<close>:
  hexadecimal, decimal, big-endian words and SHA-256 itself. \<open>Go_Paths\<close>: \<open>filepath.Clean\<close>.
  \<open>Go_Format\<close>: the calendar, RFC 3339 and JSON strings. \<open>Go_Time\<close>: \<open>time.Parse\<close> for that text and its round
  trip, for instants in a year of four digits and for no others.

  \<^bold>\<open>The runtime domain\<close> (\<open>src/domain/runtime\<close>), one theory per component, each with its record, one
  definition per operation, a step relation, an invariant and interpretations of the machine
  interfaces. \<open>Rt_Registry\<close> (\<open>registry.go\<close>): canonical projects and worktrees; admission, snapshot
  round trip, deletion bound to its preview, identity binding. \<open>Rt_Launch\<close> (\<open>launch.go\<close>): an owned
  run moves one way. \<open>Rt_Control\<close> (\<open>control.go\<close>): the receipt ledger; terminal evidence is
  immutable, a request is admitted once, stop requests keep capacity. \<open>Rt_Output\<close> (\<open>output.go\<close>): the
  growing ring of output bytes refines the complete byte history. \<open>Rt_Lifecycle\<close>
  (\<open>lifecycle.go\<close>): freshness, shutdown and update deferral. \<open>Rt_Observation\<close> (\<open>observation.go\<close>,
  \<open>metadata.go\<close>, \<open>interruption.go\<close>): derived values. \<open>Rt_Recovery\<close> (\<open>recovery.go\<close>, \<open>resume.go\<close>):
  exits are sealed and a resume continues the same conversation. \<open>Rt_Projection\<close>
  (\<open>projection.go\<close>): what is reported as known is current and causally established; the calls are paired
  with the list of the native evidence that they were given, and the age of the evidence counts from its receipt.
  \<open>Rt_Continuity\<close> (\<open>continuity.go\<close>): a discontinuity, stated over the raw readings, fences off earlier intake. \<open>Rt_History\<close>
  (\<open>history.go\<close>): pages are exact windows and following them is complete.

  \<^bold>\<open>Attestation\<close> (\<open>src/domain/attestation\<close> and \<open>src/infrastructure/sqlite/attestation_store.go\<close>,
  \<open>attestation_anchor.go\<close>): the hash chain over attested rows. Every store the program extends
  verifies, the payloads hashed by a history that was anchored cannot be rewritten without a named SHA-256
  collision, and the anchor file only grows.

  \<^bold>\<open>The recorded domain\<close> (\<open>src/domain/types\<close>, \<open>src/domain/model\<close>). \<open>Domain_Types\<close>: validated strings,
  closed sets (locale \<open>closed_set\<close>), references, scopes, the decay policy. \<open>Session\<close>
  (\<open>session.go\<close>, \<open>session_lifecycle.go\<close>, \<open>session_restore.go\<close>): the first terminal state wins and
  rehydration is faithful. \<open>Memory\<close> (\<open>memory.go\<close>): the status graph and the decay clock.
  \<open>Hook_Delivery\<close> (\<open>event.go\<close>, \<open>hook_delivery.go\<close>, \<open>workspace_alias.go\<close>): delivery identity and
  workspace relationships. \<open>Command_Audit\<close> (\<open>command_audit.go\<close>, \<open>command_audit_restore.go\<close>,
  \<open>command_identity.go\<close>, \<open>command_failure_reason.go\<close>, \<open>tool_access.go\<close>): outcomes stay coherent and
  survive storage, truncation markers are read back, command names are safe keys. \<open>Usage\<close>
  (\<open>usage_observation.go\<close> and the usage types): counters, costs, descriptors and the aggregate that is
  finalized once.

  \<^bold>\<open>The usage repository\<close> (\<open>src/infrastructure/sqlite/usage_observation_datasource.go\<close>). \<open>Usage_Store\<close>
  models the rows, their restoration, the queries and the record transactions, with the constraints of the
  schema that relate rows (migrations 27 and 30). Timestamps are the text of their columns. The table refines an
  abstract ledger of observations: a row restores exactly when its times lie in years of four digits, a snapshot series has one head, an additive claim is won once and for all, and finalized
  accounting never changes. Observations are those that the constructors build,
  with ordered wall times (predicate \<open>recordable\<close>).

  \<^bold>\<open>Session refinement\<close> (\<open>session_refinement.go\<close>, \<open>src/application/usecase/session_refinement_usecase_impl.go\<close>,
  \<open>session_refinement_datasource.go\<close>, \<open>event_order_datasource.go\<close>). \<open>Refinement\<close> composes three layers: the
  aggregate, the write port with its compare-and-swap loop and the guarded upsert. Writers interleave: the
  coverage of a session only widens, a replay changes nothing, and an undisturbed writer never retries. A
  run of the port takes the actions of the rest of the world between its reads and writes as an argument, one
  per attempt; three attempts are the code's own limit.

  \<^bold>\<open>Consolidation requests\<close> (\<open>consolidation_request.go\<close>, \<open>consolidation_request_datasource.go\<close> with its
  statements, \<open>consolidation_request_usecase_impl.go\<close>, \<open>consolidation_pressure_usecase_impl.go\<close>). \<open>Consolidation\<close>:
  the ledger of fold requests and the lease of a prompt delivery. A settled prompt is never handed out again, a
  running lease has one holder, an accepted refinement leaves nothing to claim, and a recorded request is
  read back by the work check and silences it until the stop cadence has passed.

  \<^bold>\<open>Prepared store upgrade\<close> (\<open>src/domain/prepared_store_upgrade.go\<close>, \<open>src/application/usecase/prepared_store_upgrade.go\<close>,
  \<open>src/infrastructure/sqlite/compaction_files.go\<close>). \<open>Upgrade_Run\<close>: the record of a run, its next action, its
  recovery actions and its transitions. \<open>Upgrade_Files\<close>: the append-only journal and the fenced file operations
  on a disk (record \<open>World\<close>) whose every step may fail before or after its effect, which also is what a crash
  leaves. \<open>Upgrade_Protocol\<close>: planning, preparation, publication, resumption and rollback over both. \<open>Upgrade_Safety\<close>
  carries an invariant, that the files lie as the last durable phase says, through all of them with triples over the
  failing disk. \<open>Upgrade_Machine\<close>: any order of operations, failures and repetitions; the original store is never
  lost, a committed offline upgrade is final, and the space that a plan reserves does not wrap around. What
  a recipe may touch is a hypothesis (\<open>recipe_ok\<close>): it builds the candidate and leaves the source path, the
  rollback path and the journals alone.

  \<^bold>\<open>Hook spool\<close> (\<open>src/presentation/cli/hook_spool.go\<close>, \<open>hook_state.go\<close>, \<open>hook_spool_file_nofollow.go\<close>).
  \<open>Spool_Disk\<close>: the spool directory and its system calls (record \<open>Spool\<close>); before each call the other processes may act,
  and the call may fail or the process be killed before, during or after it (a \<open>spool_tick\<close>). \<open>Spool\<close>: the operations of
  the file, from \<open>runHookDurably\<close> over claims, replays, requeues and dead letters to the repair of the doctor
  command. \<open>Spool_Safety\<close>: rely and guarantee triples (\<open>upholds\<close>): assuming that each step of the others keeps \<open>others\<close>,
  each operation keeps it too. \<open>Spool_Machine\<close>: any number of runs; no persisted receipt is lost, what one hook or
  one failed replay does to the files, and the budget of a drain. The hypothesis \<open>whole\<close> leaves out writes that stop
  halfway: the temporary file of a claim is taken for a claim (\<open>interrupted_requeue_duplicates\<close>), and a torn one
  would become a record. A record may be lost, too, when two drawn names collide (\<open>sp_collided\<close>). A record read back is the one written, as JSON
  renders it (\<open>json_record\<close>): bytes that are not UTF-8 are replaced. The disk carries histories that no operation reads: what was persisted
  and delivered, which dead letters were pruned at what age, and which record each drawn name was given to. The loops of the doctor command take a fuel: a run that exhausts it counts as
  killed at that point, which the safety claims allow for at every point; \<open>Spool_Rounds\<close> shows that, undisturbed,
  one round more than there are files is enough.

  \<^bold>\<open>Conventions.\<close> A Go function returning \<open>(value, error)\<close> is a sum with the error on the left; a
  method with a pointer receiver returns the new receiver; a receiver or argument that may be nil,
  and a result that a panic may replace, is an option. Readings of the clock, random identifiers and
  rows returned by the store are arguments. Theorems never assume that SHA-256 is free of
  collisions: they name the two byte strings that would have to collide. Only the loops of the doctor command
  on the hook spool use fuel; all other recursion is structural or has a termination proof.

  \<^bold>\<open>Not modelled.\<close> The other use cases and the daemon services (goroutines and timers around the
  domain's state machines), SQL statements and migrations other than those
  of the attestation walk, the usage repository, the refinement port and the request ledger, file
  access other than that of the prepared upgrade and the hook spool,
  socket and pseudo-terminal access, command line and MCP rendering, the host hook handlers, the
  read-only reports on the hook spool, and the regular-expression redactor. In the modelled packages: trivial getters, the JSON spelling of anchor lines, and the
  busy-retry loop of the attestation verifier.
\<close>

end
